(* ===== verification/Kitsu_Prelude.thy ===== *)
theory Kitsu_Prelude
  imports Main "HOL-Library.Word"
begin

text \<open>
  Shared vocabulary of the development: the machine types of the firmware, the wrap-around
  clock comparison that several components repeat, the byte-order helpers, and the two
  generic interfaces (a step system with an invariant, a canonical codec) that the
  components interpret.

  Conventions.  \<^verbatim>\<open>uint8_t\<close>, \<^verbatim>\<open>uint16_t\<close>, \<^verbatim>\<open>uint32_t\<close> and \<^verbatim>\<open>uint64_t\<close> are words of their
  width, so that every addition and subtraction wraps as in C++; \<^verbatim>\<open>size_t\<close> values that only
  count bytes of a buffer are \<^verbatim>\<open>nat\<close>.  A buffer with its length is a byte list, a pointer
  that may be null is an option, an output reference is a component of the result.
\<close>

unbundle bit_operations_syntax

type_synonym u8 = "8 word"
type_synonym u16 = "16 word"
type_synonym u32 = "32 word"
type_synonym u64 = "64 word"
type_synonym bytes = "u8 list"

named_theorems kitsu_defs \<open>definitions that evaluate a closed term of the model\<close>
named_theorems kitsu_inv \<open>one preservation lemma per operation of a component\<close>

subsection \<open>Ranges of the machine words\<close>

lemma unat8_lt: "unat (x :: u8) < 256"
  using unsigned_less [of x, where 'a = nat] by simp

lemma unat16_lt: "unat (x :: u16) < 65536"
  using unsigned_less [of x, where 'a = nat] by simp

lemma unat32_lt: "unat (x :: u32) < 4294967296"
  using unsigned_less [of x, where 'a = nat] by simp

lemma unat64_lt: "unat (x :: u64) < 18446744073709551616"
  using unsigned_less [of x, where 'a = nat] by simp

lemma unat_plus_small: "unat x + unat y < 2 ^ LENGTH('a) \<Longrightarrow> unat (x + y) = unat x + unat y"
  for x y :: "'a::len word"
  by (simp add: unat_word_ariths)

subsection \<open>Masks and byte splitting\<close>

lemma take_bit_word_small: "unat x < 2 ^ n \<Longrightarrow> take_bit n x = x" for x :: "'a::len word"
  by (simp add: word_unat_eq_iff unsigned_take_bit_eq take_bit_nat_eq_self)

lemma and_mask8:
  fixes x :: u8
  shows "x AND 3 = take_bit 2 x" and "x AND 15 = take_bit 4 x" and "x AND 63 = take_bit 6 x"
  by (simp_all add: take_bit_eq_mask mask_eq_exp_minus_1)

lemma Suc2_diff:
  "2 \<le> n \<Longrightarrow> Suc (Suc (n - 2)) = n" "\<not> n < 2 \<Longrightarrow> Suc (Suc (n - 2)) = n"
  by simp_all

lemma u16_of_bytes: "ucast (ucast (c::u16) :: u8) OR push_bit 8 (ucast (ucast (drop_bit 8 c) :: u8)) = c"
  by (rule bit_word_eqI) (auto simp: bit_simps)

lemma u16_low_byte: "ucast ((ucast (lo::u8) OR push_bit 8 (ucast (hi::u8))) :: u16) = lo"
  by (rule bit_word_eqI) (auto simp: bit_simps)

lemma u16_high_byte: "ucast (drop_bit 8 ((ucast (lo::u8) OR push_bit 8 (ucast (hi::u8))) :: u16)) = hi"
  by (rule bit_word_eqI) (auto simp: bit_simps dest: bit_imp_le_length)

subsection \<open>Wrap-around clock comparison\<close>

text \<open>
  The millisecond clock is a free running 32-bit counter.  A deadline has been reached when
  the wrapped difference, read as a signed number, is not negative.
\<close>

definition deadlineReached :: "u32 \<Rightarrow> u32 \<Rightarrow> bool" where
  "deadlineReached now deadline \<longleftrightarrow> 0 \<le> sint (now - deadline)"

lemma sint_nonneg_iff_unat:
  fixes x :: u32
  shows "0 \<le> sint x \<longleftrightarrow> unat x < 2147483648"
proof -
  have half: "even (k div 2147483648) \<longleftrightarrow> k < 2147483648"
    if "0 \<le> k" "k < 4294967296" for k :: int
    using that by (cases "k < 2147483648") (auto simp: div_pos_geq)
  have "uint x < 4294967296"
    using uint_lt2p [of x] by simp
  then have "even (uint x div 2147483648) \<longleftrightarrow> uint x < 2147483648"
    by (intro half) simp_all
  moreover have "0 \<le> sint x \<longleftrightarrow> even (uint x div 2147483648)"
    by (simp add: sint_uint bit_iff_odd)
  moreover have "unat x < 2147483648 \<longleftrightarrow> uint x < 2147483648"
    using of_nat_less_iff [of "unat x" 2147483648, where 'a = int] by simp
  ultimately show ?thesis by blast
qed

lemma deadlineReached_unat:
  "deadlineReached now deadline \<longleftrightarrow> unat (now - deadline) < 2147483648"
  by (simp only: deadlineReached_def sint_nonneg_iff_unat)

lemma deadlineReached_offset:
  "deadlineReached (base + elapsed) (base + delay)
     \<longleftrightarrow> unat (elapsed - delay) < 2147483648"
  by (simp add: deadlineReached_unat)

lemma deadlineReached_refl [simp]: "deadlineReached now now"
  by (simp add: deadlineReached_unat)

text \<open>
  Within half the range of the counter the comparison is the one of the unwrapped times:
  a deadline \<open>delay\<close> after \<open>base\<close> is reached at \<open>base + elapsed\<close> exactly when
  \<open>delay \<le> elapsed\<close>.
\<close>

lemma deadlineReached_elapsed:
  assumes "unat delay < 2147483648" and "unat elapsed < 2147483648"
  shows "deadlineReached (base + elapsed) (base + delay) \<longleftrightarrow> delay \<le> elapsed"
proof (cases "delay \<le> elapsed")
  case True
  then have "unat (elapsed - delay) = unat elapsed - unat delay"
    by (simp add: unat_sub)
  with True assms(2) show ?thesis by (simp add: deadlineReached_offset)
next
  case False
  then have less: "unat elapsed < unat delay"
    by (simp add: word_less_nat_alt not_le)
  have "uint (elapsed - delay) = uint elapsed - uint delay + 4294967296"
    using False by (simp add: uint_sub_if' word_le_def)
  then have "int (unat (elapsed - delay)) = int (unat elapsed) - int (unat delay) + 4294967296"
    by simp
  with assms have "\<not> unat (elapsed - delay) < 2147483648" by linarith
  with False show ?thesis by (simp add: deadlineReached_offset)
qed

text \<open>A byte counter that stops at its maximum.\<close>

lemma saturating_u8: "unat (if c = 0xff then 0xff else c + 1) = min 255 (unat c + 1)" for c :: u8
proof (cases "c = 0xff")
  case False
  then have "unat c \<noteq> unat (0xff :: u8)" by (simp only: word_unat_eq_iff) simp
  then have "unat c < 255" using unat8_lt [of c] by simp
  then show ?thesis by (simp add: unat_plus_small False)
qed simp

subsection \<open>Little-endian byte images\<close>

text \<open>The object representation of an unsigned integer on the little-endian target.\<close>

definition le_bytes :: "nat \<Rightarrow> 'a :: len word \<Rightarrow> bytes" where
  "le_bytes n w = map (\<lambda>i. ucast (drop_bit (8 * i) w)) [0 ..< n]"

lemma length_le_bytes [simp]: "length (le_bytes n w) = n"
  by (simp add: le_bytes_def)

subsection \<open>Step systems\<close>

text \<open>
  The contract a stateful class offers to its callers: every operation, whatever its
  arguments, keeps the class invariant.  The run of any sequence of calls then keeps it too.
  The events are the calls with their arguments; \<open>step\<close> runs one call.
\<close>

locale step_system =
  fixes step :: "'s \<Rightarrow> 'e \<Rightarrow> 's"
    and inv :: "'s \<Rightarrow> bool"
  assumes step_inv: "inv s \<Longrightarrow> inv (step s e)"
begin

lemma run_inv: "inv s \<Longrightarrow> inv (foldl step s es)"
  by (induction es arbitrary: s) (simp_all add: step_inv)

lemma run_prefix_inv: "inv s \<Longrightarrow> inv (foldl step s (take n es))"
  by (rule run_inv)

text \<open>A quantity that no single call can change is not changed by a run.\<close>

lemma run_frame:
  assumes "\<And>s e. inv s \<Longrightarrow> P e \<Longrightarrow> f (step s e) = f s"
  shows "inv s \<Longrightarrow> \<forall>e \<in> set es. P e \<Longrightarrow> f (foldl step s es) = f s"
  by (induction es arbitrary: s) (simp_all add: assms step_inv)

text \<open>A transitive relation respected by every call relates the ends of a run.\<close>

lemma run_mono:
  assumes "\<And>s. R s s" and "\<And>a b c. R a b \<Longrightarrow> R b c \<Longrightarrow> R a c"
    and "\<And>s e. inv s \<Longrightarrow> R s (step s e)"
  shows "inv s \<Longrightarrow> R s (foldl step s es)"
  by (induction es arbitrary: s) (auto intro: assms step_inv)

end

subsection \<open>Canonical codecs\<close>

text \<open>
  What a wire or storage format promises: every value of the domain decodes back from its
  encoding, and every accepted encoding is the encoding of what it decodes to.
\<close>

locale codec =
  fixes enc :: "'a \<Rightarrow> 'b" and dec :: "'b \<Rightarrow> 'a option" and dom :: "'a \<Rightarrow> bool"
  assumes dec_enc: "dom x \<Longrightarrow> dec (enc x) = Some x"
    and enc_dec: "dec b = Some x \<Longrightarrow> dom x \<and> enc x = b"
begin

lemma dec_iff: "dec b = Some x \<longleftrightarrow> dom x \<and> b = enc x"
  using dec_enc enc_dec by blast

lemma enc_inj: "dom x \<Longrightarrow> dom y \<Longrightarrow> enc x = enc y \<Longrightarrow> x = y"
  by (metis dec_enc option.inject)

lemma dec_inj: "dec b = Some x \<Longrightarrow> dec c = Some x \<Longrightarrow> b = c"
  using enc_dec by blast

lemma dec_reject: "dec b = None \<longleftrightarrow> (\<forall>x. dom x \<longrightarrow> enc x \<noteq> b)"
  using dec_enc enc_dec by (metis not_None_eq)

end

end
