(* ===== verification/Storage_Retry.thy ===== *)
theory Storage_Retry
  imports Kitsu_Prelude
begin

text \<open>
  The bounded write-retry schedule of \<^verbatim>\<open>src/src/kitsu_storage_retry.{h,cpp}\<close>: the class
  \<^verbatim>\<open>StorageRetrySchedule\<close> as a record, one definition per method, and the schedule's
  guarantees: new data never shortens a failure backoff, a no-space result stays latched
  until headroom is confirmed, and the delay table is never read out of range.
\<close>

definition kStorageRetryDelaysMs :: "u32 list" where
  "kStorageRetryDelaysMs =
     [5000, 30000, 2 * 60 * 1000, 10 * 60 * 1000, 30 * 60 * 1000]"

definition kStorageRetryDelayCount :: u8 where
  "kStorageRetryDelayCount = of_nat (length kStorageRetryDelaysMs)"

datatype StorageRetryFailure = Transient | NoSpace

record StorageRetrySchedule =
  dirty :: bool
  blockedNoSpace :: bool
  failureCount :: u8
  dueAt :: u32
  lastAttemptAt :: u32

definition srs_reset :: "StorageRetrySchedule \<Rightarrow> StorageRetrySchedule" where
  "srs_reset s = s\<lparr>dirty := False, blockedNoSpace := False, failureCount := 0,
     dueAt := 0, lastAttemptAt := 0\<rparr>"

definition srs_initial :: StorageRetrySchedule where
  "srs_initial = \<lparr>dirty = False, blockedNoSpace = False, failureCount = 0,
     dueAt = 0, lastAttemptAt = 0\<rparr>"

definition markDirty :: "u32 \<Rightarrow> u32 \<Rightarrow> StorageRetrySchedule \<Rightarrow> StorageRetrySchedule" where
  "markDirty now initialDelayMs s =
     (let candidate = now + initialDelayMs in
      if \<not> dirty s then s\<lparr>dirty := True, dueAt := candidate\<rparr>
      else if blockedNoSpace s \<or> failureCount s \<noteq> 0 then s
      else let remaining = dueAt s - now in
        if deadlineReached now (dueAt s) \<or> initialDelayMs < remaining
        then s\<lparr>dueAt := candidate\<rparr> else s)"

definition attemptDue :: "u32 \<Rightarrow> StorageRetrySchedule \<Rightarrow> bool" where
  "attemptDue now s \<longleftrightarrow> dirty s \<and> \<not> blockedNoSpace s \<and> deadlineReached now (dueAt s)"

definition recordAttempt :: "u32 \<Rightarrow> StorageRetrySchedule \<Rightarrow> StorageRetrySchedule" where
  "recordAttempt now s = s\<lparr>lastAttemptAt := now\<rparr>"

definition recordSuccess :: "StorageRetrySchedule \<Rightarrow> StorageRetrySchedule" where
  "recordSuccess s = srs_reset s"

definition recordFailure ::
  "u32 \<Rightarrow> StorageRetryFailure \<Rightarrow> StorageRetrySchedule \<Rightarrow> StorageRetrySchedule" where
  "recordFailure now failure s =
     (let s = s\<lparr>dirty := True\<rparr> in
      if failure = NoSpace then s\<lparr>blockedNoSpace := True, dueAt := 0\<rparr>
      else let count = (if failureCount s < kStorageRetryDelayCount
                        then failureCount s + 1 else failureCount s);
               delayIndex = (if count = 0 then 0 else count - 1)
        in s\<lparr>failureCount := count,
             dueAt := now + kStorageRetryDelaysMs ! unat delayIndex\<rparr>)"

definition rearmAfterHeadroom ::
  "u32 \<Rightarrow> u32 \<Rightarrow> StorageRetrySchedule \<Rightarrow> StorageRetrySchedule" where
  "rearmAfterHeadroom now initialDelayMs s =
     (if \<not> dirty s \<or> \<not> blockedNoSpace s then s
      else s\<lparr>blockedNoSpace := False, failureCount := 0, dueAt := now + initialDelayMs\<rparr>)"

text \<open>The calls a client makes, as events, and the class as a step system.\<close>

datatype srs_event =
    MarkDirty u32 u32
  | RecordAttempt u32
  | RecordSuccess
  | RecordFailure u32 StorageRetryFailure
  | RearmAfterHeadroom u32 u32
  | Reset

fun srs_step :: "StorageRetrySchedule \<Rightarrow> srs_event \<Rightarrow> StorageRetrySchedule" where
  "srs_step s (MarkDirty now d) = markDirty now d s"
| "srs_step s (RecordAttempt now) = recordAttempt now s"
| "srs_step s RecordSuccess = recordSuccess s"
| "srs_step s (RecordFailure now f) = recordFailure now f s"
| "srs_step s (RearmAfterHeadroom now d) = rearmAfterHeadroom now d s"
| "srs_step s Reset = srs_reset s"

text \<open>
  The invariant: the failure count never passes the length of the delay table, and a
  schedule with nothing to write has neither a failure nor a latched no-space result.
\<close>

definition srs_inv :: "StorageRetrySchedule \<Rightarrow> bool" where
  "srs_inv s \<longleftrightarrow> failureCount s \<le> kStorageRetryDelayCount
     \<and> (\<not> dirty s \<longrightarrow> \<not> blockedNoSpace s \<and> failureCount s = 0 \<and> dueAt s = 0)"

lemmas srs_defs = srs_reset_def srs_initial_def markDirty_def attemptDue_def
  recordAttempt_def recordSuccess_def recordFailure_def rearmAfterHeadroom_def Let_def

lemma delay_count [simp]: "kStorageRetryDelayCount = 5"
  by (simp add: kStorageRetryDelayCount_def kStorageRetryDelaysMs_def)

lemma srs_inv_initial: "srs_inv srs_initial"
  by (simp add: srs_inv_def srs_defs)

lemma count_step_le:
  fixes c :: u8
  assumes "c < 5"
  shows "c + 1 \<le> 5" and "c + 1 \<noteq> 0" and "unat c < 5"
proof -
  have u: "unat c < 5" using assms by (simp add: word_less_nat_alt)
  then have s: "unat (c + 1) = unat c + 1" by (subst unat_add_lem [THEN iffD1]) simp_all
  from u s show "c + 1 \<le> 5" by (simp add: word_le_nat_alt)
  from s show "c + 1 \<noteq> 0" by (metis add_is_0 one_neq_zero unat_0)
  from u show "unat c < 5" .
qed

lemma srs_step_inv: "srs_inv s \<Longrightarrow> srs_inv (srs_step s e)"
  by (cases e) (auto simp: srs_inv_def srs_defs count_step_le)

interpretation srs: step_system srs_step srs_inv
  by unfold_locales (rule srs_step_inv)

subsection \<open>Backoff\<close>

text \<open>Calls that only announce new data or log an attempt.\<close>

fun quiet_event :: "srs_event \<Rightarrow> bool" where
  "quiet_event (MarkDirty _ _) = True"
| "quiet_event (RecordAttempt _) = True"
| "quiet_event _ = False"

fun keeps_block :: "srs_event \<Rightarrow> bool" where
  "keeps_block (MarkDirty _ _) = True"
| "keeps_block (RecordAttempt _) = True"
| "keeps_block (RecordFailure _ _) = True"
| "keeps_block _ = False"

lemma quiet_step_backoff:
  assumes "dirty s" and "failureCount s \<noteq> 0" and "quiet_event e"
  shows "dirty (srs_step s e)" and "failureCount (srs_step s e) = failureCount s"
    and "dueAt (srs_step s e) = dueAt s"
    and "blockedNoSpace (srs_step s e) = blockedNoSpace s"
  using assms by (cases e; simp add: srs_defs)+

lemma quiet_run_backoff:
  assumes "dirty s" and "failureCount s \<noteq> 0" and "\<forall>e \<in> set es. quiet_event e"
  shows "attemptDue t (foldl srs_step s es) = attemptDue t s"
  using assms
proof (induction es arbitrary: s)
  case Nil
  then show ?case by simp
next
  case (Cons e es)
  then have "attemptDue t (foldl srs_step (srs_step s e) es) = attemptDue t (srs_step s e)"
    by (intro Cons.IH) (simp_all add: quiet_step_backoff)
  also have "\<dots> = attemptDue t s"
    using Cons.prems by (simp add: attemptDue_def quiet_step_backoff)
  finally show ?case by simp
qed

lemma recordFailure_transient:
  assumes "srs_inv s"
  shows "dirty (recordFailure now Transient s)"
    and "failureCount (recordFailure now Transient s) \<noteq> 0"
    and "blockedNoSpace (recordFailure now Transient s) = blockedNoSpace s"
    and "dueAt (recordFailure now Transient s)
           = now + kStorageRetryDelaysMs ! min (unat (failureCount s)) 4"
proof -
  have le: "failureCount s \<le> 5" using assms by (simp add: srs_inv_def)
  consider "failureCount s < 5" | "failureCount s = 5" using le by fastforce
  then have "failureCount (recordFailure now Transient s) \<noteq> 0
    \<and> dueAt (recordFailure now Transient s)
        = now + kStorageRetryDelaysMs ! min (unat (failureCount s)) 4"
  proof cases
    case 1
    with count_step_le [of "failureCount s"] show ?thesis
      by (simp add: recordFailure_def Let_def min_def)
  next
    case 2
    then show ?thesis by (simp add: recordFailure_def)
  qed
  then show "failureCount (recordFailure now Transient s) \<noteq> 0"
    and "dueAt (recordFailure now Transient s)
           = now + kStorageRetryDelaysMs ! min (unat (failureCount s)) 4" by simp_all
  show "dirty (recordFailure now Transient s)"
    and "blockedNoSpace (recordFailure now Transient s) = blockedNoSpace s"
    by (simp_all add: recordFailure_def Let_def)
qed

lemma delay_small:
  assumes "n < 5"
  shows "unat (kStorageRetryDelaysMs ! n) < 2147483648"
proof -
  have "n \<in> {0, 1, 2, 3, 4}" using assms by auto
  then show ?thesis by (auto simp: kStorageRetryDelaysMs_def)
qed

text \<open>
  After a transient write failure at time \<open>now\<close>, and whatever new data is announced and
  whatever attempts are logged in the meantime, the next attempt is due exactly when the
  delay of the table's row for the number of failures so far has passed: announcing new
  data never bypasses a failure backoff (for times less than half the clock range away).
\<close>

lemma backoff_never_bypassed:
  assumes "srs_inv s" and "\<not> blockedNoSpace s"
    and "\<forall>e \<in> set es. quiet_event e" and "unat elapsed < 2147483648"
  shows "attemptDue (now + elapsed) (foldl srs_step (recordFailure now Transient s) es)
     \<longleftrightarrow> kStorageRetryDelaysMs ! min (unat (failureCount s)) 4 \<le> elapsed"
proof -
  let ?s = "recordFailure now Transient s"
  have small: "unat (kStorageRetryDelaysMs ! min (unat (failureCount s)) 4) < 2147483648"
    by (rule delay_small) simp
  have "attemptDue (now + elapsed) (foldl srs_step ?s es) = attemptDue (now + elapsed) ?s"
    using recordFailure_transient [OF assms(1)] assms(3) by (intro quiet_run_backoff) auto
  also have "\<dots> \<longleftrightarrow> kStorageRetryDelaysMs ! min (unat (failureCount s)) 4 \<le> elapsed"
    using recordFailure_transient [OF assms(1), of now] assms(2)
      deadlineReached_elapsed [OF small assms(4), of now]
    by (simp add: attemptDue_def)
  finally show ?thesis .
qed

lemma backoff_never_bypassed_witness:
  "attemptDue (4294967000 + 5000)
     (foldl srs_step (recordFailure 4294967000 Transient srs_initial)
        [MarkDirty 4294967100 10, RecordAttempt 4294967200])
   \<and> \<not> attemptDue (4294967000 + 4999)
     (foldl srs_step (recordFailure 4294967000 Transient srs_initial)
        [MarkDirty 4294967100 10, RecordAttempt 4294967200])"
  using backoff_never_bypassed [of srs_initial
      "[MarkDirty 4294967100 10, RecordAttempt 4294967200]" 5000 4294967000]
    backoff_never_bypassed [of srs_initial
      "[MarkDirty 4294967100 10, RecordAttempt 4294967200]" 4999 4294967000]
  by (simp add: srs_inv_initial, simp add: srs_initial_def kStorageRetryDelaysMs_def)

lemma keeps_block_step:
  "dirty s \<Longrightarrow> blockedNoSpace s \<Longrightarrow> keeps_block e
     \<Longrightarrow> dirty (srs_step s e) \<and> blockedNoSpace (srs_step s e)"
  by (cases e) (simp_all add: srs_defs)

lemma keeps_block_run:
  "dirty s \<Longrightarrow> blockedNoSpace s \<Longrightarrow> \<forall>e \<in> set es. keeps_block e
     \<Longrightarrow> dirty (foldl srs_step s es) \<and> blockedNoSpace (foldl srs_step s es)"
  by (induction es arbitrary: s) (simp_all add: keeps_block_step)

text \<open>
  A no-space failure is latched: until the headroom is confirmed, a write succeeds or
  the schedule is reset, no attempt is due at any time, whatever data is announced and
  whatever further failures are recorded; confirming headroom schedules exactly one
  attempt after the given delay.
\<close>

lemma no_space_latched:
  assumes "\<forall>e \<in> set es. keeps_block e"
  shows "\<not> attemptDue t (foldl srs_step (recordFailure now NoSpace s) es)
    \<and> (\<forall>now' d. attemptDue t' (rearmAfterHeadroom now' d
              (foldl srs_step (recordFailure now NoSpace s) es))
            \<longleftrightarrow> deadlineReached t' (now' + d))"
proof -
  have "dirty (foldl srs_step (recordFailure now NoSpace s) es)
      \<and> blockedNoSpace (foldl srs_step (recordFailure now NoSpace s) es)"
    by (rule keeps_block_run) (simp_all add: recordFailure_def assms)
  then show ?thesis by (simp add: attemptDue_def rearmAfterHeadroom_def)
qed

lemma no_space_latched_witness:
  "\<not> attemptDue 90 (foldl srs_step (recordFailure 7 NoSpace srs_initial)
       [MarkDirty 20 0, RecordFailure 30 Transient])
   \<and> attemptDue 105 (rearmAfterHeadroom 100 5
       (foldl srs_step (recordFailure 7 NoSpace srs_initial)
         [MarkDirty 20 0, RecordFailure 30 Transient]))"
  using no_space_latched [of "[MarkDirty 20 0, RecordFailure 30 Transient]" 90 7 srs_initial 105]
  by simp

text \<open>
  What announcing data does to a pending first write: with no failure recorded, a
  deadline still ahead only moves earlier, to the announced delay when that is shorter; a
  deadline already reached is replaced by \<open>now + initialDelayMs\<close>, so a write that was due
  at \<open>now\<close> is due no longer.
\<close>

lemma markDirty_debounce:
  assumes "dirty s" and "\<not> blockedNoSpace s" and "failureCount s = 0"
  shows "dueAt (markDirty now d s) =
      (if deadlineReached now (dueAt s) then now + d else now + min d (dueAt s - now))
    \<and> (attemptDue now s \<and> 0 < d \<and> unat d < 2147483648
        \<longrightarrow> \<not> attemptDue now (markDirty now d s))"
proof -
  have due: "dueAt (markDirty now d s) =
      (if deadlineReached now (dueAt s) then now + d else now + min d (dueAt s - now))"
    using assms by (simp add: markDirty_def Let_def min_def) (auto simp: word_le_less_eq)
  have "\<not> deadlineReached (now + 0) (now + d)" if "0 < d" and "unat d < 2147483648"
    using deadlineReached_elapsed [OF that(2), of 0 now] that(1) by simp
  with due show ?thesis by (auto simp: attemptDue_def)
qed

lemma markDirty_debounce_witness:
  "(let s = markDirty 1000 50 srs_initial in
     dueAt (markDirty 1010 10 s) = 1020 \<and> attemptDue 1060 s
     \<and> \<not> attemptDue 1060 (markDirty 1060 50 s))"
proof -
  let ?s = "markDirty 1000 50 srs_initial"
  have s: "dirty ?s" "\<not> blockedNoSpace ?s" "failureCount ?s = 0" "dueAt ?s = 1050"
    by (simp_all add: srs_defs)
  have "attemptDue 1060 ?s" by (simp add: s attemptDue_def deadlineReached_unat)
  with markDirty_debounce [OF s(1-3), of 1010 10] markDirty_debounce [OF s(1-3), of 1060 50] s(4)
  show ?thesis by (simp add: Let_def deadlineReached_unat)
qed

end
