(* ===== verification/Nvs_Guard.thy ===== *)
theory Nvs_Guard
  imports Kitsu_Prelude
begin

text \<open>
  Protection of the main NVS partition: the erase guard of
  \<^verbatim>\<open>src/src/kitsu_nvs_erase_guard.{h,cpp}\<close>, which the linker puts in front of the flash
  erase primitive, and the pairing headroom check of \<^verbatim>\<open>src/src/kitsu_nvs_headroom.{h,cpp}\<close>.
  The real erase primitive and the ESP-IDF NVS functions are parameters that act on an
  abstract world \<open>'w\<close>; what the code relies on of them is stated as a hypothesis.
\<close>

datatype esp_err =
    ESP_OK
  | ESP_ERR_INVALID_STATE
  | ESP_ERR_NVS_NOT_FOUND
  | ESP_ERR_other nat

subsection \<open>The erase guard\<close>

record esp_partition =
  part_type :: u8
  part_subtype :: u8
  part_address :: u32
  part_size :: u32
  part_label :: string

definition ESP_PARTITION_TYPE_DATA :: u8 where "ESP_PARTITION_TYPE_DATA = 1"
definition ESP_PARTITION_SUBTYPE_DATA_NVS :: u8 where "ESP_PARTITION_SUBTYPE_DATA_NVS = 2"

definition isWholeNvsErase :: "esp_partition option \<Rightarrow> u32 \<Rightarrow> u32 \<Rightarrow> bool" where
  "isWholeNvsErase part offset n = (case part of
       None \<Rightarrow> False
     | Some p \<Rightarrow> part_type p = ESP_PARTITION_TYPE_DATA
         \<and> part_subtype p = ESP_PARTITION_SUBTYPE_DATA_NVS
         \<and> part_label p = ''nvs''
         \<and> part_address p = 0x009000
         \<and> (part_size p = 0x005000 \<or> part_size p = 0x040000)
         \<and> offset = 0 \<and> n = part_size p)"

text \<open>The guard's state is the latch \<^verbatim>\<open>blocked\<close>; the flash contents are in the world.\<close>

type_synonym 'w erase_primitive =
  "esp_partition option \<Rightarrow> u32 \<Rightarrow> u32 \<Rightarrow> 'w \<Rightarrow> esp_err \<times> 'w"

definition wrap_esp_partition_erase_range ::
  "'w erase_primitive \<Rightarrow> esp_partition option \<Rightarrow> u32 \<Rightarrow> u32 \<Rightarrow> bool \<times> 'w \<Rightarrow> esp_err \<times> bool \<times> 'w"
where
  "wrap_esp_partition_erase_range real part offset n st =
     (if isWholeNvsErase part offset n then (ESP_ERR_INVALID_STATE, True, snd st)
      else (case real part offset n (snd st) of (r, w) \<Rightarrow> (r, fst st, w)))"

definition destructiveNvsEraseBlocked :: "bool \<times> 'w \<Rightarrow> bool" where
  "destructiveNvsEraseBlocked st = fst st"

type_synonym erase_request = "esp_partition option \<times> u32 \<times> u32"

definition guarded_erase :: "'w erase_primitive \<Rightarrow> bool \<times> 'w \<Rightarrow> erase_request \<Rightarrow> bool \<times> 'w" where
  "guarded_erase real st req =
     (case req of (p, off, n) \<Rightarrow> snd (wrap_esp_partition_erase_range real p off n st))"

definition real_erase :: "'w erase_primitive \<Rightarrow> 'w \<Rightarrow> erase_request \<Rightarrow> 'w" where
  "real_erase real w req = (case req of (p, off, n) \<Rightarrow> snd (real p off n w))"

definition whole_nvs :: "erase_request \<Rightarrow> bool" where
  "whole_nvs req = (case req of (p, off, n) \<Rightarrow> isWholeNvsErase p off n)"

lemma guarded_erase_simp:
  "guarded_erase real (b, w) req =
     (if whole_nvs req then (True, w) else (b, real_erase real w req))"
  by (cases req) (simp add: guarded_erase_def wrap_esp_partition_erase_range_def whole_nvs_def
      real_erase_def split: prod.split)

text \<open>
  For every sequence of erase requests that the Arduino start-up and the firmware issue,
  the flash ends as if the requests for the whole main NVS partition had never been made
  and all others had been executed by the real primitive; the latch reads true exactly when
  it was set before or some request was such a whole-partition erase.
\<close>

lemma erase_guard_filters:
  "foldl (guarded_erase real) (b, w) reqs =
     (b \<or> (\<exists>req \<in> set reqs. whole_nvs req),
      foldl (real_erase real) w (filter (\<lambda>req. \<not> whole_nvs req) reqs))"
  by (induction reqs arbitrary: b w) (auto simp: guarded_erase_simp)

subsection \<open>Pairing headroom\<close>

definition kNvsEntryBytes :: nat where "kNvsEntryBytes = 32"
definition kNvsEntriesPerPage :: nat where "kNvsEntriesPerPage = 126"

definition nvsBlobEntries :: "nat \<Rightarrow> nat" where
  "nvsBlobEntries payloadBytes = 2 + (payloadBytes + kNvsEntryBytes - 1) div kNvsEntryBytes"

definition kSecuritySlotBytes :: nat where "kSecuritySlotBytes = 364"

definition kSecurityTransactionEntries :: nat where
  "kSecurityTransactionEntries = nvsBlobEntries kSecuritySlotBytes"

definition kNimbleBondEntries :: nat where
  "kNimbleBondEntries = nvsBlobEntries 88 + nvsBlobEntries 88 + nvsBlobEntries 14
     + nvsBlobEntries 8 + 2 * nvsBlobEntries 16"

definition kPairingSafetyEntries :: nat where "kPairingSafetyEntries = 12"

definition kPairingRequiredUsableEntries :: nat where
  "kPairingRequiredUsableEntries =
     kNimbleBondEntries + kSecurityTransactionEntries + kPairingSafetyEntries"

definition kPairingRequiredFreeEntries :: nat where
  "kPairingRequiredFreeEntries = kNvsEntriesPerPage + kPairingRequiredUsableEntries"

lemmas headroom_consts = kNvsEntryBytes_def kNvsEntriesPerPage_def nvsBlobEntries_def
  kSecuritySlotBytes_def kSecurityTransactionEntries_def kNimbleBondEntries_def
  kPairingSafetyEntries_def kPairingRequiredUsableEntries_def kPairingRequiredFreeEntries_def

record NvsHeadroomStats =
  usedEntries :: nat
  freeEntries :: nat
  totalEntries :: nat

datatype NvsHeadroomResult =
    ReadyAlreadyClean
  | ReadyReclaimed
  | RetiredActionReplayCleanupFailed
  | RetiredBluedroidCleanupFailed
  | StatsFailed
  | Insufficient

record NvsHeadroomStatus =
  hr_result :: NvsHeadroomResult
  retiredActionReplay :: bool
  retiredBluedroid :: bool
  hr_stats :: NvsHeadroomStats

text \<open>
  The virtual class \<^verbatim>\<open>NvsHeadroomPlatform\<close>: each method returns its success, its output and
  the new world.
\<close>

record 'w NvsHeadroomPlatform =
  eraseRetiredActionReplay :: "'w \<Rightarrow> bool \<times> bool \<times> 'w"
  eraseRetiredBluedroidConfig :: "'w \<Rightarrow> bool \<times> bool \<times> 'w"
  readStats :: "'w \<Rightarrow> bool \<times> NvsHeadroomStats \<times> 'w"

definition status0 :: NvsHeadroomStatus where
  "status0 = \<lparr>hr_result = StatsFailed, retiredActionReplay = False, retiredBluedroid = False,
     hr_stats = \<lparr>usedEntries = 0, freeEntries = 0, totalEntries = 0\<rparr>\<rparr>"

definition preparePairing :: "'w NvsHeadroomPlatform \<Rightarrow> 'w \<Rightarrow> NvsHeadroomStatus \<times> 'w" where
  "preparePairing platform w =
     (case eraseRetiredActionReplay platform w of (okA, changedA, w) \<Rightarrow>
      let st = status0\<lparr>retiredActionReplay := changedA\<rparr> in
      if \<not> okA then (st\<lparr>hr_result := RetiredActionReplayCleanupFailed\<rparr>, w)
      else (case eraseRetiredBluedroidConfig platform w of (okB, changedB, w) \<Rightarrow>
      let st = st\<lparr>retiredBluedroid := changedB\<rparr> in
      if \<not> okB then (st\<lparr>hr_result := RetiredBluedroidCleanupFailed\<rparr>, w)
      else (case readStats platform w of (okS, stats, w) \<Rightarrow>
      let st = st\<lparr>hr_stats := stats\<rparr> in
      if \<not> okS then (st\<lparr>hr_result := StatsFailed\<rparr>, w)
      else if freeEntries stats < kPairingRequiredFreeEntries
      then (st\<lparr>hr_result := Insufficient\<rparr>, w)
      else (st\<lparr>hr_result := (if retiredActionReplay st \<or> retiredBluedroid st
                             then ReadyReclaimed else ReadyAlreadyClean)\<rparr>, w))))"

definition pairingHeadroomReady :: "NvsHeadroomStatus \<Rightarrow> bool" where
  "pairingHeadroomReady st \<longleftrightarrow> hr_result st = ReadyAlreadyClean \<or> hr_result st = ReadyReclaimed"

definition pairingUsableEntries :: "NvsHeadroomStatus \<Rightarrow> nat" where
  "pairingUsableEntries st =
     (if freeEntries (hr_stats st) > kNvsEntriesPerPage
      then freeEntries (hr_stats st) - kNvsEntriesPerPage else 0)"

subsection \<open>The ESP32 platform over the NVS API\<close>

text \<open>
  The ESP-IDF functions the platform calls, as a table of functions over the world.  An open
  returns a handle; \<^verbatim>\<open>nvs_get_blob\<close> is only used to ask for the size of a blob.
\<close>

record 'w nvs_api =
  nvs_open :: "string \<Rightarrow> bool \<Rightarrow> 'w \<Rightarrow> esp_err \<times> u32 \<times> 'w"
  nvs_get_blob :: "u32 \<Rightarrow> string \<Rightarrow> 'w \<Rightarrow> esp_err \<times> 'w"
  nvs_close :: "u32 \<Rightarrow> 'w \<Rightarrow> 'w"
  nvs_erase_key :: "u32 \<Rightarrow> string \<Rightarrow> 'w \<Rightarrow> esp_err \<times> 'w"
  nvs_commit :: "u32 \<Rightarrow> 'w \<Rightarrow> esp_err \<times> 'w"
  nvs_get_stats :: "'w \<Rightarrow> esp_err \<times> NvsHeadroomStats \<times> 'w"

definition eraseExactRetiredBlob ::
  "'w nvs_api \<Rightarrow> string \<Rightarrow> string \<Rightarrow> 'w \<Rightarrow> bool \<times> bool \<times> 'w" where
  "eraseExactRetiredBlob api nvsNamespace key w =
     (case nvs_open api nvsNamespace False w of (opened, readHandle, w) \<Rightarrow>
      if opened = ESP_ERR_NVS_NOT_FOUND then (True, False, w)
      else if opened \<noteq> ESP_OK then (False, False, w)
      else (case nvs_get_blob api readHandle key w of (found, w) \<Rightarrow>
      let w = nvs_close api readHandle w in
      if found = ESP_ERR_NVS_NOT_FOUND then (True, False, w)
      else if found \<noteq> ESP_OK then (False, False, w)
      else (case nvs_open api nvsNamespace True w of (reopened, writeHandle, w) \<Rightarrow>
      if reopened \<noteq> ESP_OK then (False, False, w)
      else (case nvs_erase_key api writeHandle key w of (erased, w) \<Rightarrow>
      (case (if erased = ESP_OK then nvs_commit api writeHandle w else (erased, w)) of
        (committed, w) \<Rightarrow>
      (case (if committed = ESP_OK then nvs_get_blob api writeHandle key w else (committed, w)) of
        (verified, w) \<Rightarrow>
      let w = nvs_close api writeHandle w in
      if erased \<noteq> ESP_OK \<or> committed \<noteq> ESP_OK \<or> verified \<noteq> ESP_ERR_NVS_NOT_FOUND
      then (False, False, w) else (True, True, w)))))))"

definition kRetiredActionReplayNamespace :: string where
  "kRetiredActionReplayNamespace = ''wisp868''"
definition kRetiredActionReplayKey :: string where
  "kRetiredActionReplayKey = ''ble_act_v1''"
definition kRetiredBluedroidNamespace :: string where
  "kRetiredBluedroidNamespace = ''bt_config.conf''"
definition kRetiredBluedroidKey :: string where
  "kRetiredBluedroidKey = ''bt_cfg_key0''"

definition esp32NvsHeadroomPlatform :: "'w nvs_api \<Rightarrow> 'w NvsHeadroomPlatform" where
  "esp32NvsHeadroomPlatform api =
     \<lparr>eraseRetiredActionReplay =
        eraseExactRetiredBlob api kRetiredActionReplayNamespace kRetiredActionReplayKey,
      eraseRetiredBluedroidConfig =
        eraseExactRetiredBlob api kRetiredBluedroidNamespace kRetiredBluedroidKey,
      readStats = (\<lambda>w. case nvs_get_stats api w of (r, stats, w) \<Rightarrow>
        if r \<noteq> ESP_OK
        then (False, \<lparr>usedEntries = 0, freeEntries = 0, totalEntries = 0\<rparr>, w)
        else (True, stats, w))\<rparr>"

text \<open>
  The pairing gate: the headroom is reported ready exactly when both retired records
  were cleaned up, the statistics could be read and at least 174 entries are free; then at
  least 48 usable entries remain beyond the page reserved for garbage collection, enough for
  one controller bond (22), one security-slot transaction (14) and the safety margin (12).
  A failed stage reports its own result and the later stages are not run.
\<close>

lemma preparePairing_gate:
  fixes platform :: "'w NvsHeadroomPlatform"
  shows "case eraseRetiredActionReplay platform w of (okA, chA, w1) \<Rightarrow>
    case eraseRetiredBluedroidConfig platform w1 of (okB, chB, w2) \<Rightarrow>
    case readStats platform w2 of (okS, stats, w3) \<Rightarrow>
    case preparePairing platform w of (st, w') \<Rightarrow>
      (pairingHeadroomReady st \<longleftrightarrow> okA \<and> okB \<and> okS \<and> 174 \<le> freeEntries stats)
      \<and> (pairingHeadroomReady st \<longrightarrow> hr_stats st = stats
           \<and> 22 + 14 + 12 \<le> pairingUsableEntries st
           \<and> (hr_result st = ReadyReclaimed \<longleftrightarrow> chA \<or> chB))
      \<and> w' = (if \<not> okA then w1 else if \<not> okB then w2 else w3)
      \<and> (\<not> okA \<longrightarrow> hr_result st = RetiredActionReplayCleanupFailed)
      \<and> (okA \<and> \<not> okB \<longrightarrow> hr_result st = RetiredBluedroidCleanupFailed)
      \<and> (okA \<and> okB \<and> \<not> okS \<longrightarrow> hr_result st = StatsFailed)
      \<and> (okA \<and> okB \<and> okS \<and> freeEntries stats < 174 \<longrightarrow> hr_result st = Insufficient)"
  by (auto simp: preparePairing_def pairingHeadroomReady_def pairingUsableEntries_def
      status0_def headroom_consts Let_def split: prod.split)

lemma preparePairing_gate_witness:
  "(let platform = \<lparr>eraseRetiredActionReplay = (\<lambda>w. (True, True, w + 1)),
        eraseRetiredBluedroidConfig = (\<lambda>w. (True, False, w + 1)),
        readStats = (\<lambda>w. (True, \<lparr>usedEntries = 10, freeEntries = 174, totalEntries = 184\<rparr>, w + 1))\<rparr>
    in pairingHeadroomReady (fst (preparePairing platform (0 :: nat)))
       \<and> 48 \<le> pairingUsableEntries (fst (preparePairing platform (0 :: nat))))"
  using preparePairing_gate [of "\<lparr>eraseRetiredActionReplay = (\<lambda>w. (True, True, w + 1)),
        eraseRetiredBluedroidConfig = (\<lambda>w. (True, False, w + 1)),
        readStats = (\<lambda>w. (True, \<lparr>usedEntries = 10, freeEntries = 174, totalEntries = 184\<rparr>, w + 1))\<rparr>"
      "0 :: nat"]
  by (simp add: Let_def case_prod_beta)

subsection \<open>What the cleanup erases\<close>

text \<open>
  The documented behaviour of the NVS functions that the cleanup relies on, with \<open>recs\<close> the
  stored records by namespace and key and \<open>ns_of\<close> the namespace of an open handle: opening,
  sizing, committing and closing change no record, an open that reports no namespace means
  the namespace holds no record, a size query reports not-found exactly for an absent
  record, and erasing a key touches at most that key of the handle's namespace.
\<close>

definition nvs_documented ::
  "'w nvs_api \<Rightarrow> ('w \<Rightarrow> string \<times> string \<Rightarrow> 'r option) \<Rightarrow> ('w \<Rightarrow> u32 \<Rightarrow> string option) \<Rightarrow> bool" where
  "nvs_documented api recs ns_of \<longleftrightarrow>
     (\<forall>ns rw w r h w'. nvs_open api ns rw w = (r, h, w') \<longrightarrow> recs w' = recs w
        \<and> (r = ESP_OK \<longrightarrow> ns_of w' h = Some ns)
        \<and> (r = ESP_ERR_NVS_NOT_FOUND \<longrightarrow> (\<forall>k. recs w (ns, k) = None)))
   \<and> (\<forall>h k w r w'. nvs_get_blob api h k w = (r, w') \<longrightarrow> recs w' = recs w \<and> ns_of w' = ns_of w
        \<and> (\<forall>ns. ns_of w h = Some ns \<longrightarrow> (r = ESP_ERR_NVS_NOT_FOUND \<longleftrightarrow> recs w (ns, k) = None)))
   \<and> (\<forall>h w. recs (nvs_close api h w) = recs w)
   \<and> (\<forall>h k w r w'. nvs_erase_key api h k w = (r, w') \<longrightarrow> ns_of w' = ns_of w
        \<and> (\<forall>ns. ns_of w h = Some ns \<longrightarrow>
             (\<forall>x. x \<noteq> (ns, k) \<longrightarrow> recs w' x = recs w x)))
   \<and> (\<forall>h w r w'. nvs_commit api h w = (r, w') \<longrightarrow> recs w' = recs w \<and> ns_of w' = ns_of w)"

lemma nvs_documentedD:
  assumes "nvs_documented api recs ns_of"
  shows "nvs_open api ns rw w = (r, h, w') \<Longrightarrow> recs w' = recs w"
    and "nvs_open api ns rw w = (ESP_OK, h, w') \<Longrightarrow> ns_of w' h = Some ns"
    and "nvs_open api ns rw w = (ESP_ERR_NVS_NOT_FOUND, h, w') \<Longrightarrow> recs w (ns, k) = None"
    and "nvs_get_blob api h k w = (r, w') \<Longrightarrow> recs w' = recs w"
    and "nvs_get_blob api h k w = (r, w') \<Longrightarrow> ns_of w h = Some ns
           \<Longrightarrow> r = ESP_ERR_NVS_NOT_FOUND \<longleftrightarrow> recs w (ns, k) = None"
    and "recs (nvs_close api h w) = recs w"
    and "nvs_erase_key api h k w = (r, w') \<Longrightarrow> ns_of w' = ns_of w"
    and "nvs_erase_key api h k w = (r, w') \<Longrightarrow> ns_of w h = Some ns
           \<Longrightarrow> x \<noteq> (ns, k) \<Longrightarrow> recs w' x = recs w x"
    and "nvs_commit api h w = (r, w') \<Longrightarrow> recs w' = recs w"
    and "nvs_commit api h w = (r, w') \<Longrightarrow> ns_of w' = ns_of w"
  using assms unfolding nvs_documented_def by (metis (no_types))+

text \<open>
  The cleanup of a retired record removes at most that record: every other record of
  every namespace is unchanged whatever the NVS functions return, and when it reports
  success the record is gone.
\<close>

lemma eraseExactRetiredBlob_exact:
  assumes "nvs_documented api recs ns_of"
    and "eraseExactRetiredBlob api ns key w = (ok, changed, w')"
  shows "(\<forall>x. x \<noteq> (ns, key) \<longrightarrow> recs w' x = recs w x)
    \<and> (ok \<longrightarrow> recs w' (ns, key) = None) \<and> (changed \<longrightarrow> ok)"
proof -
  note D = nvs_documentedD [OF assms(1)]
  obtain r1 h1 w1 where o1: "nvs_open api ns False w = (r1, h1, w1)" by (metis prod_cases3)
  obtain r2 w2 where g1: "nvs_get_blob api h1 key w1 = (r2, w2)" by fastforce
  let ?w3 = "nvs_close api h1 w2"
  obtain r4 h4 w4 where o2: "nvs_open api ns True ?w3 = (r4, h4, w4)" by (metis prod_cases3)
  obtain r5 w5 where er: "nvs_erase_key api h4 key w4 = (r5, w5)" by fastforce
  obtain r6 w6 where cm: "(if r5 = ESP_OK then nvs_commit api h4 w5 else (r5, w5)) = (r6, w6)"
    by fastforce
  obtain r7 w7 where vf: "(if r6 = ESP_OK then nvs_get_blob api h4 key w6 else (r6, w6)) = (r7, w7)"
    by fastforce
  note eqs = o1 g1 o2 er cm vf
  have run: "eraseExactRetiredBlob api ns key w =
      (if r1 = ESP_ERR_NVS_NOT_FOUND then (True, False, w1)
       else if r1 \<noteq> ESP_OK then (False, False, w1)
       else if r2 = ESP_ERR_NVS_NOT_FOUND then (True, False, ?w3)
       else if r2 \<noteq> ESP_OK then (False, False, ?w3)
       else if r4 \<noteq> ESP_OK then (False, False, w4)
       else if r5 \<noteq> ESP_OK \<or> r6 \<noteq> ESP_OK \<or> r7 \<noteq> ESP_ERR_NVS_NOT_FOUND
       then (False, False, nvs_close api h4 w7) else (True, True, nvs_close api h4 w7))"
    by (simp add: eraseExactRetiredBlob_def eqs Let_def del: if_split cong: if_cong)
  have pre: "recs w1 = recs w" "recs ?w3 = recs w" "recs w4 = recs w"
    using D(1) [OF o1] D(4) [OF g1] D(6) [of h1 w2] D(1) [OF o2] by simp_all
  have w6: "recs w6 = recs w5 \<and> ns_of w6 = ns_of w5"
    using cm D(9,10) by (auto split: if_splits)
  have w7: "recs w7 = recs w5"
    using vf w6 D(4) by (metis prod.inject)
  have ns4: "ns_of w4 h4 = Some ns" if "r4 = ESP_OK" using D(2) o2 that by blast
  have others: "recs (nvs_close api h4 w7) x = recs w x" if "r4 = ESP_OK" "x \<noteq> (ns, key)" for x
    using D(8) [OF er ns4 [OF that(1)] that(2)] pre(3) w7 D(6) by simp
  have gone: "recs (nvs_close api h4 w7) (ns, key) = None"
    if "r4 = ESP_OK" "r6 = ESP_OK" "r7 = ESP_ERR_NVS_NOT_FOUND"
    using D(5) [of h4 key w6 r7 w7 ns] vf that w6 w7 ns4 D(7) [OF er] D(6) by simp
  have absent: "recs w (ns, key) = None" if "r1 = ESP_ERR_NVS_NOT_FOUND"
    using D(3) o1 that by blast
  have absent2: "recs w (ns, key) = None" if "r1 = ESP_OK" "r2 = ESP_ERR_NVS_NOT_FOUND"
    using D(5) [OF g1, of ns] D(2) o1 that pre(1) by simp
  show ?thesis
    using assms(2) pre others gone absent absent2 unfolding run
    by (auto split: if_splits)
qed

text \<open>
  An NVS in memory: the records and the namespace of the one open handle.  It shows that the
  hypothesis can hold and runs the cleanup on a store with the retired record and another.
\<close>

definition mem_nvs :: "((string \<times> string \<Rightarrow> nat option) \<times> string option) nvs_api" where
  "mem_nvs = \<lparr>nvs_open = (\<lambda>ns rw (m, h). (ESP_OK, 1, m, Some ns)),
     nvs_get_blob = (\<lambda>_ k (m, h). (case h of None \<Rightarrow> ESP_ERR_INVALID_STATE
        | Some ns \<Rightarrow> if m (ns, k) = None then ESP_ERR_NVS_NOT_FOUND else ESP_OK, m, h)),
     nvs_close = (\<lambda>_ (m, h). (m, None)),
     nvs_erase_key = (\<lambda>_ k (m, h). (case h of None \<Rightarrow> (ESP_ERR_INVALID_STATE, m, h)
        | Some ns \<Rightarrow> (ESP_OK, m((ns, k) := None), h))),
     nvs_commit = (\<lambda>_ w. (ESP_OK, w)),
     nvs_get_stats = (\<lambda>w. (ESP_OK, \<lparr>usedEntries = 0, freeEntries = 200, totalEntries = 200\<rparr>, w))\<rparr>"

lemma mem_nvs_documented: "nvs_documented mem_nvs fst (\<lambda>w h. snd w)"
  by (auto simp: nvs_documented_def mem_nvs_def split: option.splits if_splits)

lemma eraseExactRetiredBlob_exact_witness:
  "(let m = (\<lambda>_. None)((''wisp868'', ''ble_act_v1'') := Some 9, (''wisp868'', ''pet'') := Some 4);
        w' = snd (snd (eraseExactRetiredBlob mem_nvs ''wisp868'' ''ble_act_v1'' (m, None)))
    in fst w' (''wisp868'', ''ble_act_v1'') = None \<and> fst w' (''wisp868'', ''pet'') = Some 4)"
proof -
  let ?m = "(\<lambda>_. None)((''wisp868'', ''ble_act_v1'') := Some (9 :: nat), (''wisp868'', ''pet'') := Some 4)"
  obtain ok ch w' where run:
    "eraseExactRetiredBlob mem_nvs ''wisp868'' ''ble_act_v1'' (?m, None) = (ok, ch, w')"
    by (metis prod_cases3)
  have ok by (insert run, simp add: eraseExactRetiredBlob_def mem_nvs_def)
  with eraseExactRetiredBlob_exact [OF mem_nvs_documented run] run
  show ?thesis by (simp add: Let_def)
qed

end
