(* ===== verification/Radio_Link.thy ===== *)
theory Radio_Link
  imports Kitsu_Prelude
begin

text \<open>
  The radio-side helpers that sit between RadioLib and MeshCore: the polled interrupt line
  (\<^verbatim>\<open>src/src/kitsu_radio_irq_poll.h\<close>), the synchronous transmit turnaround
  (\<^verbatim>\<open>src/src/kitsu_tx_turnaround.h\<close>), the receive-rearm policy
  (\<^verbatim>\<open>src/src/kitsu_rx_rearm_policy.h\<close>) and the endpoint flood delay
  (\<^verbatim>\<open>src/src/kitsu_endpoint_rx_policy.h\<close>).  Callbacks into RadioLib are parameters acting on
  an abstract world \<open>'w\<close>.
\<close>

subsection \<open>Polled radio interrupt\<close>

definition kKitsuRadioDio1Pin :: u8 where "kKitsuRadioDio1Pin = 14"
definition kKitsuRadioDio1RisingMode :: int where "kKitsuRadioDio1RisingMode = 1"

record RadioIrqPollDiagnostics =
  polls :: u32
  highPolls :: u32
  highEdges :: u32
  irq_callbacks :: u32

definition diagnostics0 :: RadioIrqPollDiagnostics where
  "diagnostics0 = \<lparr>polls = 0, highPolls = 0, highEdges = 0, irq_callbacks = 0\<rparr>"

record 'w LatchedRadioIrqPoll =
  irq_callback :: "('w \<Rightarrow> 'w) option"
  diagnostics :: RadioIrqPollDiagnostics
  wasAsserted :: bool

definition incrementSaturating :: "u32 \<Rightarrow> u32" where
  "incrementSaturating value = (if value \<noteq> 0xFFFFFFFF then value + 1 else value)"

definition irq_claim ::
  "u8 \<Rightarrow> ('w \<Rightarrow> 'w) option \<Rightarrow> int \<Rightarrow> 'w LatchedRadioIrqPoll \<Rightarrow> bool \<times> 'w LatchedRadioIrqPoll" where
  "irq_claim pin callback mode p =
     (if pin \<noteq> kKitsuRadioDio1Pin \<or> mode \<noteq> kKitsuRadioDio1RisingMode \<or> callback = None
      then (False, p) else (True, p\<lparr>irq_callback := callback\<rparr>))"

definition irq_release :: "u8 \<Rightarrow> 'w LatchedRadioIrqPoll \<Rightarrow> bool \<times> 'w LatchedRadioIrqPoll" where
  "irq_release pin p =
     (if pin \<noteq> kKitsuRadioDio1Pin then (False, p) else (True, p\<lparr>irq_callback := None\<rparr>))"

definition irq_poll ::
  "bool \<Rightarrow> 'w LatchedRadioIrqPoll \<times> 'w \<Rightarrow> bool \<times> 'w LatchedRadioIrqPoll \<times> 'w" where
  "irq_poll asserted st = (case st of (p, w) \<Rightarrow>
     let d = diagnostics p;
         d = d\<lparr>polls := incrementSaturating (polls d)\<rparr>;
         d = (if asserted then
                let d = d\<lparr>highPolls := incrementSaturating (highPolls d)\<rparr> in
                if \<not> wasAsserted p then d\<lparr>highEdges := incrementSaturating (highEdges d)\<rparr> else d
              else d);
         p = p\<lparr>diagnostics := d, wasAsserted := asserted\<rparr>
     in if \<not> asserted \<or> irq_callback p = None then (False, p, w)
        else let w = the (irq_callback p) w;
                 d = diagnostics p;
                 p = p\<lparr>diagnostics := d\<lparr>irq_callbacks := incrementSaturating (irq_callbacks d)\<rparr>\<rparr>
             in (True, p, w))"

definition irq_claimed :: "'w LatchedRadioIrqPoll \<Rightarrow> bool" where
  "irq_claimed p \<longleftrightarrow> irq_callback p \<noteq> None"

definition irq_clearDiagnostics :: "'w LatchedRadioIrqPoll \<Rightarrow> 'w LatchedRadioIrqPoll" where
  "irq_clearDiagnostics p = p\<lparr>diagnostics := diagnostics0, wasAsserted := False\<rparr>"

datatype 'w irq_event =
    Claim u8 "('w \<Rightarrow> 'w) option" int
  | Release u8
  | Poll bool
  | ClearDiagnostics

fun irq_step :: "'w LatchedRadioIrqPoll \<times> 'w \<Rightarrow> 'w irq_event \<Rightarrow> 'w LatchedRadioIrqPoll \<times> 'w" where
  "irq_step (p, w) (Claim pin cb mode) = (snd (irq_claim pin cb mode p), w)"
| "irq_step (p, w) (Release pin) = (snd (irq_release pin p), w)"
| "irq_step st (Poll asserted) = snd (irq_poll asserted st)"
| "irq_step (p, w) ClearDiagnostics = (irq_clearDiagnostics p, w)"

definition irq_inv :: "'w LatchedRadioIrqPoll \<times> 'w \<Rightarrow> bool" where
  "irq_inv st \<longleftrightarrow> (let d = diagnostics (fst st) in
     highEdges d \<le> highPolls d \<and> irq_callbacks d \<le> highPolls d \<and> highPolls d \<le> polls d)"

lemma unat_incrementSaturating: "unat (incrementSaturating v) = min (unat v + 1) 0xFFFFFFFF"
proof (cases "v = 0xFFFFFFFF")
  case True
  then show ?thesis by (simp add: incrementSaturating_def)
next
  case False
  have lt: "unat v < 4294967296" by (rule unat32_lt)
  from False have "unat v \<noteq> unat (0xFFFFFFFF :: u32)" by (simp add: word_unat_eq_iff)
  then have ne: "unat v \<noteq> 4294967295" by simp
  with lt have "unat (v + 1) = unat v + 1" using unat_plus_small [of v 1] by simp
  with False ne lt show ?thesis by (simp add: incrementSaturating_def)
qed

lemma incrementSaturating_mono [intro]:
  "a \<le> b \<Longrightarrow> incrementSaturating a \<le> incrementSaturating b"
  by (simp add: word_le_nat_alt unat_incrementSaturating)

lemma incrementSaturating_ge [intro]: "a \<le> b \<Longrightarrow> a \<le> incrementSaturating b"
  using unat32_lt [of a] by (simp add: word_le_nat_alt unat_incrementSaturating)

lemma irq_step_inv: "irq_inv st \<Longrightarrow> irq_inv (irq_step st e)"
  by (cases st; cases e)
    (auto simp: irq_inv_def irq_claim_def irq_release_def irq_poll_def irq_clearDiagnostics_def
      diagnostics0_def Let_def)

interpretation irq: step_system irq_step irq_inv
  by unfold_locales (rule irq_step_inv)

definition irq_initial :: "'w LatchedRadioIrqPoll" where
  "irq_initial = \<lparr>irq_callback = None, diagnostics = diagnostics0, wasAsserted = False\<rparr>"

text \<open>
  A poll reports an interrupt and runs the claimed callback, once, exactly when the line
  is high and a callback is claimed; otherwise the radio world is untouched.  Over any
  sequence of calls the saturating counters stay ordered: edges and callbacks never exceed
  high polls, which never exceed polls.
\<close>

lemma irq_poll_callback:
  fixes w :: 'w
  shows "(case irq_poll asserted (p, w) of (fired, p', w') \<Rightarrow>
      fired = (asserted \<and> irq_claimed p)
      \<and> w' = (if asserted \<and> irq_claimed p then the (irq_callback p) w else w)
      \<and> irq_callback p' = irq_callback p)
    \<and> irq_inv (foldl irq_step (irq_initial, w) es)"
proof
  show "case irq_poll asserted (p, w) of (fired, p', w') \<Rightarrow>
      fired = (asserted \<and> irq_claimed p)
      \<and> w' = (if asserted \<and> irq_claimed p then the (irq_callback p) w else w)
      \<and> irq_callback p' = irq_callback p"
    by (auto simp: irq_poll_def irq_claimed_def Let_def)
  have "irq_inv (irq_initial, w)" by (simp add: irq_inv_def irq_initial_def diagnostics0_def)
  then show "irq_inv (foldl irq_step (irq_initial, w) es)" by (rule irq.run_inv)
qed

subsection \<open>Receive rearm policy\<close>

definition kSx126xChipModeMask :: u8 where "kSx126xChipModeMask = 0x70"
definition kSx126xChipModeRx :: u8 where "kSx126xChipModeRx = 0x50"

record RxRearmEvidence =
  startAttempted :: bool
  startCode :: "16 word"
  softwareRx :: bool
  chipStatusAvailable :: bool
  chipStatus :: u8

definition sx126xChipMode :: "u8 \<Rightarrow> u8" where
  "sx126xChipMode st = drop_bit 4 (st AND kSx126xChipModeMask)"

definition sx126xStatusIsRx :: "u8 \<Rightarrow> bool" where
  "sx126xStatusIsRx st \<longleftrightarrow> st AND kSx126xChipModeMask = kSx126xChipModeRx"

definition shouldRetryRxRearm :: "RxRearmEvidence \<Rightarrow> bool \<Rightarrow> bool" where
  "shouldRetryRxRearm ev dio1Low \<longleftrightarrow> dio1Low
     \<and> ((startAttempted ev \<and> startCode ev \<noteq> 0) \<or> \<not> softwareRx ev
        \<or> (chipStatusAvailable ev \<and> \<not> sx126xStatusIsRx (chipStatus ev)))"

definition rxRearmPhysicallyConfirmed :: "RxRearmEvidence \<Rightarrow> bool" where
  "rxRearmPhysicallyConfirmed ev \<longleftrightarrow> startAttempted ev \<and> startCode ev = 0
     \<and> softwareRx ev \<and> chipStatusAvailable ev \<and> sx126xStatusIsRx (chipStatus ev)"

definition endpointFloodReceiveDelayMs :: "'score \<Rightarrow> u32 \<Rightarrow> int" where
  "endpointFloodReceiveDelayMs score airtime = 0"

text \<open>
  The receive-rearm decision: a confirmed receiver is never restarted, nothing is
  restarted while DIO1 is high, and with DIO1 low the only evidence that neither confirms
  nor retries is a software receive flag without a failed start whose chip status is
  unavailable, or a good status without a start of this rearm.
\<close>

lemma rx_rearm_decision:
  "(rxRearmPhysicallyConfirmed ev \<longrightarrow> \<not> shouldRetryRxRearm ev dio1Low)
   \<and> \<not> shouldRetryRxRearm ev False
   \<and> (\<not> rxRearmPhysicallyConfirmed ev \<and> \<not> shouldRetryRxRearm ev True \<longleftrightarrow>
        softwareRx ev \<and> (startAttempted ev \<longrightarrow> startCode ev = 0 \<and> \<not> chipStatusAvailable ev)
        \<and> (chipStatusAvailable ev \<longrightarrow> \<not> startAttempted ev \<and> sx126xStatusIsRx (chipStatus ev)))"
  by (auto simp: rxRearmPhysicallyConfirmed_def shouldRetryRxRearm_def)

lemma rx_rearm_decision_witness:
  "(let ev = \<lparr>startAttempted = True, startCode = 0, softwareRx = True,
        chipStatusAvailable = True, chipStatus = 0x54\<rparr>
    in rxRearmPhysicallyConfirmed ev \<and> \<not> shouldRetryRxRearm ev True)"
  using rx_rearm_decision [of "\<lparr>startAttempted = True, startCode = 0, softwareRx = True,
        chipStatusAvailable = True, chipStatus = 0x54\<rparr>" True]
  by (simp add: Let_def rxRearmPhysicallyConfirmed_def sx126xStatusIsRx_def
      kSx126xChipModeMask_def kSx126xChipModeRx_def)

subsection \<open>Transmit turnaround\<close>

datatype TxTurnaroundResult = TxCompleted | TxStartFailed | TxTimedOut

definition kTxTurnaroundMarginMs :: u32 where "kTxTurnaroundMarginMs = 32"
definition kMaximumTxTurnaroundTimeoutMs :: u32 where
  "kMaximumTxTurnaroundTimeoutMs = 0x7FFFFFFF"

definition txTurnaroundTimeoutMs :: "u32 \<Rightarrow> u32" where
  "txTurnaroundTimeoutMs estimatedAirtimeMs =
     (let e = ucast estimatedAirtimeMs :: u64;
          total = e + e div 2 + ucast kTxTurnaroundMarginMs
      in if total > ucast kMaximumTxTurnaroundTimeoutMs
         then kMaximumTxTurnaroundTimeoutMs else ucast total)"

record TxTurnaroundCompletion =
  completionLatched :: bool
  completionReported :: bool

definition tx_reset :: "TxTurnaroundCompletion \<Rightarrow> TxTurnaroundCompletion" where
  "tx_reset c = c\<lparr>completionLatched := False, completionReported := False\<rparr>"

definition latchCompleted :: "TxTurnaroundCompletion \<Rightarrow> TxTurnaroundCompletion" where
  "latchCompleted c = c\<lparr>completionLatched := True\<rparr>"

definition takeForDispatcher :: "TxTurnaroundCompletion \<Rightarrow> bool \<times> TxTurnaroundCompletion" where
  "takeForDispatcher c =
     (if \<not> completionLatched c then (False, c)
      else (True, c\<lparr>completionLatched := False, completionReported := True\<rparr>))"

definition consumeReportedFinish :: "TxTurnaroundCompletion \<Rightarrow> bool \<times> TxTurnaroundCompletion" where
  "consumeReportedFinish c =
     (if \<not> completionReported c then (False, c) else (True, c\<lparr>completionReported := False\<rparr>))"

text \<open>The callbacks of the turnaround, as a table of functions over the world.\<close>

record 'w tx_callbacks =
  tx_start :: "'w \<Rightarrow> bool \<times> 'w"
  tx_clock :: "'w \<Rightarrow> u32 \<times> 'w"
  tx_pollIrq :: "'w \<Rightarrow> 'w"
  tx_consumeTxDone :: "'w \<Rightarrow> bool \<times> 'w"
  tx_finishTx :: "'w \<Rightarrow> 'w"
  tx_rearmRx :: "'w \<Rightarrow> 'w"
  tx_yield :: "'w \<Rightarrow> 'w"

text \<open>
  The waiting loop: \<open>Some (True, w)\<close> when the transmit-done flag was consumed,
  \<open>Some (False, w)\<close> when the time ran out, \<open>None\<close> when the loop never ends.
\<close>

partial_function (option) tx_wait ::
  "'w tx_callbacks \<Rightarrow> u32 \<Rightarrow> u32 \<Rightarrow> 'w \<Rightarrow> (bool \<times> 'w) option" where
  "tx_wait cb startedAt timeoutMs w =
     (case tx_consumeTxDone cb (tx_pollIrq cb w) of (done, w) \<Rightarrow>
      if done then Some (True, w)
      else (case tx_clock cb w of (now, w) \<Rightarrow>
        if now - startedAt \<ge> timeoutMs then Some (False, w)
        else tx_wait cb startedAt timeoutMs (tx_yield cb w)))"

definition runSynchronousTxTurnaround ::
  "'w tx_callbacks \<Rightarrow> u32 \<Rightarrow> TxTurnaroundCompletion \<Rightarrow> 'w
     \<Rightarrow> (TxTurnaroundResult \<times> TxTurnaroundCompletion \<times> 'w) option" where
  "runSynchronousTxTurnaround cb timeoutMs completion w =
     (let completion = tx_reset completion in
      case tx_start cb w of (started, w) \<Rightarrow>
      if \<not> started then Some (TxStartFailed, completion, tx_rearmRx cb w)
      else (case tx_clock cb w of (startedAt, w) \<Rightarrow>
      Option.bind (tx_wait cb startedAt timeoutMs w) (\<lambda>(done, w).
        if done
        then Some (TxCompleted, latchCompleted completion, tx_rearmRx cb (tx_finishTx cb w))
        else (case tx_consumeTxDone cb (tx_pollIrq cb w) of (done, w) \<Rightarrow>
          if done
          then Some (TxCompleted, latchCompleted completion, tx_rearmRx cb (tx_finishTx cb w))
          else Some (TxTimedOut, tx_reset completion, tx_rearmRx cb (tx_finishTx cb w))))))"

lemma txTurnaroundTimeout_min:
  "unat (txTurnaroundTimeoutMs est) = min (unat est + unat est div 2 + 32) 2147483647"
proof -
  let ?e = "ucast est :: u64"
  let ?t = "?e + ?e div 2 + ucast kTxTurnaroundMarginMs"
  have lt: "unat est < 4294967296" by (rule unat32_lt)
  then have e: "unat ?e = unat est" by (simp add: unsigned_ucast_eq take_bit_nat_eq_self)
  have m: "unat (ucast kTxTurnaroundMarginMs :: u64) = 32"
    by (simp add: kTxTurnaroundMarginMs_def)
  have d: "unat (?e div 2) = unat est div 2" by (simp add: unat_div e)
  have s1: "unat (?e + ?e div 2) = unat est + unat est div 2"
    using unat_plus_small [of ?e "?e div 2"] e d lt by simp
  have t: "unat ?t = unat est + unat est div 2 + 32"
    using unat_plus_small [of "?e + ?e div 2" "ucast kTxTurnaroundMarginMs"] s1 m lt by simp
  have lim: "unat (ucast kMaximumTxTurnaroundTimeoutMs :: u64) = 2147483647"
    by (simp add: kMaximumTxTurnaroundTimeoutMs_def)
  have cast: "unat (ucast ?t :: u32) = unat ?t" if "unat ?t \<le> 2147483647"
    using that by (simp add: unsigned_ucast_eq take_bit_nat_eq_self)
  show ?thesis
    using t lim cast
    by (simp add: txTurnaroundTimeoutMs_def Let_def word_less_nat_alt
        kMaximumTxTurnaroundTimeoutMs_def min_def)
qed

text \<open>
  C24. The turnaround time limit: one and a half times the airtime estimate plus the margin,
  computed without wrap-around, and clamped at the largest interval the wrapped clock
  difference can measure; the clamp never shortens an estimate RadioLib can produce (at
  most 4294967 ms).
\<close>

theorem txTurnaroundTimeout_exact:
  "unat (txTurnaroundTimeoutMs est) = min (unat est + unat est div 2 + 32) 2147483647
   \<and> (unat est \<le> 4294967 \<longrightarrow>
        unat (txTurnaroundTimeoutMs est) = unat est + unat est div 2 + 32)"
  by (auto simp: txTurnaroundTimeout_min)

theorem txTurnaroundTimeout_exact_witness: "unat (txTurnaroundTimeoutMs 4294967) = 6442482"
  using txTurnaroundTimeout_exact [of 4294967] by simp

subsection \<open>The turnaround is balanced and returns\<close>

text \<open>
  A count of calls kept by the radio: \<open>n\<close> is not changed by any callback but the counted
  one \<open>f\<close>, which adds one.
\<close>

definition counts_only :: "('w \<Rightarrow> nat) \<Rightarrow> bool \<Rightarrow> bool \<Rightarrow> 'w tx_callbacks \<Rightarrow> bool" where
  "counts_only n onFinish onRearm cb \<longleftrightarrow> (\<forall>w.
       n (snd (tx_start cb w)) = n w \<and> n (snd (tx_clock cb w)) = n w
     \<and> n (tx_pollIrq cb w) = n w \<and> n (snd (tx_consumeTxDone cb w)) = n w
     \<and> n (tx_yield cb w) = n w
     \<and> n (tx_finishTx cb w) = n w + of_bool onFinish
     \<and> n (tx_rearmRx cb w) = n w + of_bool onRearm)"

lemma tx_wait_counts:
  assumes "counts_only n a b cb" and ret: "tx_wait cb t0 lim w = Some r"
  shows "n (snd r) = n w"
proof (rule tx_wait.raw_induct [where P = "\<lambda>cb t0 lim w r. counts_only n a b cb \<longrightarrow> n (snd r) = n w",
      OF _ ret, THEN mp, OF _ assms(1)])
  fix f :: "'a tx_callbacks \<Rightarrow> u32 \<Rightarrow> u32 \<Rightarrow> 'a \<Rightarrow> (bool \<times> 'a) option" and cb t0 lim w r
  assume IH: "\<And>cb t0 lim w r. f cb t0 lim w = Some r \<Longrightarrow> counts_only n a b cb \<longrightarrow> n (snd r) = n w"
    and eq: "(case tx_consumeTxDone cb (tx_pollIrq cb w) of (done, w) \<Rightarrow>
      if done then Some (True, w)
      else (case tx_clock cb w of (now, w) \<Rightarrow>
        if now - t0 \<ge> lim then Some (False, w) else f cb t0 lim (tx_yield cb w))) = Some r"
  show "counts_only n a b cb \<longrightarrow> n (snd r) = n w"
  proof
    assume c: "counts_only n a b cb"
    let ?w1 = "snd (tx_consumeTxDone cb (tx_pollIrq cb w))"
    let ?w2 = "snd (tx_clock cb ?w1)"
    have n1: "n ?w1 = n w" and n2: "n ?w2 = n w" and n3: "n (tx_yield cb ?w2) = n w"
      using c by (simp_all add: counts_only_def)
    from eq IH [OF _, of cb t0 lim "tx_yield cb ?w2" r] c n1 n2 n3
    show "n (snd r) = n w" by (auto simp: case_prod_beta split: if_splits)
  qed
qed

text \<open>
  Whatever the callbacks do, a turnaround that returns has called the receive rearm
  exactly once and last, has finished the transmitter exactly once when the start
  succeeded and never when it failed, and leaves the completion latched exactly when it
  reports completion.
\<close>

lemma turnaround_balanced:
  assumes "counts_only nf True False cb" and "counts_only nr False True cb"
    and "runSynchronousTxTurnaround cb timeoutMs c w = Some (res, c', w')"
  shows "nr w' = nr w + 1 \<and> nf w' = nf w + (if res = TxStartFailed then 0 else 1)
    \<and> (res = TxStartFailed \<longleftrightarrow> \<not> fst (tx_start cb w))
    \<and> (\<exists>v. w' = tx_rearmRx cb v \<and> (res \<noteq> TxStartFailed \<longrightarrow> (\<exists>u. v = tx_finishTx cb u)))
    \<and> (completionLatched c' \<longleftrightarrow> res = TxCompleted) \<and> \<not> completionReported c'"
proof (cases "fst (tx_start cb w)")
  case False
  then show ?thesis
    using assms
    by (auto simp: runSynchronousTxTurnaround_def case_prod_beta Let_def tx_reset_def counts_only_def)
next
  case True
  let ?w1 = "snd (tx_clock cb (snd (tx_start cb w)))"
  let ?t0 = "fst (tx_clock cb (snd (tx_start cb w)))"
  obtain d w2 where wait: "tx_wait cb ?t0 timeoutMs ?w1 = Some (d, w2)"
    using assms(3) True
    by (auto simp: runSynchronousTxTurnaround_def case_prod_beta Let_def bind_eq_Some_conv)
  let ?w3 = "snd (tx_consumeTxDone cb (tx_pollIrq cb w2))"
  have nf2: "nf w2 = nf w" and nr2: "nr w2 = nr w"
    using tx_wait_counts [OF assms(1) wait] tx_wait_counts [OF assms(2) wait] assms(1,2)
    by (simp_all add: counts_only_def)
  have fin: "nf (tx_rearmRx cb (tx_finishTx cb v)) = nf v + 1"
    "nr (tx_rearmRx cb (tx_finishTx cb v)) = nr v + 1" for v
    using assms(1,2) by (simp_all add: counts_only_def)
  have w3: "nf ?w3 = nf w" "nr ?w3 = nr w"
    using nf2 nr2 assms(1,2) by (simp_all add: counts_only_def)
  have "(res, w') \<in> {(TxCompleted, tx_rearmRx cb (tx_finishTx cb w2)),
       (TxCompleted, tx_rearmRx cb (tx_finishTx cb ?w3)),
       (TxTimedOut, tx_rearmRx cb (tx_finishTx cb ?w3))}
     \<and> (completionLatched c' \<longleftrightarrow> res = TxCompleted) \<and> \<not> completionReported c'"
    using assms(3) True wait
    by (auto simp: runSynchronousTxTurnaround_def case_prod_beta Let_def tx_reset_def
        latchCompleted_def split: if_splits)
  with True fin [of w2] fin [of ?w3] nf2 nr2 w3 show ?thesis by auto
qed

text \<open>
  A clock that runs: \<open>time\<close> is the unwrapped time of the world in units of which \<open>U\<close> make a
  millisecond; the clock callback reads the whole milliseconds modulo \<open>2 ^ 32\<close>, no callback of the
  loop takes longer than \<open>D\<close> units, and a cooperative yield takes some time, if only one unit: any
  number of passes may see the same millisecond.
\<close>

definition clock_runs :: "('w \<Rightarrow> nat) \<Rightarrow> nat \<Rightarrow> nat \<Rightarrow> 'w tx_callbacks \<Rightarrow> bool" where
  "clock_runs time U D cb \<longleftrightarrow> 0 < U \<and> (\<forall>w.
       fst (tx_clock cb w) = of_nat (time w div U)
     \<and> time w \<le> time (snd (tx_clock cb w)) \<and> time (snd (tx_clock cb w)) \<le> time w + D
     \<and> time w \<le> time (tx_pollIrq cb w) \<and> time (tx_pollIrq cb w) \<le> time w + D
     \<and> time w \<le> time (snd (tx_consumeTxDone cb w))
     \<and> time (snd (tx_consumeTxDone cb w)) \<le> time w + D
     \<and> time w < time (tx_yield cb w) \<and> time (tx_yield cb w) \<le> time w + D)"

lemma clock_runsD:
  assumes "clock_runs time U D cb"
  shows "fst (tx_clock cb w) = of_nat (time w div U)"
    and "time w \<le> time (snd (tx_clock cb w))" and "time (snd (tx_clock cb w)) \<le> time w + D"
    and "time w \<le> time (tx_pollIrq cb w)" and "time (tx_pollIrq cb w) \<le> time w + D"
    and "time w \<le> time (snd (tx_consumeTxDone cb w))"
    and "time (snd (tx_consumeTxDone cb w)) \<le> time w + D"
    and "time w < time (tx_yield cb w)" and "time (tx_yield cb w) \<le> time w + D"
    and "0 < U"
  using assms by (simp_all add: clock_runs_def)

text \<open>The millisecond counter against the time in units, from a start to a later instant.\<close>

lemma counter_elapsed:
  fixes t0 t U :: nat
  assumes "0 < U" "t0 \<le> t" "t - t0 < 4294967295 * U"
  shows "unat ((of_nat (t div U) :: u32) - of_nat (t0 div U)) = t div U - t0 div U"
proof -
  have mono: "t0 div U \<le> t div U" using assms(2) by (rule div_le_mono)
  have "(of_nat (t div U) :: u32) - of_nat (t0 div U) = of_nat (t div U - t0 div U)"
    using mono by simp
  moreover have "t div U - t0 div U < 4294967296"
  proof -
    have "t < t0 + 4294967295 * U" using assms(2,3) by linarith
    then have "t div U \<le> (t0 + 4294967295 * U) div U" by (intro div_le_mono) simp
    also have "\<dots> = t0 div U + 4294967295" using assms(1) by simp
    finally show ?thesis by linarith
  qed
  ultimately show ?thesis by (simp add: unsigned_of_nat take_bit_nat_eq_self)
qed

lemma counter_below:
  fixes t0 t U n :: nat
  assumes "0 < U" "t0 \<le> t" "t div U - t0 div U < n"
  shows "t - t0 < (n + 1) * U"
proof -
  have "t < (t div U + 1) * U" using assms(1) by (simp add: dividend_less_div_times)
  also have "\<dots> \<le> (t0 div U + n) * U" using assms(3) by (intro mult_le_mono1) linarith
  also have "\<dots> \<le> t0 + n * U" by (simp add: add_mult_distrib)
  finally show ?thesis using assms(1,2) by (simp add: add_mult_distrib)
qed

lemma tx_wait_returns:
  assumes runs: "clock_runs time U D cb" and small: "4 * D < 2147483647 * U"
    and lim: "unat lim \<le> 2147483647"
  shows "t0 \<le> time w \<Longrightarrow> time w - t0 \<le> (unat lim + 1) * U + 2 * D
    \<Longrightarrow> \<exists>r. tx_wait cb (of_nat (t0 div U)) lim w = Some r"
proof (induction "(unat lim + 1) * U + 2 * D + 1 - (time w - t0)" arbitrary: w rule: less_induct)
  case less
  let ?w1 = "tx_pollIrq cb w"
  let ?w2 = "snd (tx_consumeTxDone cb ?w1)"
  let ?w3 = "snd (tx_clock cb ?w2)"
  let ?w4 = "tx_yield cb ?w3"
  note D = clock_runsD [OF runs]
  have clk: "fst (tx_clock cb ?w2) = of_nat (time ?w2 div U)" by (rule D(1))
  have t2: "time w \<le> time ?w2" "time ?w2 \<le> time w + 2 * D"
    using D(4,5) [of w] D(6,7) [of ?w1] by linarith+
  have t4: "time ?w2 < time ?w4" "time ?w4 \<le> time ?w2 + 2 * D"
    using D(2,3) [of ?w2] D(8,9) [of ?w3] by linarith+
  have "(unat lim + 1) * U \<le> 2147483648 * U" using lim by (intro mult_le_mono1) linarith
  with t2 less.prems small have "time ?w2 - t0 < 4294967295 * U" by linarith
  then have diff: "unat ((of_nat (time ?w2 div U) :: u32) - of_nat (t0 div U)) = time ?w2 div U - t0 div U"
    using t2 less.prems D(10) by (intro counter_elapsed) linarith+
  show ?case
  proof (cases "fst (tx_consumeTxDone cb ?w1) \<or> lim \<le> of_nat (time ?w2 div U) - of_nat (t0 div U)")
    case True
    then show ?thesis
      by (subst tx_wait.simps) (auto simp: case_prod_beta clk)
  next
    case False
    then have "time ?w2 div U - t0 div U < unat lim" using diff by (simp add: word_le_nat_alt)
    then have "time ?w2 - t0 < (unat lim + 1) * U"
      using t2 less.prems D(10) by (intro counter_below) linarith+
    with t2 t4 less.prems have "\<exists>r. tx_wait cb (of_nat (t0 div U)) lim ?w4 = Some r"
      by (intro less.hyps) linarith+
    with False show ?thesis
      by (subst tx_wait.simps) (auto simp: case_prod_beta clk)
  qed
qed

text \<open>
  C23. With a clock that keeps running the turnaround returns: it cannot wait for ever, for any
  time limit that the limit computation can produce.  Every pass of the wait takes some time,
  however little (many passes may read the same millisecond), no callback takes six days,
  and the callbacks may answer in any other way.
\<close>

theorem turnaround_returns:
  assumes "clock_runs time U D cb" and "4 * D < 2147483647 * U"
  shows "\<exists>res c' w'. runSynchronousTxTurnaround cb (txTurnaroundTimeoutMs est) c w
     = Some (res, c', w')"
proof -
  let ?w0 = "snd (tx_start cb w)"
  let ?w1 = "snd (tx_clock cb ?w0)"
  have lim: "unat (txTurnaroundTimeoutMs est) \<le> 2147483647"
    by (simp add: txTurnaroundTimeout_min)
  have "\<exists>r. tx_wait cb (of_nat (time ?w0 div U)) (txTurnaroundTimeoutMs est) ?w1 = Some r"
    using clock_runsD(2,3) [OF assms(1), of ?w0]
    by (intro tx_wait_returns [OF assms lim]) linarith+
  moreover have "fst (tx_clock cb ?w0) = of_nat (time ?w0 div U)"
    using assms(1) by (simp add: clock_runs_def)
  ultimately show ?thesis
    by (auto simp: runSynchronousTxTurnaround_def case_prod_beta Let_def)
qed

text \<open>
  A radio for the two witnesses: the time in microseconds, of which a yield takes one, the calls made so far and the time the
  transmission ends.
\<close>

record demo_radio =
  demo_time :: nat
  demo_finished :: nat
  demo_rearmed :: nat
  demo_done_at :: nat

definition demo_callbacks :: "demo_radio tx_callbacks" where
  "demo_callbacks = \<lparr>tx_start = (\<lambda>w. (True, w)),
     tx_clock = (\<lambda>w. (of_nat (demo_time w div 1000), w)), tx_pollIrq = (\<lambda>w. w),
     tx_consumeTxDone = (\<lambda>w. (demo_done_at w \<le> demo_time w, w)),
     tx_finishTx = (\<lambda>w. w\<lparr>demo_finished := demo_finished w + 1\<rparr>),
     tx_rearmRx = (\<lambda>w. w\<lparr>demo_rearmed := demo_rearmed w + 1\<rparr>),
     tx_yield = (\<lambda>w. w\<lparr>demo_time := demo_time w + 1\<rparr>)\<rparr>"

definition demo_world :: demo_radio where
  "demo_world = \<lparr>demo_time = 4294967290000, demo_finished = 0, demo_rearmed = 0,
     demo_done_at = 4294967290001\<rparr>"

lemma demo_callbacks_ok:
  "counts_only demo_finished True False demo_callbacks"
  "counts_only demo_rearmed False True demo_callbacks"
  "clock_runs demo_time 1000 1 demo_callbacks"
  by (simp_all add: counts_only_def clock_runs_def demo_callbacks_def)

lemma demo_run: "\<exists>c' w'. runSynchronousTxTurnaround demo_callbacks 40
    \<lparr>completionLatched = False, completionReported = True\<rparr> demo_world = Some (TxCompleted, c', w')"
  by (simp add: runSynchronousTxTurnaround_def demo_callbacks_def demo_world_def tx_wait.simps)

lemma turnaround_balanced_witness:
  "\<exists>c' w'. runSynchronousTxTurnaround demo_callbacks 40
      \<lparr>completionLatched = False, completionReported = True\<rparr> demo_world = Some (TxCompleted, c', w')
    \<and> demo_finished w' = 1 \<and> demo_rearmed w' = 1 \<and> completionLatched c'"
proof -
  obtain c' w' where run: "runSynchronousTxTurnaround demo_callbacks 40
      \<lparr>completionLatched = False, completionReported = True\<rparr> demo_world = Some (TxCompleted, c', w')"
    using demo_run by blast
  from turnaround_balanced [OF demo_callbacks_ok(1,2) run] run show ?thesis
    by (auto simp: demo_world_def)
qed

theorem turnaround_returns_witness:
  "\<exists>res c' w'. runSynchronousTxTurnaround demo_callbacks (txTurnaroundTimeoutMs 1000)
      \<lparr>completionLatched = False, completionReported = True\<rparr> demo_world = Some (res, c', w')"
  using turnaround_returns [OF demo_callbacks_ok(3)] by simp

end
