(* ===== verification/Repeat_Wire.thy ===== *)
theory Repeat_Wire
  imports Kitsu_Prelude
begin

text \<open>
  Received MeshCore frames as evidence of a repeat: the decoder and the flood-route binding of
  \<^verbatim>\<open>src/src/kitsu_repeat_wire.{h,cpp}\<close> and the regional transport code of
  \<^verbatim>\<open>src/src/kitsu_transport_scope.{h,cpp}\<close>.  A view holds the bytes its pointers designate;
  the HMAC is a parameter.
\<close>

definition kRepeatWireMaximumPathBytes :: nat where "kRepeatWireMaximumPathBytes = 64"
definition kRepeatWireRouteMask :: u8 where "kRepeatWireRouteMask = 0x03"
definition kRepeatWireRouteTransportFlood :: u8 where "kRepeatWireRouteTransportFlood = 0x00"
definition kRepeatWireRouteFlood :: u8 where "kRepeatWireRouteFlood = 0x01"
definition kRepeatWireRouteTransportDirect :: u8 where "kRepeatWireRouteTransportDirect = 0x03"
definition kRepeatWireTypeMask :: u8 where "kRepeatWireTypeMask = 0x0f"
definition kRepeatWireVersionMask :: u8 where "kRepeatWireVersionMask = 0x03"
definition kRepeatWirePayloadVersion1 :: u8 where "kRepeatWirePayloadVersion1 = 0"

lemmas wire_consts = kRepeatWireMaximumPathBytes_def kRepeatWireRouteMask_def
  kRepeatWireRouteTransportFlood_def kRepeatWireRouteFlood_def
  kRepeatWireRouteTransportDirect_def kRepeatWireTypeMask_def kRepeatWireVersionMask_def
  kRepeatWirePayloadVersion1_def

datatype RepeatWireDecodeStatus =
    WireOk
  | WireInvalidArgument
  | WireUnsupportedVersion
  | WireTruncatedTransport
  | WireInvalidPath
  | WireMissingPayload

record RepeatWireView =
  rw_payloadType :: u8
  rw_route :: u8
  rw_flood :: bool
  rw_hasTransportCodes :: bool
  rw_transportCodes :: "u16 \<times> u16"
  rw_pathHashSize :: u8
  rw_pathCount :: u8
  rw_path :: "bytes option"
  rw_pathBytes :: nat
  rw_payload :: "bytes option"
  rw_payloadBytes :: nat

definition view0 :: RepeatWireView where
  "view0 = \<lparr>rw_payloadType = 0, rw_route = 0, rw_flood = False, rw_hasTransportCodes = False,
     rw_transportCodes = (0, 0), rw_pathHashSize = 0, rw_pathCount = 0, rw_path = None, rw_pathBytes = 0,
     rw_payload = None, rw_payloadBytes = 0\<rparr>"

definition lastHopToken :: "RepeatWireView \<Rightarrow> bytes option" where
  "lastHopToken v = (if rw_pathCount v = 0 then None else
     map_option (drop (rw_pathBytes v - unat (rw_pathHashSize v))) (rw_path v))"

definition u16_le :: "u8 \<Rightarrow> u8 \<Rightarrow> u16" where
  "u16_le lo hi = ucast lo OR push_bit 8 (ucast hi)"

text \<open>
  The decoder returns its status together with the output view, which an early return
  leaves partly filled.
\<close>

definition decodeRepeatWire :: "bytes option \<Rightarrow> RepeatWireDecodeStatus \<times> RepeatWireView" where
  "decodeRepeatWire rawp = (case rawp of
     None \<Rightarrow> (WireInvalidArgument, view0)
   | Some raw \<Rightarrow>
     if length raw < 2 then (WireInvalidArgument, view0) else
     let header = raw ! 0 in
     if drop_bit 6 header AND kRepeatWireVersionMask \<noteq> kRepeatWirePayloadVersion1
     then (WireUnsupportedVersion, view0) else
     let rt = header AND kRepeatWireRouteMask;
         out = view0\<lparr>rw_route := rt,
           rw_payloadType := drop_bit 2 header AND kRepeatWireTypeMask,
           rw_flood := rt = kRepeatWireRouteFlood \<or> rt = kRepeatWireRouteTransportFlood\<rparr>;
         transport = (rt = kRepeatWireRouteTransportFlood \<or> rt = kRepeatWireRouteTransportDirect)
     in if transport \<and> length raw < 6 then (WireTruncatedTransport, out) else
     let out = (if transport then out\<lparr>rw_hasTransportCodes := True,
           rw_transportCodes := (u16_le (raw ! 1) (raw ! 2), u16_le (raw ! 3) (raw ! 4))\<rparr> else out);
         cursor = (if transport then 5 else 1);
         encodedPath = raw ! cursor;
         cursor = cursor + 1;
         pathMode = drop_bit 6 encodedPath
     in if pathMode = 3 then (WireInvalidPath, out) else
     let out = out\<lparr>rw_pathHashSize := pathMode + 1, rw_pathCount := encodedPath AND 63\<rparr>;
         pb = unat (rw_pathHashSize out) * unat (rw_pathCount out);
         out = out\<lparr>rw_pathBytes := pb\<rparr>
     in if pb > kRepeatWireMaximumPathBytes \<or> cursor + pb > length raw
        then (WireInvalidPath, out) else
     let out = out\<lparr>rw_path := Some (take pb (drop cursor raw))\<rparr>;
         cursor = cursor + pb
     in if cursor \<ge> length raw then (WireMissingPayload, out)
        else (WireOk, out\<lparr>rw_payload := Some (drop cursor raw), rw_payloadBytes := length raw - cursor\<rparr>))"

subsection \<open>Flood route binding\<close>

record FloodRouteBinding =
  transportScoped :: bool
  fr_codes :: "u16 \<times> u16"
  fr_pathHashSize :: u8

definition binding0 :: FloodRouteBinding where
  "binding0 = \<lparr>transportScoped = False, fr_codes = (0, 0), fr_pathHashSize = 0\<rparr>"

definition validFloodRouteBinding :: "FloodRouteBinding \<Rightarrow> bool" where
  "validFloodRouteBinding b =
     (if fr_pathHashSize b < 1 \<or> fr_pathHashSize b > 3 then False
      else if \<not> transportScoped b then fst (fr_codes b) = 0 \<and> snd (fr_codes b) = 0
      else True)"

definition sameFloodRouteBinding :: "FloodRouteBinding \<Rightarrow> FloodRouteBinding \<Rightarrow> bool" where
  "sameFloodRouteBinding l r \<longleftrightarrow> validFloodRouteBinding l \<and> validFloodRouteBinding r
     \<and> transportScoped l = transportScoped r \<and> fr_pathHashSize l = fr_pathHashSize r
     \<and> fst (fr_codes l) = fst (fr_codes r) \<and> snd (fr_codes l) = snd (fr_codes r)"

definition floodRouteBindingFromWire :: "RepeatWireView \<Rightarrow> bool \<times> FloodRouteBinding" where
  "floodRouteBindingFromWire wire =
     (let out = binding0 in
      if \<not> rw_flood wire then (False, out) else
      let out = out\<lparr>transportScoped := rw_hasTransportCodes wire,
                    fr_pathHashSize := rw_pathHashSize wire\<rparr>;
          out = (if rw_hasTransportCodes wire
                 then out\<lparr>fr_codes := (fst (rw_transportCodes wire), snd (rw_transportCodes wire))\<rparr> else out)
      in (validFloodRouteBinding out, out))"

lemma sameFloodRouteBinding_iff:
  "sameFloodRouteBinding l r \<longleftrightarrow> l = r \<and> validFloodRouteBinding l"
  by (cases l; cases r) (auto simp: sameFloodRouteBinding_def)

subsection \<open>Transport scope\<close>

definition kDefaultTransportScopeKey :: bytes where
  "kDefaultTransportScopeKey =
     [0x04, 0x25, 0x4d, 0xa6, 0xa9, 0xae, 0x90, 0x20,
      0xad, 0x2a, 0xf9, 0x15, 0x17, 0x41, 0x33, 0x47]"

text \<open>
  \<open>hmac16 key message\<close> stands for the first two bytes of HMAC-SHA256 in the native
  \<^verbatim>\<open>uint16_t\<close> representation.  The result is \<open>None\<close> where the code returns false.
\<close>

definition calculateTransportCode ::
  "(bytes \<Rightarrow> bytes \<Rightarrow> u16) \<Rightarrow> bytes option \<Rightarrow> u8 \<Rightarrow> bytes option \<Rightarrow> nat \<Rightarrow> u16 option" where
  "calculateTransportCode hmac16 keyp ptype pl plBytes =
     (case keyp of None \<Rightarrow> None | Some key \<Rightarrow>
      if pl = None \<and> plBytes \<noteq> 0 then None else
      let out = hmac16 key (ptype # (if plBytes \<noteq> 0 then take plBytes (the pl) else []))
      in Some (if out = 0 then 1 else if out = 0xffff then 0xfffe else out))"

definition calculateDefaultTransportCode ::
  "(bytes \<Rightarrow> bytes \<Rightarrow> u16) \<Rightarrow> u8 \<Rightarrow> bytes option \<Rightarrow> nat \<Rightarrow> u16 option" where
  "calculateDefaultTransportCode hmac16 =
     calculateTransportCode hmac16 (Some kDefaultTransportScopeKey)"

definition isExactDefaultScopedRepeat :: "(bytes \<Rightarrow> bytes \<Rightarrow> u16) \<Rightarrow> RepeatWireView \<Rightarrow> bool" where
  "isExactDefaultScopedRepeat hmac16 wire =
     (if rw_route wire \<noteq> kRepeatWireRouteTransportFlood \<or> \<not> rw_hasTransportCodes wire
         \<or> rw_pathHashSize wire \<noteq> 1 \<or> rw_pathCount wire = 0 \<or> snd (rw_transportCodes wire) \<noteq> 0
         \<or> rw_payload wire = None \<or> rw_payloadBytes wire = 0 then False
      else (case calculateDefaultTransportCode hmac16 (rw_payloadType wire) (rw_payload wire)
                   (rw_payloadBytes wire) of
              None \<Rightarrow> False | Some expected \<Rightarrow> fst (rw_transportCodes wire) = expected))"

subsection \<open>The frame layout\<close>

text \<open>
  The layout the decoder is meant to accept, written as an encoder of well-formed views:
  header, optional transport codes in little-endian order, path descriptor, path, payload.
\<close>

definition wire_encode :: "RepeatWireView \<Rightarrow> bytes" where
  "wire_encode v =
     (rw_route v OR push_bit 2 (rw_payloadType v))
     # (if rw_hasTransportCodes v then
          [ucast (fst (rw_transportCodes v)), ucast (drop_bit 8 (fst (rw_transportCodes v))),
           ucast (snd (rw_transportCodes v)), ucast (drop_bit 8 (snd (rw_transportCodes v)))] else [])
     @ (push_bit 6 (rw_pathHashSize v - 1) OR rw_pathCount v)
     # the (rw_path v) @ the (rw_payload v)"

definition wire_wf :: "RepeatWireView \<Rightarrow> bool" where
  "wire_wf v \<longleftrightarrow> rw_route v < 4 \<and> rw_payloadType v < 16
     \<and> rw_flood v = (rw_route v = 0 \<or> rw_route v = 1)
     \<and> rw_hasTransportCodes v = (rw_route v = 0 \<or> rw_route v = 3)
     \<and> (\<not> rw_hasTransportCodes v \<longrightarrow> rw_transportCodes v = (0, 0))
     \<and> 1 \<le> rw_pathHashSize v \<and> rw_pathHashSize v \<le> 3 \<and> rw_pathCount v < 64
     \<and> rw_pathBytes v = unat (rw_pathHashSize v) * unat (rw_pathCount v)
     \<and> rw_pathBytes v \<le> 64
     \<and> (\<exists>p. rw_path v = Some p \<and> length p = rw_pathBytes v)
     \<and> (\<exists>q. rw_payload v = Some q \<and> q \<noteq> [] \<and> length q = rw_payloadBytes v)"

definition wire_decode :: "bytes \<Rightarrow> RepeatWireView option" where
  "wire_decode raw = (case decodeRepeatWire (Some raw) of (st, v) \<Rightarrow>
     if st = WireOk then Some v else None)"

lemma header_fields:
  fixes r t :: u8
  assumes "r < 4" and "t < 16"
  shows "(r OR push_bit 2 t) AND 3 = r" and "drop_bit 2 (r OR push_bit 2 t) AND 15 = t"
    and "drop_bit 6 (r OR push_bit 2 t) AND 3 = 0"
proof -
  have r: "take_bit 2 r = r" and t: "take_bit 4 t = t"
    using assms by (auto intro: take_bit_word_small simp: word_less_nat_alt)
  show "(r OR push_bit 2 t) AND 3 = r"
    by (subst and_mask8, subst (2) r [symmetric], rule bit_word_eqI) (auto simp: bit_simps)
  show "drop_bit 2 (r OR push_bit 2 t) AND 15 = t"
    by (subst and_mask8, subst (2) t [symmetric], subst r [symmetric], rule bit_word_eqI)
      (auto simp: bit_simps)
  show "drop_bit 6 (r OR push_bit 2 t) AND 3 = 0"
    by (subst and_mask8, subst t [symmetric], subst r [symmetric], rule bit_word_eqI)
      (auto simp: bit_simps)
qed

lemma header_rebuild:
  fixes h :: u8
  assumes "drop_bit 6 h AND 3 = 0"
  shows "(h AND 3) OR push_bit 2 (drop_bit 2 h AND 15) = h"
proof (rule bit_word_eqI)
  fix n assume n: "n < LENGTH(8)"
  have a: "\<not> bit h 6" "\<not> bit h 7"
    using arg_cong [OF assms, of "\<lambda>x. bit x 0"] arg_cong [OF assms, of "\<lambda>x. bit x 1"]
    by (simp_all add: and_mask8 bit_simps)
  have "n < 6" if "bit h n"
  proof (rule ccontr)
    assume "\<not> n < 6"
    with n have "n = 6 \<or> n = 7" by auto
    with a that show False by auto
  qed
  then show "bit ((h AND 3) OR push_bit 2 (drop_bit 2 h AND 15)) n = bit h n"
    using n unfolding and_mask8 by (auto simp: bit_simps Suc2_diff)
qed

lemma path_fields:
  fixes m c :: u8
  assumes "m < 4" and "c < 64"
  shows "drop_bit 6 (push_bit 6 m OR c) = m" and "(push_bit 6 m OR c) AND 63 = c"
proof -
  have m: "take_bit 2 m = m" and c: "take_bit 6 c = c"
    using assms by (auto intro: take_bit_word_small simp: word_less_nat_alt)
  show "drop_bit 6 (push_bit 6 m OR c) = m"
    by (subst m [symmetric], subst (2) m [symmetric], subst c [symmetric], rule bit_word_eqI)
      (auto simp: bit_simps)
  show "(push_bit 6 m OR c) AND 63 = c"
    by (subst and_mask8, subst (2) c [symmetric], rule bit_word_eqI) (auto simp: bit_simps)
qed

lemma path_rebuild: "push_bit 6 (drop_bit 6 e) OR (e AND 63) = (e :: u8)"
  unfolding and_mask8 by (rule bit_word_eqI) (auto simp: bit_simps)

lemma small_words:
  fixes h :: u8
  shows "h AND 3 < 4" and "h AND 15 < 16" and "h AND 63 < 64" and "drop_bit 6 h < 4"
proof -
  have "unat (take_bit 2 h) < 4" "unat (take_bit 4 h) < 16" "unat (take_bit 6 h) < 64"
    using take_bit_nat_less_exp [of 2 "unat h"] take_bit_nat_less_exp [of 4 "unat h"]
      take_bit_nat_less_exp [of 6 "unat h"] by (simp_all add: unsigned_take_bit_eq)
  then show "h AND 3 < 4" "h AND 15 < 16" "h AND 63 < 64"
    by (simp_all add: and_mask8 word_less_nat_alt)
  have "unat (drop_bit 6 h) < 4"
    using unat8_lt [of h] by (simp add: drop_bit_eq_div unat_div)
  then show "drop_bit 6 h < 4" by (simp add: word_less_nat_alt)
qed

text \<open>Both layouts of a frame, as the decoder sees them after its length checks.\<close>

definition decode_rest :: "RepeatWireView \<Rightarrow> u8 \<Rightarrow> bytes \<Rightarrow> RepeatWireDecodeStatus \<times> RepeatWireView" where
  "decode_rest out e rest =
     (if drop_bit 6 e = 3 then (WireInvalidPath, out) else
      let pb = unat (drop_bit 6 e + 1) * unat (e AND 63);
          out = out\<lparr>rw_pathHashSize := drop_bit 6 e + 1, rw_pathCount := e AND 63, rw_pathBytes := pb\<rparr>
      in if pb > 64 \<or> pb > length rest then (WireInvalidPath, out)
         else let out = out\<lparr>rw_path := Some (take pb rest)\<rparr> in
           if pb = length rest then (WireMissingPayload, out)
           else (WireOk, out\<lparr>rw_payload := Some (drop pb rest), rw_payloadBytes := length rest - pb\<rparr>))"

definition decode_head :: "u8 \<Rightarrow> RepeatWireView" where
  "decode_head h = view0\<lparr>rw_route := h AND 3, rw_payloadType := drop_bit 2 h AND 15,
     rw_flood := (h AND 3 = 1 \<or> h AND 3 = 0)\<rparr>"

lemma u16_le_bytes: "ucast (u16_le a b) = a" "ucast (drop_bit 8 (u16_le a b)) = b"
  unfolding u16_le_def by (rule u16_low_byte, rule u16_high_byte)

lemma drop_6_Cons: "drop (6 + n) (h # a # b # c # d # e # rest) = drop n rest"
  by (simp add: eval_nat_numeral)

lemma decode_transport:
  assumes "drop_bit 6 h AND 3 = 0" and "h AND 3 = 0 \<or> h AND 3 = 3"
  shows "decodeRepeatWire (Some (h # a # b # c # d # e # rest)) =
    decode_rest (decode_head h\<lparr>rw_hasTransportCodes := True,
      rw_transportCodes := (u16_le a b, u16_le c d)\<rparr>) e rest"
  using assms
  by (auto simp: decodeRepeatWire_def decode_rest_def decode_head_def wire_consts drop_6_Cons
      Let_def)

lemma decode_plain:
  assumes "drop_bit 6 h AND 3 = 0" and "h AND 3 \<noteq> 0" and "h AND 3 \<noteq> 3"
  shows "decodeRepeatWire (Some (h # e # rest)) = decode_rest (decode_head h) e rest"
  using assms
  by (auto simp: decodeRepeatWire_def decode_rest_def decode_head_def wire_consts Let_def)

lemma decode_rest_encode:
  fixes hs ct :: u8
  assumes "1 \<le> hs" "hs \<le> 3" "ct < 64" "length p = unat hs * unat ct" "length p \<le> 64" "q \<noteq> []"
  shows "decode_rest out (push_bit 6 (hs - 1) OR ct) (p @ q) =
    (WireOk, out\<lparr>rw_pathHashSize := hs, rw_pathCount := ct, rw_pathBytes := length p,
       rw_path := Some p, rw_payload := Some q, rw_payloadBytes := length q\<rparr>)"
proof -
  have "hs - 1 < 4" and "hs - 1 \<noteq> 3"
    using assms(1,2) by (simp_all add: word_less_nat_alt word_le_nat_alt word_unat_eq_iff unat_sub)
  note pf = path_fields [OF \<open>hs - 1 < 4\<close> assms(3)]
  from assms \<open>hs - 1 \<noteq> 3\<close> show ?thesis
    unfolding decode_rest_def pf by (simp add: Let_def)
qed

lemma decode_rest_ok:
  assumes "decode_rest out e rest = (WireOk, v)"
  shows "\<exists>p q. rest = p @ q \<and> q \<noteq> [] \<and> length p = unat (drop_bit 6 e + 1) * unat (e AND 63)
    \<and> length p \<le> 64 \<and> drop_bit 6 e \<noteq> 3
    \<and> v = out\<lparr>rw_pathHashSize := drop_bit 6 e + 1, rw_pathCount := e AND 63,
        rw_pathBytes := length p, rw_path := Some p, rw_payload := Some q, rw_payloadBytes := length q\<rparr>"
proof -
  let ?n = "unat (drop_bit 6 e + 1) * unat (e AND 63)"
  have "?n \<le> 64" "?n < length rest" "drop_bit 6 e \<noteq> 3"
    and v: "v = out\<lparr>rw_pathHashSize := drop_bit 6 e + 1, rw_pathCount := e AND 63,
        rw_pathBytes := ?n, rw_path := Some (take ?n rest), rw_payload := Some (drop ?n rest),
        rw_payloadBytes := length rest - ?n\<rparr>"
    using assms by (auto simp: decode_rest_def Let_def split: if_splits)
  then show ?thesis by (intro exI [of _ "take ?n rest"] exI [of _ "drop ?n rest"]) simp
qed

lemma wire_decode_encode:
  assumes "wire_wf v"
  shows "wire_decode (wire_encode v) = Some v"
proof -
  from assms obtain p q where p: "rw_path v = Some p" "length p = rw_pathBytes v"
    and q: "rw_payload v = Some q" "q \<noteq> []" "length q = rw_payloadBytes v"
    unfolding wire_wf_def by blast
  let ?h = "rw_route v OR push_bit 2 (rw_payloadType v)"
  let ?e = "push_bit 6 (rw_pathHashSize v - 1) OR rw_pathCount v"
  have h: "?h AND 3 = rw_route v" "drop_bit 2 ?h AND 15 = rw_payloadType v" "drop_bit 6 ?h AND 3 = 0"
    using assms header_fields [of "rw_route v" "rw_payloadType v"] by (simp_all add: wire_wf_def)
  have rest: "decode_rest out ?e (p @ q) = (WireOk, out\<lparr>rw_pathHashSize := rw_pathHashSize v,
      rw_pathCount := rw_pathCount v, rw_pathBytes := length p, rw_path := Some p,
      rw_payload := Some q, rw_payloadBytes := length q\<rparr>)" for out
    using assms p q by (intro decode_rest_encode) (simp_all add: wire_wf_def)
  show ?thesis
  proof (cases "rw_hasTransportCodes v")
    case True
    then have tr: "?h AND 3 = 0 \<or> ?h AND 3 = 3" using assms h by (auto simp: wire_wf_def)
    have enc: "wire_encode v = ?h # ucast (fst (rw_transportCodes v))
        # ucast (drop_bit 8 (fst (rw_transportCodes v))) # ucast (snd (rw_transportCodes v))
        # ucast (drop_bit 8 (snd (rw_transportCodes v))) # ?e # p @ q"
      using True p q by (simp add: wire_encode_def)
    show ?thesis
      unfolding wire_decode_def enc decode_transport [OF h(3) tr] rest decode_head_def h
      using True p q assms
      by (cases v) (auto simp: view0_def u16_le_def u16_of_bytes wire_wf_def)
  next
    case False
    then have tr: "?h AND 3 \<noteq> 0" "?h AND 3 \<noteq> 3" using assms h by (auto simp: wire_wf_def)
    have enc: "wire_encode v = ?h # ?e # p @ q" using False p q by (simp add: wire_encode_def)
    show ?thesis
      unfolding wire_decode_def enc decode_plain [OF h(3) tr] rest decode_head_def h
      using False p q assms
      by (cases v) (auto simp: view0_def wire_wf_def)
  qed
qed

lemma wire_rest_wf:
  assumes "decode_rest out e rest = (WireOk, v)" and "drop_bit 6 h AND 3 = 0"
    and "out = decode_head h\<lparr>rw_hasTransportCodes := t, rw_transportCodes := cs\<rparr>"
    and "t = (h AND 3 = 0 \<or> h AND 3 = 3)" and "\<not> t \<longrightarrow> cs = (0, 0)"
  shows "wire_wf v \<and> wire_encode v = h # (if t then
      [ucast (fst cs), ucast (drop_bit 8 (fst cs)), ucast (snd cs), ucast (drop_bit 8 (snd cs))] else [])
      @ e # rest"
proof -
  obtain p q where r: "rest = p @ q" "q \<noteq> []" "length p = unat (drop_bit 6 e + 1) * unat (e AND 63)"
      "length p \<le> 64" "drop_bit 6 e \<noteq> 3"
    and v: "v = out\<lparr>rw_pathHashSize := drop_bit 6 e + 1, rw_pathCount := e AND 63,
        rw_pathBytes := length p, rw_path := Some p, rw_payload := Some q, rw_payloadBytes := length q\<rparr>"
    using decode_rest_ok [OF assms(1)] by blast
  have "unat (drop_bit 6 e) < 3"
    using small_words(4) [of e] r(5) by (simp add: word_less_nat_alt word_unat_eq_iff)
  then have hs: "1 \<le> drop_bit 6 e + 1" "drop_bit 6 e + 1 \<le> 3"
    by (simp_all add: word_le_nat_alt unat_plus_small)
  have f: "rw_route v = h AND 3" "rw_payloadType v = drop_bit 2 h AND 15"
      "rw_hasTransportCodes v = t" "rw_transportCodes v = cs"
      "rw_pathHashSize v = drop_bit 6 e + 1" "rw_pathCount v = e AND 63"
      "rw_path v = Some p" "rw_payload v = Some q"
    and g: "rw_flood v = (h AND 3 = 1 \<or> h AND 3 = 0)" "rw_pathBytes v = length p"
      "rw_payloadBytes v = length q"
    by (simp_all add: v assms(3) decode_head_def)
  have "wire_wf v"
    unfolding wire_wf_def f g using assms(4,5) r hs small_words by auto
  moreover have "wire_encode v = h # (if t then
      [ucast (fst cs), ucast (drop_bit 8 (fst cs)), ucast (snd cs), ucast (drop_bit 8 (snd cs))] else [])
      @ e # rest"
    unfolding wire_encode_def f header_rebuild [OF assms(2)] add_diff_cancel_right' path_rebuild
    by (simp add: r(1))
  ultimately show ?thesis ..
qed

lemma wire_decode_ok:
  assumes "wire_decode raw = Some v"
  shows "wire_wf v \<and> wire_encode v = raw"
proof -
  have dec: "decodeRepeatWire (Some raw) = (WireOk, v)"
    using assms by (auto simp: wire_decode_def split: prod.splits if_splits)
  have two: "2 \<le> length raw"
    using dec by (auto simp: decodeRepeatWire_def split: if_splits)
  let ?h = "raw ! 0"
  have ver: "drop_bit 6 ?h AND 3 = 0"
    using dec two by (auto simp: decodeRepeatWire_def wire_consts Let_def split: if_splits)
  show ?thesis
  proof (cases "?h AND 3 = 0 \<or> ?h AND 3 = 3")
    case True
    then have "6 \<le> length raw"
      using dec two ver by (auto simp: decodeRepeatWire_def wire_consts Let_def split: if_splits)
    then obtain h a b c d e rest where raw: "raw = h # a # b # c # d # e # rest"
      by (auto simp: numeral_eq_Suc Suc_le_length_iff)
    from decode_transport [of h a b c d e rest] dec ver True
    have "decode_rest (decode_head h\<lparr>rw_hasTransportCodes := True,
        rw_transportCodes := (u16_le a b, u16_le c d)\<rparr>) e rest = (WireOk, v)"
      by (simp add: raw)
    from wire_rest_wf [OF this, where h = h and t = True and cs = "(u16_le a b, u16_le c d)"] ver True show ?thesis
      by (simp add: raw u16_le_bytes)
  next
    case False
    from two obtain h e rest where raw: "raw = h # e # rest"
      by (auto simp: numeral_eq_Suc Suc_le_length_iff)
    from decode_plain [of h e rest] dec ver False
    have "decode_rest (decode_head h) e rest = (WireOk, v)" by (simp add: raw)
    from wire_rest_wf [OF this, where h = h and t = False and cs = "(0, 0)"] ver False show ?thesis
      by (simp add: raw decode_head_def view0_def)
  qed
qed

interpretation wire: codec wire_encode wire_decode wire_wf
  using wire_decode_encode wire_decode_ok by unfold_locales

text \<open>
  C22. The repeat decoder is exact: it accepts a frame exactly when the frame is the
  encoding of a well-formed view, and then returns that view; the path it exposes is the
  stated number of hashes of the stated width, at most 64 bytes, and the payload is never
  empty.
\<close>

theorem decodeRepeatWire_exact:
  "decodeRepeatWire (Some raw) = (WireOk, v) \<longleftrightarrow> wire_wf v \<and> raw = wire_encode v"
  using wire.dec_iff [of raw v]
  by (auto simp: wire_decode_def case_prod_beta prod_eq_iff split: if_splits)

text \<open>
  A transport code is never one of the two reserved values, and a received copy counts
  as an exact default-scoped repeat only when it is a well-formed transport flood with
  one-byte hops, at least one hop, no home code and the code of this very payload.
\<close>

lemma transport_code_sound:
  "calculateTransportCode hmac16 key ptype pl n \<noteq> Some 0
   \<and> calculateTransportCode hmac16 key ptype pl n \<noteq> Some 0xffff
   \<and> (decodeRepeatWire (Some raw) = (WireOk, v) \<and> isExactDefaultScopedRepeat hmac16 v \<longrightarrow>
       raw ! 0 AND 3 = 0 \<and> rw_pathHashSize v = 1 \<and> 0 < rw_pathCount v
       \<and> Some (u16_le (raw ! 1) (raw ! 2)) = calculateDefaultTransportCode hmac16
            (drop_bit 2 (raw ! 0) AND 15) (rw_payload v) (rw_payloadBytes v)
       \<and> u16_le (raw ! 3) (raw ! 4) = 0)"
proof -
  have code: "calculateTransportCode hmac16 key ptype pl n \<noteq> Some 0
      \<and> calculateTransportCode hmac16 key ptype pl n \<noteq> Some 0xffff"
    by (auto simp: calculateTransportCode_def Let_def split: option.splits if_splits)
  have "raw ! 0 AND 3 = 0 \<and> rw_pathHashSize v = 1 \<and> 0 < rw_pathCount v
       \<and> Some (u16_le (raw ! 1) (raw ! 2)) = calculateDefaultTransportCode hmac16
            (drop_bit 2 (raw ! 0) AND 15) (rw_payload v) (rw_payloadBytes v)
       \<and> u16_le (raw ! 3) (raw ! 4) = 0"
    if "decodeRepeatWire (Some raw) = (WireOk, v)" and "isExactDefaultScopedRepeat hmac16 v"
  proof -
    from wire_decode_ok [of raw v] that(1) have wf: "wire_wf v" and raw: "raw = wire_encode v"
      by (auto simp: wire_decode_def)
    from wf have "rw_route v < 4" "rw_payloadType v < 16" by (simp_all add: wire_wf_def)
    note h = header_fields [OF this]
    show ?thesis
      using that(2) h(1,2)
      by (auto simp: isExactDefaultScopedRepeat_def raw wire_encode_def u16_le_def u16_of_bytes
          wire_consts word_gt_0 split: if_splits option.splits)
  qed
  with code show ?thesis by blast
qed

lemma transport_code_sound_witness:
  "(let v = snd (decodeRepeatWire (Some [0x14, 7, 0, 0, 0, 1, 0xAA, 0x42])) in
     isExactDefaultScopedRepeat (\<lambda>k m. 7) v
     \<and> Some (u16_le 7 0) = calculateDefaultTransportCode (\<lambda>k m. 7) 5 (rw_payload v) (rw_payloadBytes v))"
proof -
  let ?raw = "[0x14, 7, 0, 0, 0, 1, 0xAA, 0x42] :: bytes"
  let ?v = "snd (decodeRepeatWire (Some ?raw))"
  have dec: "decodeRepeatWire (Some ?raw) = (WireOk, ?v)"
    by (simp add: decodeRepeatWire_def wire_consts Let_def)
  have ex: "isExactDefaultScopedRepeat (\<lambda>k m. 7) ?v"
    by (simp add: decodeRepeatWire_def wire_consts Let_def isExactDefaultScopedRepeat_def view0_def
        calculateDefaultTransportCode_def calculateTransportCode_def u16_le_def)
  show ?thesis
    using transport_code_sound [of "\<lambda>k m. 7" None 0 None 0 ?raw ?v] dec ex
    by (simp add: Let_def)
qed

end
