(* ===== verification/Repeat_Sources.thy ===== *)
theory Repeat_Sources
  imports Kitsu_Prelude
begin

text \<open>
  The contract of the bounded list of last-hop tokens that both repeat trackers keep
  (\<^verbatim>\<open>recordSource\<close> of \<^verbatim>\<open>src/src/kitsu_channel_repeat_tracker.cpp\<close> and of
  \<^verbatim>\<open>src/src/kitsu_advert_repeat_tracker.cpp\<close>): at most four different tokens are kept, in the
  order of their first arrival, and a flag says that a fifth was seen.
\<close>

text \<open>A token as the callers pass it: a pointer that may be null and a byte count.\<close>

definition source_token :: "bytes option \<Rightarrow> u8 \<Rightarrow> bytes option" where
  "source_token tok n = (if tok = None \<or> n = 0 \<or> n > 3 then None
     else Some (take (unat n) (the tok)))"

text \<open>The pointer designates at least the bytes the callee reads.\<close>

definition token_ok :: "bytes option \<Rightarrow> u8 \<Rightarrow> bool" where
  "token_ok tok n \<longleftrightarrow> (\<forall>b. tok = Some b \<longrightarrow> unat n \<le> length b)"

lemma token_ok_code [code]: "token_ok tok n = (case tok of None \<Rightarrow> True | Some b \<Rightarrow> unat n \<le> length b)"
  by (simp add: token_ok_def split: option.splits)

text \<open>The first occurrences of a list's elements, in order.\<close>

fun firsts :: "'a list \<Rightarrow> 'a list \<Rightarrow> 'a list" where
  "firsts seen [] = seen"
| "firsts seen (x # xs) = firsts (if x \<in> set seen then seen else seen @ [x]) xs"

lemma firsts_prefix: "\<exists>ys. firsts seen xs = seen @ ys"
proof (induction xs arbitrary: seen)
  case Nil
  then show ?case by simp
next
  case (Cons x xs)
  show ?case
  proof (cases "x \<in> set seen")
    case True
    then show ?thesis using Cons [of seen] by simp
  next
    case False
    then show ?thesis using Cons [of "seen @ [x]"] by auto
  qed
qed

lemma length_firsts_ge: "length seen \<le> length (firsts seen xs)"
  using firsts_prefix [of seen xs] by auto

lemma distinct_firsts: "distinct seen \<Longrightarrow> distinct (firsts seen xs)"
  by (induction xs arbitrary: seen) auto

lemma set_firsts: "set (firsts seen xs) = set seen \<union> set xs"
  by (induction xs arbitrary: seen) auto

locale source_log =
  fixes add :: "bytes option \<Rightarrow> u8 \<Rightarrow> 's \<Rightarrow> bool \<times> 's"
    and toks :: "'s \<Rightarrow> bytes list"
    and trunc :: "'s \<Rightarrow> bool"
    and inv :: "'s \<Rightarrow> bool"
  assumes add_none: "inv s \<Longrightarrow> source_token tok n = None \<Longrightarrow> add tok n s = (False, s)"
    and add_known: "inv s \<Longrightarrow> token_ok tok n \<Longrightarrow> source_token tok n = Some t \<Longrightarrow> t \<in> set (toks s)
          \<Longrightarrow> add tok n s = (False, s)"
    and add_new: "inv s \<Longrightarrow> token_ok tok n \<Longrightarrow> source_token tok n = Some t \<Longrightarrow> t \<notin> set (toks s)
          \<Longrightarrow> length (toks s) < 4
          \<Longrightarrow> fst (add tok n s) \<and> toks (snd (add tok n s)) = toks s @ [t]
            \<and> trunc (snd (add tok n s)) = trunc s"
    and add_full: "inv s \<Longrightarrow> token_ok tok n \<Longrightarrow> source_token tok n = Some t \<Longrightarrow> t \<notin> set (toks s)
          \<Longrightarrow> \<not> length (toks s) < 4
          \<Longrightarrow> fst (add tok n s) = (\<not> trunc s) \<and> toks (snd (add tok n s)) = toks s
            \<and> trunc (snd (add tok n s))"
    and add_inv: "inv s \<Longrightarrow> token_ok tok n \<Longrightarrow> inv (snd (add tok n s))"
    and inv_bound: "inv s \<Longrightarrow> length (toks s) \<le> 4"
begin

text \<open>The token list after one call, whatever the token.\<close>

lemma toks_add:
  assumes "inv s" and "token_ok tok n"
  shows "toks (snd (add tok n s)) = (case source_token tok n of None \<Rightarrow> toks s
    | Some t \<Rightarrow> if t \<in> set (toks s) \<or> \<not> length (toks s) < 4 then toks s else toks s @ [t])"
proof (cases "source_token tok n")
  case None
  with assms(1) show ?thesis by (simp add: add_none)
next
  case (Some t)
  note add = add_known [OF assms Some] add_new [OF assms Some] add_full [OF assms Some]
  show ?thesis
    by (cases "t \<in> set (toks s)"; cases "length (toks s) < 4") (simp_all add: add Some)
qed

lemma trunc_add:
  assumes "inv s" and "token_ok tok n"
  shows "trunc (snd (add tok n s)) = (trunc s \<or> (\<exists>t. source_token tok n = Some t
    \<and> t \<notin> set (toks s) \<and> \<not> length (toks s) < 4))"
proof (cases "source_token tok n")
  case None
  with assms(1) show ?thesis by (simp add: add_none)
next
  case (Some t)
  note add = add_known [OF assms Some] add_new [OF assms Some] add_full [OF assms Some]
  show ?thesis
    by (cases "t \<in> set (toks s)"; cases "length (toks s) < 4") (simp_all add: add Some)
qed

lemma distinct_toks_add:
  "inv s \<Longrightarrow> token_ok tok n \<Longrightarrow> distinct (toks s) \<Longrightarrow> distinct (toks (snd (add tok n s)))"
  by (auto simp: toks_add split: option.splits)

text \<open>Recording a token twice changes nothing the second time, unless the list is full.\<close>

lemma add_twice:
  assumes "inv s" and "token_ok tok n" and "length (toks s) < 4"
  shows "add tok n (snd (add tok n s)) = (False, snd (add tok n s))"
proof (cases "source_token tok n")
  case None
  then show ?thesis using assms by (simp add: add_none)
next
  case (Some t)
  then have "t \<in> set (toks (snd (add tok n s)))" using assms by (simp add: toks_add)
  with Some show ?thesis using assms by (intro add_known add_inv)
qed

text \<open>
  A run of recordings keeps the first four different tokens in order of arrival and is
  marked truncated exactly when there were more.
\<close>

lemma run_toks:
  assumes "inv s" and "trunc s = False" and "\<forall>(tok, n) \<in> set calls. token_ok tok n"
  shows "let ts = List.map_filter (\<lambda>(tok, n). source_token tok n) calls;
             s' = foldl (\<lambda>s (tok, n). snd (add tok n s)) s calls
         in toks s' = take 4 (firsts (toks s) ts)
          \<and> (trunc s' \<longleftrightarrow> 4 < length (firsts (toks s) ts))"
proof -
  have gen: "toks (foldl (\<lambda>s (tok, n). snd (add tok n s)) s calls)
        = take 4 (firsts seen (List.map_filter (\<lambda>(tok, n). source_token tok n) calls))
      \<and> (trunc (foldl (\<lambda>s (tok, n). snd (add tok n s)) s calls)
        \<longleftrightarrow> 4 < length (firsts seen (List.map_filter (\<lambda>(tok, n). source_token tok n) calls)))"
    if "inv s" and "toks s = take 4 seen" and "trunc s \<longleftrightarrow> 4 < length seen"
      and "\<forall>(tok, n) \<in> set calls. token_ok tok n" for s seen calls
    using that
  proof (induction calls arbitrary: s seen)
    case Nil
    then show ?case by (simp add: map_filter_simps)
  next
    case (Cons c calls)
    obtain tok n where c: "c = (tok, n)" by (cases c)
    have tok: "token_ok tok n" and calls: "\<forall>(tok, n) \<in> set calls. token_ok tok n"
      using Cons.prems(4) by (auto simp: c)
    let ?s = "snd (add tok n s)"
    show ?case
    proof (cases "source_token tok n")
      case None
      then have "?s = s" using Cons.prems(1) by (simp add: add_none)
      with Cons calls None show ?thesis by (simp add: c map_filter_simps)
    next
      case (Some t)
      let ?seen = "if t \<in> set seen then seen else seen @ [t]"
      show ?thesis
      proof (cases "4 < length seen")
        case True
        then have "length (toks s) = 4" "trunc s" using Cons.prems by simp_all
        then have "toks ?s = toks s" "trunc ?s" using Cons.prems(1) tok Some
          by (auto simp: toks_add trunc_add)
        then have ok: "inv ?s" "toks ?s = take 4 ?seen" "trunc ?s = (4 < length ?seen)"
          using Cons.prems tok True by (simp_all add: add_inv)
        from Cons.IH [OF ok calls] Some show ?thesis by (simp add: c map_filter_simps)
      next
        case False
        then have "toks s = seen" "\<not> trunc s" using Cons.prems by simp_all
        then have ok: "inv ?s" "toks ?s = take 4 ?seen" "trunc ?s = (4 < length ?seen)"
          using Cons.prems(1) tok Some False by (auto simp: add_inv toks_add trunc_add)
        from Cons.IH [OF ok calls] Some show ?thesis by (simp add: c map_filter_simps)
      qed
    qed
  qed
  show ?thesis using gen [of s "toks s" calls] assms inv_bound [of s] by (simp add: Let_def)
qed

end

end
