(* ===== verification/Channel_Repeat.thy ===== *)
theory Channel_Repeat
  imports Repeat_Wire Repeat_Sources "HOL-Library.Multiset"
begin

text \<open>
  The tracker of received copies of sent channel messages,
  \<^verbatim>\<open>src/src/kitsu_channel_repeat_tracker.{h,cpp}\<close>: a fixed table of 24 observation windows,
  one definition per method, and the guarantees of the table: an open window is never
  evicted, one received copy changes at most one window, and every closed window is
  reported once with its final count.
\<close>

definition kChannelGroupTextPayloadType :: u8 where "kChannelGroupTextPayloadType = 0x05"
definition kChannelRepeatSlotCount :: u8 where "kChannelRepeatSlotCount = 4"
definition kChannelRepeatTrackerCapacity :: nat where "kChannelRepeatTrackerCapacity = 24"
definition kChannelRepeatWindowMs :: u32 where "kChannelRepeatWindowMs = 120000"
definition kChannelRepeatSourceCapacity :: u8 where "kChannelRepeatSourceCapacity = 4"
definition kChannelRepeatSourceTokenBytes :: u8 where "kChannelRepeatSourceTokenBytes = 3"

lemmas channel_consts = kChannelGroupTextPayloadType_def kChannelRepeatSlotCount_def
  kChannelRepeatTrackerCapacity_def kChannelRepeatWindowMs_def
  kChannelRepeatSourceCapacity_def kChannelRepeatSourceTokenBytes_def

record ChannelRepeatSource =
  src_tokenBytes :: u8
  src_token :: bytes

definition source0 :: ChannelRepeatSource where
  "source0 = \<lparr>src_tokenBytes = 0, src_token = [0, 0, 0]\<rparr>"

record ChannelRepeatObservation =
  ob_channelSlot :: u8
  ob_messageTimestamp :: u32
  ob_repeatCount :: u8
  ob_observationOpen :: bool
  ob_sourceCount :: u8
  ob_sources :: "ChannelRepeatSource list"
  ob_sourcesTruncated :: bool

definition observation0 :: ChannelRepeatObservation where
  "observation0 = \<lparr>ob_channelSlot = 0xff, ob_messageTimestamp = 0, ob_repeatCount = 0,
     ob_observationOpen = False, ob_sourceCount = 0, ob_sources = replicate 4 source0,
     ob_sourcesTruncated = False\<rparr>"

datatype ChannelRepeatObserveResult =
    NotCandidate | NoHashMatch | WireMismatch | DigestMismatch | Recorded | RepeatSaturated

record channel_entry =
  en_active :: bool
  en_hash :: bytes
  en_digest :: bytes
  en_route :: FloodRouteBinding
  en_channelSlot :: u8
  en_messageTimestamp :: u32
  en_sentAtMs :: u32
  en_repeatCount :: u8
  en_sourceCount :: u8
  en_sources :: "ChannelRepeatSource list"
  en_sourcesTruncated :: bool
  en_dirty :: bool
  en_closePending :: bool

definition entry0 :: channel_entry where
  "entry0 = \<lparr>en_active = False, en_hash = replicate 8 0, en_digest = replicate 32 0,
     en_route = binding0, en_channelSlot = 0xff, en_messageTimestamp = 0, en_sentAtMs = 0,
     en_repeatCount = 0, en_sourceCount = 0, en_sources = replicate 4 source0,
     en_sourcesTruncated = False, en_dirty = False, en_closePending = False\<rparr>"

type_synonym tracker = "channel_entry list"

definition tracker0 :: tracker where
  "tracker0 = replicate kChannelRepeatTrackerCapacity entry0"

subsection \<open>Helpers\<close>

text \<open>
  Hashes are eight bytes and digests thirty-two; \<^verbatim>\<open>memcmp\<close> over the full width is list
  equality.  A null pointer never compares equal.
\<close>

definition sameHash :: "bytes option \<Rightarrow> bytes option \<Rightarrow> bool" where
  "sameHash l r \<longleftrightarrow> l \<noteq> None \<and> r \<noteq> None \<and> the l = the r"

definition sameDigest :: "bytes option \<Rightarrow> bytes option \<Rightarrow> bool" where
  "sameDigest l r \<longleftrightarrow> l \<noteq> None \<and> r \<noteq> None \<and> the l = the r"

definition calculateChannelRepeatDigest ::
  "(bytes \<Rightarrow> bytes) \<Rightarrow> u8 \<Rightarrow> bytes option \<Rightarrow> nat \<Rightarrow> bytes option" where
  "calculateChannelRepeatDigest sha256 ptype pl plBytes =
     (if pl = None \<and> plBytes \<noteq> 0 then None
      else Some (sha256 (ptype # (if plBytes \<noteq> 0 then take plBytes (the pl) else []))))"

definition fillObservation :: "channel_entry \<Rightarrow> ChannelRepeatObservation" where
  "fillObservation e = \<lparr>ob_channelSlot = en_channelSlot e,
     ob_messageTimestamp = en_messageTimestamp e, ob_repeatCount = en_repeatCount e,
     ob_observationOpen = en_active e, ob_sourceCount = en_sourceCount e,
     ob_sources = en_sources e, ob_sourcesTruncated = en_sourcesTruncated e\<rparr>"

definition recordSource :: "bytes option \<Rightarrow> u8 \<Rightarrow> channel_entry \<Rightarrow> bool \<times> channel_entry" where
  "recordSource tok tokenBytes e =
     (if tok = None \<or> tokenBytes = 0 \<or> tokenBytes > kChannelRepeatSourceTokenBytes then (False, e)
      else if \<exists>source \<in> set (take (unat (en_sourceCount e)) (en_sources e)).
          src_tokenBytes source = tokenBytes
          \<and> take (unat tokenBytes) (src_token source) = take (unat tokenBytes) (the tok)
      then (False, e)
      else if en_sourceCount e \<ge> kChannelRepeatSourceCapacity then
        (if en_sourcesTruncated e then (False, e) else (True, e\<lparr>en_sourcesTruncated := True\<rparr>))
      else let i = unat (en_sourceCount e);
               source = en_sources e ! i;
               source = source\<lparr>src_tokenBytes := tokenBytes,
                 src_token := take (unat tokenBytes) (the tok) @ drop (unat tokenBytes) (src_token source)\<rparr>
        in (True, e\<lparr>en_sourceCount := en_sourceCount e + 1, en_sources := (en_sources e)[i := source]\<rparr>))"

definition close_entry :: "channel_entry \<Rightarrow> channel_entry" where
  "close_entry e = e\<lparr>en_active := False, en_dirty := True, en_closePending := True\<rparr>"

subsection \<open>Operations\<close>

definition expire_entry :: "u32 \<Rightarrow> channel_entry \<Rightarrow> channel_entry" where
  "expire_entry nowMs e =
     (if en_active e \<and> nowMs - en_sentAtMs e \<ge> kChannelRepeatWindowMs then close_entry e else e)"

definition expire :: "u32 \<Rightarrow> tracker \<Rightarrow> tracker" where
  "expire nowMs t = map (expire_entry nowMs) t"

text \<open>
  The scan of \<^verbatim>\<open>recordSent\<close>: either the identical send is found (\<open>Inl ()\<close>), or the index
  of the entry to overwrite, if any.
\<close>

fun sent_scan :: "FloodRouteBinding \<Rightarrow> bytes option \<Rightarrow> bytes option \<Rightarrow> u8 \<Rightarrow> u32
    \<Rightarrow> nat \<Rightarrow> nat option \<Rightarrow> tracker \<Rightarrow> unit + nat option" where
  "sent_scan rt hash digest slot ts i selected [] = Inr selected"
| "sent_scan rt hash digest slot ts i selected (e # es) =
     (if en_active e \<and> en_channelSlot e = slot \<and> en_messageTimestamp e = ts then
        (if sameHash (Some (en_hash e)) hash \<and> sameDigest (Some (en_digest e)) digest
            \<and> sameFloodRouteBinding (en_route e) rt then Inl () else Inr (Some i))
      else sent_scan rt hash digest slot ts (Suc i)
        (if \<not> en_active e \<and> \<not> en_dirty e \<and> selected = None then Some i else selected) es)"

definition recordSent :: "u8 \<Rightarrow> FloodRouteBinding \<Rightarrow> bytes option \<Rightarrow> bytes option \<Rightarrow> u8 \<Rightarrow> u32 \<Rightarrow> u32
    \<Rightarrow> tracker \<Rightarrow> bool \<times> tracker" where
  "recordSent ptype rt hash digest slot ts nowMs t =
     (if ptype \<noteq> kChannelGroupTextPayloadType \<or> \<not> validFloodRouteBinding rt \<or> hash = None
         \<or> digest = None \<or> slot \<ge> kChannelRepeatSlotCount \<or> ts = 0 then (False, t)
      else let t = expire nowMs t in
      case sent_scan rt hash digest slot ts 0 None t of
        Inl _ \<Rightarrow> (True, t)
      | Inr None \<Rightarrow> (False, t)
      | Inr (Some i) \<Rightarrow> (True, t[i := entry0\<lparr>en_active := True, en_hash := the hash,
            en_digest := the digest, en_route := rt, en_channelSlot := slot,
            en_messageTimestamp := ts, en_sentAtMs := nowMs\<rparr>]))"

text \<open>The scan of \<^verbatim>\<open>observeDetailed\<close>: selected index with its age, and the two flags.\<close>

fun observe_scan :: "FloodRouteBinding \<Rightarrow> bytes option \<Rightarrow> bytes option \<Rightarrow> u32 \<Rightarrow> nat
    \<Rightarrow> (nat \<times> u32) option \<Rightarrow> bool \<Rightarrow> bool \<Rightarrow> tracker \<Rightarrow> (nat \<times> u32) option \<times> bool \<times> bool" where
  "observe_scan rt hash digest nowMs i selected hashMatched wireMismatch [] =
     (selected, hashMatched, wireMismatch)"
| "observe_scan rt hash digest nowMs i selected hashMatched wireMismatch (e # es) =
     (if \<not> en_active e \<or> \<not> sameHash (Some (en_hash e)) hash
      then observe_scan rt hash digest nowMs (Suc i) selected hashMatched wireMismatch es
      else if \<not> sameFloodRouteBinding (en_route e) rt
      then observe_scan rt hash digest nowMs (Suc i) selected True
             (wireMismatch \<or> sameDigest (Some (en_digest e)) digest) es
      else if \<not> sameDigest (Some (en_digest e)) digest
      then observe_scan rt hash digest nowMs (Suc i) selected True wireMismatch es
      else let age = nowMs - en_sentAtMs e in
        observe_scan rt hash digest nowMs (Suc i)
          (case selected of None \<Rightarrow> Some (i, age)
            | Some (j, selectedAge) \<Rightarrow> if age < selectedAge then Some (i, age) else selected)
          True wireMismatch es)"

definition observe_entry :: "bytes option \<Rightarrow> u8 \<Rightarrow> channel_entry
    \<Rightarrow> ChannelRepeatObserveResult \<times> channel_entry" where
  "observe_entry tok tokenBytes e =
     (case recordSource tok tokenBytes e of (sourceChanged, e) \<Rightarrow>
      if en_repeatCount e = 0xff
      then (RepeatSaturated, if sourceChanged then e\<lparr>en_dirty := True\<rparr> else e)
      else (Recorded, e\<lparr>en_repeatCount := en_repeatCount e + 1, en_dirty := True\<rparr>))"

definition observeDetailed :: "u8 \<Rightarrow> FloodRouteBinding \<Rightarrow> u8 \<Rightarrow> bytes option \<Rightarrow> bytes option
    \<Rightarrow> bytes option \<Rightarrow> u8 \<Rightarrow> u32 \<Rightarrow> tracker
    \<Rightarrow> ChannelRepeatObserveResult \<times> ChannelRepeatObservation \<times> tracker" where
  "observeDetailed ptype rt pathCount hash digest tok tokenBytes nowMs t =
     (let t = expire nowMs t in
      if ptype \<noteq> kChannelGroupTextPayloadType \<or> \<not> validFloodRouteBinding rt \<or> pathCount = 0
         \<or> hash = None \<or> digest = None then (NotCandidate, observation0, t)
      else case observe_scan rt hash digest nowMs 0 None False False t of
        (None, hashMatched, wireMismatch) \<Rightarrow>
          (if wireMismatch then WireMismatch
           else if hashMatched then DigestMismatch else NoHashMatch, observation0, t)
      | (Some (i, _), _, _) \<Rightarrow>
          (case observe_entry tok tokenBytes (t ! i) of (r, e) \<Rightarrow>
             (r, fillObservation e, t[i := e])))"

definition lookup_entry :: "u8 \<Rightarrow> u32 \<Rightarrow> tracker \<Rightarrow> channel_entry option" where
  "lookup_entry slot ts t =
     find (\<lambda>e. en_active e \<and> en_channelSlot e = slot \<and> en_messageTimestamp e = ts) t"

definition channel_lookup :: "u8 \<Rightarrow> u32 \<Rightarrow> u32 \<Rightarrow> tracker
    \<Rightarrow> ChannelRepeatObservation option \<times> tracker" where
  "channel_lookup slot ts nowMs t =
     (let t = expire nowMs t in (map_option fillObservation (lookup_entry slot ts t), t))"

text \<open>The oldest dirty entry by wrapped message time, the first one on equal times.\<close>

fun dirty_scan :: "nat \<Rightarrow> (nat \<times> u32) option \<Rightarrow> tracker \<Rightarrow> (nat \<times> u32) option" where
  "dirty_scan i selected [] = selected"
| "dirty_scan i selected (e # es) = dirty_scan (Suc i)
     (if \<not> en_dirty e then selected
      else case selected of None \<Rightarrow> Some (i, en_messageTimestamp e)
        | Some (j, ts) \<Rightarrow> if sint (en_messageTimestamp e - ts) < 0
            then Some (i, en_messageTimestamp e) else selected) es"

definition takeDirty :: "tracker \<Rightarrow> ChannelRepeatObservation option \<times> tracker" where
  "takeDirty t = (case dirty_scan 0 None t of None \<Rightarrow> (None, t)
     | Some (i, _) \<Rightarrow> let e = (t ! i)\<lparr>en_dirty := False\<rparr> in
         (Some (fillObservation e), t[i := if en_closePending e then entry0 else e]))"

definition activeCount :: "u32 \<Rightarrow> tracker \<Rightarrow> nat \<times> tracker" where
  "activeCount nowMs t = (let t = expire nowMs t in (length (filter en_active t), t))"

definition closeAll :: "tracker \<Rightarrow> tracker" where
  "closeAll t = map (\<lambda>e. if en_active e then close_entry e else e) t"

definition channel_clear :: "tracker \<Rightarrow> tracker" where
  "channel_clear t = map (\<lambda>_. entry0) t"

subsection \<open>The source list of an entry\<close>

definition source_bytes :: "ChannelRepeatSource \<Rightarrow> bytes" where
  "source_bytes s = take (unat (src_tokenBytes s)) (src_token s)"

definition entry_toks :: "channel_entry \<Rightarrow> bytes list" where
  "entry_toks e = map source_bytes (take (unat (en_sourceCount e)) (en_sources e))"

definition sources_wf :: "channel_entry \<Rightarrow> bool" where
  "sources_wf e \<longleftrightarrow> length (en_sources e) = 4 \<and> unat (en_sourceCount e) \<le> 4
     \<and> (\<forall>s \<in> set (en_sources e). length (src_token s) = 3 \<and> unat (src_tokenBytes s) \<le> 3)"

lemma sources_wf_entry0 [simp]: "sources_wf entry0"
  by (simp add: sources_wf_def entry0_def source0_def)

text \<open>The comparison of the loop is membership among the recorded tokens.\<close>

lemma known_source_iff:
  assumes "sources_wf e" and "source_token tok n = Some t" and "token_ok tok n"
  shows "(\<exists>source \<in> set (take (unat (en_sourceCount e)) (en_sources e)).
      src_tokenBytes source = n \<and> take (unat n) (src_token source) = take (unat n) (the tok))
    \<longleftrightarrow> t \<in> set (entry_toks e)"
proof -
  have t: "t = take (unat n) (the tok)" "length t = unat n"
    using assms(2,3) by (auto simp: source_token_def token_ok_def split: if_splits)
  have len: "length (source_bytes s) = unat (src_tokenBytes s)" if "s \<in> set (en_sources e)" for s
    using assms(1) that by (simp add: sources_wf_def source_bytes_def)
  have iff: "src_tokenBytes s = n \<and> take (unat n) (src_token s) = take (unat n) (the tok)
      \<longleftrightarrow> source_bytes s = t" if "s \<in> set (en_sources e)" for s
    using len [OF that] t by (metis source_bytes_def word_unat_eq_iff)
  have "(\<exists>source \<in> set (take (unat (en_sourceCount e)) (en_sources e)).
      src_tokenBytes source = n \<and> take (unat n) (src_token source) = take (unat n) (the tok))
    \<longleftrightarrow> (\<exists>s \<in> set (take (unat (en_sourceCount e)) (en_sources e)). source_bytes s = t)"
    by (intro bex_cong refl iff) (rule in_set_takeD)
  then show ?thesis by (auto simp: entry_toks_def)
qed

lemma recordSource_new:
  assumes "sources_wf e" and "source_token tok n = Some t" and "token_ok tok n"
    and "t \<notin> set (entry_toks e)" and "en_sourceCount e < 4"
  shows "fst (recordSource tok n e)" and "entry_toks (snd (recordSource tok n e)) = entry_toks e @ [t]"
    and "en_sourcesTruncated (snd (recordSource tok n e)) = en_sourcesTruncated e"
    and "sources_wf (snd (recordSource tok n e))"
proof -
  let ?i = "unat (en_sourceCount e)"
  let ?src = "(en_sources e ! ?i)\<lparr>src_tokenBytes := n,
      src_token := take (unat n) (the tok) @ drop (unat n) (src_token (en_sources e ! ?i))\<rparr>"
  have n: "tok \<noteq> None" "n \<noteq> 0" "\<not> n > 3" "t = take (unat n) (the tok)" "unat n \<le> length (the tok)"
    using assms(2,3) by (auto simp: source_token_def token_ok_def split: if_splits)
  have n3: "unat n \<le> 3" using n(3) by (simp add: word_le_nat_alt not_less)
  have i: "?i < 4" using assms(5) by (simp add: word_less_nat_alt)
  have c: "unat (en_sourceCount e + 1) = Suc ?i" using i by (simp add: unat_plus_small)
  have step: "recordSource tok n e = (True, e\<lparr>en_sourceCount := en_sourceCount e + 1,
      en_sources := (en_sources e)[?i := ?src]\<rparr>)"
    using n(1-3) assms(4,5)
    unfolding recordSource_def channel_consts known_source_iff [OF assms(1-3)]
    by (simp add: Let_def not_le)
  have l4: "length (en_sources e) = 4" using assms(1) by (simp add: sources_wf_def)
  have src: "source_bytes ?src = t" using n(4,5) by (simp add: source_bytes_def)
  show "fst (recordSource tok n e)"
    and "en_sourcesTruncated (snd (recordSource tok n e)) = en_sourcesTruncated e"
    by (simp_all add: step)
  have tk: "take (Suc ?i) ((en_sources e)[?i := ?src]) = take ?i (en_sources e) @ [?src]"
    using i l4 by (simp add: take_Suc_conv_app_nth)
  show "entry_toks (snd (recordSource tok n e)) = entry_toks e @ [t]"
    by (simp add: step entry_toks_def c tk src)
  have "length (src_token ?src) = 3 \<and> unat (src_tokenBytes ?src) \<le> 3"
    using assms(1) n(5) n3 i l4 by (simp add: sources_wf_def)
  then show "sources_wf (snd (recordSource tok n e))"
    using assms(1) i c by (auto simp: step sources_wf_def dest!: set_update_subset_insert [THEN subsetD])
qed

lemma length_entry_toks: "sources_wf e \<Longrightarrow> length (entry_toks e) = unat (en_sourceCount e)"
  by (simp add: entry_toks_def sources_wf_def)

interpretation channel_sources: source_log recordSource entry_toks en_sourcesTruncated sources_wf
proof
  fix e tok n t
  assume wf: "sources_wf e"
  show "length (entry_toks e) \<le> 4" using wf by (simp add: length_entry_toks) (simp add: sources_wf_def)
  show "recordSource tok n e = (False, e)" if "source_token tok n = None"
    using that by (auto simp: recordSource_def source_token_def channel_consts split: if_splits)
  have lt: "length (entry_toks e) < 4 \<longleftrightarrow> en_sourceCount e < 4"
    using wf by (simp add: length_entry_toks word_less_nat_alt)
  have nn: "tok \<noteq> None \<and> n \<noteq> 0 \<and> \<not> n > 3" if "source_token tok n = Some t" for t
    using that by (auto simp: source_token_def split: if_splits)
  assume ok: "token_ok tok n"
  show known: "recordSource tok n e = (False, e)"
    if "source_token tok n = Some t" "t \<in> set (entry_toks e)" for t
    using nn [OF that(1)] that(2)
    unfolding recordSource_def channel_consts known_source_iff [OF wf that(1) ok] by simp
  show "fst (recordSource tok n e) \<and> entry_toks (snd (recordSource tok n e)) = entry_toks e @ [t]
      \<and> en_sourcesTruncated (snd (recordSource tok n e)) = en_sourcesTruncated e"
    if "source_token tok n = Some t" "t \<notin> set (entry_toks e)" "length (entry_toks e) < 4" for t
    using recordSource_new [OF wf that(1) ok that(2)] that(3) lt by blast
  have full: "recordSource tok n e = (if en_sourcesTruncated e then (False, e)
      else (True, e\<lparr>en_sourcesTruncated := True\<rparr>))"
    if "source_token tok n = Some t" "t \<notin> set (entry_toks e)" "\<not> length (entry_toks e) < 4" for t
    using nn [OF that(1)] that(2,3) lt
    unfolding recordSource_def channel_consts known_source_iff [OF wf that(1) ok]
    by (auto simp: not_less)
  show "fst (recordSource tok n e) = (\<not> en_sourcesTruncated e)
      \<and> entry_toks (snd (recordSource tok n e)) = entry_toks e
      \<and> en_sourcesTruncated (snd (recordSource tok n e))"
    if "source_token tok n = Some t" "t \<notin> set (entry_toks e)" "\<not> length (entry_toks e) < 4" for t
    using full [OF that] by (simp add: entry_toks_def)
  show "sources_wf (snd (recordSource tok n e))"
  proof (cases "source_token tok n")
    case None
    then show ?thesis using wf by (auto simp: recordSource_def source_token_def channel_consts split: if_splits)
  next
    case (Some t)
    show ?thesis
      using wf known [OF Some] recordSource_new(4) [OF wf Some ok] full [OF Some] lt
      by (cases "t \<in> set (entry_toks e)"; cases "length (entry_toks e) < 4") (auto simp: sources_wf_def)
  qed
qed

subsection \<open>The table invariant\<close>

definition holds_key :: "u8 \<Rightarrow> u32 \<Rightarrow> channel_entry \<Rightarrow> bool" where
  "holds_key slot ts e \<longleftrightarrow> en_active e \<and> en_channelSlot e = slot \<and> en_messageTimestamp e = ts"

definition entry_wf :: "channel_entry \<Rightarrow> bool" where
  "entry_wf e \<longleftrightarrow> sources_wf e \<and> distinct (entry_toks e)
     \<and> (en_active e \<longrightarrow> en_channelSlot e < 4 \<and> en_messageTimestamp e \<noteq> 0
          \<and> validFloodRouteBinding (en_route e) \<and> \<not> en_closePending e)
     \<and> (\<not> en_active e \<longrightarrow> en_dirty e = en_closePending e)"

definition keys_distinct :: "tracker \<Rightarrow> bool" where
  "keys_distinct t \<longleftrightarrow> (\<forall>i < length t. \<forall>j < length t. \<forall>slot ts.
     holds_key slot ts (t ! i) \<longrightarrow> holds_key slot ts (t ! j) \<longrightarrow> i = j)"

definition tracker_inv :: "tracker \<Rightarrow> bool" where
  "tracker_inv t \<longleftrightarrow> length t = kChannelRepeatTrackerCapacity \<and> (\<forall>e \<in> set t. entry_wf e)
     \<and> keys_distinct t"

lemma entry_wf_entry0 [simp]: "entry_wf entry0"
  using sources_wf_entry0 by (simp add: entry_wf_def) (simp add: entry0_def entry_toks_def)

lemma entry_wf_close: "entry_wf e \<Longrightarrow> entry_wf (close_entry e)"
  by (simp add: entry_wf_def close_entry_def sources_wf_def entry_toks_def)

lemma tracker_inv0: "tracker_inv tracker0"
  by (auto simp: tracker_inv_def tracker0_def keys_distinct_def holds_key_def entry0_def
      in_set_replicate intro: entry_wf_entry0 [unfolded entry0_def])

text \<open>
  Transformations of single entries that can only close a window keep the invariant, and the
  windows they leave open are unchanged.
\<close>

lemma tracker_inv_map:
  assumes "tracker_inv t" and "\<And>e. entry_wf e \<Longrightarrow> entry_wf (f e)"
    and "\<And>e. en_active (f e) \<Longrightarrow> f e = e"
  shows "tracker_inv (map f t)"
proof -
  have open_f: "holds_key slot ts e" if "holds_key slot ts (f e)" for slot ts e
    using that assms(3) [of e] by (simp add: holds_key_def)
  have "keys_distinct (map f t)"
    using assms(1) open_f unfolding tracker_inv_def keys_distinct_def
    by (metis length_map nth_map)
  moreover have "\<forall>e \<in> set (map f t). entry_wf e"
    using assms(1,2) by (auto simp: tracker_inv_def)
  ultimately show ?thesis using assms(1) by (simp add: tracker_inv_def)
qed

lemma expire_entry_simps:
  "entry_wf e \<Longrightarrow> entry_wf (expire_entry now e)"
  "en_active (expire_entry now e) \<Longrightarrow> expire_entry now e = e"
  by (auto simp: expire_entry_def entry_wf_close) (simp add: close_entry_def)

lemma tracker_inv_expire [kitsu_inv]: "tracker_inv t \<Longrightarrow> tracker_inv (expire now t)"
  unfolding expire_def by (rule tracker_inv_map) (auto simp: expire_entry_simps)

lemma tracker_inv_closeAll [kitsu_inv]: "tracker_inv t \<Longrightarrow> tracker_inv (closeAll t)"
  unfolding closeAll_def by (rule tracker_inv_map) (auto simp: entry_wf_close, simp add: close_entry_def)

lemma tracker_inv_clear [kitsu_inv]: "tracker_inv t \<Longrightarrow> tracker_inv (channel_clear t)"
  unfolding channel_clear_def by (rule tracker_inv_map) (simp_all, simp add: entry0_def)

text \<open>Replacing one entry by one that holds no key another entry holds.\<close>

lemma tracker_inv_update:
  assumes "tracker_inv t" and "entry_wf e"
    and "\<And>slot ts j. holds_key slot ts e \<Longrightarrow> j < length t \<Longrightarrow> j \<noteq> i \<Longrightarrow> \<not> holds_key slot ts (t ! j)"
  shows "tracker_inv (t[i := e])"
proof -
  have "keys_distinct (t[i := e])"
    unfolding keys_distinct_def
  proof (intro allI impI)
    fix a b slot ts
    assume ab: "a < length (t[i := e])" "b < length (t[i := e])"
      and h: "holds_key slot ts (t[i := e] ! a)" "holds_key slot ts (t[i := e] ! b)"
    from assms(1) have d: "keys_distinct t" by (simp add: tracker_inv_def)
    show "a = b"
      using ab h assms(3) [of slot ts a] assms(3) [of slot ts b]
        d [unfolded keys_distinct_def, rule_format, of a b slot ts]
      by (cases "a = i"; cases "b = i") auto
  qed
  moreover have "\<forall>x \<in> set (t[i := e]). entry_wf x"
    using assms(1,2) set_update_subset_insert [of t i e] by (auto simp: tracker_inv_def)
  ultimately show ?thesis using assms(1) by (simp add: tracker_inv_def)
qed

subsection \<open>Lookup\<close>

lemma lookup_entry_find: "lookup_entry slot ts t = find (holds_key slot ts) t"
  by (simp add: lookup_entry_def holds_key_def [abs_def])

lemma lookup_entry_iff:
  assumes "keys_distinct t"
  shows "lookup_entry slot ts t = Some e \<longleftrightarrow> (\<exists>i < length t. t ! i = e \<and> holds_key slot ts e)"
proof
  assume "lookup_entry slot ts t = Some e"
  then show "\<exists>i < length t. t ! i = e \<and> holds_key slot ts e"
    by (auto simp: lookup_entry_find find_Some_iff)
next
  assume "\<exists>i < length t. t ! i = e \<and> holds_key slot ts e"
  then obtain i where i: "i < length t" "t ! i = e" "holds_key slot ts e" by blast
  have "\<not> holds_key slot ts (t ! j)" if "j < i" for j
    using assms i that unfolding keys_distinct_def by (metis less_trans nat_less_le)
  with i show "lookup_entry slot ts t = Some e"
    unfolding lookup_entry_find find_Some_iff by blast
qed

lemma lookup_entry_None:
  "lookup_entry slot ts t = None \<longleftrightarrow> (\<forall>e \<in> set t. \<not> holds_key slot ts e)"
  by (auto simp: lookup_entry_find find_None_iff)

text \<open>Updating one entry changes the lookup of the keys it held or holds only.\<close>

lemma lookup_update_other:
  assumes "keys_distinct t" and "keys_distinct (t[i := e])" and "i < length t"
    and "\<not> holds_key slot ts e" and "\<not> holds_key slot ts (t ! i)"
  shows "lookup_entry slot ts (t[i := e]) = lookup_entry slot ts t"
proof -
  have "lookup_entry slot ts (t[i := e]) = Some x \<longleftrightarrow> lookup_entry slot ts t = Some x" for x
    unfolding lookup_entry_iff [OF assms(1)] lookup_entry_iff [OF assms(2)]
    using assms(3-5) by (metis length_list_update nth_list_update_eq nth_list_update_neq)
  then show ?thesis by (metis not_None_eq)
qed

lemma lookup_update_same:
  assumes "keys_distinct (t[i := e])" and "i < length t" and "holds_key slot ts e"
  shows "lookup_entry slot ts (t[i := e]) = Some e"
  unfolding lookup_entry_iff [OF assms(1)] using assms(2,3)
  by (intro exI [of _ i]) simp

subsection \<open>Recording a send\<close>

fun free_index :: "nat \<Rightarrow> tracker \<Rightarrow> nat option" where
  "free_index i [] = None"
| "free_index i (e # es) =
     (if \<not> en_active e \<and> \<not> en_dirty e then Some i else free_index (Suc i) es)"

lemma free_index_Some:
  "free_index i t = Some k \<Longrightarrow> \<exists>j < length t. k = i + j \<and> \<not> en_active (t ! j) \<and> \<not> en_dirty (t ! j)"
proof (induction t arbitrary: i)
  case Nil
  then show ?case by simp
next
  case (Cons e es)
  show ?case
  proof (cases "\<not> en_active e \<and> \<not> en_dirty e")
    case True
    with Cons.prems show ?thesis by (intro exI [of _ 0]) simp
  next
    case False
    then have "free_index (Suc i) es = Some k" using Cons.prems by (simp split: if_splits)
    from Cons.IH [OF this] obtain j where "j < length es" "k = Suc i + j"
      "\<not> en_active (es ! j)" "\<not> en_dirty (es ! j)" by blast
    then show ?thesis by (intro exI [of _ "Suc j"]) simp
  qed
qed

lemma free_index_None: "free_index i t = None \<longleftrightarrow> (\<forall>e \<in> set t. en_active e \<or> en_dirty e)"
  by (induction t arbitrary: i) auto

lemma sent_scan_absent:
  "\<forall>e \<in> set t. \<not> holds_key slot ts e \<Longrightarrow> sent_scan rt hash digest slot ts i sel t =
     Inr (case sel of None \<Rightarrow> free_index i t | Some k \<Rightarrow> Some k)"
  by (induction t arbitrary: i sel) (auto simp: holds_key_def split: option.splits)

lemma sent_scan_present:
  assumes "\<exists>e \<in> set t. holds_key slot ts e"
  shows "\<exists>j < length t. holds_key slot ts (t ! j) \<and>
     sent_scan rt (Some h) (Some d) slot ts i sel t =
       (if en_hash (t ! j) = h \<and> en_digest (t ! j) = d \<and> en_route (t ! j) = rt
           \<and> validFloodRouteBinding rt then Inl () else Inr (Some (i + j)))"
  using assms
proof (induction t arbitrary: i sel)
  case Nil
  then show ?case by simp
next
  case (Cons e es)
  show ?case
  proof (cases "holds_key slot ts e")
    case True
    then show ?thesis
      by (intro exI [of _ 0])
        (auto simp: holds_key_def sameHash_def sameDigest_def sameFloodRouteBinding_iff)
  next
    case False
    let ?sel = "if \<not> en_active e \<and> \<not> en_dirty e \<and> sel = None then Some i else sel"
    from False Cons.prems have "\<exists>e \<in> set es. holds_key slot ts e" by simp
    from Cons.IH [OF this, of "Suc i" ?sel] obtain j where "j < length es" "holds_key slot ts (es ! j)"
      and "sent_scan rt (Some h) (Some d) slot ts (Suc i) ?sel es =
       (if en_hash (es ! j) = h \<and> en_digest (es ! j) = d \<and> en_route (es ! j) = rt
           \<and> validFloodRouteBinding rt then Inl () else Inr (Some (Suc i + j)))" by blast
    moreover have "sent_scan rt (Some h) (Some d) slot ts i sel (e # es) =
        sent_scan rt (Some h) (Some d) slot ts (Suc i) ?sel es"
      using False by (auto simp: holds_key_def)
    ultimately show ?thesis by (intro exI [of _ "Suc j"]) simp
  qed
qed

text \<open>A fresh window for a message.\<close>

definition fresh_entry :: "FloodRouteBinding \<Rightarrow> bytes \<Rightarrow> bytes \<Rightarrow> u8 \<Rightarrow> u32 \<Rightarrow> u32 \<Rightarrow> channel_entry" where
  "fresh_entry rt h d slot ts now = entry0\<lparr>en_active := True, en_hash := h, en_digest := d,
     en_route := rt, en_channelSlot := slot, en_messageTimestamp := ts, en_sentAtMs := now\<rparr>"

lemma fresh_entry_wf:
  "slot < 4 \<Longrightarrow> ts \<noteq> 0 \<Longrightarrow> validFloodRouteBinding rt \<Longrightarrow> entry_wf (fresh_entry rt h d slot ts now)"
  using sources_wf_entry0
  by (simp add: entry_wf_def fresh_entry_def sources_wf_def entry_toks_def) (simp add: entry0_def)

lemma holds_key_fresh [simp]:
  "holds_key slot' ts' (fresh_entry rt h d slot ts now) \<longleftrightarrow> slot' = slot \<and> ts' = ts"
  by (auto simp: holds_key_def fresh_entry_def)

text \<open>What a call with acceptable arguments does to the table, by the outcome of its scan.\<close>

lemma recordSent_cases:
  assumes inv: "tracker_inv t" and run: "recordSent 5 rt (Some h) (Some d) slot ts now t = (ok, t')"
    and args: "validFloodRouteBinding rt" "slot < 4" "ts \<noteq> 0"
  shows "(ok \<and> t' = expire now t \<and> (\<exists>e. lookup_entry slot ts (expire now t) = Some e
             \<and> en_hash e = h \<and> en_digest e = d \<and> en_route e = rt))
       \<or> (ok \<and> (\<exists>i < 24. t' = (expire now t)[i := fresh_entry rt h d slot ts now]
             \<and> (holds_key slot ts (expire now t ! i) \<or> lookup_entry slot ts (expire now t) = None
                \<and> \<not> en_active (expire now t ! i) \<and> \<not> en_dirty (expire now t ! i))))
       \<or> (\<not> ok \<and> t' = expire now t \<and> lookup_entry slot ts (expire now t) = None
             \<and> (\<forall>e \<in> set (expire now t). en_active e \<or> en_dirty e))"
proof -
  let ?t = "expire now t"
  have len: "length ?t = 24" and kd: "keys_distinct ?t"
    using tracker_inv_expire [OF inv, of now] by (simp_all add: tracker_inv_def channel_consts)
  have run': "(ok, t') = (case sent_scan rt (Some h) (Some d) slot ts 0 None ?t of
        Inl _ \<Rightarrow> (True, ?t) | Inr None \<Rightarrow> (False, ?t)
      | Inr (Some i) \<Rightarrow> (True, ?t[i := fresh_entry rt h d slot ts now]))"
    using run args
    by (auto simp: recordSent_def channel_consts Let_def fresh_entry_def not_le [symmetric]
        split: sum.splits option.splits)
  show ?thesis
  proof (cases "\<exists>e \<in> set ?t. holds_key slot ts e")
    case True
    from sent_scan_present [OF this, of rt h d 0 None] obtain j where j: "j < length ?t"
      "holds_key slot ts (?t ! j)" and scan: "sent_scan rt (Some h) (Some d) slot ts 0 None ?t =
       (if en_hash (?t ! j) = h \<and> en_digest (?t ! j) = d \<and> en_route (?t ! j) = rt
           \<and> validFloodRouteBinding rt then Inl () else Inr (Some (0 + j)))" by blast
    have "lookup_entry slot ts ?t = Some (?t ! j)" using j by (auto simp: lookup_entry_iff [OF kd])
    with run' scan j len show ?thesis by (auto split: if_splits)
  next
    case False
    then have none: "lookup_entry slot ts ?t = None" by (simp add: lookup_entry_None)
    have scan: "sent_scan rt (Some h) (Some d) slot ts 0 None ?t = Inr (free_index 0 ?t)"
      using False by (simp add: sent_scan_absent)
    show ?thesis
    proof (cases "free_index 0 ?t")
      case None
      with run' scan none show ?thesis by (simp add: free_index_None)
    next
      case (Some k)
      with run' scan none len free_index_Some [OF Some] show ?thesis by auto
    qed
  qed
qed

lemma recordSent_rejects:
  assumes "\<not> (ptype = 5 \<and> validFloodRouteBinding rt \<and> hash \<noteq> None \<and> digest \<noteq> None
      \<and> slot < 4 \<and> ts \<noteq> 0)"
  shows "recordSent ptype rt hash digest slot ts now t = (False, t)"
  using assms by (auto simp: recordSent_def channel_consts)

lemma recordSent_inv [kitsu_inv]:
  assumes inv: "tracker_inv t"
  shows "tracker_inv (snd (recordSent ptype rt hash digest slot ts now t))"
proof (cases "ptype = 5 \<and> validFloodRouteBinding rt \<and> hash \<noteq> None \<and> digest \<noteq> None
    \<and> slot < 4 \<and> ts \<noteq> 0")
  case False
  from recordSent_rejects [OF this] inv show ?thesis by simp
next
  case True
  then obtain h d where hd: "hash = Some h" "digest = Some d" by auto
  obtain ok t' where run: "recordSent 5 rt (Some h) (Some d) slot ts now t = (ok, t')" by fastforce
  let ?t = "expire now t"
  have e: "tracker_inv ?t" by (rule tracker_inv_expire [OF inv])
  have kd: "keys_distinct ?t" using e by (simp add: tracker_inv_def)
  have "tracker_inv (?t[i := fresh_entry rt h d slot ts now])"
    if "i < 24" "holds_key slot ts (?t ! i) \<or> lookup_entry slot ts ?t = None" for i
  proof (rule tracker_inv_update [OF e])
    show "entry_wf (fresh_entry rt h d slot ts now)" using True by (intro fresh_entry_wf) auto
    fix slot' ts' j
    assume "holds_key slot' ts' (fresh_entry rt h d slot ts now)" "j < length ?t" "j \<noteq> i"
    with that e kd show "\<not> holds_key slot' ts' (?t ! j)"
      by (auto simp: keys_distinct_def lookup_entry_None tracker_inv_def channel_consts)
  qed
  with recordSent_cases [OF inv run] True e show ?thesis
    by (auto simp: hd run)
qed

text \<open>
  C19. Neither an open observation window nor a closed one whose final report is still to be
  delivered is evicted or altered by a new send: with the table in its invariant,
  \<^verbatim>\<open>recordSent\<close> leaves the window of every other message as the expiry leaves it, and an entry
  that it changes was the open window of this very message or neither open nor dirty; on success the message has a window with exactly this hash, digest and route
  (unchanged, with its counts, when the same send is reported again, otherwise fresh with
  count zero); it fails on acceptable arguments only when every one of the 24 entries is
  open or still has a report to deliver.
\<close>

theorem recordSent_never_evicts:
  assumes "tracker_inv t" and "recordSent 5 rt (Some h) (Some d) slot ts now t = (ok, t')"
    and "validFloodRouteBinding rt" and "slot < 4" and "ts \<noteq> 0"
  shows "(\<forall>slot' ts'. (slot', ts') \<noteq> (slot, ts)
          \<longrightarrow> lookup_entry slot' ts' t' = lookup_entry slot' ts' (expire now t))
    \<and> length t' = 24
    \<and> (\<forall>i < 24. t' ! i = expire now t ! i \<or> holds_key slot ts (expire now t ! i)
          \<or> \<not> en_active (expire now t ! i) \<and> \<not> en_dirty (expire now t ! i))
    \<and> (ok \<longrightarrow> (\<exists>e. lookup_entry slot ts t' = Some e \<and> en_hash e = h \<and> en_digest e = d \<and> en_route e = rt
          \<and> (lookup_entry slot ts (expire now t) = Some e \<or> en_repeatCount e = 0 \<and> en_sentAtMs e = now)))
    \<and> (\<not> ok \<longrightarrow> t' = expire now t \<and> (\<forall>e \<in> set t'. en_active e \<or> en_dirty e))"
proof -
  let ?t = "expire now t"
  let ?e = "fresh_entry rt h d slot ts now"
  have kd: "keys_distinct ?t" and len: "length ?t = 24"
    using tracker_inv_expire [OF assms(1)] by (simp_all add: tracker_inv_def channel_consts)
  have kd': "keys_distinct t'"
    using recordSent_inv [OF assms(1), of 5 rt "Some h" "Some d" slot ts now] assms(2)
    by (simp add: tracker_inv_def)
  have other: "lookup_entry slot' ts' t' = lookup_entry slot' ts' ?t"
    if "t' = ?t[i := ?e]" "i < 24" "(slot', ts') \<noteq> (slot, ts)"
      "holds_key slot ts (?t ! i) \<or> \<not> en_active (?t ! i)" for i slot' ts'
  proof -
    have "\<not> holds_key slot' ts' ?e" using that(3) by simp
    moreover have "\<not> holds_key slot' ts' (?t ! i)" using that(3,4) by (auto simp: holds_key_def)
    ultimately show ?thesis
      using lookup_update_other [OF kd, of i ?e] kd' len that(1,2) by simp
  qed
  have same: "lookup_entry slot ts t' = Some ?e" if "t' = ?t[i := ?e]" "i < 24" for i
    using lookup_update_same [of ?t i ?e slot ts] that kd' len by simp
  have e: "en_hash ?e = h" "en_digest ?e = d" "en_route ?e = rt" "en_repeatCount ?e = 0"
      "en_sentAtMs ?e = now"
    by (simp_all add: fresh_entry_def entry0_def)
  have upd: ?thesis if "ok" "t' = ?t[i := ?e]" "i < 24"
      "holds_key slot ts (?t ! i) \<or> \<not> en_active (?t ! i) \<and> \<not> en_dirty (?t ! i)" for i
  proof -
    have kept: "t' ! j = ?t ! j \<or> holds_key slot ts (?t ! j) \<or> \<not> en_active (?t ! j) \<and> \<not> en_dirty (?t ! j)"
      if "j < 24" for j
      using \<open>t' = _\<close> that(1) \<open>holds_key slot ts (?t ! i) \<or> _\<close> by (cases "j = i") auto
    show ?thesis
      using other [OF that(2,3)] that(4) kept same [OF that(2,3)] e that(1,2) len by auto
  qed
  from recordSent_cases [OF assms] consider
      "ok" "t' = ?t" "\<exists>e. lookup_entry slot ts ?t = Some e \<and> en_hash e = h \<and> en_digest e = d \<and> en_route e = rt"
    | i where "ok" "t' = ?t[i := ?e]" "i < 24"
        "holds_key slot ts (?t ! i) \<or> \<not> en_active (?t ! i) \<and> \<not> en_dirty (?t ! i)"
    | "\<not> ok" "t' = ?t" "\<forall>e \<in> set ?t. en_active e \<or> en_dirty e"
    by blast
  then show ?thesis
  proof cases
    case 2
    then show ?thesis by (rule upd)
  qed (use len in auto)
qed

theorem recordSent_never_evicts_witness:
  "(let rt = \<lparr>transportScoped = False, fr_codes = (0, 0), fr_pathHashSize = 1\<rparr>;
        t1 = snd (recordSent 5 rt (Some [1]) (Some [2]) 0 100 50 tracker0);
        r2 = recordSent 5 rt (Some [3]) (Some [4]) 1 101 60 t1
    in fst r2 \<and> lookup_entry 0 100 (snd r2) = lookup_entry 0 100 (expire 60 t1))"
proof -
  let ?rt = "\<lparr>transportScoped = False, fr_codes = (0, 0), fr_pathHashSize = 1\<rparr>"
  let ?t1 = "snd (recordSent 5 ?rt (Some [1]) (Some [2]) 0 100 50 tracker0)"
  obtain ok t' where run: "recordSent 5 ?rt (Some [3]) (Some [4]) 1 101 60 ?t1 = (ok, t')" by fastforce
  have valid: "validFloodRouteBinding ?rt" by (simp add: validFloodRouteBinding_def)
  have ok: "fst (recordSent 5 ?rt (Some [3]) (Some [4]) 1 101 60 ?t1)" by code_simp
  from recordSent_never_evicts [OF recordSent_inv [OF tracker_inv0] run valid] run ok show ?thesis
    by (simp add: Let_def)
qed

subsection \<open>Observing a copy\<close>

definition window_matches :: "FloodRouteBinding \<Rightarrow> bytes \<Rightarrow> bytes \<Rightarrow> channel_entry \<Rightarrow> bool" where
  "window_matches rt h d e \<longleftrightarrow> en_active e \<and> en_hash e = h \<and> en_digest e = d \<and> en_route e = rt"

definition age_of :: "u32 \<Rightarrow> channel_entry \<Rightarrow> u32" where
  "age_of now e = now - en_sentAtMs e"

lemma observe_scan_flags:
  assumes "validFloodRouteBinding rt"
  shows "fst (snd (observe_scan rt (Some h) (Some d) now i sel hm wm t))
        = (hm \<or> (\<exists>e \<in> set t. en_active e \<and> en_hash e = h))"
    and "snd (snd (observe_scan rt (Some h) (Some d) now i sel hm wm t))
        = (wm \<or> (\<exists>e \<in> set t. en_active e \<and> en_hash e = h \<and> en_digest e = d \<and> en_route e \<noteq> rt))"
  using assms
  by (induction t arbitrary: i sel hm wm)
    (auto simp: sameHash_def sameDigest_def sameFloodRouteBinding_iff Let_def)

lemma observe_scan_skip:
  assumes "\<not> window_matches rt h d e" and "validFloodRouteBinding rt"
  shows "\<exists>hm' wm'. observe_scan rt (Some h) (Some d) now i sel hm wm (e # es) =
      observe_scan rt (Some h) (Some d) now (Suc i) sel hm' wm' es"
proof -
  have *: "\<not> en_active e \<or> \<not> sameHash (Some (en_hash e)) (Some h)
      \<or> \<not> sameFloodRouteBinding (en_route e) rt \<or> \<not> sameDigest (Some (en_digest e)) (Some d)"
    using assms by (auto simp: window_matches_def sameHash_def sameDigest_def sameFloodRouteBinding_iff)
  show ?thesis using * by (simp only: observe_scan.simps split: if_splits) blast
qed

lemma observe_scan_selects:
  assumes "validFloodRouteBinding rt"
  shows "case fst (observe_scan rt (Some h) (Some d) now i sel hm wm t) of
      None \<Rightarrow> sel = None \<and> (\<forall>e \<in> set t. \<not> window_matches rt h d e)
    | Some (k, a) \<Rightarrow> (sel = Some (k, a) \<or> (\<exists>j < length t. k = i + j \<and> a = age_of now (t ! j)
          \<and> window_matches rt h d (t ! j)))
        \<and> (\<forall>e \<in> set t. window_matches rt h d e \<longrightarrow> a \<le> age_of now e)
        \<and> (\<forall>k' a'. sel = Some (k', a') \<longrightarrow> a \<le> a')"
proof (induction t arbitrary: i sel hm wm)
  case Nil
  then show ?case by (auto split: option.splits)
next
  case (Cons e es)
  show ?case
  proof (cases "window_matches rt h d e")
    case False
    then have "\<exists>hm' wm'. observe_scan rt (Some h) (Some d) now i sel hm wm (e # es) =
        observe_scan rt (Some h) (Some d) now (Suc i) sel hm' wm' es"
      using assms by (rule observe_scan_skip)
    then obtain hm' wm' where step: "observe_scan rt (Some h) (Some d) now i sel hm wm (e # es) =
        observe_scan rt (Some h) (Some d) now (Suc i) sel hm' wm' es"
      by blast
    show ?thesis
      unfolding step using Cons.IH [where i = "Suc i" and sel = sel and hm = hm' and wm = wm'] False
      by (auto split: option.splits)
  next
    case True
    let ?sel = "case sel of None \<Rightarrow> Some (i, age_of now e)
      | Some (j, a) \<Rightarrow> if age_of now e < a then Some (i, age_of now e) else sel"
    have step: "observe_scan rt (Some h) (Some d) now i sel hm wm (e # es) =
        observe_scan rt (Some h) (Some d) now (Suc i) ?sel True wm es"
      using assms True unfolding age_of_def
      by (simp add: window_matches_def sameHash_def sameDigest_def sameFloodRouteBinding_iff age_of_def Let_def)
    have "\<exists>k a. ?sel = Some (k, a) \<and> a \<le> age_of now e \<and> (\<forall>k' a'. sel = Some (k', a') \<longrightarrow> a \<le> a')
        \<and> (sel = Some (k, a) \<or> k = i \<and> a = age_of now e)"
    proof (cases sel)
      case (Some p)
      then show ?thesis by (cases p; cases "age_of now e < snd p") auto
    qed simp
    then obtain k a where sel': "?sel = Some (k, a)" "a \<le> age_of now e"
      and old: "\<And>k' a'. sel = Some (k', a') \<Longrightarrow> a \<le> a'"
      and src: "sel = Some (k, a) \<or> k = i \<and> a = age_of now e"
      by blast
    obtain k2 a2 where res: "fst (observe_scan rt (Some h) (Some d) now (Suc i) ?sel True wm es) = Some (k2, a2)"
      using Cons.IH [where i = "Suc i" and sel = ?sel and hm = True and wm = wm] sel'(1) by (auto split: option.splits)
    have IH: "(?sel = Some (k2, a2) \<or> (\<exists>j < length es. k2 = Suc i + j \<and> a2 = age_of now (es ! j)
          \<and> window_matches rt h d (es ! j)))
        \<and> (\<forall>e \<in> set es. window_matches rt h d e \<longrightarrow> a2 \<le> age_of now e) \<and> a2 \<le> a"
      using Cons.IH [where i = "Suc i" and sel = ?sel and hm = True and wm = wm] res sel'(1) by simp
    have "sel = Some (k2, a2) \<or> (\<exists>j < length (e # es). k2 = i + j \<and> a2 = age_of now ((e # es) ! j)
          \<and> window_matches rt h d ((e # es) ! j))"
      using IH src sel'(1) True by (metis (no_types, lifting) Suc_less_eq add.right_neutral add_Suc_shift
          length_Cons nth_Cons_0 nth_Cons_Suc option.inject prod.inject zero_less_Suc)
    then show ?thesis unfolding step res using IH sel'(2) old by (auto intro: order_trans)
  qed
qed

lemma observe_entry_frame:
  "en_active (snd (observe_entry tok n e)) = en_active e"
  "en_channelSlot (snd (observe_entry tok n e)) = en_channelSlot e"
  "en_messageTimestamp (snd (observe_entry tok n e)) = en_messageTimestamp e"
  "en_hash (snd (observe_entry tok n e)) = en_hash e"
  "en_digest (snd (observe_entry tok n e)) = en_digest e"
  "en_route (snd (observe_entry tok n e)) = en_route e"
  "en_closePending (snd (observe_entry tok n e)) = en_closePending e"
  "en_sentAtMs (snd (observe_entry tok n e)) = en_sentAtMs e"
  "en_repeatCount (snd (observe_entry tok n e)) =
     (if en_repeatCount e = 0xff then 0xff else en_repeatCount e + 1)"
  "fst (observe_entry tok n e) = (if en_repeatCount e = 0xff then RepeatSaturated else Recorded)"
  by (auto simp: observe_entry_def recordSource_def Let_def)

lemma observe_entry_wf:
  assumes "entry_wf e" and "token_ok tok n" and "en_active e"
  shows "entry_wf (snd (observe_entry tok n e))"
proof -
  let ?e = "snd (recordSource tok n e)"
  have wf: "sources_wf e" "distinct (entry_toks e)" using assms(1) by (simp_all add: entry_wf_def)
  have s: "sources_wf ?e" "distinct (entry_toks ?e)"
    using channel_sources.add_inv [OF wf(1) assms(2)]
      channel_sources.distinct_toks_add [OF wf(1) assms(2) wf(2)] by simp_all
  have "sources_wf (snd (observe_entry tok n e)) \<and> distinct (entry_toks (snd (observe_entry tok n e)))"
    using s by (auto simp: observe_entry_def case_prod_beta sources_wf_def entry_toks_def)
  then show ?thesis
    using assms(1,3) by (simp add: entry_wf_def observe_entry_frame)
qed

lemma observe_inactive_dirty:
  "en_active e \<Longrightarrow> en_active (snd (observe_entry tok n e))"
  by (simp add: observe_entry_frame)

text \<open>The two outcomes of observing a candidate packet.\<close>

lemma observeDetailed_none:
  assumes "validFloodRouteBinding rt" and "pc \<noteq> 0"
    and "\<forall>e \<in> set (expire now t). \<not> window_matches rt h d e"
  shows "observeDetailed 5 rt pc (Some h) (Some d) tok n now t =
    (if \<exists>e \<in> set (expire now t). en_active e \<and> en_hash e = h \<and> en_digest e = d \<and> en_route e \<noteq> rt
     then WireMismatch
     else if \<exists>e \<in> set (expire now t). en_active e \<and> en_hash e = h then DigestMismatch
     else NoHashMatch, observation0, expire now t)"
proof -
  let ?s = "observe_scan rt (Some h) (Some d) now 0 None False False (expire now t)"
  obtain sel hm wm where s: "?s = (sel, hm, wm)" by (cases ?s)
  have "sel = None"
    using observe_scan_selects [OF assms(1), where h = h and d = d and now = now and i = 0 and sel = None
      and hm = False and wm = False and t = "expire now t"] assms(3)
    by (auto simp: s split: option.splits dest!: nth_mem)
  then show ?thesis
    using observe_scan_flags [OF assms(1), of h d now 0 None False False "expire now t"] assms(1,2)
    by (simp add: s observeDetailed_def channel_consts Let_def)
qed

lemma observeDetailed_some:
  assumes "validFloodRouteBinding rt" and "pc \<noteq> 0"
    and "\<exists>e \<in> set (expire now t). window_matches rt h d e"
  shows "\<exists>i < length t. window_matches rt h d (expire now t ! i)
      \<and> (\<forall>e \<in> set (expire now t). window_matches rt h d e \<longrightarrow> age_of now (expire now t ! i) \<le> age_of now e)
      \<and> observeDetailed 5 rt pc (Some h) (Some d) tok n now t =
         (fst (observe_entry tok n (expire now t ! i)),
          fillObservation (snd (observe_entry tok n (expire now t ! i))),
          (expire now t)[i := snd (observe_entry tok n (expire now t ! i))])"
proof -
  let ?s = "observe_scan rt (Some h) (Some d) now 0 None False False (expire now t)"
  obtain sel hm wm where s: "?s = (sel, hm, wm)" by (cases ?s)
  obtain i a where "sel = Some (i, a)" and "i < length t" and "window_matches rt h d (expire now t ! i)"
    and "\<forall>e \<in> set (expire now t). window_matches rt h d e \<longrightarrow> age_of now (expire now t ! i) \<le> age_of now e"
    using observe_scan_selects [OF assms(1), where h = h and d = d and now = now and i = 0 and sel = None
      and hm = False and wm = False and t = "expire now t"] assms(3)
      length_map [of "expire_entry now" t, folded expire_def]
    by (auto simp: s split: option.splits)
  moreover from this(1) have "observeDetailed 5 rt pc (Some h) (Some d) tok n now t =
         (fst (observe_entry tok n (expire now t ! i)),
          fillObservation (snd (observe_entry tok n (expire now t ! i))),
          (expire now t)[i := snd (observe_entry tok n (expire now t ! i))])"
    using assms(1,2) by (simp add: s observeDetailed_def channel_consts Let_def case_prod_beta)
  ultimately show ?thesis by blast
qed

lemma observeDetailed_reject:
  assumes "ptype \<noteq> 5 \<or> \<not> validFloodRouteBinding rt \<or> pc = 0 \<or> hash = None \<or> digest = None"
  shows "observeDetailed ptype rt pc hash digest tok n now t = (NotCandidate, observation0, expire now t)"
  using assms by (auto simp: observeDetailed_def channel_consts Let_def)

lemma observeDetailed_inv [kitsu_inv]:
  assumes inv: "tracker_inv t" and tok: "token_ok tok n"
  shows "tracker_inv (snd (snd (observeDetailed ptype rt pc hash digest tok n now t)))"
proof (cases "ptype \<noteq> 5 \<or> \<not> validFloodRouteBinding rt \<or> pc = 0 \<or> hash = None \<or> digest = None")
  case True
  with tracker_inv_expire [OF inv] show ?thesis by (simp add: observeDetailed_reject)
next
  case False
  then obtain h d where hd: "hash = Some h" "digest = Some d" and c: "ptype = 5" "validFloodRouteBinding rt" "pc \<noteq> 0"
    by auto
  let ?t = "expire now t"
  have e: "tracker_inv ?t" by (rule tracker_inv_expire [OF inv])
  show ?thesis
  proof (cases "\<exists>e \<in> set ?t. window_matches rt h d e")
    case False
    with e c show ?thesis by (simp add: hd observeDetailed_none)
  next
    case True
    from observeDetailed_some [OF c(2,3) True, of tok n] obtain i where i: "i < length t"
      "window_matches rt h d (?t ! i)" and run: "snd (snd (observeDetailed 5 rt pc (Some h) (Some d) tok n now t)) =
        ?t[i := snd (observe_entry tok n (?t ! i))]" by fastforce
    have len: "length ?t = length t" by (simp add: expire_def)
    have wf: "entry_wf (?t ! i)" using e i(1) len by (simp add: tracker_inv_def)
    have "tracker_inv (?t[i := snd (observe_entry tok n (?t ! i))])"
    proof (rule tracker_inv_update [OF e])
      show "entry_wf (snd (observe_entry tok n (?t ! i)))"
        using observe_entry_wf [OF wf tok] i(2) by (simp add: window_matches_def)
      fix slot ts j
      assume "holds_key slot ts (snd (observe_entry tok n (?t ! i)))" "j < length ?t" "j \<noteq> i"
      then show "\<not> holds_key slot ts (?t ! j)"
        using e i(1) len by (auto simp: holds_key_def observe_entry_frame tracker_inv_def keys_distinct_def)
    qed
    then show ?thesis by (simp add: hd c(1) run)
  qed
qed

text \<open>
  C18. One received copy of a group text is credited to at most one window.  When no open
  window has the hash, the digest and the route of the packet, nothing but the expiry happens
  and the result says why (the same message on another route, another message with the same
  hash, or no window at all).  Otherwise the youngest matching window gets the copy: its
  count goes up by one, saturating at 255, its identity stays, the observation returned shows
  it, and every other window is left as the expiry leaves it.
\<close>

theorem observe_credits_one_window:
  assumes "validFloodRouteBinding rt" and "pc \<noteq> 0"
    and "observeDetailed 5 rt pc (Some h) (Some d) tok n now t = (r, ob, t')"
  shows "(if \<exists>e \<in> set (expire now t). window_matches rt h d e
     then \<exists>i < length t. \<exists>e e'. e = expire now t ! i \<and> window_matches rt h d e
       \<and> (\<forall>x \<in> set (expire now t). window_matches rt h d x \<longrightarrow> age_of now e \<le> age_of now x)
       \<and> t' = (expire now t)[i := e'] \<and> ob = fillObservation e'
       \<and> window_matches rt h d e' \<and> en_sentAtMs e' = en_sentAtMs e
       \<and> en_channelSlot e' = en_channelSlot e \<and> en_messageTimestamp e' = en_messageTimestamp e
       \<and> unat (en_repeatCount e') = min 255 (unat (en_repeatCount e) + 1)
       \<and> r = (if en_repeatCount e = 0xff then RepeatSaturated else Recorded)
     else t' = expire now t \<and> ob = observation0
       \<and> r = (if \<exists>e \<in> set t'. en_active e \<and> en_hash e = h \<and> en_digest e = d \<and> en_route e \<noteq> rt
              then WireMismatch
              else if \<exists>e \<in> set t'. en_active e \<and> en_hash e = h then DigestMismatch else NoHashMatch))"
proof (cases "\<exists>e \<in> set (expire now t). window_matches rt h d e")
  case False
  with observeDetailed_none [OF assms(1,2), of now t h d tok n] assms(3) show ?thesis by auto
next
  case True
  from observeDetailed_some [OF assms(1,2) True, of tok n] obtain i where i: "i < length t"
    "window_matches rt h d (expire now t ! i)"
    "\<forall>x \<in> set (expire now t). window_matches rt h d x \<longrightarrow> age_of now (expire now t ! i) \<le> age_of now x"
    and run: "r = fst (observe_entry tok n (expire now t ! i))"
      "ob = fillObservation (snd (observe_entry tok n (expire now t ! i)))"
      "t' = (expire now t)[i := snd (observe_entry tok n (expire now t ! i))]"
    using assms(3) by auto
  show ?thesis
    unfolding if_P [OF True]
    by (rule exI [of _ i], intro conjI i(1) exI [of _ "expire now t ! i"]
        exI [of _ "snd (observe_entry tok n (expire now t ! i))"])
      (use i(2,3) run in \<open>auto simp: observe_entry_frame window_matches_def saturating_u8\<close>)
qed

theorem observe_credits_one_window_witness:
  "(let rt = \<lparr>transportScoped = False, fr_codes = (0, 0), fr_pathHashSize = 1\<rparr>;
        t1 = snd (recordSent 5 rt (Some [1]) (Some [2]) 0 100 50 tracker0);
        r = observeDetailed 5 rt 1 (Some [1]) (Some [2]) (Some [7]) 1 60 t1
    in fst r = Recorded \<and> (\<exists>i < length t1. \<exists>e'. snd (snd r) = (expire 60 t1)[i := e']
         \<and> unat (en_repeatCount e') = min 255 (unat (en_repeatCount (expire 60 t1 ! i)) + 1)))"
proof -
  let ?rt = "\<lparr>transportScoped = False, fr_codes = (0, 0), fr_pathHashSize = 1\<rparr>"
  let ?t1 = "snd (recordSent 5 ?rt (Some [1]) (Some [2]) 0 100 50 tracker0)"
  obtain r ob t' where run: "observeDetailed 5 ?rt 1 (Some [1]) (Some [2]) (Some [7]) 1 60 ?t1 = (r, ob, t')"
    by (metis prod_cases3)
  have valid: "validFloodRouteBinding ?rt" by (simp add: validFloodRouteBinding_def)
  have m: "\<exists>e \<in> set (expire 60 ?t1). window_matches ?rt [1] [2] e" by code_simp
  have rec: "fst (observeDetailed 5 ?rt 1 (Some [1]) (Some [2]) (Some [7]) 1 60 ?t1) = Recorded" by code_simp
  from observe_credits_one_window [OF valid _ run] m run rec show ?thesis
    unfolding if_P [OF m] by (auto simp: Let_def)
qed

subsection \<open>Delivering reports\<close>

lemma dirty_scan_result:
  "case dirty_scan i sel t of
      None \<Rightarrow> sel = None \<and> (\<forall>e \<in> set t. \<not> en_dirty e)
    | Some (k, ts) \<Rightarrow> sel = Some (k, ts) \<or> (\<exists>j < length t. k = i + j \<and> en_dirty (t ! j))"
proof (induction t arbitrary: i sel)
  case Nil
  then show ?case by (auto split: option.splits)
next
  case (Cons e es)
  let ?sel = "if \<not> en_dirty e then sel
      else case sel of None \<Rightarrow> Some (i, en_messageTimestamp e)
        | Some (j, ts) \<Rightarrow> if sint (en_messageTimestamp e - ts) < 0
            then Some (i, en_messageTimestamp e) else sel"
  have sel: "?sel = sel \<or> en_dirty e \<and> ?sel = Some (i, en_messageTimestamp e)"
    by (auto split: option.splits)
  have none: "?sel = None \<Longrightarrow> sel = None \<and> \<not> en_dirty e"
    by (auto split: option.splits if_splits)
  have step: "dirty_scan i sel (e # es) = dirty_scan (Suc i) ?sel es" by simp
  show ?case
  proof (cases "dirty_scan (Suc i) ?sel es")
    case None
    with Cons.IH [where i = "Suc i" and sel = ?sel] none show ?thesis unfolding step by simp
  next
    case (Some p)
    obtain k ts where p: "p = (k, ts)" by (cases p)
    from Cons.IH [where i = "Suc i" and sel = ?sel]
    have "?sel = Some (k, ts) \<or> (\<exists>j < length es. k = Suc i + j \<and> en_dirty (es ! j))"
      unfolding Some p by simp
    then have "sel = Some (k, ts) \<or> (k = i \<and> en_dirty e) \<or> (\<exists>j < length es. k = Suc i + j \<and> en_dirty (es ! j))"
      using sel by (metis option.inject prod.inject)
    then have "sel = Some (k, ts) \<or> (\<exists>j < length (e # es). k = i + j \<and> en_dirty ((e # es) ! j))"
      by (metis add.right_neutral add_Suc_shift length_Cons not_less_eq nth_Cons_0 nth_Cons_Suc zero_less_Suc)
    then show ?thesis unfolding step Some p by simp
  qed
qed

definition settle :: "channel_entry \<Rightarrow> channel_entry" where
  "settle e = (if en_dirty e then (if en_closePending e then entry0 else e\<lparr>en_dirty := False\<rparr>) else e)"

lemma settle_clean [simp]: "\<not> en_dirty (settle e)" "settle (settle e) = settle e"
  by (simp_all add: settle_def entry0_def)

lemma takeDirty_cases:
  "(takeDirty t = (None, t) \<and> (\<forall>e \<in> set t. \<not> en_dirty e))
   \<or> (\<exists>i < length t. en_dirty (t ! i) \<and> takeDirty t = (Some (fillObservation (t ! i)), t[i := settle (t ! i)]))"
proof (cases "dirty_scan 0 None t")
  case None
  then show ?thesis using dirty_scan_result [where i = 0 and sel = None and t = t] by (simp add: takeDirty_def)
next
  case (Some p)
  then obtain k ts where "dirty_scan 0 None t = Some (k, ts)" by (cases p) simp
  moreover from this have "k < length t" "en_dirty (t ! k)"
    using dirty_scan_result [where i = 0 and sel = None and t = t] by auto
  ultimately show ?thesis
    by (intro disjI2 exI [of _ k]) (simp add: takeDirty_def settle_def fillObservation_def Let_def)
qed

lemma settle_wf: "entry_wf e \<Longrightarrow> entry_wf (settle e)"
  by (auto simp: settle_def) (auto simp: entry_wf_def sources_wf_def entry_toks_def)

lemma settle_key: "holds_key slot ts (settle e) \<Longrightarrow> holds_key slot ts e"
  by (auto simp: settle_def holds_key_def split: if_splits) (simp_all add: entry0_def)

lemma takeDirty_inv [kitsu_inv]:
  assumes "tracker_inv t"
  shows "tracker_inv (snd (takeDirty t))"
  using takeDirty_cases [of t]
proof (elim disjE exE conjE)
  fix i
  assume i: "i < length t" and run: "takeDirty t = (Some (fillObservation (t ! i)), t[i := settle (t ! i)])"
  have "tracker_inv (t[i := settle (t ! i)])"
  proof (rule tracker_inv_update [OF assms])
    show "entry_wf (settle (t ! i))" using assms i by (simp add: settle_wf tracker_inv_def)
    show "\<not> holds_key slot ts (t ! j)" if "holds_key slot ts (settle (t ! i))" "j < length t" "j \<noteq> i" for slot ts j
      using settle_key [OF that(1)] that(2,3) i assms by (auto simp: tracker_inv_def keys_distinct_def)
  qed
  then show ?thesis by (simp add: run)
qed (use assms in simp)

text \<open>The caller's loop: take reports until there is none, at most \<open>n\<close> times.\<close>

fun take_reports :: "nat \<Rightarrow> tracker \<Rightarrow> ChannelRepeatObservation list \<times> tracker" where
  "take_reports 0 t = ([], t)"
| "take_reports (Suc n) t = (case takeDirty t of (None, t) \<Rightarrow> ([], t)
     | (Some ob, t) \<Rightarrow> (case take_reports n t of (obs, t) \<Rightarrow> (ob # obs, t)))"

definition pending_reports :: "tracker \<Rightarrow> ChannelRepeatObservation list" where
  "pending_reports t = map fillObservation (filter en_dirty t)"

lemma pending_update:
  assumes "i < length t" and "en_dirty (t ! i)"
  shows "mset (pending_reports t) = add_mset (fillObservation (t ! i)) (mset (pending_reports (t[i := settle (t ! i)])))"
proof -
  have t: "t = take i t @ t ! i # drop (Suc i) t" using assms(1) by (rule id_take_nth_drop)
  have u: "t[i := settle (t ! i)] = take i t @ settle (t ! i) # drop (Suc i) t"
    using assms(1) by (rule upd_conv_take_nth_drop)
  show ?thesis unfolding u by (subst t) (simp add: pending_reports_def assms(2))
qed

lemma take_reports_all:
  "length (pending_reports t) \<le> n \<Longrightarrow>
     mset (fst (take_reports n t)) = mset (pending_reports t) \<and> snd (take_reports n t) = map settle t"
proof (induction n arbitrary: t)
  case 0
  then have "\<forall>e \<in> set t. \<not> en_dirty e" by (simp add: pending_reports_def filter_empty_conv)
  then show ?case by (auto simp: pending_reports_def settle_def intro: map_idI [symmetric])
next
  case (Suc n)
  from takeDirty_cases [of t] show ?case
  proof (elim disjE exE conjE)
    assume "takeDirty t = (None, t)" and clean: "\<forall>e \<in> set t. \<not> en_dirty e"
    moreover have "map settle t = t" using clean by (intro map_idI) (simp add: settle_def)
    ultimately show ?thesis by (simp add: pending_reports_def filter_False)
  next
    fix i
    assume i: "i < length t" "en_dirty (t ! i)"
      and run: "takeDirty t = (Some (fillObservation (t ! i)), t[i := settle (t ! i)])"
    let ?u = "t[i := settle (t ! i)]"
    note p = pending_update [OF i]
    have "length (pending_reports t) = Suc (length (pending_reports ?u))"
      using arg_cong [OF p, of size] by simp
    with Suc.prems have "length (pending_reports ?u) \<le> n" by simp
    from Suc.IH [OF this] p have "mset (fst (take_reports n ?u)) = mset (pending_reports ?u)"
      "snd (take_reports n ?u) = map settle ?u" by simp_all
    moreover have "map settle ?u = map settle t"
      by (simp add: map_update) (metis i(1) list_update_id nth_map)
    ultimately show ?thesis using p by (simp add: run case_prod_beta)
  qed
qed

text \<open>
  C20. Every report is delivered, once: calling \<^verbatim>\<open>takeDirty\<close> until it has nothing to return
  takes at most 24 calls, returns for every entry with something to report (a changed count,
  or a closed window with its final count) exactly one observation showing it, leaves nothing
  dirty, frees exactly the closed entries and keeps every other window unchanged.
\<close>

theorem takeDirty_delivers_all:
  assumes "tracker_inv t" and "take_reports 24 t = (obs, t')"
  shows "mset obs = mset (map fillObservation (filter en_dirty t))
    \<and> takeDirty t' = (None, t') \<and> length t' = length t
    \<and> (\<forall>i < length t. t' ! i = (if en_dirty (t ! i) then
          (if en_active (t ! i) then (t ! i)\<lparr>en_dirty := False\<rparr> else entry0) else t ! i))"
proof -
  have "length (pending_reports t) \<le> 24"
    using assms(1) length_filter_le [of en_dirty t] by (simp add: pending_reports_def tracker_inv_def channel_consts)
  from take_reports_all [OF this] assms(2)
  have obs: "mset obs = mset (pending_reports t)" and t': "t' = map settle t" by simp_all
  have "\<not> (\<exists>i < length t'. en_dirty (t' ! i))" by (simp add: t')
  then have "takeDirty t' = (None, t')" using takeDirty_cases [of t'] by blast
  moreover have "t' ! i = (if en_dirty (t ! i) then
          (if en_active (t ! i) then (t ! i)\<lparr>en_dirty := False\<rparr> else entry0) else t ! i)" if "i < length t" for i
  proof -
    have "entry_wf (t ! i)" using assms(1) that by (simp add: tracker_inv_def)
    then show ?thesis using that by (auto simp: t' settle_def entry_wf_def)
  qed
  ultimately show ?thesis using obs t' by (simp add: pending_reports_def)
qed

theorem takeDirty_delivers_all_witness:
  "(let rt = \<lparr>transportScoped = False, fr_codes = (0, 0), fr_pathHashSize = 1\<rparr>;
        t1 = snd (recordSent 5 rt (Some [1]) (Some [2]) 0 100 50 tracker0);
        t2 = closeAll t1
    in mset (fst (take_reports 24 t2)) = mset (map fillObservation (filter en_dirty t2))
       \<and> length (filter en_dirty t2) = 1)"
proof -
  let ?rt = "\<lparr>transportScoped = False, fr_codes = (0, 0), fr_pathHashSize = 1\<rparr>"
  let ?t2 = "closeAll (snd (recordSent 5 ?rt (Some [1]) (Some [2]) 0 100 50 tracker0))"
  have inv: "tracker_inv ?t2" by (intro tracker_inv_closeAll recordSent_inv tracker_inv0)
  have one: "length (filter en_dirty ?t2) = 1" by code_simp
  show ?thesis
    using takeDirty_delivers_all [OF inv, of "fst (take_reports 24 ?t2)" "snd (take_reports 24 ?t2)"] one
    by (simp add: Let_def)
qed

subsection \<open>Any sequence of calls\<close>

text \<open>
  The calls of the public interface.  The caller of \<^verbatim>\<open>observeDetailed\<close> passes a token buffer
  that holds the number of bytes it announces; a call without one is not a step.
\<close>

datatype channel_call =
    CallRecordSent u8 FloodRouteBinding "bytes option" "bytes option" u8 u32 u32
  | CallObserve u8 FloodRouteBinding u8 "bytes option" "bytes option" "bytes option" u8 u32
  | CallLookup u8 u32 u32
  | CallExpire u32
  | CallTakeDirty
  | CallActiveCount u32
  | CallCloseAll
  | CallClear

fun channel_step :: "tracker \<Rightarrow> channel_call \<Rightarrow> tracker" where
  "channel_step t (CallRecordSent p rt h d slot ts now) = snd (recordSent p rt h d slot ts now t)"
| "channel_step t (CallObserve p rt pc h d tok n now) =
     (if token_ok tok n then snd (snd (observeDetailed p rt pc h d tok n now t)) else t)"
| "channel_step t (CallLookup slot ts now) = snd (channel_lookup slot ts now t)"
| "channel_step t (CallExpire now) = expire now t"
| "channel_step t CallTakeDirty = snd (takeDirty t)"
| "channel_step t (CallActiveCount now) = snd (activeCount now t)"
| "channel_step t CallCloseAll = closeAll t"
| "channel_step t CallClear = channel_clear t"

interpretation channel_sys: step_system channel_step tracker_inv
proof
  show "tracker_inv (channel_step t c)" if "tracker_inv t" for t c
    using that by (cases c) (auto simp: channel_lookup_def activeCount_def Let_def intro: kitsu_inv)
qed

text \<open>
  In every state the tracker can reach there are exactly 24 entries, no two open windows
  are for the same message, every open window is for one of the four channels with a valid
  route and at most four distinct relay tokens, and a closed entry is either free or has its
  final report pending.
\<close>

lemma channel_tracker_reachable:
  "tracker_inv (foldl channel_step tracker0 calls)"
  by (rule channel_sys.run_inv [OF tracker_inv0])

end
