(* ===== verification/Advert_Repeat.thy ===== *)
theory Advert_Repeat
  imports Channel_Repeat
begin

text \<open>
  The lifecycle of the owner's adverts, \<^verbatim>\<open>src/src/kitsu_advert_repeat_tracker.{h,cpp}\<close>: the
  zero-hop (nearby) advert and the Mesh-wide flood advert with its two-minute window for
  received copies.  The flood tracker keeps its relay tokens as the channel tracker does, so
  its token list is shown to satisfy the same contract through the channel tracker's.
\<close>

definition kAdvertPayloadType :: u8 where "kAdvertPayloadType = 0x04"
definition kAdvertRepeatWindowMs :: u32 where "kAdvertRepeatWindowMs = 120000"
definition kAdvertMinimumEmittedAt :: u32 where "kAdvertMinimumEmittedAt = 1704067200"
definition kAdvertMaximumEmittedAt :: u32 where "kAdvertMaximumEmittedAt = 4102444800"
definition kAdvertRepeatSourceCapacity :: u8 where "kAdvertRepeatSourceCapacity = 4"
definition kAdvertRepeatSourceTokenBytes :: u8 where "kAdvertRepeatSourceTokenBytes = 3"

lemmas advert_consts = kAdvertPayloadType_def kAdvertRepeatWindowMs_def
  kAdvertMinimumEmittedAt_def kAdvertMaximumEmittedAt_def
  kAdvertRepeatSourceCapacity_def kAdvertRepeatSourceTokenBytes_def

record AdvertRepeatSource =
  as_tokenBytes :: u8
  as_token :: bytes

datatype AdvertTransmitState = Queued | Sent | TxFailed

datatype AdvertRepeatObserveResult =
    AdvertNotCandidate | AdvertNoHashMatch | AdvertWireMismatch | AdvertDigestMismatch
  | AdvertRecorded | AdvertSaturated

record FloodAdvertStatus =
  fa_available :: bool
  fa_emittedAt :: u32
  fa_state :: AdvertTransmitState
  fa_repeatCountKnown :: bool
  fa_repeatCount :: u8
  fa_observationOpen :: bool
  fa_sourceCount :: u8
  fa_sources :: "AdvertRepeatSource list"
  fa_sourcesTruncated :: bool

definition flood_status0 :: FloodAdvertStatus where
  "flood_status0 = \<lparr>fa_available = False, fa_emittedAt = 0, fa_state = Queued,
     fa_repeatCountKnown = False, fa_repeatCount = 0, fa_observationOpen = False,
     fa_sourceCount = 0, fa_sources = replicate 4 \<lparr>as_tokenBytes = 0, as_token = [0, 0, 0]\<rparr>,
     fa_sourcesTruncated = False\<rparr>"

record NearbyAdvertStatus =
  na_available :: bool
  na_emittedAt :: u32
  na_state :: AdvertTransmitState

definition nearby_status0 :: NearbyAdvertStatus where
  "nearby_status0 = \<lparr>na_available = False, na_emittedAt = 0, na_state = Queued\<rparr>"

definition validAdvert :: "u8 \<Rightarrow> bool \<Rightarrow> u32 \<Rightarrow> bool" where
  "validAdvert ptype flood emittedAt \<longleftrightarrow> ptype = kAdvertPayloadType \<and> flood
     \<and> emittedAt \<ge> kAdvertMinimumEmittedAt \<and> emittedAt \<le> kAdvertMaximumEmittedAt"

definition validNearbyAdvert :: "u8 \<Rightarrow> bool \<Rightarrow> u32 \<Rightarrow> bool" where
  "validNearbyAdvert ptype flood emittedAt \<longleftrightarrow> ptype = kAdvertPayloadType \<and> \<not> flood
     \<and> emittedAt \<ge> kAdvertMinimumEmittedAt \<and> emittedAt \<le> kAdvertMaximumEmittedAt"

definition sameBytes :: "bytes option \<Rightarrow> bytes option \<Rightarrow> bool" where
  "sameBytes l r \<longleftrightarrow> l \<noteq> None \<and> r \<noteq> None \<and> the l = the r"

subsection \<open>The nearby advert\<close>

record NearbyAdvertTracker =
  nt_status :: NearbyAdvertStatus
  nt_dirty :: bool

definition nearby0 :: NearbyAdvertTracker where
  "nearby0 = \<lparr>nt_status = nearby_status0, nt_dirty = False\<rparr>"

definition nearby_recordQueued :: "u8 \<Rightarrow> bool \<Rightarrow> u32 \<Rightarrow> NearbyAdvertTracker \<Rightarrow> bool \<times> NearbyAdvertTracker" where
  "nearby_recordQueued ptype flood emittedAt t =
     (if \<not> validNearbyAdvert ptype flood emittedAt then (False, t)
      else (True, t\<lparr>nt_status := nearby_status0\<lparr>na_available := True, na_emittedAt := emittedAt,
              na_state := Queued\<rparr>, nt_dirty := True\<rparr>))"

definition nearby_markSent :: "u32 \<Rightarrow> NearbyAdvertTracker \<Rightarrow> bool \<times> NearbyAdvertTracker" where
  "nearby_markSent emittedAt t =
     (if \<not> na_available (nt_status t) \<or> na_state (nt_status t) \<noteq> Queued
         \<or> na_emittedAt (nt_status t) \<noteq> emittedAt then (False, t)
      else (True, t\<lparr>nt_status := (nt_status t)\<lparr>na_state := Sent\<rparr>, nt_dirty := True\<rparr>))"

definition nearby_markTxFailed :: "u32 \<Rightarrow> NearbyAdvertTracker \<Rightarrow> bool \<times> NearbyAdvertTracker" where
  "nearby_markTxFailed emittedAt t =
     (if \<not> na_available (nt_status t) \<or> na_state (nt_status t) \<noteq> Queued
         \<or> na_emittedAt (nt_status t) \<noteq> emittedAt then (False, t)
      else (True, t\<lparr>nt_status := (nt_status t)\<lparr>na_state := TxFailed\<rparr>, nt_dirty := True\<rparr>))"

definition nearby_snapshot :: "NearbyAdvertTracker \<Rightarrow> bool \<times> NearbyAdvertStatus" where
  "nearby_snapshot t = (na_available (nt_status t), nt_status t)"

definition nearby_takeDirty :: "NearbyAdvertTracker \<Rightarrow> bool \<times> NearbyAdvertTracker" where
  "nearby_takeDirty t = (nt_dirty t, t\<lparr>nt_dirty := False\<rparr>)"

definition nearby_clear :: "NearbyAdvertTracker \<Rightarrow> NearbyAdvertTracker" where
  "nearby_clear t = (let changed = na_available (nt_status t);
     t = t\<lparr>nt_status := nearby_status0\<rparr> in if changed then t\<lparr>nt_dirty := True\<rparr> else t)"

subsection \<open>The flood advert\<close>

record AdvertRepeatTracker =
  at_status :: FloodAdvertStatus
  at_hash :: bytes
  at_digest :: bytes
  at_route :: FloodRouteBinding
  at_sentAtMs :: u32
  at_fingerprintValid :: bool
  at_dirty :: bool

definition clearFingerprint :: "AdvertRepeatTracker \<Rightarrow> AdvertRepeatTracker" where
  "clearFingerprint t = t\<lparr>at_hash := replicate 8 0, at_digest := replicate 32 0,
     at_route := binding0, at_sentAtMs := 0, at_fingerprintValid := False\<rparr>"

definition advert0 :: AdvertRepeatTracker where
  "advert0 = \<lparr>at_status = flood_status0, at_hash = replicate 8 0, at_digest = replicate 32 0,
     at_route = binding0, at_sentAtMs = 0, at_fingerprintValid = False, at_dirty = False\<rparr>"

definition advert_recordQueued :: "u8 \<Rightarrow> bool \<Rightarrow> u32 \<Rightarrow> AdvertRepeatTracker \<Rightarrow> bool \<times> AdvertRepeatTracker" where
  "advert_recordQueued ptype flood emittedAt t =
     (if \<not> validAdvert ptype flood emittedAt then (False, t)
      else (True, (clearFingerprint (t\<lparr>at_status := flood_status0\<lparr>fa_available := True,
              fa_emittedAt := emittedAt, fa_state := Queued\<rparr>\<rparr>))\<lparr>at_dirty := True\<rparr>))"

definition advert_markSent :: "u8 \<Rightarrow> FloodRouteBinding \<Rightarrow> bytes option \<Rightarrow> bytes option \<Rightarrow> u32 \<Rightarrow> u32
    \<Rightarrow> AdvertRepeatTracker \<Rightarrow> bool \<times> AdvertRepeatTracker" where
  "advert_markSent ptype rt hash digest emittedAt nowMs t =
     (if \<not> validAdvert ptype True emittedAt \<or> \<not> validFloodRouteBinding rt \<or> hash = None
         \<or> digest = None \<or> \<not> fa_available (at_status t) \<or> fa_state (at_status t) \<noteq> Queued
         \<or> fa_emittedAt (at_status t) \<noteq> emittedAt then (False, t)
      else (True, t\<lparr>at_hash := the hash, at_digest := the digest, at_route := rt,
              at_sentAtMs := nowMs, at_fingerprintValid := True,
              at_status := (at_status t)\<lparr>fa_state := Sent, fa_repeatCountKnown := True,
                fa_repeatCount := 0, fa_observationOpen := True\<rparr>, at_dirty := True\<rparr>))"

definition advert_markTxFailed :: "u32 \<Rightarrow> AdvertRepeatTracker \<Rightarrow> bool \<times> AdvertRepeatTracker" where
  "advert_markTxFailed emittedAt t =
     (if \<not> fa_available (at_status t) \<or> fa_state (at_status t) \<noteq> Queued
         \<or> fa_emittedAt (at_status t) \<noteq> emittedAt then (False, t)
      else (True, (clearFingerprint (t\<lparr>at_status := (at_status t)\<lparr>fa_state := TxFailed,
              fa_repeatCountKnown := False, fa_repeatCount := 0,
              fa_observationOpen := False\<rparr>\<rparr>))\<lparr>at_dirty := True\<rparr>))"

definition advert_recordSource :: "bytes option \<Rightarrow> u8 \<Rightarrow> FloodAdvertStatus \<Rightarrow> bool \<times> FloodAdvertStatus" where
  "advert_recordSource tok tokenBytes st =
     (if tok = None \<or> tokenBytes = 0 \<or> tokenBytes > kAdvertRepeatSourceTokenBytes then (False, st)
      else if \<exists>source \<in> set (take (unat (fa_sourceCount st)) (fa_sources st)).
          as_tokenBytes source = tokenBytes
          \<and> take (unat tokenBytes) (as_token source) = take (unat tokenBytes) (the tok)
      then (False, st)
      else if fa_sourceCount st \<ge> kAdvertRepeatSourceCapacity then
        (if fa_sourcesTruncated st then (False, st) else (True, st\<lparr>fa_sourcesTruncated := True\<rparr>))
      else let i = unat (fa_sourceCount st);
               source = fa_sources st ! i;
               source = source\<lparr>as_tokenBytes := tokenBytes,
                 as_token := take (unat tokenBytes) (the tok) @ drop (unat tokenBytes) (as_token source)\<rparr>
        in (True, st\<lparr>fa_sourceCount := fa_sourceCount st + 1, fa_sources := (fa_sources st)[i := source]\<rparr>))"

definition advert_tick :: "u32 \<Rightarrow> AdvertRepeatTracker \<Rightarrow> bool \<times> AdvertRepeatTracker" where
  "advert_tick nowMs t =
     (if \<not> fa_available (at_status t) \<or> fa_state (at_status t) \<noteq> Sent
         \<or> \<not> fa_observationOpen (at_status t) \<or> nowMs - at_sentAtMs t < kAdvertRepeatWindowMs
      then (False, t)
      else (True, (clearFingerprint (t\<lparr>at_status := (at_status t)\<lparr>fa_observationOpen := False\<rparr>\<rparr>))
              \<lparr>at_dirty := True\<rparr>))"

definition advert_observeDetailed :: "u8 \<Rightarrow> FloodRouteBinding \<Rightarrow> u8 \<Rightarrow> bytes option \<Rightarrow> bytes option
    \<Rightarrow> bytes option \<Rightarrow> u8 \<Rightarrow> u32 \<Rightarrow> AdvertRepeatTracker
    \<Rightarrow> AdvertRepeatObserveResult \<times> AdvertRepeatTracker" where
  "advert_observeDetailed ptype rt pathCount hash digest tok tokenBytes nowMs t =
     (let t = snd (advert_tick nowMs t); st = at_status t in
      if ptype \<noteq> kAdvertPayloadType \<or> \<not> validFloodRouteBinding rt \<or> pathCount = 0
         \<or> hash = None \<or> digest = None then (AdvertNotCandidate, t)
      else if \<not> fa_available st \<or> fa_state st \<noteq> Sent \<or> \<not> fa_observationOpen st
         \<or> \<not> fa_repeatCountKnown st \<or> \<not> at_fingerprintValid t
         \<or> \<not> sameBytes (Some (at_hash t)) hash then (AdvertNoHashMatch, t)
      else if \<not> sameFloodRouteBinding (at_route t) rt then
        (if sameBytes (Some (at_digest t)) digest then AdvertWireMismatch else AdvertDigestMismatch, t)
      else if \<not> sameBytes (Some (at_digest t)) digest then (AdvertDigestMismatch, t)
      else (case advert_recordSource tok tokenBytes st of (sourceChanged, st) \<Rightarrow>
        let t = t\<lparr>at_status := st\<rparr> in
        if fa_repeatCount st = 0xff
        then (AdvertSaturated, if sourceChanged then t\<lparr>at_dirty := True\<rparr> else t)
        else (AdvertRecorded, t\<lparr>at_status := st\<lparr>fa_repeatCount := fa_repeatCount st + 1\<rparr>,
                at_dirty := True\<rparr>)))"

definition advert_observe :: "u8 \<Rightarrow> FloodRouteBinding \<Rightarrow> u8 \<Rightarrow> bytes option \<Rightarrow> bytes option \<Rightarrow> u32
    \<Rightarrow> AdvertRepeatTracker \<Rightarrow> bool \<times> AdvertRepeatTracker" where
  "advert_observe ptype rt pathCount hash digest nowMs t =
     (case advert_observeDetailed ptype rt pathCount hash digest None 0 nowMs t of
        (r, t) \<Rightarrow> (r = AdvertRecorded, t))"

definition advert_snapshot :: "u32 \<Rightarrow> AdvertRepeatTracker
    \<Rightarrow> bool \<times> FloodAdvertStatus \<times> AdvertRepeatTracker" where
  "advert_snapshot nowMs t = (let t = snd (advert_tick nowMs t) in
     (fa_available (at_status t), at_status t, t))"

definition advert_takeDirty :: "AdvertRepeatTracker \<Rightarrow> bool \<times> AdvertRepeatTracker" where
  "advert_takeDirty t = (at_dirty t, t\<lparr>at_dirty := False\<rparr>)"

definition advert_clear :: "AdvertRepeatTracker \<Rightarrow> AdvertRepeatTracker" where
  "advert_clear t = (let changed = fa_available (at_status t);
     t = clearFingerprint (t\<lparr>at_status := flood_status0\<rparr>)
     in if changed then t\<lparr>at_dirty := True\<rparr> else t)"

subsection \<open>The token list through the channel tracker's contract\<close>

definition conv_source :: "AdvertRepeatSource \<Rightarrow> ChannelRepeatSource" where
  "conv_source s = \<lparr>src_tokenBytes = as_tokenBytes s, src_token = as_token s\<rparr>"

definition sources_view :: "FloodAdvertStatus \<Rightarrow> channel_entry" where
  "sources_view st = entry0\<lparr>en_sourceCount := fa_sourceCount st,
     en_sources := map conv_source (fa_sources st), en_sourcesTruncated := fa_sourcesTruncated st\<rparr>"

lemma conv_source_simps [simp]:
  "src_tokenBytes (conv_source s) = as_tokenBytes s" "src_token (conv_source s) = as_token s"
  by (simp_all add: conv_source_def)

lemma false_branches_unchanged:
  "\<not> fst (if a then (False, s) else if b then (False, s)
     else if c then (if d then (False, s) else (True, x)) else (True, y)) \<Longrightarrow>
   snd (if a then (False, s) else if b then (False, s)
     else if c then (if d then (False, s) else (True, x)) else (True, y)) = s"
  by (simp split: if_splits)

lemma branches_view:
  assumes "v s = S" and "v x = X" and "\<not> c \<Longrightarrow> v y = Y"
  shows "(if a then (False, S) else if b then (False, S)
     else if c then (if d then (False, S) else (True, X)) else (True, Y)) =
   (fst (if a then (False, s) else if b then (False, s)
     else if c then (if d then (False, s) else (True, x)) else (True, y)),
    v (snd (if a then (False, s) else if b then (False, s)
     else if c then (if d then (False, s) else (True, x)) else (True, y))))"
  using assms by simp

lemma recordSource_view:
  assumes "length (fa_sources st) = 4"
  shows "recordSource tok n (sources_view st) =
    (fst (advert_recordSource tok n st), sources_view (snd (advert_recordSource tok n st)))"
proof -
  have nth: "map conv_source (fa_sources st) ! unat (fa_sourceCount st)
      = conv_source (fa_sources st ! unat (fa_sourceCount st))" if "fa_sourceCount st < 4"
    using that assms by (simp add: word_less_nat_alt)
  have cs: "(conv_source s)\<lparr>src_tokenBytes := a, src_token := b\<rparr> =
      conv_source (s\<lparr>as_tokenBytes := a, as_token := b\<rparr>)" for s a b
    by (simp add: conv_source_def)
  have ex: "(\<exists>source \<in> set (take k (map conv_source (fa_sources st))).
        src_tokenBytes source = n \<and> take (unat n) (src_token source) = x) =
      (\<exists>source \<in> set (take k (fa_sources st)). as_tokenBytes source = n
        \<and> take (unat n) (as_token source) = x)" for k x
    by (auto simp: take_map)
  define known where "known \<longleftrightarrow> (\<exists>source \<in> set (take (unat (fa_sourceCount st)) (fa_sources st)).
      as_tokenBytes source = n \<and> take (unat n) (as_token source) = take (unat n) (the tok))"
  have v: "en_sourceCount (sources_view st) = fa_sourceCount st"
      "en_sources (sources_view st) = map conv_source (fa_sources st)"
      "en_sourcesTruncated (sources_view st) = fa_sourcesTruncated st"
    by (simp_all add: sources_view_def)
  let ?i = "unat (fa_sourceCount st)"
  have A: "advert_recordSource tok n st = (if tok = None \<or> n = 0 \<or> n > 3 then (False, st)
      else if known then (False, st)
      else if fa_sourceCount st \<ge> 4 then
        (if fa_sourcesTruncated st then (False, st) else (True, st\<lparr>fa_sourcesTruncated := True\<rparr>))
      else (True, st\<lparr>fa_sourceCount := fa_sourceCount st + 1, fa_sources := (fa_sources st)[?i :=
        (fa_sources st ! ?i)\<lparr>as_tokenBytes := n,
          as_token := take (unat n) (the tok) @ drop (unat n) (as_token (fa_sources st ! ?i))\<rparr>]\<rparr>))"
    unfolding advert_recordSource_def advert_consts known_def Let_def ..
  have B: "recordSource tok n (sources_view st) = (if tok = None \<or> n = 0 \<or> n > 3 then (False, sources_view st)
      else if known then (False, sources_view st)
      else if fa_sourceCount st \<ge> 4 then
        (if fa_sourcesTruncated st then (False, sources_view st)
         else (True, (sources_view st)\<lparr>en_sourcesTruncated := True\<rparr>))
      else (True, (sources_view st)\<lparr>en_sourceCount := fa_sourceCount st + 1,
        en_sources := (map conv_source (fa_sources st))[?i :=
        (map conv_source (fa_sources st) ! ?i)\<lparr>src_tokenBytes := n, src_token :=
          take (unat n) (the tok) @ drop (unat n) (src_token (map conv_source (fa_sources st) ! ?i))\<rparr>]\<rparr>))"
    unfolding recordSource_def channel_consts known_def Let_def v ex ..
  have upd: "sources_view (st\<lparr>fa_sourcesTruncated := True\<rparr>) = (sources_view st)\<lparr>en_sourcesTruncated := True\<rparr>"
      "sources_view (st\<lparr>fa_sourceCount := c, fa_sources := l\<rparr>) =
        (sources_view st)\<lparr>en_sourceCount := c, en_sources := map conv_source l\<rparr>" for c l
    by (simp_all add: sources_view_def)
  show ?thesis
    unfolding A B by (rule branches_view) (simp_all add: upd nth cs map_update not_le)
qed

lemma advert_recordSource_unchanged: "\<not> fst (advert_recordSource tok n st) \<Longrightarrow> snd (advert_recordSource tok n st) = st"
  unfolding advert_recordSource_def Let_def by (rule false_branches_unchanged)

definition advert_toks :: "FloodAdvertStatus \<Rightarrow> bytes list" where
  "advert_toks st = entry_toks (sources_view st)"

definition advert_sources_wf :: "FloodAdvertStatus \<Rightarrow> bool" where
  "advert_sources_wf st \<longleftrightarrow> sources_wf (sources_view st)"

lemma advert_sources_len: "advert_sources_wf st \<Longrightarrow> length (fa_sources st) = 4"
  by (simp add: advert_sources_wf_def sources_wf_def sources_view_def)

lemma advert_recordSource_same:
  assumes "advert_sources_wf st" and "recordSource tok n (sources_view st) = (False, sources_view st)"
  shows "advert_recordSource tok n st = (False, st)"
  using assms recordSource_view [OF advert_sources_len [OF assms(1)], of tok n]
    advert_recordSource_unchanged [of tok n st]
  by (cases "advert_recordSource tok n st") simp

interpretation advert_sources: source_log advert_recordSource advert_toks fa_sourcesTruncated advert_sources_wf
proof
  fix st tok n t
  assume wf: "advert_sources_wf st"
  then have cwf: "sources_wf (sources_view st)" by (simp add: advert_sources_wf_def)
  note view = recordSource_view [OF advert_sources_len [OF wf], of tok n]
  have trunc: "en_sourcesTruncated (sources_view s) = fa_sourcesTruncated s" for s
    by (simp add: sources_view_def)
  show "length (advert_toks st) \<le> 4"
    using channel_sources.inv_bound [OF cwf] by (simp add: advert_toks_def)
  show "advert_recordSource tok n st = (False, st)" if "source_token tok n = None"
    using channel_sources.add_none [OF cwf that] by (rule advert_recordSource_same [OF wf])
  assume ok: "token_ok tok n"
  show "advert_recordSource tok n st = (False, st)"
    if "source_token tok n = Some t" "t \<in> set (advert_toks st)"
    using channel_sources.add_known [OF cwf ok that(1)] that(2)
    by (intro advert_recordSource_same [OF wf]) (simp add: advert_toks_def)
  show "fst (advert_recordSource tok n st)
      \<and> advert_toks (snd (advert_recordSource tok n st)) = advert_toks st @ [t]
      \<and> fa_sourcesTruncated (snd (advert_recordSource tok n st)) = fa_sourcesTruncated st"
    if "source_token tok n = Some t" "t \<notin> set (advert_toks st)" "length (advert_toks st) < 4"
    using channel_sources.add_new [OF cwf ok that(1)] that(2,3) view by (simp add: advert_toks_def trunc)
  show "fst (advert_recordSource tok n st) = (\<not> fa_sourcesTruncated st)
      \<and> advert_toks (snd (advert_recordSource tok n st)) = advert_toks st
      \<and> fa_sourcesTruncated (snd (advert_recordSource tok n st))"
    if "source_token tok n = Some t" "t \<notin> set (advert_toks st)" "\<not> length (advert_toks st) < 4"
    using channel_sources.add_full [OF cwf ok that(1)] that(2,3) view by (simp add: advert_toks_def trunc)
  show "advert_sources_wf (snd (advert_recordSource tok n st))"
    using channel_sources.add_inv [OF cwf ok] view by (simp add: advert_sources_wf_def)
qed

subsection \<open>The lifecycle invariant\<close>

definition status_wf :: "FloodAdvertStatus \<Rightarrow> bool" where
  "status_wf st \<longleftrightarrow> advert_sources_wf st \<and> distinct (advert_toks st)
     \<and> (fa_available st \<longrightarrow> validAdvert 4 True (fa_emittedAt st))
     \<and> (\<not> fa_available st \<longrightarrow> st = flood_status0)
     \<and> (fa_repeatCountKnown st \<longleftrightarrow> fa_available st \<and> fa_state st = Sent)
     \<and> (\<not> fa_repeatCountKnown st \<longrightarrow> fa_repeatCount st = 0 \<and> advert_toks st = [])
     \<and> (fa_observationOpen st \<longrightarrow> fa_repeatCountKnown st)"

definition advert_inv :: "AdvertRepeatTracker \<Rightarrow> bool" where
  "advert_inv t \<longleftrightarrow> status_wf (at_status t)
     \<and> (at_fingerprintValid t \<longleftrightarrow> fa_observationOpen (at_status t))
     \<and> (at_fingerprintValid t \<longrightarrow> validFloodRouteBinding (at_route t))"

lemma sources_flood_status0 [simp]: "advert_sources_wf flood_status0" "advert_toks flood_status0 = []"
  by (simp_all add: advert_sources_wf_def sources_wf_def sources_view_def flood_status0_def
      advert_toks_def entry_toks_def)

lemma sources_view_frame [simp]:
  "sources_view (st\<lparr>fa_available := a\<rparr>) = sources_view st"
  "sources_view (st\<lparr>fa_emittedAt := b\<rparr>) = sources_view st"
  "sources_view (st\<lparr>fa_state := c\<rparr>) = sources_view st"
  "sources_view (st\<lparr>fa_repeatCountKnown := k\<rparr>) = sources_view st"
  "sources_view (st\<lparr>fa_repeatCount := r\<rparr>) = sources_view st"
  "sources_view (st\<lparr>fa_observationOpen := d\<rparr>) = sources_view st"
  by (simp_all add: sources_view_def)

lemma advert_sources_frame [simp]:
  "advert_toks (st\<lparr>fa_available := a\<rparr>) = advert_toks st"
  "advert_toks (st\<lparr>fa_emittedAt := b\<rparr>) = advert_toks st"
  "advert_toks (st\<lparr>fa_state := c\<rparr>) = advert_toks st"
  "advert_toks (st\<lparr>fa_repeatCountKnown := k\<rparr>) = advert_toks st"
  "advert_toks (st\<lparr>fa_repeatCount := r\<rparr>) = advert_toks st"
  "advert_toks (st\<lparr>fa_observationOpen := d\<rparr>) = advert_toks st"
  "advert_sources_wf (st\<lparr>fa_available := a\<rparr>) = advert_sources_wf st"
  "advert_sources_wf (st\<lparr>fa_emittedAt := b\<rparr>) = advert_sources_wf st"
  "advert_sources_wf (st\<lparr>fa_state := c\<rparr>) = advert_sources_wf st"
  "advert_sources_wf (st\<lparr>fa_repeatCountKnown := k\<rparr>) = advert_sources_wf st"
  "advert_sources_wf (st\<lparr>fa_repeatCount := r\<rparr>) = advert_sources_wf st"
  "advert_sources_wf (st\<lparr>fa_observationOpen := d\<rparr>) = advert_sources_wf st"
  by (simp_all add: advert_toks_def advert_sources_wf_def)

lemma flood_status0_fields [simp]:
  "\<not> fa_available flood_status0" "fa_state flood_status0 = Queued" "\<not> fa_repeatCountKnown flood_status0"
  "fa_repeatCount flood_status0 = 0" "\<not> fa_observationOpen flood_status0"
  by (simp_all add: flood_status0_def)

lemma status_wf0 [simp]: "status_wf flood_status0"
  by (simp add: status_wf_def)

lemma advert_inv0: "advert_inv advert0"
  by (simp add: advert_inv_def advert0_def)

lemma advert_recordSource_frame:
  "fa_available (snd (advert_recordSource tok n st)) = fa_available st"
  "fa_emittedAt (snd (advert_recordSource tok n st)) = fa_emittedAt st"
  "fa_state (snd (advert_recordSource tok n st)) = fa_state st"
  "fa_repeatCountKnown (snd (advert_recordSource tok n st)) = fa_repeatCountKnown st"
  "fa_repeatCount (snd (advert_recordSource tok n st)) = fa_repeatCount st"
  "fa_observationOpen (snd (advert_recordSource tok n st)) = fa_observationOpen st"
  unfolding advert_recordSource_def Let_def by simp_all

lemma advert_tick_inv [kitsu_inv]: "advert_inv t \<Longrightarrow> advert_inv (snd (advert_tick now t))"
  by (auto simp: advert_inv_def advert_tick_def clearFingerprint_def status_wf_def)

lemma advert_recordQueued_inv [kitsu_inv]: "advert_inv t \<Longrightarrow> advert_inv (snd (advert_recordQueued p f e t))"
  by (auto simp: advert_inv_def advert_recordQueued_def clearFingerprint_def status_wf_def validAdvert_def
      advert_consts)

lemma advert_markSent_inv [kitsu_inv]: "advert_inv t \<Longrightarrow> advert_inv (snd (advert_markSent p rt h d e now t))"
  by (auto simp: advert_inv_def advert_markSent_def status_wf_def)

lemma advert_markTxFailed_inv [kitsu_inv]: "advert_inv t \<Longrightarrow> advert_inv (snd (advert_markTxFailed e t))"
  by (auto simp: advert_inv_def advert_markTxFailed_def clearFingerprint_def status_wf_def)

lemma advert_takeDirty_inv [kitsu_inv]: "advert_inv t \<Longrightarrow> advert_inv (snd (advert_takeDirty t))"
  by (simp add: advert_inv_def advert_takeDirty_def)

lemma advert_clear_inv [kitsu_inv]: "advert_inv t \<Longrightarrow> advert_inv (advert_clear t)"
  by (simp add: advert_inv_def advert_clear_def clearFingerprint_def Let_def)

text \<open>A packet is evidence for the tracked advert.\<close>

definition advert_matches :: "FloodRouteBinding \<Rightarrow> bytes \<Rightarrow> bytes \<Rightarrow> AdvertRepeatTracker \<Rightarrow> bool" where
  "advert_matches rt h d t \<longleftrightarrow> fa_observationOpen (at_status t)
     \<and> at_hash t = h \<and> at_digest t = d \<and> at_route t = rt"

lemma advert_observe_candidate:
  assumes "advert_inv t" and "validFloodRouteBinding rt" and "pc \<noteq> 0"
  shows "advert_observeDetailed 4 rt pc (Some h) (Some d) tok n now t =
    (let t = snd (advert_tick now t); st = snd (advert_recordSource tok n (at_status t)) in
     if advert_matches rt h d t then
       (if fa_repeatCount st = 0xff
        then (AdvertSaturated, t\<lparr>at_status := st,
               at_dirty := at_dirty t \<or> fst (advert_recordSource tok n (at_status t))\<rparr>)
        else (AdvertRecorded, t\<lparr>at_status := st\<lparr>fa_repeatCount := fa_repeatCount st + 1\<rparr>, at_dirty := True\<rparr>))
     else (if fa_observationOpen (at_status t) \<and> at_hash t = h then
             (if at_route t \<noteq> rt \<and> at_digest t = d then AdvertWireMismatch else AdvertDigestMismatch)
           else AdvertNoHashMatch, t))"
proof -
  let ?t = "snd (advert_tick now t)"
  have inv: "advert_inv ?t" by (rule advert_tick_inv [OF assms(1)])
  then have op: "(\<not> fa_available (at_status ?t) \<or> fa_state (at_status ?t) \<noteq> Sent
      \<or> \<not> fa_observationOpen (at_status ?t) \<or> \<not> fa_repeatCountKnown (at_status ?t)
      \<or> \<not> at_fingerprintValid ?t \<or> \<not> sameBytes (Some (at_hash ?t)) (Some h))
    \<longleftrightarrow> \<not> (fa_observationOpen (at_status ?t) \<and> at_hash ?t = h)"
    by (auto simp: advert_inv_def status_wf_def sameBytes_def)
  have rt: "sameFloodRouteBinding (at_route ?t) rt \<longleftrightarrow> at_route ?t = rt"
    using assms(2) by (auto simp: sameFloodRouteBinding_iff)
  have dg: "sameBytes (Some (at_digest ?t)) (Some d) \<longleftrightarrow> at_digest ?t = d" by (simp add: sameBytes_def)
  show ?thesis
    unfolding advert_observeDetailed_def Let_def op rt dg using assms(2,3)
    by (simp add: advert_matches_def advert_consts case_prod_beta)
qed

lemma advert_observe_reject:
  assumes "ptype \<noteq> 4 \<or> \<not> validFloodRouteBinding rt \<or> pc = 0 \<or> hash = None \<or> digest = None"
  shows "advert_observeDetailed ptype rt pc hash digest tok n now t = (AdvertNotCandidate, snd (advert_tick now t))"
  using assms by (auto simp: advert_observeDetailed_def advert_consts Let_def)

lemma status_wf_record:
  assumes "status_wf st" and "fa_observationOpen st" and "token_ok tok n"
  shows "status_wf ((snd (advert_recordSource tok n st))\<lparr>fa_repeatCount := c\<rparr>)"
proof -
  have "advert_sources_wf st" "distinct (advert_toks st)" using assms(1) by (simp_all add: status_wf_def)
  then have "advert_sources_wf (snd (advert_recordSource tok n st))"
    "distinct (advert_toks (snd (advert_recordSource tok n st)))"
    using assms(3) by (simp_all add: advert_sources.add_inv advert_sources.distinct_toks_add)
  then show ?thesis using assms(1,2) by (auto simp: status_wf_def advert_recordSource_frame)
qed

lemma advert_observe_inv [kitsu_inv]:
  assumes inv: "advert_inv t" and tok: "token_ok tok n"
  shows "advert_inv (snd (advert_observeDetailed p rt pc h d tok n now t))"
proof (cases "p \<noteq> 4 \<or> \<not> validFloodRouteBinding rt \<or> pc = 0 \<or> h = None \<or> d = None")
  case True
  with advert_tick_inv [OF inv] show ?thesis by (simp add: advert_observe_reject)
next
  case False
  then obtain h' d' where hd: "h = Some h'" "d = Some d'" and c: "p = 4" "validFloodRouteBinding rt" "pc \<noteq> 0"
    by auto
  let ?t = "snd (advert_tick now t)"
  let ?st = "snd (advert_recordSource tok n (at_status ?t))"
  have e: "advert_inv ?t" by (rule advert_tick_inv [OF inv])
  have "status_wf (?st\<lparr>fa_repeatCount := c\<rparr>)" if "fa_observationOpen (at_status ?t)" for c
    using e that tok by (intro status_wf_record) (simp_all add: advert_inv_def)
  from this [of "fa_repeatCount ?st"] this
  have "status_wf ?st" "\<And>c. status_wf (?st\<lparr>fa_repeatCount := c\<rparr>)" if "fa_observationOpen (at_status ?t)"
    using that by simp_all
  with e show ?thesis
    unfolding hd c(1) advert_observe_candidate [OF inv c(2,3)] Let_def
    by (auto simp: advert_inv_def advert_matches_def advert_recordSource_frame)
qed

datatype advert_call =
    AdvRecordQueued u8 bool u32
  | AdvMarkSent u8 FloodRouteBinding "bytes option" "bytes option" u32 u32
  | AdvMarkTxFailed u32
  | AdvObserve u8 FloodRouteBinding u8 "bytes option" "bytes option" "bytes option" u8 u32
  | AdvTick u32
  | AdvSnapshot u32
  | AdvTakeDirty
  | AdvClear

fun advert_step :: "AdvertRepeatTracker \<Rightarrow> advert_call \<Rightarrow> AdvertRepeatTracker" where
  "advert_step t (AdvRecordQueued p f e) = snd (advert_recordQueued p f e t)"
| "advert_step t (AdvMarkSent p rt h d e now) = snd (advert_markSent p rt h d e now t)"
| "advert_step t (AdvMarkTxFailed e) = snd (advert_markTxFailed e t)"
| "advert_step t (AdvObserve p rt pc h d tok n now) =
     (if token_ok tok n then snd (advert_observeDetailed p rt pc h d tok n now t) else t)"
| "advert_step t (AdvTick now) = snd (advert_tick now t)"
| "advert_step t (AdvSnapshot now) = snd (snd (advert_snapshot now t))"
| "advert_step t AdvTakeDirty = snd (advert_takeDirty t)"
| "advert_step t AdvClear = advert_clear t"

interpretation advert_sys: step_system advert_step advert_inv
proof
  show "advert_inv (advert_step t c)" if "advert_inv t" for t c
    using that by (cases c) (auto simp: advert_snapshot_def Let_def intro: kitsu_inv)
qed

subsection \<open>Counting the copies of one advert\<close>

text \<open>The calls that neither start another advert nor drop the evidence.\<close>

fun keeps_advert :: "advert_call \<Rightarrow> bool" where
  "keeps_advert (AdvRecordQueued _ _ _) = False"
| "keeps_advert AdvClear = False"
| "keeps_advert _ = True"

text \<open>Is this call a received copy of the tracked advert, heard while its window is open?\<close>

fun is_copy :: "AdvertRepeatTracker \<Rightarrow> advert_call \<Rightarrow> bool" where
  "is_copy t (AdvObserve p rt pc (Some h) (Some d) tok n now) =
     (token_ok tok n \<and> p = 4 \<and> validFloodRouteBinding rt \<and> pc \<noteq> 0
      \<and> advert_matches rt h d (snd (advert_tick now t)))"
| "is_copy t _ = False"

fun copies_heard :: "AdvertRepeatTracker \<Rightarrow> advert_call list \<Rightarrow> nat" where
  "copies_heard t [] = 0"
| "copies_heard t (c # cs) = (if is_copy t c then 1 else 0) + copies_heard (advert_step t c) cs"

lemma tick_status: "at_status (snd (advert_tick now t)) = at_status t
    \<or> at_status (snd (advert_tick now t)) = (at_status t)\<lparr>fa_observationOpen := False\<rparr>"
  by (simp add: advert_tick_def clearFingerprint_def)

definition sent_advert :: "u32 \<Rightarrow> FloodAdvertStatus \<Rightarrow> bool" where
  "sent_advert e st \<longleftrightarrow> fa_available st \<and> fa_state st = Sent \<and> fa_emittedAt st = e"

lemma tick_frame:
  "sent_advert e (at_status (snd (advert_tick now t))) = sent_advert e (at_status t)"
  "fa_repeatCount (at_status (snd (advert_tick now t))) = fa_repeatCount (at_status t)"
  using tick_status [of now t] by (auto simp: sent_advert_def)

lemma tick_closed: "\<not> fa_observationOpen (at_status t) \<Longrightarrow> snd (advert_tick now t) = t"
  by (simp add: advert_tick_def)

lemma observe_counts:
  assumes "advert_inv t" and "sent_advert e (at_status t)" and "token_ok tok n"
    and c_def: "c = AdvObserve p rt pc h d tok n now"
  shows "sent_advert e (at_status (advert_step t c))
    \<and> unat (fa_repeatCount (at_status (advert_step t c))) =
       min 255 (unat (fa_repeatCount (at_status t)) + (if is_copy t c then 1 else 0))
    \<and> (\<not> fa_observationOpen (at_status t) \<longrightarrow> at_status (advert_step t c) = at_status t)"
proof (cases "p \<noteq> 4 \<or> \<not> validFloodRouteBinding rt \<or> pc = 0 \<or> h = None \<or> d = None")
  case True
  then have "\<not> is_copy t c" "advert_step t c = snd (advert_tick now t)"
    using assms(3) by (cases h; cases d; auto simp: c_def advert_observe_reject)+
  then show ?thesis using assms(2) unat8_lt [of "fa_repeatCount (at_status t)"]
    by (simp add: tick_frame tick_closed)
next
  case False
  then obtain h' d' where hd: "h = Some h'" "d = Some d'" and a: "p = 4" "validFloodRouteBinding rt" "pc \<noteq> 0"
    by auto
  let ?t = "snd (advert_tick now t)"
  have copy: "is_copy t c = advert_matches rt h' d' ?t" using assms(3) a by (simp add: c_def hd)
  have step: "advert_step t c = snd (advert_observeDetailed 4 rt pc (Some h') (Some d') tok n now t)"
    using assms(3) a(1) by (simp add: c_def hd)
  show ?thesis
  proof (cases "advert_matches rt h' d' ?t")
    case False
    then have "advert_step t c = ?t"
      unfolding step advert_observe_candidate [OF assms(1) a(2,3)] Let_def by simp
    with False show ?thesis using assms(2) copy unat8_lt [of "fa_repeatCount (at_status t)"]
      by (simp add: tick_frame tick_closed)
  next
    case True
    then have op: "fa_observationOpen (at_status t)"
      using tick_closed [of t now] by (cases "fa_observationOpen (at_status t)") (auto simp: advert_matches_def)
    let ?c = "fa_repeatCount (at_status t)"
    have "at_status (advert_step t c) = (snd (advert_recordSource tok n (at_status ?t)))
        \<lparr>fa_repeatCount := if ?c = 0xff then 0xff else ?c + 1\<rparr>"
      unfolding step advert_observe_candidate [OF assms(1) a(2,3)] Let_def
      using True by (simp add: advert_recordSource_frame tick_frame)
    with True copy op saturating_u8 [of ?c] assms(2) show ?thesis
      using tick_frame(1) [of e now t] by (simp add: sent_advert_def advert_recordSource_frame)
  qed
qed

lemma advert_step_counts:
  assumes "advert_inv t" and "sent_advert e (at_status t)" and "keeps_advert c"
  shows "sent_advert e (at_status (advert_step t c))
    \<and> unat (fa_repeatCount (at_status (advert_step t c))) =
       min 255 (unat (fa_repeatCount (at_status t)) + (if is_copy t c then 1 else 0))
    \<and> (\<not> fa_observationOpen (at_status t) \<longrightarrow> at_status (advert_step t c) = at_status t)"
proof -
  have m: "min 255 (unat (fa_repeatCount (at_status t))) = unat (fa_repeatCount (at_status t))"
    using unat8_lt [of "fa_repeatCount (at_status t)"] by simp
  show ?thesis
  proof (cases c)
    case (AdvObserve p rt pc h d tok n now)
    show ?thesis
    proof (cases "token_ok tok n")
      case True
      with observe_counts [OF assms(1,2) True AdvObserve] show ?thesis by simp
    next
      case False
      then have "\<not> is_copy t c" by (cases h; cases d) (simp_all add: AdvObserve)
      with False assms(2) m show ?thesis by (simp add: AdvObserve)
    qed
  next
    case (AdvMarkSent p rt h d em now)
    then show ?thesis using assms(2) m by (simp add: advert_markSent_def sent_advert_def)
  next
    case (AdvMarkTxFailed em)
    then show ?thesis using assms(2) m by (simp add: advert_markTxFailed_def sent_advert_def)
  qed (use assms(2,3) m in \<open>simp_all add: tick_frame tick_closed advert_snapshot_def advert_takeDirty_def Let_def\<close>)
qed

text \<open>
  C21. The count of a transmitted flood advert is exact: over any sequence of calls that
  neither queues another advert nor clears the tracker, the record stays the one of this
  advert in state Sent and its count is the starting count plus the number of received
  copies with the same hash, digest and route heard while the window was open, saturating
  at 255; once the window is closed the whole record is final.
\<close>

theorem advert_count_exact:
  assumes "advert_inv t" and "sent_advert e (at_status t)" and "\<forall>c \<in> set calls. keeps_advert c"
  shows "sent_advert e (at_status (foldl advert_step t calls))
    \<and> unat (fa_repeatCount (at_status (foldl advert_step t calls))) =
       min 255 (unat (fa_repeatCount (at_status t)) + copies_heard t calls)
    \<and> (\<not> fa_observationOpen (at_status t) \<longrightarrow> at_status (foldl advert_step t calls) = at_status t)"
  using assms
proof (induction calls arbitrary: t)
  case Nil
  then show ?case using unat8_lt [of "fa_repeatCount (at_status t)"] by simp
next
  case (Cons c cs)
  let ?t = "advert_step t c"
  from Cons.prems(3) have c: "keeps_advert c" and cs: "\<forall>c \<in> set cs. keeps_advert c" by simp_all
  note step = advert_step_counts [OF Cons.prems(1,2) c]
  from Cons.IH [OF advert_sys.step_inv [OF Cons.prems(1)] _ cs, of c] step show ?case
    by (simp add: min_def split: if_splits)
qed

theorem advert_count_exact_witness:
  "(let rt = \<lparr>transportScoped = False, fr_codes = (0, 0), fr_pathHashSize = 1\<rparr>;
        t = foldl advert_step advert0 [AdvRecordQueued 4 True 1800000000,
              AdvMarkSent 4 rt (Some [1]) (Some [2]) 1800000000 1000];
        calls = [AdvObserve 4 rt 1 (Some [1]) (Some [2]) None 0 2000, AdvTick 200000,
                 AdvObserve 4 rt 1 (Some [1]) (Some [2]) None 0 200001]
    in fa_repeatCount (at_status (foldl advert_step t calls)) = 1
       \<and> \<not> fa_observationOpen (at_status (foldl advert_step t calls)))"
proof -
  let ?rt = "\<lparr>transportScoped = False, fr_codes = (0, 0), fr_pathHashSize = 1\<rparr>"
  let ?t = "foldl advert_step advert0 [AdvRecordQueued 4 True 1800000000,
              AdvMarkSent 4 ?rt (Some [1]) (Some [2]) 1800000000 1000]"
  let ?calls = "[AdvObserve 4 ?rt 1 (Some [1]) (Some [2]) None 0 2000, AdvTick 200000,
                 AdvObserve 4 ?rt 1 (Some [1]) (Some [2]) None 0 200001]"
  have inv: "advert_inv ?t" by (rule advert_sys.run_inv [OF advert_inv0])
  have sent: "sent_advert 1800000000 (at_status ?t)" by code_simp
  have zero: "fa_repeatCount (at_status ?t) = 0" by code_simp
  have copies: "copies_heard ?t ?calls = 1" by code_simp
  have "unat (fa_repeatCount (at_status (foldl advert_step ?t ?calls))) = 1"
    using advert_count_exact [OF inv sent, of ?calls] copies zero by simp
  then have "fa_repeatCount (at_status (foldl advert_step ?t ?calls)) = 1"
    by (simp add: word_unat_eq_iff)
  moreover have "\<not> fa_observationOpen (at_status (foldl advert_step ?t ?calls))"
    by code_simp
  ultimately show ?thesis unfolding Let_def by (rule conjI)
qed

end
