(* ===== verification/Focus_Session.thy ===== *)
theory Focus_Session
  imports Kitsu_Prelude
begin

unbundle bit_operations_syntax

text \<open>
  The focus timer, \<^verbatim>\<open>src/src/kitsu_focus_session.{h,cpp}\<close>: the 48-byte persisted state with its
  CRC, one definition per method of \<^verbatim>\<open>FocusSession\<close>, the step relation of a session under a
  clock that runs forward, and what survives a restart.  Enumerations have \<^verbatim>\<open>uint8_t\<close> as
  their underlying type and are cast from stored bytes, so they are modelled at that type.
\<close>

subsection \<open>Data\<close>

definition kFocusStateSchemaVersion :: u8 where "kFocusStateSchemaVersion = 1"
definition kMinimumFocusMinutes :: u16 where "kMinimumFocusMinutes = 5"
definition kMaximumFocusMinutes :: u16 where "kMaximumFocusMinutes = 120"
definition kTwentyFiveMinutePreset :: u16 where "kTwentyFiveMinutePreset = 25"
definition kFiftyMinutePreset :: u16 where "kFiftyMinutePreset = 50"
definition kMinimumTrustedUnixSeconds :: u64 where "kMinimumTrustedUnixSeconds = 1577836800"
definition kMaximumTrustedUnixSeconds :: u64 where "kMaximumTrustedUnixSeconds = 4102444800"
definition kFocusStateMagic :: u32 where "kFocusStateMagic = 0x3153464B"
definition kMillisecondsPerMinute :: u32 where "kMillisecondsPerMinute = 60000"
definition kMaximumMonotonicDelta :: u32 where "kMaximumMonotonicDelta = 0x7FFFFFFF"

lemmas focus_consts = kFocusStateSchemaVersion_def kMinimumFocusMinutes_def kMaximumFocusMinutes_def
  kTwentyFiveMinutePreset_def kFiftyMinutePreset_def kMinimumTrustedUnixSeconds_def
  kMaximumTrustedUnixSeconds_def kFocusStateMagic_def kMillisecondsPerMinute_def
  kMaximumMonotonicDelta_def

type_synonym Phase = u8
abbreviation PhaseIdle :: Phase where "PhaseIdle \<equiv> 0"
abbreviation PhaseFocus :: Phase where "PhaseFocus \<equiv> 1"
abbreviation PhaseBreak :: Phase where "PhaseBreak \<equiv> 2"
abbreviation PhaseCompleted :: Phase where "PhaseCompleted \<equiv> 3"

type_synonym DurationKind = u8
abbreviation DurationTwentyFive :: DurationKind where "DurationTwentyFive \<equiv> 0"
abbreviation DurationFifty :: DurationKind where "DurationFifty \<equiv> 1"
abbreviation DurationCustom :: DurationKind where "DurationCustom \<equiv> 2"

type_synonym CompletionKind = u8
abbreviation CompletionNone :: CompletionKind where "CompletionNone \<equiv> 0"
abbreviation CompletionNatural :: CompletionKind where "CompletionNatural \<equiv> 1"
abbreviation CompletionStopped :: CompletionKind where "CompletionStopped \<equiv> 2"
abbreviation CompletionCancelled :: CompletionKind where "CompletionCancelled \<equiv> 3"

datatype FocusStatus = FocusOk | Duplicate | InvalidArgument | Busy | Conflict | WrongSession
  | WrongPhase | ClockRollback | InvalidClock

datatype RestoreStatus = RestoreOk | BadMagic | UnsupportedSchema | InvalidState | BadCrc
  | RestoreClockRollback | RestoreInvalidClock

record ClockSample =
  cs_monotonicMs :: u32
  cs_unixTrusted :: bool
  cs_unixSeconds :: u64

record StartRequest =
  rq_sessionId :: u64
  rq_duration :: DurationKind
  rq_customMinutes :: u16

record Update =
  up_before :: Phase
  up_after :: Phase
  up_changed :: bool
  up_focusCompleted :: bool
  up_sessionCompleted :: bool
  up_recommendPulseBreathing :: bool

record FocusState =
  f_magic :: u32
  f_bytes :: u16
  f_schemaVersion :: u8
  f_phase :: u8
  f_durationKind :: u8
  f_completionKind :: u8
  f_focusMinutes :: u16
  f_breakMinutes :: u16
  f_reserved :: u16
  f_elapsedMs :: u32
  f_anchorElapsedMs :: u32
  f_sessionId :: u64
  f_anchorUnixSeconds :: u64
  f_sequence :: u32
  f_crc32 :: u32

definition focus_state0 :: FocusState where
  "focus_state0 = \<lparr>f_magic = 0x3153464B, f_bytes = 48, f_schemaVersion = kFocusStateSchemaVersion,
     f_phase = PhaseIdle, f_durationKind = DurationTwentyFive, f_completionKind = CompletionNone,
     f_focusMinutes = 0, f_breakMinutes = 0, f_reserved = 0, f_elapsedMs = 0, f_anchorElapsedMs = 0,
     f_sessionId = 0, f_anchorUnixSeconds = 0, f_sequence = 0, f_crc32 = 0\<rparr>"

record FocusSession =
  fs_state :: FocusState
  fs_bootAnchorMs :: u32
  fs_bootAnchorElapsedMs :: u32
  fs_timingArmed :: bool

subsection \<open>Checksum\<close>

definition crc32_bit :: "u32 \<Rightarrow> u32" where
  "crc32_bit crc = (drop_bit 1 crc) XOR (0xEDB88320 AND (0 - (crc AND 1)))"

definition crc32_byte :: "u32 \<Rightarrow> u8 \<Rightarrow> u32" where
  "crc32_byte crc b = (crc32_bit ^^ 8) (crc XOR ucast b)"

definition crc32Bytes :: "bytes \<Rightarrow> u32" where
  "crc32Bytes bs = NOT (foldl crc32_byte 0xFFFFFFFF bs)"

text \<open>The packed little-endian image of the state before its \<^verbatim>\<open>crc32\<close> member.\<close>

definition focus_image :: "FocusState \<Rightarrow> bytes" where
  "focus_image s = le_bytes 4 (f_magic s) @ le_bytes 2 (f_bytes s)
     @ [f_schemaVersion s, f_phase s, f_durationKind s, f_completionKind s]
     @ le_bytes 2 (f_focusMinutes s) @ le_bytes 2 (f_breakMinutes s) @ le_bytes 2 (f_reserved s)
     @ le_bytes 4 (f_elapsedMs s) @ le_bytes 4 (f_anchorElapsedMs s) @ le_bytes 8 (f_sessionId s)
     @ le_bytes 8 (f_anchorUnixSeconds s) @ le_bytes 4 (f_sequence s)"

definition focusStateCrc :: "FocusState \<Rightarrow> u32" where
  "focusStateCrc s = crc32Bytes (focus_image s)"

subsection \<open>Validation\<close>

definition validPhase :: "u8 \<Rightarrow> bool" where "validPhase v \<longleftrightarrow> v \<le> PhaseCompleted"
definition validDurationKind :: "u8 \<Rightarrow> bool" where "validDurationKind v \<longleftrightarrow> v \<le> DurationCustom"
definition validCompletionKind :: "u8 \<Rightarrow> bool" where "validCompletionKind v \<longleftrightarrow> v \<le> CompletionCancelled"

definition validTrustedUnix :: "u64 \<Rightarrow> bool" where
  "validTrustedUnix u \<longleftrightarrow> u \<ge> kMinimumTrustedUnixSeconds \<and> u \<le> kMaximumTrustedUnixSeconds"

definition validateClock :: "ClockSample \<Rightarrow> bool" where
  "validateClock clock \<longleftrightarrow> \<not> cs_unixTrusted clock \<or> validTrustedUnix (cs_unixSeconds clock)"

definition durationMs :: "u16 \<Rightarrow> u32" where
  "durationMs minutes = ucast minutes * kMillisecondsPerMinute"

definition focusMs :: "FocusState \<Rightarrow> u32" where
  "focusMs s = durationMs (f_focusMinutes s)"

definition totalMs :: "FocusState \<Rightarrow> u32" where
  "totalMs s = durationMs (f_focusMinutes s + f_breakMinutes s)"

definition recommendedBreakMinutes :: "u16 \<Rightarrow> u16" where
  "recommendedBreakMinutes m = (if m \<le> 25 then 5 else if m \<le> 50 then 10 else 15)"

definition normalizeDuration :: "StartRequest \<Rightarrow> (u16 \<times> u16) option" where
  "normalizeDuration r =
     (let minutes =
        (if rq_duration r = DurationTwentyFive then
           (if rq_customMinutes r \<noteq> 0 then None else Some kTwentyFiveMinutePreset)
         else if rq_duration r = DurationFifty then
           (if rq_customMinutes r \<noteq> 0 then None else Some kFiftyMinutePreset)
         else if rq_duration r = DurationCustom then
           (if rq_customMinutes r < kMinimumFocusMinutes \<or> rq_customMinutes r > kMaximumFocusMinutes
            then None else Some (rq_customMinutes r))
         else None)
      in map_option (\<lambda>m. (m, recommendedBreakMinutes m)) minutes)"

definition validStoredDuration :: "FocusState \<Rightarrow> bool" where
  "validStoredDuration s =
     (normalizeDuration \<lparr>rq_sessionId = f_sessionId s, rq_duration = f_durationKind s,
        rq_customMinutes = (if f_durationKind s = DurationCustom then f_focusMinutes s else 0)\<rparr>
      = Some (f_focusMinutes s, f_breakMinutes s))"

definition validStateSemantics :: "FocusState \<Rightarrow> bool" where
  "validStateSemantics s =
     (if \<not> validPhase (f_phase s) \<or> \<not> validDurationKind (f_durationKind s)
         \<or> \<not> validCompletionKind (f_completionKind s) \<or> f_reserved s \<noteq> 0 then False
      else if f_sessionId s = 0 then
        f_phase s = PhaseIdle \<and> f_completionKind s = CompletionNone \<and> f_focusMinutes s = 0
        \<and> f_breakMinutes s = 0 \<and> f_elapsedMs s = 0 \<and> f_anchorElapsedMs s = 0
        \<and> f_anchorUnixSeconds s = 0 \<and> f_sequence s = 0
      else if f_sequence s = 0 \<or> \<not> validStoredDuration s then False
      else if f_elapsedMs s > totalMs s \<or> f_anchorElapsedMs s > f_elapsedMs s then False
      else if (if f_anchorUnixSeconds s = 0 then f_anchorElapsedMs s \<noteq> 0
               else \<not> validTrustedUnix (f_anchorUnixSeconds s)) then False
      else if f_phase s = PhaseFocus then
        f_completionKind s = CompletionNone \<and> f_elapsedMs s < focusMs s
      else if f_phase s = PhaseBreak then
        f_completionKind s = CompletionNone \<and> f_elapsedMs s \<ge> focusMs s \<and> f_elapsedMs s < totalMs s
      else if f_phase s = PhaseCompleted then
        (if f_anchorElapsedMs s \<noteq> 0 \<or> f_anchorUnixSeconds s \<noteq> 0 then False
         else if f_completionKind s = CompletionNatural then f_elapsedMs s = totalMs s
         else f_completionKind s = CompletionStopped \<and> f_elapsedMs s < totalMs s)
      else if f_phase s = PhaseIdle then
        (if f_anchorElapsedMs s \<noteq> 0 \<or> f_anchorUnixSeconds s \<noteq> 0 then False
         else if f_completionKind s = CompletionNatural then f_elapsedMs s = totalMs s
         else if f_completionKind s = CompletionStopped \<or> f_completionKind s = CompletionCancelled
         then f_elapsedMs s < totalMs s
         else False)
      else False)"

definition validateFocusState :: "FocusState \<Rightarrow> bool" where
  "validateFocusState s \<longleftrightarrow> f_magic s = kFocusStateMagic \<and> f_bytes s = 48
     \<and> f_schemaVersion s = kFocusStateSchemaVersion \<and> f_crc32 s = focusStateCrc s
     \<and> validStateSemantics s"

definition recoveredElapsed :: "FocusState \<Rightarrow> u64 \<Rightarrow> u32" where
  "recoveredElapsed s currentUnixSeconds =
     (let totalDuration = totalMs s in
      if f_anchorUnixSeconds s = 0 then f_elapsedMs s
      else let deltaSeconds = currentUnixSeconds - f_anchorUnixSeconds s;
               remaining = totalDuration - f_anchorElapsedMs s;
               secondsToEnd = (ucast remaining + 999) div 1000 :: u64;
               fromUnix = (if deltaSeconds < secondsToEnd
                 then f_anchorElapsedMs s + ucast (deltaSeconds * 1000) else totalDuration)
           in if fromUnix > f_elapsedMs s then fromUnix else f_elapsedMs s)"

definition initializeUpdate :: "Phase \<Rightarrow> Update" where
  "initializeUpdate p = \<lparr>up_before = p, up_after = p, up_changed = False, up_focusCompleted = False,
     up_sessionCompleted = False, up_recommendPulseBreathing = False\<rparr>"

subsection \<open>The session\<close>

definition fs_phase :: "FocusSession \<Rightarrow> Phase" where "fs_phase s = f_phase (fs_state s)"

definition refreshCrc :: "FocusSession \<Rightarrow> FocusSession" where
  "refreshCrc s = s\<lparr>fs_state := (fs_state s)\<lparr>f_crc32 := focusStateCrc (fs_state s)\<rparr>\<rparr>"

definition bumpSequence :: "FocusSession \<Rightarrow> FocusSession" where
  "bumpSequence s = (let n = f_sequence (fs_state s) + 1 in
     s\<lparr>fs_state := (fs_state s)\<lparr>f_sequence := if n = 0 then 1 else n\<rparr>\<rparr>)"

definition arm :: "u32 \<Rightarrow> FocusSession \<Rightarrow> FocusSession" where
  "arm monotonicMs s = s\<lparr>fs_bootAnchorMs := monotonicMs,
     fs_bootAnchorElapsedMs := f_elapsedMs (fs_state s), fs_timingArmed := True\<rparr>"

definition disarm :: "FocusSession \<Rightarrow> FocusSession" where
  "disarm s = s\<lparr>fs_bootAnchorMs := 0, fs_bootAnchorElapsedMs := 0, fs_timingArmed := False\<rparr>"

definition fs_reset :: "FocusSession \<Rightarrow> FocusSession" where
  "fs_reset s = refreshCrc (disarm (s\<lparr>fs_state := focus_state0\<rparr>))"

definition focus_new :: FocusSession where
  "focus_new = fs_reset \<lparr>fs_state = focus_state0, fs_bootAnchorMs = 0, fs_bootAnchorElapsedMs = 0,
     fs_timingArmed = False\<rparr>"

definition focus_started :: "StartRequest \<Rightarrow> u16 \<Rightarrow> u16 \<Rightarrow> ClockSample \<Rightarrow> FocusState \<Rightarrow> FocusState" where
  "focus_started r requestedFocus requestedBreak clock st =
     (let started = focus_state0\<lparr>f_phase := PhaseFocus, f_durationKind := rq_duration r,
            f_completionKind := CompletionNone, f_focusMinutes := requestedFocus,
            f_breakMinutes := requestedBreak, f_sessionId := rq_sessionId r,
            f_sequence := f_sequence st\<rparr>
      in if cs_unixTrusted clock then started\<lparr>f_anchorUnixSeconds := cs_unixSeconds clock\<rparr> else started)"

definition fs_start :: "StartRequest \<Rightarrow> ClockSample \<Rightarrow> FocusSession \<Rightarrow> FocusStatus \<times> Update \<times> FocusSession" where
  "fs_start r clock s =
     (let update = initializeUpdate (fs_phase s) in
      case (if rq_sessionId r = 0 then None else normalizeDuration r) of
        None \<Rightarrow> (InvalidArgument, update, s)
      | Some (requestedFocus, requestedBreak) \<Rightarrow>
        if f_sessionId (fs_state s) = rq_sessionId r then
          (if f_durationKind (fs_state s) = rq_duration r \<and> f_focusMinutes (fs_state s) = requestedFocus
              \<and> f_breakMinutes (fs_state s) = requestedBreak then Duplicate else Conflict, update, s)
        else if fs_phase s \<noteq> PhaseIdle then (Busy, update, s)
        else if \<not> validateClock clock then (InvalidClock, update, s)
        else (FocusOk, update\<lparr>up_changed := True, up_after := PhaseFocus\<rparr>,
              arm (cs_monotonicMs clock) (refreshCrc (bumpSequence (s\<lparr>fs_state :=
                focus_started r requestedFocus requestedBreak clock (fs_state s)\<rparr>)))))"

definition applyElapsed :: "u32 \<Rightarrow> Update \<Rightarrow> FocusSession \<Rightarrow> Update \<times> FocusSession" where
  "applyElapsed elapsedMs update s =
     (let oldPhase = fs_phase s; focusDuration = focusMs (fs_state s);
          totalDuration = totalMs (fs_state s);
          s = s\<lparr>fs_state := (fs_state s)\<lparr>f_elapsedMs :=
                (if elapsedMs > totalDuration then totalDuration else elapsedMs)\<rparr>\<rparr>;
          (newPhase, s) =
            (if f_elapsedMs (fs_state s) \<ge> totalDuration then
               (PhaseCompleted, disarm (s\<lparr>fs_state := (fs_state s)\<lparr>f_completionKind := CompletionNatural,
                  f_anchorElapsedMs := 0, f_anchorUnixSeconds := 0\<rparr>\<rparr>))
             else if f_elapsedMs (fs_state s) \<ge> focusDuration then (PhaseBreak, s)
             else (PhaseFocus, s));
          s = s\<lparr>fs_state := (fs_state s)\<lparr>f_phase := newPhase\<rparr>\<rparr>
      in (update\<lparr>up_after := newPhase,
            up_focusCompleted := oldPhase = PhaseFocus \<and> newPhase \<noteq> PhaseFocus,
            up_sessionCompleted := newPhase = PhaseCompleted \<and> oldPhase \<noteq> PhaseCompleted,
            up_recommendPulseBreathing := oldPhase = PhaseFocus \<and> newPhase = PhaseBreak\<rparr>, s))"

text \<open>The comparison that decides whether a state is to be saved again.\<close>

definition state_changed :: "FocusState \<Rightarrow> FocusState \<Rightarrow> bool" where
  "state_changed a b \<longleftrightarrow> f_elapsedMs a \<noteq> f_elapsedMs b \<or> f_phase a \<noteq> f_phase b
     \<or> f_completionKind a \<noteq> f_completionKind b \<or> f_anchorElapsedMs a \<noteq> f_anchorElapsedMs b
     \<or> f_anchorUnixSeconds a \<noteq> f_anchorUnixSeconds b"

definition fs_tick :: "ClockSample \<Rightarrow> FocusSession \<Rightarrow> FocusStatus \<times> Update \<times> FocusSession" where
  "fs_tick clock s =
     (let update = initializeUpdate (fs_phase s) in
      if fs_phase s \<noteq> PhaseFocus \<and> fs_phase s \<noteq> PhaseBreak then (FocusOk, update, s)
      else if \<not> validateClock clock then (InvalidClock, update, s)
      else if cs_unixTrusted clock \<and> f_anchorUnixSeconds (fs_state s) \<noteq> 0
           \<and> cs_unixSeconds clock < f_anchorUnixSeconds (fs_state s) then (ClockRollback, update, s)
      else if \<not> fs_timingArmed s then (InvalidClock, update, s)
      else let monotonicDelta = cs_monotonicMs clock - fs_bootAnchorMs s in
      if monotonicDelta > kMaximumMonotonicDelta then (ClockRollback, update, s)
      else let totalDuration = totalMs (fs_state s);
               elapsed = (if monotonicDelta < totalDuration - fs_bootAnchorElapsedMs s
                 then fs_bootAnchorElapsedMs s + monotonicDelta else totalDuration);
               beforeState = fs_state s;
               (update, s) = applyElapsed elapsed update s;
               s = (if (fs_phase s = PhaseFocus \<or> fs_phase s = PhaseBreak) \<and> cs_unixTrusted clock
                 then s\<lparr>fs_state := (fs_state s)\<lparr>f_anchorUnixSeconds := cs_unixSeconds clock,
                        f_anchorElapsedMs := f_elapsedMs (fs_state s)\<rparr>\<rparr> else s)
           in if state_changed (fs_state s) beforeState
              then (FocusOk, update\<lparr>up_changed := True\<rparr>, refreshCrc (bumpSequence s))
              else (FocusOk, update, s))"

text \<open>The common tail of \<^verbatim>\<open>stop\<close> and \<^verbatim>\<open>cancel\<close>, which differ in the phase and the kind.\<close>

definition fs_finish :: "Phase \<Rightarrow> CompletionKind \<Rightarrow> u64 \<Rightarrow> ClockSample \<Rightarrow> FocusSession
    \<Rightarrow> FocusStatus \<times> Update \<times> FocusSession" where
  "fs_finish p kind sessionId clock s =
     (let update = initializeUpdate (fs_phase s) in
      if sessionId = 0 \<or> sessionId \<noteq> f_sessionId (fs_state s) then (WrongSession, update, s)
      else if fs_phase s \<noteq> PhaseFocus \<and> fs_phase s \<noteq> PhaseBreak then (WrongPhase, update, s)
      else let (tickStatus, update, s) = fs_tick clock s in
      if tickStatus \<noteq> FocusOk \<or> fs_phase s = PhaseCompleted then (tickStatus, update, s)
      else (FocusOk, update\<lparr>up_changed := True, up_after := p, up_sessionCompleted := False,
              up_recommendPulseBreathing := False\<rparr>,
            refreshCrc (bumpSequence (disarm (s\<lparr>fs_state := (fs_state s)\<lparr>f_phase := p,
              f_completionKind := kind, f_anchorElapsedMs := 0, f_anchorUnixSeconds := 0\<rparr>\<rparr>)))))"

definition fs_stop :: "u64 \<Rightarrow> ClockSample \<Rightarrow> FocusSession \<Rightarrow> FocusStatus \<times> Update \<times> FocusSession" where
  "fs_stop = fs_finish PhaseCompleted CompletionStopped"

definition fs_cancel :: "u64 \<Rightarrow> ClockSample \<Rightarrow> FocusSession \<Rightarrow> FocusStatus \<times> Update \<times> FocusSession" where
  "fs_cancel = fs_finish PhaseIdle CompletionCancelled"

definition fs_acknowledge :: "u64 \<Rightarrow> FocusSession \<Rightarrow> FocusStatus \<times> FocusSession" where
  "fs_acknowledge sessionId s =
     (if sessionId = 0 \<or> sessionId \<noteq> f_sessionId (fs_state s) then (WrongSession, s)
      else if fs_phase s \<noteq> PhaseCompleted then (WrongPhase, s)
      else (FocusOk, refreshCrc (bumpSequence (s\<lparr>fs_state := (fs_state s)\<lparr>f_phase := PhaseIdle\<rparr>\<rparr>))))"

definition fs_restore :: "FocusState \<Rightarrow> ClockSample \<Rightarrow> FocusSession \<Rightarrow> RestoreStatus \<times> Update \<times> FocusSession" where
  "fs_restore saved clock s =
     (let update = initializeUpdate (fs_phase s) in
      if f_magic saved \<noteq> kFocusStateMagic then (BadMagic, update, s)
      else if f_bytes saved \<noteq> 48 \<or> f_schemaVersion saved \<noteq> kFocusStateSchemaVersion
      then (UnsupportedSchema, update, s)
      else if f_crc32 saved \<noteq> focusStateCrc saved then (BadCrc, update, s)
      else if \<not> validStateSemantics saved then (InvalidState, update, s)
      else let update = initializeUpdate (f_phase saved);
               active = f_phase saved = PhaseFocus \<or> f_phase saved = PhaseBreak in
      if active \<and> \<not> validateClock clock then (RestoreInvalidClock, update, s)
      else if active \<and> cs_unixTrusted clock \<and> f_anchorUnixSeconds saved \<noteq> 0
           \<and> cs_unixSeconds clock < f_anchorUnixSeconds saved then (RestoreClockRollback, update, s)
      else let s = disarm (s\<lparr>fs_state := saved\<rparr>);
               (update, s) =
                 (if active then
                    (let elapsed = (if cs_unixTrusted clock
                           then recoveredElapsed saved (cs_unixSeconds clock) else f_elapsedMs saved);
                         (update, s) = applyElapsed elapsed update s
                     in if fs_phase s = PhaseFocus \<or> fs_phase s = PhaseBreak then
                          (update, arm (cs_monotonicMs clock) (s\<lparr>fs_state :=
                             (if cs_unixTrusted clock
                              then (fs_state s)\<lparr>f_anchorUnixSeconds := cs_unixSeconds clock,
                                     f_anchorElapsedMs := f_elapsedMs (fs_state s)\<rparr>
                              else (fs_state s)\<lparr>f_anchorUnixSeconds := 0, f_anchorElapsedMs := 0\<rparr>)\<rparr>))
                        else (update, s))
                  else (update, s))
           in if state_changed (fs_state s) saved
              then (RestoreOk, update\<lparr>up_changed := True\<rparr>, refreshCrc (bumpSequence s))
              else (RestoreOk, update, s))"

subsection \<open>Views\<close>

record Prompt =
  pr_title :: string
  pr_detail :: string
  pr_recommendPulseBreathing :: bool

definition fs_prompt :: "FocusSession \<Rightarrow> Prompt" where
  "fs_prompt s =
     (if fs_phase s = PhaseFocus then
        \<lparr>pr_title = ''FOCUS TIME'', pr_detail = ''STAY WITH IT'', pr_recommendPulseBreathing = False\<rparr>
      else if fs_phase s = PhaseBreak then
        \<lparr>pr_title = ''FOCUS COMPLETE'', pr_detail = ''TRY PULSE BREATHING'', pr_recommendPulseBreathing = True\<rparr>
      else if fs_phase s = PhaseCompleted then
        (if f_completionKind (fs_state s) = CompletionStopped then
           \<lparr>pr_title = ''SESSION STOPPED'', pr_detail = ''READY WHEN YOU ARE'', pr_recommendPulseBreathing = False\<rparr>
         else \<lparr>pr_title = ''SESSION COMPLETE'', pr_detail = ''NICE WORK'', pr_recommendPulseBreathing = False\<rparr>)
      else \<lparr>pr_title = '''', pr_detail = '''', pr_recommendPulseBreathing = False\<rparr>)"

record View =
  vw_phase :: Phase
  vw_duration :: DurationKind
  vw_completion :: CompletionKind
  vw_sessionId :: u64
  vw_focusMinutes :: u16
  vw_breakMinutes :: u16
  vw_elapsedMs :: u32
  vw_remainingMs :: u32
  vw_sequence :: u32
  vw_prompt :: Prompt

definition fs_view :: "FocusSession \<Rightarrow> View" where
  "fs_view s = \<lparr>vw_phase = fs_phase s, vw_duration = f_durationKind (fs_state s),
     vw_completion = f_completionKind (fs_state s), vw_sessionId = f_sessionId (fs_state s),
     vw_focusMinutes = f_focusMinutes (fs_state s), vw_breakMinutes = f_breakMinutes (fs_state s),
     vw_elapsedMs = f_elapsedMs (fs_state s),
     vw_remainingMs = (if fs_phase s = PhaseFocus \<or> fs_phase s = PhaseBreak
       then totalMs (fs_state s) - f_elapsedMs (fs_state s) else 0),
     vw_sequence = f_sequence (fs_state s), vw_prompt = fs_prompt s\<rparr>"

subsection \<open>Durations and validity\<close>

lemma normalizeDuration_bounds:
  assumes "normalizeDuration r = Some (f, b)"
  shows "5 \<le> unat f" "unat f \<le> 120" "b = recommendedBreakMinutes f" "5 \<le> unat b" "unat b \<le> 15"
    "rq_duration r \<le> 2"
  using assms
  by (auto simp: normalizeDuration_def recommendedBreakMinutes_def focus_consts word_le_nat_alt
      word_less_nat_alt not_less split: if_splits)

lemma unat_durationMs:
  assumes "unat m \<le> 135"
  shows "unat (durationMs m) = 60000 * unat m"
proof -
  have u: "unat (ucast m :: u32) = unat m"
    using assms by (simp add: unsigned_ucast_eq take_bit_nat_eq_self)
  have "unat (durationMs m) = (unat m * 60000) mod 4294967296"
    by (simp add: durationMs_def focus_consts unat_word_ariths u)
  then show ?thesis using assms by simp
qed

lemma stored_minutes:
  assumes "validStoredDuration s"
  shows "5 \<le> unat (f_focusMinutes s)" "unat (f_focusMinutes s) \<le> 120"
    "5 \<le> unat (f_breakMinutes s)" "unat (f_breakMinutes s) \<le> 15" "f_durationKind s \<le> 2"
  using normalizeDuration_bounds [OF assms [unfolded validStoredDuration_def]] by simp_all

lemma stored_durations:
  assumes "validStoredDuration s"
  shows "unat (focusMs s) = 60000 * unat (f_focusMinutes s)"
    and "unat (totalMs s) = 60000 * (unat (f_focusMinutes s) + unat (f_breakMinutes s))"
    and "focusMs s < totalMs s" and "0 < focusMs s" and "unat (totalMs s) \<le> 8100000"
proof -
  note m = stored_minutes [OF assms]
  have sum: "unat (f_focusMinutes s + f_breakMinutes s) = unat (f_focusMinutes s) + unat (f_breakMinutes s)"
    using m by (intro unat_plus_small) simp
  show f: "unat (focusMs s) = 60000 * unat (f_focusMinutes s)"
    using m by (simp add: focusMs_def unat_durationMs)
  show t: "unat (totalMs s) = 60000 * (unat (f_focusMinutes s) + unat (f_breakMinutes s))"
    using m by (simp add: totalMs_def unat_durationMs sum)
  show "focusMs s < totalMs s" "0 < focusMs s" "unat (totalMs s) \<le> 8100000"
    using m by (simp_all add: word_less_nat_alt f t)
qed

definition no_anchor :: "FocusState \<Rightarrow> bool" where
  "no_anchor s \<longleftrightarrow> f_anchorElapsedMs s = 0 \<and> f_anchorUnixSeconds s = 0"

definition anchor_ok :: "FocusState \<Rightarrow> bool" where
  "anchor_ok s \<longleftrightarrow> no_anchor s
     \<or> validTrustedUnix (f_anchorUnixSeconds s) \<and> f_anchorElapsedMs s \<le> f_elapsedMs s"

definition phase_ok :: "FocusState \<Rightarrow> bool" where
  "phase_ok s \<longleftrightarrow>
     f_phase s = PhaseFocus \<and> f_completionKind s = CompletionNone \<and> f_elapsedMs s < focusMs s
   \<or> f_phase s = PhaseBreak \<and> f_completionKind s = CompletionNone \<and> focusMs s \<le> f_elapsedMs s
       \<and> f_elapsedMs s < totalMs s
   \<or> (f_phase s = PhaseCompleted \<or> f_phase s = PhaseIdle) \<and> no_anchor s
       \<and> (f_completionKind s = CompletionNatural \<and> f_elapsedMs s = totalMs s
        \<or> f_completionKind s = CompletionStopped \<and> f_elapsedMs s < totalMs s
        \<or> f_phase s = PhaseIdle \<and> f_completionKind s = CompletionCancelled \<and> f_elapsedMs s < totalMs s)"

text \<open>What the validation of a stored session amounts to.\<close>

lemma validStateSemantics_iff:
  assumes "f_sessionId s \<noteq> 0"
  shows "validStateSemantics s \<longleftrightarrow> f_reserved s = 0 \<and> f_sequence s \<noteq> 0 \<and> validStoredDuration s
    \<and> anchor_ok s \<and> phase_ok s"
proof (cases "f_reserved s = 0 \<and> f_sequence s \<noteq> 0 \<and> validStoredDuration s")
  case False
  then show ?thesis using assms by (auto simp: validStateSemantics_def)
next
  case True
  note d = stored_minutes(5) [of s] stored_durations(3) [of s]
  have u0: "\<not> validTrustedUnix 0" by (simp add: validTrustedUnix_def focus_consts)
  have anchor: "anchor_ok s \<longleftrightarrow> f_anchorElapsedMs s \<le> f_elapsedMs s
      \<and> (if f_anchorUnixSeconds s = 0 then f_anchorElapsedMs s = 0 else validTrustedUnix (f_anchorUnixSeconds s))"
    using u0 by (auto simp: anchor_ok_def no_anchor_def)
  have le: "f_elapsedMs s \<le> totalMs s" if "phase_ok s"
    using that d True by (auto simp: phase_ok_def)
  have ph: "validPhase (f_phase s) \<and> validCompletionKind (f_completionKind s)" if "phase_ok s"
    using that by (auto simp: phase_ok_def validPhase_def validCompletionKind_def)
  show ?thesis
  proof
    assume "validStateSemantics s"
    then show "f_reserved s = 0 \<and> f_sequence s \<noteq> 0 \<and> validStoredDuration s \<and> anchor_ok s \<and> phase_ok s"
      using assms True unfolding anchor validStateSemantics_def phase_ok_def no_anchor_def
      by (simp add: not_less split: if_splits)
  next
    assume "f_reserved s = 0 \<and> f_sequence s \<noteq> 0 \<and> validStoredDuration s \<and> anchor_ok s \<and> phase_ok s"
    then have a: "anchor_ok s" and p: "phase_ok s" by blast+
    have "validDurationKind (f_durationKind s)" using d(1) True by (simp add: validDurationKind_def)
    with a p le [OF p] ph [OF p] show "validStateSemantics s"
      using assms True unfolding anchor validStateSemantics_def
      by (auto simp: phase_ok_def no_anchor_def not_less)
  qed
qed

lemma validStateSemantics_zero:
  assumes "f_sessionId s = 0"
  shows "validStateSemantics s \<longleftrightarrow> f_reserved s = 0 \<and> f_durationKind s \<le> 2 \<and> f_phase s = PhaseIdle
    \<and> f_completionKind s = CompletionNone \<and> f_focusMinutes s = 0 \<and> f_breakMinutes s = 0
    \<and> f_elapsedMs s = 0 \<and> f_anchorElapsedMs s = 0 \<and> f_anchorUnixSeconds s = 0 \<and> f_sequence s = 0"
  using assms by (auto simp: validStateSemantics_def validPhase_def validDurationKind_def validCompletionKind_def)

subsection \<open>The session invariant\<close>

definition active_state :: "FocusState \<Rightarrow> bool" where
  "active_state st \<longleftrightarrow> f_phase st = PhaseFocus \<or> f_phase st = PhaseBreak"

text \<open>A session record that is valid once its sequence number and checksum are set.\<close>

definition session_ok :: "FocusState \<Rightarrow> bool" where
  "session_ok st \<longleftrightarrow> f_magic st = kFocusStateMagic \<and> f_bytes st = 48
     \<and> f_schemaVersion st = kFocusStateSchemaVersion \<and> f_sessionId st \<noteq> 0 \<and> f_reserved st = 0
     \<and> validStoredDuration st \<and> anchor_ok st \<and> phase_ok st"

definition focus_inv :: "FocusSession \<Rightarrow> bool" where
  "focus_inv s \<longleftrightarrow> validateFocusState (fs_state s)
     \<and> (fs_timingArmed s \<longleftrightarrow> active_state (fs_state s))
     \<and> (fs_timingArmed s \<longrightarrow> fs_bootAnchorElapsedMs s \<le> f_elapsedMs (fs_state s))"

lemma focusStateCrc_crc [simp]: "focusStateCrc (st\<lparr>f_crc32 := c\<rparr>) = focusStateCrc st"
  by (simp add: focusStateCrc_def focus_image_def)

text \<open>The parts of the validity of a record do not depend on its sequence number and checksum.\<close>

lemma seal_frame [simp]:
  "focusMs (st\<lparr>f_sequence := n\<rparr>) = focusMs st" "totalMs (st\<lparr>f_sequence := n\<rparr>) = totalMs st"
  "focusMs (st\<lparr>f_crc32 := c\<rparr>) = focusMs st" "totalMs (st\<lparr>f_crc32 := c\<rparr>) = totalMs st"
  "session_ok (st\<lparr>f_sequence := n\<rparr>) = session_ok st" "session_ok (st\<lparr>f_crc32 := c\<rparr>) = session_ok st"
  "active_state (st\<lparr>f_sequence := n\<rparr>) = active_state st" "active_state (st\<lparr>f_crc32 := c\<rparr>) = active_state st"
  by (simp_all add: focusMs_def totalMs_def session_ok_def validStoredDuration_def anchor_ok_def
      phase_ok_def no_anchor_def active_state_def)

lemma sealed_state: "fs_state (refreshCrc (bumpSequence s)) =
   (let st = (fs_state s)\<lparr>f_sequence := if f_sequence (fs_state s) + 1 = 0 then 1 else f_sequence (fs_state s) + 1\<rparr>
    in st\<lparr>f_crc32 := focusStateCrc st\<rparr>)"
  by (simp add: refreshCrc_def bumpSequence_def Let_def)

lemma sealed_frame [simp]:
  "fs_timingArmed (refreshCrc (bumpSequence s)) = fs_timingArmed s"
  "fs_bootAnchorMs (refreshCrc (bumpSequence s)) = fs_bootAnchorMs s"
  "fs_bootAnchorElapsedMs (refreshCrc (bumpSequence s)) = fs_bootAnchorElapsedMs s"
  "f_elapsedMs (fs_state (refreshCrc (bumpSequence s))) = f_elapsedMs (fs_state s)"
  "f_phase (fs_state (refreshCrc (bumpSequence s))) = f_phase (fs_state s)"
  "f_completionKind (fs_state (refreshCrc (bumpSequence s))) = f_completionKind (fs_state s)"
  "f_sessionId (fs_state (refreshCrc (bumpSequence s))) = f_sessionId (fs_state s)"
  "f_durationKind (fs_state (refreshCrc (bumpSequence s))) = f_durationKind (fs_state s)"
  "f_focusMinutes (fs_state (refreshCrc (bumpSequence s))) = f_focusMinutes (fs_state s)"
  "f_breakMinutes (fs_state (refreshCrc (bumpSequence s))) = f_breakMinutes (fs_state s)"
  "f_anchorUnixSeconds (fs_state (refreshCrc (bumpSequence s))) = f_anchorUnixSeconds (fs_state s)"
  "f_anchorElapsedMs (fs_state (refreshCrc (bumpSequence s))) = f_anchorElapsedMs (fs_state s)"
  "active_state (fs_state (refreshCrc (bumpSequence s))) = active_state (fs_state s)"
  "session_ok (fs_state (refreshCrc (bumpSequence s))) = session_ok (fs_state s)"
  by (simp_all add: refreshCrc_def bumpSequence_def Let_def)

lemma session_ok_valid:
  "session_ok st \<Longrightarrow> f_sequence st \<noteq> 0 \<Longrightarrow> f_crc32 st = focusStateCrc st \<Longrightarrow> validateFocusState st"
  by (simp add: session_ok_def validateFocusState_def validStateSemantics_iff)

lemma valid_session_ok: "validateFocusState st \<Longrightarrow> f_sessionId st \<noteq> 0 \<Longrightarrow> session_ok st"
  by (simp add: session_ok_def validateFocusState_def validStateSemantics_iff)

lemma valid_active:
  assumes "validateFocusState st" and "active_state st"
  shows "session_ok st"
proof (cases "f_sessionId st = 0")
  case True
  with assms show ?thesis by (simp add: validateFocusState_def validStateSemantics_zero active_state_def)
qed (use assms valid_session_ok in blast)

lemma sealed_valid: "session_ok (fs_state s) \<Longrightarrow> validateFocusState (fs_state (refreshCrc (bumpSequence s)))"
  by (rule session_ok_valid) (simp_all add: sealed_state Let_def)

subsection \<open>Time\<close>

definition applied :: "u32 \<Rightarrow> FocusState \<Rightarrow> FocusState" where
  "applied e st = (if totalMs st \<le> e
     then st\<lparr>f_elapsedMs := totalMs st, f_completionKind := CompletionNatural, f_anchorElapsedMs := 0,
             f_anchorUnixSeconds := 0, f_phase := PhaseCompleted\<rparr>
     else st\<lparr>f_elapsedMs := e, f_phase := if focusMs st \<le> e then PhaseBreak else PhaseFocus\<rparr>)"

lemma applyElapsed_state:
  "snd (applyElapsed e u s) = (if totalMs (fs_state s) \<le> e
     then disarm (s\<lparr>fs_state := applied e (fs_state s)\<rparr>) else s\<lparr>fs_state := applied e (fs_state s)\<rparr>)"
  by (auto simp: applyElapsed_def applied_def Let_def disarm_def)

lemma applied_phase:
  "f_phase (applied e st) = (if totalMs st \<le> e then PhaseCompleted else if focusMs st \<le> e then PhaseBreak else PhaseFocus)"
  "f_elapsedMs (applied e st) = min e (totalMs st)"
  "active_state (applied e st) \<longleftrightarrow> \<not> totalMs st \<le> e"
  by (auto simp: applied_def min_def active_state_def)

lemma applied_frame:
  "f_sessionId (applied e st) = f_sessionId st" "f_durationKind (applied e st) = f_durationKind st"
  "f_focusMinutes (applied e st) = f_focusMinutes st" "f_breakMinutes (applied e st) = f_breakMinutes st"
  "f_sequence (applied e st) = f_sequence st" "f_crc32 (applied e st) = f_crc32 st"
  "focusMs (applied e st) = focusMs st" "totalMs (applied e st) = totalMs st"
  by (simp_all add: applied_def focusMs_def totalMs_def)

lemma applied_ok:
  assumes "session_ok st" and "active_state st" and "f_elapsedMs st \<le> e"
  shows "session_ok (applied e st)"
proof -
  have d: "validStoredDuration st" "focusMs st < totalMs st"
    using assms(1) stored_durations(3) by (simp_all add: session_ok_def)
  have c: "f_completionKind st = CompletionNone"
    using assms(1,2) by (auto simp: session_ok_def phase_ok_def active_state_def)
  have a: "anchor_ok st" using assms(1) by (simp add: session_ok_def)
  then have "anchor_ok (applied e st)"
    using assms(3) by (auto simp: applied_def anchor_ok_def no_anchor_def)
  moreover have "phase_ok (applied e st)"
    using d c by (auto simp: phase_ok_def applied_def no_anchor_def focusMs_def totalMs_def)
  moreover have "validStoredDuration (applied e st)"
    using d(1) unfolding validStoredDuration_def applied_frame .
  ultimately show ?thesis using assms(1) by (simp add: session_ok_def applied_def)
qed

lemma reanchor_ok:
  assumes "session_ok st" and "active_state st" and "validTrustedUnix u"
  shows "session_ok (st\<lparr>f_anchorUnixSeconds := u, f_anchorElapsedMs := f_elapsedMs st\<rparr>)"
  using assms
  by (auto simp: session_ok_def anchor_ok_def phase_ok_def active_state_def validStoredDuration_def
      focusMs_def totalMs_def)

lemma unanchor_ok:
  assumes "session_ok st" and "active_state st"
  shows "session_ok (st\<lparr>f_anchorUnixSeconds := 0, f_anchorElapsedMs := 0\<rparr>)"
  using assms
  by (auto simp: session_ok_def anchor_ok_def no_anchor_def phase_ok_def active_state_def
      validStoredDuration_def focusMs_def totalMs_def)

lemma finish_ok:
  assumes "session_ok st" and "active_state st"
    and "p = PhaseCompleted \<and> k = CompletionStopped \<or> p = PhaseIdle \<and> k = CompletionCancelled"
  shows "session_ok (st\<lparr>f_phase := p, f_completionKind := k, f_anchorElapsedMs := 0, f_anchorUnixSeconds := 0\<rparr>)"
proof -
  have "f_elapsedMs st < totalMs st"
    using assms(1,2) stored_durations(3) [of st]
    by (auto simp: session_ok_def phase_ok_def active_state_def)
  then show ?thesis using assms
    by (auto simp: session_ok_def anchor_ok_def no_anchor_def phase_ok_def validStoredDuration_def
        focusMs_def totalMs_def)
qed

text \<open>
  The elapsed time a tick computes from the monotonic counter: it never goes back and never
  passes the total, as long as the counter has advanced at least as far as the elapsed time
  already recorded.
\<close>

definition tick_elapsed :: "ClockSample \<Rightarrow> FocusSession \<Rightarrow> u32" where
  "tick_elapsed clock s =
     (if cs_monotonicMs clock - fs_bootAnchorMs s < totalMs (fs_state s) - fs_bootAnchorElapsedMs s
      then fs_bootAnchorElapsedMs s + (cs_monotonicMs clock - fs_bootAnchorMs s) else totalMs (fs_state s))"

definition clock_forward :: "ClockSample \<Rightarrow> FocusSession \<Rightarrow> bool" where
  "clock_forward clock s \<longleftrightarrow> (fs_timingArmed s \<longrightarrow>
     f_elapsedMs (fs_state s) - fs_bootAnchorElapsedMs s \<le> cs_monotonicMs clock - fs_bootAnchorMs s)"

lemma elapsed_bounds:
  fixes b el tot d :: u32
  assumes "b \<le> el" "el \<le> tot" "el - b \<le> d"
  shows "el \<le> (if d < tot - b then b + d else tot)" and "(if d < tot - b then b + d else tot) \<le> tot"
    and "unat (if d < tot - b then b + d else tot) = min (unat b + unat d) (unat tot)"
proof -
  have bt: "b \<le> tot" using assms(1,2) by (rule order_trans)
  have u1: "unat (el - b) = unat el - unat b" "unat (tot - b) = unat tot - unat b"
    using assms(1) bt by (simp_all add: unat_sub)
  have le: "unat b \<le> unat el" "unat el \<le> unat tot" "unat el - unat b \<le> unat d"
    using assms u1 by (simp_all add: word_le_nat_alt)
  have s: "unat (b + d) = unat b + unat d" if "d < tot - b"
    using that u1(2) unat32_lt [of tot] by (intro unat_plus_small) (simp add: word_less_nat_alt)
  show eq: "unat (if d < tot - b then b + d else tot) = min (unat b + unat d) (unat tot)"
    using s u1(2) le by (simp add: word_less_nat_alt min_def) linarith
  show "el \<le> (if d < tot - b then b + d else tot)" "(if d < tot - b then b + d else tot) \<le> tot"
    using le unfolding word_le_nat_alt eq by linarith+
qed

lemma tick_elapsed_bounds:
  assumes "focus_inv s" and "clock_forward clock s" and "fs_timingArmed s"
  shows "f_elapsedMs (fs_state s) \<le> tick_elapsed clock s"
    and "unat (tick_elapsed clock s) = min (unat (fs_bootAnchorElapsedMs s)
        + unat (cs_monotonicMs clock - fs_bootAnchorMs s)) (unat (totalMs (fs_state s)))"
proof -
  have "session_ok (fs_state s)" using assms(1,3) valid_active by (auto simp: focus_inv_def)
  then have "f_elapsedMs (fs_state s) \<le> totalMs (fs_state s)"
    using stored_durations(3) [of "fs_state s"] by (auto simp: session_ok_def phase_ok_def)
  moreover have "fs_bootAnchorElapsedMs s \<le> f_elapsedMs (fs_state s)"
    using assms(1,3) by (simp add: focus_inv_def)
  moreover have "f_elapsedMs (fs_state s) - fs_bootAnchorElapsedMs s \<le> cs_monotonicMs clock - fs_bootAnchorMs s"
    using assms(2,3) by (simp add: clock_forward_def)
  ultimately show "f_elapsedMs (fs_state s) \<le> tick_elapsed clock s"
    and "unat (tick_elapsed clock s) = min (unat (fs_bootAnchorElapsedMs s)
        + unat (cs_monotonicMs clock - fs_bootAnchorMs s)) (unat (totalMs (fs_state s)))"
    unfolding tick_elapsed_def by (blast intro: elapsed_bounds(1), blast intro: elapsed_bounds(3))
qed

subsection \<open>Every operation keeps the invariant\<close>

text \<open>Two records that agree on what the timer never touches.\<close>

definition same_session :: "FocusState \<Rightarrow> FocusState \<Rightarrow> bool" where
  "same_session a b \<longleftrightarrow> f_magic a = f_magic b \<and> f_bytes a = f_bytes b
     \<and> f_schemaVersion a = f_schemaVersion b \<and> f_durationKind a = f_durationKind b
     \<and> f_focusMinutes a = f_focusMinutes b \<and> f_breakMinutes a = f_breakMinutes b
     \<and> f_reserved a = f_reserved b \<and> f_sessionId a = f_sessionId b
     \<and> f_sequence a = f_sequence b \<and> f_crc32 a = f_crc32 b"

lemma unchanged_eq: "same_session a b \<Longrightarrow> \<not> state_changed a b \<Longrightarrow> a = b"
  by (simp add: same_session_def state_changed_def)

lemma same_session_applied: "same_session (applied e st) st"
  by (simp add: same_session_def applied_def)

lemma same_session_anchor:
  "same_session (a\<lparr>f_anchorUnixSeconds := u, f_anchorElapsedMs := m\<rparr>) b = same_session a b"
  by (simp add: same_session_def)

text \<open>The state after the timed part of a tick or a restore, before it is sealed.\<close>

definition timed :: "ClockSample \<Rightarrow> u32 \<Rightarrow> FocusState \<Rightarrow> FocusState" where
  "timed clock e st = (let st = applied e st in
     if active_state st \<and> cs_unixTrusted clock
     then st\<lparr>f_anchorUnixSeconds := cs_unixSeconds clock, f_anchorElapsedMs := f_elapsedMs st\<rparr> else st)"

lemma timed_frame:
  "f_elapsedMs (timed clock e st) = min e (totalMs st)"
  "f_phase (timed clock e st) = f_phase (applied e st)"
  "f_completionKind (timed clock e st) = f_completionKind (applied e st)"
  "active_state (timed clock e st) \<longleftrightarrow> \<not> totalMs st \<le> e"
  "f_sessionId (timed clock e st) = f_sessionId st"
  "same_session (timed clock e st) st"
  by (simp_all add: timed_def Let_def applied_phase applied_frame same_session_anchor same_session_applied)
    (simp_all add: active_state_def applied_phase)

lemma timed_ok:
  assumes "session_ok st" and "active_state st" and "f_elapsedMs st \<le> e" and "validateClock clock"
  shows "session_ok (timed clock e st)"
  using applied_ok [OF assms(1-3)] assms(4)
  by (auto simp: timed_def Let_def validateClock_def intro: reanchor_ok)

lemma tick_result:
  assumes "focus_inv s" and "active_state (fs_state s)" and "validateClock clock"
    and "\<not> (cs_unixTrusted clock \<and> f_anchorUnixSeconds (fs_state s) \<noteq> 0
           \<and> cs_unixSeconds clock < f_anchorUnixSeconds (fs_state s))"
    and "cs_monotonicMs clock - fs_bootAnchorMs s \<le> 0x7FFFFFFF"
  defines "e \<equiv> tick_elapsed clock s"
  defines "s1 \<equiv> (if totalMs (fs_state s) \<le> e then disarm (s\<lparr>fs_state := timed clock e (fs_state s)\<rparr>)
              else s\<lparr>fs_state := timed clock e (fs_state s)\<rparr>)"
  shows "fst (fs_tick clock s) = FocusOk"
    and "snd (snd (fs_tick clock s)) =
      (if state_changed (timed clock e (fs_state s)) (fs_state s) then refreshCrc (bumpSequence s1) else s1)"
proof -
  have armed: "fs_timingArmed s" using assms(1,2) by (simp add: focus_inv_def)
  have ph: "\<not> (fs_phase s \<noteq> PhaseFocus \<and> fs_phase s \<noteq> PhaseBreak)"
    using assms(2) by (simp add: fs_phase_def active_state_def)
  obtain u' t where ap: "applyElapsed e (initializeUpdate (fs_phase s)) s = (u', t)" by fastforce
  have t: "t = (if totalMs (fs_state s) \<le> e then disarm (s\<lparr>fs_state := applied e (fs_state s)\<rparr>)
      else s\<lparr>fs_state := applied e (fs_state s)\<rparr>)"
    using applyElapsed_state [of e "initializeUpdate (fs_phase s)" s] by (simp add: ap)
  have s1: "(if (fs_phase t = PhaseFocus \<or> fs_phase t = PhaseBreak) \<and> cs_unixTrusted clock
      then t\<lparr>fs_state := (fs_state t)\<lparr>f_anchorUnixSeconds := cs_unixSeconds clock,
             f_anchorElapsedMs := f_elapsedMs (fs_state t)\<rparr>\<rparr> else t) = s1"
    by (simp add: t s1_def timed_def Let_def disarm_def fs_phase_def active_state_def)
  have st: "fs_state s1 = timed clock e (fs_state s)" by (simp add: s1_def disarm_def)
  have g: "\<not> kMaximumMonotonicDelta < cs_monotonicMs clock - fs_bootAnchorMs s"
    using assms(5) by (simp add: focus_consts not_less)
  have "fs_tick clock s = (if state_changed (fs_state s1) (fs_state s)
      then (FocusOk, u'\<lparr>up_changed := True\<rparr>, refreshCrc (bumpSequence s1)) else (FocusOk, u', s1))"
    unfolding fs_tick_def Let_def if_not_P [OF ph] if_not_P [OF assms(4)] if_not_P [OF g]
      e_def [unfolded tick_elapsed_def, symmetric] ap prod.case s1
    using assms(3) armed by simp
  then show "fst (fs_tick clock s) = FocusOk"
    "snd (snd (fs_tick clock s)) =
      (if state_changed (timed clock e (fs_state s)) (fs_state s) then refreshCrc (bumpSequence s1) else s1)"
    by (simp_all add: st)
qed

lemma tick_error:
  assumes "\<not> (active_state (fs_state s) \<and> validateClock clock
      \<and> \<not> (cs_unixTrusted clock \<and> f_anchorUnixSeconds (fs_state s) \<noteq> 0
           \<and> cs_unixSeconds clock < f_anchorUnixSeconds (fs_state s))
      \<and> cs_monotonicMs clock - fs_bootAnchorMs s \<le> 0x7FFFFFFF)"
  shows "snd (snd (fs_tick clock s)) = s"
    and "active_state (fs_state s) \<Longrightarrow> fst (fs_tick clock s) \<noteq> FocusOk"
  using assms
  by (auto simp: fs_tick_def Let_def active_state_def fs_phase_def focus_consts not_le)

lemma sealed_inv:
  assumes "session_ok (fs_state s)" and "same_session (fs_state s) st" and "validateFocusState st"
    and "fs_timingArmed s \<longleftrightarrow> active_state (fs_state s)"
    and "fs_timingArmed s \<longrightarrow> fs_bootAnchorElapsedMs s \<le> f_elapsedMs (fs_state s)"
  shows "focus_inv (if state_changed (fs_state s) st then refreshCrc (bumpSequence s) else s)"
proof (cases "state_changed (fs_state s) st")
  case True
  then show ?thesis using assms sealed_valid [of s] by (simp add: focus_inv_def)
next
  case False
  then have "fs_state s = st" using assms(2) by (blast intro: unchanged_eq)
  with False assms show ?thesis by (simp add: focus_inv_def)
qed

lemma fs_tick_inv:
  assumes inv: "focus_inv s" and fwd: "clock_forward clock s"
  shows "focus_inv (snd (snd (fs_tick clock s)))"
proof (cases "active_state (fs_state s) \<and> validateClock clock
      \<and> \<not> (cs_unixTrusted clock \<and> f_anchorUnixSeconds (fs_state s) \<noteq> 0
           \<and> cs_unixSeconds clock < f_anchorUnixSeconds (fs_state s))
      \<and> cs_monotonicMs clock - fs_bootAnchorMs s \<le> 0x7FFFFFFF")
  case False
  with inv show ?thesis by (simp add: tick_error)
next
  case True
  then have act: "active_state (fs_state s)" and vc: "validateClock clock" by blast+
  have armed: "fs_timingArmed s" using inv act by (simp add: focus_inv_def)
  let ?e = "tick_elapsed clock s"
  let ?s1 = "if totalMs (fs_state s) \<le> ?e then disarm (s\<lparr>fs_state := timed clock ?e (fs_state s)\<rparr>)
              else s\<lparr>fs_state := timed clock ?e (fs_state s)\<rparr>"
  have res: "snd (snd (fs_tick clock s)) =
      (if state_changed (timed clock ?e (fs_state s)) (fs_state s) then refreshCrc (bumpSequence ?s1) else ?s1)"
    using True by (intro tick_result(2) [OF inv]) blast+
  have st: "fs_state ?s1 = timed clock ?e (fs_state s)" by (simp add: disarm_def)
  have e: "f_elapsedMs (fs_state s) \<le> ?e" by (rule tick_elapsed_bounds(1) [OF inv fwd armed])
  have ok: "session_ok (fs_state s)" using inv act valid_active by (auto simp: focus_inv_def)
  have b: "fs_bootAnchorElapsedMs s \<le> f_elapsedMs (fs_state s)" using inv armed by (simp add: focus_inv_def)
  have "focus_inv (if state_changed (fs_state ?s1) (fs_state s) then refreshCrc (bumpSequence ?s1) else ?s1)"
  proof (rule sealed_inv)
    show "session_ok (fs_state ?s1)" "same_session (fs_state ?s1) (fs_state s)"
      unfolding st by (rule timed_ok [OF ok act e vc], rule timed_frame(6))
    show "validateFocusState (fs_state s)" using inv by (simp add: focus_inv_def)
    show "fs_timingArmed ?s1 \<longleftrightarrow> active_state (fs_state ?s1)"
      unfolding st using armed by (simp add: timed_frame disarm_def)
    show "fs_timingArmed ?s1 \<longrightarrow> fs_bootAnchorElapsedMs ?s1 \<le> f_elapsedMs (fs_state ?s1)"
      unfolding st using order_trans [OF b e]
      by (simp add: timed_frame disarm_def) (meson linear order_trans)
  qed
  then show ?thesis unfolding res st .
qed

lemma focus_new_inv: "focus_inv (fs_reset s)"
  by (simp add: fs_reset_def focus_inv_def refreshCrc_def disarm_def validateFocusState_def active_state_def)
    (simp add: focus_state0_def focus_consts validStateSemantics_zero)

lemma focus_started_fields:
  "f_phase (focus_started r f b clock st) = PhaseFocus" "f_elapsedMs (focus_started r f b clock st) = 0"
  "f_focusMinutes (focus_started r f b clock st) = f" "f_breakMinutes (focus_started r f b clock st) = b"
  "f_sessionId (focus_started r f b clock st) = rq_sessionId r"
  "f_durationKind (focus_started r f b clock st) = rq_duration r"
  "active_state (focus_started r f b clock st)"
  by (simp_all add: focus_started_def Let_def active_state_def) (simp_all add: focus_state0_def)

lemma started_ok:
  assumes "normalizeDuration r = Some (f, b)" and "rq_sessionId r \<noteq> 0" and "validateClock clock"
  shows "session_ok (focus_started r f b clock st)" (is "session_ok ?st")
proof -
  have d: "validStoredDuration ?st"
    using assms(1)
    by (auto simp: validStoredDuration_def focus_started_fields normalizeDuration_def Let_def split: if_splits)
  have "phase_ok ?st"
    using stored_durations(4) [OF d] by (simp add: phase_ok_def focus_started_fields)
      (simp add: focus_started_def focus_state0_def Let_def)
  moreover have "anchor_ok ?st"
    using assms(3) by (auto simp: anchor_ok_def no_anchor_def focus_started_def focus_state0_def Let_def
        validateClock_def)
  ultimately show ?thesis using assms(2) d
    by (simp add: session_ok_def focus_started_fields)
      (simp add: focus_started_def focus_state0_def Let_def focus_consts)
qed

lemma fs_start_cases:
  "snd (snd (fs_start r clock s)) = s \<and> fst (fs_start r clock s) \<noteq> FocusOk
   \<or> (\<exists>f b. fst (fs_start r clock s) = FocusOk \<and> rq_sessionId r \<noteq> 0 \<and> normalizeDuration r = Some (f, b)
       \<and> f_sessionId (fs_state s) \<noteq> rq_sessionId r \<and> fs_phase s = PhaseIdle \<and> validateClock clock
       \<and> snd (snd (fs_start r clock s)) = arm (cs_monotonicMs clock) (refreshCrc (bumpSequence
          (s\<lparr>fs_state := focus_started r f b clock (fs_state s)\<rparr>))))"
proof (cases "if rq_sessionId r = 0 then None else normalizeDuration r")
  case None
  then show ?thesis by (simp add: fs_start_def Let_def)
next
  case (Some p)
  obtain f b where p: "p = (f, b)" by (cases p)
  from Some have r: "rq_sessionId r \<noteq> 0" "normalizeDuration r = Some (f, b)" by (auto simp: p split: if_splits)
  show ?thesis by (simp add: fs_start_def Let_def r)
qed

lemma arm_inv:
  assumes "validateFocusState (fs_state s)" and "active_state (fs_state s)"
  shows "focus_inv (arm m s)"
  using assms by (simp add: focus_inv_def arm_def)

lemma fs_start_inv:
  assumes "focus_inv s"
  shows "focus_inv (snd (snd (fs_start r clock s)))"
  using fs_start_cases [of r clock s]
proof (elim disjE exE conjE)
  fix f b
  assume r: "rq_sessionId r \<noteq> 0" "normalizeDuration r = Some (f, b)" "validateClock clock"
    and run: "snd (snd (fs_start r clock s)) = arm (cs_monotonicMs clock) (refreshCrc (bumpSequence
          (s\<lparr>fs_state := focus_started r f b clock (fs_state s)\<rparr>)))"
  show ?thesis unfolding run
    by (rule arm_inv [OF sealed_valid]) (simp_all add: started_ok [OF r(2,1,3)] focus_started_fields)
qed (use assms in simp)

lemma fs_finish_cases:
  "snd (snd (fs_finish p k i clock s)) = s \<and> fst (fs_finish p k i clock s) \<noteq> FocusOk
   \<or> i = f_sessionId (fs_state s) \<and> active_state (fs_state s)
     \<and> (let t = snd (snd (fs_tick clock s)) in
        fst (fs_finish p k i clock s) = fst (fs_tick clock s) \<and>
        snd (snd (fs_finish p k i clock s)) =
         (if fst (fs_tick clock s) \<noteq> FocusOk \<or> fs_phase t = PhaseCompleted then t
          else refreshCrc (bumpSequence (disarm (t\<lparr>fs_state := (fs_state t)\<lparr>f_phase := p,
              f_completionKind := k, f_anchorElapsedMs := 0, f_anchorUnixSeconds := 0\<rparr>\<rparr>)))))"
  by (auto simp: fs_finish_def Let_def active_state_def fs_phase_def case_prod_beta)

lemma fs_finish_inv:
  assumes inv: "focus_inv s" and fwd: "clock_forward clock s"
    and "p = PhaseCompleted \<and> k = CompletionStopped \<or> p = PhaseIdle \<and> k = CompletionCancelled"
  shows "focus_inv (snd (snd (fs_finish p k i clock s)))"
proof -
  let ?t = "snd (snd (fs_tick clock s))"
  have t: "focus_inv ?t" by (rule fs_tick_inv [OF inv fwd])
  let ?u = "disarm (?t\<lparr>fs_state := (fs_state ?t)\<lparr>f_phase := p,
              f_completionKind := k, f_anchorElapsedMs := 0, f_anchorUnixSeconds := 0\<rparr>\<rparr>)"
  have "focus_inv (refreshCrc (bumpSequence ?u))" if act: "active_state (fs_state ?t)"
  proof -
    have "session_ok (fs_state ?t)" using t act valid_active by (auto simp: focus_inv_def)
    from finish_ok [OF this act assms(3)] have "session_ok (fs_state ?u)" by (simp add: disarm_def)
    from sealed_valid [OF this] show ?thesis
      using assms(3) by (auto simp: focus_inv_def disarm_def active_state_def)
  qed
  moreover have "active_state (fs_state ?t)"
    if "active_state (fs_state s)" "fst (fs_tick clock s) = FocusOk" "fs_phase ?t \<noteq> PhaseCompleted"
  proof -
    have c: "active_state (fs_state s) \<and> validateClock clock
      \<and> \<not> (cs_unixTrusted clock \<and> f_anchorUnixSeconds (fs_state s) \<noteq> 0
           \<and> cs_unixSeconds clock < f_anchorUnixSeconds (fs_state s))
      \<and> cs_monotonicMs clock - fs_bootAnchorMs s \<le> 0x7FFFFFFF"
      using tick_error(2) [of s clock] that by blast
    have "fs_phase ?t \<in> {PhaseCompleted, PhaseBreak, PhaseFocus}"
      using tick_result(2) [OF inv, of clock] c
      by (auto simp: fs_phase_def disarm_def timed_frame applied_phase)
    with that(3) show ?thesis by (auto simp: fs_phase_def active_state_def)
  qed
  ultimately show ?thesis
    using fs_finish_cases [of p k i clock s] inv t by (auto simp: Let_def)
qed

lemma fs_acknowledge_inv:
  assumes "focus_inv s"
  shows "focus_inv (snd (fs_acknowledge i s))"
proof (cases "fst (fs_acknowledge i s) = FocusOk")
  case False
  then show ?thesis using assms by (auto simp: fs_acknowledge_def split: if_splits)
next
  case True
  then have c: "f_sessionId (fs_state s) \<noteq> 0" "f_phase (fs_state s) = PhaseCompleted"
    and run: "snd (fs_acknowledge i s) = refreshCrc (bumpSequence (s\<lparr>fs_state := (fs_state s)\<lparr>f_phase := PhaseIdle\<rparr>\<rparr>))"
    by (auto simp: fs_acknowledge_def fs_phase_def split: if_splits)
  have "session_ok (fs_state s)" using assms c(1) valid_session_ok by (simp add: focus_inv_def)
  then have "session_ok ((fs_state s)\<lparr>f_phase := PhaseIdle\<rparr>)"
    using c(2) by (auto simp: session_ok_def phase_ok_def anchor_ok_def no_anchor_def validStoredDuration_def
        focusMs_def totalMs_def)
  from sealed_valid [of "s\<lparr>fs_state := (fs_state s)\<lparr>f_phase := PhaseIdle\<rparr>\<rparr>"] this show ?thesis
    using assms c(2) by (simp add: run focus_inv_def active_state_def)
qed

subsection \<open>Restoring\<close>

definition unix_rollback :: "ClockSample \<Rightarrow> FocusState \<Rightarrow> bool" where
  "unix_rollback clock st \<longleftrightarrow> cs_unixTrusted clock \<and> f_anchorUnixSeconds st \<noteq> 0
     \<and> cs_unixSeconds clock < f_anchorUnixSeconds st"

definition restore_elapsed :: "ClockSample \<Rightarrow> FocusState \<Rightarrow> u32" where
  "restore_elapsed clock saved =
     (if cs_unixTrusted clock then recoveredElapsed saved (cs_unixSeconds clock) else f_elapsedMs saved)"

definition restored :: "ClockSample \<Rightarrow> FocusState \<Rightarrow> FocusState" where
  "restored clock saved = (let st = applied (restore_elapsed clock saved) saved in
     if \<not> active_state st then st
     else if cs_unixTrusted clock
     then st\<lparr>f_anchorUnixSeconds := cs_unixSeconds clock, f_anchorElapsedMs := f_elapsedMs st\<rparr>
     else st\<lparr>f_anchorUnixSeconds := 0, f_anchorElapsedMs := 0\<rparr>)"

lemma restored_frame:
  "f_elapsedMs (restored clock saved) = min (restore_elapsed clock saved) (totalMs saved)"
  "f_phase (restored clock saved) = f_phase (applied (restore_elapsed clock saved) saved)"
  "f_completionKind (restored clock saved) = f_completionKind (applied (restore_elapsed clock saved) saved)"
  "active_state (restored clock saved) \<longleftrightarrow> \<not> totalMs saved \<le> restore_elapsed clock saved"
  "same_session (restored clock saved) saved"
  by (simp_all add: restored_def Let_def applied_phase same_session_anchor same_session_applied)
    (simp_all add: active_state_def applied_phase)

lemma recoveredElapsed_ge: "f_elapsedMs st \<le> recoveredElapsed st u"
  by (simp add: recoveredElapsed_def Let_def less_imp_le)

lemma restore_elapsed_ge: "f_elapsedMs st \<le> restore_elapsed clock st"
  by (simp add: restore_elapsed_def recoveredElapsed_ge)

lemma restored_ok:
  assumes "session_ok saved" and "active_state saved" and "validateClock clock"
  shows "session_ok (restored clock saved)"
proof -
  have "session_ok (applied (restore_elapsed clock saved) saved)"
    by (rule applied_ok [OF assms(1,2) restore_elapsed_ge])
  then show ?thesis using assms(3)
    by (auto simp: restored_def Let_def validateClock_def intro: reanchor_ok unanchor_ok)
qed

definition restore_target :: "FocusState \<Rightarrow> ClockSample \<Rightarrow> FocusSession \<Rightarrow> FocusSession" where
  "restore_target saved clock s =
     (if active_state saved then
        (if active_state (restored clock saved)
         then arm (cs_monotonicMs clock) (disarm (s\<lparr>fs_state := restored clock saved\<rparr>))
         else disarm (s\<lparr>fs_state := restored clock saved\<rparr>))
      else disarm (s\<lparr>fs_state := saved\<rparr>))"

lemma restore_target_state:
  "fs_state (restore_target saved clock s) = (if active_state saved then restored clock saved else saved)"
  by (simp add: restore_target_def arm_def disarm_def)

text \<open>A restore either refuses and changes nothing, or installs the advanced state.\<close>

lemma fs_restore_refused:
  assumes "\<not> (validateFocusState saved \<and> (active_state saved \<longrightarrow> validateClock clock \<and> \<not> unix_rollback clock saved))"
  shows "snd (snd (fs_restore saved clock s)) = s" and "fst (fs_restore saved clock s) \<noteq> RestoreOk"
  using assms unfolding fs_restore_def Let_def
  by (auto simp: validateFocusState_def active_state_def unix_rollback_def)

lemma applyElapsed_disarmed:
  "snd (applyElapsed e u (disarm s)) = (disarm s)\<lparr>fs_state := applied e (fs_state s)\<rparr>"
  by (auto simp: applyElapsed_state disarm_def)

lemma fs_restore_accepted:
  assumes "validateFocusState saved" and "active_state saved \<longrightarrow> validateClock clock \<and> \<not> unix_rollback clock saved"
  shows "fst (fs_restore saved clock s) = RestoreOk"
    and "snd (snd (fs_restore saved clock s)) =
      (let t = restore_target saved clock s in
       if state_changed (fs_state t) saved then refreshCrc (bumpSequence t) else t)"
proof -
  have hdr: "\<not> f_magic saved \<noteq> kFocusStateMagic" "\<not> (f_bytes saved \<noteq> 48 \<or> f_schemaVersion saved \<noteq> kFocusStateSchemaVersion)"
    "\<not> f_crc32 saved \<noteq> focusStateCrc saved" "\<not> \<not> validStateSemantics saved"
    using assms(1) by (simp_all add: validateFocusState_def)
  have clk: "\<not> (active_state saved \<and> \<not> validateClock clock)"
    "\<not> (active_state saved \<and> unix_rollback clock saved)"
    using assms(2) by blast+
  let ?u = "initializeUpdate (f_phase saved)"
  let ?d = "disarm (s\<lparr>fs_state := saved\<rparr>)"
  obtain u' t where ap: "applyElapsed (restore_elapsed clock saved) ?u ?d = (u', t)" by fastforce
  have t: "t = ?d\<lparr>fs_state := applied (restore_elapsed clock saved) saved\<rparr>"
    using applyElapsed_disarmed [of "restore_elapsed clock saved" ?u "s\<lparr>fs_state := saved\<rparr>"] by (simp add: ap)
  have inst: "(if fs_phase t = PhaseFocus \<or> fs_phase t = PhaseBreak then
        (u', arm (cs_monotonicMs clock) (t\<lparr>fs_state := (if cs_unixTrusted clock
            then (fs_state t)\<lparr>f_anchorUnixSeconds := cs_unixSeconds clock, f_anchorElapsedMs := f_elapsedMs (fs_state t)\<rparr>
            else (fs_state t)\<lparr>f_anchorUnixSeconds := 0, f_anchorElapsedMs := 0\<rparr>)\<rparr>))
        else (u', t)) = (u', restore_target saved clock s)" if "active_state saved"
    using that by (simp add: t restore_target_def restored_def fs_phase_def Let_def disarm_def arm_def active_state_def)
  have run: "fs_restore saved clock s =
      (let (u, t) = (if active_state saved then (u', restore_target saved clock s) else (?u, ?d)) in
       if state_changed (fs_state t) saved then (RestoreOk, u\<lparr>up_changed := True\<rparr>, refreshCrc (bumpSequence t))
       else (RestoreOk, u, t))"
    unfolding fs_restore_def Let_def if_not_P [OF hdr(1)] if_not_P [OF hdr(2)] if_not_P [OF hdr(3)]
      if_not_P [OF hdr(4)] active_state_def [symmetric] unix_rollback_def [symmetric]
      if_not_P [OF clk(1)] if_not_P [OF clk(2)] restore_elapsed_def [symmetric] ap prod.case
    using inst by simp
  have d: "?d = restore_target saved clock s" if "\<not> active_state saved" using that by (simp add: restore_target_def)
  show "fst (fs_restore saved clock s) = RestoreOk"
    "snd (snd (fs_restore saved clock s)) =
      (let t = restore_target saved clock s in
       if state_changed (fs_state t) saved then refreshCrc (bumpSequence t) else t)"
    unfolding run using d by (auto simp: Let_def)
qed

lemma fs_restore_accepted_inv:
  assumes v: "validateFocusState saved" and c: "active_state saved \<longrightarrow> validateClock clock \<and> \<not> unix_rollback clock saved"
  shows "focus_inv (snd (snd (fs_restore saved clock s)))"
proof (cases "active_state saved")
  case False
  then show ?thesis using v
    by (simp add: fs_restore_accepted(2) [OF v c] restore_target_def Let_def state_changed_def disarm_def focus_inv_def)
next
  case act: True
  let ?t = "restore_target saved clock s"
  have st: "fs_state ?t = restored clock saved" using act by (simp add: restore_target_state)
  have "focus_inv (if state_changed (fs_state ?t) saved then refreshCrc (bumpSequence ?t) else ?t)"
  proof (rule sealed_inv)
    show "session_ok (fs_state ?t)" unfolding st
      using valid_active [OF v act] act c by (intro restored_ok) blast+
    show "same_session (fs_state ?t) saved" unfolding st by (rule restored_frame(5))
    show "validateFocusState saved" by (rule v)
    show "fs_timingArmed ?t \<longleftrightarrow> active_state (fs_state ?t)" unfolding st
      using act by (simp add: restore_target_def arm_def disarm_def)
    show "fs_timingArmed ?t \<longrightarrow> fs_bootAnchorElapsedMs ?t \<le> f_elapsedMs (fs_state ?t)"
      using act by (simp add: restore_target_def arm_def disarm_def)
  qed
  then show ?thesis by (simp add: fs_restore_accepted(2) [OF v c] Let_def)
qed

lemma fs_restore_inv:
  assumes "focus_inv s"
  shows "focus_inv (snd (snd (fs_restore saved clock s)))"
proof (cases "validateFocusState saved \<and> (active_state saved \<longrightarrow> validateClock clock \<and> \<not> unix_rollback clock saved)")
  case False
  with assms show ?thesis by (simp add: fs_restore_refused)
qed (blast intro: fs_restore_accepted_inv)

subsection \<open>Reachable sessions\<close>

text \<open>
  The life of a session object: any calls in any order, with any stored bytes given to a
  restore, under a monotonic counter that does not run backwards.
\<close>

inductive focus_reach :: "FocusSession \<Rightarrow> bool" where
  reach_reset: "focus_reach (fs_reset s)"
| reach_start: "focus_reach s \<Longrightarrow> focus_reach (snd (snd (fs_start r clock s)))"
| reach_tick: "focus_reach s \<Longrightarrow> clock_forward clock s \<Longrightarrow> focus_reach (snd (snd (fs_tick clock s)))"
| reach_stop: "focus_reach s \<Longrightarrow> clock_forward clock s \<Longrightarrow> focus_reach (snd (snd (fs_stop i clock s)))"
| reach_cancel: "focus_reach s \<Longrightarrow> clock_forward clock s \<Longrightarrow> focus_reach (snd (snd (fs_cancel i clock s)))"
| reach_acknowledge: "focus_reach s \<Longrightarrow> focus_reach (snd (fs_acknowledge i s))"
| reach_restore: "focus_reach s \<Longrightarrow> focus_reach (snd (snd (fs_restore saved clock s)))"

lemma focus_reach_inv: "focus_reach s \<Longrightarrow> focus_inv s"
proof (induction rule: focus_reach.induct)
  case (reach_stop s clock i)
  then show ?case unfolding fs_stop_def by (intro fs_finish_inv) simp_all
next
  case (reach_cancel s clock i)
  then show ?case unfolding fs_cancel_def by (intro fs_finish_inv) simp_all
qed (auto intro: focus_new_inv fs_start_inv fs_tick_inv fs_acknowledge_inv fs_restore_inv)

subsection \<open>What survives a restart\<close>

lemma less_ceil_div_1000: "d < (r + 999) div 1000 \<longleftrightarrow> 1000 * d < (r :: nat)"
proof -
  have "d < (r + 999) div 1000 \<longleftrightarrow> Suc d \<le> (r + 999) div 1000" by (simp add: Suc_le_eq)
  also have "\<dots> \<longleftrightarrow> Suc d * 1000 \<le> r + 999" by (simp add: less_eq_div_iff_mult_less_eq)
  finally show ?thesis by simp linarith
qed

lemma min_max_cap: "min (max a (min t b)) t = min t (max a (b :: nat))"
  by (simp add: min_def max_def)

lemma recovered_core:
  fixes el t a :: u32 and d :: u64
  assumes at: "a \<le> t" and bound: "unat t \<le> 8100000"
  shows "unat (let fromUnix = (if d < (ucast (t - a) + 999) div 1000 then a + ucast (d * 1000) else t)
      in if el < fromUnix then fromUnix else el) = max (unat el) (min (unat t) (unat a + 1000 * unat d))"
proof -
  have a: "unat a \<le> unat t" using at by (simp add: word_le_nat_alt)
  have rem: "unat (t - a) = unat t - unat a" using at by (simp add: unat_sub)
  have r64: "unat (ucast (t - a) :: u64) = unat t - unat a"
    using bound by (simp add: unsigned_ucast_eq rem take_bit_nat_eq_self)
  have sum: "unat (ucast (t - a) + 999 :: u64) = unat t - unat a + 999"
    using bound r64 by (subst unat_plus_small) simp_all
  have sec: "unat ((ucast (t - a) + 999) div 1000 :: u64) = (unat t - unat a + 999) div 1000"
    by (simp add: unat_div sum)
  have lt: "d < (ucast (t - a) + 999) div 1000 \<longleftrightarrow> 1000 * unat d < unat t - unat a"
    unfolding word_less_nat_alt sec by (rule less_ceil_div_1000)
  show ?thesis
  proof (cases "1000 * unat d < unat t - unat a")
    case True
    have small: "unat d * 1000 < 8100000" using True bound by linarith
    have m: "unat (d * 1000) = unat d * 1000" using small by (simp add: unat_word_ariths)
    have c: "unat (ucast (d * 1000) :: u32) = unat d * 1000"
      using small by (simp add: unsigned_ucast_eq m take_bit_nat_eq_self)
    have "unat a + unat d * 1000 < 4294967296" using small a bound by linarith
    then have "unat (a + ucast (d * 1000)) = unat a + 1000 * unat d" using c by (simp add: unat_plus_small)
    with True show ?thesis unfolding lt by (simp add: word_less_nat_alt max_def)
  next
    case False
    then show ?thesis unfolding lt by (simp add: word_less_nat_alt max_def)
  qed
qed

lemma recoveredElapsed_exact:
  assumes "session_ok st" and "f_anchorUnixSeconds st \<noteq> 0" and "f_anchorUnixSeconds st \<le> u"
  shows "unat (recoveredElapsed st u) = max (unat (f_elapsedMs st))
    (min (unat (totalMs st)) (unat (f_anchorElapsedMs st) + 1000 * (unat u - unat (f_anchorUnixSeconds st))))"
proof -
  have bound: "unat (totalMs st) \<le> 8100000" using assms(1) stored_durations(5) by (simp add: session_ok_def)
  have "f_anchorElapsedMs st \<le> f_elapsedMs st" "f_elapsedMs st \<le> totalMs st"
    using assms(1) stored_durations(3) [of st]
    by (auto simp: session_ok_def anchor_ok_def no_anchor_def phase_ok_def)
  then have at: "f_anchorElapsedMs st \<le> totalMs st" by (rule order_trans)
  have d: "unat (u - f_anchorUnixSeconds st) = unat u - unat (f_anchorUnixSeconds st)"
    using assms(3) by (simp add: unat_sub)
  show ?thesis
    using recovered_core [OF at bound, of "u - f_anchorUnixSeconds st" "f_elapsedMs st"]
    unfolding d recoveredElapsed_def Let_def if_not_P [OF assms(2)] .
qed

text \<open>The milliseconds a restore accounts for: wall-clock time since the anchor when both are known.\<close>

definition accounted_ms :: "ClockSample \<Rightarrow> FocusState \<Rightarrow> nat" where
  "accounted_ms clock st = min (unat (totalMs st))
     (if cs_unixTrusted clock \<and> f_anchorUnixSeconds st \<noteq> 0
      then max (unat (f_elapsedMs st))
        (unat (f_anchorElapsedMs st) + 1000 * (unat (cs_unixSeconds clock) - unat (f_anchorUnixSeconds st)))
      else unat (f_elapsedMs st))"

lemma restore_elapsed_accounted:
  assumes "session_ok st" and "\<not> unix_rollback clock st"
  shows "min (unat (restore_elapsed clock st)) (unat (totalMs st)) = accounted_ms clock st"
proof (cases "cs_unixTrusted clock \<and> f_anchorUnixSeconds st \<noteq> 0")
  case True
  then have "f_anchorUnixSeconds st \<le> cs_unixSeconds clock" using assms(2) by (auto simp: unix_rollback_def)
  from recoveredElapsed_exact [OF assms(1) _ this] True show ?thesis
    by (simp add: restore_elapsed_def accounted_ms_def min_max_cap)
next
  case False
  then show ?thesis by (auto simp: restore_elapsed_def accounted_ms_def recoveredElapsed_def)
qed

definition class_phase :: "FocusState \<Rightarrow> nat \<Rightarrow> Phase" where
  "class_phase st ms = (if ms \<ge> 60000 * (unat (f_focusMinutes st) + unat (f_breakMinutes st)) then PhaseCompleted
     else if ms \<ge> 60000 * unat (f_focusMinutes st) then PhaseBreak else PhaseFocus)"

lemma applied_class:
  assumes "validStoredDuration st"
  shows "f_phase (applied e st) = class_phase st (min (unat e) (unat (totalMs st)))"
  using stored_durations [OF assms]
  by (auto simp: applied_phase class_phase_def word_le_nat_alt word_less_nat_alt min_def)

text \<open>
  C25. A focus session survives a restart: restoring any stored state that passes the
  validation, under a clock that is valid and not behind the stored anchor, succeeds whatever
  the object held before; the session, its kind and its durations are the stored ones; an
  active session resumes with exactly the stored elapsed time or, when the wall clock is trusted at the
  anchor and now, with the elapsed time at the anchor plus the wall-clock time since the anchor if
  that is more, capped at the total, in the phase that time falls into; a session that is not
  active comes back byte for byte.
\<close>

theorem focus_restore_exact:
  assumes "validateFocusState saved"
    and "active_state saved \<longrightarrow> validateClock clock \<and> \<not> unix_rollback clock saved"
    and "fs_restore saved clock s = (r, u, s')"
  shows "r = RestoreOk \<and> focus_inv s'
    \<and> f_sessionId (fs_state s') = f_sessionId saved \<and> f_durationKind (fs_state s') = f_durationKind saved
    \<and> f_focusMinutes (fs_state s') = f_focusMinutes saved \<and> f_breakMinutes (fs_state s') = f_breakMinutes saved
    \<and> (if active_state saved
       then unat (f_elapsedMs (fs_state s')) = accounted_ms clock saved
         \<and> f_phase (fs_state s') = class_phase saved (accounted_ms clock saved)
       else fs_state s' = saved)"
proof -
  note acc = fs_restore_accepted [OF assms(1,2), of s]
  let ?t = "restore_target saved clock s"
  have r: "r = RestoreOk" using acc(1) assms(3) by simp
  have s': "s' = (if state_changed (fs_state ?t) saved then refreshCrc (bumpSequence ?t) else ?t)"
    using acc(2) assms(3) by (simp add: Let_def)
  have same: "same_session (fs_state ?t) saved"
    using restored_frame(5) by (simp add: restore_target_state same_session_def)
  have ids: "f_sessionId (fs_state s') = f_sessionId saved" "f_durationKind (fs_state s') = f_durationKind saved"
    "f_focusMinutes (fs_state s') = f_focusMinutes saved" "f_breakMinutes (fs_state s') = f_breakMinutes saved"
    using same by (simp_all add: s' same_session_def)
  have active: "unat (f_elapsedMs (fs_state s')) = accounted_ms clock saved
      \<and> f_phase (fs_state s') = class_phase saved (accounted_ms clock saved)" if "active_state saved"
  proof -
    have ok: "session_ok saved" by (rule valid_active [OF assms(1) that])
    then have d: "validStoredDuration saved" by (simp add: session_ok_def)
    have "min (unat (restore_elapsed clock saved)) (unat (totalMs saved)) = accounted_ms clock saved"
      using assms(2) that by (intro restore_elapsed_accounted [OF ok]) blast
    moreover have "unat (min a b) = min (unat a) (unat b)" for a b :: u32
      by (simp add: min_def word_le_nat_alt)
    ultimately show ?thesis using that
      by (simp add: s' restore_target_state restored_frame applied_class [OF d])
  qed
  have idle: "fs_state s' = saved" if "\<not> active_state saved"
    using that by (simp add: s' restore_target_state state_changed_def)
  have "focus_inv s'" using fs_restore_accepted_inv [OF assms(1,2), of s] assms(3) by simp
  with r ids active idle show ?thesis by simp
qed

text \<open>A concrete life of a session, shared by the examples below.\<close>

definition demo_request :: StartRequest where
  "demo_request = \<lparr>rq_sessionId = 7, rq_duration = DurationTwentyFive, rq_customMinutes = 0\<rparr>"

definition demo_clock :: "u32 \<Rightarrow> u64 \<Rightarrow> ClockSample" where
  "demo_clock m u = \<lparr>cs_monotonicMs = m, cs_unixTrusted = True, cs_unixSeconds = u\<rparr>"

definition demo_started :: FocusSession where
  "demo_started = snd (snd (fs_start demo_request (demo_clock 1000 1800000000) focus_new))"

lemma demo_start_ok: "fst (fs_start demo_request (demo_clock 1000 1800000000) focus_new) = FocusOk"
  by (simp add: fs_start_def demo_request_def demo_clock_def focus_new_def fs_reset_def refreshCrc_def
      disarm_def normalizeDuration_def fs_phase_def focus_state0_def validateClock_def validTrustedUnix_def
      focus_consts Let_def)

lemma demo_started_fields:
  "f_phase (fs_state demo_started) = PhaseFocus" "f_elapsedMs (fs_state demo_started) = 0"
  "f_sessionId (fs_state demo_started) = 7" "f_anchorUnixSeconds (fs_state demo_started) = 1800000000"
  "f_focusMinutes (fs_state demo_started) = 25" "f_breakMinutes (fs_state demo_started) = 5"
  "f_anchorElapsedMs (fs_state demo_started) = 0" "fs_bootAnchorMs demo_started = 1000"
  "fs_bootAnchorElapsedMs demo_started = 0" "fs_timingArmed demo_started"
  by (simp_all add: demo_started_def fs_start_def demo_request_def demo_clock_def focus_new_def fs_reset_def
      refreshCrc_def bumpSequence_def arm_def disarm_def normalizeDuration_def fs_phase_def focus_state0_def
      validateClock_def validTrustedUnix_def focus_consts Let_def focus_started_def recommendedBreakMinutes_def)

lemma demo_started_inv: "focus_inv demo_started"
  unfolding demo_started_def by (rule fs_start_inv) (simp add: focus_new_def focus_new_inv)

theorem focus_restore_exact_witness:
  "fst (fs_restore (fs_state demo_started) (demo_clock 0 1800000600) focus_new) = RestoreOk
   \<and> unat (f_elapsedMs (fs_state (snd (snd (fs_restore (fs_state demo_started)
        (demo_clock 0 1800000600) focus_new))))) = 600000"
proof -
  let ?c = "demo_clock 0 1800000600" and ?st = "fs_state demo_started"
  have v: "validateFocusState ?st" using demo_started_inv by (simp add: focus_inv_def)
  have act: "active_state ?st" by (simp add: active_state_def demo_started_fields)
  have clk: "validateClock ?c \<and> \<not> unix_rollback ?c ?st"
    by (simp add: demo_clock_def validateClock_def validTrustedUnix_def unix_rollback_def demo_started_fields
        focus_consts)
  have "unat (totalMs ?st) = 1800000"
    by (simp add: totalMs_def demo_started_fields durationMs_def focus_consts)
  then have acc: "accounted_ms ?c ?st = 600000"
    by (simp add: accounted_ms_def demo_started_fields demo_clock_def)
  obtain r u s' where run: "fs_restore ?st ?c focus_new = (r, u, s')" by (metis prod_cases3)
  from focus_restore_exact [OF v _ run] clk act acc run show ?thesis by simp
qed

text \<open>
  C26. Whatever is called in whatever order, with whatever bytes offered to a restore, as long
  as the monotonic counter does not run backwards: the state a caller would save passes the
  validation with a fresh checksum, the timer is armed exactly while a session is active, and
  a later restore of that snapshot by any object, at any counter value and without a trusted
  wall clock, succeeds with the same session, phase and elapsed time.
\<close>

theorem focus_snapshot_restores:
  assumes "focus_reach s" and "\<not> cs_unixTrusted clock"
    and "fs_restore (fs_state s) clock s0 = (r, u, s')"
  shows "validateFocusState (fs_state s) \<and> (fs_timingArmed s \<longleftrightarrow> active_state (fs_state s))
    \<and> r = RestoreOk \<and> f_sessionId (fs_state s') = f_sessionId (fs_state s)
    \<and> f_phase (fs_state s') = f_phase (fs_state s) \<and> f_elapsedMs (fs_state s') = f_elapsedMs (fs_state s)"
proof -
  have inv: "focus_inv s" by (rule focus_reach_inv [OF assms(1)])
  then have v: "validateFocusState (fs_state s)" by (simp add: focus_inv_def)
  have c: "active_state (fs_state s) \<longrightarrow> validateClock clock \<and> \<not> unix_rollback clock (fs_state s)"
    using assms(2) by (simp add: validateClock_def unix_rollback_def)
  have s': "s' = (let t = restore_target (fs_state s) clock s0 in
      if state_changed (fs_state t) (fs_state s) then refreshCrc (bumpSequence t) else t)"
    and r: "r = RestoreOk"
    using fs_restore_accepted [OF v c, of s0] assms(3) by simp_all
  have "f_phase (restored clock (fs_state s)) = f_phase (fs_state s)
      \<and> f_elapsedMs (restored clock (fs_state s)) = f_elapsedMs (fs_state s)" if act: "active_state (fs_state s)"
  proof -
    have ok: "session_ok (fs_state s)" by (rule valid_active [OF v act])
    then have "phase_ok (fs_state s)" "focusMs (fs_state s) < totalMs (fs_state s)"
      using stored_durations(3) by (simp_all add: session_ok_def)
    then show ?thesis using act assms(2)
      by (auto simp: restored_frame applied_phase restore_elapsed_def phase_ok_def active_state_def)
  qed
  moreover have "f_sessionId (restored clock (fs_state s)) = f_sessionId (fs_state s)"
    using restored_frame(5) [of clock "fs_state s"] by (simp add: same_session_def)
  ultimately show ?thesis
    using inv r by (auto simp: s' Let_def restore_target_state focus_inv_def)
qed

lemma demo_started_reach: "focus_reach demo_started"
  unfolding demo_started_def focus_new_def by (intro reach_start reach_reset)

theorem focus_snapshot_restores_witness:
  "f_sessionId (fs_state (snd (snd (fs_restore (fs_state demo_started)
      \<lparr>cs_monotonicMs = 5, cs_unixTrusted = False, cs_unixSeconds = 0\<rparr> focus_new)))) = 7"
proof -
  let ?c = "\<lparr>cs_monotonicMs = 5, cs_unixTrusted = False, cs_unixSeconds = 0\<rparr>"
  obtain r u s' where run: "fs_restore (fs_state demo_started) ?c focus_new = (r, u, s')" by (metis prod_cases3)
  from focus_snapshot_restores [OF demo_started_reach _ run] run show ?thesis
    by (simp add: demo_started_fields)
qed

end
