(* ===== verification/Focus_Laws.thy ===== *)
theory Focus_Laws
  imports Focus_Session
begin

text \<open>
  Laws of whole focus sessions: the elapsed time and the phase after any run of ticks is the
  real time since the start, a start request takes effect at most once, and what a tick does
  with a monotonic sample older than the previous one.
\<close>

subsection \<open>Exact time\<close>

text \<open>
  A clock sample taken when the device has been up for \<open>t\<close> milliseconds; the counter the
  firmware reads is that time reduced to 32 bits.
\<close>

definition sample :: "nat \<times> bool \<times> u64 \<Rightarrow> ClockSample" where
  "sample x = (case x of (t, trusted, u) \<Rightarrow>
     \<lparr>cs_monotonicMs = of_nat t, cs_unixTrusted = trusted, cs_unixSeconds = u\<rparr>)"

definition tick_run :: "FocusSession \<Rightarrow> (nat \<times> bool \<times> u64) list \<Rightarrow> FocusSession" where
  "tick_run s xs = foldl (\<lambda>s x. snd (snd (fs_tick (sample x) s))) s xs"

text \<open>Real samples: uptime and wall clock do not decrease, and trusted times are in range.\<close>

fun samples_from :: "nat \<Rightarrow> u64 \<Rightarrow> (nat \<times> bool \<times> u64) list \<Rightarrow> bool" where
  "samples_from t0 u0 [] = True"
| "samples_from t0 u0 ((t, trusted, u) # xs) \<longleftrightarrow>
     t0 \<le> t \<and> u0 \<le> u \<and> (trusted \<longrightarrow> validTrustedUnix u) \<and> samples_from t u xs"

definition same_durations :: "FocusState \<Rightarrow> FocusState \<Rightarrow> bool" where
  "same_durations a b \<longleftrightarrow> f_sessionId a = f_sessionId b \<and> f_durationKind a = f_durationKind b
     \<and> f_focusMinutes a = f_focusMinutes b \<and> f_breakMinutes a = f_breakMinutes b"

lemma same_durations_ms:
  "same_durations a b \<Longrightarrow> totalMs b = totalMs a" "same_durations a b \<Longrightarrow> focusMs b = focusMs a"
  "same_durations a b \<Longrightarrow> class_phase b = class_phase a"
  by (simp_all add: same_durations_def totalMs_def focusMs_def class_phase_def fun_eq_iff)

text \<open>A session started at uptime \<open>a\<close> whose last sample was taken at uptime \<open>t\<close>.\<close>

definition timed_session :: "FocusState \<Rightarrow> nat \<Rightarrow> nat \<Rightarrow> u64 \<Rightarrow> FocusSession \<Rightarrow> bool" where
  "timed_session st0 a t u s \<longleftrightarrow> focus_inv s \<and> same_durations st0 (fs_state s)
     \<and> (active_state (fs_state s) \<longrightarrow> fs_bootAnchorMs s = of_nat a \<and> fs_bootAnchorElapsedMs s = 0
          \<and> f_anchorUnixSeconds (fs_state s) \<le> u)
     \<and> unat (f_elapsedMs (fs_state s)) = min (t - a) (unat (totalMs st0))
     \<and> f_phase (fs_state s) = class_phase st0 (min (t - a) (unat (totalMs st0)))"

lemma unat_counter_diff:
  assumes "a \<le> t" and "t - a < 2147483648"
  shows "unat (of_nat t - of_nat a :: u32) = t - a"
proof -
  have "(of_nat t - of_nat a :: u32) = of_nat (t - a)" using assms(1) by (simp add: of_nat_diff)
  then show ?thesis using assms(2) by (simp add: unat_of_nat take_bit_nat_eq_self)
qed

lemma timed_anchor:
  "\<not> totalMs st \<le> e \<Longrightarrow> f_anchorUnixSeconds (timed c e st) =
     (if cs_unixTrusted c then cs_unixSeconds c else f_anchorUnixSeconds st)"
  by (simp add: timed_def Let_def applied_phase) (simp add: applied_def)

lemma tick_timed:
  assumes ts: "timed_session st0 a t u s" and v: "validStoredDuration st0"
    and x: "a \<le> t" "t \<le> t'" "t' - a < 2147483648" "u \<le> u'" "tr \<longrightarrow> validTrustedUnix u'"
  shows "timed_session st0 a t' u' (snd (snd (fs_tick (sample (t', tr, u')) s)))"
proof -
  let ?c = "sample (t', tr, u')" and ?st = "fs_state s"
  have inv: "focus_inv s" and sd: "same_durations st0 ?st"
    and el: "unat (f_elapsedMs ?st) = min (t - a) (unat (totalMs st0))"
    and ph: "f_phase ?st = class_phase st0 (min (t - a) (unat (totalMs st0)))"
    using ts by (simp_all add: timed_session_def)
  note ms = same_durations_ms [OF sd]
  have tot: "unat (totalMs st0) = 60000 * (unat (f_focusMinutes st0) + unat (f_breakMinutes st0))"
    by (rule stored_durations(2) [OF v])
  show ?thesis
  proof (cases "active_state ?st")
    case False
    then have tick: "snd (snd (fs_tick ?c s)) = s" by (simp add: tick_error)
    have "unat (totalMs st0) \<le> t - a"
      using False ph by (auto simp: class_phase_def active_state_def tot min_def split: if_splits)
    with x(2) have "min (t' - a) (unat (totalMs st0)) = min (t - a) (unat (totalMs st0))" by simp
    with tick show ?thesis using ts False by (simp add: timed_session_def)
  next
    case act: True
    have armed: "fs_timingArmed s" using inv act by (simp add: focus_inv_def)
    have b: "fs_bootAnchorMs s = of_nat a" "fs_bootAnchorElapsedMs s = 0" "f_anchorUnixSeconds ?st \<le> u"
      using ts act by (simp_all add: timed_session_def)
    have at': "a \<le> t'" using x(1,2) by simp
    have delta: "unat (cs_monotonicMs ?c - fs_bootAnchorMs s) = t' - a"
      using unat_counter_diff [OF at' x(3)] by (simp add: sample_def b)
    have fwd: "clock_forward ?c s"
      using el x(2) by (simp add: clock_forward_def b word_le_nat_alt delta [unfolded b]) linarith
    have vc: "validateClock ?c" using x(5) by (simp add: validateClock_def sample_def)
    have nr: "\<not> (cs_unixTrusted ?c \<and> f_anchorUnixSeconds ?st \<noteq> 0 \<and> cs_unixSeconds ?c < f_anchorUnixSeconds ?st)"
      using order_trans [OF b(3) x(4)] by (auto simp: sample_def)
    have dm: "cs_monotonicMs ?c - fs_bootAnchorMs s \<le> 0x7FFFFFFF"
      using x(3) unfolding word_le_nat_alt delta by simp
    let ?e = "tick_elapsed ?c s"
    have e: "unat ?e = min (t' - a) (unat (totalMs st0))"
      using tick_elapsed_bounds(2) [OF inv fwd armed] by (simp add: delta b(2) ms)
    note res = tick_result(2) [OF inv act vc nr dm]
    let ?s' = "snd (snd (fs_tick ?c s))"
    have st: "g (fs_state ?s') = g (timed ?c ?e ?st)"
      if "\<And>y. g (fs_state (refreshCrc (bumpSequence y))) = g (fs_state y)" for g :: "FocusState \<Rightarrow> 'z"
      using that by (simp add: res disarm_def)
    have tot': "unat (totalMs ?st) = unat (totalMs st0)" by (simp add: ms)
    have elapsed: "unat (f_elapsedMs (fs_state ?s')) = min (t' - a) (unat (totalMs st0))"
      using e by (simp add: st timed_frame min_def word_le_nat_alt ms)
    have vd: "validStoredDuration ?st" using valid_active inv act by (auto simp: focus_inv_def session_ok_def)
    have phase: "f_phase (fs_state ?s') = class_phase st0 (min (t' - a) (unat (totalMs st0)))"
      using e by (simp add: st timed_frame applied_class [OF vd] ms)
    have durations: "same_durations st0 (fs_state ?s')"
      using sd timed_frame(6) [of ?c ?e ?st] by (simp add: st same_durations_def same_session_def)
    have anchors: "fs_bootAnchorMs ?s' = of_nat a \<and> fs_bootAnchorElapsedMs ?s' = 0
        \<and> f_anchorUnixSeconds (fs_state ?s') \<le> u'" if "active_state (fs_state ?s')"
    proof -
      have n: "\<not> totalMs ?st \<le> ?e" using that by (simp add: st timed_frame)
      then have "f_anchorUnixSeconds (timed ?c ?e ?st) = (if tr then u' else f_anchorUnixSeconds ?st)"
        using timed_anchor [OF n, of ?c] by (simp add: sample_def)
      with n b order_trans [OF b(3) x(4)] show ?thesis by (simp add: st res)
    qed
    from fs_tick_inv [OF inv fwd] elapsed phase durations anchors show ?thesis
      by (simp add: timed_session_def)
  qed
qed

lemma tick_run_timed:
  "timed_session st0 a t u s \<Longrightarrow> validStoredDuration st0 \<Longrightarrow> a \<le> t \<Longrightarrow> samples_from t u xs \<Longrightarrow>
   \<forall>x \<in> set xs. fst x - a < 2147483648 \<Longrightarrow>
   \<exists>u'. timed_session st0 a (fst (last ((t, False, 0) # xs))) u' (tick_run s xs)"
proof (induction xs arbitrary: s t u)
  case Nil
  then show ?case by (auto simp: tick_run_def)
next
  case (Cons x xs)
  obtain t' tr u' where x: "x = (t', tr, u')" by (metis prod_cases3)
  have c: "t \<le> t'" "u \<le> u'" "tr \<longrightarrow> validTrustedUnix u'" "samples_from t' u' xs"
    using Cons.prems(4) by (simp_all add: x)
  have "t' - a < 2147483648" using Cons.prems(5) by (simp add: x)
  from tick_timed [OF Cons.prems(1,2,3) c(1) this c(2,3)]
  have s': "timed_session st0 a t' u' (snd (snd (fs_tick (sample x) s)))" by (simp add: x)
  have "\<exists>v. timed_session st0 a (fst (last ((t', False, 0) # xs))) v (tick_run (snd (snd (fs_tick (sample x) s))) xs)"
    using Cons.prems(2,3,5) c(1,4) by (intro Cons.IH [OF s']) auto
  then show ?case by (cases "xs = []") (simp_all add: tick_run_def x)
qed

lemma start_timed:
  assumes "focus_inv s" and "validateClock (sample (a, tr, u))"
    and "fs_start r (sample (a, tr, u)) s = (FocusOk, up, s1)"
  shows "timed_session (fs_state s1) a a u s1 \<and> validStoredDuration (fs_state s1)"
proof -
  let ?c = "sample (a, tr, u)"
  from fs_start_cases [of r ?c s] assms(3) obtain f b where r: "rq_sessionId r \<noteq> 0"
      "normalizeDuration r = Some (f, b)" "validateClock ?c"
    and s1: "s1 = arm (cs_monotonicMs ?c) (refreshCrc (bumpSequence
          (s\<lparr>fs_state := focus_started r f b ?c (fs_state s)\<rparr>)))" by auto
  have inv: "focus_inv s1" using fs_start_inv [OF assms(1), of r ?c] assms(3) by simp
  have "active_state (fs_state s1)" by (simp add: s1 arm_def focus_started_fields)
  with inv have ok: "session_ok (fs_state s1)" using valid_active by (auto simp: focus_inv_def)
  then have v: "validStoredDuration (fs_state s1)" by (simp add: session_ok_def)
  have e: "f_elapsedMs (fs_state s1) = 0" "f_phase (fs_state s1) = PhaseFocus"
    "f_anchorUnixSeconds (fs_state s1) \<le> u" "fs_bootAnchorMs s1 = of_nat a" "fs_bootAnchorElapsedMs s1 = 0"
    by (simp_all add: s1 arm_def focus_started_fields)
      (simp_all add: focus_started_def Let_def focus_state0_def sample_def)
  have "class_phase (fs_state s1) 0 = PhaseFocus"
    using stored_minutes [OF v] by (auto simp: class_phase_def)
  with inv e v show ?thesis by (simp add: timed_session_def same_durations_def)
qed

text \<open>
  C27. The timer is exact: after a successful start at some uptime and any run of ticks with
  real samples (uptime and wall clock not decreasing, less than 2^31 ms after the start), the
  elapsed time is the uptime since the start, capped at the total of focus and break, and the
  phase is the one this time falls into: Focus, then Break, then Completed.
\<close>

theorem focus_time_exact:
  assumes "focus_inv s" and "validateClock (sample (a, tr, u))"
    and "fs_start r (sample (a, tr, u)) s = (FocusOk, up, s1)"
    and "samples_from a u xs" and "\<forall>x \<in> set xs. fst x - a < 2147483648" and "xs \<noteq> []"
  shows "let t = fst (last xs); s' = tick_run s1 xs; f = unat (f_focusMinutes (fs_state s1));
             b = unat (f_breakMinutes (fs_state s1)) in
    unat (f_elapsedMs (fs_state s')) = min (t - a) (60000 * (f + b))
    \<and> f_phase (fs_state s') = (if t - a < 60000 * f then PhaseFocus
        else if t - a < 60000 * (f + b) then PhaseBreak else PhaseCompleted)"
proof -
  from start_timed [OF assms(1-3)] have s1: "timed_session (fs_state s1) a a u s1"
    and v: "validStoredDuration (fs_state s1)" by blast+
  from tick_run_timed [OF s1 v order_refl assms(4,5)] assms(6)
  obtain u' where "timed_session (fs_state s1) a (fst (last xs)) u' (tick_run s1 xs)" by auto
  then show ?thesis
    unfolding timed_session_def Let_def class_phase_def stored_durations(2) [OF v] by auto
qed

theorem focus_time_exact_witness:
  "f_phase (fs_state (tick_run demo_started [(61000, True, 1800000060), (1600000, False, 1800001599)])) = PhaseBreak
   \<and> unat (f_elapsedMs (fs_state (tick_run demo_started [(61000, True, 1800000060), (1600000, False, 1800001599)]))) = 1599000"
proof -
  let ?xs = "[(61000, True, 1800000060), (1600000, False, 1800001599)] :: (nat \<times> bool \<times> u64) list"
  have c: "demo_clock 1000 1800000000 = sample (1000, True, 1800000000)" by (simp add: demo_clock_def sample_def)
  have vc: "validateClock (sample (1000, True, 1800000000))"
    by (simp add: sample_def validateClock_def validTrustedUnix_def focus_consts)
  obtain up where run: "fs_start demo_request (sample (1000, True, 1800000000)) focus_new = (FocusOk, up, demo_started)"
    using demo_start_ok unfolding demo_started_def c [symmetric] by (metis prod.collapse)
  have sf: "samples_from 1000 1800000000 ?xs" by (simp add: validTrustedUnix_def focus_consts)
  have inv: "focus_inv focus_new" by (simp add: focus_new_def focus_new_inv)
  from focus_time_exact [OF inv vc run sf] show ?thesis
    by (simp add: Let_def demo_started_fields)
qed

subsection \<open>A start takes effect once\<close>

datatype focus_call = CTick ClockSample | CStop u64 ClockSample | CCancel u64 ClockSample | CAck u64

fun focus_call_step :: "FocusSession \<Rightarrow> focus_call \<Rightarrow> FocusSession" where
  "focus_call_step s (CTick clock) = snd (snd (fs_tick clock s))"
| "focus_call_step s (CStop i clock) = snd (snd (fs_stop i clock s))"
| "focus_call_step s (CCancel i clock) = snd (snd (fs_cancel i clock s))"
| "focus_call_step s (CAck i) = snd (fs_acknowledge i s)"

lemma applyElapsed_durations: "same_durations (fs_state s) (fs_state (snd (applyElapsed e u s)))"
  by (auto simp: applyElapsed_state applied_def same_durations_def disarm_def)

lemma tick_durations: "same_durations (fs_state s) (fs_state (snd (snd (fs_tick clock s))))"
proof -
  let ?ok = "\<lambda>res. same_durations (fs_state s) (fs_state (snd (snd res)))"
  have branch: "?ok (if c then a else b)" if "?ok a" "?ok b" for c and a b :: "FocusStatus \<times> Update \<times> FocusSession"
    using that by simp
  have leaf: "?ok (r, u, s)" for r u by (simp add: same_durations_def)
  have sealed: "?ok (r, u, refreshCrc (bumpSequence t))" if "?ok (r, u, t)" for r u t
    using that by (simp add: same_durations_def)
  have anchor: "?ok (r, u, if c then t\<lparr>fs_state := (fs_state t)
      \<lparr>f_anchorUnixSeconds := x, f_anchorElapsedMs := y\<rparr>\<rparr> else t)" if "?ok (r, u, t)" for r u c t x y
    using that by (simp add: same_durations_def)
  have timed: "?ok (r, u, snd (applyElapsed e v s))" for r u e v
    using applyElapsed_durations by simp
  show ?thesis
    unfolding fs_tick_def Let_def case_prod_beta by (intro branch leaf sealed anchor timed)
qed

lemma finish_durations: "same_durations (fs_state s) (fs_state (snd (snd (fs_finish p k i clock s))))"
  using fs_finish_cases [of p k i clock s] tick_durations [of s clock]
  by (auto simp: Let_def same_durations_def disarm_def)

lemma call_durations: "same_durations (fs_state s) (fs_state (focus_call_step s c))"
proof (cases c)
  case (CAck i)
  then show ?thesis by (simp add: fs_acknowledge_def same_durations_def)
qed (simp_all add: tick_durations finish_durations fs_stop_def fs_cancel_def)

lemma calls_durations: "same_durations (fs_state s) (fs_state (foldl focus_call_step s cs))"
proof (induction cs arbitrary: s)
  case Nil
  then show ?case by (simp add: same_durations_def)
next
  case (Cons c cs)
  show ?case using Cons [of "focus_call_step s c"] call_durations [of s c] by (simp add: same_durations_def)
qed

text \<open>
  A start request is idempotent: once it has taken effect, repeating it at any later
  moment of that session's life, whatever ticks, stops, cancellations and acknowledgements
  came in between and whatever the clock says, is answered Duplicate and changes nothing; the
  same identifier with another duration is answered Conflict and changes nothing.
\<close>

lemma focus_start_once:
  assumes "fs_start r clock s = (FocusOk, up, s1)" and "s2 = foldl focus_call_step s1 calls"
  shows "fs_start r clock' s2 = (Duplicate, initializeUpdate (fs_phase s2), s2)
    \<and> (rq_sessionId r' = rq_sessionId r \<and> normalizeDuration r' \<noteq> None
         \<and> (rq_duration r', normalizeDuration r') \<noteq> (rq_duration r, normalizeDuration r)
       \<longrightarrow> fs_start r' clock' s2 = (Conflict, initializeUpdate (fs_phase s2), s2))"
proof -
  from fs_start_cases [of r clock s] assms(1) obtain f b where r: "rq_sessionId r \<noteq> 0"
      "normalizeDuration r = Some (f, b)"
    and s1: "s1 = arm (cs_monotonicMs clock) (refreshCrc (bumpSequence
          (s\<lparr>fs_state := focus_started r f b clock (fs_state s)\<rparr>)))" by auto
  have "f_sessionId (fs_state s2) = rq_sessionId r \<and> f_durationKind (fs_state s2) = rq_duration r
      \<and> f_focusMinutes (fs_state s2) = f \<and> f_breakMinutes (fs_state s2) = b"
    using calls_durations [of s1 calls]
    by (simp add: assms(2) same_durations_def s1 arm_def focus_started_fields)
  then show ?thesis using r by (auto simp: fs_start_def Let_def split: option.splits)
qed

lemma focus_start_once_witness:
  "fst (fs_start demo_request (demo_clock 9 1800000009)
     (foldl focus_call_step demo_started [CTick (demo_clock 2000 1800000001), CCancel 7 (demo_clock 3000 1800000002)]))
   = Duplicate"
proof -
  obtain up where "fs_start demo_request (demo_clock 1000 1800000000) focus_new = (FocusOk, up, demo_started)"
    using demo_start_ok unfolding demo_started_def by (metis prod.collapse)
  from focus_start_once [OF this refl, where clock' = "demo_clock 9 1800000009"
      and calls = "[CTick (demo_clock 2000 1800000001), CCancel 7 (demo_clock 3000 1800000002)]"
      and r' = demo_request]
  show ?thesis by simp
qed

subsection \<open>A monotonic sample older than the previous one\<close>

text \<open>
  The rollback test of a tick compares with the moment the timer was armed, not with the
  previous tick.  A sample between the two is accepted: here a session started at counter
  1000, ticked at 1,600,000 (in its break) and then given the sample 500,000 goes back to
  Focus with less elapsed time and, the second sample carrying no wall clock, keeps an anchor
  ahead of its elapsed time: the state it would save fails the validation that a restore makes.
\<close>

lemma focus_tick_backwards:
  "(let s1 = snd (snd (fs_tick (demo_clock 1600000 1800001599) demo_started));
        c = \<lparr>cs_monotonicMs = 500000, cs_unixTrusted = False, cs_unixSeconds = 0\<rparr>;
        s2 = snd (snd (fs_tick c s1))
    in fs_phase s1 = PhaseBreak \<and> fst (fs_tick c s1) = FocusOk \<and> fs_phase s2 = PhaseFocus
       \<and> f_elapsedMs (fs_state s2) < f_elapsedMs (fs_state s1)
       \<and> \<not> validateFocusState (fs_state s2)
       \<and> fst (fs_restore (fs_state s2) c focus_new) = InvalidState)"
proof -
  let ?c1 = "demo_clock 1600000 1800001599"
  let ?s1 = "snd (snd (fs_tick ?c1 demo_started))"
  let ?c = "\<lparr>cs_monotonicMs = 500000, cs_unixTrusted = False, cs_unixSeconds = 0\<rparr>"
  let ?s2 = "snd (snd (fs_tick ?c ?s1))"
  have ms: "totalMs (fs_state demo_started) = 1800000" "focusMs (fs_state demo_started) = 1500000"
    by (simp_all add: totalMs_def focusMs_def durationMs_def demo_started_fields focus_consts)
  have act: "active_state (fs_state demo_started)" by (simp add: active_state_def demo_started_fields)
  have e1: "tick_elapsed ?c1 demo_started = 1599000"
    by (simp add: tick_elapsed_def demo_started_fields ms demo_clock_def)
  have s1: "?s1 = refreshCrc (bumpSequence (demo_started\<lparr>fs_state := timed ?c1 1599000 (fs_state demo_started)\<rparr>))"
    using tick_result(2) [OF demo_started_inv act, of ?c1] e1
    by (simp add: demo_started_fields demo_clock_def validateClock_def validTrustedUnix_def focus_consts
        state_changed_def timed_frame ms)
  have inv1: "focus_inv ?s1"
    by (rule fs_tick_inv [OF demo_started_inv]) (simp add: clock_forward_def demo_started_fields demo_clock_def)
  have st1: "f_elapsedMs (fs_state ?s1) = 1599000" "f_phase (fs_state ?s1) = PhaseBreak"
    "f_anchorElapsedMs (fs_state ?s1) = 1599000" "f_anchorUnixSeconds (fs_state ?s1) = 1800001599"
    "fs_bootAnchorMs ?s1 = 1000" "fs_bootAnchorElapsedMs ?s1 = 0"
    "f_focusMinutes (fs_state ?s1) = 25" "f_breakMinutes (fs_state ?s1) = 5" "f_sessionId (fs_state ?s1) = 7"
    unfolding s1
    by (simp_all add: timed_def applied_def Let_def ms demo_started_fields demo_clock_def active_state_def)
  have ms1: "totalMs (fs_state ?s1) = 1800000" "focusMs (fs_state ?s1) = 1500000"
    by (simp_all add: totalMs_def focusMs_def durationMs_def st1 focus_consts)
  have act1: "active_state (fs_state ?s1)" by (simp add: active_state_def st1)
  have e2: "tick_elapsed ?c ?s1 = 499000" by (simp add: tick_elapsed_def st1 ms1)
  have ok: "fst (fs_tick ?c ?s1) = FocusOk"
    by (rule tick_result(1) [OF inv1 act1]) (simp_all add: validateClock_def st1)
  have s2: "?s2 = refreshCrc (bumpSequence (?s1\<lparr>fs_state := timed ?c 499000 (fs_state ?s1)\<rparr>))"
    using tick_result(2) [OF inv1 act1, of ?c] e2
    by (simp add: st1 validateClock_def state_changed_def timed_frame ms1)
  have st2: "f_elapsedMs (fs_state ?s2) = 499000" "f_phase (fs_state ?s2) = PhaseFocus"
    "f_anchorElapsedMs (fs_state ?s2) = 1599000" "f_sessionId (fs_state ?s2) = 7"
    "f_anchorUnixSeconds (fs_state ?s2) = 1800001599"
    unfolding s2 by (simp_all add: timed_def applied_def Let_def ms1 st1)
  have bad: "\<not> validStateSemantics (fs_state ?s2)"
    by (simp add: validStateSemantics_iff anchor_ok_def no_anchor_def st2)
  have hdr: "f_magic (fs_state ?s2) = kFocusStateMagic" "f_bytes (fs_state ?s2) = 48"
    "f_schemaVersion (fs_state ?s2) = kFocusStateSchemaVersion" "f_crc32 (fs_state ?s2) = focusStateCrc (fs_state ?s2)"
    using inv1 unfolding s2
    by (simp_all add: sealed_state Let_def timed_def applied_def focus_inv_def validateFocusState_def)
  have "fst (fs_restore (fs_state ?s2) ?c focus_new) = InvalidState"
    using bad hdr by (simp add: fs_restore_def Let_def)
  with ok bad show ?thesis
    by (simp add: Let_def fs_phase_def st1 st2 validateFocusState_def)
qed

end
