(* ===== verification/Controller_Permissions.thy ===== *)
theory Controller_Permissions
  imports Kitsu_Prelude
begin

unbundle bit_operations_syntax

text \<open>
  The authorization policy of controllers, \<^verbatim>\<open>src/src/kitsu_controller_permissions.{h,cpp}\<close>: the
  closed table of operations and of actions with the roles they are granted to, the decision
  function, and the three-byte encoding of a role in the security record.  The enumerations
  have \<^verbatim>\<open>uint8_t\<close> as their underlying type and may hold other values, which the code rejects,
  so they are modelled at that type; a null \<^verbatim>\<open>const char*\<close> is \<open>None\<close>.
\<close>

type_synonym ControllerRole = u8
abbreviation RoleOwner :: ControllerRole where "RoleOwner \<equiv> 0"
abbreviation RoleCaretaker :: ControllerRole where "RoleCaretaker \<equiv> 1"

type_synonym BleActionKind = u8
abbreviation ActionPet :: BleActionKind where "ActionPet \<equiv> 1"
abbreviation ActionFeed :: BleActionKind where "ActionFeed \<equiv> 2"
abbreviation ActionPlay :: BleActionKind where "ActionPlay \<equiv> 3"
abbreviation ActionListenOnce :: BleActionKind where "ActionListenOnce \<equiv> 4"
abbreviation ActionAdvertiseOnce :: BleActionKind where "ActionAdvertiseOnce \<equiv> 5"
abbreviation ActionSendMessage :: BleActionKind where "ActionSendMessage \<equiv> 6"

definition kControllerRolePaddingBytes :: nat where "kControllerRolePaddingBytes = 3"

datatype ControllerRoleCodecResult = RoleCodecOk | RoleCodecInvalidArgument | UnsupportedEncoding

type_synonym ControllerCapabilityKind = u8
abbreviation CapabilityOperation :: ControllerCapabilityKind where "CapabilityOperation \<equiv> 0"
abbreviation CapabilityBleAction :: ControllerCapabilityKind where "CapabilityBleAction \<equiv> 1"

record ControllerCapability =
  cap_kind :: ControllerCapabilityKind
  cap_operation :: "string option"
  cap_action :: BleActionKind

datatype ControllerPermission = Allowed | ActionRequired | Denied | UnknownCapability
  | InvalidRole | PermissionInvalidArgument

subsection \<open>The policy tables\<close>

definition kOwnerMask :: u8 where "kOwnerMask = push_bit 0 1"
definition kCaretakerMask :: u8 where "kCaretakerMask = push_bit 1 1"
definition kBothRoles :: u8 where "kBothRoles = kOwnerMask OR kCaretakerMask"

lemmas role_masks = kOwnerMask_def kCaretakerMask_def kBothRoles_def

record OperationPolicy =
  op_operation :: string
  op_roles :: u8
  op_requiresAction :: bool

definition kOperationPolicies :: "OperationPolicy list" where
  "kOperationPolicies = [
     \<lparr>op_operation = ''state.get'', op_roles = kBothRoles, op_requiresAction = False\<rparr>,
     \<lparr>op_operation = ''history.get'', op_roles = kBothRoles, op_requiresAction = False\<rparr>,
     \<lparr>op_operation = ''peers.get'', op_roles = kOwnerMask, op_requiresAction = False\<rparr>,
     \<lparr>op_operation = ''messages.get'', op_roles = kOwnerMask, op_requiresAction = False\<rparr>,
     \<lparr>op_operation = ''messages.get.v2'', op_roles = kOwnerMask, op_requiresAction = False\<rparr>,
     \<lparr>op_operation = ''messages.get.v3'', op_roles = kOwnerMask, op_requiresAction = False\<rparr>,
     \<lparr>op_operation = ''messages.get.v4'', op_roles = kOwnerMask, op_requiresAction = False\<rparr>,
     \<lparr>op_operation = ''messages.mark_read'', op_roles = kOwnerMask, op_requiresAction = False\<rparr>,
     \<lparr>op_operation = ''encounter.codes.get.v1'', op_roles = kOwnerMask, op_requiresAction = False\<rparr>,
     \<lparr>op_operation = ''encounter.neighbors.get.v1'', op_roles = kOwnerMask, op_requiresAction = False\<rparr>,
     \<lparr>op_operation = ''encounter.neighbor.action.v1'', op_roles = kOwnerMask, op_requiresAction = False\<rparr>,
     \<lparr>op_operation = ''encounter.catalog.get.v1'', op_roles = kOwnerMask, op_requiresAction = False\<rparr>,
     \<lparr>op_operation = ''encounter.discovery.get.v1'', op_roles = kOwnerMask, op_requiresAction = False\<rparr>,
     \<lparr>op_operation = ''companion.profile.get.v1'', op_roles = kBothRoles, op_requiresAction = False\<rparr>,
     \<lparr>op_operation = ''companion.profile.nickname.set.v1'', op_roles = kOwnerMask, op_requiresAction = False\<rparr>,
     \<lparr>op_operation = ''companion.request.answer.v1'', op_roles = kOwnerMask, op_requiresAction = False\<rparr>,
     \<lparr>op_operation = ''companion.question.answer.v1'', op_roles = kOwnerMask, op_requiresAction = False\<rparr>,
     \<lparr>op_operation = ''companion.presentation.open.v1'', op_roles = kBothRoles, op_requiresAction = False\<rparr>,
     \<lparr>op_operation = ''companion.presentation.read.v1'', op_roles = kBothRoles, op_requiresAction = False\<rparr>,
     \<lparr>op_operation = ''companion.presentation.close.v1'', op_roles = kBothRoles, op_requiresAction = False\<rparr>,
     \<lparr>op_operation = ''focus.state.get.v1'', op_roles = kBothRoles, op_requiresAction = False\<rparr>,
     \<lparr>op_operation = ''focus.start.v1'', op_roles = kBothRoles, op_requiresAction = False\<rparr>,
     \<lparr>op_operation = ''focus.stop.v1'', op_roles = kBothRoles, op_requiresAction = False\<rparr>,
     \<lparr>op_operation = ''focus.cancel.v1'', op_roles = kBothRoles, op_requiresAction = False\<rparr>,
     \<lparr>op_operation = ''focus.ack.v1'', op_roles = kBothRoles, op_requiresAction = False\<rparr>,
     \<lparr>op_operation = ''adventure.state.get.v1'', op_roles = kBothRoles, op_requiresAction = False\<rparr>,
     \<lparr>op_operation = ''adventure.walk.start.v1'', op_roles = kBothRoles, op_requiresAction = False\<rparr>,
     \<lparr>op_operation = ''adventure.walk.sync.v1'', op_roles = kBothRoles, op_requiresAction = False\<rparr>,
     \<lparr>op_operation = ''adventure.walk.location.v1'', op_roles = kBothRoles, op_requiresAction = False\<rparr>,
     \<lparr>op_operation = ''adventure.walk.decide.v1'', op_roles = kBothRoles, op_requiresAction = False\<rparr>,
     \<lparr>op_operation = ''adventure.walk.finish.v1'', op_roles = kBothRoles, op_requiresAction = False\<rparr>,
     \<lparr>op_operation = ''adventure.walk.ack.v1'', op_roles = kBothRoles, op_requiresAction = False\<rparr>,
     \<lparr>op_operation = ''adventure.privacy.set.v1'', op_roles = kOwnerMask, op_requiresAction = False\<rparr>,
     \<lparr>op_operation = ''adventure.home.set.v1'', op_roles = kOwnerMask, op_requiresAction = False\<rparr>,
     \<lparr>op_operation = ''fun.state.get.v1'', op_roles = kOwnerMask, op_requiresAction = False\<rparr>,
     \<lparr>op_operation = ''fun.expedition.start.v1'', op_roles = kOwnerMask, op_requiresAction = False\<rparr>,
     \<lparr>op_operation = ''fun.expedition.claim.v1'', op_roles = kOwnerMask, op_requiresAction = False\<rparr>,
     \<lparr>op_operation = ''fun.story.start.v1'', op_roles = kOwnerMask, op_requiresAction = False\<rparr>,
     \<lparr>op_operation = ''fun.story.advance.v1'', op_roles = kOwnerMask, op_requiresAction = False\<rparr>,
     \<lparr>op_operation = ''fun.story.choose.v1'', op_roles = kOwnerMask, op_requiresAction = False\<rparr>,
     \<lparr>op_operation = ''fun.party.scan.v1'', op_roles = kOwnerMask, op_requiresAction = False\<rparr>,
     \<lparr>op_operation = ''fun.party.host.v1'', op_roles = kOwnerMask, op_requiresAction = False\<rparr>,
     \<lparr>op_operation = ''fun.party.join.v1'', op_roles = kOwnerMask, op_requiresAction = False\<rparr>,
     \<lparr>op_operation = ''fun.party.begin.v1'', op_roles = kOwnerMask, op_requiresAction = False\<rparr>,
     \<lparr>op_operation = ''fun.party.choose.v1'', op_roles = kOwnerMask, op_requiresAction = False\<rparr>,
     \<lparr>op_operation = ''fun.party.leave.v1'', op_roles = kOwnerMask, op_requiresAction = False\<rparr>,
     \<lparr>op_operation = ''channels.get'', op_roles = kOwnerMask, op_requiresAction = False\<rparr>,
     \<lparr>op_operation = ''channels.get.v2'', op_roles = kOwnerMask, op_requiresAction = False\<rparr>,
     \<lparr>op_operation = ''chat.storage.get'', op_roles = kOwnerMask, op_requiresAction = False\<rparr>,
     \<lparr>op_operation = ''clock.sync'', op_roles = kOwnerMask, op_requiresAction = False\<rparr>,
     \<lparr>op_operation = ''mesh.configure'', op_roles = kOwnerMask, op_requiresAction = False\<rparr>,
     \<lparr>op_operation = ''action.apply'', op_roles = kBothRoles, op_requiresAction = True\<rparr>,
     \<lparr>op_operation = ''controller.forget'', op_roles = kOwnerMask, op_requiresAction = False\<rparr>,
     \<lparr>op_operation = ''firmware.update.status'', op_roles = kOwnerMask, op_requiresAction = False\<rparr>,
     \<lparr>op_operation = ''firmware.update.begin'', op_roles = kOwnerMask, op_requiresAction = False\<rparr>,
     \<lparr>op_operation = ''firmware.update.write'', op_roles = kOwnerMask, op_requiresAction = False\<rparr>,
     \<lparr>op_operation = ''firmware.update.finish'', op_roles = kOwnerMask, op_requiresAction = False\<rparr>,
     \<lparr>op_operation = ''firmware.update.reboot'', op_roles = kOwnerMask, op_requiresAction = False\<rparr>,
     \<lparr>op_operation = ''firmware.update.abort'', op_roles = kOwnerMask, op_requiresAction = False\<rparr>]"

record ActionPolicy =
  ap_action :: BleActionKind
  ap_roles :: u8

definition kActionPolicies :: "ActionPolicy list" where
  "kActionPolicies = [
     \<lparr>ap_action = ActionPet, ap_roles = kBothRoles\<rparr>,
     \<lparr>ap_action = ActionFeed, ap_roles = kBothRoles\<rparr>,
     \<lparr>ap_action = ActionPlay, ap_roles = kBothRoles\<rparr>,
     \<lparr>ap_action = ActionListenOnce, ap_roles = kOwnerMask\<rparr>,
     \<lparr>ap_action = ActionAdvertiseOnce, ap_roles = kOwnerMask\<rparr>,
     \<lparr>ap_action = ActionSendMessage, ap_roles = kOwnerMask\<rparr>]"

definition roleMask :: "ControllerRole \<Rightarrow> u8 option" where
  "roleMask role = (if role = RoleOwner then Some kOwnerMask
     else if role = RoleCaretaker then Some kCaretakerMask else None)"

subsection \<open>Operations\<close>

definition decodeControllerRolePadding :: "bytes option \<Rightarrow> nat \<Rightarrow> ControllerRoleCodecResult \<times> ControllerRole" where
  "decodeControllerRolePadding padding paddingBytes =
     (if padding = None \<or> paddingBytes \<noteq> kControllerRolePaddingBytes then (RoleCodecInvalidArgument, 0xFF)
      else if the padding ! 1 \<noteq> 0 \<or> the padding ! 2 \<noteq> 0 then (UnsupportedEncoding, 0xFF)
      else if the padding ! 0 = RoleOwner then (RoleCodecOk, RoleOwner)
      else if the padding ! 0 = RoleCaretaker then (RoleCodecOk, RoleCaretaker)
      else (UnsupportedEncoding, 0xFF))"

definition encodeControllerRolePadding :: "ControllerRole \<Rightarrow> bytes option \<Rightarrow> nat
    \<Rightarrow> ControllerRoleCodecResult \<times> bytes option" where
  "encodeControllerRolePadding role padding paddingBytes =
     (if padding = None \<or> paddingBytes \<noteq> kControllerRolePaddingBytes then (RoleCodecInvalidArgument, padding)
      else if role \<noteq> RoleOwner \<and> role \<noteq> RoleCaretaker
      then (UnsupportedEncoding, Some (replicate paddingBytes 0xFF))
      else (RoleCodecOk, Some ((replicate paddingBytes 0)[0 := role])))"

definition controllerRoleName :: "ControllerRole \<Rightarrow> string" where
  "controllerRoleName role = (if role = RoleOwner then ''owner''
     else if role = RoleCaretaker then ''caretaker'' else ''unknown'')"

definition controllerRoleCodecResultName :: "ControllerRoleCodecResult \<Rightarrow> string" where
  "controllerRoleCodecResultName result = (case result of RoleCodecOk \<Rightarrow> ''ok''
     | RoleCodecInvalidArgument \<Rightarrow> ''invalid_argument'' | UnsupportedEncoding \<Rightarrow> ''unsupported_encoding'')"

definition controllerOperation :: "string option \<Rightarrow> ControllerCapability" where
  "controllerOperation operation = \<lparr>cap_kind = CapabilityOperation, cap_operation = operation, cap_action = ActionPet\<rparr>"

definition controllerBleAction :: "BleActionKind \<Rightarrow> ControllerCapability" where
  "controllerBleAction action = \<lparr>cap_kind = CapabilityBleAction, cap_operation = None, cap_action = action\<rparr>"

fun operation_scan :: "string \<Rightarrow> u8 \<Rightarrow> OperationPolicy list \<Rightarrow> ControllerPermission" where
  "operation_scan name msk [] = UnknownCapability"
| "operation_scan name msk (policy # rest) =
     (if name \<noteq> op_operation policy then operation_scan name msk rest
      else if op_roles policy AND msk = 0 then Denied
      else if op_requiresAction policy then ActionRequired else Allowed)"

fun action_scan :: "BleActionKind \<Rightarrow> u8 \<Rightarrow> ActionPolicy list \<Rightarrow> ControllerPermission" where
  "action_scan action msk [] = UnknownCapability"
| "action_scan action msk (policy # rest) =
     (if action \<noteq> ap_action policy then action_scan action msk rest
      else if ap_roles policy AND msk \<noteq> 0 then Allowed else Denied)"

definition controllerPermission :: "ControllerRole \<Rightarrow> ControllerCapability \<Rightarrow> ControllerPermission" where
  "controllerPermission role capability =
     (case roleMask role of None \<Rightarrow> InvalidRole
      | Some msk \<Rightarrow>
        if cap_kind capability = CapabilityOperation then
          (if cap_operation capability = None \<or> the (cap_operation capability) = [] then PermissionInvalidArgument
           else operation_scan (the (cap_operation capability)) msk kOperationPolicies)
        else if cap_kind capability = CapabilityBleAction then
          action_scan (cap_action capability) msk kActionPolicies
        else PermissionInvalidArgument)"

definition controllerAllowed :: "ControllerRole \<Rightarrow> ControllerCapability \<Rightarrow> bool" where
  "controllerAllowed role capability \<longleftrightarrow> controllerPermission role capability = Allowed"

definition controllerOperationPolicyCount :: nat where
  "controllerOperationPolicyCount = length kOperationPolicies"

definition controllerPermissionName :: "ControllerPermission \<Rightarrow> string" where
  "controllerPermissionName permission = (case permission of
      Allowed \<Rightarrow> ''allowed'' | ActionRequired \<Rightarrow> ''action_required'' | Denied \<Rightarrow> ''denied''
    | UnknownCapability \<Rightarrow> ''unknown_capability'' | InvalidRole \<Rightarrow> ''invalid_role''
    | PermissionInvalidArgument \<Rightarrow> ''invalid_argument'')"

subsection \<open>Reading the tables\<close>

lemma roleMask_iff: "roleMask r = Some m \<longleftrightarrow> r = RoleOwner \<and> m = 1 \<or> r = RoleCaretaker \<and> m = 2"
  by (auto simp: roleMask_def role_masks)

lemma operation_scan_map_of:
  "operation_scan name msk ps = (case map_of (map (\<lambda>p. (op_operation p, p)) ps) name of
     None \<Rightarrow> UnknownCapability
   | Some p \<Rightarrow> if op_roles p AND msk = 0 then Denied
       else if op_requiresAction p then ActionRequired else Allowed)"
  by (induction ps) auto

text \<open>Facts about the concrete table, each checked on its rows once.\<close>

lemma policy_names_distinct: "distinct (map op_operation kOperationPolicies)"
  by code_simp

lemma policy_roles: "list_all (\<lambda>p. op_roles p AND 1 \<noteq> 0 \<and> op_operation p \<noteq> []) kOperationPolicies"
  by code_simp

lemma policy_action_row:
  "list_all (\<lambda>p. op_requiresAction p \<longleftrightarrow> op_operation p = ''action.apply'') kOperationPolicies"
  by code_simp

definition caretaker_operations :: "string list" where
  "caretaker_operations = map op_operation (filter (\<lambda>p. op_roles p AND 2 \<noteq> 0 \<and> \<not> op_requiresAction p) kOperationPolicies)"

lemma caretaker_operations_list: "caretaker_operations =
   [''state.get'', ''history.get'', ''companion.profile.get.v1'', ''companion.presentation.open.v1'',
    ''companion.presentation.read.v1'', ''companion.presentation.close.v1'', ''focus.state.get.v1'',
    ''focus.start.v1'', ''focus.stop.v1'', ''focus.cancel.v1'', ''focus.ack.v1'',
    ''adventure.state.get.v1'', ''adventure.walk.start.v1'', ''adventure.walk.sync.v1'',
    ''adventure.walk.location.v1'', ''adventure.walk.decide.v1'', ''adventure.walk.finish.v1'',
    ''adventure.walk.ack.v1'']"
  by code_simp

lemma operation_allowed_iff:
  "operation_scan name m kOperationPolicies = Allowed \<longleftrightarrow>
    (\<exists>p \<in> set kOperationPolicies. op_operation p = name \<and> op_roles p AND m \<noteq> 0 \<and> \<not> op_requiresAction p)"
proof -
  have d: "distinct (map fst (map (\<lambda>p. (op_operation p, p)) kOperationPolicies))"
    using policy_names_distinct by (simp add: comp_def)
  show ?thesis
  proof
    assume "operation_scan name m kOperationPolicies = Allowed"
    then show "\<exists>p \<in> set kOperationPolicies. op_operation p = name \<and> op_roles p AND m \<noteq> 0 \<and> \<not> op_requiresAction p"
      by (auto simp: operation_scan_map_of split: option.splits if_splits dest!: map_of_SomeD)
  next
    assume "\<exists>p \<in> set kOperationPolicies. op_operation p = name \<and> op_roles p AND m \<noteq> 0 \<and> \<not> op_requiresAction p"
    then obtain p where p: "p \<in> set kOperationPolicies" "op_operation p = name" "op_roles p AND m \<noteq> 0"
      "\<not> op_requiresAction p" by blast
    then have "map_of (map (\<lambda>p. (op_operation p, p)) kOperationPolicies) name = Some p"
      by (intro map_of_is_SomeI [OF d]) auto
    with p show "operation_scan name m kOperationPolicies = Allowed" by (simp add: operation_scan_map_of)
  qed
qed

lemma action_scan_result:
  "action_scan a 1 kActionPolicies = Allowed \<longleftrightarrow> a \<in> {1, 2, 3, 4, 5, 6}"
  "action_scan a 2 kActionPolicies = Allowed \<longleftrightarrow> a \<in> {1, 2, 3}"
  by (simp_all add: kActionPolicies_def role_masks)


text \<open>
  The authorization decision is exactly the published policy, for every role value, name
  and action value: the owner may run every registered operation, the caretaker only the
  eighteen listed ones; \<^verbatim>\<open>action.apply\<close> never passes by itself but asks for the decoded
  action, of which the owner has six and the caretaker the three caring ones; unregistered
  names, actions and roles are never allowed.
\<close>

lemma controller_policy_exact:
  "(controllerAllowed role (controllerOperation (Some name)) \<longleftrightarrow>
      role = RoleOwner \<and> name \<in> op_operation ` set kOperationPolicies \<and> name \<noteq> ''action.apply''
    \<or> role = RoleCaretaker \<and> name \<in> set
        [''state.get'', ''history.get'', ''companion.profile.get.v1'', ''companion.presentation.open.v1'',
         ''companion.presentation.read.v1'', ''companion.presentation.close.v1'', ''focus.state.get.v1'',
         ''focus.start.v1'', ''focus.stop.v1'', ''focus.cancel.v1'', ''focus.ack.v1'',
         ''adventure.state.get.v1'', ''adventure.walk.start.v1'', ''adventure.walk.sync.v1'',
         ''adventure.walk.location.v1'', ''adventure.walk.decide.v1'', ''adventure.walk.finish.v1'',
         ''adventure.walk.ack.v1''])
   \<and> (controllerPermission role (controllerOperation (Some name)) = ActionRequired \<longleftrightarrow>
      (role = RoleOwner \<or> role = RoleCaretaker) \<and> name = ''action.apply'')
   \<and> (controllerAllowed role (controllerBleAction a) \<longleftrightarrow>
      role = RoleOwner \<and> a \<in> {1, 2, 3, 4, 5, 6} \<or> role = RoleCaretaker \<and> a \<in> {1, 2, 3})"
proof -
  have rows: "op_roles p AND 1 \<noteq> 0" "op_operation p \<noteq> []" "op_requiresAction p \<longleftrightarrow> op_operation p = ''action.apply''"
    if "p \<in> set kOperationPolicies" for p
    using that policy_roles policy_action_row by (auto simp: list_all_iff)
  have owner: "operation_scan name 1 kOperationPolicies = Allowed \<longleftrightarrow>
      name \<in> op_operation ` set kOperationPolicies \<and> name \<noteq> ''action.apply''"
    unfolding operation_allowed_iff using rows by auto
  have caretaker: "operation_scan name 2 kOperationPolicies = Allowed \<longleftrightarrow> name \<in> set caretaker_operations"
    unfolding operation_allowed_iff caretaker_operations_def by auto
  have empty: "[] \<notin> op_operation ` set kOperationPolicies" "[] \<notin> set caretaker_operations"
    using rows(2) by (fastforce simp: caretaker_operations_def)+
  have apply_row: "operation_scan ''action.apply'' 1 kOperationPolicies = ActionRequired"
    "operation_scan ''action.apply'' 2 kOperationPolicies = ActionRequired"
    by code_simp+
  have other: "operation_scan name m kOperationPolicies \<noteq> ActionRequired" if "name \<noteq> ''action.apply''" for m
    using that rows(3) by (auto simp: operation_scan_map_of split: option.splits dest!: map_of_SomeD)
  have mask: "roleMask role = (if role = RoleOwner then Some 1 else if role = RoleCaretaker then Some 2 else None)"
    by (simp add: roleMask_def role_masks)
  have op: "controllerPermission role (controllerOperation (Some name)) =
      (if role = RoleOwner then if name = [] then PermissionInvalidArgument else operation_scan name 1 kOperationPolicies
       else if role = RoleCaretaker then if name = [] then PermissionInvalidArgument else operation_scan name 2 kOperationPolicies
       else InvalidRole)"
    by (simp add: controllerPermission_def controllerOperation_def mask)
  have act: "controllerPermission role (controllerBleAction a) =
      (if role = RoleOwner then action_scan a 1 kActionPolicies
       else if role = RoleCaretaker then action_scan a 2 kActionPolicies else InvalidRole)"
    by (simp add: controllerPermission_def controllerBleAction_def mask)
  have "controllerAllowed role (controllerOperation (Some name)) \<longleftrightarrow>
      role = RoleOwner \<and> name \<in> op_operation ` set kOperationPolicies \<and> name \<noteq> ''action.apply''
    \<or> role = RoleCaretaker \<and> name \<in> set caretaker_operations"
    using owner caretaker empty by (auto simp: controllerAllowed_def op)
  moreover have "controllerPermission role (controllerOperation (Some name)) = ActionRequired \<longleftrightarrow>
      (role = RoleOwner \<or> role = RoleCaretaker) \<and> name = ''action.apply''"
    using apply_row other by (auto simp: op)
  moreover have "controllerAllowed role (controllerBleAction a) \<longleftrightarrow>
      role = RoleOwner \<and> a \<in> {1, 2, 3, 4, 5, 6} \<or> role = RoleCaretaker \<and> a \<in> {1, 2, 3}"
    by (simp only: controllerAllowed_def act action_scan_result split: if_split) auto
  ultimately show ?thesis unfolding caretaker_operations_list by blast
qed

subsection \<open>The role bytes\<close>

definition role_enc :: "ControllerRole \<Rightarrow> bytes" where
  "role_enc r = the (snd (encodeControllerRolePadding r (Some [0, 0, 0]) 3))"

definition role_dec :: "bytes \<Rightarrow> ControllerRole option" where
  "role_dec b = (case decodeControllerRolePadding (Some b) (length b) of
     (RoleCodecOk, r) \<Rightarrow> Some r | _ \<Rightarrow> None)"

definition role_dom :: "ControllerRole \<Rightarrow> bool" where
  "role_dom r \<longleftrightarrow> r = RoleOwner \<or> r = RoleCaretaker"

interpretation role: codec role_enc role_dec role_dom
proof
  show "role_dec (role_enc r) = Some r" if "role_dom r" for r
    using that by (auto simp: role_dom_def role_dec_def role_enc_def encodeControllerRolePadding_def
        decodeControllerRolePadding_def kControllerRolePaddingBytes_def numeral_3_eq_3)
  show "role_dom r \<and> role_enc r = b" if dec: "role_dec b = Some r" for b r
  proof -
    have "length b = 3" using dec
      by (auto simp: role_dec_def decodeControllerRolePadding_def kControllerRolePaddingBytes_def split: if_splits)
    then obtain x y z where b: "b = [x, y, z]"
      by (metis (no_types) length_0_conv length_Suc_conv numeral_3_eq_3)
    show ?thesis using dec
      by (auto simp: b role_dom_def role_dec_def role_enc_def encodeControllerRolePadding_def
          decodeControllerRolePadding_def kControllerRolePaddingBytes_def numeral_3_eq_3 split: if_splits)
  qed
qed

text \<open>
  The role bytes of the security record are read back exactly: a byte string decodes to
  a role only when it is the encoding of the owner or the caretaker, so the all-zero padding
  of older records is the owner and no other value gains any role.
\<close>

lemma role_padding_exact:
  "(role_dec b = Some r \<longleftrightarrow> (r = RoleOwner \<or> r = RoleCaretaker) \<and> b = [r, 0, 0])
   \<and> (decodeControllerRolePadding (Some b) (length b) = (RoleCodecOk, r) \<longleftrightarrow> role_dec b = Some r)"
proof -
  have enc: "role_enc r = [r, 0, 0]" if "r = RoleOwner \<or> r = RoleCaretaker"
    using that by (auto simp: role_enc_def encodeControllerRolePadding_def kControllerRolePaddingBytes_def numeral_3_eq_3)
  show ?thesis
    unfolding role.dec_iff role_dom_def [of r] using enc role.dec_iff [of b r]
    by (auto simp: role_dec_def role_dom_def split: prod.splits ControllerRoleCodecResult.splits)
qed

end
