(* ===== verification/Companion_Codec.thy ===== *)
theory Companion_Codec
  imports Kitsu_Prelude
begin

unbundle bit_operations_syntax

text \<open>
  The byte-level codecs of \<^verbatim>\<open>src/src/kitsu_companion_protocol.cpp\<close>: big-endian integers, decimal
  sequence numbers, unpadded base64url and the constant-time comparison, each with its round
  trip.  A pointer with its byte count is the byte list it designates, the empty list
  when the count is zero (also for a null pointer, where the base64url codec and the UTF-8 validator
  accept it), and \<open>None\<close> is a null pointer otherwise; characters are their byte codes.
\<close>

text \<open>The bytes of a string literal.\<close>

definition ascii :: "string \<Rightarrow> bytes" where
  "ascii s = map of_char s"

lemma length_ascii [simp]: "length (ascii s) = length s"
  by (simp add: ascii_def)

subsection \<open>Integers\<close>

definition deadlineExpired :: "u32 \<Rightarrow> u32 \<Rightarrow> u32 \<Rightarrow> bool" where
  "deadlineExpired now started timeout \<longleftrightarrow> now - started > timeout"

definition constantTimeEqual :: "bytes \<Rightarrow> bytes \<Rightarrow> bool" where
  "constantTimeEqual left right =
     (foldl (\<lambda>difference (l, r). difference OR (l XOR r)) 0 (zip left right) = 0)"

definition putU16Be :: "u16 \<Rightarrow> bytes" where
  "putU16Be value = [ucast (drop_bit 8 value), ucast value]"

definition putU32Be :: "u32 \<Rightarrow> bytes" where
  "putU32Be value = [ucast (drop_bit 24 value), ucast (drop_bit 16 value), ucast (drop_bit 8 value), ucast value]"

definition putU64Be :: "u64 \<Rightarrow> bytes" where
  "putU64Be value = map (\<lambda>i. ucast (drop_bit ((7 - i) * 8) value)) [0 ..< 8]"

definition getU32Be :: "bytes \<Rightarrow> u32" where
  "getU32Be input = push_bit 24 (ucast (input ! 0)) OR push_bit 16 (ucast (input ! 1))
     OR push_bit 8 (ucast (input ! 2)) OR ucast (input ! 3)"

lemma length_putBe [simp]: "length (putU16Be a) = 2" "length (putU32Be b) = 4" "length (putU64Be c) = 8"
  by (simp_all add: putU16Be_def putU32Be_def putU64Be_def)

lemma getU32Be_putU32Be: "getU32Be (putU32Be v @ rest) = v"
proof (rule bit_word_eqI)
  fix n
  assume "n < LENGTH(32)"
  then consider "n < 8" | "8 \<le> n" "n < 16" | "16 \<le> n" "n < 24" | "24 \<le> n" "n < 32" by fastforce
  then show "bit (getU32Be (putU32Be v @ rest)) n = bit v n"
    by cases (simp_all add: getU32Be_def putU32Be_def bit_simps nth_append less_diff_conv2)
qed

lemma putU32Be_inj: "putU32Be v = putU32Be w \<longleftrightarrow> v = w"
  by (metis getU32Be_putU32Be)

lemma or_eq_0_word: "(a OR b :: 'a :: len word) = 0 \<longleftrightarrow> a = 0 \<and> b = 0"
  by (auto simp: bit_eq_iff bit_simps)

lemma foldl_or_zero:
  "foldl (\<lambda>d (l, r). d OR (l XOR r)) acc xs = 0 \<longleftrightarrow> acc = 0 \<and> (\<forall>(l, r) \<in> set xs. l = (r :: u8))"
proof (induction xs arbitrary: acc)
  case (Cons p xs)
  obtain l r where p: "p = (l, r)" by (cases p)
  have "l XOR r = 0 \<longleftrightarrow> l = r" by (auto simp: bit_eq_iff bit_simps)
  then show ?case using Cons by (simp add: p or_eq_0_word)
qed simp

lemma constantTimeEqual_iff:
  assumes "length l = length r"
  shows "constantTimeEqual l r \<longleftrightarrow> l = r"
  using assms unfolding constantTimeEqual_def foldl_or_zero
  by (induction l r rule: list_induct2) auto

subsection \<open>Operation names\<close>

definition operationChar :: "u8 \<Rightarrow> bool" where
  "operationChar c \<longleftrightarrow> (c \<ge> of_char CHR ''a'' \<and> c \<le> of_char CHR ''z'')
     \<or> (c \<ge> of_char CHR ''A'' \<and> c \<le> of_char CHR ''Z'') \<or> (c \<ge> of_char CHR ''0'' \<and> c \<le> of_char CHR ''9'')
     \<or> c = of_char CHR ''.'' \<or> c = of_char CHR ''_'' \<or> c = of_char CHR ''-'' \<or> c = of_char CHR ''/''"

definition kMaximumOperationBytes :: nat where "kMaximumOperationBytes = 48"

definition operationValid :: "bytes option \<Rightarrow> bool" where
  "operationValid operation \<longleftrightarrow> operation \<noteq> None \<and> the operation \<noteq> []
     \<and> length (the operation) \<le> kMaximumOperationBytes \<and> list_all operationChar (the operation)"

subsection \<open>Decimal numbers\<close>

text \<open>The loop of \<^verbatim>\<open>parseDecimal\<close>, with its overflow test.\<close>

fun parse_digits :: "u64 \<Rightarrow> bytes \<Rightarrow> u64 option" where
  "parse_digits value [] = Some value"
| "parse_digits value (c # cs) =
     (if c < 48 \<or> c > 57 then None
      else let digit = c - 48 in
        if value > (18446744073709551615 - ucast digit) div 10 then None
        else parse_digits (value * 10 + ucast digit) cs)"

definition parseDecimal :: "bytes option \<Rightarrow> u64 option" where
  "parseDecimal input =
     (if input = None \<or> the input = [] \<or> length (the input) > 20
         \<or> (length (the input) > 1 \<and> hd (the input) = 48) then None
      else case parse_digits 0 (the input) of None \<Rightarrow> None
        | Some value \<Rightarrow> if value \<noteq> 0 then Some value else None)"

text \<open>
  The digits of \<^verbatim>\<open>formatDecimal\<close>, least significant first; the loop stops at value zero or
  when the twenty-byte buffer is full.
\<close>

fun format_rev :: "nat \<Rightarrow> u64 \<Rightarrow> bytes" where
  "format_rev 0 value = []"
| "format_rev (Suc room) value =
     (48 + ucast (value mod 10)) # (if value div 10 \<noteq> 0 then format_rev room (value div 10) else [])"

definition formatDecimal :: "u64 \<Rightarrow> bytes" where
  "formatDecimal value = rev (format_rev 20 value)"

subsection \<open>Base64url\<close>

definition base64Value :: "u8 \<Rightarrow> int" where
  "base64Value c =
     (if c \<ge> of_char CHR ''A'' \<and> c \<le> of_char CHR ''Z'' then uint c - 65
      else if c \<ge> of_char CHR ''a'' \<and> c \<le> of_char CHR ''z'' then uint c - 97 + 26
      else if c \<ge> of_char CHR ''0'' \<and> c \<le> of_char CHR ''9'' then uint c - 48 + 52
      else if c = of_char CHR ''-'' then 62
      else if c = of_char CHR ''_'' then 63
      else -1)"

definition base64UrlEncodedBytes :: "nat \<Rightarrow> nat" where
  "base64UrlEncodedBytes inputBytes = (let full = (inputBytes div 3) * 4; remainder = inputBytes mod 3
     in full + (if remainder = 0 then 0 else remainder + 1))"

definition b64_alphabet :: bytes where
  "b64_alphabet = ascii ''ABCDEFGHIJKLMNOPQRSTUVWXYZabcdefghijklmnopqrstuvwxyz0123456789-_''"

definition b64_char :: "u32 \<Rightarrow> u8" where
  "b64_char index = b64_alphabet ! unat index"

fun b64_encode :: "bytes \<Rightarrow> bytes" where
  "b64_encode (a # b # c # rest) =
     (let value = push_bit 16 (ucast a) OR push_bit 8 (ucast b) OR ucast c :: u32 in
      b64_char (drop_bit 18 value AND 63) # b64_char (drop_bit 12 value AND 63)
      # b64_char (drop_bit 6 value AND 63) # b64_char (value AND 63) # b64_encode rest)"
| "b64_encode [a] =
     (let value = push_bit 16 (ucast a) :: u32 in
      [b64_char (drop_bit 18 value AND 63), b64_char (drop_bit 12 value AND 63)])"
| "b64_encode [a, b] =
     (let value = push_bit 16 (ucast a) OR push_bit 8 (ucast b) :: u32 in
      [b64_char (drop_bit 18 value AND 63), b64_char (drop_bit 12 value AND 63),
       b64_char (drop_bit 6 value AND 63)])"
| "b64_encode [] = []"

text \<open>
  The encoder writes into a caller's buffer of the given capacity; the result is the bytes
  written, \<open>None\<close> when it returns false.
\<close>

definition encodeBase64Url :: "bytes option \<Rightarrow> nat option \<Rightarrow> bytes option" where
  "encodeBase64Url input outputCapacity =
     (case (input, outputCapacity) of
        (Some bs, Some capacity) \<Rightarrow>
          (let required = base64UrlEncodedBytes (length bs) in
           if required > capacity then None
           else let written = b64_encode bs in
             if length written = required then Some written else None)
      | _ \<Rightarrow> None)"

fun b64_decode :: "bytes \<Rightarrow> bytes option" where
  "b64_decode (ca # cb # cc # cd # rest) =
     (let a = base64Value ca; b = base64Value cb; c = base64Value cc; d = base64Value cd in
      if a < 0 \<or> b < 0 \<or> c < 0 \<or> d < 0 then None
      else let value = push_bit 18 (word_of_int a) OR push_bit 12 (word_of_int b)
                 OR push_bit 6 (word_of_int c) OR word_of_int d :: u32 in
        map_option (\<lambda>out. ucast (drop_bit 16 value) # ucast (drop_bit 8 value) # ucast value # out)
          (b64_decode rest))"
| "b64_decode [ca, cb] =
     (let a = base64Value ca; b = base64Value cb in
      if a < 0 \<or> b < 0 \<or> b AND 0x0f \<noteq> 0 then None
      else Some [word_of_int (push_bit 2 a OR drop_bit 4 b)])"
| "b64_decode [ca, cb, cc] =
     (let a = base64Value ca; b = base64Value cb; c = base64Value cc in
      if a < 0 \<or> b < 0 \<or> c < 0 \<or> c AND 0x03 \<noteq> 0 then None
      else Some [word_of_int (push_bit 2 a OR drop_bit 4 b), word_of_int (push_bit 4 b OR drop_bit 2 c)])"
| "b64_decode [] = Some []"
| "b64_decode [ca] = None"

definition base64DecodedBytes :: "nat \<Rightarrow> nat" where
  "base64DecodedBytes inputBytes = (inputBytes div 4) * 3 + (if inputBytes mod 4 = 0 then 0 else inputBytes mod 4 - 1)"

definition decodeBase64Url :: "bytes option \<Rightarrow> nat option \<Rightarrow> bytes option" where
  "decodeBase64Url input outputCapacity =
     (case (input, outputCapacity) of
        (Some bs, Some capacity) \<Rightarrow>
          if length bs mod 4 = 1 then None
          else if base64DecodedBytes (length bs) > capacity then None
          else (case b64_decode bs of None \<Rightarrow> None
            | Some written \<Rightarrow> if length written = base64DecodedBytes (length bs) then Some written else None)
      | _ \<Rightarrow> None)"

subsection \<open>The base64url round trip\<close>

lemma base64Value_table: "list_all (\<lambda>k. base64Value (b64_alphabet ! k) = int k) [0 ..< 64]"
  by code_simp

lemma base64Value_char:
  assumes "i < 64"
  shows "base64Value (b64_char i) = uint i"
proof -
  have "unat i < 64" using assms by (simp add: word_less_nat_alt)
  then show ?thesis using base64Value_table by (simp add: list_all_iff b64_char_def)
qed

lemma b64_alphabet_table:
  "list_all (\<lambda>k. unat (b64_alphabet ! k) = (if k < 26 then 65 + k else if k < 52 then 71 + k
     else if k < 62 then k - 4 else if k = 62 then 45 else 95)) [0 ..< 64]"
  by code_simp

lemma base64Value_unat:
  "base64Value c = (if 65 \<le> unat c \<and> unat c \<le> 90 then int (unat c) - 65
     else if 97 \<le> unat c \<and> unat c \<le> 122 then int (unat c) - 71
     else if 48 \<le> unat c \<and> unat c \<le> 57 then int (unat c) + 4
     else if unat c = 45 then 62 else if unat c = 95 then 63 else -1)"
  by (simp add: base64Value_def word_le_nat_alt word_unat_eq_iff)

lemma base64Value_range:
  "base64Value c = -1 \<or> 0 \<le> base64Value c \<and> base64Value c < 64
     \<and> b64_alphabet ! nat (base64Value c) = c"
proof -
  have tab: "unat (b64_alphabet ! k) = (if k < 26 then 65 + k else if k < 52 then 71 + k
     else if k < 62 then k - 4 else if k = 62 then 45 else 95)" if "k < 64" for k
    using b64_alphabet_table that by (simp add: list_all_iff)
  have hit: ?thesis if "base64Value c = int k" "k < 64" "unat (b64_alphabet ! k) = unat c" for k
    using that by (simp add: word_unat_eq_iff)
  define u where "u = unat c"
  note v = base64Value_unat [of c, folded u_def]
  consider (upper) "65 \<le> u" "u \<le> 90" | (lower) "97 \<le> u" "u \<le> 122" | (digit) "48 \<le> u" "u \<le> 57"
    | (dash) "u = 45" | (under) "u = 95"
    | (none) "\<not> (65 \<le> u \<and> u \<le> 90)" "\<not> (97 \<le> u \<and> u \<le> 122)" "\<not> (48 \<le> u \<and> u \<le> 57)" "u \<noteq> 45" "u \<noteq> 95"
    by blast
  then show ?thesis
  proof cases
    case upper
    from \<open>65 \<le> u\<close> obtain k where k: "u = 65 + k" by (auto simp: le_iff_add)
    then show ?thesis using tab [of k] v upper by (intro hit [of k]) (simp_all add: u_def [symmetric])
  next
    case lower
    from \<open>97 \<le> u\<close> obtain k where k: "u = 97 + k" by (auto simp: le_iff_add)
    then show ?thesis using tab [of "26 + k"] v lower by (intro hit [of "26 + k"]) (simp_all add: u_def [symmetric])
  next
    case digit
    then show ?thesis using tab [of "u + 4"] v digit by (intro hit [of "u + 4"]) (simp_all add: u_def [symmetric])
  next
    case dash
    then show ?thesis using tab [of 62] v by (intro hit [of 62]) (simp_all add: u_def [symmetric])
  next
    case under
    then show ?thesis using tab [of 63] v by (intro hit [of 63]) (simp_all add: u_def [symmetric])
  next
    case none
    then have "base64Value c = -1" unfolding v by (simp only: if_False)
    then show ?thesis by simp
  qed
qed

lemma base64Value_inv:
  assumes "\<not> base64Value c < 0"
  obtains i where "i < 64" "base64Value c = uint (i :: u32)" "b64_char i = c"
proof
  let ?i = "word_of_int (base64Value c) :: u32"
  from base64Value_range [of c] assms
  have v: "0 \<le> base64Value c" "base64Value c < 64" "b64_alphabet ! nat (base64Value c) = c" by auto
  have u: "uint ?i = base64Value c" using v(1,2) by (simp add: uint_word_of_int)
  then show "?i < 64" using v(2) by (simp add: word_less_def)
  show "base64Value c = uint ?i" using u by simp
  have "unat ?i = nat (base64Value c)" using u by (metis unat_eq_nat_uint)
  then show "b64_char ?i = c" using v(3) by (simp add: b64_char_def)
qed

text \<open>Six-bit groups: splitting three bytes and joining them again, bit by bit.\<close>

lemma sextet_less: "w AND 63 < (64 :: u32)"
  using word_and_le1 [of w 63] by (simp add: word_le_nat_alt word_less_nat_alt)

lemma and63: "(w AND 63 :: u32) = take_bit 6 w"
  by (simp add: take_bit_eq_mask mask_eq_exp_minus_1)

lemma word_of_uint [simp]: "word_of_int (uint w) = w"
  by simp

lemma join_sextets:
  assumes "\<And>n. bit v n \<Longrightarrow> n < 24"
  shows "push_bit 18 (drop_bit 18 v AND 63) OR push_bit 12 (drop_bit 12 v AND 63)
    OR push_bit 6 (drop_bit 6 v AND 63) OR (v AND 63) = (v :: u32)"
proof (rule bit_word_eqI)
  fix n
  assume "n < LENGTH(32)"
  then consider "n < 6" | "6 \<le> n" "n < 12" | "12 \<le> n" "n < 18" | "18 \<le> n" "n < 24" | "24 \<le> n" "n < 32" by fastforce
  then show "bit (push_bit 18 (drop_bit 18 v AND 63) OR push_bit 12 (drop_bit 12 v AND 63)
    OR push_bit 6 (drop_bit 6 v AND 63) OR (v AND 63)) n = bit v n"
    unfolding and63 using assms [of n] by cases (auto simp: bit_simps less_diff_conv2)
qed

lemma bytes_value:
  fixes a b c :: u8
  defines "v \<equiv> push_bit 16 (ucast a) OR push_bit 8 (ucast b) OR ucast c :: u32"
  shows "bit v n \<Longrightarrow> n < 24" and "ucast (drop_bit 16 v) = a" and "ucast (drop_bit 8 v) = b" and "ucast v = c"
proof -
  have small: "\<not> bit x n" if "8 \<le> n" for x :: u8 and n using that by (auto dest: bit_imp_le_length)
  show "bit v n \<Longrightarrow> n < 24"
    by (rule ccontr) (auto simp: v_def bit_simps small)
  show "ucast (drop_bit 16 v) = a" "ucast (drop_bit 8 v) = b" "ucast v = c"
    by (rule bit_word_eqI, auto simp: v_def bit_simps small)+
qed

lemma bit_lt64:
  assumes "x < (64 :: u32)" and "bit x n"
  shows "n < 6"
proof -
  have "take_bit 6 x = x" using assms(1) by (intro take_bit_word_small) (simp add: word_less_nat_alt)
  then show ?thesis using assms(2) by (metis bit_take_bit_iff)
qed

lemma sextets_value:
  fixes i j k l :: u32
  assumes "i < 64" "j < 64" "k < 64" "l < 64"
  defines "v \<equiv> push_bit 18 i OR push_bit 12 j OR push_bit 6 k OR l"
  shows "bit v n \<Longrightarrow> n < 24" "drop_bit 18 v AND 63 = i" "drop_bit 12 v AND 63 = j" "drop_bit 6 v AND 63 = k" "v AND 63 = l"
proof -
  note lt = assms(1-4) [THEN bit_lt64]
  show "bit v n \<Longrightarrow> n < 24"
    by (rule ccontr) (auto simp: v_def bit_simps dest!: lt)
  show "drop_bit 18 v AND 63 = i" "drop_bit 12 v AND 63 = j" "drop_bit 6 v AND 63 = k" "v AND 63 = l"
    unfolding and63 by (rule bit_word_eqI, auto simp: v_def bit_simps dest: lt)+
qed

lemma low_bits_zero:
  fixes j :: u32
  shows "uint j AND 0x0f = 0 \<longleftrightarrow> (\<forall>n < 4. \<not> bit j n)" and "uint j AND 0x03 = 0 \<longleftrightarrow> (\<forall>n < 2. \<not> bit j n)"
proof -
  have m: "uint j AND 0x0f = take_bit 4 (uint j)" "uint j AND 0x03 = take_bit 2 (uint j)"
    by (simp_all add: take_bit_eq_mask mask_eq_exp_minus_1)
  show "uint j AND 0x0f = 0 \<longleftrightarrow> (\<forall>n < 4. \<not> bit j n)" "uint j AND 0x03 = 0 \<longleftrightarrow> (\<forall>n < 2. \<not> bit j n)"
    unfolding m by (auto simp: bit_eq_iff bit_simps dest: bit_imp_le_length)
qed

lemma join_bytes:
  fixes v :: u32
  assumes "\<And>n. bit v n \<Longrightarrow> n < 24"
  shows "push_bit 16 (ucast (ucast (drop_bit 16 v) :: u8)) OR push_bit 8 (ucast (ucast (drop_bit 8 v) :: u8))
    OR ucast (ucast v :: u8) = (v :: u32)"
proof (rule bit_word_eqI)
  fix n
  assume "n < LENGTH(32)"
  then consider "n < 8" | "8 \<le> n" "n < 16" | "16 \<le> n" "n < 24" | "24 \<le> n" by fastforce
  then show "bit (push_bit 16 (ucast (ucast (drop_bit 16 v) :: u8)) OR push_bit 8 (ucast (ucast (drop_bit 8 v) :: u8))
    OR ucast (ucast v :: u8) :: u32) n = bit v n"
    using assms [of n] by cases (auto simp: bit_simps less_diff_conv2)
qed

text \<open>One and two bytes at the end.\<close>

lemma tail1_split:
  fixes a :: u8
  defines "v \<equiv> push_bit 16 (ucast a) :: u32"
  shows "uint (drop_bit 12 v AND 63) AND 0x0f = 0"
    and "word_of_int (push_bit 2 (uint (drop_bit 18 v AND 63)) OR drop_bit 4 (uint (drop_bit 12 v AND 63))) = a"
proof -
  show "uint (drop_bit 12 v AND 63) AND 0x0f = 0"
    unfolding low_bits_zero and63 by (auto simp: v_def bit_simps)
  show "word_of_int (push_bit 2 (uint (drop_bit 18 v AND 63)) OR drop_bit 4 (uint (drop_bit 12 v AND 63))) = a"
    unfolding and63
  proof (rule bit_word_eqI)
    fix n
    assume "n < LENGTH(8)"
    then consider "n < 2" | "2 \<le> n" "n < 8" by fastforce
    then show "bit (word_of_int (push_bit 2 (uint (take_bit 6 (drop_bit 18 v))) OR
        drop_bit 4 (uint (take_bit 6 (drop_bit 12 v)))) :: u8) n = bit a n"
      by cases (auto simp: v_def bit_simps less_diff_conv2)
  qed
qed

lemma tail1_join:
  fixes i j :: u32
  assumes "i < 64" "j < 64" "uint j AND 0x0f = 0"
  defines "x \<equiv> word_of_int (push_bit 2 (uint i) OR drop_bit 4 (uint j)) :: u8"
  shows "drop_bit 18 (push_bit 16 (ucast x) :: u32) AND 63 = i" "drop_bit 12 (push_bit 16 (ucast x) :: u32) AND 63 = j"
proof -
  note lt = assms(1,2) [THEN bit_lt64]
  have z: "n < 4 \<Longrightarrow> \<not> bit j n" for n using assms(3) by (simp add: low_bits_zero)
  show "drop_bit 18 (push_bit 16 (ucast x) :: u32) AND 63 = i"
    unfolding and63 by (rule bit_word_eqI) (auto simp: x_def bit_simps dest: lt)
  show "drop_bit 12 (push_bit 16 (ucast x) :: u32) AND 63 = j"
    unfolding and63
  proof (rule bit_word_eqI)
    fix n
    assume "n < LENGTH(32)"
    then consider "n < 4" | "4 \<le> n" "n < 6" | "6 \<le> n" by fastforce
    then show "bit (take_bit 6 (drop_bit 12 (push_bit 16 (ucast x) :: u32))) n = bit j n"
      using z [of n] by cases (auto simp: x_def bit_simps dest: lt)
  qed
qed

lemma tail2_split:
  fixes a b :: u8
  defines "v \<equiv> push_bit 16 (ucast a) OR push_bit 8 (ucast b) :: u32"
  shows "uint (drop_bit 6 v AND 63) AND 0x03 = 0"
    and "word_of_int (push_bit 2 (uint (drop_bit 18 v AND 63)) OR drop_bit 4 (uint (drop_bit 12 v AND 63))) = a"
    and "word_of_int (push_bit 4 (uint (drop_bit 12 v AND 63)) OR drop_bit 2 (uint (drop_bit 6 v AND 63))) = b"
proof -
  have small: "bit x n \<Longrightarrow> n < 8" for x :: u8 and n by (auto dest: bit_imp_le_length)
  show "uint (drop_bit 6 v AND 63) AND 0x03 = 0"
    unfolding low_bits_zero and63 by (auto simp: v_def bit_simps)
  show "word_of_int (push_bit 2 (uint (drop_bit 18 v AND 63)) OR drop_bit 4 (uint (drop_bit 12 v AND 63))) = a"
    unfolding and63
  proof (rule bit_word_eqI)
    fix n
    assume "n < LENGTH(8)"
    then consider "n < 2" | "2 \<le> n" "n < 8" by fastforce
    then show "bit (word_of_int (push_bit 2 (uint (take_bit 6 (drop_bit 18 v))) OR
        drop_bit 4 (uint (take_bit 6 (drop_bit 12 v)))) :: u8) n = bit a n"
      by cases (auto simp: v_def bit_simps less_diff_conv2 dest: small)
  qed
  show "word_of_int (push_bit 4 (uint (drop_bit 12 v AND 63)) OR drop_bit 2 (uint (drop_bit 6 v AND 63))) = b"
    unfolding and63
  proof (rule bit_word_eqI)
    fix n
    assume "n < LENGTH(8)"
    then consider "n < 4" | "4 \<le> n" "n < 8" by fastforce
    then show "bit (word_of_int (push_bit 4 (uint (take_bit 6 (drop_bit 12 v))) OR
        drop_bit 2 (uint (take_bit 6 (drop_bit 6 v)))) :: u8) n = bit b n"
      by cases (auto simp: v_def bit_simps less_diff_conv2 dest: small)
  qed
qed

lemma tail2_join:
  fixes i j k :: u32
  assumes "i < 64" "j < 64" "k < 64" "uint k AND 0x03 = 0"
  defines "x \<equiv> word_of_int (push_bit 2 (uint i) OR drop_bit 4 (uint j)) :: u8"
    and "y \<equiv> word_of_int (push_bit 4 (uint j) OR drop_bit 2 (uint k)) :: u8"
  defines "v \<equiv> push_bit 16 (ucast x) OR push_bit 8 (ucast y) :: u32"
  shows "drop_bit 18 v AND 63 = i" "drop_bit 12 v AND 63 = j" "drop_bit 6 v AND 63 = k"
proof -
  note lt = assms(1,2,3) [THEN bit_lt64]
  have z: "n < 2 \<Longrightarrow> \<not> bit k n" for n using assms(4) by (simp add: low_bits_zero)
  show "drop_bit 18 v AND 63 = i"
    unfolding and63 by (rule bit_word_eqI) (auto simp: v_def x_def y_def bit_simps dest: lt)
  show "drop_bit 12 v AND 63 = j"
    unfolding and63
  proof (rule bit_word_eqI)
    fix n
    assume "n < LENGTH(32)"
    then consider "n < 4" | "4 \<le> n" "n < 6" | "6 \<le> n" by fastforce
    then show "bit (take_bit 6 (drop_bit 12 v)) n = bit j n"
      by cases (auto simp: v_def x_def y_def bit_simps dest: lt)
  qed
  show "drop_bit 6 v AND 63 = k"
    unfolding and63
  proof (rule bit_word_eqI)
    fix n
    assume "n < LENGTH(32)"
    then consider "n < 2" | "2 \<le> n" "n < 6" | "6 \<le> n" by fastforce
    then show "bit (take_bit 6 (drop_bit 6 v)) n = bit k n"
      using z [of n] by cases (auto simp: v_def x_def y_def bit_simps Suc2_diff dest: lt)
  qed
qed

lemma b64_decode_encode: "b64_decode (b64_encode bs) = Some bs"
proof (induction bs rule: b64_encode.induct)
  case (1 a b c rest)
  let ?v = "push_bit 16 (ucast a) OR push_bit 8 (ucast b) OR ucast c :: u32"
  note bv = bytes_value(1) [where a = a and b = b and c = c]
  have nn: "\<not> uint (w :: u32) < 0" for w by simp
  show ?case
    unfolding b64_encode.simps Let_def b64_decode.simps base64Value_char [OF sextet_less] word_of_uint
    by (simp only: join_sextets [OF bv] bytes_value(2-4) 1 nn if_False simp_thms option.map)
next
  case (2 a)
  show ?case by (simp add: Let_def base64Value_char sextet_less tail1_split)
next
  case (3 a b)
  have nn: "\<not> uint (w :: u32) < 0" for w by simp
  show ?case
    unfolding b64_encode.simps Let_def b64_decode.simps base64Value_char [OF sextet_less]
    by (simp only: tail2_split nn if_False simp_thms)
next
  case 4
  show ?case by simp
qed

lemma b64_encode_decode: "b64_decode cs = Some bs \<Longrightarrow> b64_encode bs = cs"
proof (induction cs arbitrary: bs rule: b64_decode.induct)
  case (1 ca cb cc cd rest)
  from 1(2) have ge: "\<not> base64Value ca < 0" "\<not> base64Value cb < 0" "\<not> base64Value cc < 0" "\<not> base64Value cd < 0"
    by (auto simp: Let_def split: if_splits)
  from ge(1) obtain i where i: "i < 64" "base64Value ca = uint (i :: u32)" "b64_char i = ca" by (rule base64Value_inv)
  from ge(2) obtain j where j: "j < 64" "base64Value cb = uint (j :: u32)" "b64_char j = cb" by (rule base64Value_inv)
  from ge(3) obtain k where k: "k < 64" "base64Value cc = uint (k :: u32)" "b64_char k = cc" by (rule base64Value_inv)
  from ge(4) obtain l where l: "l < 64" "base64Value cd = uint (l :: u32)" "b64_char l = cd" by (rule base64Value_inv)
  let ?v = "push_bit 18 i OR push_bit 12 j OR push_bit 6 k OR l"
  from 1(2) obtain out where out: "b64_decode rest = Some out"
    and bs: "bs = ucast (drop_bit 16 ?v) # ucast (drop_bit 8 ?v) # ucast ?v # out"
    using ge by (auto simp: Let_def i(2) j(2) k(2) l(2) split: if_splits)
  have enc: "b64_encode out = rest"
    using 1(1) [OF refl refl refl refl _ refl out] ge by blast
  have join: "push_bit 16 (ucast (ucast (drop_bit 16 ?v) :: u8)) OR push_bit 8 (ucast (ucast (drop_bit 8 ?v) :: u8))
      OR ucast (ucast ?v :: u8) = ?v"
    by (rule join_bytes) (rule sextets_value(1) [OF i(1) j(1) k(1) l(1)])
  show ?case
    unfolding bs b64_encode.simps Let_def join
    by (simp only: sextets_value [OF i(1) j(1) k(1) l(1)] i(3) j(3) k(3) l(3) enc)
next
  case (2 ca cb)
  then have ge: "\<not> base64Value ca < 0" "\<not> base64Value cb < 0" by (auto simp: Let_def split: if_splits)
  from ge(1) obtain i where i: "i < 64" "base64Value ca = uint (i :: u32)" "b64_char i = ca" by (rule base64Value_inv)
  from ge(2) obtain j where j: "j < 64" "base64Value cb = uint (j :: u32)" "b64_char j = cb" by (rule base64Value_inv)
  from 2 have z: "uint j AND 0x0f = 0" and bs: "bs = [word_of_int (push_bit 2 (uint i) OR drop_bit 4 (uint j))]"
    using ge by (auto simp: Let_def i(2) j(2) split: if_splits)
  show ?case
    unfolding bs b64_encode.simps Let_def by (simp only: tail1_join [OF i(1) j(1) z] i(3) j(3))
next
  case (3 ca cb cc)
  then have ge: "\<not> base64Value ca < 0" "\<not> base64Value cb < 0" "\<not> base64Value cc < 0"
    by (auto simp: Let_def split: if_splits)
  from ge(1) obtain i where i: "i < 64" "base64Value ca = uint (i :: u32)" "b64_char i = ca" by (rule base64Value_inv)
  from ge(2) obtain j where j: "j < 64" "base64Value cb = uint (j :: u32)" "b64_char j = cb" by (rule base64Value_inv)
  from ge(3) obtain k where k: "k < 64" "base64Value cc = uint (k :: u32)" "b64_char k = cc" by (rule base64Value_inv)
  from 3 have z: "uint k AND 0x03 = 0" and bs: "bs = [word_of_int (push_bit 2 (uint i) OR drop_bit 4 (uint j)),
      word_of_int (push_bit 4 (uint j) OR drop_bit 2 (uint k))]"
    using ge by (auto simp: Let_def i(2) j(2) k(2) split: if_splits)
  show ?case
    unfolding bs b64_encode.simps Let_def by (simp only: tail2_join [OF i(1) j(1) k(1) z] i(3) j(3) k(3))
qed simp_all

lemma length_b64_encode: "length (b64_encode bs) = base64UrlEncodedBytes (length bs)"
proof (induction bs rule: b64_encode.induct)
  case (1 a b c rest)
  have "(3 + length rest) div 3 = 1 + length rest div 3" "(3 + length rest) mod 3 = length rest mod 3" by simp_all
  with 1 show ?case by (simp add: base64UrlEncodedBytes_def Let_def)
qed (simp_all add: base64UrlEncodedBytes_def Let_def)

lemma decoded_encoded_length: "base64DecodedBytes (base64UrlEncodedBytes n) = n"
proof -
  have "n mod 3 = 0 \<or> n mod 3 = 1 \<or> n mod 3 = 2" by linarith
  then show ?thesis
    by (auto simp: base64DecodedBytes_def base64UrlEncodedBytes_def Let_def)
qed

lemma encoded_not_1: "base64UrlEncodedBytes n mod 4 \<noteq> 1"
proof -
  have "n mod 3 = 0 \<or> n mod 3 = 1 \<or> n mod 3 = 2" by linarith
  then show ?thesis by (auto simp: base64UrlEncodedBytes_def Let_def)
qed

interpretation b64: codec b64_encode b64_decode "\<lambda>_. True"
  by unfold_locales (simp_all add: b64_decode_encode b64_encode_decode)

lemma encodeBase64Url_eq:
  "encodeBase64Url (Some bs) (Some cap) =
     (if base64UrlEncodedBytes (length bs) \<le> cap then Some (b64_encode bs) else None)"
  by (simp add: encodeBase64Url_def Let_def length_b64_encode)

lemma decodeBase64Url_eq:
  "decodeBase64Url (Some cs) (Some cap) =
     (case b64_decode cs of None \<Rightarrow> None | Some bs \<Rightarrow> if length bs \<le> cap then Some bs else None)"
proof (cases "b64_decode cs")
  case None
  then show ?thesis by (simp add: decodeBase64Url_def)
next
  case (Some bs)
  then have "cs = b64_encode bs" using b64.dec_iff by blast
  then have "length cs mod 4 \<noteq> 1" "base64DecodedBytes (length cs) = length bs"
    using encoded_not_1 [of "length bs"] by (simp_all add: length_b64_encode decoded_encoded_length)
  with Some show ?thesis by (simp add: decodeBase64Url_def not_le)
qed

text \<open>
  C28. The base64url codec is exact and canonical: the decoder accepts a text for a buffer of
  the given capacity exactly when it is the encoder's output for some bytes that fit the
  buffer, and returns those bytes; so no two texts decode to the same bytes (padding, non-zero
  trailing bits and foreign characters are refused) and encoding never fails within capacity.
\<close>

theorem base64url_exact:
  "(decodeBase64Url (Some cs) (Some cap) = Some bs \<longleftrightarrow>
      length bs \<le> cap \<and> encodeBase64Url (Some bs) (Some (length cs)) = Some cs)
   \<and> (encodeBase64Url (Some bs) (Some n) \<noteq> None \<longleftrightarrow> base64UrlEncodedBytes (length bs) \<le> n)"
proof -
  have "decodeBase64Url (Some cs) (Some cap) = Some bs \<longleftrightarrow> length bs \<le> cap \<and> b64_decode cs = Some bs"
    by (auto simp: decodeBase64Url_eq split: option.splits)
  also have "\<dots> \<longleftrightarrow> length bs \<le> cap \<and> cs = b64_encode bs" by (simp add: b64.dec_iff)
  also have "\<dots> \<longleftrightarrow> length bs \<le> cap \<and> encodeBase64Url (Some bs) (Some (length cs)) = Some cs"
    by (auto simp: encodeBase64Url_eq length_b64_encode)
  finally show ?thesis by (simp add: encodeBase64Url_eq)
qed

subsection \<open>The decimal round trip\<close>

text \<open>The value of a digit string and the digits of a value, over natural numbers.\<close>

definition digits_value :: "nat \<Rightarrow> bytes \<Rightarrow> nat" where
  "digits_value v cs = foldl (\<lambda>v c. v * 10 + (unat c - 48)) v cs"

definition is_digit :: "u8 \<Rightarrow> bool" where
  "is_digit c \<longleftrightarrow> 48 \<le> unat c \<and> unat c \<le> 57"

lemma digits_value_mono: "v \<le> digits_value v cs"
proof (induction cs arbitrary: v)
  case (Cons c cs)
  have "v \<le> v * 10 + (unat c - 48)" by simp
  also have "\<dots> \<le> digits_value (v * 10 + (unat c - 48)) cs" by (rule Cons)
  finally show ?case by (simp add: digits_value_def)
qed (simp add: digits_value_def)

lemma unat_digit: "is_digit c \<Longrightarrow> unat (ucast (c - 48) :: u64) = unat c - 48"
proof -
  assume d: "is_digit c"
  have s: "unat (c - 48) = unat c - 48" using d by (simp add: is_digit_def unat_sub word_le_nat_alt)
  have "unat c - 48 \<le> 9" using d unfolding is_digit_def by linarith
  then have "unat c - 48 < 2 ^ 64" by simp
  with s show ?thesis by (simp add: unsigned_ucast_eq take_bit_nat_eq_self)
qed

lemma parse_overflow_test:
  assumes d: "unat d \<le> 9"
  shows "\<not> v > (18446744073709551615 - d) div (10 :: u64) \<longleftrightarrow> unat v * 10 + unat d < 18446744073709551616"
proof -
  have le: "d \<le> 18446744073709551615" using unat64_lt [of d] by (simp add: word_le_nat_alt)
  have "unat ((18446744073709551615 - d) div (10 :: u64)) = (18446744073709551615 - unat d) div 10"
    using le by (simp add: unat_div unat_sub)
  then have "\<not> v > (18446744073709551615 - d) div (10 :: u64) \<longleftrightarrow> unat v \<le> (18446744073709551615 - unat d) div 10"
    by (simp add: word_less_nat_alt not_less)
  also have "\<dots> \<longleftrightarrow> unat v * 10 \<le> 18446744073709551615 - unat d"
    by (simp add: less_eq_div_iff_mult_less_eq)
  also have "\<dots> \<longleftrightarrow> unat v * 10 + unat d < 18446744073709551616" using d by linarith
  finally show ?thesis .
qed

lemma parse_digits_exact:
  "parse_digits v cs = (if list_all is_digit cs \<and> digits_value (unat v) cs < 18446744073709551616
     then Some (word_of_nat (digits_value (unat v) cs)) else None)"
proof (induction cs arbitrary: v)
  case Nil
  then show ?case using unat64_lt [of v] by (simp add: digits_value_def)
next
  case (Cons c cs)
  have dig: "\<not> (c < 48 \<or> c > 57) \<longleftrightarrow> is_digit c"
    by (auto simp: is_digit_def word_less_nat_alt)
  show ?case
  proof (cases "is_digit c")
    case False
    then show ?thesis using dig by simp
  next
    case True
    let ?d = "ucast (c - 48) :: u64"
    have d: "unat ?d = unat c - 48" by (rule unat_digit [OF True])
    have d9: "unat ?d \<le> 9" using True unfolding d is_digit_def by linarith
    have ok: "\<not> (c < 48 \<or> c > 57)" using dig True by simp
    show ?thesis
    proof (cases "v > (18446744073709551615 - ?d) div 10")
      case over: True
      then have "\<not> unat v * 10 + (unat c - 48) < 18446744073709551616"
        using parse_overflow_test [OF d9, of v] by (simp add: d)
      then have "\<not> digits_value (unat v) (c # cs) < 18446744073709551616"
        using digits_value_mono [of "unat v * 10 + (unat c - 48)" cs] by (simp add: digits_value_def)
      with over show ?thesis unfolding parse_digits.simps if_not_P [OF ok] Let_def by simp
    next
      case fits: False
      then have lt: "unat v * 10 + (unat c - 48) < 18446744073709551616"
        using parse_overflow_test [OF d9, of v] by (simp add: d)
      have "unat (v * 10) = unat v * 10" using lt by (simp add: unat_word_ariths)
      then have "unat (v * 10 + ?d) = unat v * 10 + (unat c - 48)"
        using lt by (subst unat_plus_small) (simp_all add: d)
      with Cons [of "v * 10 + ?d"] fits True show ?thesis
        unfolding parse_digits.simps if_not_P [OF ok] Let_def if_not_P [OF fits]
        by (simp add: digits_value_def)
    qed
  qed
qed

lemma digits_value_snoc: "digits_value v (cs @ [c]) = digits_value v cs * 10 + (unat c - 48)"
  by (simp add: digits_value_def)

lemma digits_value_pos:
  assumes "list_all is_digit cs" and "cs \<noteq> []" and "hd cs \<noteq> 48"
  shows "digits_value 0 cs \<noteq> 0"
proof -
  obtain c r where cs: "cs = c # r" using assms(2) by (cases cs) auto
  have "48 \<le> unat c" "unat c \<noteq> 48" using assms(1,3) by (simp_all add: cs is_digit_def word_unat_eq_iff)
  then have "0 < unat c - 48" by linarith
  moreover have "unat c - 48 \<le> digits_value (unat c - 48) r" by (rule digits_value_mono)
  ultimately show ?thesis by (simp add: cs digits_value_def)
qed

lemma digit_of_mod: "unat (48 + ucast (v mod 10) :: u8) = 48 + unat v mod 10" for v :: u64
proof -
  have "unat v mod 10 < 10" by simp
  then have "unat (ucast (v mod 10) :: u8) = unat v mod 10"
    by (simp add: unsigned_ucast_eq unat_mod take_bit_nat_eq_self)
  with \<open>unat v mod 10 < 10\<close> show ?thesis by (subst unat_plus_small) simp_all
qed

lemma unat_div10: "unat (v div 10 :: u64) = unat v div 10"
  by (simp add: unat_div)

text \<open>The printed digits, when the buffer is large enough.\<close>

lemma format_rev_props:
  "unat v < 10 ^ Suc room \<Longrightarrow> list_all is_digit (format_rev (Suc room) v)
     \<and> digits_value 0 (rev (format_rev (Suc room) v)) = unat v
     \<and> length (format_rev (Suc room) v) \<le> Suc room
     \<and> (v \<noteq> 0 \<longrightarrow> last (format_rev (Suc room) v) \<noteq> 48)"
proof (induction room arbitrary: v)
  case 0
  then have "unat v div 10 = 0" "unat v mod 10 = unat v" by simp_all
  then show ?case
    using 0 digit_of_mod [of v]
    by (simp add: word_unat_eq_iff unat_div10 is_digit_def digits_value_def)
next
  case (Suc room)
  let ?c = "48 + ucast (v mod 10) :: u8"
  have c: "unat ?c = 48 + unat v mod 10" by (rule digit_of_mod)
  then have d: "is_digit ?c" "unat ?c - 48 = unat v mod 10" by (simp_all add: is_digit_def)
  show ?case
  proof (cases "v div 10 = 0")
    case True
    then have "unat v div 10 = 0" using unat_div10 [of v] by simp
    then have "unat v mod 10 = unat v" by simp
    with True d c show ?thesis by (simp add: digits_value_def word_unat_eq_iff)
  next
    case False
    have "unat (v div 10) < 10 ^ Suc room" using Suc.prems by (simp add: unat_div10 less_mult_imp_div_less)
    note IH = Suc.IH [OF this]
    have step: "format_rev (Suc (Suc room)) v = ?c # format_rev (Suc room) (v div 10)" using False by simp
    have ne: "format_rev (Suc room) (v div 10) \<noteq> []" by simp
    show ?thesis unfolding step using IH d False ne
      by (simp add: digits_value_snoc unat_div10 del: format_rev.simps)
  qed
qed

lemma format_rev_ne: "format_rev (Suc room) v \<noteq> []"
  by simp

lemma format_rev_canonical:
  "list_all is_digit cs \<Longrightarrow> cs \<noteq> [] \<Longrightarrow> (length cs > 1 \<longrightarrow> hd cs \<noteq> 48) \<Longrightarrow> length cs \<le> room \<Longrightarrow>
   unat v = digits_value 0 cs \<Longrightarrow> format_rev room v = rev cs"
proof (induction cs arbitrary: room v rule: rev_induct)
  case (snoc c cs)
  obtain r where r: "room = Suc r" using snoc.prems(4) by (cases room) simp_all
  have dig: "is_digit c" "list_all is_digit cs" using snoc.prems(1) by simp_all
  have d9: "unat c - 48 \<le> 9" using dig(1) unfolding is_digit_def by linarith
  have v: "unat v = digits_value 0 cs * 10 + (unat c - 48)" using snoc.prems(5) by (simp add: digits_value_snoc)
  have m: "unat v mod 10 = unat c - 48" "unat v div 10 = digits_value 0 cs" using v d9 by simp_all
  have c: "48 + ucast (v mod 10) = c"
    using digit_of_mod [of v] m(1) dig(1) by (simp add: word_unat_eq_iff is_digit_def)
  show ?case
  proof (cases "cs = []")
    case True
    then have "unat (v div 10) = 0" using m(2) by (simp add: unat_div10 digits_value_def)
    then have "v div 10 = 0" by (simp add: word_unat_eq_iff)
    with True c show ?thesis by (simp add: r)
  next
    case False
    then have hd: "hd cs \<noteq> 48" using snoc.prems(3) by simp
    have dv: "unat (v div 10) = digits_value 0 cs" using m(2) by (simp add: unat_div10)
    have "v div 10 \<noteq> 0" using digits_value_pos [OF dig(2) False hd] dv by auto
    moreover have "format_rev r (v div 10) = rev cs"
      using snoc.prems(4) hd by (intro snoc.IH [OF dig(2) False _ _ dv]) (simp_all add: r)
    ultimately show ?thesis using c by (simp add: r)
  qed
qed simp

interpretation decimal: codec formatDecimal "\<lambda>b. parseDecimal (Some b)" "\<lambda>v. v \<noteq> 0"
proof
  fix v :: u64
  assume nz: "v \<noteq> 0"
  have "unat v < 10 ^ Suc 19" using unat64_lt [of v] by simp
  note p = format_rev_props [OF this]
  let ?r = "format_rev (Suc 19) v"
  have f: "formatDecimal v = rev ?r" by (simp add: formatDecimal_def eval_nat_numeral del: format_rev.simps)
  have ne: "?r \<noteq> []" by (rule format_rev_ne)
  have hd: "hd (formatDecimal v) \<noteq> 48" unfolding f using p nz ne by (simp add: hd_rev del: format_rev.simps)
  have "parse_digits 0 (formatDecimal v) = Some v"
    unfolding f parse_digits_exact using p unat64_lt [of v] by (simp add: list_all_iff del: format_rev.simps)
  moreover have "length (formatDecimal v) \<le> 20" "formatDecimal v \<noteq> []"
    unfolding f using p ne by (simp_all del: format_rev.simps)
  ultimately show "parseDecimal (Some (formatDecimal v)) = Some v"
    using hd nz by (simp add: parseDecimal_def)
next
  fix b and v :: u64
  assume "parseDecimal (Some b) = Some v"
  then have b: "b \<noteq> []" "length b \<le> 20" "length b > 1 \<longrightarrow> hd b \<noteq> 48" "v \<noteq> 0" "parse_digits 0 b = Some v"
    by (auto simp: parseDecimal_def split: if_splits option.splits)
  from b(5) have d: "list_all is_digit b" "unat v = digits_value 0 b"
    by (auto simp: parse_digits_exact unat_of_nat take_bit_nat_eq_self split: if_splits)
  have "format_rev 20 v = rev b" by (rule format_rev_canonical [OF d(1) b(1,3,2) d(2)])
  with b(4) show "v \<noteq> 0 \<and> formatDecimal v = b" by (simp add: formatDecimal_def)
qed

text \<open>
  Sequence numbers are read back exactly: a digit string parses to a value exactly when
  the value is not zero and the string is the one printed for it, so leading zeros, signs,
  empty strings, zero and everything from 2^64 on are refused, and printing never truncates.
\<close>

lemma decimal_exact:
  "parseDecimal (Some b) = Some v \<longleftrightarrow> v \<noteq> 0 \<and> b = formatDecimal v"
  by (rule decimal.dec_iff)

end
