(* ===== verification/Companion_Frame.thy ===== *)
theory Companion_Frame
  imports Companion_Codec
begin

text \<open>
  Length-prefixed frames of the companion link, \<^verbatim>\<open>LengthFrameParser\<close> and \<^verbatim>\<open>encodeLengthFrame\<close>
  of \<^verbatim>\<open>src/src/kitsu_companion_protocol.{h,cpp}\<close>.  The parser is shown to refine a plain
  buffer of the bytes received since the last reset, whatever the chunks they arrive in.
\<close>

definition kFrameHeaderBytes :: nat where "kFrameHeaderBytes = 4"
definition kMaximumFrameBytes :: nat where "kMaximumFrameBytes = 16 * 1024"
definition kMaximumHandshakeFrameBytes :: nat where "kMaximumHandshakeFrameBytes = 1024"
definition kFrameAssemblyTimeoutMs :: u32 where "kFrameAssemblyTimeoutMs = 10000"

lemmas frame_consts = kFrameHeaderBytes_def kMaximumFrameBytes_def

datatype FrameResult = NeedMore | Ready | FrameInvalidArgument | EmptyFrame | Oversize | TimedOut
  | PipelinedFrame | FrameOutputTooSmall

text \<open>The caller's storage is the byte array behind the pointer, \<open>None\<close> for a null pointer.\<close>

record LengthFrameParser =
  lp_storage :: "bytes option"
  lp_storageBytes :: nat
  lp_maximumFrameBytes :: nat
  lp_timeoutMs :: u32
  lp_startedAt :: u32
  lp_header :: bytes
  lp_headerBytes :: nat
  lp_expectedBytes :: nat
  lp_receivedBytes :: nat
  lp_started :: bool
  lp_ready :: bool

definition parser0 :: LengthFrameParser where
  "parser0 = \<lparr>lp_storage = None, lp_storageBytes = 0, lp_maximumFrameBytes = 0, lp_timeoutMs = 0,
     lp_startedAt = 0, lp_header = replicate 4 0, lp_headerBytes = 0, lp_expectedBytes = 0,
     lp_receivedBytes = 0, lp_started = False, lp_ready = False\<rparr>"

definition lp_reset :: "LengthFrameParser \<Rightarrow> LengthFrameParser" where
  "lp_reset p = p\<lparr>lp_header := replicate 4 0, lp_headerBytes := 0, lp_expectedBytes := 0,
     lp_receivedBytes := 0, lp_startedAt := 0, lp_started := False, lp_ready := False\<rparr>"

definition lp_begin :: "bytes option \<Rightarrow> nat \<Rightarrow> nat \<Rightarrow> u32 \<Rightarrow> LengthFrameParser \<Rightarrow> bool \<times> LengthFrameParser" where
  "lp_begin storage storageBytes maximumFrameBytes timeoutMs p =
     (let p = lp_reset p in
      if storage = None \<or> storageBytes = 0 \<or> maximumFrameBytes = 0 \<or> maximumFrameBytes > storageBytes
         \<or> maximumFrameBytes > kMaximumFrameBytes \<or> timeoutMs = 0
      then (False, p\<lparr>lp_storage := None\<rparr>)
      else (True, p\<lparr>lp_storage := storage, lp_storageBytes := storageBytes,
              lp_maximumFrameBytes := maximumFrameBytes, lp_timeoutMs := timeoutMs\<rparr>))"

definition lp_poll :: "u32 \<Rightarrow> LengthFrameParser \<Rightarrow> FrameResult \<times> LengthFrameParser" where
  "lp_poll nowMillis p =
     (if lp_ready p then (Ready, p)
      else if lp_started p \<and> deadlineExpired nowMillis (lp_startedAt p) (lp_timeoutMs p)
      then (TimedOut, lp_reset p)
      else (NeedMore, p))"

definition overwrite :: "bytes \<Rightarrow> nat \<Rightarrow> bytes \<Rightarrow> bytes" where
  "overwrite dst at src = take at dst @ src @ drop (at + length src) dst"

text \<open>The part of \<^verbatim>\<open>feed\<close> after the deadline test: fill the header, then the body.\<close>

definition lp_accept :: "bytes \<Rightarrow> LengthFrameParser \<Rightarrow> FrameResult \<times> LengthFrameParser" where
  "lp_accept input p =
     (let cursor = min (kFrameHeaderBytes - lp_headerBytes p) (length input);
          p = p\<lparr>lp_header := overwrite (lp_header p) (lp_headerBytes p) (take cursor input),
                lp_headerBytes := lp_headerBytes p + cursor\<rparr>;
          fresh = lp_headerBytes p = kFrameHeaderBytes \<and> lp_expectedBytes p = 0;
          p = (if fresh then p\<lparr>lp_expectedBytes := unat (getU32Be (lp_header p))\<rparr> else p)
      in if fresh \<and> lp_expectedBytes p = 0 then (EmptyFrame, lp_reset p)
         else if fresh \<and> (lp_expectedBytes p > lp_maximumFrameBytes p \<or> lp_expectedBytes p > lp_storageBytes p)
         then (Oversize, lp_reset p)
         else if lp_headerBytes p < kFrameHeaderBytes then (NeedMore, p)
         else let remaining = lp_expectedBytes p - lp_receivedBytes p;
                  available = length input - cursor;
                  copyBytes = (if available < remaining then available else remaining);
                  p = (if copyBytes \<noteq> 0
                    then p\<lparr>lp_storage := Some (overwrite (the (lp_storage p)) (lp_receivedBytes p)
                             (take copyBytes (drop cursor input))),
                           lp_receivedBytes := lp_receivedBytes p + copyBytes\<rparr> else p);
                  cursor = cursor + copyBytes
              in if cursor \<noteq> length input then (PipelinedFrame, lp_reset p)
                 else if lp_receivedBytes p = lp_expectedBytes p then (Ready, p\<lparr>lp_ready := True\<rparr>)
                 else (NeedMore, p))"

text \<open>
  A non-null input with its length is \<open>Some\<close> of its bytes (a null pointer with count zero is
  \<open>Some []\<close>), \<open>None\<close> a null pointer with a non-zero count.
\<close>

definition lp_feed :: "bytes option \<Rightarrow> u32 \<Rightarrow> LengthFrameParser \<Rightarrow> FrameResult \<times> LengthFrameParser" where
  "lp_feed input nowMillis p =
     (if lp_storage p = None \<or> input = None then (FrameInvalidArgument, p)
      else if the input = [] then lp_poll nowMillis p
      else if lp_ready p then (PipelinedFrame, lp_reset p)
      else if \<not> lp_started p
      then lp_accept (the input) (p\<lparr>lp_started := True, lp_startedAt := nowMillis\<rparr>)
      else if deadlineExpired nowMillis (lp_startedAt p) (lp_timeoutMs p) then (TimedOut, lp_reset p)
      else lp_accept (the input) p)"

definition lp_frame :: "LengthFrameParser \<Rightarrow> bytes option" where
  "lp_frame p = (if \<not> lp_ready p then None else Some (take (lp_receivedBytes p) (the (lp_storage p))))"

definition lp_consume :: "LengthFrameParser \<Rightarrow> LengthFrameParser" where
  "lp_consume p = lp_reset p"

definition encodeLengthFrame :: "bytes option \<Rightarrow> nat option \<Rightarrow> FrameResult \<times> bytes" where
  "encodeLengthFrame payload outputCapacity =
     (case (payload, outputCapacity) of
        (Some bs, Some capacity) \<Rightarrow>
          if bs = [] then (EmptyFrame, [])
          else if length bs > kMaximumFrameBytes \<or> length bs > 4294967295 then (Oversize, [])
          else if capacity < kFrameHeaderBytes + length bs then (FrameOutputTooSmall, [])
          else (Ready, putU32Be (word_of_nat (length bs)) @ bs)
      | _ \<Rightarrow> (FrameInvalidArgument, []))"

subsection \<open>The buffer the parser implements\<close>

text \<open>The bytes received since the last reset.\<close>

definition received :: "LengthFrameParser \<Rightarrow> bytes" where
  "received p = take (lp_headerBytes p) (lp_header p) @ take (lp_receivedBytes p) (the (lp_storage p))"

definition frame_length :: "bytes \<Rightarrow> nat" where
  "frame_length b = unat (getU32Be b)"

text \<open>What a buffer of received bytes means.\<close>

definition classify :: "nat \<Rightarrow> bytes \<Rightarrow> FrameResult" where
  "classify maximum b =
     (if length b < 4 then NeedMore
      else if frame_length b = 0 then EmptyFrame
      else if frame_length b > maximum then Oversize
      else if length b > 4 + frame_length b then PipelinedFrame
      else if length b = 4 + frame_length b then Ready
      else NeedMore)"

definition parser_wf :: "LengthFrameParser \<Rightarrow> bool" where
  "parser_wf p \<longleftrightarrow> (\<exists>st. lp_storage p = Some st \<and> length st = lp_storageBytes p)
     \<and> 0 < lp_maximumFrameBytes p \<and> lp_maximumFrameBytes p \<le> lp_storageBytes p
     \<and> lp_maximumFrameBytes p \<le> 16384 \<and> length (lp_header p) = 4 \<and> lp_headerBytes p \<le> 4
     \<and> (lp_headerBytes p < 4 \<longrightarrow> lp_expectedBytes p = 0 \<and> lp_receivedBytes p = 0)
     \<and> (lp_headerBytes p = 4 \<longrightarrow> lp_expectedBytes p = frame_length (lp_header p)
          \<and> 0 < lp_expectedBytes p \<and> lp_expectedBytes p \<le> lp_maximumFrameBytes p)
     \<and> lp_receivedBytes p \<le> lp_expectedBytes p
     \<and> (lp_ready p \<longleftrightarrow> lp_headerBytes p = 4 \<and> lp_receivedBytes p = lp_expectedBytes p)
     \<and> (\<not> lp_started p \<longrightarrow> lp_headerBytes p = 0)"

lemma parser_wf_reset: "parser_wf p \<Longrightarrow> parser_wf (lp_reset p)"
  by (auto simp: parser_wf_def lp_reset_def)

lemma received_reset [simp]: "received (lp_reset p) = []"
  by (simp add: received_def lp_reset_def)

lemma lp_begin_wf:
  assumes "lp_begin storage n m t p = (True, p')" and "storage = Some st" and "length st = n"
  shows "parser_wf p' \<and> received p' = [] \<and> lp_maximumFrameBytes p' = m"
  using assms
  by (auto simp: lp_begin_def Let_def lp_reset_def parser_wf_def received_def frame_consts split: if_splits)

lemma overwrite_simps [simp]:
  "at + length src \<le> length dst \<Longrightarrow> length (overwrite dst at src) = length dst"
  "at + length src \<le> length dst \<Longrightarrow> take (at + length src) (overwrite dst at src) = take at dst @ src"
  "at \<le> length dst \<Longrightarrow> take at (overwrite dst at src) = take at dst"
  by (auto simp: overwrite_def min_def) (use length_greater_0_conv [of src] in linarith)

lemma getU32Be_take4: "length b \<ge> 4 \<Longrightarrow> getU32Be (take 4 b) = getU32Be b"
  by (simp add: getU32Be_def)

lemma getU32Be_append4: "4 \<le> length a \<Longrightarrow> getU32Be (a @ b) = getU32Be a"
  by (auto simp: getU32Be_def nth_append)

text \<open>The body part of \<^verbatim>\<open>feed\<close>, for a parser whose header is complete.\<close>

definition lp_body :: "bytes \<Rightarrow> LengthFrameParser \<Rightarrow> FrameResult \<times> LengthFrameParser" where
  "lp_body rest p =
     (let remaining = lp_expectedBytes p - lp_receivedBytes p;
          copyBytes = (if length rest < remaining then length rest else remaining);
          p = (if copyBytes \<noteq> 0
            then p\<lparr>lp_storage := Some (overwrite (the (lp_storage p)) (lp_receivedBytes p) (take copyBytes rest)),
                   lp_receivedBytes := lp_receivedBytes p + copyBytes\<rparr> else p)
      in if copyBytes \<noteq> length rest then (PipelinedFrame, lp_reset p)
         else if lp_receivedBytes p = lp_expectedBytes p then (Ready, p\<lparr>lp_ready := True\<rparr>)
         else (NeedMore, p))"

text \<open>A parser with a complete, accepted header, before the body of this input is stored.\<close>

definition header_done :: "LengthFrameParser \<Rightarrow> bool" where
  "header_done p \<longleftrightarrow> (\<exists>st. lp_storage p = Some st \<and> length st = lp_storageBytes p)
     \<and> lp_maximumFrameBytes p \<le> lp_storageBytes p \<and> lp_maximumFrameBytes p \<le> 16384
     \<and> length (lp_header p) = 4 \<and> lp_headerBytes p = 4 \<and> lp_expectedBytes p = frame_length (lp_header p)
     \<and> 0 < lp_expectedBytes p \<and> lp_expectedBytes p \<le> lp_maximumFrameBytes p
     \<and> lp_receivedBytes p < lp_expectedBytes p \<and> \<not> lp_ready p \<and> lp_started p"

lemma lp_body_range: "fst (lp_body rest p) \<noteq> PipelinedFrame \<longleftrightarrow> fst (lp_body rest p) \<in> {NeedMore, Ready}"
  by (simp add: lp_body_def Let_def)

lemma lp_body_refines:
  assumes "header_done p"
  shows "fst (lp_body rest p) = classify (lp_maximumFrameBytes p) (received p @ rest)"
    and "parser_wf (snd (lp_body rest p))"
    and "received (snd (lp_body rest p)) = (if fst (lp_body rest p) \<in> {NeedMore, Ready} then received p @ rest else [])"
    and "fst (lp_body rest p) \<in> {NeedMore, Ready} \<Longrightarrow> lp_startedAt (snd (lp_body rest p)) = lp_startedAt p"
proof -
  let ?e = "lp_expectedBytes p" and ?r = "lp_receivedBytes p"
  obtain st where st: "lp_storage p = Some st" "length st = lp_storageBytes p" using assms by (auto simp: header_done_def)
  have h: "?e = frame_length (lp_header p)" "0 < ?e" "?e \<le> lp_maximumFrameBytes p" "?r < ?e" "?e \<le> length st"
    "length (lp_header p) = 4" "lp_headerBytes p = 4" "lp_maximumFrameBytes p \<le> 16384" "lp_started p"
    "lp_maximumFrameBytes p \<le> lp_storageBytes p" "\<not> lp_ready p"
    using assms st by (auto simp: header_done_def)
  have rec: "received p = lp_header p @ take ?r st" using h by (simp add: received_def st)
  have len: "length (received p) = 4 + ?r" using h by (simp add: rec)
  have fl: "frame_length (received p @ rest) = ?e"
    using h by (simp add: rec frame_length_def getU32Be_append4)
  consider (over) "?e - ?r < length rest" | (exact) "length rest = ?e - ?r" | (less) "length rest < ?e - ?r" by linarith
  then have "fst (lp_body rest p) = classify (lp_maximumFrameBytes p) (received p @ rest)
    \<and> parser_wf (snd (lp_body rest p))
    \<and> received (snd (lp_body rest p)) = (if fst (lp_body rest p) = PipelinedFrame then [] else received p @ rest)
    \<and> (fst (lp_body rest p) \<noteq> PipelinedFrame \<longrightarrow> lp_startedAt (snd (lp_body rest p)) = lp_startedAt p)"
  proof cases
    case over
    then have "?e < ?r + length rest" using h by linarith
    then have c: "classify (lp_maximumFrameBytes p) (received p @ rest) = PipelinedFrame"
      using h len by (simp add: classify_def fl)
    have "fst (lp_body rest p) = PipelinedFrame" and "parser_wf (snd (lp_body rest p))"
      and "received (snd (lp_body rest p)) = []"
      using over h st by (auto simp: lp_body_def Let_def lp_reset_def parser_wf_def received_def)
    with c show ?thesis by simp
  next
    case exact
    then have c: "classify (lp_maximumFrameBytes p) (received p @ rest) = Ready"
      using h len by (simp add: classify_def fl)
    let ?p = "p\<lparr>lp_storage := Some (overwrite st ?r rest), lp_receivedBytes := ?e, lp_ready := True\<rparr>"
    have run: "lp_body rest p = (Ready, ?p)"
      using exact h by (simp add: lp_body_def Let_def st)
    have fit: "?r + length rest \<le> length st" using exact h by linarith
    have "take ?e (overwrite st ?r rest) = take ?r st @ rest"
      using overwrite_simps(2) [OF fit] exact h by simp
    then have "received ?p = received p @ rest" using h by (simp add: received_def st)
    moreover have "parser_wf ?p" using h st fit by (simp add: parser_wf_def)
    ultimately show ?thesis using c by (simp add: run)
  next
    case less
    then have lt: "?r + length rest < ?e" using h by linarith
    then have c: "classify (lp_maximumFrameBytes p) (received p @ rest) = NeedMore"
      using h len by (simp add: classify_def fl)
    let ?p = "p\<lparr>lp_storage := Some (overwrite st ?r rest), lp_receivedBytes := ?r + length rest\<rparr>"
    have same: "overwrite st ?r [] = st" using h by (simp add: overwrite_def)
    have run: "lp_body rest p = (NeedMore, ?p)"
      using less h same by (cases "rest = []") (auto simp: lp_body_def Let_def st)
    have fit: "?r + length rest \<le> length st" using less h by linarith
    have "received ?p = received p @ rest" using h overwrite_simps(2) [OF fit] by (simp add: received_def st)
    moreover have "parser_wf ?p" using h st fit lt by (simp add: parser_wf_def)
    ultimately show ?thesis using c by (simp add: run)
  qed
  then show "fst (lp_body rest p) = classify (lp_maximumFrameBytes p) (received p @ rest)"
    "parser_wf (snd (lp_body rest p))"
    "received (snd (lp_body rest p)) = (if fst (lp_body rest p) \<in> {NeedMore, Ready} then received p @ rest else [])"
    "fst (lp_body rest p) \<in> {NeedMore, Ready} \<Longrightarrow> lp_startedAt (snd (lp_body rest p)) = lp_startedAt p"
    unfolding lp_body_range [symmetric] by auto
qed

text \<open>The whole input, from the header on.\<close>

lemma lp_accept_split:
  assumes "lp_headerBytes p \<le> 4"
  shows "lp_accept input p =
    (let c = min (4 - lp_headerBytes p) (length input);
         p1 = p\<lparr>lp_header := overwrite (lp_header p) (lp_headerBytes p) (take c input),
                lp_headerBytes := lp_headerBytes p + c\<rparr>;
         fresh = lp_headerBytes p1 = 4 \<and> lp_expectedBytes p1 = 0;
         p2 = (if fresh then p1\<lparr>lp_expectedBytes := frame_length (lp_header p1)\<rparr> else p1)
     in if fresh \<and> lp_expectedBytes p2 = 0 then (EmptyFrame, lp_reset p2)
        else if fresh \<and> (lp_expectedBytes p2 > lp_maximumFrameBytes p2 \<or> lp_expectedBytes p2 > lp_storageBytes p2)
        then (Oversize, lp_reset p2)
        else if lp_headerBytes p2 < 4 then (NeedMore, p2)
        else lp_body (drop c input) p2)"
proof -
  have c: "c + k \<noteq> length input \<longleftrightarrow> k \<noteq> length input - c" if "c \<le> length input" for c k :: nat
    using that by auto
  show ?thesis
    unfolding lp_accept_def lp_body_def frame_consts frame_length_def Let_def length_drop
    by (simp only: c [OF min.cobounded2])
qed

lemma lp_accept_refines:
  assumes wf: "parser_wf p" and nr: "\<not> lp_ready p" and ne: "input \<noteq> []" and started: "lp_started p"
  defines "b \<equiv> received p @ input"
  shows "fst (lp_accept input p) = classify (lp_maximumFrameBytes p) b
    \<and> parser_wf (snd (lp_accept input p))
    \<and> received (snd (lp_accept input p)) = (if fst (lp_accept input p) \<in> {NeedMore, Ready} then b else [])
    \<and> (fst (lp_accept input p) \<in> {NeedMore, Ready} \<longrightarrow> lp_startedAt (snd (lp_accept input p)) = lp_startedAt p)"
proof -
  let ?h = "lp_headerBytes p"
  let ?c = "min (4 - ?h) (length input)"
  obtain st where st: "lp_storage p = Some st" "length st = lp_storageBytes p" using wf by (auto simp: parser_wf_def)
  have w: "?h \<le> 4" "length (lp_header p) = 4" "lp_maximumFrameBytes p \<le> lp_storageBytes p"
    "lp_maximumFrameBytes p \<le> 16384" using wf by (simp_all add: parser_wf_def)
  show ?thesis
  proof (cases "?h = 4")
    case True
    have e: "lp_expectedBytes p \<noteq> 0" "header_done p"
      using wf True nr started st by (auto simp: parser_wf_def header_done_def)
    have "lp_accept input p = lp_body input p"
      using True e(1) w by (cases p) (simp add: lp_accept_split Let_def overwrite_def)
    with lp_body_refines [OF e(2), of input] show ?thesis unfolding b_def by simp
  next
    case False
    then have h: "?h < 4" "lp_expectedBytes p = 0" "lp_receivedBytes p = 0" using wf w by (auto simp: parser_wf_def)
    have rec: "received p = take ?h (lp_header p)" by (simp add: received_def h)
    have len: "length b = ?h + length input" using w h by (simp add: b_def rec)
    let ?hd = "overwrite (lp_header p) ?h (take ?c input)"
    have fit: "?h + length (take ?c input) \<le> length (lp_header p)" using w by simp
    have hd: "length ?hd = 4" "take (?h + ?c) ?hd = take ?h (lp_header p) @ take ?c input"
      using overwrite_simps(1,2) [OF fit] w by simp_all
    let ?p1 = "p\<lparr>lp_header := ?hd, lp_headerBytes := ?h + ?c\<rparr>"
    show ?thesis
    proof (cases "?h + length input < 4")
      case True
      then have c: "?c = length input" by simp
      have run: "lp_accept input p = (NeedMore, ?p1)"
        using True h by (simp add: lp_accept_split Let_def)
      have "received ?p1 = b" using hd(2) c by (simp add: received_def h b_def)
      moreover have "parser_wf ?p1"
        using wf st hd(1) True c h nr started by (auto simp: parser_wf_def)
      moreover have "classify (lp_maximumFrameBytes p) b = NeedMore" using True len by (simp add: classify_def)
      ultimately show ?thesis by (simp add: run)
    next
      case full: False
      then have c: "?c = 4 - ?h" "?h + ?c = 4" using h by simp_all
      have hdb: "?hd = take 4 b"
        using hd c h w by (simp add: b_def rec min_def)
      have fl: "frame_length ?hd = frame_length b"
        unfolding hdb frame_length_def using full len by (simp add: getU32Be_take4)
      let ?p2 = "?p1\<lparr>lp_expectedBytes := frame_length b\<rparr>"
      have run: "lp_accept input p = (if frame_length b = 0 then (EmptyFrame, lp_reset ?p2)
          else if frame_length b > lp_maximumFrameBytes p \<or> frame_length b > lp_storageBytes p
          then (Oversize, lp_reset ?p2) else lp_body (drop ?c input) ?p2)"
        using c h fl w by (simp add: lp_accept_split Let_def)
      have rs: "parser_wf (lp_reset ?p2)" using wf by (auto simp: parser_wf_def lp_reset_def)
      show ?thesis
      proof (cases "frame_length b = 0 \<or> frame_length b > lp_maximumFrameBytes p")
        case True
        then show ?thesis using full len w rs by (auto simp: run classify_def)
      next
        case ok: False
        have hdone: "header_done ?p2"
          using ok st hd(1) fl c w nr started h by (auto simp: header_done_def)
        have "drop ?c input = drop 4 b" using c w h by (simp add: b_def rec)
        moreover have "received ?p2 = take 4 b" using hdb hd(1) c by (simp add: received_def h)
        ultimately have rb: "received ?p2 @ drop ?c input = b" by simp
        have "lp_accept input p = lp_body (drop ?c input) ?p2" using ok w by (auto simp: run)
        with lp_body_refines [OF hdone, of "drop ?c input"] show ?thesis unfolding rb by simp
      qed
    qed
  qed
qed

definition same_config :: "LengthFrameParser \<Rightarrow> LengthFrameParser \<Rightarrow> bool" where
  "same_config p q \<longleftrightarrow> lp_maximumFrameBytes q = lp_maximumFrameBytes p \<and> lp_timeoutMs q = lp_timeoutMs p"

lemma lp_body_config:
  "same_config p (snd (lp_body rest p))"
  "fst (lp_body rest p) \<noteq> PipelinedFrame \<Longrightarrow> lp_started (snd (lp_body rest p)) = lp_started p"
proof -
  define k where "k = (if length rest < lp_expectedBytes p - lp_receivedBytes p then length rest
    else lp_expectedBytes p - lp_receivedBytes p)"
  define q where "q = (if k \<noteq> 0 then p\<lparr>lp_storage := Some (overwrite (the (lp_storage p)) (lp_receivedBytes p) (take k rest)),
      lp_receivedBytes := lp_receivedBytes p + k\<rparr> else p)"
  have run: "lp_body rest p = (if k \<noteq> length rest then (PipelinedFrame, lp_reset q)
      else if lp_receivedBytes q = lp_expectedBytes q then (Ready, q\<lparr>lp_ready := True\<rparr>) else (NeedMore, q))"
    unfolding lp_body_def Let_def k_def [symmetric] q_def [symmetric] ..
  have q: "same_config p q" "lp_started q = lp_started p" by (simp_all add: q_def same_config_def)
  show "same_config p (snd (lp_body rest p))"
    "fst (lp_body rest p) \<noteq> PipelinedFrame \<Longrightarrow> lp_started (snd (lp_body rest p)) = lp_started p"
    using q by (auto simp: run same_config_def lp_reset_def split: if_splits)
qed

lemma lp_accept_config:
  assumes "lp_headerBytes p \<le> 4" and "lp_started p"
  shows "same_config p (snd (lp_accept input p))"
    and "fst (lp_accept input p) \<in> {NeedMore, Ready} \<Longrightarrow> lp_started (snd (lp_accept input p))"
proof -
  define c where "c = min (4 - lp_headerBytes p) (length input)"
  define p1 where "p1 = p\<lparr>lp_header := overwrite (lp_header p) (lp_headerBytes p) (take c input),
      lp_headerBytes := lp_headerBytes p + c\<rparr>"
  define f where "f \<longleftrightarrow> lp_headerBytes p1 = 4 \<and> lp_expectedBytes p1 = 0"
  define p2 where "p2 = (if f then p1\<lparr>lp_expectedBytes := frame_length (lp_header p1)\<rparr> else p1)"
  have run: "lp_accept input p = (if f \<and> lp_expectedBytes p2 = 0 then (EmptyFrame, lp_reset p2)
        else if f \<and> (lp_expectedBytes p2 > lp_maximumFrameBytes p2 \<or> lp_expectedBytes p2 > lp_storageBytes p2)
        then (Oversize, lp_reset p2)
        else if lp_headerBytes p2 < 4 then (NeedMore, p2) else lp_body (drop c input) p2)"
    unfolding lp_accept_split [OF assms(1)] Let_def c_def [symmetric] p1_def [symmetric] f_def [symmetric]
      p2_def [symmetric] ..
  have p2: "same_config p p2" "lp_started p2" using assms(2) by (simp_all add: p2_def p1_def same_config_def)
  have b: "same_config p (snd (lp_body (drop c input) p2))"
    using p2(1) lp_body_config(1) [of p2 "drop c input"] by (simp add: same_config_def)
  show "same_config p (snd (lp_accept input p))"
    using p2(1) b by (auto simp: run same_config_def lp_reset_def)
  show "lp_started (snd (lp_accept input p))" if "fst (lp_accept input p) \<in> {NeedMore, Ready}"
    using that p2(2) lp_body_config(2) [of "drop c input" p2] by (auto simp: run split: if_splits)
qed

lemma ready_frame:
  assumes "parser_wf p" and "lp_ready p"
  shows "lp_frame p = Some (drop 4 (received p))"
  using assms by (auto simp: parser_wf_def lp_frame_def received_def)

lemma classify_ready_wf:
  assumes "parser_wf p"
  shows "lp_ready p \<longleftrightarrow> classify (lp_maximumFrameBytes p) (received p) = Ready"
proof -
  obtain st where st: "lp_storage p = Some st" "length st = lp_storageBytes p" using assms by (auto simp: parser_wf_def)
  show ?thesis
  proof (cases "lp_headerBytes p = 4")
    case True
    then have "received p = lp_header p @ take (lp_receivedBytes p) st" "length (lp_header p) = 4"
      and e: "lp_expectedBytes p = frame_length (lp_header p)" "lp_receivedBytes p \<le> length st"
      using assms st by (auto simp: parser_wf_def received_def)
    then have "frame_length (received p) = lp_expectedBytes p" "length (received p) = 4 + lp_receivedBytes p"
      by (simp_all add: frame_length_def getU32Be_append4)
    then show ?thesis using assms True by (auto simp: parser_wf_def classify_def)
  next
    case False
    then have "length (received p) < 4" using assms by (auto simp: parser_wf_def received_def)
    then show ?thesis using assms False by (auto simp: parser_wf_def classify_def)
  qed
qed

lemma lp_feed_refines:
  assumes wf: "parser_wf p" and ne: "input \<noteq> []" and nr: "\<not> lp_ready p"
    and dl: "lp_started p \<longrightarrow> \<not> deadlineExpired now (lp_startedAt p) (lp_timeoutMs p)"
    and run: "lp_feed (Some input) now p = (r, p')"
  shows "r = classify (lp_maximumFrameBytes p) (received p @ input) \<and> parser_wf p'
    \<and> received p' = (if r \<in> {NeedMore, Ready} then received p @ input else [])
    \<and> lp_maximumFrameBytes p' = lp_maximumFrameBytes p \<and> lp_timeoutMs p' = lp_timeoutMs p
    \<and> (r \<in> {NeedMore, Ready} \<longrightarrow> lp_started p'
        \<and> lp_startedAt p' = (if lp_started p then lp_startedAt p else now))"
proof -
  let ?q = "if lp_started p then p else p\<lparr>lp_started := True, lp_startedAt := now\<rparr>"
  have q: "parser_wf ?q" "\<not> lp_ready ?q" "lp_started ?q" "received ?q = received p"
    "lp_maximumFrameBytes ?q = lp_maximumFrameBytes p" "lp_timeoutMs ?q = lp_timeoutMs p"
    using wf nr by (auto simp: parser_wf_def received_def)
  have st: "lp_storage p \<noteq> None" using wf by (auto simp: parser_wf_def)
  have acc: "lp_accept input ?q = (r, p')" using run ne nr dl st by (auto simp: lp_feed_def split: if_splits)
  have h4: "lp_headerBytes ?q \<le> 4" using q(1) by (simp add: parser_wf_def)
  have cfg: "lp_maximumFrameBytes p' = lp_maximumFrameBytes p" "lp_timeoutMs p' = lp_timeoutMs p"
    using lp_accept_config(1) [OF h4 q(3), of input] unfolding acc snd_conv same_config_def q(5,6) by blast+
  have up: "r \<in> {NeedMore, Ready} \<longrightarrow> lp_started p'"
    using lp_accept_config(2) [OF h4 q(3), of input] unfolding acc by simp
  have at: "lp_startedAt ?q = (if lp_started p then lp_startedAt p else now)" by simp
  from lp_accept_refines [OF q(1,2) ne q(3)] show ?thesis
    unfolding acc q(4,5) fst_conv snd_conv at using cfg up by blast
qed

text \<open>
  C29. The frame parser implements a plain buffer: whatever it has received since its last
  reset, an input within the deadline is judged by the bytes received so far followed by the
  input (incomplete, complete, empty, oversized, or followed by surplus bytes), never by how
  they were split; an acceptable input is appended, everything else empties the buffer; a
  complete frame is returned as exactly the bytes after the header.  Input after a complete
  frame and input after the deadline empty the buffer and say so.
\<close>

theorem frame_feed_refines_buffer:
  assumes "parser_wf p" and "input \<noteq> []" and "lp_feed (Some input) now p = (r, p')"
  shows "parser_wf p' \<and>
    (let b = received p @ input in
     if classify (lp_maximumFrameBytes p) (received p) = Ready then r = PipelinedFrame \<and> received p' = []
     else if lp_started p \<and> deadlineExpired now (lp_startedAt p) (lp_timeoutMs p)
     then r = TimedOut \<and> received p' = []
     else r = classify (lp_maximumFrameBytes p) b
       \<and> received p' = (if r = NeedMore \<or> r = Ready then b else [])
       \<and> lp_frame p' = (if r = Ready then Some (drop 4 b) else None))"
proof (cases "lp_ready p")
  case True
  then have "r = PipelinedFrame" "p' = lp_reset p" using assms by (auto simp: lp_feed_def parser_wf_def)
  with True show ?thesis using parser_wf_reset [OF assms(1)] classify_ready_wf [OF assms(1)] by (simp add: Let_def)
next
  case nr: False
  note cl = classify_ready_wf [OF assms(1)]
  show ?thesis
  proof (cases "lp_started p \<and> deadlineExpired now (lp_startedAt p) (lp_timeoutMs p)")
    case True
    then have "r = TimedOut" "p' = lp_reset p" using assms nr by (auto simp: lp_feed_def parser_wf_def)
    with True nr cl show ?thesis using parser_wf_reset [OF assms(1)] by (simp add: Let_def)
  next
    case False
    then have dl: "lp_started p \<longrightarrow> \<not> deadlineExpired now (lp_startedAt p) (lp_timeoutMs p)" by blast
    note res = lp_feed_refines [OF assms(1,2) nr dl assms(3)]
    then have wf': "parser_wf p'" and r: "r = classify (lp_maximumFrameBytes p) (received p @ input)"
      and rec: "received p' = (if r \<in> {NeedMore, Ready} then received p @ input else [])"
      and mx: "lp_maximumFrameBytes p' = lp_maximumFrameBytes p" by blast+
    have "lp_ready p' \<longleftrightarrow> r = Ready"
      using classify_ready_wf [OF wf'] r rec mx by (auto simp: classify_def split: if_splits)
    then have "lp_frame p' = (if r = Ready then Some (drop 4 (received p @ input)) else None)"
      using ready_frame [OF wf'] rec by (auto simp: lp_frame_def)
    with False nr cl wf' r rec show ?thesis by (auto simp: Let_def)
  qed
qed

subsection \<open>Sending a frame\<close>

fun feed_all :: "LengthFrameParser \<Rightarrow> (bytes \<times> u32) list \<Rightarrow> FrameResult list \<times> LengthFrameParser" where
  "feed_all p [] = ([], p)"
| "feed_all p ((c, now) # cs) = (case lp_feed (Some c) now p of (r, p) \<Rightarrow>
     (case feed_all p cs of (rs, p) \<Rightarrow> (r # rs, p)))"

lemma feed_all_run:
  assumes "parser_wf p" and "\<not> lp_ready p" and "cs \<noteq> []" and "\<forall>(c, now) \<in> set cs. c \<noteq> []"
    and "\<forall>(c, now) \<in> set cs. lp_started p \<longrightarrow> now - lp_startedAt p \<le> lp_timeoutMs p"
    and "\<not> lp_started p \<longrightarrow> (\<forall>(c, now) \<in> set cs. now - snd (hd cs) \<le> lp_timeoutMs p)"
    and "received p @ concat (map fst cs) = putU32Be (word_of_nat (length bs)) @ bs"
    and "0 < length bs" and "length bs \<le> lp_maximumFrameBytes p"
  shows "fst (feed_all p cs) = replicate (length cs - 1) NeedMore @ [Ready]
    \<and> lp_frame (snd (feed_all p cs)) = Some bs"
  using assms
proof (induction cs arbitrary: p)
  case Nil
  then show ?case by simp
next
  case (Cons x cs)
  obtain c now where x: "x = (c, now)" by (cases x)
  obtain r p' where run: "lp_feed (Some c) now p = (r, p')" by fastforce
  let ?b = "received p @ c" and ?w = "putU32Be (word_of_nat (length bs)) @ bs"
  have c: "c \<noteq> []" using Cons.prems(4) by (simp add: x)
  have dl: "lp_started p \<longrightarrow> \<not> deadlineExpired now (lp_startedAt p) (lp_timeoutMs p)"
    using Cons.prems(5) by (auto simp: x deadlineExpired_def)
  note ref = lp_feed_refines [OF Cons.prems(1) c Cons.prems(2) dl run]
  have w: "?w = ?b @ concat (map fst cs)" using Cons.prems(7) by (simp add: x)
  have m: "lp_maximumFrameBytes p \<le> 16384" using Cons.prems(1) by (simp add: parser_wf_def)
  have u: "unat (word_of_nat (length bs) :: u32) = length bs"
    using Cons.prems(9) m by (simp add: unat_of_nat take_bit_nat_eq_self)
  have fl: "frame_length ?w = length bs" by (simp add: frame_length_def getU32Be_putU32Be u)
  have flb: "frame_length ?b = length bs" if "4 \<le> length ?b"
    using fl unfolding w frame_length_def getU32Be_append4 [OF that] .
  have len: "length ?b + length (concat (map fst cs)) = 4 + length bs" using arg_cong [OF w, of length] by simp
  show ?case
  proof (cases "cs = []")
    case True
    then have b: "?b = ?w" using w by simp
    have "r = Ready" using ref Cons.prems(8,9) b fl by (simp add: classify_def)
    moreover have "lp_ready p'" using ref classify_ready_wf [of p'] calculation by auto
    ultimately show ?thesis using True ref ready_frame [of p'] b by (simp add: x run)
  next
    case False
    obtain c2 n2 cs2 where cs: "cs = (c2, n2) # cs2" using False by (metis list.exhaust prod.exhaust)
    have "0 < length c2" using Cons.prems(4) by (simp add: cs)
    moreover have "length (concat (map fst cs)) = length c2 + length (concat (map fst cs2))" by (simp add: cs)
    ultimately have less: "length ?b < 4 + length bs" using len by linarith
    have r: "r = NeedMore"
      using ref Cons.prems(8,9) less flb by (auto simp: classify_def not_less)
    then have nr': "\<not> lp_ready p'" using ref classify_ready_wf [of p'] by auto
    have st': "lp_started p'" "lp_startedAt p' = (if lp_started p then lp_startedAt p else now)"
      "lp_timeoutMs p' = lp_timeoutMs p" using ref r by auto
    have "fst (feed_all p' cs) = replicate (length cs - 1) NeedMore @ [Ready]
        \<and> lp_frame (snd (feed_all p' cs)) = Some bs"
    proof (rule Cons.IH)
      show "parser_wf p'" "\<not> lp_ready p'" "cs \<noteq> []" using ref nr' False by auto
      show "\<forall>(c, now) \<in> set cs. c \<noteq> []" using Cons.prems(4) by auto
      show "\<forall>(c, now) \<in> set cs. lp_started p' \<longrightarrow> now - lp_startedAt p' \<le> lp_timeoutMs p'"
        using Cons.prems(5,6) by (auto simp: st' x)
      show "\<not> lp_started p' \<longrightarrow> (\<forall>(c, now) \<in> set cs. now - snd (hd cs) \<le> lp_timeoutMs p')" using st' by simp
      show "received p' @ concat (map fst cs) = ?w" using ref r w by simp
      show "0 < length bs" "length bs \<le> lp_maximumFrameBytes p'" using Cons.prems(8,9) ref by auto
    qed
    then show ?thesis using r by (cases "feed_all p' cs") (simp add: x run cs)
  qed
qed

text \<open>
  A frame survives any transport: what the encoder produced for a payload, cut into any
  non-empty chunks that all arrive within the assembly timeout of the first, makes an idle
  parser answer NeedMore for every chunk but the last, Ready for the last, and return exactly
  the payload.
\<close>

lemma frame_chunks_roundtrip:
  assumes "encodeLengthFrame (Some bs) (Some cap) = (Ready, wire)"
    and "parser_wf p" and "\<not> lp_started p" and "length bs \<le> lp_maximumFrameBytes p"
    and "concat (map fst cs) = wire" and "\<forall>(c, now) \<in> set cs. c \<noteq> [] \<and> now - snd (hd cs) \<le> lp_timeoutMs p"
  shows "fst (feed_all p cs) = replicate (length cs - 1) NeedMore @ [Ready]
    \<and> lp_frame (snd (feed_all p cs)) = Some bs"
proof -
  have e: "bs \<noteq> []" "wire = putU32Be (word_of_nat (length bs)) @ bs"
    using assms(1) by (auto simp: encodeLengthFrame_def split: if_splits)
  have rec: "received p = []" and nr: "\<not> lp_ready p" using assms(2,3) by (auto simp: parser_wf_def received_def)
  have "cs \<noteq> []" using assms(5) e by (auto simp: putU32Be_def)
  with assms e rec nr show ?thesis by (intro feed_all_run) auto
qed

text \<open>An idle parser on a 1 KiB buffer.\<close>

definition demo_parser :: LengthFrameParser where
  "demo_parser = snd (lp_begin (Some (replicate 1024 0)) 1024 1024 10000 parser0)"

lemma demo_parser_wf: "parser_wf demo_parser \<and> \<not> lp_started demo_parser \<and> received demo_parser = []
    \<and> lp_maximumFrameBytes demo_parser = 1024 \<and> lp_timeoutMs demo_parser = 10000"
  by (simp add: demo_parser_def lp_begin_def Let_def lp_reset_def parser0_def parser_wf_def received_def frame_consts)

theorem frame_feed_refines_buffer_witness:
  "fst (lp_feed (Some [0, 0]) 5 demo_parser) = NeedMore \<and>
   received (snd (lp_feed (Some [0, 0]) 5 demo_parser)) = [0, 0]"
proof -
  obtain r p' where run: "lp_feed (Some [0, 0]) 5 demo_parser = (r, p')" by fastforce
  have "classify 1024 [] = NeedMore" "classify 1024 [0, 0] = NeedMore" by (simp_all add: classify_def)
  with frame_feed_refines_buffer [OF conjunct1 [OF demo_parser_wf] _ run] demo_parser_wf run show ?thesis
    by (simp add: Let_def)
qed

lemma frame_chunks_roundtrip_witness:
  "fst (feed_all demo_parser [([0, 0], 100), ([0, 2, 65], 200), ([66], 300)]) = [NeedMore, NeedMore, Ready]
   \<and> lp_frame (snd (feed_all demo_parser [([0, 0], 100), ([0, 2, 65], 200), ([66], 300)])) = Some [65, 66]"
proof -
  let ?cs = "[([0, 0], 100), ([0, 2, 65], 200), ([66], 300)] :: (bytes \<times> u32) list"
  have enc: "encodeLengthFrame (Some [65, 66]) (Some 100) = (Ready, [0, 0, 0, 2, 65, 66])"
    by (simp add: encodeLengthFrame_def putU32Be_def frame_consts)
  have d: "parser_wf demo_parser" "\<not> lp_started demo_parser" "length [65, 66 :: u8] \<le> lp_maximumFrameBytes demo_parser"
    "\<forall>(c, now) \<in> set ?cs. c \<noteq> [] \<and> now - snd (hd ?cs) \<le> lp_timeoutMs demo_parser"
    using demo_parser_wf by simp_all
  have cat: "concat (map fst ?cs) = [0, 0, 0, 2, 65, 66]" by simp
  have rep: "replicate (length ?cs - 1) NeedMore @ [Ready] = [NeedMore, NeedMore, Ready]" by (simp add: numeral_2_eq_2)
  from frame_chunks_roundtrip [OF enc d(1-3) cat d(4)] show ?thesis unfolding rep .
qed

end
