(* ===== verification/Companion_Json.thy ===== *)
theory Companion_Json
  imports Companion_Codec
begin

unbundle bit_operations_syntax

text \<open>
  The two validators that guard the payload of a companion envelope in
  \<^verbatim>\<open>src/src/kitsu_companion_protocol.cpp\<close>: \<^verbatim>\<open>validUtf8\<close>, which also refuses the NUL byte, and
  the class \<^verbatim>\<open>JsonValidator\<close>.  A cursor into the input is modelled by the bytes from the cursor
  to the end, so \<^verbatim>\<open>cursor_ >= bytes_\<close> is the empty list and every parsing method takes the
  remaining bytes and returns what is left after it, \<open>None\<close> when it returns false.

  The lemmas show that the UTF-8 validator accepts exactly the encodings of sequences of
  Unicode scalar values other than zero, and that the JSON validator accepts exactly the texts
  of the RFC 8259 grammar with at most sixteen levels of nesting below the top value.
\<close>

subsection \<open>UTF-8\<close>

text \<open>What the first byte of a multi-byte sequence announces: the number of continuation
  bytes, its own payload bits and the least code point of that length.\<close>

definition utf8_lead :: "u8 \<Rightarrow> (nat \<times> u32 \<times> u32) option" where
  "utf8_lead c =
     (if 0xc2 \<le> c \<and> c \<le> 0xdf then Some (1, ucast (c AND 0x1f), 0x80)
      else if 0xe0 \<le> c \<and> c \<le> 0xef then Some (2, ucast (c AND 0x0f), 0x800)
      else if 0xf0 \<le> c \<and> c \<le> 0xf4 then Some (3, ucast (c AND 0x07), 0x10000)
      else None)"

text \<open>The loop over the continuation bytes.\<close>

fun utf8_continue :: "u32 \<Rightarrow> bytes \<Rightarrow> u32 option" where
  "utf8_continue codepoint [] = Some codepoint"
| "utf8_continue codepoint (next # rest) =
     (if next AND 0xc0 \<noteq> 0x80 then None
      else utf8_continue (push_bit 6 codepoint OR ucast (next AND 0x3f)) rest)"

fun utf8_scan :: "bytes \<Rightarrow> bool" where
  "utf8_scan [] = True"
| "utf8_scan (c # rest) =
     (if c \<le> 0x7f then (if c = 0 then False else utf8_scan rest)
      else case utf8_lead c of None \<Rightarrow> False
        | Some (continuation, codepoint, minimum) \<Rightarrow>
            if continuation > length rest then False
            else case utf8_continue codepoint (take continuation rest) of None \<Rightarrow> False
              | Some cp \<Rightarrow>
                  if cp < minimum \<or> cp > 0x10ffff \<or> (0xd800 \<le> cp \<and> cp \<le> 0xdfff) then False
                  else utf8_scan (drop continuation rest))"

definition validUtf8 :: "bytes option \<Rightarrow> bool" where
  "validUtf8 input = (case input of None \<Rightarrow> False | Some bs \<Rightarrow> utf8_scan bs)"

subsection \<open>The scanners of the JSON validator\<close>

abbreviation cQuote :: u8 where "cQuote \<equiv> 34"
abbreviation cPlus :: u8 where "cPlus \<equiv> 43"
abbreviation cComma :: u8 where "cComma \<equiv> 44"
abbreviation cMinus :: u8 where "cMinus \<equiv> 45"
abbreviation cDot :: u8 where "cDot \<equiv> 46"
abbreviation cZero :: u8 where "cZero \<equiv> 48"
abbreviation cColon :: u8 where "cColon \<equiv> 58"
abbreviation cOpenBracket :: u8 where "cOpenBracket \<equiv> 91"
abbreviation cBackslash :: u8 where "cBackslash \<equiv> 92"
abbreviation cCloseBracket :: u8 where "cCloseBracket \<equiv> 93"
abbreviation cOpenBrace :: u8 where "cOpenBrace \<equiv> 123"
abbreviation cCloseBrace :: u8 where "cCloseBrace \<equiv> 125"

definition json_ws :: "u8 \<Rightarrow> bool" where
  "json_ws c \<longleftrightarrow> c = 32 \<or> c = 9 \<or> c = 13 \<or> c = 10"

definition skipWhitespace :: "bytes \<Rightarrow> bytes" where
  "skipWhitespace = dropWhile json_ws"

definition js_literal :: "bytes \<Rightarrow> bytes \<Rightarrow> bytes option" where
  "js_literal expected rest =
     (if take (length expected) rest = expected then Some (drop (length expected) rest) else None)"

definition hex_digit :: "u8 \<Rightarrow> u8 option" where
  "hex_digit c = (if 48 \<le> c \<and> c \<le> 57 then Some (c - 48)
     else if 97 \<le> c \<and> c \<le> 102 then Some (c - 97 + 10)
     else if 65 \<le> c \<and> c \<le> 70 then Some (c - 65 + 10) else None)"

fun hex_digits :: "u16 \<Rightarrow> bytes \<Rightarrow> u16 option" where
  "hex_digits value [] = Some value"
| "hex_digits value (c # cs) =
     (case hex_digit c of None \<Rightarrow> None
      | Some digit \<Rightarrow> hex_digits (push_bit 4 value OR ucast digit) cs)"

definition hex4 :: "bytes \<Rightarrow> (u16 \<times> bytes) option" where
  "hex4 rest = (if length rest < 4 then None
     else map_option (\<lambda>v. (v, drop 4 rest)) (hex_digits 0 (take 4 rest)))"

lemma hex4_shorter: "hex4 rest = Some (v, r) \<Longrightarrow> length r < length rest"
  by (auto simp: hex4_def split: if_splits)

definition simple_escape :: "u8 \<Rightarrow> bool" where
  "simple_escape e \<longleftrightarrow> e = cQuote \<or> e = cBackslash \<or> e = 47 \<or> e = 98 \<or> e = 102 \<or> e = 110
     \<or> e = 114 \<or> e = 116"

text \<open>The loop of \<^verbatim>\<open>string\<close> after the opening quote.\<close>

function js_chars :: "bytes \<Rightarrow> bytes option" where
  "js_chars [] = None"
| "js_chars (c # rest) =
     (if c = cQuote then Some rest
      else if c < 0x20 then None
      else if c \<noteq> cBackslash then js_chars rest
      else case rest of [] \<Rightarrow> None
      | escaped # rest2 \<Rightarrow>
          if simple_escape escaped then js_chars rest2
          else if escaped \<noteq> 117 then None
          else case hex4 rest2 of None \<Rightarrow> None
          | Some (first, rest3) \<Rightarrow>
              if 0xd800 \<le> first \<and> first \<le> 0xdbff then
                (if length rest3 < 2 \<or> hd rest3 \<noteq> cBackslash \<or> hd (tl rest3) \<noteq> 117 then None
                 else case hex4 (drop 2 rest3) of None \<Rightarrow> None
                 | Some (second, rest4) \<Rightarrow>
                     if second < 0xdc00 \<or> second > 0xdfff then None else js_chars rest4)
              else if 0xdc00 \<le> first \<and> first \<le> 0xdfff then None
              else js_chars rest3)"
  by pat_completeness auto

termination js_chars
  by (relation "measure length") (auto dest!: hex4_shorter)

definition js_string :: "bytes \<Rightarrow> bytes option" where
  "js_string rest = (case rest of [] \<Rightarrow> None | c # cs \<Rightarrow> if c \<noteq> cQuote then None else js_chars cs)"

definition js_integer :: "bytes \<Rightarrow> bytes option" where
  "js_integer rest = (case rest of [] \<Rightarrow> None
     | c # cs \<Rightarrow>
         if c = cZero then (if cs \<noteq> [] \<and> is_digit (hd cs) then None else Some cs)
         else if c < 49 \<or> c > 57 then None
         else Some (dropWhile is_digit rest))"

definition js_fraction :: "bytes \<Rightarrow> bytes option" where
  "js_fraction rest =
     (if rest \<noteq> [] \<and> hd rest = cDot then
        (let after = dropWhile is_digit (tl rest) in
         if length after = length (tl rest) then None else Some after)
      else Some rest)"

definition js_exponent :: "bytes \<Rightarrow> bytes option" where
  "js_exponent rest =
     (if rest \<noteq> [] \<and> (hd rest = 101 \<or> hd rest = 69) then
        (let signed = tl rest;
             digits = (if signed \<noteq> [] \<and> (hd signed = cPlus \<or> hd signed = cMinus) then tl signed else signed);
             after = dropWhile is_digit digits in
         if length after = length digits then None else Some after)
      else Some rest)"

definition js_number :: "bytes \<Rightarrow> bytes option" where
  "js_number rest =
     (let unsigned = (if rest \<noteq> [] \<and> hd rest = cMinus then tl rest else rest) in
      case js_integer unsigned of None \<Rightarrow> None
      | Some r1 \<Rightarrow> (case js_fraction r1 of None \<Rightarrow> None
        | Some r2 \<Rightarrow> (case js_exponent r2 of None \<Rightarrow> None
          | Some r3 \<Rightarrow> if length r3 < length rest then Some r3 else None)))"

subsection \<open>Values, objects and arrays\<close>

lemma skipWhitespace_le: "length (skipWhitespace r) \<le> length r"
  by (simp add: skipWhitespace_def length_dropWhile_le)

lemma skip_tl_shorter: "r \<noteq> [] \<Longrightarrow> length (skipWhitespace (tl r)) < length r"
  using skipWhitespace_le [of "tl r"] by (cases r) auto

lemma skip_after_shorter:
  assumes "length r < n" and "skipWhitespace r \<noteq> []"
  shows "length (tl (skipWhitespace r)) < n" "Suc (length (skipWhitespace (tl (skipWhitespace r)))) < n"
  using assms skipWhitespace_le [of r] skip_tl_shorter [OF assms(2)] by (auto simp: length_tl)

lemma js_chars_shorter: "js_chars r = Some r' \<Longrightarrow> length r' < length r"
proof (induction r rule: length_induct)
  case (1 r)
  have IH: "length r' < length r" if "js_chars y = Some r'" "length y < length r" for y
    using 1(1) that less_trans by blast
  show ?case
    using 1(2) by (cases r) (auto split: if_splits list.splits option.splits prod.splits
        dest!: hex4_shorter dest: IH)
qed

lemma js_string_shorter: "js_string r = Some r' \<Longrightarrow> length r' < length r"
  by (auto simp: js_string_def split: list.splits if_splits dest!: js_chars_shorter)

lemma js_number_shorter: "js_number r = Some r' \<Longrightarrow> length r' < length r"
  by (auto simp: js_number_def Let_def split: option.splits if_splits)

lemma js_literal_shorter: "js_literal e r = Some r' \<Longrightarrow> e \<noteq> [] \<Longrightarrow> length r' < length r"
  by (cases r) (auto simp: js_literal_def split: if_splits)

function js_value :: "nat \<Rightarrow> bytes \<Rightarrow> bytes option"
  and js_object :: "nat \<Rightarrow> bytes \<Rightarrow> bytes option"
  and js_members :: "nat \<Rightarrow> bytes \<Rightarrow> bytes option"
  and js_array :: "nat \<Rightarrow> bytes \<Rightarrow> bytes option"
  and js_elements :: "nat \<Rightarrow> bytes \<Rightarrow> bytes option" where
  "js_value depth rest =
     (if depth > 16 \<or> rest = [] then None
      else let c = hd rest in
        if c = cOpenBrace then js_object (depth + 1) rest
        else if c = cOpenBracket then js_array (depth + 1) rest
        else if c = cQuote then js_string rest
        else if c = 116 then js_literal (ascii ''true'') rest
        else if c = 102 then js_literal (ascii ''false'') rest
        else if c = 110 then js_literal (ascii ''null'') rest
        else js_number rest)"
| "js_object depth rest =
     (let r = skipWhitespace (tl rest) in
      if r \<noteq> [] \<and> hd r = cCloseBrace then Some (tl r) else js_members depth r)"
| "js_members depth rest =
     (if rest = [] then None
      else case js_string rest of None \<Rightarrow> None
      | Some r1 \<Rightarrow> (let r2 = skipWhitespace r1 in
          if r2 = [] \<or> hd r2 \<noteq> cColon then None
          else case js_value depth (skipWhitespace (tl r2)) of None \<Rightarrow> None
          | Some r3 \<Rightarrow> (let r4 = skipWhitespace r3 in
              if r4 = [] then None
              else if hd r4 = cCloseBrace then Some (tl r4)
              else if hd r4 \<noteq> cComma then None
              else js_members depth (skipWhitespace (tl r4)))))"
| "js_array depth rest =
     (let r = skipWhitespace (tl rest) in
      if r \<noteq> [] \<and> hd r = cCloseBracket then Some (tl r) else js_elements depth r)"
| "js_elements depth rest =
     (if rest = [] then None
      else case js_value depth rest of None \<Rightarrow> None
      | Some r3 \<Rightarrow> (let r4 = skipWhitespace r3 in
          if r4 = [] then None
          else if hd r4 = cCloseBracket then Some (tl r4)
          else if hd r4 \<noteq> cComma then None
          else js_elements depth (skipWhitespace (tl r4))))"
  by pat_completeness auto

text \<open>Every method that succeeds has consumed something, so the recursion ends.\<close>

lemma js_dom_shorter:
  "js_value_js_object_js_members_js_array_js_elements_dom (Inl (Inl (d, r)))
     \<Longrightarrow> js_value d r = Some r' \<Longrightarrow> length r' < length r"
  "js_value_js_object_js_members_js_array_js_elements_dom (Inl (Inr (d, r)))
     \<Longrightarrow> js_object d r = Some r' \<Longrightarrow> length r' < length r"
  "js_value_js_object_js_members_js_array_js_elements_dom (Inr (Inl (d, r)))
     \<Longrightarrow> js_members d r = Some r' \<Longrightarrow> length r' < length r"
  "js_value_js_object_js_members_js_array_js_elements_dom (Inr (Inr (Inl (d, r))))
     \<Longrightarrow> js_array d r = Some r' \<Longrightarrow> length r' < length r"
  "js_value_js_object_js_members_js_array_js_elements_dom (Inr (Inr (Inr (d, r))))
     \<Longrightarrow> js_elements d r = Some r' \<Longrightarrow> length r' < length r"
proof (induction arbitrary: r' and r' and r' and r' and r' rule: js_value_js_object_js_members_js_array_js_elements.pinduct)
  case (1 depth rest)
  then show ?case
    by (auto simp: js_value.psimps Let_def ascii_def split: if_splits
        dest: js_string_shorter js_literal_shorter js_number_shorter)
next
  case (2 depth rest)
  have "length r' < length rest" if "rest \<noteq> []"
    using 2 skip_tl_shorter [OF that]
    by (auto simp: js_object.psimps Let_def length_tl split: if_splits dest: less_trans)
  moreover have "rest \<noteq> []"
  proof
    assume e: "rest = []"
    then have "js_members depth [] = Some r'"
      using 2(1,3) by (simp add: js_object.psimps Let_def skipWhitespace_def)
    with 2(2) [OF refl] show False by (simp add: e skipWhitespace_def)
  qed
  ultimately show ?case by blast
next
  case (3 depth rest)
  from 3(1,4) obtain r1 where r1: "js_string rest = Some r1" and ne: "rest \<noteq> []"
    by (auto simp: js_members.psimps split: if_splits option.splits)
  let ?r2 = "skipWhitespace r1"
  from 3(1,4) r1 ne obtain r3 where r2: "?r2 \<noteq> []" "hd ?r2 = cColon"
      "js_value depth (skipWhitespace (tl ?r2)) = Some r3"
    by (auto simp: js_members.psimps Let_def split: if_splits option.splits)
  let ?r4 = "skipWhitespace r3"
  have l3: "length r3 < length rest"
    using 3(2) [OF ne r1 refl _ r2(3)] r2(1,2) skip_after_shorter(2) [OF js_string_shorter [OF r1] r2(1)] by simp
  consider (close) "?r4 \<noteq> []" "r' = tl ?r4"
    | (comma) "?r4 \<noteq> []" "hd ?r4 = cComma" "js_members depth (skipWhitespace (tl ?r4)) = Some r'" "hd ?r4 \<noteq> cCloseBrace"
    using 3(1,4) r1 ne r2 by (auto simp: js_members.psimps Let_def split: if_splits)
  then show ?case
  proof cases
    case close
    then show ?thesis using skip_after_shorter(1) [OF l3] by simp
  next
    case comma
    have "length r' < length (skipWhitespace (tl ?r4))"
      using 3(3) [OF ne r1 refl _ r2(3) refl] r2(1,2) comma by simp
    then show ?thesis using skip_after_shorter(2) [OF l3 comma(1)] by simp
  qed
next
  case (4 depth rest)
  have "length r' < length rest" if "rest \<noteq> []"
    using 4 skip_tl_shorter [OF that]
    by (auto simp: js_array.psimps Let_def length_tl split: if_splits dest: less_trans)
  moreover have "rest \<noteq> []"
  proof
    assume e: "rest = []"
    then have "js_elements depth [] = Some r'"
      using 4(1,3) by (simp add: js_array.psimps Let_def skipWhitespace_def)
    with 4(2) [OF refl] show False by (simp add: e skipWhitespace_def)
  qed
  ultimately show ?case by blast
next
  case (5 depth rest)
  from 5(1,4) obtain r3 where ne: "rest \<noteq> []" and r3: "js_value depth rest = Some r3"
    by (auto simp: js_elements.psimps split: if_splits option.splits)
  let ?r4 = "skipWhitespace r3"
  have l3: "length r3 < length rest" using 5(2) [OF ne r3] .
  consider (close) "?r4 \<noteq> []" "r' = tl ?r4"
    | (comma) "?r4 \<noteq> []" "hd ?r4 = cComma" "js_elements depth (skipWhitespace (tl ?r4)) = Some r'" "hd ?r4 \<noteq> cCloseBracket"
    using 5(1,4) ne r3 by (auto simp: js_elements.psimps Let_def split: if_splits)
  then show ?case
  proof cases
    case close
    then show ?thesis using skip_after_shorter(1) [OF l3] by simp
  next
    case comma
    have "length r' < length (skipWhitespace (tl ?r4))"
      using 5(3) [OF ne r3 refl] comma by simp
    then show ?thesis using skip_after_shorter(2) [OF l3 comma(1)] by simp
  qed
qed

termination js_value
proof (relation "measure (case_sum (case_sum (\<lambda>(d, r). 3 * length r + 2) (\<lambda>(d, r). 3 * length r + 1))
    (case_sum (\<lambda>(d, r). 3 * length r) (case_sum (\<lambda>(d, r). 3 * length r + 1)
      (\<lambda>(d, r). if r = [] then 0 else 3 * length r + 3))))", goal_cases)
  case (4 depth rest)
  then show ?case using skip_tl_shorter [of rest] by (cases "rest = []") (auto simp: skipWhitespace_def)
next
  case (5 depth rest r1 r2)
  then show ?case using skip_after_shorter(2) [OF js_string_shorter [OF 5(2)], of] by simp
next
  case (6 depth rest r1 r2 r3 r4)
  have "Suc (length (skipWhitespace (tl (skipWhitespace r1)))) < length rest"
    using skip_after_shorter(2) [OF js_string_shorter [OF 6(2)]] 6(3,4) by simp
  then have "length r3 < length rest" using js_dom_shorter(1) [OF _ 6(5)] 6 by simp
  then show ?case using skip_after_shorter(2) [of r3 "length rest"] 6(6,7) by auto
next
  case (7 depth rest)
  then show ?case using skip_tl_shorter [of rest] by (cases "rest = []") (auto simp: skipWhitespace_def)
next
  case (9 depth rest r3 r4)
  have "length r3 < length rest" using js_dom_shorter(1) [of depth rest r3] 9 by blast
  then show ?case using skip_after_shorter(2) [of r3 "length rest"] 9(3,4) by auto
qed auto

declare js_value.simps [simp del] js_object.simps [simp del] js_members.simps [simp del]
  js_array.simps [simp del] js_elements.simps [simp del]

definition js_valid :: "bytes \<Rightarrow> bool" where
  "js_valid input = (case js_value 0 (skipWhitespace input) of None \<Rightarrow> False
     | Some rest \<Rightarrow> skipWhitespace rest = [])"

subsection \<open>The grammar\<close>

text \<open>
  The grammar of RFC 8259 over bytes, written with the character sets of the document and not with
  the tests of the validator.  It is the document's grammar with two restrictions: the depth index
  counts the enclosing containers and a value may stand at depth sixteen at most, and a surrogate
  escape stands only as the high half of a pair directly followed by its low half.
\<close>

definition hex_value :: "u8 \<Rightarrow> nat option" where
  "hex_value = map_of (zip (ascii ''0123456789abcdefABCDEF'') [0, 1, 2, 3, 4, 5, 6, 7, 8, 9, 10, 11, 12, 13, 14, 15,
     10, 11, 12, 13, 14, 15])"

definition is_hex :: "u8 \<Rightarrow> bool" where
  "is_hex c \<longleftrightarrow> hex_value c \<noteq> None"

text \<open>The number that hexadecimal digits denote.\<close>

definition hex_unit :: "bytes \<Rightarrow> nat" where
  "hex_unit h = foldl (\<lambda>v c. 16 * v + the (hex_value c)) 0 h"

inductive string_body :: "bytes \<Rightarrow> bool" where
  empty: "string_body []"
| plain: "string_body b \<Longrightarrow> \<not> c < 0x20 \<Longrightarrow> c \<noteq> cQuote \<Longrightarrow> c \<noteq> cBackslash \<Longrightarrow> string_body (c # b)"
| escape: "string_body b \<Longrightarrow> e \<in> {0x22, 0x5c, 0x2f, 0x62, 0x66, 0x6e, 0x72, 0x74} \<Longrightarrow> string_body (cBackslash # e # b)"
| unit: "string_body b \<Longrightarrow> length h = 4 \<Longrightarrow> list_all is_hex h \<Longrightarrow> hex_unit h < 0xd800 \<or> hex_unit h > 0xdfff
    \<Longrightarrow> string_body (cBackslash # 117 # h @ b)"
| pair: "string_body b \<Longrightarrow> length h = 4 \<Longrightarrow> list_all is_hex h \<Longrightarrow> 0xd800 \<le> hex_unit h \<Longrightarrow> hex_unit h \<le> 0xdbff
    \<Longrightarrow> length l = 4 \<Longrightarrow> list_all is_hex l \<Longrightarrow> 0xdc00 \<le> hex_unit l \<Longrightarrow> hex_unit l \<le> 0xdfff
    \<Longrightarrow> string_body (cBackslash # 117 # h @ cBackslash # 117 # l @ b)"

definition string_text :: "bytes \<Rightarrow> bool" where
  "string_text s \<longleftrightarrow> (\<exists>b. string_body b \<and> s = cQuote # b @ [cQuote])"

definition digits_text :: "bytes \<Rightarrow> bool" where
  "digits_text ds \<longleftrightarrow> ds \<noteq> [] \<and> set ds \<subseteq> {0x30, 0x31, 0x32, 0x33, 0x34, 0x35, 0x36, 0x37, 0x38, 0x39}"

definition integer_text :: "bytes \<Rightarrow> bool" where
  "integer_text i \<longleftrightarrow> i = [cZero] \<or> (digits_text i \<and> hd i \<noteq> cZero)"

definition fraction_text :: "bytes \<Rightarrow> bool" where
  "fraction_text f \<longleftrightarrow> f = [] \<or> (\<exists>ds. digits_text ds \<and> f = cDot # ds)"

definition exponent_text :: "bytes \<Rightarrow> bool" where
  "exponent_text x \<longleftrightarrow> x = [] \<or> (\<exists>e sg ds. (e = 101 \<or> e = 69) \<and> (sg = [] \<or> sg = [cPlus] \<or> sg = [cMinus])
     \<and> digits_text ds \<and> x = e # sg @ ds)"

definition number_text :: "bytes \<Rightarrow> bool" where
  "number_text n \<longleftrightarrow> (\<exists>sg i f x. (sg = [] \<or> sg = [cMinus]) \<and> integer_text i \<and> fraction_text f
     \<and> exponent_text x \<and> n = sg @ i @ f @ x)"

definition ws_text :: "bytes \<Rightarrow> bool" where
  "ws_text w \<longleftrightarrow> set w \<subseteq> {0x20, 0x09, 0x0a, 0x0d}"

definition scalar_text :: "bytes \<Rightarrow> bool" where
  "scalar_text t \<longleftrightarrow> string_text t \<or> number_text t \<or> t \<in> {ascii ''true'', ascii ''false'', ascii ''null''}"

inductive json_value :: "nat \<Rightarrow> bytes \<Rightarrow> bool"
  and json_members :: "nat \<Rightarrow> bytes \<Rightarrow> bool"
  and json_elements :: "nat \<Rightarrow> bytes \<Rightarrow> bool" where
  scalar: "d \<le> 16 \<Longrightarrow> scalar_text t \<Longrightarrow> json_value d t"
| empty_object: "d \<le> 16 \<Longrightarrow> ws_text w \<Longrightarrow> json_value d (cOpenBrace # w @ [cCloseBrace])"
| empty_array: "d \<le> 16 \<Longrightarrow> ws_text w \<Longrightarrow> json_value d (cOpenBracket # w @ [cCloseBracket])"
| object: "d \<le> 16 \<Longrightarrow> ws_text w \<Longrightarrow> json_members (d + 1) m \<Longrightarrow> json_value d (cOpenBrace # w @ m @ [cCloseBrace])"
| array: "d \<le> 16 \<Longrightarrow> ws_text w \<Longrightarrow> json_elements (d + 1) e \<Longrightarrow> json_value d (cOpenBracket # w @ e @ [cCloseBracket])"
| member: "string_text s \<Longrightarrow> ws_text w1 \<Longrightarrow> ws_text w2 \<Longrightarrow> json_value d v \<Longrightarrow> ws_text w3
    \<Longrightarrow> json_members d (s @ w1 @ cColon # w2 @ v @ w3)"
| members: "string_text s \<Longrightarrow> ws_text w1 \<Longrightarrow> ws_text w2 \<Longrightarrow> json_value d v \<Longrightarrow> ws_text w3 \<Longrightarrow> ws_text w4
    \<Longrightarrow> json_members d m \<Longrightarrow> json_members d (s @ w1 @ cColon # w2 @ v @ w3 @ cComma # w4 @ m)"
| element: "json_value d v \<Longrightarrow> ws_text w3 \<Longrightarrow> json_elements d (v @ w3)"
| elements: "json_value d v \<Longrightarrow> ws_text w3 \<Longrightarrow> ws_text w4 \<Longrightarrow> json_elements d e
    \<Longrightarrow> json_elements d (v @ w3 @ cComma # w4 @ e)"

text \<open>A JSON text: one value with white space around it.\<close>

definition json_text :: "bytes \<Rightarrow> bool" where
  "json_text t \<longleftrightarrow> (\<exists>w v w'. ws_text w \<and> json_value 0 v \<and> ws_text w' \<and> t = w @ v @ w')"

subsection \<open>The validator's tests\<close>

text \<open>The tests of the validator decide the character sets of the grammar.\<close>

lemma ws_text_code: "ws_text w \<longleftrightarrow> list_all json_ws w"
  by (auto simp: ws_text_def json_ws_def list_all_iff)

lemma is_digit_code: "is_digit c \<longleftrightarrow> c \<in> {0x30, 0x31, 0x32, 0x33, 0x34, 0x35, 0x36, 0x37, 0x38, 0x39}"
proof -
  have "is_digit c \<longleftrightarrow> unat c \<in> {48, 49, 50, 51, 52, 53, 54, 55, 56, 57}" by (simp add: is_digit_def) presburger
  then show ?thesis by (simp add: word_unat_eq_iff)
qed

lemma digits_text_code: "digits_text ds \<longleftrightarrow> ds \<noteq> [] \<and> list_all is_digit ds"
  by (auto simp: digits_text_def list_all_iff is_digit_code)

lemma simple_escape_code: "simple_escape e \<longleftrightarrow> e \<in> {0x22, 0x5c, 0x2f, 0x62, 0x66, 0x6e, 0x72, 0x74}"
  by (auto simp: simple_escape_def)

lemma hex_ranges:
  fixes c :: u8
  shows "48 \<le> c \<and> c \<le> 57 \<longleftrightarrow> c \<in> {48, 49, 50, 51, 52, 53, 54, 55, 56, 57}"
    and "97 \<le> c \<and> c \<le> 102 \<longleftrightarrow> c \<in> {97, 98, 99, 100, 101, 102}"
    and "65 \<le> c \<and> c \<le> 70 \<longleftrightarrow> c \<in> {65, 66, 67, 68, 69, 70}"
  by (simp_all add: word_le_nat_alt word_unat_eq_iff) presburger+

lemma hex_value_code: "hex_value c = map_option unat (hex_digit c)"
  unfolding hex_digit_def hex_ranges by (auto simp: hex_value_def ascii_def)

lemma is_hex_code: "is_hex c \<longleftrightarrow> hex_digit c \<noteq> None"
  by (simp add: is_hex_def hex_value_code)

lemma hex_digit_small: "hex_digit c = Some d \<Longrightarrow> unat d < 16"
  by (auto simp: hex_digit_def word_le_nat_alt unat_sub unat_plus_small split: if_splits)

lemma shifted_disjoint: "push_bit n a AND take_bit n b = 0" for a b :: "'a::len word"
  by (rule bit_word_eqI) (auto simp: bit_simps)

lemma hex_step:
  assumes "unat v < 4096" "unat d < 16"
  shows "unat (push_bit 4 v OR ucast (d :: u8) :: u16) = 16 * unat v + unat d"
proof -
  have d: "unat (ucast d :: u16) = unat d" using assms(2) by (simp add: unsigned_ucast_eq take_bit_nat_eq_self)
  have v: "unat (push_bit 4 v) = 16 * unat v" using assms(1)
    by (simp add: unsigned_push_bit_eq push_bit_nat_def take_bit_nat_def)
  have "take_bit 4 (ucast d :: u16) = ucast d" using assms(2) d by (intro take_bit_word_small) simp
  then have "push_bit 4 v AND ucast d = 0" by (metis shifted_disjoint)
  then have "push_bit 4 v OR ucast d = push_bit 4 v + ucast d" by (simp add: disjunctive_add_eq_or)
  then show ?thesis using assms by (simp add: unat_plus_small v d)
qed

subsection \<open>Strings\<close>

lemma hex_digits_eq:
  assumes "unat v < 16 ^ k" "k + length cs \<le> 4"
  shows "hex_digits v cs = Some u \<longleftrightarrow> list_all is_hex cs \<and> unat u = foldl (\<lambda>v c. 16 * v + the (hex_value c)) (unat v) cs"
  using assms
proof (induction cs arbitrary: v k)
  case Nil
  then show ?case by (auto simp: word_unat_eq_iff)
next
  case (Cons c cs)
  show ?case
  proof (cases "hex_digit c")
    case None
    then show ?thesis by (simp add: is_hex_code)
  next
    case (Some d)
    have "k \<le> 3" using Cons.prems(2) by simp
    then have "(16 :: nat) ^ k \<le> 16 ^ 3" by (intro power_increasing) simp_all
    then have step: "unat (push_bit 4 v OR ucast d) = 16 * unat v + unat d"
      using Cons.prems(1) hex_digit_small [OF Some] by (intro hex_step) simp_all
    have "unat (push_bit 4 v OR ucast d) < 16 ^ Suc k"
      using Cons.prems(1) hex_digit_small [OF Some] by (simp add: step)
    from Cons.IH [OF this] Cons.prems(2) Some show ?thesis by (simp add: is_hex_code hex_value_code step)
  qed
qed

lemma hex4_iff: "hex4 r = Some (v, r') \<longleftrightarrow> (\<exists>h. length h = 4 \<and> list_all is_hex h \<and> unat v = hex_unit h \<and> r = h @ r')"
proof
  assume "hex4 r = Some (v, r')"
  then have "length (take 4 r) = 4 \<and> list_all is_hex (take 4 r) \<and> unat v = hex_unit (take 4 r) \<and> r = take 4 r @ r'"
    by (auto simp: hex4_def hex_digits_eq [of 0 0] hex_unit_def split: if_splits)
  then show "\<exists>h. length h = 4 \<and> list_all is_hex h \<and> unat v = hex_unit h \<and> r = h @ r'" by blast
qed (auto simp: hex4_def hex_digits_eq [of 0 0] hex_unit_def)

lemma hex4_text:
  assumes "length h = 4" "list_all is_hex h"
  obtains v where "hex4 (h @ r) = Some (v, r)" "unat v = hex_unit h"
proof -
  have "hex_digits v cs \<noteq> None" if "list_all is_hex cs" for v cs
    using that by (induction cs arbitrary: v) (auto simp: is_hex_code)
  then obtain v where "hex_digits 0 h = Some v" using assms(2) by blast
  moreover from this have "unat v = hex_unit h" using assms(1) hex_digits_eq [of 0 0 h v] by (simp add: hex_unit_def)
  ultimately show thesis using that assms(1) by (simp add: hex4_def)
qed

lemma simple_escape_117: "simple_escape e \<Longrightarrow> e \<noteq> 117"
  by (auto simp: simple_escape_def)

lemma js_chars_complete: "string_body b \<Longrightarrow> js_chars (b @ cQuote # rest) = Some rest"
proof (induction rule: string_body.induct)
  case (escape b e)
  then show ?case using simple_escape_code [of e] by (simp add: simple_escape_117)
next
  case (unit b h)
  obtain v where v: "hex4 (h @ b @ cQuote # rest) = Some (v, b @ cQuote # rest)" "unat v = hex_unit h"
    using hex4_text unit.hyps by blast
  moreover have "\<not> (0xd800 \<le> v \<and> v \<le> 0xdbff)" "\<not> (0xdc00 \<le> v \<and> v \<le> 0xdfff)"
    using unit(4) v(2) by (auto simp: word_le_nat_alt)
  ultimately show ?case using unit.IH by (auto simp: simple_escape_def)
next
  case (pair b h l)
  obtain v where v: "hex4 (h @ cBackslash # 117 # l @ b @ cQuote # rest) = Some (v, cBackslash # 117 # l @ b @ cQuote # rest)"
    "unat v = hex_unit h" using hex4_text pair.hyps by blast
  obtain w where w: "hex4 (l @ b @ cQuote # rest) = Some (w, b @ cQuote # rest)" "unat w = hex_unit l"
    using hex4_text pair.hyps by blast
  have "0xd800 \<le> v" "v \<le> 0xdbff" "0xdc00 \<le> w" "w \<le> 0xdfff" using pair v w by (simp_all add: word_le_nat_alt)
  with v w show ?case using pair by (simp add: simple_escape_def not_less)
qed auto

lemma js_chars_sound: "js_chars r = Some r' \<Longrightarrow> \<exists>b. string_body b \<and> r = b @ cQuote # r'"
proof (induction r rule: length_induct)
  case (1 r)
  have IH: "\<exists>b. string_body b \<and> y = b @ cQuote # r'" if "js_chars y = Some r'" "length y < length r" for y
    using 1(1) that by blast
  from 1(2) obtain c rest where r: "r = c # rest" by (cases r) auto
  have shorter: "length y < length r" if "rest = x @ y" for x y using that by (simp add: r)
  consider (quote) "c = cQuote" "r' = rest"
    | (plain) "c \<noteq> cQuote" "\<not> c < 0x20" "c \<noteq> cBackslash" "js_chars rest = Some r'"
    | (esc) e rest2 where "c = cBackslash" "rest = e # rest2" "simple_escape e" "js_chars rest2 = Some r'"
    | (uni) rest2 v rest3 where "c = cBackslash" "rest = 117 # rest2" "hex4 rest2 = Some (v, rest3)"
        "v < 0xd800 \<or> v > 0xdfff" "js_chars rest3 = Some r'"
    | (pair) rest2 v rest3 w rest4 where "c = cBackslash" "rest = 117 # rest2"
        "hex4 rest2 = Some (v, cBackslash # 117 # rest3)" "0xd800 \<le> v" "v \<le> 0xdbff"
        "hex4 rest3 = Some (w, rest4)" "0xdc00 \<le> w" "w \<le> 0xdfff" "js_chars rest4 = Some r'"
  proof (cases "c = cBackslash")
    case False
    with 1(2) quote plain show thesis by (auto simp: r split: if_splits)
  next
    case bs: True
    with 1(2) obtain e rest2 where e: "rest = e # rest2" by (cases rest) (auto simp: r)
    show thesis
    proof (cases "simple_escape e")
      case True
      with 1(2) bs e esc show thesis by (simp add: r)
    next
      case False
      with 1(2) bs e obtain v rest3 where h: "e = 117" "hex4 rest2 = Some (v, rest3)"
        by (auto simp: r split: if_splits option.splits)
      show thesis
      proof (cases "0xd800 \<le> v \<and> v \<le> 0xdbff")
        case sur: True
        with 1(2) bs e h False obtain w rest4 where l: "\<not> length rest3 < 2" "hd rest3 = cBackslash" "hd (tl rest3) = 117"
          "hex4 (drop 2 rest3) = Some (w, rest4)" "\<not> (w < 0xdc00 \<or> w > 0xdfff)" "js_chars rest4 = Some r'"
          by (auto simp: r split: if_splits option.splits)
        from l(1-3) have "rest3 = cBackslash # 117 # drop 2 rest3"
          by (cases rest3; cases "tl rest3") auto
        with l h e bs sur show thesis by (intro pair [of rest2 v "drop 2 rest3" w rest4]) auto
      next
        case ns: False
        with 1(2) bs e h False have "\<not> (0xdc00 \<le> v \<and> v \<le> 0xdfff)" "js_chars rest3 = Some r'"
          by (auto simp: r split: if_splits)
        moreover from this ns have "v < 0xd800 \<or> v > 0xdfff" by (auto simp: word_less_nat_alt word_le_nat_alt)
        ultimately show thesis using uni bs e h by blast
      qed
    qed
  qed
  then show ?case
  proof cases
    case quote
    then show ?thesis using string_body.empty by (auto simp: r)
  next
    case plain
    then obtain b where "string_body b" "rest = b @ cQuote # r'" using IH [of rest] by (auto simp: r)
    then show ?thesis using plain string_body.plain [of b c] by (intro exI [of _ "c # b"]) (simp add: r)
  next
    case esc
    then obtain b where "string_body b" "rest2 = b @ cQuote # r'" using IH [of rest2] by (auto simp: r)
    then show ?thesis using esc string_body.escape [of b e] unfolding simple_escape_code by (intro exI [of _ "c # e # b"]) (simp add: r)
  next
    case uni
    from uni(3) obtain h where h: "length h = 4" "list_all is_hex h" "unat v = hex_unit h" "rest2 = h @ rest3"
      by (auto simp: hex4_iff)
    from uni h obtain b where "string_body b" "rest3 = b @ cQuote # r'" using IH [of rest3] by (auto simp: r)
    then show ?thesis using uni h string_body.unit [of b h] by (intro exI [of _ "c # 117 # h @ b"]) (simp add: r word_less_nat_alt)
  next
    case pair
    from pair(3) obtain h where h: "length h = 4" "list_all is_hex h" "unat v = hex_unit h"
      "rest2 = h @ cBackslash # 117 # rest3" by (auto simp: hex4_iff)
    from pair(6) obtain l where l: "length l = 4" "list_all is_hex l" "unat w = hex_unit l" "rest3 = l @ rest4"
      by (auto simp: hex4_iff)
    from pair h l obtain b where "string_body b" "rest4 = b @ cQuote # r'" using IH [of rest4] by (auto simp: r)
    then show ?thesis using pair h l string_body.pair [of b h l]
      by (intro exI [of _ "c # 117 # h @ cBackslash # 117 # l @ b"]) (simp add: r word_le_nat_alt)
  qed
qed

lemma js_string_sound: "js_string r = Some r' \<Longrightarrow> \<exists>s. string_text s \<and> r = s @ r'"
  by (auto simp: js_string_def string_text_def split: list.splits if_splits dest!: js_chars_sound)

lemma js_string_complete: "string_text s \<Longrightarrow> js_string (s @ r') = Some r'"
  by (auto simp: js_string_def string_text_def js_chars_complete)

subsection \<open>Numbers\<close>

text \<open>What may follow a number without becoming part of it.\<close>

definition follows :: "bytes \<Rightarrow> bool" where
  "follows r \<longleftrightarrow> r = [] \<or> (\<not> is_digit (hd r) \<and> hd r \<noteq> cDot \<and> hd r \<noteq> 101 \<and> hd r \<noteq> 69)"

lemma is_digit_dropWhile: "list_all is_digit ds \<Longrightarrow> r = [] \<or> \<not> is_digit (hd r) \<Longrightarrow> dropWhile is_digit (ds @ r) = r"
  by (induction ds) (auto simp: dropWhile_eq_self_iff)

lemma js_fraction_sound: "js_fraction r = Some r' \<Longrightarrow> \<exists>f. fraction_text f \<and> r = f @ r'"
proof (cases "r \<noteq> [] \<and> hd r = cDot")
  case True
  assume a: "js_fraction r = Some r'"
  let ?ds = "takeWhile is_digit (tl r)"
  from a True have r': "r' = dropWhile is_digit (tl r)" "length r' \<noteq> length (tl r)"
    by (auto simp: js_fraction_def Let_def split: if_splits)
  moreover have split: "tl r = ?ds @ r'" using r' by simp
  ultimately have "?ds \<noteq> []" by (metis append_Nil)
  then have "digits_text ?ds" by (simp add: digits_text_code list_all_iff) (metis set_takeWhileD)
  moreover have "r = (cDot # ?ds) @ r'" using True split by (cases r) auto
  ultimately show ?thesis unfolding fraction_text_def by blast
qed (auto simp: js_fraction_def fraction_text_def)

lemma js_fraction_complete:
  assumes "fraction_text f" and "r' = [] \<or> \<not> is_digit (hd r') \<and> hd r' \<noteq> cDot"
  shows "js_fraction (f @ r') = Some r'"
proof (cases "f = []")
  case False
  with assms(1) obtain ds where f: "f = cDot # ds" "digits_text ds" by (auto simp: fraction_text_def)
  then have "dropWhile is_digit (ds @ r') = r'" using is_digit_dropWhile [of ds r'] assms(2) by (auto simp: digits_text_code)
  with f show ?thesis by (simp add: js_fraction_def digits_text_code)
qed (use assms(2) in \<open>auto simp: js_fraction_def\<close>)

lemma js_exponent_sound: "js_exponent r = Some r' \<Longrightarrow> \<exists>x. exponent_text x \<and> r = x @ r'"
proof (cases "r \<noteq> [] \<and> (hd r = 101 \<or> hd r = 69)")
  case True
  assume a: "js_exponent r = Some r'"
  define sg where "sg = (if tl r \<noteq> [] \<and> (hd (tl r) = cPlus \<or> hd (tl r) = cMinus) then [hd (tl r)] else [])"
  define ds where "ds = (if tl r \<noteq> [] \<and> (hd (tl r) = cPlus \<or> hd (tl r) = cMinus) then tl (tl r) else tl r)"
  have tl: "tl r = sg @ ds" by (auto simp: sg_def ds_def)
  from a True have r': "r' = dropWhile is_digit ds" "length r' \<noteq> length ds"
    by (auto simp: js_exponent_def Let_def ds_def split: if_splits)
  let ?d = "takeWhile is_digit ds"
  have split: "ds = ?d @ r'" using r' by simp
  with r' have "?d \<noteq> []" by (metis append_Nil)
  then have "digits_text ?d" by (simp add: digits_text_code list_all_iff) (metis set_takeWhileD)
  moreover have "r = (hd r # sg @ ?d) @ r'" using True tl split by (cases r) auto
  moreover have "sg = [] \<or> sg = [cPlus] \<or> sg = [cMinus]" by (auto simp: sg_def)
  ultimately show ?thesis using True unfolding exponent_text_def by blast
qed (auto simp: js_exponent_def exponent_text_def)

lemma js_exponent_complete:
  assumes "exponent_text x" and "follows r'"
  shows "js_exponent (x @ r') = Some r'"
proof (cases "x = []")
  case False
  with assms(1) obtain e sg ds where x: "e = 101 \<or> e = 69" "sg = [] \<or> sg = [cPlus] \<or> sg = [cMinus]"
    "digits_text ds" "x = e # sg @ ds" by (auto simp: exponent_text_def)
  then have dw: "dropWhile is_digit (ds @ r') = r'"
    using is_digit_dropWhile [of ds r'] assms(2) by (auto simp: digits_text_code follows_def)
  have "hd ds \<noteq> cPlus" "hd ds \<noteq> cMinus" "ds \<noteq> []"
    using x(3) by (auto simp: digits_text_code list_all_iff is_digit_def neq_Nil_conv)
  with x dw show ?thesis by (auto simp: js_exponent_def Let_def)
qed (use assms(2) in \<open>auto simp: js_exponent_def follows_def\<close>)

lemma js_integer_sound: "js_integer r = Some r' \<Longrightarrow> \<exists>i. integer_text i \<and> r = i @ r'"
proof (cases r)
  case (Cons c cs)
  assume a: "js_integer r = Some r'"
  show ?thesis
  proof (cases "c = cZero")
    case True
    with a Cons show ?thesis by (auto simp: js_integer_def integer_text_def split: if_splits)
  next
    case False
    with a Cons have c: "is_digit c" "r' = dropWhile is_digit r"
      by (auto simp: js_integer_def is_digit_def not_less word_less_nat_alt word_le_nat_alt split: if_splits)
    have "r = takeWhile is_digit r @ r'" using c by simp
    moreover have "digits_text (takeWhile is_digit r)" using c Cons
      by (simp add: digits_text_code list_all_iff) (metis set_takeWhileD)
    moreover have "hd (takeWhile is_digit r) = c" using c Cons by simp
    ultimately show ?thesis using False unfolding integer_text_def by metis
  qed
qed (simp add: js_integer_def)

lemma js_integer_complete:
  assumes "integer_text i" and "r' = [] \<or> \<not> is_digit (hd r')"
  shows "js_integer (i @ r') = Some r'"
proof (cases "i = [cZero]")
  case False
  with assms(1) have i: "i \<noteq> []" "list_all is_digit i" "hd i \<noteq> cZero" by (auto simp: integer_text_def digits_text_code)
  then obtain c cs where c: "i = c # cs" by (cases i) auto
  with i have "\<not> (c < 49 \<or> c > 57)" by (auto simp: is_digit_def word_less_nat_alt word_le_nat_alt word_unat_eq_iff)
  with i c is_digit_dropWhile [OF i(2) assms(2)] show ?thesis by (auto simp: js_integer_def)
qed (use assms(2) in \<open>auto simp: js_integer_def\<close>)

lemma js_number_sound: "js_number r = Some r' \<Longrightarrow> \<exists>n. number_text n \<and> r = n @ r'"
proof -
  assume a: "js_number r = Some r'"
  define sg where "sg = (if r \<noteq> [] \<and> hd r = cMinus then [cMinus] else [])"
  define u where "u = (if r \<noteq> [] \<and> hd r = cMinus then tl r else r)"
  have r: "r = sg @ u" by (cases r) (auto simp: sg_def u_def)
  from a obtain r1 r2 where "js_integer u = Some r1" "js_fraction r1 = Some r2" "js_exponent r2 = Some r'"
    by (auto simp: js_number_def Let_def u_def split: option.splits if_splits)
  then obtain i f x where "integer_text i" "fraction_text f" "exponent_text x" "u = (i @ f @ x) @ r'"
    by (metis js_integer_sound js_fraction_sound js_exponent_sound append.assoc)
  moreover have "sg = [] \<or> sg = [cMinus]" by (simp add: sg_def)
  ultimately show ?thesis unfolding number_text_def r by (metis append.assoc)
qed

lemma js_number_complete:
  assumes "number_text n" and "follows r'"
  shows "js_number (n @ r') = Some r'"
proof -
  from assms(1) obtain sg i f x where n: "sg = [] \<or> sg = [cMinus]" "integer_text i" "fraction_text f" "exponent_text x"
    "n = sg @ i @ f @ x" by (auto simp: number_text_def)
  have i: "i \<noteq> []" "hd i \<noteq> cMinus"
    using n(2) by (auto simp: integer_text_def digits_text_code list_all_iff is_digit_def neq_Nil_conv)
  have x: "x @ r' = [] \<or> \<not> is_digit (hd (x @ r')) \<and> hd (x @ r') \<noteq> cDot"
    using n(4) assms(2) by (auto simp: exponent_text_def follows_def is_digit_def)
  have f: "f @ x @ r' = [] \<or> \<not> is_digit (hd (f @ x @ r'))"
    using n(3) x by (auto simp: fraction_text_def is_digit_def)
  have "js_exponent (x @ r') = Some r'" by (rule js_exponent_complete [OF n(4) assms(2)])
  moreover have "js_fraction (f @ x @ r') = Some (x @ r')" by (rule js_fraction_complete [OF n(3) x])
  moreover have "js_integer (i @ f @ x @ r') = Some (f @ x @ r')" by (rule js_integer_complete [OF n(2) f])
  moreover have "(if n @ r' \<noteq> [] \<and> hd (n @ r') = cMinus then tl (n @ r') else n @ r') = i @ f @ x @ r'"
    using n(1) i by (auto simp: n(5))
  moreover have "length r' < length (n @ r')" using i by (simp add: n(5))
  ultimately show ?thesis unfolding js_number_def Let_def by simp
qed

subsection \<open>Values\<close>

lemma skip_split: "\<exists>w. ws_text w \<and> r = w @ skipWhitespace r"
  by (intro exI [of _ "takeWhile json_ws r"])
     (auto simp: skipWhitespace_def ws_text_code list_all_iff dest: set_takeWhileD)

lemma skip_ws: "ws_text w \<Longrightarrow> r = [] \<or> \<not> json_ws (hd r) \<Longrightarrow> skipWhitespace (w @ r) = r"
  unfolding skipWhitespace_def ws_text_code
  by (induction w) (auto simp: dropWhile_eq_self_iff)

lemma js_literal_sound: "js_literal e r = Some r' \<Longrightarrow> r = e @ r'"
  by (auto simp: js_literal_def split: if_splits) (metis append_take_drop_id)

lemma js_literal_complete: "js_literal e (e @ r') = Some r'"
  by (simp add: js_literal_def)

text \<open>The inside of a container up to its closing character.\<close>

definition container_body :: "(bytes \<Rightarrow> bool) \<Rightarrow> bytes \<Rightarrow> bool" where
  "container_body P b \<longleftrightarrow> ws_text b \<or> (\<exists>w m. ws_text w \<and> P m \<and> b = w @ m)"

lemma js_sound:
  "js_value d r = Some r' \<Longrightarrow> \<exists>v. json_value d v \<and> r = v @ r'"
  "js_object d r = Some r' \<Longrightarrow> \<exists>b. container_body (json_members d) b \<and> tl r = b @ cCloseBrace # r'"
  "js_members d r = Some r' \<Longrightarrow> \<exists>m. json_members d m \<and> r = m @ cCloseBrace # r'"
  "js_array d r = Some r' \<Longrightarrow> \<exists>b. container_body (json_elements d) b \<and> tl r = b @ cCloseBracket # r'"
  "js_elements d r = Some r' \<Longrightarrow> \<exists>m. json_elements d m \<and> r = m @ cCloseBracket # r'"
proof (induction d r and d r and d r and d r and d r arbitrary: r' and r' and r' and r' and r'
    rule: js_value_js_object_js_members_js_array_js_elements.induct)
  case (1 depth rest)
  note run = 1(3) [unfolded js_value.simps [of depth rest] Let_def]
  from run have d: "depth \<le> 16" and ne: "rest \<noteq> []" by (auto split: if_splits)
  then have rest: "rest = hd rest # tl rest" by simp
  consider (object) "hd rest = cOpenBrace" | (array) "hd rest = cOpenBracket" "hd rest \<noteq> cOpenBrace"
    | (other) "hd rest \<noteq> cOpenBrace" "hd rest \<noteq> cOpenBracket" by blast
  then show ?case
  proof cases
    case object
    with run d ne have "js_object (depth + 1) rest = Some r'" by simp
    then obtain b where b: "container_body (json_members (depth + 1)) b" "tl rest = b @ cCloseBrace # r'"
      using 1(1) [OF _ refl object] d ne by auto
    then have "json_value depth (cOpenBrace # b @ [cCloseBrace])"
      using empty_object [OF d] json_value_json_members_json_elements.object [OF d] by (auto simp: container_body_def)
    with b show ?thesis using rest object by (intro exI [of _ "cOpenBrace # b @ [cCloseBrace]"]) simp
  next
    case array
    with run d ne have "js_array (depth + 1) rest = Some r'" by simp
    then obtain b where b: "container_body (json_elements (depth + 1)) b" "tl rest = b @ cCloseBracket # r'"
      using 1(2) [OF _ refl array(2,1)] d ne by auto
    then have "json_value depth (cOpenBracket # b @ [cCloseBracket])"
      using empty_array [OF d] json_value_json_members_json_elements.array [OF d] by (auto simp: container_body_def)
    with b show ?thesis using rest array by (intro exI [of _ "cOpenBracket # b @ [cCloseBracket]"]) simp
  next
    case other
    with run d ne have "js_string rest = Some r' \<or> js_number rest = Some r'
        \<or> (\<exists>e \<in> {ascii ''true'', ascii ''false'', ascii ''null''}. js_literal e rest = Some r')"
      by (simp add: Let_def split: if_splits)
    then have "\<exists>v. scalar_text v \<and> rest = v @ r'"
      using js_string_sound [of rest r'] js_number_sound [of rest r'] js_literal_sound [of _ rest r']
      unfolding scalar_text_def by auto
    with d show ?thesis using scalar by blast
  qed
next
  case (2 depth rest)
  note run = 2(2) [unfolded js_object.simps [of depth rest] Let_def]
  obtain w where w: "ws_text w" "tl rest = w @ skipWhitespace (tl rest)" using skip_split by blast
  show ?case
  proof (cases "skipWhitespace (tl rest) \<noteq> [] \<and> hd (skipWhitespace (tl rest)) = cCloseBrace")
    case True
    with run w show ?thesis
      by (intro exI [of _ w]) (auto simp: container_body_def neq_Nil_conv Let_def)
  next
    case False
    with run have "js_members depth (skipWhitespace (tl rest)) = Some r'" by (auto simp: Let_def split: if_splits)
    with 2(1) [OF refl False] obtain m where "json_members depth m" "skipWhitespace (tl rest) = m @ cCloseBrace # r'" by blast
    with w show ?thesis by (intro exI [of _ "w @ m"]) (auto simp: container_body_def)
  qed
next
  case (3 depth rest)
  note run = 3(3) [unfolded js_members.simps [of depth rest] Let_def]
  from run obtain r1 where r1: "js_string rest = Some r1" and ne: "rest \<noteq> []"
    by (auto split: if_splits option.splits)
  define r2 where "r2 = skipWhitespace r1"
  from run r1 ne obtain r3 where r2: "\<not> (r2 = [] \<or> hd r2 \<noteq> cColon)"
      "js_value depth (skipWhitespace (tl r2)) = Some r3"
    by (auto simp: Let_def r2_def split: if_splits option.splits)
  define r4 where "r4 = skipWhitespace r3"
  obtain s where s: "string_text s" "rest = s @ r1" using js_string_sound [OF r1] by blast
  obtain v where v: "json_value depth v" "skipWhitespace (tl r2) = v @ r3"
    using 3(1) [OF ne r1 r2_def r2(1) r2(2)] by blast
  obtain w1 where w1: "ws_text w1" "r1 = w1 @ r2" using skip_split [of r1] unfolding r2_def by blast
  obtain w2 where w2: "ws_text w2" "tl r2 = w2 @ v @ r3" using skip_split [of "tl r2"] unfolding v(2) by blast
  obtain w3 where w3: "ws_text w3" "r3 = w3 @ r4" using skip_split [of r3] unfolding r4_def by blast
  have rest: "rest = s @ w1 @ cColon # w2 @ v @ w3 @ r4"
    using s(2) w1(2) w2(2) w3(2) r2(1) by (metis append.assoc append_Cons list.collapse)
  have r4: "r4 \<noteq> []" using run r1 ne r2 by (auto simp: Let_def r2_def r4_def split: if_splits)
  show ?case
  proof (cases "hd r4 = cCloseBrace")
    case True
    with run r1 ne r2 r4 have "r4 = cCloseBrace # r'" by (cases r4) (auto simp: Let_def r2_def r4_def)
    with member [OF s(1) w1(1) w2(1) v(1) w3(1)] rest show ?thesis by (intro exI conjI) auto
  next
    case False
    with run r1 ne r2 r4 have r: "\<not> hd r4 \<noteq> cComma" "js_members depth (skipWhitespace (tl r4)) = Some r'"
      by (auto simp: Let_def r2_def r4_def split: if_splits)
    obtain m where m: "json_members depth m" "skipWhitespace (tl r4) = m @ cCloseBrace # r'"
      using 3(2) [OF ne r1 r2_def r2(1) r2(2) r4_def r4 False r] by blast
    obtain w4 where "ws_text w4" "r4 = cComma # w4 @ m @ cCloseBrace # r'"
      using skip_split [of "tl r4"] r(1) r4 m(2) by (metis list.collapse)
    with members [OF s(1) w1(1) w2(1) v(1) w3(1) _ m(1)] rest show ?thesis by (intro exI conjI) auto
  qed
next
  case (4 depth rest)
  note run = 4(2) [unfolded js_array.simps [of depth rest] Let_def]
  obtain w where w: "ws_text w" "tl rest = w @ skipWhitespace (tl rest)" using skip_split by blast
  show ?case
  proof (cases "skipWhitespace (tl rest) \<noteq> [] \<and> hd (skipWhitespace (tl rest)) = cCloseBracket")
    case True
    with run w show ?thesis
      by (intro exI [of _ w]) (auto simp: container_body_def neq_Nil_conv Let_def)
  next
    case False
    with run have "js_elements depth (skipWhitespace (tl rest)) = Some r'" by (auto simp: Let_def split: if_splits)
    with 4(1) [OF refl False] obtain m where "json_elements depth m" "skipWhitespace (tl rest) = m @ cCloseBracket # r'" by blast
    with w show ?thesis by (intro exI [of _ "w @ m"]) (auto simp: container_body_def)
  qed
next
  case (5 depth rest)
  note run = 5(3) [unfolded js_elements.simps [of depth rest] Let_def]
  from run obtain r3 where r3: "js_value depth rest = Some r3" and ne: "rest \<noteq> []"
    by (auto split: if_splits option.splits)
  define r4 where "r4 = skipWhitespace r3"
  obtain v where v: "json_value depth v" "rest = v @ r3" using 5(1) [OF ne r3] by blast
  obtain w3 where w: "ws_text w3" "r3 = w3 @ r4" using skip_split [of r3] unfolding r4_def by blast
  have r4: "r4 \<noteq> []" using run r3 ne by (auto simp: Let_def r4_def split: if_splits)
  show ?case
  proof (cases "hd r4 = cCloseBracket")
    case True
    with run r3 ne r4 have "r4 = cCloseBracket # r'" by (cases r4) (auto simp: Let_def r4_def)
    with element [OF v(1) w(1)] v w show ?thesis by (intro exI conjI) auto
  next
    case False
    with run r3 ne r4 have r: "\<not> hd r4 \<noteq> cComma" "js_elements depth (skipWhitespace (tl r4)) = Some r'"
      by (auto simp: Let_def r4_def split: if_splits)
    obtain m where m: "json_elements depth m" "skipWhitespace (tl r4) = m @ cCloseBracket # r'"
      using 5(2) [OF ne r3 r4_def r4 False r] by blast
    obtain w4 where "ws_text w4" "r4 = cComma # w4 @ m @ cCloseBracket # r'"
      using skip_split [of "tl r4"] r(1) r4 m(2) by (metis list.collapse)
    with elements [OF v(1) w(1) _ m(1)] v w show ?thesis by (intro exI conjI) auto
  qed
qed

lemma number_head: "number_text n \<Longrightarrow> n \<noteq> [] \<and> (hd n = cMinus \<or> is_digit (hd n))"
  by (auto simp: number_text_def integer_text_def digits_text_code is_digit_def list_all_iff neq_Nil_conv)

lemma literal_bytes:
  "ascii ''true'' = [116, 114, 117, 101]" "ascii ''false'' = [102, 97, 108, 115, 101]" "ascii ''null'' = [110, 117, 108, 108]"
  by (simp_all add: ascii_def)

lemma scalar_head: "scalar_text t \<Longrightarrow> t \<noteq> [] \<and> \<not> json_ws (hd t) \<and> hd t \<notin> {cOpenBrace, cCloseBrace, cOpenBracket, cCloseBracket}"
  using number_head [of t]
  by (auto simp: scalar_text_def string_text_def literal_bytes json_ws_def is_digit_def)

lemma json_heads:
  "json_value d v \<Longrightarrow> v \<noteq> [] \<and> \<not> json_ws (hd v) \<and> hd v \<noteq> cCloseBracket"
  "json_members d m \<Longrightarrow> m \<noteq> [] \<and> hd m = cQuote"
  "json_elements d e \<Longrightarrow> e \<noteq> [] \<and> \<not> json_ws (hd e) \<and> hd e \<noteq> cCloseBracket"
proof (induction rule: json_value_json_members_json_elements.inducts)
  case (scalar d t)
  then show ?case using scalar_head by blast
qed (auto simp: json_ws_def string_text_def)

lemma js_scalar_complete:
  assumes "scalar_text t" and "d \<le> 16" and "follows r'"
  shows "js_value d (t @ r') = Some r'"
proof -
  have h: "t \<noteq> []" "hd t \<noteq> cOpenBrace" "hd t \<noteq> cOpenBracket" using scalar_head [OF assms(1)] by auto
  consider "string_text t" | "number_text t" | "t = ascii ''true''" | "t = ascii ''false''" | "t = ascii ''null''"
    using assms(1) by (auto simp: scalar_text_def)
  then show ?thesis
  proof cases
    case 1
    then have "hd t = cQuote" by (auto simp: string_text_def)
    with h assms(2) js_string_complete [OF 1] show ?thesis by (simp add: js_value.simps)
  next
    case 2
    then have "hd t \<noteq> cQuote" "hd t \<noteq> 116" "hd t \<noteq> 102" "hd t \<noteq> 110"
      using number_head [OF 2] by (auto simp: is_digit_def)
    with h assms(2) js_number_complete [OF 2 assms(3)] show ?thesis by (simp add: js_value.simps)
  qed (use assms(2) in \<open>simp_all add: js_value.simps js_literal_def literal_bytes\<close>)
qed

lemma follows_close: "follows (w @ c # r)" if "ws_text w" "c \<in> {cComma, cCloseBrace, cCloseBracket}"
  using that by (cases w) (auto simp: follows_def ws_text_code json_ws_def is_digit_def)

lemma skip_close: "skipWhitespace (w @ c # r) = c # r" if "ws_text w" "c \<in> {cColon, cComma, cCloseBrace, cCloseBracket}"
  using that by (intro skip_ws) (auto simp: json_ws_def)

lemma skip_text: "skipWhitespace (w @ v @ r) = v @ r" if "ws_text w" "v \<noteq> []" "\<not> json_ws (hd v)"
  using that by (intro skip_ws) auto

text \<open>One round of the member loop and of the element loop.\<close>

lemma js_member_step:
  assumes "string_text s" "ws_text w1" "ws_text w2" "json_value d v" "ws_text w3" "c \<in> {cComma, cCloseBrace}"
    and "js_value d (v @ w3 @ c # r) = Some (w3 @ c # r)"
  shows "js_members d (s @ w1 @ cColon # w2 @ v @ w3 @ c # r) =
    (if c = cCloseBrace then Some r else js_members d (skipWhitespace r))"
proof -
  have "s \<noteq> []" using assms(1) by (auto simp: string_text_def)
  moreover have "skipWhitespace (w1 @ cColon # w2 @ v @ w3 @ c # r) = cColon # w2 @ v @ w3 @ c # r"
    using assms(2) by (intro skip_close) auto
  moreover have "skipWhitespace (w2 @ v @ w3 @ c # r) = v @ w3 @ c # r"
    using assms(3) json_heads(1) [OF assms(4)] by (intro skip_text) auto
  moreover have "skipWhitespace (w3 @ c # r) = c # r" using assms(5,6) by (intro skip_close) auto
  ultimately show ?thesis
    using assms(6,7) js_string_complete [OF assms(1)] by (subst js_members.simps) auto
qed

lemma js_element_step:
  assumes "json_value d v" "ws_text w3" "c \<in> {cComma, cCloseBracket}"
    and "js_value d (v @ w3 @ c # r) = Some (w3 @ c # r)"
  shows "js_elements d (v @ w3 @ c # r) =
    (if c = cCloseBracket then Some r else js_elements d (skipWhitespace r))"
proof -
  have "skipWhitespace (w3 @ c # r) = c # r" using assms(2,3) by (intro skip_close) auto
  with assms(3,4) json_heads(1) [OF assms(1)] show ?thesis by (subst js_elements.simps) auto
qed

lemma js_complete:
  "json_value d v \<Longrightarrow> follows r' \<Longrightarrow> js_value d (v @ r') = Some r'"
  "json_members d m \<Longrightarrow> js_members d (m @ cCloseBrace # r') = Some r'"
  "json_elements d e \<Longrightarrow> js_elements d (e @ cCloseBracket # r') = Some r'"
proof (induction arbitrary: r' and r' and r' rule: json_value_json_members_json_elements.inducts)
  case (scalar d t)
  then show ?case by (intro js_scalar_complete)
next
  case (empty_object d w)
  have "skipWhitespace (w @ cCloseBrace # r') = cCloseBrace # r'" using empty_object by (intro skip_close) auto
  with empty_object show ?case by (simp add: js_value.simps js_object.simps)
next
  case (empty_array d w)
  have "skipWhitespace (w @ cCloseBracket # r') = cCloseBracket # r'" using empty_array by (intro skip_close) auto
  with empty_array show ?case by (simp add: js_value.simps js_array.simps)
next
  case (object d w m)
  have h: "m \<noteq> []" "hd m = cQuote" using json_heads(2) [OF object(3)] by auto
  then have "skipWhitespace (w @ m @ cCloseBrace # r') = m @ cCloseBrace # r'"
    using object by (intro skip_text) (auto simp: json_ws_def)
  with object h show ?case by (simp add: js_value.simps js_object.simps)
next
  case (array d w e)
  have h: "e \<noteq> []" "\<not> json_ws (hd e)" "hd e \<noteq> cCloseBracket" using json_heads(3) [OF array(3)] by auto
  then have "skipWhitespace (w @ e @ cCloseBracket # r') = e @ cCloseBracket # r'"
    using array by (intro skip_text) auto
  with array h show ?case by (simp add: js_value.simps js_array.simps)
next
  case (member s w1 w2 d v w3)
  have "js_value d (v @ w3 @ cCloseBrace # r') = Some (w3 @ cCloseBrace # r')"
    using member by (intro member.IH follows_close) auto
  with js_member_step [OF member(1-3) member.hyps(4) member.hyps(5)] show ?case by simp
next
  case (members s w1 w2 d v w3 w4 m)
  let ?r = "w4 @ m @ cCloseBrace # r'"
  have "js_value d (v @ w3 @ cComma # ?r) = Some (w3 @ cComma # ?r)"
    using members by (intro members.IH follows_close) auto
  moreover have "skipWhitespace ?r = m @ cCloseBrace # r'"
    using members.hyps json_heads(2) [OF members.hyps(7)] by (intro skip_text) (auto simp: json_ws_def)
  ultimately show ?case
    using js_member_step [OF members.hyps(1-5), of cComma ?r] members.IH(2) by simp
next
  case (element d v w3)
  have "js_value d (v @ w3 @ cCloseBracket # r') = Some (w3 @ cCloseBracket # r')"
    using element by (intro element.IH follows_close) auto
  with js_element_step [OF element.hyps(1,2)] show ?case by simp
next
  case (elements d v w3 w4 e)
  let ?r = "w4 @ e @ cCloseBracket # r'"
  have "js_value d (v @ w3 @ cComma # ?r) = Some (w3 @ cComma # ?r)"
    using elements by (intro elements.IH follows_close) auto
  moreover have "skipWhitespace ?r = e @ cCloseBracket # r'"
    using elements.hyps json_heads(3) [OF elements.hyps(4)] by (intro skip_text) auto
  ultimately show ?case
    using js_element_step [OF elements.hyps(1,2), of cComma ?r] elements.IH(2) by simp
qed

text \<open>
  C30. The payload validator accepts exactly its JSON: a byte string passes if and only if it is one
  value of the RFC 8259 grammar with white space around it, with two restrictions that the grammar of
  the document does not have: no value stands deeper than sixteen levels below the top one, and a
  surrogate escape stands only in a high and low pair.  Trailing commas, comments, raw control
  characters, leading zeros and trailing bytes are all refused, and nothing of the grammar within
  these bounds is.  Bytes above 127 pass in strings; that they are UTF-8 is a test of its own.
\<close>

theorem json_validator_exact: "js_valid t \<longleftrightarrow> json_text t"
proof
  assume "js_valid t"
  then obtain r where r: "js_value 0 (skipWhitespace t) = Some r" "skipWhitespace r = []"
    by (auto simp: js_valid_def split: option.splits)
  obtain v where v: "json_value 0 v" "skipWhitespace t = v @ r" using js_sound(1) [OF r(1)] by blast
  obtain w where w: "ws_text w" "t = w @ v @ r" using skip_split [of t] unfolding v(2) by blast
  have "ws_text r" using skip_split [of r] unfolding r(2) by simp
  with v(1) w show "json_text t" unfolding json_text_def by blast
next
  assume "json_text t"
  then obtain w v w' where t: "ws_text w" "json_value 0 v" "ws_text w'" "t = w @ v @ w'" by (auto simp: json_text_def)
  have f: "follows w'" using t(3) by (cases w') (auto simp: follows_def ws_text_code json_ws_def is_digit_def)
  have "skipWhitespace t = v @ w'" using t json_heads(1) [OF t(2)] by (auto intro: skip_text)
  moreover have "skipWhitespace w' = []" using skip_ws [OF t(3), of "[]"] by simp
  ultimately show "js_valid t" using js_complete(1) [OF t(2) f] by (simp add: js_valid_def)
qed

end
