(* ===== verification/Companion_Utf8.thy ===== *)
theory Companion_Utf8
  imports Companion_Json
begin

unbundle bit_operations_syntax

text \<open>
  Correctness of \<^verbatim>\<open>validUtf8\<close>: the scanner of \<^verbatim>\<open>Companion_Json\<close> against the definition of the
  encoding, the code point arithmetic done over natural numbers.
\<close>

text \<open>The Unicode scalar values other than zero, and their encoding.\<close>

definition unicode_scalar :: "nat \<Rightarrow> bool" where
  "unicode_scalar cp \<longleftrightarrow> 0 < cp \<and> cp \<le> 0x10ffff \<and> \<not> (0xd800 \<le> cp \<and> cp \<le> 0xdfff)"

definition byte_of :: "nat \<Rightarrow> u8" where
  "byte_of n = word_of_nat n"

definition utf8_encode :: "nat \<Rightarrow> bytes" where
  "utf8_encode cp = map byte_of
     (if cp < 0x80 then [cp]
      else if cp < 0x800 then [0xc0 + cp div 64, 0x80 + cp mod 64]
      else if cp < 0x10000 then [0xe0 + cp div 4096, 0x80 + cp div 64 mod 64, 0x80 + cp mod 64]
      else [0xf0 + cp div 262144, 0x80 + cp div 4096 mod 64, 0x80 + cp div 64 mod 64, 0x80 + cp mod 64])"

subsection \<open>Bytes as numbers\<close>

lemma byte_of_nat: "n < 256 \<Longrightarrow> unat (byte_of n) = n"
  by (simp add: byte_of_def unat_of_nat take_bit_nat_eq_self)

lemma byte_eq_of_nat: "n < 256 \<Longrightarrow> (c :: u8) = byte_of n \<longleftrightarrow> unat c = n"
  by (metis byte_of_nat word_unat_eq_iff)

lemma continuation_byte: "(c :: u8) AND 0xc0 = 0x80 \<longleftrightarrow> 128 \<le> unat c \<and> unat c < 192"
proof -
  have "(0xc0 :: u8) = NOT (mask 6)" by code_simp
  then have "c AND 0xc0 = c AND NOT (mask 6)" by (rule arg_cong)
  also have "\<dots> = push_bit 6 (drop_bit 6 c)" by (rule bit_word_eqI) (auto simp: bit_simps)
  finally have "unat (c AND 0xc0) = unat c mod 256 div 64 * 64"
    by (simp add: unsigned_push_bit_eq push_bit_nat_def unsigned_drop_bit_eq drop_bit_nat_def take_bit_nat_def)
  then have "unat (c AND 0xc0) = 64 * (unat c div 64)" using unat8_lt [of c] by simp
  then have "c AND 0xc0 = 0x80 \<longleftrightarrow> 64 * (unat c div 64) = 128" by (simp add: word_unat_eq_iff)
  also have "\<dots> \<longleftrightarrow> unat c div 64 = 2" by linarith
  also have "\<dots> \<longleftrightarrow> 128 \<le> unat c \<and> unat c < 192" by (auto simp: div_nat_eqI)
  finally show ?thesis .
qed

lemma byte_widen: "unat (ucast (c :: u8) :: u32) = unat c"
  using unat8_lt [of c] by (simp add: unsigned_ucast_eq take_bit_nat_eq_self)

lemma masked_byte:
  "unat (ucast ((c :: u8) AND 0x3f) :: u32) = unat c mod 64"
  "unat (ucast (c AND 0x1f) :: u32) = unat c mod 32"
  "unat (ucast (c AND 0x0f) :: u32) = unat c mod 16"
  "unat (ucast (c AND 0x07) :: u32) = unat c mod 8"
proof -
  have m: "unat (ucast (take_bit n c) :: u32) = unat c mod 2 ^ n" for n
    by (simp add: byte_widen unsigned_take_bit_eq take_bit_nat_def)
  have "c AND 0x3f = take_bit 6 c" "c AND 0x1f = take_bit 5 c" "c AND 0x0f = take_bit 4 c" "c AND 0x07 = take_bit 3 c"
    by (simp_all add: take_bit_eq_mask mask_eq_exp_minus_1)
  then show "unat (ucast (c AND 0x3f) :: u32) = unat c mod 64" "unat (ucast (c AND 0x1f) :: u32) = unat c mod 32"
    "unat (ucast (c AND 0x0f) :: u32) = unat c mod 16" "unat (ucast (c AND 0x07) :: u32) = unat c mod 8"
    using m [of 6] m [of 5] m [of 4] m [of 3] by simp_all
qed

lemma codepoint_step:
  fixes cp :: u32
  assumes "unat cp < 0x100000"
  shows "unat (push_bit 6 cp OR ucast ((c :: u8) AND 0x3f)) = 64 * unat cp + unat c mod 64"
proof -
  let ?x = "ucast (c AND 0x3f) :: u32"
  have x: "unat ?x = unat c mod 64" by (rule masked_byte)
  then have "take_bit 6 ?x = ?x" by (intro take_bit_word_small) simp
  then have "push_bit 6 cp AND ?x = 0" by (metis shifted_disjoint)
  then have "push_bit 6 cp OR ?x = push_bit 6 cp + ?x" by (simp add: disjunctive_add_eq_or)
  moreover have "unat (push_bit 6 cp) = 64 * unat cp"
    using assms by (simp add: unsigned_push_bit_eq push_bit_nat_def take_bit_nat_def)
  moreover have "unat c mod 64 < 64" by simp
  ultimately show ?thesis using assms x by (subst \<open>_ OR _ = _\<close>, subst unat_plus_small) auto
qed

subsection \<open>One character\<close>

text \<open>The code point a lead byte and its continuation bytes denote.\<close>

fun codepoint :: "nat \<Rightarrow> bytes \<Rightarrow> nat" where
  "codepoint acc [] = acc"
| "codepoint acc (c # cs) = codepoint (64 * acc + (unat c - 128)) cs"

definition is_continuation :: "u8 \<Rightarrow> bool" where
  "is_continuation c \<longleftrightarrow> 128 \<le> unat c \<and> unat c < 192"

lemma utf8_continue_exact:
  assumes "(unat cp + 1) * 64 ^ length cs \<le> 0x4000000"
  shows "utf8_continue cp cs = (if list_all is_continuation cs then Some (word_of_nat (codepoint (unat cp) cs)) else None)"
  using assms
proof (induction cs arbitrary: cp)
  case (Cons c cs)
  show ?case
  proof (cases "is_continuation c")
    case True
    let ?cp = "push_bit 6 cp OR ucast (c AND 0x3f)"
    have m: "unat c mod 64 = unat c - 128" "unat c - 128 < 64" using True by (auto simp: is_continuation_def mod_if)
    have b: "(unat cp + 1) * 64 * 64 ^ length cs \<le> 0x4000000" using Cons.prems by (simp add: algebra_simps)
    have "(unat cp + 1) * 64 * 1 \<le> (unat cp + 1) * 64 * 64 ^ length cs" by (intro mult_le_mono) simp_all
    from order_trans [OF this b] have "unat cp < 0x100000" by simp
    then have u: "unat ?cp = 64 * unat cp + (unat c - 128)" using codepoint_step m by simp
    have "(unat ?cp + 1) * 64 ^ length cs \<le> (unat cp + 1) * 64 * 64 ^ length cs"
      using u m by (intro mult_le_mono) simp_all
    from Cons.IH [OF order_trans [OF this b]] True show ?thesis by (simp add: continuation_byte is_continuation_def u)
  next
    case False
    then show ?thesis by (auto simp: continuation_byte is_continuation_def)
  qed
qed simp

text \<open>The lead byte for a code point of each length, and the number it contributes.\<close>

lemma lead_bits: "ucast ((c :: u8) AND 0x1f) = (word_of_nat (unat c - 192) :: u32) \<longleftrightarrow> unat c mod 32 = unat c - 192"
  "ucast (c AND 0x0f) = (word_of_nat (unat c - 224) :: u32) \<longleftrightarrow> unat c mod 16 = unat c - 224"
  "ucast (c AND 0x07) = (word_of_nat (unat c - 240) :: u32) \<longleftrightarrow> unat c mod 8 = unat c - 240"
proof -
  have n: "unat (word_of_nat (unat c - k) :: u32) = unat c - k" for k
    using unat8_lt [of c] by (simp add: unat_of_nat take_bit_nat_eq_self del: of_nat_diff)
  show "ucast (c AND 0x1f) = (word_of_nat (unat c - 192) :: u32) \<longleftrightarrow> unat c mod 32 = unat c - 192"
    "ucast (c AND 0x0f) = (word_of_nat (unat c - 224) :: u32) \<longleftrightarrow> unat c mod 16 = unat c - 224"
    "ucast (c AND 0x07) = (word_of_nat (unat c - 240) :: u32) \<longleftrightarrow> unat c mod 8 = unat c - 240"
    unfolding word_unat_eq_iff n masked_byte by (rule refl)+
qed

lemma utf8_lead_exact:
  "utf8_lead c =
     (if 194 \<le> unat c \<and> unat c \<le> 223 then Some (1, word_of_nat (unat c - 192), 0x80)
      else if 224 \<le> unat c \<and> unat c \<le> 239 then Some (2, word_of_nat (unat c - 224), 0x800)
      else if 240 \<le> unat c \<and> unat c \<le> 244 then Some (3, word_of_nat (unat c - 240), 0x10000)
      else None)"
proof -
  have m: "n mod 32 = n - 192" if "194 \<le> n" "n \<le> 223" for n :: nat using that by (intro mod_nat_eqI) auto
  have m2: "n mod 16 = n - 224" if "224 \<le> n" "n \<le> 239" for n :: nat using that by (intro mod_nat_eqI) auto
  have m3: "n mod 8 = n - 240" if "240 \<le> n" "n \<le> 244" for n :: nat using that by (intro mod_nat_eqI) auto
  have r: "c \<le> x \<longleftrightarrow> unat c \<le> unat x" "x \<le> c \<longleftrightarrow> unat x \<le> unat c" for x by (simp_all add: word_le_nat_alt)
  show ?thesis using iffD2 [OF lead_bits(1) m] iffD2 [OF lead_bits(2) m2] iffD2 [OF lead_bits(3) m3]
    unfolding utf8_lead_def r by simp
qed

lemma codepoint_bound: "list_all is_continuation cs \<Longrightarrow> codepoint a cs < (a + 1) * 64 ^ length cs"
proof (induction cs arbitrary: a)
  case (Cons c cs)
  then have "unat c - 128 < 64" by (auto simp: is_continuation_def)
  have "codepoint (64 * a + (unat c - 128)) cs < (64 * a + (unat c - 128) + 1) * 64 ^ length cs" using Cons by simp
  also have "\<dots> \<le> ((a + 1) * 64) * 64 ^ length cs"
    using \<open>unat c - 128 < 64\<close> by (intro mult_le_mono) auto
  finally show ?case by (simp add: algebra_simps)
qed simp

text \<open>The scanner on a character of more than one byte, its code point read as a number.\<close>

lemma scan_multi:
  assumes "128 \<le> unat c" and "utf8_lead c = Some (n, l, m)" and "length cs = n"
  shows "utf8_scan (c # cs @ rest) \<longleftrightarrow> list_all is_continuation cs \<and> utf8_scan rest
    \<and> (let k = codepoint (unat l) cs in unat m \<le> k \<and> k \<le> 0x10ffff \<and> \<not> (0xd800 \<le> k \<and> k \<le> 0xdfff))"
proof -
  have lm: "(unat l + 1) * 64 ^ n \<le> 0x4000000" and n: "n \<noteq> 0"
    using assms(2) by (auto simp: utf8_lead_exact unat_of_nat take_bit_nat_eq_self simp del: of_nat_diff split: if_splits)
  have c: "\<not> c \<le> 0x7f" using assms(1) by (simp add: word_le_nat_alt)
  have run: "utf8_continue l cs = (if list_all is_continuation cs then Some (word_of_nat (codepoint (unat l) cs)) else None)"
    using lm assms(3) by (intro utf8_continue_exact) simp
  show ?thesis
  proof (cases "list_all is_continuation cs")
    case True
    define k where "k = codepoint (unat l) cs"
    have "k < 0x4000000" using codepoint_bound [OF True, of "unat l"] lm assms(3) by (simp add: k_def)
    then have k: "unat (word_of_nat k :: u32) = k" by (simp add: unat_of_nat take_bit_nat_eq_self)
    show ?thesis
      using c assms(2,3) run True
      by (auto simp: k_def [symmetric] word_less_nat_alt word_le_nat_alt k Let_def not_less not_le)
  next
    case False
    with c assms(2,3) run show ?thesis by simp
  qed
qed

lemma cp_split: "64 * (64 * (cp div 4096) + cp div 64 mod 64) + cp mod 64 = (cp :: nat)"
proof -
  have "64 * (cp div 4096) + cp div 64 mod 64 = cp div 64"
    using div_mult2_eq [of cp 64 64] mult_div_mod_eq [of 64 "cp div 64"] by simp
  then show ?thesis by simp
qed

lemma cp_split4: "64 * (64 * (64 * (cp div 262144) + cp div 4096 mod 64) + cp div 64 mod 64) + cp mod 64 = (cp :: nat)"
proof -
  have "64 * (cp div 262144) + cp div 4096 mod 64 = cp div 4096"
    using div_mult2_eq [of cp 4096 64] mult_div_mod_eq [of 64 "cp div 4096"] by simp
  then show ?thesis using cp_split [of cp] by simp
qed

lemma continuation_of_nat: "n < 64 \<Longrightarrow> unat (byte_of (128 + n)) = 128 + n"
  by (rule byte_of_nat) simp

text \<open>A scalar value of more than one byte: its lead byte, its continuation bytes, and the value they denote.\<close>

lemma encode_multi:
  assumes "unicode_scalar cp" and "0x80 \<le> cp"
  obtains c cs n l m where "utf8_encode cp = c # cs" "128 \<le> unat c" "utf8_lead c = Some (n, l, m)" "length cs = n"
    "list_all is_continuation cs" "codepoint (unat l) cs = cp" "unat m \<le> cp"
proof -
  consider "cp < 0x800" | "0x800 \<le> cp" "cp < 0x10000" | "0x10000 \<le> cp" by linarith
  then show ?thesis
  proof cases
    case 1
    let ?c = "byte_of (192 + cp div 64)" and ?b = "byte_of (128 + cp mod 64)"
    have u: "unat ?c = 192 + cp div 64" "unat ?b = 128 + cp mod 64"
      using 1 by (auto intro!: byte_of_nat continuation_of_nat)
    have "utf8_lead ?c = Some (1, word_of_nat (cp div 64), 0x80)" using 1 assms(2) unfolding utf8_lead_exact u by auto
    from that [OF _ _ this, of "[?b]"] u 1 assms show ?thesis
      by (simp add: utf8_encode_def is_continuation_def unat_of_nat take_bit_nat_eq_self)
  next
    case 2
    let ?c = "byte_of (224 + cp div 4096)" and ?b = "byte_of (128 + cp div 64 mod 64)"
      and ?b2 = "byte_of (128 + cp mod 64)"
    have u: "unat ?c = 224 + cp div 4096" "unat ?b = 128 + cp div 64 mod 64" "unat ?b2 = 128 + cp mod 64"
      using 2 by (auto intro!: byte_of_nat continuation_of_nat)
    have "utf8_lead ?c = Some (2, word_of_nat (cp div 4096), 0x800)" using 2 unfolding utf8_lead_exact u by auto
    from that [OF _ _ this, of "[?b, ?b2]"] u 2 cp_split [of cp] show ?thesis
      by (simp add: utf8_encode_def is_continuation_def unat_of_nat take_bit_nat_eq_self)
  next
    case 3
    let ?c = "byte_of (240 + cp div 262144)" and ?b = "byte_of (128 + cp div 4096 mod 64)"
      and ?b2 = "byte_of (128 + cp div 64 mod 64)" and ?b3 = "byte_of (128 + cp mod 64)"
    have le: "cp \<le> 0x10ffff" using assms by (simp add: unicode_scalar_def)
    then have u: "unat ?c = 240 + cp div 262144" "unat ?b = 128 + cp div 4096 mod 64" "unat ?b2 = 128 + cp div 64 mod 64"
      "unat ?b3 = 128 + cp mod 64" by (auto intro!: byte_of_nat continuation_of_nat)
    have "cp div 262144 \<le> 4" using le by linarith
    then have "utf8_lead ?c = Some (3, word_of_nat (cp div 262144), 0x10000)" unfolding utf8_lead_exact u by auto
    from that [OF _ _ this, of "[?b, ?b2, ?b3]"] u 3 cp_split4 [of cp] \<open>cp div 262144 \<le> 4\<close> show ?thesis
      by (simp add: utf8_encode_def is_continuation_def unat_of_nat take_bit_nat_eq_self)
  qed
qed

lemma scan_encode:
  assumes "unicode_scalar cp"
  shows "utf8_scan (utf8_encode cp @ rest) \<longleftrightarrow> utf8_scan rest"
proof (cases "cp < 0x80")
  case True
  have "unat (byte_of cp) = cp" using True by (intro byte_of_nat) simp
  moreover from this have "byte_of cp \<noteq> 0" using assms by (auto simp: unicode_scalar_def)
  ultimately show ?thesis using True by (simp add: utf8_encode_def word_le_nat_alt)
next
  case False
  then have "0x80 \<le> cp" by simp
  with assms obtain c cs n l m where e: "utf8_encode cp = c # cs" "128 \<le> unat c" "utf8_lead c = Some (n, l, m)"
    "length cs = n" "list_all is_continuation cs" "codepoint (unat l) cs = cp" "unat m \<le> cp" by (rule encode_multi)
  from scan_multi [OF e(2-4), of rest] assms e show ?thesis by (simp add: unicode_scalar_def)
qed

lemma byte_of_unat: "byte_of (unat c) = c"
  by (simp add: byte_of_def)

lemma byte_of_cont: "is_continuation b \<Longrightarrow> unat b = 128 + (unat b - 128) \<and> unat b - 128 < 64"
  by (auto simp: is_continuation_def)

lemma pack64:
  assumes "z < (64 :: nat)"
  shows "(64 * q + z) mod 64 = z" "(64 * q + z) div 64 = q"
    "(64 * q + z) div 4096 = q div 64" "(64 * q + z) div 262144 = q div 4096"
proof -
  show d: "(64 * q + z) mod 64 = z" "(64 * q + z) div 64 = q" using assms by simp_all
  show "(64 * q + z) div 4096 = q div 64" using div_mult2_eq [of "64 * q + z" 64 64] d by simp
  show "(64 * q + z) div 262144 = q div 4096" using div_mult2_eq [of "64 * q + z" 64 4096] d by simp
qed

text \<open>The bytes of a character accepted by the scanner are the encoding of its code point.\<close>

lemma encode_codepoint:
  assumes "utf8_lead c = Some (n, l, m)" and "length cs = n" and "list_all is_continuation cs"
    and "unat m \<le> codepoint (unat l) cs"
  shows "utf8_encode (codepoint (unat l) cs) = c # cs"
proof -
  note lead = assms(1) [unfolded utf8_lead_exact]
  have l: "unat (word_of_nat (unat c - k) :: u32) = unat c - k" for k
    using unat8_lt [of c] by (simp add: unat_of_nat take_bit_nat_eq_self del: of_nat_diff)
  consider "n = 1" "194 \<le> unat c" "unat c \<le> 223" "unat l = unat c - 192" "unat m = 0x80"
    | "n = 2" "224 \<le> unat c" "unat c \<le> 239" "unat l = unat c - 224" "unat m = 0x800"
    | "n = 3" "240 \<le> unat c" "unat c \<le> 244" "unat l = unat c - 240" "unat m = 0x10000"
    using lead l by (auto split: if_splits simp del: of_nat_diff)
  then show ?thesis
  proof cases
    case 1
    then obtain b where cs: "cs = [b]" using assms(2) by (auto simp: length_Suc_conv)
    obtain x where x: "unat b = 128 + x" "x < 64" using byte_of_cont [of b] assms(3) cs by auto
    obtain y where y: "unat c = 192 + y" "2 \<le> y" "y \<le> 31" using 1(2,3) by (auto dest!: le_Suc_ex)
    have k: "codepoint (unat l) cs = 64 * y + x" using 1 x y cs by simp
    have "byte_of (192 + y) = c" "byte_of (128 + x) = b" using x y byte_of_unat by metis+
    then show ?thesis using x y unfolding k utf8_encode_def by (simp add: cs)
  next
    case 2
    then obtain b b2 where cs: "cs = [b, b2]" using assms(2) by (auto simp: length_Suc_conv numeral_2_eq_2)
    obtain x where x: "unat b = 128 + x" "x < 64" using byte_of_cont [of b] assms(3) cs by auto
    obtain z where z: "unat b2 = 128 + z" "z < 64" using byte_of_cont [of b2] assms(3) cs by auto
    obtain y where y: "unat c = 224 + y" "y \<le> 15" using 2(2,3) by (auto dest!: le_Suc_ex)
    have k: "codepoint (unat l) cs = 64 * (64 * y + x) + z" using 2 x y z cs by simp
    have d: "(64 * (64 * y + x) + z) div 64 = 64 * y + x" "(64 * (64 * y + x) + z) div 4096 = y"
      "(64 * (64 * y + x) + z) mod 64 = z" by (simp_all only: pack64 [OF x(2)] pack64 [OF z(2)])
    have "byte_of (224 + y) = c" "byte_of (128 + x) = b" "byte_of (128 + z) = b2" using x y z byte_of_unat by metis+
    then show ?thesis using x y z assms(4) 2(5) unfolding k utf8_encode_def d by (simp add: cs)
  next
    case 3
    then obtain b b2 b3 where cs: "cs = [b, b2, b3]" using assms(2) by (auto simp: length_Suc_conv numeral_3_eq_3)
    obtain x where x: "unat b = 128 + x" "x < 64" using byte_of_cont [of b] assms(3) cs by auto
    obtain z where z: "unat b2 = 128 + z" "z < 64" using byte_of_cont [of b2] assms(3) cs by auto
    obtain w where w: "unat b3 = 128 + w" "w < 64" using byte_of_cont [of b3] assms(3) cs by auto
    obtain y where y: "unat c = 240 + y" "y \<le> 4" using 3(2,3) by (auto dest!: le_Suc_ex)
    let ?k = "64 * (64 * (64 * y + x) + z) + w"
    have k: "codepoint (unat l) cs = ?k" using 3 x y z w cs by simp
    have d: "?k div 64 = 64 * (64 * y + x) + z" "?k div 4096 = 64 * y + x" "?k div 262144 = y" "?k mod 64 = w"
      by (simp_all only: pack64 [OF x(2)] pack64 [OF z(2)] pack64 [OF w(2)])
    have "byte_of (240 + y) = c" "byte_of (128 + x) = b" "byte_of (128 + z) = b2" "byte_of (128 + w) = b3"
      using x y z w byte_of_unat by metis+
    then show ?thesis using x y z w assms(4) 3(5) unfolding k utf8_encode_def d pack64(1) [OF x(2)] pack64(1) [OF z(2)] by (simp add: cs)
  qed
qed

lemma scan_first:
  assumes "utf8_scan (c # rest)"
  shows "\<exists>cp rest'. unicode_scalar cp \<and> c # rest = utf8_encode cp @ rest' \<and> utf8_scan rest'"
proof (cases "c \<le> 0x7f")
  case True
  then have "unat c < 0x80" "c \<noteq> 0" "utf8_scan rest" using assms by (auto simp: word_le_nat_alt split: if_splits)
  moreover from this have "0 < unat c" by (simp add: unat_gt_0)
  ultimately show ?thesis
    by (intro exI [of _ "unat c"] exI [of _ rest]) (simp add: unicode_scalar_def utf8_encode_def byte_of_unat)
next
  case False
  with assms obtain n l m where lead: "utf8_lead c = Some (n, l, m)" by (auto split: option.splits)
  with assms False have n: "n \<le> length rest" by (simp add: not_less split: if_splits)
  have c: "128 \<le> unat c" using False by (simp add: word_le_nat_alt)
  have len: "length (take n rest) = n" using n by simp
  define k where "k = codepoint (unat l) (take n rest)"
  have ok: "list_all is_continuation (take n rest)" "utf8_scan (drop n rest)" "unat m \<le> k"
    "k \<le> 0x10ffff" "\<not> (0xd800 \<le> k \<and> k \<le> 0xdfff)"
    using scan_multi [OF c lead len, of "drop n rest"] assms by (simp_all add: Let_def k_def)
  have "0 < unat m" using lead by (auto simp: utf8_lead_exact split: if_splits)
  then have "unicode_scalar k" using ok by (simp add: unicode_scalar_def)
  moreover have "c # rest = utf8_encode k @ drop n rest"
    using encode_codepoint [OF lead len ok(1)] ok(3) by (simp add: k_def)
  ultimately show ?thesis using ok(2) by blast
qed

text \<open>
  C31. The UTF-8 validator accepts exactly UTF-8 without NUL: a byte string passes if and only if
  it is the concatenation of the encodings of Unicode scalar values other than zero, so overlong
  forms, surrogates, code points above U+10FFFF, stray or missing continuation bytes and the NUL
  byte are refused and nothing else is.
\<close>

theorem utf8_exact:
  "validUtf8 (Some bs) \<longleftrightarrow> (\<exists>cps. list_all unicode_scalar cps \<and> bs = concat (map utf8_encode cps))"
proof
  have "utf8_scan bs \<Longrightarrow> \<exists>cps. list_all unicode_scalar cps \<and> bs = concat (map utf8_encode cps)"
  proof (induction bs rule: length_induct)
    case (1 bs)
    show ?case
    proof (cases bs)
      case (Cons c rest)
      obtain cp rest' where f: "unicode_scalar cp" "bs = utf8_encode cp @ rest'" "utf8_scan rest'"
        using scan_first 1(2) Cons by blast
      moreover have "utf8_encode cp \<noteq> []" by (simp add: utf8_encode_def)
      ultimately have "length rest' < length bs" by (cases "utf8_encode cp") auto
      then obtain cps where "list_all unicode_scalar cps" "rest' = concat (map utf8_encode cps)"
        using 1(1) f(3) by blast
      with f show ?thesis by (intro exI [of _ "cp # cps"]) simp
    qed (auto intro: exI [of _ "[]"])
  qed
  then show "validUtf8 (Some bs) \<Longrightarrow> \<exists>cps. list_all unicode_scalar cps \<and> bs = concat (map utf8_encode cps)"
    by (simp add: validUtf8_def)
next
  assume "\<exists>cps. list_all unicode_scalar cps \<and> bs = concat (map utf8_encode cps)"
  then obtain cps where "list_all unicode_scalar cps" "bs = concat (map utf8_encode cps)" by blast
  moreover have "list_all unicode_scalar cps \<Longrightarrow> utf8_scan (concat (map utf8_encode cps))"
    by (induction cps) (simp_all add: scan_encode)
  ultimately show "validUtf8 (Some bs)" by (simp add: validUtf8_def)
qed

end
