(* ===== verification/Companion_Envelope.thy ===== *)
theory Companion_Envelope
  imports Companion_Frame Companion_Utf8
begin

unbundle bit_operations_syntax

text \<open>
  The authenticated envelope of \<^verbatim>\<open>src/src/kitsu_companion_protocol.cpp\<close>: a JSON object of
  eight fields whose HMAC covers the channel, the sequence number, the nonce, the request
  identifier, the operation name and the payload.  Modelled are the parser of the outer object
  (\<^verbatim>\<open>parseOuterObject\<close> and its scanners), the bounded writer, \<^verbatim>\<open>calculateEnvelopeMac\<close>,
  \<^verbatim>\<open>encodeEnvelope\<close> and \<^verbatim>\<open>decodeAndVerifyEnvelope\<close>.

  The message authentication code is the virtual method \<^verbatim>\<open>CompanionCrypto::hmacSha256\<close>, a
  parameter \<open>hmac\<close> here: it maps a key and the list of parts to the 32 bytes it writes, \<open>None\<close>
  when it returns false.  A failed decode returns the default record and its result code; that it
  also clears the scratch buffers is not represented, since no caller reads them after a failure.
\<close>

definition kProtocolVersion :: u8 where "kProtocolVersion = 1"
definition kEnvelopeNonceBytes :: nat where "kEnvelopeNonceBytes = 16"
definition kRequestIdBytes :: nat where "kRequestIdBytes = 16"
definition kEnvelopeMacBytes :: nat where "kEnvelopeMacBytes = 32"
definition kEnvelopeKeyBytes :: nat where "kEnvelopeKeyBytes = 32"
definition kMaximumEnvelopePayloadBytes :: nat where "kMaximumEnvelopePayloadBytes = 12000"

lemmas envelope_consts = kProtocolVersion_def kEnvelopeNonceBytes_def kRequestIdBytes_def
  kEnvelopeMacBytes_def kEnvelopeKeyBytes_def kMaximumEnvelopePayloadBytes_def frame_consts
  kMaximumOperationBytes_def

type_synonym EnvelopeChannel = u8
abbreviation (input) ChannelRequest :: EnvelopeChannel where "ChannelRequest \<equiv> 0"
abbreviation (input) ChannelResponse :: EnvelopeChannel where "ChannelResponse \<equiv> 1"
abbreviation (input) ChannelEvent :: EnvelopeChannel where "ChannelEvent \<equiv> 2"

datatype ProtocolResult = ProtocolOk | ProtocolInvalidArgument | OutputTooSmall | MalformedJson
  | DuplicateField | UnknownField | MissingField | UnsupportedVersion | InvalidChannel
  | InvalidSequence | UnexpectedSequence | InvalidBase64 | InvalidOperation | PayloadTooLarge
  | AuthenticationFailed | InvalidPayloadUtf8 | InvalidPayloadJson | CryptoFailed

definition protocolResultName :: "ProtocolResult \<Rightarrow> string" where
  "protocolResultName result = (case result of
      ProtocolOk \<Rightarrow> ''ok'' | ProtocolInvalidArgument \<Rightarrow> ''invalid_argument''
    | OutputTooSmall \<Rightarrow> ''output_too_small'' | MalformedJson \<Rightarrow> ''malformed_json''
    | DuplicateField \<Rightarrow> ''duplicate_field'' | UnknownField \<Rightarrow> ''unknown_field''
    | MissingField \<Rightarrow> ''missing_field'' | UnsupportedVersion \<Rightarrow> ''unsupported_version''
    | InvalidChannel \<Rightarrow> ''invalid_channel'' | InvalidSequence \<Rightarrow> ''invalid_sequence''
    | UnexpectedSequence \<Rightarrow> ''unexpected_sequence'' | InvalidBase64 \<Rightarrow> ''invalid_base64''
    | InvalidOperation \<Rightarrow> ''invalid_operation'' | PayloadTooLarge \<Rightarrow> ''payload_too_large''
    | AuthenticationFailed \<Rightarrow> ''authentication_failed'' | InvalidPayloadUtf8 \<Rightarrow> ''invalid_payload_utf8''
    | InvalidPayloadJson \<Rightarrow> ''invalid_payload_json'' | CryptoFailed \<Rightarrow> ''crypto_failed'')"

record DecodedEnvelope =
  de_version :: u8
  de_channel :: EnvelopeChannel
  de_sequence :: u64
  de_nonce :: bytes
  de_requestId :: bytes
  de_operation :: bytes
  de_payloadBytes :: nat

subsection \<open>The outer object\<close>

abbreviation (input) FieldVersion :: nat where "FieldVersion \<equiv> 0"
abbreviation (input) FieldChannel :: nat where "FieldChannel \<equiv> 1"
abbreviation (input) FieldSequence :: nat where "FieldSequence \<equiv> 2"
abbreviation (input) FieldNonce :: nat where "FieldNonce \<equiv> 3"
abbreviation (input) FieldRequestId :: nat where "FieldRequestId \<equiv> 4"
abbreviation (input) FieldOperation :: nat where "FieldOperation \<equiv> 5"
abbreviation (input) FieldPayload :: nat where "FieldPayload \<equiv> 6"
abbreviation (input) FieldMac :: nat where "FieldMac \<equiv> 7"
abbreviation (input) FieldCount :: nat where "FieldCount \<equiv> 8"

definition field_names :: "bytes list" where
  "field_names = map ascii [''v'', ''channel'', ''seq'', ''nonce_b64'', ''request_id_b64'', ''op'',
     ''payload_b64'', ''mac_b64'']"

fun name_scan :: "bytes \<Rightarrow> nat \<Rightarrow> bytes list \<Rightarrow> nat option" where
  "name_scan key i [] = None"
| "name_scan key i (n # ns) = (if length key = length n \<and> key = n then Some i else name_scan key (i + 1) ns)"

definition fieldIndex :: "bytes \<Rightarrow> nat option" where
  "fieldIndex key = name_scan key 0 field_names"

text \<open>The loop of \<^verbatim>\<open>parseSimpleString\<close>: the span up to the closing quote and what follows it.\<close>

fun simple_chars :: "bytes \<Rightarrow> (bytes \<times> bytes) option" where
  "simple_chars [] = None"
| "simple_chars (c # cs) =
     (if c = cQuote then Some ([], cs)
      else if c < 0x20 \<or> c = cBackslash then None
      else map_option (\<lambda>(s, r). (c # s, r)) (simple_chars cs))"

definition parseSimpleString :: "bytes \<Rightarrow> (bytes \<times> bytes) option" where
  "parseSimpleString rest = (case rest of [] \<Rightarrow> None
     | c # cs \<Rightarrow> if c \<noteq> cQuote then None else simple_chars cs)"

definition parseUnsignedToken :: "bytes \<Rightarrow> (bytes \<times> bytes) option" where
  "parseUnsignedToken rest =
     (let token = takeWhile is_digit rest in
      if token = [] \<or> (length token > 1 \<and> hd token = cZero) then None
      else Some (token, dropWhile is_digit rest))"

lemma simple_chars_split: "simple_chars r = Some (s, r') \<Longrightarrow> r = s @ cQuote # r'"
  by (induction r arbitrary: s) (auto split: if_splits)

lemma parseSimpleString_shorter: "parseSimpleString r = Some (s, r') \<Longrightarrow> length r' < length r"
  by (auto simp: parseSimpleString_def split: list.splits if_splits dest!: simple_chars_split)

lemma parseUnsignedToken_split: "parseUnsignedToken r = Some (s, r') \<Longrightarrow> r = s @ r' \<and> s \<noteq> []"
  by (auto simp: parseUnsignedToken_def Let_def split: if_splits)

text \<open>
  The loop over the fields; \<open>seen\<close> is the bit set of the fields met so far, \<open>spans\<close> their values.
  It ends at the closing brace or, after a comma, at the end of the input.
\<close>

definition parse_field :: "nat \<Rightarrow> bytes \<Rightarrow> (bytes \<times> bytes) option" where
  "parse_field index rest = (if index = FieldVersion \<or> index = FieldChannel then parseUnsignedToken rest
     else parseSimpleString rest)"

lemma parse_field_shorter: "parse_field i r = Some (s, r') \<Longrightarrow> length r' < length r"
  by (auto simp: parse_field_def split: if_splits dest!: parseUnsignedToken_split parseSimpleString_shorter)

function outer_loop :: "u16 \<Rightarrow> bytes list \<Rightarrow> bytes \<Rightarrow> ProtocolResult + (u16 \<times> bytes list \<times> bytes)" where
  "outer_loop seen spans rest =
     (if rest = [] then Inr (seen, spans, rest)
      else case parseSimpleString rest of None \<Rightarrow> Inl MalformedJson
      | Some (key, r1) \<Rightarrow>
          case fieldIndex key of None \<Rightarrow> Inl UnknownField
          | Some index \<Rightarrow>
              if seen AND push_bit index 1 \<noteq> 0 then Inl DuplicateField
              else let r2 = skipWhitespace r1 in
                if r2 = [] \<or> hd r2 \<noteq> cColon then Inl MalformedJson
                else case parse_field index (skipWhitespace (tl r2)) of None \<Rightarrow> Inl MalformedJson
                | Some (value, r3) \<Rightarrow>
                    let r4 = skipWhitespace r3 in
                    if r4 = [] then Inl MalformedJson
                    else if hd r4 = cCloseBrace then Inr (seen OR push_bit index 1, spans[index := value], tl r4)
                    else if hd r4 \<noteq> cComma then Inl MalformedJson
                    else outer_loop (seen OR push_bit index 1) (spans[index := value]) (skipWhitespace (tl r4)))"
  by pat_completeness auto

termination outer_loop
proof (relation "measure (\<lambda>(s, f, r). length r)", goal_cases)
  case (2 seen spans rest x key r1 index r2 y v r3 r4)
  have "length r1 < length rest" using 2 parseSimpleString_shorter by blast
  then have "Suc (length (skipWhitespace (tl r2))) < length rest"
    using skip_after_shorter(2) [of r1 "length rest"] 2 by auto
  then have "length r3 < length rest" using parse_field_shorter 2 by fastforce
  then show ?case using skip_after_shorter(2) [of r3 "length rest"] 2 by auto
qed simp

declare outer_loop.simps [simp del]

definition parseOuterObject :: "bytes option \<Rightarrow> ProtocolResult + bytes list" where
  "parseOuterObject json =
     (if json = None \<or> the json = [] then Inl MalformedJson
      else let r = skipWhitespace (the json) in
        if r = [] \<or> hd r \<noteq> cOpenBrace then Inl MalformedJson
        else let r = skipWhitespace (tl r) in
          if r \<noteq> [] \<and> hd r = cCloseBrace then Inl MissingField
          else case outer_loop 0 (replicate FieldCount []) r of Inl e \<Rightarrow> Inl e
          | Inr (seen, spans, rest) \<Rightarrow>
              if skipWhitespace rest \<noteq> [] then Inl MalformedJson
              else if seen \<noteq> push_bit FieldCount 1 - 1 then Inl MissingField
              else Inr spans)"

subsection \<open>The writer\<close>

text \<open>The bytes written so far, \<open>None\<close> once a call has returned false.\<close>

definition ow_append :: "nat \<Rightarrow> bytes \<Rightarrow> bytes \<Rightarrow> bytes option" where
  "ow_append capacity text out = (if length out + length text > capacity then None else Some (out @ text))"

definition ow_appendBase64 :: "nat \<Rightarrow> bytes \<Rightarrow> bytes \<Rightarrow> bytes option" where
  "ow_appendBase64 capacity input out =
     (case encodeBase64Url (Some input) (Some (capacity - length out)) of None \<Rightarrow> None
      | Some encoded \<Rightarrow> Some (out @ encoded))"

text \<open>The calls joined by \<^verbatim>\<open>&&\<close>.\<close>

definition ow_all :: "(bytes \<Rightarrow> bytes option) list \<Rightarrow> bytes option" where
  "ow_all steps = foldl Option.bind (Some []) steps"

subsection \<open>The authentication code\<close>

type_synonym hmac_fun = "bytes \<Rightarrow> bytes list \<Rightarrow> bytes option"

definition envelope_domain :: bytes where
  "envelope_domain = ascii ''KITSU-ENV-1'' @ [0]"

definition envelope_parts :: "EnvelopeChannel \<Rightarrow> u64 \<Rightarrow> bytes \<Rightarrow> bytes \<Rightarrow> bytes \<Rightarrow> bytes \<Rightarrow> bytes list" where
  "envelope_parts channel sequence nonce requestId operation payload =
     [envelope_domain, [channel], putU64Be sequence, nonce, requestId,
      putU16Be (word_of_nat (length operation)), operation,
      putU32Be (word_of_nat (length payload)), payload]"

definition calculateEnvelopeMac :: "hmac_fun \<Rightarrow> EnvelopeChannel \<Rightarrow> u64 \<Rightarrow> bytes \<Rightarrow> bytes \<Rightarrow> bytes \<Rightarrow> bytes
    \<Rightarrow> bytes \<Rightarrow> ProtocolResult + bytes" where
  "calculateEnvelopeMac hmac channel sequence nonce requestId operation payload key =
     (case hmac key (envelope_parts channel sequence nonce requestId operation payload) of
        Some mac \<Rightarrow> Inr mac | None \<Rightarrow> Inl CryptoFailed)"

subsection \<open>Encoding\<close>

text \<open>A C string is the list of its characters; the scan stops at the terminator or one
  past the maximum.\<close>

fun string_length :: "nat \<Rightarrow> bytes \<Rightarrow> nat" where
  "string_length room [] = 0"
| "string_length 0 (c # cs) = 0"
| "string_length (Suc room) (c # cs) = (if c = 0 then 0 else Suc (string_length room cs))"

definition stringLengthBounded :: "bytes option \<Rightarrow> nat \<Rightarrow> nat" where
  "stringLengthBounded input maximum = (case input of None \<Rightarrow> 0 | Some s \<Rightarrow> string_length (maximum + 1) s)"

definition envelope_writes :: "nat \<Rightarrow> EnvelopeChannel \<Rightarrow> u64 \<Rightarrow> bytes \<Rightarrow> bytes \<Rightarrow> bytes \<Rightarrow> bytes \<Rightarrow> bytes
    \<Rightarrow> (bytes \<Rightarrow> bytes option) list" where
  "envelope_writes capacity channel sequence nonce requestId operation payload mac =
     [ow_append capacity (ascii ''{\"v\":1,\"channel\":''),
      ow_append capacity [48 + channel],
      ow_append capacity (ascii '',\"seq\":\"''),
      ow_append capacity (formatDecimal sequence),
      ow_append capacity (ascii ''\",\"nonce_b64\":\"''),
      ow_appendBase64 capacity nonce,
      ow_append capacity (ascii ''\",\"request_id_b64\":\"''),
      ow_appendBase64 capacity requestId,
      ow_append capacity (ascii ''\",\"op\":\"''),
      ow_append capacity operation,
      ow_append capacity (ascii ''\",\"payload_b64\":\"''),
      ow_appendBase64 capacity payload,
      ow_append capacity (ascii ''\",\"mac_b64\":\"''),
      ow_appendBase64 capacity mac,
      ow_append capacity (ascii ''\"}'')]"

definition encodeEnvelope :: "hmac_fun \<Rightarrow> EnvelopeChannel \<Rightarrow> u64 \<Rightarrow> bytes option \<Rightarrow> bytes option
    \<Rightarrow> bytes option \<Rightarrow> bytes option \<Rightarrow> bytes option \<Rightarrow> nat option \<Rightarrow> ProtocolResult + bytes" where
  "encodeEnvelope hmac channel sequence nonce requestId operation payload key outputCapacity =
     (if nonce = None \<or> requestId = None \<or> operation = None \<or> payload = None \<or> key = None
         \<or> outputCapacity = None then Inl ProtocolInvalidArgument
      else if channel > ChannelEvent then Inl InvalidChannel
      else if sequence = 0 then Inl InvalidSequence
      else let operationBytes = stringLengthBounded operation kMaximumOperationBytes;
               op = take operationBytes (the operation) in
        if \<not> operationValid (Some op) then Inl InvalidOperation
        else if length (the payload) > 4294967295 \<or> length (the payload) > kMaximumEnvelopePayloadBytes
        then Inl PayloadTooLarge
        else if \<not> validUtf8 payload \<or> \<not> js_valid (the payload) then Inl InvalidPayloadJson
        else case calculateEnvelopeMac hmac channel sequence (the nonce) (the requestId) op (the payload) (the key) of
            Inl e \<Rightarrow> Inl e
          | Inr mac \<Rightarrow>
              (case ow_all (envelope_writes (the outputCapacity) channel sequence (the nonce) (the requestId) op
                 (the payload) mac) of
                 None \<Rightarrow> Inl OutputTooSmall
               | Some out \<Rightarrow> Inr out))"

subsection \<open>Decoding\<close>

text \<open>A field of exactly the given text length that decodes to the given number of bytes.\<close>

definition fixed_base64 :: "bytes \<Rightarrow> nat \<Rightarrow> nat \<Rightarrow> bytes option" where
  "fixed_base64 text textBytes outputBytes =
     (if length text \<noteq> textBytes then None
      else case decodeBase64Url (Some text) (Some outputBytes) of None \<Rightarrow> None
        | Some decoded \<Rightarrow> if length decoded \<noteq> outputBytes then None else Some decoded)"

definition decodeAndVerifyEnvelope :: "hmac_fun \<Rightarrow> bytes option \<Rightarrow> bytes option \<Rightarrow> EnvelopeChannel \<Rightarrow> u64
    \<Rightarrow> nat option \<Rightarrow> ProtocolResult + (DecodedEnvelope \<times> bytes)" where
  "decodeAndVerifyEnvelope hmac json key expectedChannel expectedSequence payloadCapacity =
     (if json = None \<or> the json = [] \<or> key = None \<or> payloadCapacity = None then Inl ProtocolInvalidArgument
      else if length (the json) > kMaximumFrameBytes then Inl PayloadTooLarge
      else case parseOuterObject json of Inl e \<Rightarrow> Inl e
      | Inr spans \<Rightarrow>
        let channelText = spans ! FieldChannel in
        if length (spans ! FieldVersion) \<noteq> 1 \<or> hd (spans ! FieldVersion) \<noteq> 49 then Inl UnsupportedVersion
        else if length channelText \<noteq> 1 \<or> hd channelText < 48 \<or> hd channelText > 50 then Inl InvalidChannel
        else let channel = hd channelText - 48 in
        if channel \<noteq> expectedChannel then Inl InvalidChannel
        else case parseDecimal (Some (spans ! FieldSequence)) of None \<Rightarrow> Inl InvalidSequence
        | Some sequence \<Rightarrow>
        if sequence \<noteq> expectedSequence then Inl UnexpectedSequence
        else case fixed_base64 (spans ! FieldNonce) 22 kEnvelopeNonceBytes of None \<Rightarrow> Inl InvalidBase64
        | Some nonce \<Rightarrow>
        case fixed_base64 (spans ! FieldRequestId) 22 kRequestIdBytes of None \<Rightarrow> Inl InvalidBase64
        | Some requestId \<Rightarrow>
        let operation = spans ! FieldOperation in
        if \<not> operationValid (Some operation) then Inl InvalidOperation
        else let maximumDecoded = base64DecodedBytes (length (spans ! FieldPayload)) in
        if maximumDecoded > kMaximumEnvelopePayloadBytes then Inl PayloadTooLarge
        else if maximumDecoded > the payloadCapacity then Inl PayloadTooLarge
        else case decodeBase64Url (Some (spans ! FieldPayload)) payloadCapacity of None \<Rightarrow> Inl InvalidBase64
        | Some payload \<Rightarrow>
        case fixed_base64 (spans ! FieldMac) 43 kEnvelopeMacBytes of None \<Rightarrow> Inl InvalidBase64
        | Some suppliedMac \<Rightarrow>
        case calculateEnvelopeMac hmac channel sequence nonce requestId operation payload (the key) of
          Inl e \<Rightarrow> Inl e
        | Inr expectedMac \<Rightarrow>
        if \<not> constantTimeEqual suppliedMac expectedMac then Inl AuthenticationFailed
        else if \<not> validUtf8 (Some payload) then Inl InvalidPayloadUtf8
        else if \<not> js_valid payload then Inl InvalidPayloadJson
        else Inr (\<lparr>de_version = kProtocolVersion, de_channel = channel, de_sequence = sequence, de_nonce = nonce,
               de_requestId = requestId, de_operation = operation, de_payloadBytes = length payload\<rparr>, payload))"

subsection \<open>Parsing what was written\<close>

definition clean :: "bytes \<Rightarrow> bool" where
  "clean s \<longleftrightarrow> list_all (\<lambda>c. \<not> c < 0x20 \<and> c \<noteq> cQuote \<and> c \<noteq> cBackslash) s"

lemma simple_chars_clean: "clean s \<Longrightarrow> simple_chars (s @ cQuote # r) = Some (s, r)"
  by (induction s) (auto simp: clean_def)

lemma parseSimpleString_clean: "clean s \<Longrightarrow> parseSimpleString (cQuote # s @ cQuote # r) = Some (s, r)"
  by (simp add: parseSimpleString_def simple_chars_clean)

definition token :: "bytes \<Rightarrow> bool" where
  "token t \<longleftrightarrow> digits_text t \<and> (length t > 1 \<longrightarrow> hd t \<noteq> cZero)"

lemma parseUnsignedToken_token:
  assumes "token t" and "r = [] \<or> \<not> is_digit (hd r)"
  shows "parseUnsignedToken (t @ r) = Some (t, r)"
proof -
  have "takeWhile is_digit (t @ r) = t"
    using assms by (cases r) (auto simp: token_def digits_text_code list_all_iff takeWhile_append)
  moreover have "dropWhile is_digit (t @ r) = r"
    using assms is_digit_dropWhile [of t r] by (auto simp: token_def digits_text_code)
  ultimately show ?thesis using assms(1) by (auto simp: parseUnsignedToken_def token_def digits_text_code)
qed

text \<open>The text of one field, and when a value is well formed for it.\<close>

definition field_text :: "nat \<Rightarrow> bytes \<Rightarrow> bytes" where
  "field_text i v = cQuote # field_names ! i @ cQuote # cColon # (if i < 2 then v else cQuote # v @ [cQuote])"

definition field_value :: "nat \<Rightarrow> bytes \<Rightarrow> bool" where
  "field_value i v \<longleftrightarrow> (if i < 2 then token v else clean v)"

lemma field_names_table:
  "list_all (\<lambda>i. clean (field_names ! i) \<and> fieldIndex (field_names ! i) = Some i) [0 ..< 8]"
  by code_simp

lemma field_names_ok:
  assumes "i < 8"
  shows "clean (field_names ! i)" "fieldIndex (field_names ! i) = Some i"
  using field_names_table assms by (auto simp: list_all_iff)

lemma parse_field_text:
  assumes "i < 8" and "field_value i v" and "c = cComma \<or> c = cCloseBrace"
  shows "parse_field i ((if i < 2 then v else cQuote # v @ [cQuote]) @ c # r) = Some (v, c # r)"
  using assms parseUnsignedToken_token [of v "c # r"] parseSimpleString_clean [of v "c # r"]
  by (auto simp: parse_field_def field_value_def is_digit_def)

lemma skip_id: "r \<noteq> [] \<Longrightarrow> \<not> json_ws (hd r) \<Longrightarrow> skipWhitespace r = r"
  using skip_ws [of "[]" r] by (simp add: ws_text_code)

lemma field_value_head:
  assumes "field_value i v"
  shows "\<not> json_ws (hd ((if i < 2 then v else cQuote # v @ [cQuote]) @ r))"
  using assms by (auto simp: field_value_def token_def digits_text_code neq_Nil_conv is_digit_def json_ws_def)

lemma outer_field:
  assumes "i < 8" and "field_value i v" and "c = cComma \<or> c = cCloseBrace" and "seen AND push_bit i 1 = 0"
  shows "outer_loop seen spans (field_text i v @ c # r) =
    (if c = cCloseBrace then Inr (seen OR push_bit i 1, spans[i := v], r)
     else outer_loop (seen OR push_bit i 1) (spans[i := v]) (skipWhitespace r))"
proof -
  let ?t = "(if i < 2 then v else cQuote # v @ [cQuote]) @ c # r"
  have key: "parseSimpleString (field_text i v @ c # r) = Some (field_names ! i, cColon # ?t)"
    using parseSimpleString_clean [OF field_names_ok(1) [OF assms(1)], of "cColon # ?t"] by (simp add: field_text_def)
  have ne: "field_text i v @ c # r \<noteq> []" by (simp add: field_text_def)
  have s1: "skipWhitespace (cColon # ?t) = cColon # ?t" by (rule skip_id) (simp_all add: json_ws_def)
  have s2: "skipWhitespace ?t = ?t" using field_value_head [OF assms(2)] by (intro skip_id) auto
  have s3: "skipWhitespace (c # r) = c # r" using assms(3) by (intro skip_id) (auto simp: json_ws_def)
  show ?thesis
    using ne assms(3,4)
    by (subst outer_loop.simps)
       (simp only: key field_names_ok(2) [OF assms(1)] option.case prod.case Let_def s1 s2 s3 list.sel
          parse_field_text [OF assms(1-3)] if_False if_True list.distinct simp_thms, auto)
qed

text \<open>The object with the given eight values, ended by the given byte.\<close>

definition object_text :: "bytes list \<Rightarrow> u8 \<Rightarrow> bytes" where
  "object_text vs c = cOpenBrace # field_text 0 (vs ! 0) @ cComma # field_text 1 (vs ! 1)
     @ cComma # field_text 2 (vs ! 2) @ cComma # field_text 3 (vs ! 3) @ cComma # field_text 4 (vs ! 4)
     @ cComma # field_text 5 (vs ! 5) @ cComma # field_text 6 (vs ! 6) @ cComma # field_text 7 (vs ! 7) @ [c]"

lemma skip_field: "skipWhitespace (field_text i v @ r) = field_text i v @ r"
  by (rule skip_id) (simp_all add: field_text_def json_ws_def)

lemma seen_masks:
  "(0::u16) AND push_bit 0 1 = 0 \<and> (1::u16) AND push_bit 1 1 = 0 \<and> (3::u16) AND push_bit 2 1 = 0
   \<and> (7::u16) AND push_bit 3 1 = 0 \<and> (15::u16) AND push_bit 4 1 = 0 \<and> (31::u16) AND push_bit 5 1 = 0
   \<and> (63::u16) AND push_bit 6 1 = 0 \<and> (127::u16) AND push_bit 7 1 = 0"
  "(0::u16) OR push_bit 0 1 = 1 \<and> (1::u16) OR push_bit 1 1 = 3 \<and> (3::u16) OR push_bit 2 1 = 7
   \<and> (7::u16) OR push_bit 3 1 = 15 \<and> (15::u16) OR push_bit 4 1 = 31 \<and> (31::u16) OR push_bit 5 1 = 63
   \<and> (63::u16) OR push_bit 6 1 = 127 \<and> (127::u16) OR push_bit 7 1 = 255"
  by code_simp+

lemma outer_comma:
  assumes "i < 8" and "field_value i v" and "seen AND push_bit i 1 = 0" and "seen OR push_bit i 1 = seen'"
  shows "outer_loop seen spans (field_text i v @ cComma # field_text j w @ r) =
    outer_loop seen' (spans[i := v]) (field_text j w @ r)"
  using outer_field [OF assms(1,2) disjI1 [OF refl] assms(3)] assms(4) by (simp add: skip_field)

lemma outer_last:
  assumes "field_value 7 v" and "c = cComma \<or> c = cCloseBrace" and "length spans = 8"
  shows "outer_loop 127 spans (field_text 7 v @ [c]) = Inr (255, spans[7 := v], [])"
  using outer_field [OF _ assms(1,2), of 127 spans "[]"] seen_masks assms(2)
  by (auto simp: skipWhitespace_def outer_loop.simps)

lemma parse_object_text:
  assumes "length vs = 8" and "\<forall>i < 8. field_value i (vs ! i)" and "c = cComma \<or> c = cCloseBrace"
  shows "parseOuterObject (Some (object_text vs c)) = Inr vs"
proof -
  obtain a b d e f g h k where vs: "vs = [a, b, d, e, f, g, h, k]"
    using assms(1) by (auto simp: length_Suc_conv numeral_eq_Suc)
  have v: "field_value 0 a" "field_value 1 b" "field_value 2 d" "field_value 3 e" "field_value 4 f"
    "field_value 5 g" "field_value 6 h" "field_value 7 k"
    using assms(2) unfolding vs by (auto simp: numeral_eq_Suc All_less_Suc)
  let ?t = "tl (object_text vs c)"
  have t: "?t = field_text 0 a @ cComma # field_text 1 b @ cComma # field_text 2 d @ cComma # field_text 3 e
      @ cComma # field_text 4 f @ cComma # field_text 5 g @ cComma # field_text 6 h @ cComma # field_text 7 k @ [c]"
    by (simp add: object_text_def vs)
  have c0: "outer_loop 0 sp (field_text 0 a @ cComma # field_text j w @ r) = outer_loop 1 (sp[0 := a]) (field_text j w @ r)"
    for sp j w r by (rule outer_comma) (use v seen_masks in auto)
  have c1: "outer_loop 1 sp (field_text 1 b @ cComma # field_text j w @ r) = outer_loop 3 (sp[1 := b]) (field_text j w @ r)"
    for sp j w r by (rule outer_comma) (use v seen_masks in auto)
  have c2: "outer_loop 3 sp (field_text 2 d @ cComma # field_text j w @ r) = outer_loop 7 (sp[2 := d]) (field_text j w @ r)"
    for sp j w r by (rule outer_comma) (use v seen_masks in auto)
  have c3: "outer_loop 7 sp (field_text 3 e @ cComma # field_text j w @ r) = outer_loop 15 (sp[3 := e]) (field_text j w @ r)"
    for sp j w r by (rule outer_comma) (use v seen_masks in auto)
  have c4: "outer_loop 15 sp (field_text 4 f @ cComma # field_text j w @ r) = outer_loop 31 (sp[4 := f]) (field_text j w @ r)"
    for sp j w r by (rule outer_comma) (use v seen_masks in auto)
  have c5: "outer_loop 31 sp (field_text 5 g @ cComma # field_text j w @ r) = outer_loop 63 (sp[5 := g]) (field_text j w @ r)"
    for sp j w r by (rule outer_comma) (use v seen_masks in auto)
  have c6: "outer_loop 63 sp (field_text 6 h @ cComma # field_text j w @ r) = outer_loop 127 (sp[6 := h]) (field_text j w @ r)"
    for sp j w r by (rule outer_comma) (use v seen_masks in auto)
  have "outer_loop 0 (replicate FieldCount []) ?t = Inr (255, vs, [])"
    unfolding t c0 c1 c2 c3 c4 c5 c6
    by (subst outer_last) (use v assms(3) in \<open>simp_all add: vs numeral_eq_Suc\<close>)
  moreover have "skipWhitespace (object_text vs c) = object_text vs c" "object_text vs c \<noteq> []"
    "hd (object_text vs c) = cOpenBrace"
    by (auto simp: object_text_def intro: skip_id simp: json_ws_def)
  moreover have "skipWhitespace ?t = ?t" "hd ?t \<noteq> cCloseBrace" "?t \<noteq> []"
    by (simp_all add: object_text_def skip_field) (simp_all add: field_text_def)
  moreover have "push_bit FieldCount 1 - 1 = (255 :: u16)" by code_simp
  moreover have "skipWhitespace [] = []" by (simp add: skipWhitespace_def)
  ultimately show ?thesis unfolding parseOuterObject_def by (simp add: Let_def)
qed

end
