(* ===== verification/Envelope_Laws.thy ===== *)
theory Envelope_Laws
  imports Companion_Envelope
begin

unbundle bit_operations_syntax

text \<open>
  The correctness of the envelope codec of \<^verbatim>\<open>Companion_Envelope\<close>: what the encoder writes is
  decoded to the same contents, whatever is accepted carries the authentication code of exactly
  the returned contents for the expected channel and sequence number, the authenticated byte
  string determines the contents, and the parser's tolerance of a comma in place of the closing
  brace.
\<close>

subsection \<open>The written text\<close>

lemma ow_append_fold:
  assumes "list_all2 (\<lambda>f t. \<forall>out. length out \<le> cap \<longrightarrow> f out = ow_append cap t out) steps ts" and "length out \<le> cap"
  shows "foldl Option.bind (Some out) steps =
    (if length out + length (concat ts) \<le> cap then Some (out @ concat ts) else None)"
  using assms
proof (induction steps ts arbitrary: out rule: list_all2_induct)
  case (Cons f fs t ts)
  have none: "foldl Option.bind None gs = None" for gs :: "(bytes \<Rightarrow> bytes option) list"
    by (induction gs) simp_all
  show ?case
  proof (cases "length out + length t \<le> cap")
    case True
    then have "f out = Some (out @ t)" using Cons(1,4) by (simp add: ow_append_def)
    then show ?thesis using Cons.IH [of "out @ t"] True by simp
  next
    case False
    then have "f out = None" using Cons(1,4) by (simp add: ow_append_def)
    then show ?thesis using False none by simp
  qed
qed simp

lemma ow_appendBase64_eq: "length out \<le> cap \<Longrightarrow> ow_appendBase64 cap x out = ow_append cap (b64_encode x) out"
  by (auto simp: ow_appendBase64_def ow_append_def encodeBase64Url_eq length_b64_encode)

definition envelope_values :: "EnvelopeChannel \<Rightarrow> u64 \<Rightarrow> bytes \<Rightarrow> bytes \<Rightarrow> bytes \<Rightarrow> bytes \<Rightarrow> bytes \<Rightarrow> bytes list" where
  "envelope_values ch sq nonce rid op payload mac = [[49], [48 + ch], formatDecimal sq, b64_encode nonce,
     b64_encode rid, op, b64_encode payload, b64_encode mac]"

lemma envelope_written:
  "ow_all (envelope_writes cap ch sq nonce rid op payload mac) =
     (let t = object_text (envelope_values ch sq nonce rid op payload mac) cCloseBrace
      in if length t \<le> cap then Some t else None)"
proof -
  let ?ts = "[ascii ''{\"v\":1,\"channel\":'', [48 + ch], ascii '',\"seq\":\"'', formatDecimal sq,
      ascii ''\",\"nonce_b64\":\"'', b64_encode nonce, ascii ''\",\"request_id_b64\":\"'', b64_encode rid,
      ascii ''\",\"op\":\"'', op, ascii ''\",\"payload_b64\":\"'', b64_encode payload,
      ascii ''\",\"mac_b64\":\"'', b64_encode mac, ascii ''\"}'']"
  have "list_all2 (\<lambda>f t. \<forall>out. length out \<le> cap \<longrightarrow> f out = ow_append cap t out)
      (envelope_writes cap ch sq nonce rid op payload mac) ?ts"
    by (simp add: envelope_writes_def ow_appendBase64_eq)
  from ow_append_fold [OF this, of "[]"] have "ow_all (envelope_writes cap ch sq nonce rid op payload mac) =
      (if length (concat ?ts) \<le> cap then Some (concat ?ts) else None)" by (simp add: ow_all_def)
  moreover have "concat ?ts = object_text (envelope_values ch sq nonce rid op payload mac) cCloseBrace"
    by (simp add: object_text_def envelope_values_def field_text_def field_names_def ascii_def)
  ultimately show ?thesis unfolding Let_def by (simp only:)
qed

lemma length_object_text:
  "length (object_text (envelope_values ch sq nonce rid op payload mac) c) =
     101 + length (formatDecimal sq) + base64UrlEncodedBytes (length nonce) + base64UrlEncodedBytes (length rid)
     + length op + base64UrlEncodedBytes (length payload) + base64UrlEncodedBytes (length mac)"
  by (simp add: object_text_def envelope_values_def field_text_def field_names_def length_b64_encode)

subsection \<open>The round trip\<close>

lemma clean_b64: "clean (b64_encode bs)"
proof -
  have "clean b64_alphabet" "length b64_alphabet = 64" by code_simp+
  then have c: "clean [b64_char (w AND 63)]" for w
    using sextet_less [of w] by (simp add: clean_def list_all_iff b64_char_def word_less_nat_alt)
  show ?thesis
    by (induction bs rule: b64_encode.induct) (use c in \<open>simp_all add: clean_def Let_def\<close>)
qed

lemma clean_operation: "operationValid (Some op) \<Longrightarrow> clean op"
  by (auto simp: operationValid_def clean_def operationChar_def list_all_iff word_less_nat_alt word_le_nat_alt)

lemma formatDecimal_digits: "list_all is_digit (formatDecimal v)" "length (formatDecimal v) \<le> 20"
proof -
  have "unat v < 10 ^ Suc 19" using unat64_lt [of v] by simp
  note p = format_rev_props [OF this]
  have f: "formatDecimal v = rev (format_rev (Suc 19) v)"
    by (simp add: formatDecimal_def eval_nat_numeral del: format_rev.simps)
  show "list_all is_digit (formatDecimal v)" "length (formatDecimal v) \<le> 20"
    unfolding f using p by (simp_all add: list_all_iff del: format_rev.simps)
qed

lemma clean_digits: "list_all is_digit ds \<Longrightarrow> clean ds"
  by (auto simp: clean_def list_all_iff is_digit_def word_less_nat_alt word_le_nat_alt)

lemma channel_digit: "ch \<le> 2 \<Longrightarrow> unat (48 + ch :: u8) = 48 + unat ch"
  by (subst unat_plus_small) (auto simp: word_le_nat_alt)

lemma envelope_values_ok:
  assumes "ch \<le> 2" and "operationValid (Some op)" and "i < 8"
  shows "field_value i (envelope_values ch sq nonce rid op payload mac ! i)"
proof -
  have "is_digit (48 + ch)" using channel_digit [OF assms(1)] assms(1) by (simp add: is_digit_def word_le_nat_alt)
  then have "token [48 + ch]" by (simp add: token_def digits_text_code)
  moreover have "token [49]" by (simp add: token_def digits_text_code is_digit_def)
  moreover have "clean (formatDecimal sq)" by (rule clean_digits) (rule formatDecimal_digits)
  moreover have "i \<in> {0, 1, 2, 3, 4, 5, 6, 7}" using assms(3) by auto
  ultimately show ?thesis using clean_b64 clean_operation [OF assms(2)]
    by (auto simp: field_value_def envelope_values_def)
qed

lemma fixed_base64_encode: "length bs = n \<Longrightarrow> base64UrlEncodedBytes n = k \<Longrightarrow> fixed_base64 (b64_encode bs) k n = Some bs"
  by (simp add: fixed_base64_def length_b64_encode decodeBase64Url_eq b64.dec_enc)

lemma encoded_bound: "n \<le> 12000 \<Longrightarrow> base64UrlEncodedBytes n \<le> 16000"
  using div_mult_mod_eq [of n 3] mod_less_divisor [of 3 n]
  unfolding base64UrlEncodedBytes_def Let_def by (simp only: split: if_split) linarith

text \<open>What the decoder makes of an object with given values, whatever byte ends it.\<close>

lemma decode_object:
  assumes "ch \<le> 2" and "sq \<noteq> 0" and "operationValid (Some op)" and "length nonce = 16" and "length rid = 16"
    and "length payload \<le> 12000" and "length payload \<le> cap" and "length mac = 32"
    and "hmac key (envelope_parts ch sq nonce rid op payload) = Some mac"
    and "validUtf8 (Some payload)" and "js_valid payload" and "c = cComma \<or> c = cCloseBrace"
  shows "decodeAndVerifyEnvelope hmac (Some (object_text (envelope_values ch sq nonce rid op payload mac) c))
     (Some key) ch sq (Some cap) =
   Inr (\<lparr>de_version = 1, de_channel = ch, de_sequence = sq, de_nonce = nonce, de_requestId = rid,
     de_operation = op, de_payloadBytes = length payload\<rparr>, payload)"
proof -
  let ?vs = "envelope_values ch sq nonce rid op payload mac"
  let ?t = "object_text ?vs c"
  have parse: "parseOuterObject (Some ?t) = Inr ?vs"
    using envelope_values_ok [OF assms(1,3)] assms(12) by (intro parse_object_text) (auto simp: envelope_values_def)
  have "length op \<le> 48" using assms(3) by (simp add: operationValid_def kMaximumOperationBytes_def)
  moreover have "base64UrlEncodedBytes (length payload) \<le> 16000" by (rule encoded_bound [OF assms(6)])
  moreover have "base64UrlEncodedBytes 16 = 22" "base64UrlEncodedBytes 32 = 43" by code_simp+
  ultimately have len: "\<not> length ?t > kMaximumFrameBytes"
    using formatDecimal_digits(2) [of sq] by (simp add: length_object_text assms(4,5,8) kMaximumFrameBytes_def)
  have b: "fixed_base64 (b64_encode nonce) 22 16 = Some nonce" "fixed_base64 (b64_encode rid) 22 16 = Some rid"
    "fixed_base64 (b64_encode mac) 43 32 = Some mac"
    using assms(4,5,8) by (auto intro!: fixed_base64_encode) (code_simp+)
  have seq: "parseDecimal (Some (formatDecimal sq)) = Some sq" using decimal.dec_enc assms(2) by blast
  have pay: "decodeBase64Url (Some (b64_encode payload)) (Some cap) = Some payload"
    using assms(7) by (simp add: decodeBase64Url_eq b64.dec_enc)
  have chr: "\<not> (48 + ch < 48 \<or> 48 + ch > 50)"
    using channel_digit [OF assms(1)] assms(1) by (simp add: word_less_nat_alt word_le_nat_alt)
  have ne: "?t \<noteq> []" by (simp add: object_text_def)
  have nth: "?vs ! 0 = [49]" "?vs ! Suc 0 = [48 + ch]" "?vs ! 2 = formatDecimal sq" "?vs ! 3 = b64_encode nonce"
    "?vs ! 4 = b64_encode rid" "?vs ! 5 = op" "?vs ! 6 = b64_encode payload" "?vs ! 7 = b64_encode mac"
    by (simp_all add: envelope_values_def)
  show ?thesis
    unfolding decodeAndVerifyEnvelope_def
    using ne len chr assms
    by (simp add: parse Let_def nth b seq pay envelope_consts length_b64_encode decoded_encoded_length
        calculateEnvelopeMac_def constantTimeEqual_iff del: nth_Cons_numeral)
qed

lemma string_length_take: "take (string_length n s) s = takeWhile (\<lambda>c. c \<noteq> 0) (take n s)"
  by (induction n s rule: string_length.induct) auto

text \<open>What a successful encoding has checked and written.\<close>

lemma encode_accepted:
  assumes "encodeEnvelope hmac ch sq (Some nonce) (Some rid) (Some op) (Some payload) (Some key) (Some cap) = Inr out"
    and "op' = take (stringLengthBounded (Some op) kMaximumOperationBytes) op"
  shows "ch \<le> 2 \<and> sq \<noteq> 0 \<and> operationValid (Some op') \<and> length payload \<le> 12000 \<and> validUtf8 (Some payload)
    \<and> js_valid payload \<and> length out \<le> cap
    \<and> (\<exists>mac. hmac key (envelope_parts ch sq nonce rid op' payload) = Some mac
         \<and> out = object_text (envelope_values ch sq nonce rid op' payload mac) cCloseBrace)"
proof -
  note run = assms(1) [unfolded encodeEnvelope_def Let_def option.sel, folded assms(2)]
  from run have g: "ch \<le> 2" "sq \<noteq> 0" "operationValid (Some op')" "length payload \<le> 12000"
    "validUtf8 (Some payload)" "js_valid payload"
    by (auto simp: not_less envelope_consts split: if_splits)
  from run obtain mac where mac: "calculateEnvelopeMac hmac ch sq nonce rid op' payload key = Inr mac"
    and w: "ow_all (envelope_writes cap ch sq nonce rid op' payload mac) = Some out"
    by (auto split: if_splits sum.splits option.splits)
  from mac have "hmac key (envelope_parts ch sq nonce rid op' payload) = Some mac"
    by (auto simp: calculateEnvelopeMac_def split: option.splits)
  moreover have "out = object_text (envelope_values ch sq nonce rid op' payload mac) cCloseBrace" "length out \<le> cap"
    using w by (auto simp: envelope_written Let_def split: if_splits)
  ultimately show ?thesis using g by blast
qed

text \<open>
  C32. Whatever the encoder accepts, the receiver gets: the output of a successful encodeEnvelope,
  decoded with the same key for the same channel and sequence number into a buffer that is large
  enough, yields exactly the nonce, the request identifier, the operation name and the payload
  that were given; the output always fits the largest frame.
\<close>

theorem envelope_roundtrip:
  assumes "encodeEnvelope hmac ch sq (Some nonce) (Some rid) (Some op) (Some payload) (Some key) (Some cap) = Inr out"
    and "length nonce = 16" and "length rid = 16" and "\<And>k ps m. hmac k ps = Some m \<Longrightarrow> length m = 32"
    and "length payload \<le> cap'" and "0 \<notin> set op"
  shows "length out \<le> kMaximumFrameBytes \<and> length out \<le> cap
    \<and> decodeAndVerifyEnvelope hmac (Some out) (Some key) ch sq (Some cap') =
      Inr (\<lparr>de_version = kProtocolVersion, de_channel = ch, de_sequence = sq, de_nonce = nonce, de_requestId = rid,
        de_operation = op, de_payloadBytes = length payload\<rparr>, payload)"
proof -
  define op' where "op' = take (stringLengthBounded (Some op) kMaximumOperationBytes) op"
  note acc = encode_accepted [OF assms(1) op'_def]
  then obtain mac where h: "hmac key (envelope_parts ch sq nonce rid op' payload) = Some mac"
    and out: "out = object_text (envelope_values ch sq nonce rid op' payload mac) cCloseBrace" by blast
  have op': "op' = take 49 op"
    using assms(6) by (simp add: op'_def stringLengthBounded_def string_length_take kMaximumOperationBytes_def
        takeWhile_eq_all_conv) (metis in_set_takeD)
  moreover have "length op' \<le> 48" using acc by (simp add: operationValid_def kMaximumOperationBytes_def)
  ultimately have op: "op' = op" by auto
  have d: "decodeAndVerifyEnvelope hmac (Some out) (Some key) ch sq (Some cap') = Inr (\<lparr>de_version = 1, de_channel = ch,
      de_sequence = sq, de_nonce = nonce, de_requestId = rid, de_operation = op',
      de_payloadBytes = length payload\<rparr>, payload)"
    unfolding out using acc assms h by (intro decode_object) auto
  then have "length out \<le> kMaximumFrameBytes"
    by (auto simp: decodeAndVerifyEnvelope_def not_less split: if_splits)
  with d acc show ?thesis by (simp add: op kProtocolVersion_def)
qed

subsection \<open>Authenticity\<close>

lemma fixed_base64_Some: "fixed_base64 t k n = Some bs \<Longrightarrow> length bs = n \<and> t = b64_encode bs"
  by (auto simp: fixed_base64_def decodeBase64Url_eq b64.dec_iff split: if_splits option.splits)

text \<open>
  C33. Nothing unauthenticated is accepted: when a text is accepted for a channel and a sequence
  number, the returned envelope is for exactly that channel and number, its fields have their
  fixed lengths, its operation name is valid, its payload fits the buffer and is UTF-8 and JSON,
  and the text carries the authentication code computed under the key over exactly the returned
  contents.
\<close>

theorem envelope_authentic:
  assumes "decodeAndVerifyEnvelope hmac (Some json) (Some key) ch sq (Some cap) = Inr (env, payload)"
    and "\<And>k ps m. hmac k ps = Some m \<Longrightarrow> length m = 32"
  shows "de_channel env = ch \<and> de_sequence env = sq \<and> ch \<le> ChannelEvent \<and> sq \<noteq> 0
    \<and> length (de_nonce env) = 16 \<and> length (de_requestId env) = 16 \<and> operationValid (Some (de_operation env))
    \<and> de_payloadBytes env = length payload \<and> length payload \<le> min cap kMaximumEnvelopePayloadBytes
    \<and> validUtf8 (Some payload) \<and> js_valid payload
    \<and> (\<exists>spans mac. parseOuterObject (Some json) = Inr spans \<and> spans ! 7 = b64_encode mac
         \<and> hmac key (envelope_parts ch sq (de_nonce env) (de_requestId env) (de_operation env) payload) = Some mac)"
proof -
  note run = assms(1) [unfolded decodeAndVerifyEnvelope_def Let_def]
  from run obtain spans where p: "parseOuterObject (Some json) = Inr spans"
    by (auto split: if_splits sum.splits)
  note run = run [unfolded p sum.case]
  let ?n = "fixed_base64 (spans ! FieldNonce) 22 kEnvelopeNonceBytes"
  let ?r = "fixed_base64 (spans ! FieldRequestId) 22 kRequestIdBytes"
  from run have c: "hd (spans ! FieldChannel) - 48 = ch" "\<not> hd (spans ! FieldChannel) < 48" "\<not> hd (spans ! FieldChannel) > 50"
    by (auto split: if_splits)
  note run = run [unfolded c(1)]
  from run obtain sequence where s: "parseDecimal (Some (spans ! FieldSequence)) = Some sequence" "sequence = sq"
    by (auto split: if_splits option.splits)
  note run = run [unfolded s option.case]
  from run obtain nonce rid where n: "?n = Some nonce" and r: "?r = Some rid"
    by (auto split: if_splits option.splits)
  note run = run [unfolded n r option.case]
  from run obtain pl where pl: "decodeBase64Url (Some (spans ! FieldPayload)) (Some cap) = Some pl"
    by (auto split: if_splits option.splits)
  note run = run [unfolded pl option.case]
  from run obtain sm where sm: "fixed_base64 (spans ! FieldMac) 43 kEnvelopeMacBytes = Some sm"
    by (auto split: if_splits option.splits)
  note run = run [unfolded sm option.case]
  from run obtain em where em: "calculateEnvelopeMac hmac ch sq nonce rid (spans ! FieldOperation) pl key = Inr em"
    by (auto split: if_splits sum.splits)
  note run = run [unfolded option.sel em sum.case]
  from run have f: "operationValid (Some (spans ! FieldOperation))"
    "base64DecodedBytes (length (spans ! FieldPayload)) \<le> kMaximumEnvelopePayloadBytes"
    "constantTimeEqual sm em" "validUtf8 (Some pl)" "js_valid pl" "payload = pl"
    "env = \<lparr>de_version = kProtocolVersion, de_channel = ch, de_sequence = sq, de_nonce = nonce,
       de_requestId = rid, de_operation = spans ! FieldOperation, de_payloadBytes = length pl\<rparr>"
    by (auto simp: not_less split: if_splits)
  from em have h: "hmac key (envelope_parts ch sq nonce rid (spans ! FieldOperation) pl) = Some em"
    by (auto simp: calculateEnvelopeMac_def split: option.splits)
  have "length pl \<le> cap \<and> spans ! FieldPayload = b64_encode pl"
    using pl by (auto simp: decodeBase64Url_eq b64.dec_iff split: option.splits if_splits)
  moreover have "sm = em" "spans ! FieldMac = b64_encode sm"
    using f(3) fixed_base64_Some [OF sm] assms(2) [OF h] by (simp_all add: constantTimeEqual_iff kEnvelopeMacBytes_def)
  moreover have "ch \<le> 2" using c by (auto simp: word_le_nat_alt word_less_nat_alt unat_sub)
  moreover have "sq \<noteq> 0" using s by (simp add: decimal.dec_iff)
  ultimately show ?thesis
    using f h p fixed_base64_Some [OF n] fixed_base64_Some [OF r]
    by (auto simp: envelope_consts length_b64_encode decoded_encoded_length)
qed

subsection \<open>A comma in place of the closing brace\<close>

text \<open>
  The loop over the fields ends at the end of the input as well as at the closing brace, and
  nothing tells the two apart afterwards: replacing the last byte of any accepted encoder output,
  its closing brace, by a comma gives a text that is not a JSON object and is decoded to the same
  envelope and payload.
\<close>

lemma envelope_accepts_comma:
  assumes "encodeEnvelope hmac ch sq (Some nonce) (Some rid) (Some op) (Some payload) (Some key) (Some cap) = Inr out"
    and "length nonce = 16" and "length rid = 16" and "\<And>k ps m. hmac k ps = Some m \<Longrightarrow> length m = 32"
    and "length payload \<le> cap'"
  shows "last out = cCloseBrace \<and> butlast out @ [cComma] \<noteq> out
    \<and> decodeAndVerifyEnvelope hmac (Some (butlast out @ [cComma])) (Some key) ch sq (Some cap')
      = decodeAndVerifyEnvelope hmac (Some out) (Some key) ch sq (Some cap')
    \<and> decodeAndVerifyEnvelope hmac (Some out) (Some key) ch sq (Some cap') \<in> range Inr"
proof -
  define op' where "op' = take (stringLengthBounded (Some op) kMaximumOperationBytes) op"
  note acc = encode_accepted [OF assms(1) op'_def]
  obtain mac where h: "hmac key (envelope_parts ch sq nonce rid op' payload) = Some mac"
    and out: "out = object_text (envelope_values ch sq nonce rid op' payload mac) cCloseBrace"
    using acc by blast
  have dec: "decodeAndVerifyEnvelope hmac (Some (object_text (envelope_values ch sq nonce rid op' payload mac) c))
      (Some key) ch sq (Some cap') = Inr (\<lparr>de_version = 1, de_channel = ch, de_sequence = sq, de_nonce = nonce,
        de_requestId = rid, de_operation = op', de_payloadBytes = length payload\<rparr>, payload)"
    if "c = cComma \<or> c = cCloseBrace" for c
    using acc assms h that by (intro decode_object) auto
  have "butlast out @ [cComma] = object_text (envelope_values ch sq nonce rid op' payload mac) cComma"
    by (simp add: out object_text_def butlast_append)
  moreover have "last out = cCloseBrace" "butlast out @ [cComma] \<noteq> out"
    by (simp_all add: out object_text_def butlast_append)
  ultimately show ?thesis using dec [of cComma] dec [of cCloseBrace] by (simp add: out)
qed

subsection \<open>A concrete envelope\<close>

text \<open>A stand-in for the code (every text has the same one) and the request \<^verbatim>\<open>state.get\<close> with an
  empty object as payload.\<close>

definition demo_hmac :: hmac_fun where
  "demo_hmac key parts = Some (replicate 32 7)"

definition demo_envelope :: "ProtocolResult + bytes" where
  "demo_envelope = encodeEnvelope demo_hmac ChannelRequest 1 (Some (replicate 16 1)) (Some (replicate 16 2))
     (Some (ascii ''state.get'')) (Some [123, 125]) (Some (replicate 32 9)) (Some 1024)"

lemma demo_envelope_ok: "\<exists>out. demo_envelope = Inr out"
proof -
  let ?op = "ascii ''state.get''"
  have t: "take (stringLengthBounded (Some ?op) kMaximumOperationBytes) ?op = ?op" by code_simp
  have v: "operationValid (Some ?op)" "validUtf8 (Some [123, 125])" by code_simp+
  have j: "js_valid [123, 125]"
    by (simp add: js_valid_def skipWhitespace_def json_ws_def js_value.simps js_object.simps)
  have "base64UrlEncodedBytes 16 = 22" "base64UrlEncodedBytes 32 = 43" "base64UrlEncodedBytes (Suc (Suc 0)) = 3" by code_simp+
  then have "length (object_text (envelope_values ChannelRequest 1 (replicate 16 1) (replicate 16 2) ?op [123, 125]
      (replicate 32 7)) cCloseBrace) \<le> 1024"
    using formatDecimal_digits(2) [of 1] by (simp add: length_object_text)
  then show ?thesis
    unfolding demo_envelope_def encodeEnvelope_def Let_def option.sel t
    using v j by (simp add: calculateEnvelopeMac_def demo_hmac_def envelope_written Let_def envelope_consts)
qed

theorem envelope_roundtrip_witness:
  "\<exists>out env. demo_envelope = Inr out
    \<and> decodeAndVerifyEnvelope demo_hmac (Some out) (Some (replicate 32 9)) ChannelRequest 1 (Some 100) = Inr (env, [123, 125])
    \<and> de_operation env = ascii ''state.get''"
proof -
  obtain out where out: "demo_envelope = Inr out" using demo_envelope_ok by blast
  have "length m = 32" if "demo_hmac k ps = Some m" for k ps m using that by (auto simp: demo_hmac_def)
  moreover have "0 \<notin> set (ascii ''state.get'')" by (simp add: ascii_def)
  ultimately show ?thesis
    using envelope_roundtrip [OF out [unfolded demo_envelope_def], of 100] out by (intro exI [of _ out]) auto
qed

theorem envelope_authentic_witness:
  "\<exists>out env. demo_envelope = Inr out
    \<and> decodeAndVerifyEnvelope demo_hmac (Some out) (Some (replicate 32 9)) ChannelRequest 1 (Some 100) = Inr (env, [123, 125])
    \<and> de_sequence env = 1 \<and> length (de_nonce env) = 16"
proof -
  obtain out where out: "demo_envelope = Inr out" using demo_envelope_ok by blast
  have l: "length m = 32" if "demo_hmac k ps = Some m" for k ps m using that by (auto simp: demo_hmac_def)
  obtain op' mac where h: "demo_hmac (replicate 32 9) (envelope_parts 0 1 (replicate 16 1) (replicate 16 2) op' [123, 125]) = Some mac"
      and o: "out = object_text (envelope_values 0 1 (replicate 16 1) (replicate 16 2) op' [123, 125] mac) cCloseBrace"
      and v: "operationValid (Some op')" "validUtf8 (Some [123, 125])" "js_valid [123, 125]"
    using encode_accepted [OF out [unfolded demo_envelope_def] refl] by blast
  from decode_object [where hmac = demo_hmac and key = "replicate 32 9" and cap = 100, OF _ _ v(1) _ _ _ _ l [OF h] h v(2,3)
      disjI2 [OF refl]]
  obtain env where "decodeAndVerifyEnvelope demo_hmac (Some out) (Some (replicate 32 9)) 0 1 (Some 100) = Inr (env, [123, 125])"
    unfolding o by auto
  from envelope_authentic [OF this l] this out show ?thesis by (intro exI [of _ out] exI [of _ env]) simp
qed

lemma envelope_accepts_comma_witness:
  "\<exists>out. demo_envelope = Inr out \<and> decodeAndVerifyEnvelope demo_hmac (Some (butlast out @ [cComma]))
     (Some (replicate 32 9)) ChannelRequest 1 (Some 100) \<in> range Inr"
proof -
  obtain out where out: "demo_envelope = Inr out" using demo_envelope_ok by blast
  have "length m = 32" if "demo_hmac k ps = Some m" for k ps m using that by (auto simp: demo_hmac_def)
  then show ?thesis
    using envelope_accepts_comma [OF out [unfolded demo_envelope_def], of 100] out by (intro exI [of _ out]) simp
qed

end
