(* ===== verification/Companion_Proofs.thy ===== *)
theory Companion_Proofs
  imports Envelope_Laws
begin

unbundle bit_operations_syntax

text \<open>
  The proof and key transcripts of \<^verbatim>\<open>src/src/kitsu_companion_protocol.cpp\<close>:
  \<^verbatim>\<open>makeHandshakeProof\<close>, \<^verbatim>\<open>deriveBleSessionKeys\<close>, \<^verbatim>\<open>makePairingProof\<close> and
  \<^verbatim>\<open>makeRoleBoundPairingProof\<close>.  The controller root authenticates four kinds of byte string
  (the three proofs here and, through the session keys, the envelopes); the theorem of this
  theory is that no two different statements share a byte string.

  \<open>hmac\<close>, \<open>sha\<close> and \<open>hkdf\<close> are the virtual methods of \<^verbatim>\<open>CompanionCrypto\<close>.
\<close>

subsection \<open>The proofs\<close>

definition roleAllowed :: "bytes option \<Rightarrow> bool" where
  "roleAllowed role \<longleftrightarrow> role \<noteq> None \<and>
     (the role = ascii ''device'' \<or> the role = ascii ''client'' \<or> the role = ascii ''ok'')"

definition controllerRoleAllowed :: "bytes option \<Rightarrow> bool" where
  "controllerRoleAllowed role \<longleftrightarrow> role \<noteq> None \<and> (the role = ascii ''owner'' \<or> the role = ascii ''caretaker'')"

definition handshake_domain :: bytes where "handshake_domain = ascii ''KITSU-HS-1'' @ [0]"
definition pairing_domain :: bytes where "pairing_domain = ascii ''KITSU-PAIR-1'' @ [0]"
definition role_pairing_domain :: bytes where "role_pairing_domain = ascii ''KITSU-PAIR-2'' @ [0]"

definition handshake_parts :: "bytes \<Rightarrow> bytes \<Rightarrow> bytes \<Rightarrow> bytes \<Rightarrow> bytes list" where
  "handshake_parts role controllerId clientNonce deviceNonce =
     [handshake_domain, role, [0], controllerId, clientNonce, deviceNonce]"

definition makeHandshakeProof :: "hmac_fun \<Rightarrow> bytes option \<Rightarrow> bytes option \<Rightarrow> bytes option \<Rightarrow> bytes option
    \<Rightarrow> bytes option \<Rightarrow> ProtocolResult + bytes" where
  "makeHandshakeProof hmac root role controllerId clientNonce deviceNonce =
     (if root = None \<or> \<not> roleAllowed role \<or> controllerId = None \<or> clientNonce = None \<or> deviceNonce = None
      then Inl ProtocolInvalidArgument
      else case hmac (the root) (handshake_parts (the role) (the controllerId) (the clientNonce) (the deviceNonce)) of
        Some mac \<Rightarrow> Inr mac | None \<Rightarrow> Inl CryptoFailed)"

definition c2dInfo :: bytes where "c2dInfo = ascii ''kitsu868/ble/c2d/v1''"
definition d2cInfo :: bytes where "d2cInfo = ascii ''kitsu868/ble/d2c/v1''"

type_synonym sha_fun = "bytes list \<Rightarrow> bytes option"
type_synonym hkdf_fun = "bytes \<Rightarrow> bytes \<Rightarrow> bytes \<Rightarrow> bytes option"

text \<open>The keys for the two directions, client to device first.\<close>

definition deriveBleSessionKeys :: "sha_fun \<Rightarrow> hkdf_fun \<Rightarrow> bytes option \<Rightarrow> bytes option \<Rightarrow> bytes option
    \<Rightarrow> ProtocolResult + (bytes \<times> bytes)" where
  "deriveBleSessionKeys sha hkdf root clientNonce deviceNonce =
     (if root = None \<or> clientNonce = None \<or> deviceNonce = None then Inl ProtocolInvalidArgument
      else case sha [the clientNonce, the deviceNonce] of None \<Rightarrow> Inl CryptoFailed
      | Some salt \<Rightarrow> (case hkdf (the root) salt c2dInfo of None \<Rightarrow> Inl CryptoFailed
        | Some clientToDevice \<Rightarrow> (case hkdf (the root) salt d2cInfo of None \<Rightarrow> Inl CryptoFailed
          | Some deviceToClient \<Rightarrow> Inr (clientToDevice, deviceToClient))))"

text \<open>The seven characters of a device identifier: KT, four upper case hexadecimal digits, NUL.\<close>

definition uid_valid :: "bytes \<Rightarrow> bool" where
  "uid_valid uid \<longleftrightarrow> uid ! 0 = of_char CHR ''K'' \<and> uid ! 1 = of_char CHR ''T'' \<and> uid ! 6 = 0
     \<and> list_all (\<lambda>i. (of_char CHR ''0'' \<le> uid ! i \<and> uid ! i \<le> of_char CHR ''9'')
          \<or> (of_char CHR ''A'' \<le> uid ! i \<and> uid ! i \<le> of_char CHR ''F'')) [2 ..< 6]"

definition pairing_parts :: "bytes \<Rightarrow> bytes \<Rightarrow> bytes \<Rightarrow> bytes \<Rightarrow> bytes \<Rightarrow> bytes \<Rightarrow> bytes list" where
  "pairing_parts role controllerId root deviceUid clientNonce deviceNonce =
     [pairing_domain, role, [0], controllerId, root, take 6 deviceUid, clientNonce, deviceNonce]"

definition makePairingProof :: "hmac_fun \<Rightarrow> bytes option \<Rightarrow> bytes option \<Rightarrow> bytes option \<Rightarrow> bytes option
    \<Rightarrow> bytes option \<Rightarrow> bytes option \<Rightarrow> ProtocolResult + bytes" where
  "makePairingProof hmac root role controllerId deviceUid clientNonce deviceNonce =
     (if root = None \<or> \<not> roleAllowed role \<or> controllerId = None \<or> deviceUid = None \<or> clientNonce = None
         \<or> deviceNonce = None then Inl ProtocolInvalidArgument
      else if \<not> uid_valid (the deviceUid) then Inl ProtocolInvalidArgument
      else case hmac (the root) (pairing_parts (the role) (the controllerId) (the root) (the deviceUid)
          (the clientNonce) (the deviceNonce)) of
        Some mac \<Rightarrow> Inr mac | None \<Rightarrow> Inl CryptoFailed)"

definition role_pairing_parts :: "bytes \<Rightarrow> bytes \<Rightarrow> bytes \<Rightarrow> bytes \<Rightarrow> bytes \<Rightarrow> bytes \<Rightarrow> bytes \<Rightarrow> bytes list" where
  "role_pairing_parts proofRole controllerRole controllerId root deviceUid clientNonce deviceNonce =
     [role_pairing_domain, proofRole, [0], controllerRole, [0], controllerId, root, take 6 deviceUid,
      clientNonce, deviceNonce]"

definition makeRoleBoundPairingProof :: "hmac_fun \<Rightarrow> bytes option \<Rightarrow> bytes option \<Rightarrow> bytes option \<Rightarrow> bytes option
    \<Rightarrow> bytes option \<Rightarrow> bytes option \<Rightarrow> bytes option \<Rightarrow> ProtocolResult + bytes" where
  "makeRoleBoundPairingProof hmac root proofRole controllerRole controllerId deviceUid clientNonce deviceNonce =
     (if root = None \<or> \<not> roleAllowed proofRole \<or> \<not> controllerRoleAllowed controllerRole \<or> controllerId = None
         \<or> deviceUid = None \<or> clientNonce = None \<or> deviceNonce = None then Inl ProtocolInvalidArgument
      else if \<not> uid_valid (the deviceUid) then Inl ProtocolInvalidArgument
      else case hmac (the root) (role_pairing_parts (the proofRole) (the controllerRole) (the controllerId) (the root)
          (the deviceUid) (the clientNonce) (the deviceNonce)) of
        Some mac \<Rightarrow> Inr mac | None \<Rightarrow> Inl CryptoFailed)"

subsection \<open>Big-endian integers are prefix free\<close>

lemma putU16Be_inj: "putU16Be v = putU16Be w \<longleftrightarrow> v = w"
  unfolding putU16Be_def by (metis list.inject u16_of_bytes)

lemma putU64Be_inj: "putU64Be v = putU64Be w \<longleftrightarrow> v = w"
proof
  assume eq: "putU64Be v = putU64Be w"
  show "v = w"
  proof (rule bit_word_eqI)
    fix n
    assume "n < LENGTH(64)"
    then have n: "n < 64" by simp
    define i where "i = 7 - n div 8"
    have i: "i < 8" "(7 - i) * 8 + n mod 8 = n" using n by (auto simp: i_def)
    have "putU64Be u ! i = ucast (drop_bit ((7 - i) * 8) u)" for u :: u64 using i(1) by (simp add: putU64Be_def)
    then have "bit (putU64Be u ! i) (n mod 8) = bit u n" for u :: u64 using i(2) n by (simp add: bit_simps)
    then show "bit v n = bit w n" using eq by metis
  qed
qed simp

lemma append_eq_len: "length a = length b \<Longrightarrow> a @ r = b @ s \<longleftrightarrow> a = b \<and> r = s"
  by simp

lemma counted_inj:
  assumes "length a < 65536" and "length b < 65536"
  shows "putU16Be (word_of_nat (length a)) @ a @ r = putU16Be (word_of_nat (length b)) @ b @ s \<longleftrightarrow> a = b \<and> r = s"
proof -
  have "(word_of_nat (length a) :: u16) = word_of_nat (length b) \<Longrightarrow> length a = length b"
    using assms by (drule_tac arg_cong [where f = unat]) (simp add: unat_of_nat take_bit_nat_eq_self)
  then show ?thesis by (auto simp: append_eq_len putU16Be_inj)
qed

lemma counted32_inj:
  assumes "length a < 4294967296" and "length b < 4294967296"
  shows "putU32Be (word_of_nat (length a)) @ a = putU32Be (word_of_nat (length b)) @ b \<longleftrightarrow> a = b"
proof -
  have "(word_of_nat (length a) :: u32) = word_of_nat (length b) \<Longrightarrow> length a = length b"
    using assms by (drule_tac arg_cong [where f = unat]) (simp add: unat_of_nat take_bit_nat_eq_self)
  then show ?thesis by (auto simp: append_eq_len putU32Be_inj)
qed

lemma terminated_inj: "0 \<notin> set a \<Longrightarrow> 0 \<notin> set b \<Longrightarrow> a @ (0 :: u8) # r = b @ 0 # s \<longleftrightarrow> a = b \<and> r = s"
proof (induction a arbitrary: b)
  case Nil
  then show ?case by (cases b) auto
next
  case (Cons x a)
  then show ?case by (cases b) auto
qed

subsection \<open>One byte string, one statement\<close>

text \<open>What a party states when it authenticates a byte string.\<close>

datatype statement =
    SEnvelope EnvelopeChannel u64 bytes bytes bytes bytes
  | SHandshake bytes bytes bytes bytes
  | SPairing bytes bytes bytes bytes bytes bytes
  | SRolePairing bytes bytes bytes bytes bytes bytes bytes

fun statement_bytes :: "statement \<Rightarrow> bytes" where
  "statement_bytes (SEnvelope ch sq nonce rid op payload) = concat (envelope_parts ch sq nonce rid op payload)"
| "statement_bytes (SHandshake role cid cn dn) = concat (handshake_parts role cid cn dn)"
| "statement_bytes (SPairing role cid root uid cn dn) = concat (pairing_parts role cid root uid cn dn)"
| "statement_bytes (SRolePairing pr cr cid root uid cn dn) = concat (role_pairing_parts pr cr cid root uid cn dn)"

text \<open>The arrays have their declared sizes, names and payloads are within the limits the
  functions check.\<close>

fun statement_ok :: "statement \<Rightarrow> bool" where
  "statement_ok (SEnvelope ch sq nonce rid op payload) \<longleftrightarrow> length nonce = 16 \<and> length rid = 16
     \<and> operationValid (Some op) \<and> length payload \<le> kMaximumEnvelopePayloadBytes"
| "statement_ok (SHandshake role cid cn dn) \<longleftrightarrow> roleAllowed (Some role) \<and> length cid = 16 \<and> length cn = 16 \<and> length dn = 16"
| "statement_ok (SPairing role cid root uid cn dn) \<longleftrightarrow> roleAllowed (Some role) \<and> length cid = 16 \<and> length root = 32
     \<and> length uid = 7 \<and> uid_valid uid \<and> length cn = 16 \<and> length dn = 16"
| "statement_ok (SRolePairing pr cr cid root uid cn dn) \<longleftrightarrow> roleAllowed (Some pr) \<and> controllerRoleAllowed (Some cr)
     \<and> length cid = 16 \<and> length root = 32 \<and> length uid = 7 \<and> uid_valid uid \<and> length cn = 16 \<and> length dn = 16"

lemma domain_bytes:
  "envelope_domain = [75, 73, 84, 83, 85, 45, 69, 78, 86, 45, 49, 0]"
  "handshake_domain = [75, 73, 84, 83, 85, 45, 72, 83, 45, 49, 0]"
  "pairing_domain = [75, 73, 84, 83, 85, 45, 80, 65, 73, 82, 45, 49, 0]"
  "role_pairing_domain = [75, 73, 84, 83, 85, 45, 80, 65, 73, 82, 45, 50, 0]"
  by (simp_all add: envelope_domain_def handshake_domain_def pairing_domain_def role_pairing_domain_def ascii_def)

lemma role_no_nul: "roleAllowed (Some r) \<Longrightarrow> 0 \<notin> set r" "controllerRoleAllowed (Some r) \<Longrightarrow> 0 \<notin> set r"
  by (auto simp: roleAllowed_def controllerRoleAllowed_def ascii_def)

lemma uid_take: "length u = 7 \<Longrightarrow> length v = 7 \<Longrightarrow> uid_valid u \<Longrightarrow> uid_valid v \<Longrightarrow> take 6 u = take 6 v \<longleftrightarrow> u = v"
  using take_Suc_conv_app_nth [of 6 u] take_Suc_conv_app_nth [of 6 v] by (auto simp: uid_valid_def)

lemma envelope_bytes_inj:
  assumes "statement_ok (SEnvelope ch sq n r op p)" and "statement_ok (SEnvelope ch' sq' n' r' op' p')"
    and "concat (envelope_parts ch sq n r op p) = concat (envelope_parts ch' sq' n' r' op' p')"
  shows "ch = ch' \<and> sq = sq' \<and> n = n' \<and> r = r' \<and> op = op' \<and> p = p'"
proof -
  have l: "length op < 65536" "length op' < 65536" "length p < 4294967296" "length p' < 4294967296"
    using assms(1,2) by (auto simp: operationValid_def envelope_consts)
  from assms(3) have "ch = ch'" "sq = sq'" "n = n'" "r = r'"
    "putU16Be (word_of_nat (length op)) @ op @ putU32Be (word_of_nat (length p)) @ p
       = putU16Be (word_of_nat (length op')) @ op' @ putU32Be (word_of_nat (length p')) @ p'"
    using assms(1,2) by (auto simp: envelope_parts_def domain_bytes append_eq_len putU64Be_inj)
  then show ?thesis unfolding counted_inj [OF l(1,2)] using counted32_inj [OF l(3,4)] by simp
qed

text \<open>
  C34. Authenticated byte strings are unambiguous: two well-formed statements (an envelope, a
  handshake proof, a pairing proof of version one or two) with the same byte string are the same
  statement.  So a code computed for one purpose, role, direction, pair of nonces, channel or
  sequence number is never a code for another, unless the HMAC itself collides.
\<close>

theorem transcripts_unambiguous:
  assumes "statement_ok a" and "statement_ok b"
  shows "statement_bytes a = statement_bytes b \<longleftrightarrow> a = b"
proof
  assume eq: "statement_bytes a = statement_bytes b"
  show "a = b"
  proof (cases a)
    case (SEnvelope ch sq n r op p)
    then obtain ch' sq' n' r' op' p' where b: "b = SEnvelope ch' sq' n' r' op' p'"
      using eq by (cases b) (auto simp: envelope_parts_def handshake_parts_def pairing_parts_def role_pairing_parts_def domain_bytes)
    then show ?thesis using envelope_bytes_inj [of ch sq n r op p ch' sq' n' r' op' p'] assms eq SEnvelope by simp
  next
    case (SHandshake role cid cn dn)
    then obtain role' cid' cn' dn' where b: "b = SHandshake role' cid' cn' dn'"
      using eq by (cases b) (auto simp: envelope_parts_def handshake_parts_def pairing_parts_def role_pairing_parts_def domain_bytes)
    then have "role @ 0 # cid @ cn @ dn = role' @ 0 # cid' @ cn' @ dn'"
      using eq SHandshake by (simp add: handshake_parts_def)
    then show ?thesis using assms SHandshake b role_no_nul by (simp add: terminated_inj append_eq_len)
  next
    case (SPairing role cid root uid cn dn)
    then obtain role' cid' root' uid' cn' dn' where b: "b = SPairing role' cid' root' uid' cn' dn'"
      using eq by (cases b) (auto simp: envelope_parts_def handshake_parts_def pairing_parts_def role_pairing_parts_def domain_bytes)
    then have "role @ 0 # cid @ root @ take 6 uid @ cn @ dn = role' @ 0 # cid' @ root' @ take 6 uid' @ cn' @ dn'"
      using eq SPairing by (simp add: pairing_parts_def)
    then show ?thesis using assms SPairing b role_no_nul uid_take [of uid uid']
      by (simp add: terminated_inj append_eq_len)
  next
    case (SRolePairing pr cr cid root uid cn dn)
    then obtain pr' cr' cid' root' uid' cn' dn' where b: "b = SRolePairing pr' cr' cid' root' uid' cn' dn'"
      using eq by (cases b) (auto simp: envelope_parts_def handshake_parts_def pairing_parts_def role_pairing_parts_def domain_bytes)
    then have "pr @ 0 # cr @ 0 # cid @ root @ take 6 uid @ cn @ dn
        = pr' @ 0 # cr' @ 0 # cid' @ root' @ take 6 uid' @ cn' @ dn'"
      using eq SRolePairing by (simp add: role_pairing_parts_def)
    then show ?thesis using assms SRolePairing b role_no_nul uid_take [of uid uid']
      by (simp add: terminated_inj append_eq_len)
  qed
qed simp

text \<open>Two handshake statements with the same nonces and different roles.\<close>

theorem transcripts_unambiguous_witness:
  "statement_bytes (SHandshake (ascii ''device'') (replicate 16 1) (replicate 16 2) (replicate 16 3))
   \<noteq> statement_bytes (SHandshake (ascii ''client'') (replicate 16 1) (replicate 16 2) (replicate 16 3))"
proof -
  let ?s = "\<lambda>r. SHandshake (ascii r) (replicate 16 1) (replicate 16 2) (replicate 16 3)"
  have "statement_ok (?s ''device'')" "statement_ok (?s ''client'')" by (simp_all add: roleAllowed_def)
  moreover have "ascii ''device'' \<noteq> ascii ''client''" by (simp add: ascii_def)
  ultimately show ?thesis using transcripts_unambiguous [of "?s ''device''" "?s ''client''"] by blast
qed

end
