(* ===== verification/Ble_Action.thy ===== *)
theory Ble_Action
  imports Controller_Permissions Companion_Utf8
begin

unbundle bit_operations_syntax

text \<open>
  The commands of \<^verbatim>\<open>src/src/kitsu_ble_action.cpp\<close>: the decoder of the \<^verbatim>\<open>action.apply\<close> body
  with its own JSON scanner, the validity check of a command, the canonical byte string whose
  SHA-256 digest binds a command in the replay ledger, and the receipt.

  As in \<^verbatim>\<open>Companion_Json\<close> a cursor is the list of bytes from it to the end.  The character arrays
  of a command are lists of their full length, padded with NUL as the code leaves them.  Of a
  command that is refused only the identifier is meaningful, and only when \<^verbatim>\<open>actionIdValid\<close> is
  set; the partial text a failed string decoding leaves in the message arrays is not represented.
  The digest function is a parameter \<open>sha\<close> over the list of the parts handed to
  \<^verbatim>\<open>sha256Update\<close>, \<open>None\<close> for a failure of the library; \<open>sha256_parts\<close> of \<^verbatim>\<open>Ble_Sha256\<close> is the
  instance of host builds.
\<close>

definition kBleActionUuidBytes :: nat where "kBleActionUuidBytes = 16"
definition kBleActionUuidTextBytes :: nat where "kBleActionUuidTextBytes = 36"
definition kBleActionMinimumTrustedEpoch :: u32 where "kBleActionMinimumTrustedEpoch = 1704067200"
definition kBleActionMaximumTrustedEpoch :: u32 where "kBleActionMaximumTrustedEpoch = 4102444800"
definition kBleActionMaximumExpirySeconds :: u32 where "kBleActionMaximumExpirySeconds = 120"
definition kBleActionMinimumListenMs :: u32 where "kBleActionMinimumListenMs = 1000"
definition kBleActionMaximumListenMs :: u32 where "kBleActionMaximumListenMs = 60000"
definition kBleActionReplayCapacity :: nat where "kBleActionReplayCapacity = 8"
definition kBleActionMessageTargetBytes :: nat where "kBleActionMessageTargetBytes = 43"
definition kBleActionMessageTextBytes :: nat where "kBleActionMessageTextBytes = 128"
definition kMaximumActionBodyBytes :: nat where "kMaximumActionBodyBytes = 12000"
definition kMaximumOuterFields :: nat where "kMaximumOuterFields = 4"
definition kMaximumParamFields :: nat where "kMaximumParamFields = 3"

lemmas action_consts = kBleActionUuidBytes_def kBleActionUuidTextBytes_def kBleActionMinimumTrustedEpoch_def
  kBleActionMaximumTrustedEpoch_def kBleActionMaximumExpirySeconds_def kBleActionMinimumListenMs_def
  kBleActionMaximumListenMs_def kBleActionReplayCapacity_def kBleActionMessageTargetBytes_def
  kBleActionMessageTextBytes_def kMaximumActionBodyBytes_def kMaximumOuterFields_def kMaximumParamFields_def

type_synonym BleMessageRoute = u8
abbreviation (input) RouteNone :: BleMessageRoute where "RouteNone \<equiv> 0"
abbreviation (input) RouteDirect :: BleMessageRoute where "RouteDirect \<equiv> 1"
abbreviation (input) RouteChannel :: BleMessageRoute where "RouteChannel \<equiv> 2"

type_synonym BleAdvertScope = u8
abbreviation (input) ScopeNone :: BleAdvertScope where "ScopeNone \<equiv> 0"
abbreviation (input) ScopeNearby :: BleAdvertScope where "ScopeNearby \<equiv> 1"
abbreviation (input) ScopeMesh :: BleAdvertScope where "ScopeMesh \<equiv> 2"

datatype BleActionDecodeResult = DecodeOk | DecodeInvalidArgument | DecodeMalformedJson | DecodeDuplicateField
  | DecodeUnknownField | InvalidActionId | InvalidKind | InvalidExpiry | InvalidParams

definition bleActionDecodeResultName :: "BleActionDecodeResult \<Rightarrow> string" where
  "bleActionDecodeResultName result = (case result of DecodeOk \<Rightarrow> ''ok''
    | DecodeInvalidArgument \<Rightarrow> ''invalid_argument'' | DecodeMalformedJson \<Rightarrow> ''malformed_json''
    | DecodeDuplicateField \<Rightarrow> ''duplicate_field'' | DecodeUnknownField \<Rightarrow> ''unknown_field''
    | InvalidActionId \<Rightarrow> ''invalid_action_id'' | InvalidKind \<Rightarrow> ''invalid_kind''
    | InvalidExpiry \<Rightarrow> ''invalid_expiry'' | InvalidParams \<Rightarrow> ''invalid_params'')"

definition bleActionKindName :: "BleActionKind \<Rightarrow> string" where
  "bleActionKindName kind = (if kind = ActionPet then ''pet'' else if kind = ActionFeed then ''feed''
     else if kind = ActionPlay then ''play'' else if kind = ActionListenOnce then ''listen_once''
     else if kind = ActionAdvertiseOnce then ''advertise_once'' else if kind = ActionSendMessage then ''send_message''
     else ''unknown'')"

definition bleActionKindAvailable :: "BleActionKind \<Rightarrow> bool" where
  "bleActionKindAvailable kind \<longleftrightarrow> kind = ActionPet \<or> kind = ActionFeed \<or> kind = ActionPlay
     \<or> kind = ActionListenOnce \<or> kind = ActionAdvertiseOnce \<or> kind = ActionSendMessage"

record BleActionCommand =
  ac_actionId :: bytes
  ac_actionIdText :: bytes
  ac_kind :: BleActionKind
  ac_expiresAtEpoch :: u32
  ac_durationMs :: u32
  ac_advertScope :: BleAdvertScope
  ac_messageRoute :: BleMessageRoute
  ac_messageTargetBytes :: u8
  ac_messageTextBytes :: u8
  ac_messageTarget :: bytes
  ac_messageText :: bytes
  ac_actionIdValid :: bool

definition command0 :: BleActionCommand where
  "command0 = \<lparr>ac_actionId = replicate 16 0, ac_actionIdText = replicate 37 0, ac_kind = ActionPet,
     ac_expiresAtEpoch = 0, ac_durationMs = 0, ac_advertScope = ScopeNone, ac_messageRoute = RouteNone,
     ac_messageTargetBytes = 0, ac_messageTextBytes = 0, ac_messageTarget = replicate 44 0,
     ac_messageText = replicate 129 0, ac_actionIdValid = False\<rparr>"

subsection \<open>The scanner\<close>

record ActSpan =
  sp_data :: bytes
  sp_escaped :: bool

datatype ValueKind = StringValue | IntegerValue | ObjectValue

record ActField =
  fd_key :: ActSpan
  fd_value :: ActSpan
  fd_kind :: ValueKind

datatype ParseResult = Malformed | Duplicate

definition isHex :: "u8 \<Rightarrow> bool" where
  "isHex c \<longleftrightarrow> (48 \<le> c \<and> c \<le> 57) \<or> (97 \<le> c \<and> c \<le> 102) \<or> (65 \<le> c \<and> c \<le> 70)"

definition act_hex4 :: "bytes \<Rightarrow> u16" where
  "act_hex4 input = foldl (\<lambda>v c. push_bit 4 v OR
     ucast (if c \<le> 57 then c - 48 else if c \<le> 70 then c - 65 + 10 else c - 97 + 10)) 0 (take 4 input)"

text \<open>The loop of \<^verbatim>\<open>parseString\<close> after the opening quote: the raw text of the string, whether it
  contains an escape, and what follows the closing quote.\<close>

definition act_prepend :: "bytes \<Rightarrow> (bytes \<times> bool \<times> bytes) option \<Rightarrow> (bytes \<times> bool \<times> bytes) option" where
  "act_prepend raw result = map_option (\<lambda>(s, e, r). (raw @ s, e, r)) result"

function act_chars :: "bool \<Rightarrow> bytes \<Rightarrow> (bytes \<times> bool \<times> bytes) option" where
  "act_chars escaped [] = None"
| "act_chars escaped (c # rest) =
     (if c = cQuote then Some ([], escaped, rest)
      else if c < 0x20 then None
      else if c \<noteq> cBackslash then act_prepend [c] (act_chars escaped rest)
      else case rest of [] \<Rightarrow> None
      | escape # rest2 \<Rightarrow>
          if simple_escape escape then act_prepend [c, escape] (act_chars True rest2)
          else if escape \<noteq> 117 \<or> length rest2 < 4 then None
          else if \<not> list_all isHex (take 4 rest2) then None
          else let first = act_hex4 rest2; rest3 = drop 4 rest2 in
            if 0xd800 \<le> first \<and> first \<le> 0xdbff then
              (if length rest3 < 6 \<or> rest3 ! 0 \<noteq> cBackslash \<or> rest3 ! 1 \<noteq> 117 then None
               else if \<not> list_all isHex (take 4 (drop 2 rest3)) then None
               else let second = act_hex4 (drop 2 rest3) in
                 if second < 0xdc00 \<or> second > 0xdfff then None
                 else act_prepend (c # escape # take 4 rest2 @ take 6 rest3) (act_chars True (drop 6 rest3)))
            else if 0xdc00 \<le> first \<and> first \<le> 0xdfff then None
            else act_prepend (c # escape # take 4 rest2) (act_chars True rest3))"
  by pat_completeness auto

termination act_chars
  by (relation "measure (\<lambda>(e, r). length r)") auto

definition parseString :: "bytes \<Rightarrow> (ActSpan \<times> bytes) option" where
  "parseString rest = (case rest of [] \<Rightarrow> None
     | c # cs \<Rightarrow> if c \<noteq> cQuote then None
         else map_option (\<lambda>(raw, escaped, r). (\<lparr>sp_data = raw, sp_escaped = escaped\<rparr>, r)) (act_chars False cs))"

lemma act_chars_shorter: "act_chars e r = Some (s, e', r') \<Longrightarrow> length r' < length r"
proof (induction "length r" arbitrary: e r s rule: less_induct)
  case less
  have IH: "length r' < length r" if "act_chars e1 y = Some (s1, e', r')" "length y < length r" for e1 y s1
    using less(1) that less_trans by blast
  show ?case
    using less(2) by (cases r) (auto simp: act_prepend_def Let_def split: if_splits list.splits dest: IH)
qed

lemma parseString_shorter: "parseString r = Some (s, r') \<Longrightarrow> length r' < length r"
  by (auto simp: parseString_def split: list.splits if_splits dest!: act_chars_shorter)

text \<open>The loop of \<^verbatim>\<open>scanObject\<close> after the opening brace, at a nesting depth; what is left is enough
  to recover the text of the object.\<close>

function scan_depth :: "nat \<Rightarrow> bytes \<Rightarrow> bytes option" where
  "scan_depth depth rest =
     (if depth = 0 then Some rest
      else if rest = [] then None
      else if hd rest = cQuote then
        (case parseString rest of None \<Rightarrow> None | Some (ignored, r) \<Rightarrow> scan_depth depth r)
      else if hd rest = cOpenBrace then (if depth + 1 > 8 then None else scan_depth (depth + 1) (tl rest))
      else if hd rest = cCloseBrace then scan_depth (depth - 1) (tl rest)
      else if hd rest < 0x20 \<and> hd rest \<noteq> 9 \<and> hd rest \<noteq> 13 \<and> hd rest \<noteq> 10 then None
      else scan_depth depth (tl rest))"
  by pat_completeness auto

termination scan_depth
  by (relation "measure (\<lambda>(d, r). length r)") (auto dest: parseString_shorter)

declare scan_depth.simps [simp del]

definition consumed :: "bytes \<Rightarrow> bytes \<Rightarrow> bytes" where
  "consumed rest after = take (length rest - length after) rest"

definition scanObject :: "bytes \<Rightarrow> (ActSpan \<times> bytes) option" where
  "scanObject rest =
     (if rest = [] \<or> hd rest \<noteq> cOpenBrace then None
      else map_option (\<lambda>r. (\<lparr>sp_data = consumed rest r, sp_escaped = False\<rparr>, r)) (scan_depth 1 (tl rest)))"

definition scanInteger :: "bytes \<Rightarrow> (ActSpan \<times> bytes) option" where
  "scanInteger rest =
     (let digits = (if hd rest = cMinus then tl rest else rest); r = dropWhile is_digit digits in
      if length r = length digits \<or> (length digits - length r > 1 \<and> hd digits = cZero) then None
      else Some (\<lparr>sp_data = consumed rest r, sp_escaped = False\<rparr>, r))"

definition parse_value :: "bytes \<Rightarrow> (ActSpan \<times> ValueKind \<times> bytes) option" where
  "parse_value rest =
     (if hd rest = cQuote then map_option (\<lambda>(s, r). (s, StringValue, r)) (parseString rest)
      else if hd rest = cOpenBrace then map_option (\<lambda>(s, r). (s, ObjectValue, r)) (scanObject rest)
      else map_option (\<lambda>(s, r). (s, IntegerValue, r)) (scanInteger rest))"

lemma scan_depth_le: "scan_depth d r = Some r' \<Longrightarrow> length r' \<le> length r"
proof (induction "length r" arbitrary: d r rule: less_induct)
  case less
  have IH: "length r' \<le> length r" if "scan_depth e y = Some r'" "length y < length r" for e y
    using less(1) that by fastforce
  show ?case
    using less(2) by (subst (asm) scan_depth.simps)
      (auto split: if_splits option.splits prod.splits dest: IH parseString_shorter)
qed

lemma parse_value_le: "parse_value r = Some (s, k, r') \<Longrightarrow> length r' \<le> length r"
  by (auto simp: parse_value_def scanObject_def scanInteger_def Let_def length_tl
      split: if_splits dest!: parseString_shorter scan_depth_le
      intro: le_trans [OF length_dropWhile_le])

subsection \<open>Objects with a fixed schema\<close>

text \<open>The loop of \<^verbatim>\<open>parseObject\<close>; as in \<^verbatim>\<open>parseOuterObject\<close> it also ends at the end of the input
  after a comma.\<close>

function parse_fields :: "nat \<Rightarrow> ActField list \<Rightarrow> bytes \<Rightarrow> ParseResult + (ActField list \<times> bytes)" where
  "parse_fields capacity done_fields rest =
     (if rest = [] then Inr (done_fields, rest)
      else if length done_fields \<ge> capacity then Inl Malformed
      else case parseString rest of None \<Rightarrow> Inl Malformed
      | Some (key, r1) \<Rightarrow>
        if sp_escaped key \<or> sp_data key = [] then Inl Malformed
        else if list_ex (\<lambda>f. sp_data (fd_key f) = sp_data key) done_fields then Inl Duplicate
        else let r2 = skipWhitespace r1 in
          if r2 = [] \<or> hd r2 \<noteq> cColon then Inl Malformed
          else let r3 = skipWhitespace (tl r2) in
            if r3 = [] then Inl Malformed
            else case parse_value r3 of None \<Rightarrow> Inl Malformed
            | Some (v, kind, r4) \<Rightarrow>
              let added = done_fields @ [\<lparr>fd_key = key, fd_value = v, fd_kind = kind\<rparr>];
                  r5 = skipWhitespace r4 in
              if r5 = [] then Inl Malformed
              else if hd r5 = cCloseBrace then Inr (added, tl r5)
              else if hd r5 \<noteq> cComma then Inl Malformed
              else parse_fields capacity added (skipWhitespace (tl r5)))"
  by pat_completeness auto

termination parse_fields
proof (relation "measure (\<lambda>(c, f, r). length r)", goal_cases)
  case (2 capacity dn rest x key r1 r2 r3 y v z kind r4 added r5)
  have "length r1 < length rest" using 2 parseString_shorter by blast
  then have "length r3 < length rest" using skip_after_shorter(2) [of r1 "length rest"] 2 by auto
  moreover have "length r4 \<le> length r3" using parse_value_le 2 by blast
  ultimately have "length r4 < length rest" by linarith
  then show ?case using skip_after_shorter(2) [of r4 "length rest"] 2 by auto
qed simp

declare parse_fields.simps [simp del]

definition parseObject :: "bytes option \<Rightarrow> nat \<Rightarrow> ParseResult + ActField list" where
  "parseObject json fieldCapacity =
     (if json = None \<or> length (the json) < 2 \<or> fieldCapacity = 0 then Inl Malformed
      else let r = skipWhitespace (the json) in
        if r = [] \<or> hd r \<noteq> cOpenBrace then Inl Malformed
        else let r = skipWhitespace (tl r) in
          if r \<noteq> [] \<and> hd r = cCloseBrace then
            (if skipWhitespace (tl r) = [] then Inr [] else Inl Malformed)
          else case parse_fields fieldCapacity [] r of Inl e \<Rightarrow> Inl e
          | Inr (spans, rest) \<Rightarrow> if skipWhitespace rest = [] then Inr spans else Inl Malformed)"

definition spanEquals :: "ActSpan \<Rightarrow> string \<Rightarrow> bool" where
  "spanEquals span expected \<longleftrightarrow> \<not> sp_escaped span \<and> sp_data span = ascii expected"

definition findField :: "ActField list \<Rightarrow> string \<Rightarrow> ActField option" where
  "findField fs name = find (\<lambda>f. spanEquals (fd_key f) name) fs"

definition exactSchema :: "ActField list \<Rightarrow> string list \<Rightarrow> bool" where
  "exactSchema fs names \<longleftrightarrow> length fs = length names \<and> list_all (\<lambda>n. findField fs n \<noteq> None) names"

text \<open>The digit loop of \<^verbatim>\<open>parseInt64\<close> with its overflow test against the given maximum.\<close>

fun int64_digits :: "u64 \<Rightarrow> u64 \<Rightarrow> bytes \<Rightarrow> u64 option" where
  "int64_digits maximum magnitude [] = Some magnitude"
| "int64_digits maximum magnitude (c # cs) =
     (if c < 48 \<or> c > 57 then None
      else let digit = ucast (c - 48) in
        if magnitude > (maximum - digit) div 10 then None
        else int64_digits maximum (magnitude * 10 + digit) cs)"

definition parseInt64 :: "ActField option \<Rightarrow> int option" where
  "parseInt64 field =
     (case field of None \<Rightarrow> None
      | Some f \<Rightarrow>
        let d = sp_data (fd_value f) in
        if fd_kind f \<noteq> IntegerValue \<or> d = [] \<or> length d > 20 then None
        else let negative = (hd d = cMinus); digits = (if negative then tl d else d) in
          if negative \<and> digits = [] then None
          else map_option (\<lambda>m. if negative then - uint m else uint m)
            (int64_digits (if negative then 0x8000000000000000 else 0x7fffffffffffffff) 0 digits))"

definition parseUint32 :: "ActField option \<Rightarrow> u32 option" where
  "parseUint32 field = (case parseInt64 field of None \<Rightarrow> None
     | Some v \<Rightarrow> if v < 0 \<or> v > 0xffffffff then None else Some (word_of_int v))"

subsection \<open>Identifiers and kinds\<close>

definition hexNibble :: "u8 \<Rightarrow> int" where
  "hexNibble c = (if 48 \<le> c \<and> c \<le> 57 then uint c - 48 else if 97 \<le> c \<and> c \<le> 102 then uint c - 97 + 10
     else if 65 \<le> c \<and> c \<le> 70 then uint c - 65 + 10 else - 1)"

definition hex_chars :: bytes where "hex_chars = ascii ''0123456789abcdef''"

text \<open>The loop of \<^verbatim>\<open>parseUuid\<close> over the text: the bytes and the canonical text so far.\<close>

function uuid_loop :: "bytes \<Rightarrow> nat \<Rightarrow> bytes \<Rightarrow> bytes \<Rightarrow> (bytes \<times> bytes) option" where
  "uuid_loop d source ids txt =
     (if source \<ge> length d then Some (ids, txt)
      else if source = 8 \<or> source = 13 \<or> source = 18 \<or> source = 23 then
        (if d ! source \<noteq> cMinus then None else uuid_loop d (source + 1) ids (txt @ [cMinus]))
      else if source + 1 \<ge> length d \<or> length ids \<ge> kBleActionUuidBytes then None
      else let high = hexNibble (d ! source); low = hexNibble (d ! (source + 1)) in
        if high < 0 \<or> low < 0 then None
        else uuid_loop d (source + 2) (ids @ [word_of_int (push_bit 4 high OR low)])
               (txt @ [hex_chars ! nat high, hex_chars ! nat low]))"
  by pat_completeness auto

termination uuid_loop
  by (relation "measure (\<lambda>(d, s, i, t). length d - s)") auto

declare uuid_loop.simps [simp del]

definition parseUuid :: "ActField option \<Rightarrow> BleActionCommand \<Rightarrow> bool \<times> BleActionCommand" where
  "parseUuid field output =
     (case field of None \<Rightarrow> (False, output)
      | Some f \<Rightarrow>
        if fd_kind f \<noteq> StringValue \<or> sp_escaped (fd_value f) \<or> length (sp_data (fd_value f)) \<noteq> kBleActionUuidTextBytes
        then (False, output)
        else case uuid_loop (sp_data (fd_value f)) 0 [] [] of None \<Rightarrow> (False, output)
          | Some (ids, txt) \<Rightarrow>
            let ok = (length ids = kBleActionUuidBytes) in
            (ok, output\<lparr>ac_actionId := ids, ac_actionIdText := txt @ [0], ac_actionIdValid := ok\<rparr>))"

definition action_kinds :: "(string \<times> BleActionKind) list" where
  "action_kinds = [(''pet'', ActionPet), (''feed'', ActionFeed), (''play'', ActionPlay),
     (''listen_once'', ActionListenOnce), (''advertise_once'', ActionAdvertiseOnce), (''send_message'', ActionSendMessage)]"

definition parseKind :: "ActField option \<Rightarrow> BleActionKind option" where
  "parseKind field =
     (case field of None \<Rightarrow> None
      | Some f \<Rightarrow>
        if fd_kind f \<noteq> StringValue \<or> sp_escaped (fd_value f) then None
        else map_option snd (find (\<lambda>(name, k). spanEquals (fd_value f) name) action_kinds))"

subsection \<open>Message text\<close>

text \<open>The scalar value of an escaped pair of surrogates.\<close>

definition pair_scalar :: "u16 \<Rightarrow> u16 \<Rightarrow> u32" where
  "pair_scalar first second = 0x10000 + push_bit 10 (ucast first - 0xd800) + (ucast second - 0xdc00)"

definition scalar_bytes :: "u32 \<Rightarrow> nat" where
  "scalar_bytes scalar = (if scalar \<le> 0x7f then 1 else if scalar \<le> 0x7ff then 2 else if scalar \<le> 0xffff then 3 else 4)"

function decoded_count :: "bytes \<Rightarrow> nat option" where
  "decoded_count [] = Some 0"
| "decoded_count (c # rest) =
     (if c \<noteq> cBackslash then map_option (\<lambda>n. n + 1) (decoded_count rest)
      else case rest of [] \<Rightarrow> None
      | escape # rest2 \<Rightarrow>
          if escape \<noteq> 117 then map_option (\<lambda>n. n + 1) (decoded_count rest2)
          else if length rest2 < 4 then None
          else let first = act_hex4 rest2; rest3 = drop 4 rest2 in
            if 0xd800 \<le> first \<and> first \<le> 0xdbff then
              (if length rest3 < 6 \<or> rest3 ! 0 \<noteq> cBackslash \<or> rest3 ! 1 \<noteq> 117 then None
               else map_option (\<lambda>n. n + scalar_bytes (pair_scalar first (act_hex4 (drop 2 rest3))))
                 (decoded_count (drop 6 rest3)))
            else map_option (\<lambda>n. n + scalar_bytes (ucast first)) (decoded_count rest3))"
  by pat_completeness auto

termination decoded_count
  by (relation "measure length") auto

definition decodedStringBytes :: "ActSpan \<Rightarrow> nat option" where
  "decodedStringBytes v = decoded_count (sp_data v)"

definition appendUtf8 :: "u32 \<Rightarrow> nat \<Rightarrow> bytes \<Rightarrow> bytes option" where
  "appendUtf8 scalar capacity written =
     (if scalar = 0 \<or> scalar > 0x10ffff \<or> (0xd800 \<le> scalar \<and> scalar \<le> 0xdfff) then None
      else let needed = scalar_bytes scalar in
        if length written + needed \<ge> capacity then None
        else if needed = 1 then Some (written @ [ucast scalar])
        else if needed = 2 then Some (written @ [ucast (0xc0 OR drop_bit 6 scalar), ucast (0x80 OR (scalar AND 0x3f))])
        else if needed = 3 then Some (written @ [ucast (0xe0 OR drop_bit 12 scalar),
          ucast (0x80 OR (drop_bit 6 scalar AND 0x3f)), ucast (0x80 OR (scalar AND 0x3f))])
        else Some (written @ [ucast (0xf0 OR drop_bit 18 scalar), ucast (0x80 OR (drop_bit 12 scalar AND 0x3f)),
          ucast (0x80 OR (drop_bit 6 scalar AND 0x3f)), ucast (0x80 OR (scalar AND 0x3f))]))"

text \<open>What a one-letter escape stands for.\<close>

definition simple_scalar :: "u8 \<Rightarrow> u32 option" where
  "simple_scalar e = (if e = cQuote then Some 34 else if e = cBackslash then Some 92 else if e = 47 then Some 47
     else if e = 98 then Some 8 else if e = 102 then Some 12 else if e = 110 then Some 10
     else if e = 114 then Some 13 else if e = 116 then Some 9 else None)"

function decode_chars :: "nat \<Rightarrow> bytes \<Rightarrow> bytes \<Rightarrow> bytes option" where
  "decode_chars capacity written [] = Some written"
| "decode_chars capacity written (c # rest) =
     (if c \<noteq> cBackslash then
        (if length written + 1 \<ge> capacity then None else decode_chars capacity (written @ [c]) rest)
      else case rest of [] \<Rightarrow> None
      | escape # rest2 \<Rightarrow>
          (case simple_scalar escape of
             Some scalar \<Rightarrow> (case appendUtf8 scalar capacity written of None \<Rightarrow> None
               | Some w \<Rightarrow> decode_chars capacity w rest2)
           | None \<Rightarrow>
              if escape \<noteq> 117 \<or> length rest2 < 4 then None
              else let first = act_hex4 rest2; rest3 = drop 4 rest2 in
                if 0xd800 \<le> first \<and> first \<le> 0xdbff then
                  (if length rest3 < 6 \<or> rest3 ! 0 \<noteq> cBackslash \<or> rest3 ! 1 \<noteq> 117 then None
                   else let second = act_hex4 (drop 2 rest3) in
                     if second < 0xdc00 \<or> second > 0xdfff then None
                     else case appendUtf8 (pair_scalar first second) capacity written of None \<Rightarrow> None
                       | Some w \<Rightarrow> decode_chars capacity w (drop 6 rest3))
                else case appendUtf8 (ucast first) capacity written of None \<Rightarrow> None
                  | Some w \<Rightarrow> decode_chars capacity w rest3))"
  by pat_completeness auto

termination decode_chars
  by (relation "measure (\<lambda>(c, w, r). length r)") auto

text \<open>The decoded bytes; the array of the given capacity then holds them and NULs.\<close>

definition decodeString :: "ActSpan \<Rightarrow> nat \<Rightarrow> bytes option" where
  "decodeString v capacity =
     (if capacity = 0 then None
      else case decode_chars capacity [] (sp_data v) of None \<Rightarrow> None
        | Some written \<Rightarrow> if length written > 255 then None
            else if validUtf8 (Some written) then Some written else None)"

definition char_array :: "nat \<Rightarrow> bytes \<Rightarrow> bytes" where
  "char_array capacity content = content @ replicate (capacity - length content) 0"

definition targetChar :: "u8 \<Rightarrow> bool" where
  "targetChar c \<longleftrightarrow> (65 \<le> c \<and> c \<le> 90) \<or> (97 \<le> c \<and> c \<le> 122) \<or> (48 \<le> c \<and> c \<le> 57) \<or> c = 45 \<or> c = 95"

definition validDirectTarget :: "ActSpan \<Rightarrow> bool" where
  "validDirectTarget v \<longleftrightarrow> \<not> sp_escaped v \<and> length (sp_data v) = kBleActionMessageTargetBytes
     \<and> list_all targetChar (sp_data v)
     \<and> (case decodeBase64Url (Some (sp_data v)) (Some 32) of None \<Rightarrow> False
        | Some decoded \<Rightarrow> length decoded = 32
            \<and> encodeBase64Url (Some decoded) (Some (kBleActionMessageTargetBytes + 1)) = Some (sp_data v))"

definition validChannelTarget :: "ActSpan \<Rightarrow> bool" where
  "validChannelTarget v \<longleftrightarrow> \<not> sp_escaped v \<and> length (sp_data v) = 1 \<and> 48 \<le> hd (sp_data v) \<and> hd (sp_data v) \<le> 51"

subsection \<open>Decoding a command\<close>

definition decode_listen :: "ActField list \<Rightarrow> BleActionCommand \<Rightarrow> BleActionDecodeResult \<times> BleActionCommand" where
  "decode_listen spans output =
     (if \<not> exactSchema spans [''duration_ms''] then (InvalidParams, output)
      else case parseUint32 (findField spans ''duration_ms'') of None \<Rightarrow> (InvalidParams, output)
        | Some duration \<Rightarrow>
          (if duration < kBleActionMinimumListenMs \<or> duration > kBleActionMaximumListenMs then InvalidParams else DecodeOk,
           output\<lparr>ac_durationMs := duration\<rparr>))"

definition decode_advertise :: "ActField list \<Rightarrow> BleActionCommand \<Rightarrow> BleActionDecodeResult \<times> BleActionCommand" where
  "decode_advertise spans output =
     (case findField spans ''scope'' of None \<Rightarrow> (InvalidParams, output)
      | Some scope \<Rightarrow>
        if \<not> exactSchema spans [''scope''] \<or> fd_kind scope \<noteq> StringValue \<or> sp_escaped (fd_value scope)
        then (InvalidParams, output)
        else if spanEquals (fd_value scope) ''nearby'' then (DecodeOk, output\<lparr>ac_advertScope := ScopeNearby\<rparr>)
        else if spanEquals (fd_value scope) ''mesh'' then (DecodeOk, output\<lparr>ac_advertScope := ScopeMesh\<rparr>)
        else (InvalidParams, output))"

definition decode_message :: "ActField list \<Rightarrow> BleActionCommand \<Rightarrow> BleActionDecodeResult \<times> BleActionCommand" where
  "decode_message spans output =
     (case (findField spans ''route'', findField spans ''target_id'', findField spans ''text'') of
        (Some route, Some target, Some txt) \<Rightarrow>
          if \<not> exactSchema spans [''route'', ''target_id'', ''text''] \<or> fd_kind route \<noteq> StringValue
             \<or> fd_kind target \<noteq> StringValue \<or> fd_kind txt \<noteq> StringValue
             \<or> \<not> (spanEquals (fd_value route) ''direct'' \<or> spanEquals (fd_value route) ''channel'')
          then (InvalidParams, output)
          else (case decodedStringBytes (fd_value txt) of None \<Rightarrow> (InvalidParams, output)
          | Some textBytes \<Rightarrow>
            if textBytes = 0 \<or> textBytes > kBleActionMessageTextBytes then (InvalidParams, output)
            else let direct = spanEquals (fd_value route) ''direct'';
                     routed = output\<lparr>ac_messageRoute := if direct then RouteDirect else RouteChannel\<rparr> in
              if \<not> (if direct then validDirectTarget (fd_value target) else validChannelTarget (fd_value target))
              then (InvalidParams, routed)
              else (case decodeString (fd_value target) (kBleActionMessageTargetBytes + 1) of None \<Rightarrow> (InvalidParams, routed)
              | Some t \<Rightarrow> (case decodeString (fd_value txt) (kBleActionMessageTextBytes + 1) of None \<Rightarrow> (InvalidParams, routed)
                | Some m \<Rightarrow>
                  (if m = [] then InvalidParams else DecodeOk,
                   routed\<lparr>ac_messageTarget := char_array (kBleActionMessageTargetBytes + 1) t,
                     ac_messageTargetBytes := word_of_nat (length t),
                     ac_messageText := char_array (kBleActionMessageTextBytes + 1) m,
                     ac_messageTextBytes := word_of_nat (length m)\<rparr>))))
      | _ \<Rightarrow> (InvalidParams, output))"

definition decodeParams :: "ActField option \<Rightarrow> BleActionCommand \<Rightarrow> BleActionDecodeResult \<times> BleActionCommand" where
  "decodeParams params output =
     (case params of None \<Rightarrow> (InvalidParams, output)
      | Some f \<Rightarrow>
        if fd_kind f \<noteq> ObjectValue then (InvalidParams, output)
        else case parseObject (Some (sp_data (fd_value f))) kMaximumParamFields of
          Inl Duplicate \<Rightarrow> (DecodeDuplicateField, output)
        | Inl Malformed \<Rightarrow> (DecodeMalformedJson, output)
        | Inr spans \<Rightarrow>
            if ac_kind output = ActionPet \<or> ac_kind output = ActionFeed \<or> ac_kind output = ActionPlay
            then (if spans = [] then DecodeOk else InvalidParams, output)
            else if ac_kind output = ActionListenOnce then decode_listen spans output
            else if ac_kind output = ActionAdvertiseOnce then decode_advertise spans output
            else if ac_kind output = ActionSendMessage then decode_message spans output
            else (InvalidKind, output))"

definition decodeBleActionCommand :: "bytes option \<Rightarrow> BleActionDecodeResult \<times> BleActionCommand" where
  "decodeBleActionCommand json =
     (if json = None \<or> the json = [] \<or> length (the json) > kMaximumActionBodyBytes then (DecodeInvalidArgument, command0)
      else if \<not> validUtf8 json then (DecodeMalformedJson, command0)
      else case parseObject json kMaximumOuterFields of
        Inl Duplicate \<Rightarrow> (DecodeDuplicateField, command0)
      | Inl Malformed \<Rightarrow> (DecodeMalformedJson, command0)
      | Inr spans \<Rightarrow>
          if \<not> exactSchema spans [''action_id'', ''kind'', ''expires_at_epoch'', ''params'']
          then (DecodeUnknownField, command0)
          else case parseUuid (findField spans ''action_id'') command0 of
            (False, output) \<Rightarrow> (InvalidActionId, output)
          | (True, output) \<Rightarrow>
            (case parseKind (findField spans ''kind'') of None \<Rightarrow> (InvalidKind, output)
            | Some kind \<Rightarrow>
              (case parseUint32 (findField spans ''expires_at_epoch'') of
                 None \<Rightarrow> (InvalidExpiry, output\<lparr>ac_kind := kind\<rparr>)
               | Some expiry \<Rightarrow>
                 let dated = output\<lparr>ac_kind := kind, ac_expiresAtEpoch := expiry\<rparr> in
                 if expiry < kBleActionMinimumTrustedEpoch \<or> expiry > kBleActionMaximumTrustedEpoch
                 then (InvalidExpiry, dated)
                 else decodeParams (findField spans ''params'') dated)))"

subsection \<open>Receipts\<close>

definition tokenChar :: "u8 \<Rightarrow> bool" where
  "tokenChar c \<longleftrightarrow> (97 \<le> c \<and> c \<le> 122) \<or> (48 \<le> c \<and> c \<le> 57) \<or> c = 95"

definition validReceiptToken :: "bytes option \<Rightarrow> bool" where
  "validReceiptToken token = (case token of None \<Rightarrow> False
     | Some t \<Rightarrow> t \<noteq> [] \<and> 97 \<le> hd t \<and> hd t \<le> 122 \<and> length t \<le> 48 \<and> list_all tokenChar (tl t))"

text \<open>The text of a C string held in an array.\<close>

definition c_string :: "bytes \<Rightarrow> bytes" where
  "c_string chars = takeWhile (\<lambda>c. c \<noteq> 0) chars"

definition encodeBleActionReceipt :: "BleActionCommand \<Rightarrow> bool \<Rightarrow> bytes option \<Rightarrow> bytes option \<Rightarrow> nat option
    \<Rightarrow> bytes option" where
  "encodeBleActionReceipt command accepted st errorCode outputCapacity =
     (if \<not> ac_actionIdValid command \<or> \<not> validReceiptToken st \<or> outputCapacity = None \<or> outputCapacity = Some 0
         \<or> (accepted \<and> errorCode \<noteq> None) \<or> (\<not> accepted \<and> \<not> validReceiptToken errorCode) then None
      else let written = (case errorCode of
          Some e \<Rightarrow> ascii ''{\"action_id\":\"'' @ c_string (ac_actionIdText command) @ ascii ''\",\"accepted\":false,''
            @ ascii ''\"state\":\"'' @ the st @ ascii ''\",\"error_code\":\"'' @ e @ ascii ''\"}''
        | None \<Rightarrow> ascii ''{\"action_id\":\"'' @ c_string (ac_actionIdText command) @ ascii ''\",\"accepted\":true,''
            @ ascii ''\"state\":\"'' @ the st @ ascii ''\"}'')
        in if length written \<ge> the outputCapacity then None else Some written)"

subsection \<open>The digest of a command\<close>

definition validReplayCommand :: "BleActionCommand \<Rightarrow> bool" where
  "validReplayCommand command \<longleftrightarrow>
     \<not> (\<not> ac_actionIdValid command \<or> \<not> bleActionKindAvailable (ac_kind command)
        \<or> ac_expiresAtEpoch command < kBleActionMinimumTrustedEpoch
        \<or> ac_expiresAtEpoch command > kBleActionMaximumTrustedEpoch)
     \<and> (if ac_kind command = ActionListenOnce
        then \<not> (ac_durationMs command < kBleActionMinimumListenMs \<or> ac_durationMs command > kBleActionMaximumListenMs)
        else ac_durationMs command = 0)
     \<and> (if ac_kind command = ActionAdvertiseOnce
        then ac_advertScope command = ScopeNearby \<or> ac_advertScope command = ScopeMesh
        else ac_advertScope command = ScopeNone)
     \<and> (let targetBytes = unat (ac_messageTargetBytes command); textBytes = unat (ac_messageTextBytes command);
            target = \<lparr>sp_data = take targetBytes (ac_messageTarget command), sp_escaped = False\<rparr>;
            txt = take textBytes (ac_messageText command) in
        if ac_kind command \<noteq> ActionSendMessage
        then ac_messageRoute command = RouteNone \<and> ac_messageTargetBytes command = 0 \<and> ac_messageTextBytes command = 0
          \<and> ac_messageTarget command ! 0 = 0 \<and> ac_messageText command ! 0 = 0
        else \<not> (textBytes = 0 \<or> textBytes > kBleActionMessageTextBytes \<or> targetBytes = 0
            \<or> targetBytes > kBleActionMessageTargetBytes \<or> ac_messageTarget command ! targetBytes \<noteq> 0
            \<or> ac_messageText command ! textBytes \<noteq> 0 \<or> 0 \<in> set (sp_data target) \<or> 0 \<in> set txt
            \<or> \<not> validUtf8 (Some txt))
          \<and> (if ac_messageRoute command = RouteDirect then validDirectTarget target
             else ac_messageRoute command = RouteChannel \<and> validChannelTarget target))"

definition be32 :: "u32 \<Rightarrow> bytes" where
  "be32 v = [ucast (drop_bit 24 v), ucast (drop_bit 16 v), ucast (drop_bit 8 v), ucast v]"

definition command_domain :: bytes where
  "command_domain = ascii ''kitsu.ble-action.command.v1''"

text \<open>The updates of \<^verbatim>\<open>commandDigest\<close> in order.\<close>

definition command_parts :: "BleActionCommand \<Rightarrow> bytes list" where
  "command_parts command =
     [command_domain, [0], ac_actionId command, [ac_kind command], be32 (ac_expiresAtEpoch command),
      be32 (ac_durationMs command), [ac_messageRoute command], [ac_messageTargetBytes command],
      take (unat (ac_messageTargetBytes command)) (ac_messageTarget command),
      [0, ac_messageTextBytes command],
      take (unat (ac_messageTextBytes command)) (ac_messageText command)]
     @ (if ac_kind command = ActionAdvertiseOnce then [[ac_advertScope command]] else [])"

type_synonym sha_parts = "bytes list \<Rightarrow> bytes option"

definition commandDigest :: "sha_parts \<Rightarrow> BleActionCommand \<Rightarrow> bytes option" where
  "commandDigest sha command = (if \<not> validReplayCommand command then None else sha (command_parts command))"

subsection \<open>Decoded commands are valid\<close>

lemma parseUuid_ok: "parseUuid f c = (True, c') \<Longrightarrow> ac_actionIdValid c' \<and>
    c' = c\<lparr>ac_actionId := ac_actionId c', ac_actionIdText := ac_actionIdText c', ac_actionIdValid := True\<rparr>
    \<and> length (ac_actionId c') = 16"
  by (auto simp: parseUuid_def Let_def kBleActionUuidBytes_def split: option.splits if_splits prod.splits)

lemma parseKind_ok: "parseKind f = Some k \<Longrightarrow> bleActionKindAvailable k"
  by (auto simp: parseKind_def action_kinds_def bleActionKindAvailable_def split: option.splits if_splits)

lemma appendUtf8_bound: "appendUtf8 x cap w = Some w' \<Longrightarrow> length w' < cap"
  by (auto simp: appendUtf8_def Let_def scalar_bytes_def split: if_splits)

lemma decode_chars_bound:
  "decode_chars cap w r = Some w' \<Longrightarrow> length w < cap \<Longrightarrow> length w' < cap"
proof (induction "length r" arbitrary: w r rule: less_induct)
  case less
  have IH: "length w' < cap" if "decode_chars cap w2 y = Some w'" "length y < length r" "length w2 < cap" for w2 y
    using less(1) that by blast
  show ?case
    using less(2,3) by (cases r) (auto simp: Let_def split: if_splits list.splits option.splits
        dest: IH appendUtf8_bound)
qed

lemma decode_chars_plain: "decode_chars cap w r = Some w' \<Longrightarrow> cBackslash \<notin> set r \<Longrightarrow> w' = w @ r"
  by (induction cap w r rule: decode_chars.induct) (auto split: if_splits)

lemma utf8_encode_no_nul: "unicode_scalar cp \<Longrightarrow> 0 \<notin> set (utf8_encode cp)"
proof -
  assume cp: "unicode_scalar cp"
  have nz: "256 \<le> n \<or> n = 0" if "byte_of n = 0" for n using byte_of_nat [of n] that by force
  have "cp \<le> 0x10ffff" "0 < cp" using cp by (auto simp: unicode_scalar_def)
  then show ?thesis by (auto simp: utf8_encode_def dest!: nz)
qed

lemma utf8_no_nul: "utf8_scan bs \<Longrightarrow> 0 \<notin> set bs"
proof (induction bs rule: length_induct)
  case (1 bs)
  show ?case
  proof (cases bs)
    case (Cons c rest)
    obtain cp r' where f: "unicode_scalar cp" "bs = utf8_encode cp @ r'" "utf8_scan r'"
      using scan_first 1(2) Cons by blast
    moreover have "utf8_encode cp \<noteq> []" by (simp add: utf8_encode_def)
    ultimately have "length r' < length bs" by (cases "utf8_encode cp") auto
    then show ?thesis using 1(1) f utf8_encode_no_nul [OF f(1)] by auto
  qed simp
qed

lemma decodeString_ok:
  assumes "decodeString v cap = Some t"
  shows "length t < cap" "validUtf8 (Some t)" "0 \<notin> set t" "cBackslash \<notin> set (sp_data v) \<Longrightarrow> t = sp_data v"
proof -
  from assms have d: "cap \<noteq> 0" "decode_chars cap [] (sp_data v) = Some t" "validUtf8 (Some t)"
    by (auto simp: decodeString_def split: if_splits option.splits)
  show "length t < cap" using decode_chars_bound [OF d(2)] d(1) by simp
  show "validUtf8 (Some t)" by (rule d(3))
  show "0 \<notin> set t" using d(3) utf8_no_nul by (simp add: validUtf8_def)
  show "t = sp_data v" if "cBackslash \<notin> set (sp_data v)" using decode_chars_plain [OF d(2) that] by simp
qed

lemma char_array_ok:
  assumes "length t \<le> n" and "n < 256"
  shows "unat (word_of_nat (length t) :: u8) = length t" "take (length t) (char_array (n + 1) t) = t"
    "char_array (n + 1) t ! length t = 0"
  using assms by (auto simp: char_array_def unat_of_nat take_bit_nat_eq_self nth_append)

lemma target_no_backslash: "validDirectTarget v \<Longrightarrow> cBackslash \<notin> set (sp_data v)" "validChannelTarget v \<Longrightarrow> cBackslash \<notin> set (sp_data v)"
  by (auto simp: validDirectTarget_def validChannelTarget_def list_all_iff targetChar_def length_Suc_conv)

lemma target_plain: "validDirectTarget v \<Longrightarrow> v = \<lparr>sp_data = sp_data v, sp_escaped = False\<rparr>"
  "validChannelTarget v \<Longrightarrow> v = \<lparr>sp_data = sp_data v, sp_escaped = False\<rparr>"
  by (auto simp: validDirectTarget_def validChannelTarget_def)

text \<open>A command as it is before its parameters are read.\<close>

definition dated_command :: "BleActionCommand \<Rightarrow> bool" where
  "dated_command c \<longleftrightarrow> ac_actionIdValid c \<and> bleActionKindAvailable (ac_kind c)
     \<and> \<not> ac_expiresAtEpoch c < kBleActionMinimumTrustedEpoch \<and> \<not> ac_expiresAtEpoch c > kBleActionMaximumTrustedEpoch
     \<and> ac_durationMs c = 0 \<and> ac_advertScope c = ScopeNone \<and> ac_messageRoute c = RouteNone
     \<and> ac_messageTargetBytes c = 0 \<and> ac_messageTextBytes c = 0 \<and> ac_messageTarget c = replicate 44 0
     \<and> ac_messageText c = replicate 129 0"

lemma decode_message_valid:
  assumes "decode_message spans c = (DecodeOk, c')" and "dated_command c" and "ac_kind c = ActionSendMessage"
  shows "validReplayCommand c'"
proof -
  from assms(1) obtain route target tx where f: "findField spans ''route'' = Some route"
      "findField spans ''target_id'' = Some target" "findField spans ''text'' = Some tx"
    by (auto simp: decode_message_def split: option.splits)
  define direct where "direct = spanEquals (fd_value route) ''direct''"
  note run = assms(1) [unfolded decode_message_def f option.case prod.case Let_def, folded direct_def]
  from run obtain t m where tm: "decodeString (fd_value target) (kBleActionMessageTargetBytes + 1) = Some t"
      "decodeString (fd_value tx) (kBleActionMessageTextBytes + 1) = Some m" "m \<noteq> []"
    and v: "if direct then validDirectTarget (fd_value target) else validChannelTarget (fd_value target)"
    and c': "c' = c\<lparr>ac_messageRoute := if direct then RouteDirect else RouteChannel,
       ac_messageTarget := char_array (kBleActionMessageTargetBytes + 1) t, ac_messageTargetBytes := word_of_nat (length t),
       ac_messageText := char_array (kBleActionMessageTextBytes + 1) m, ac_messageTextBytes := word_of_nat (length m)\<rparr>"
    by (auto split: if_splits option.splits)
  note t = decodeString_ok [OF tm(1)] and m = decodeString_ok [OF tm(2)]
  have tv: "t = sp_data (fd_value target)" using t(4) v target_no_backslash by (metis (full_types))
  have span: "fd_value target = \<lparr>sp_data = t, sp_escaped = False\<rparr>" using v target_plain tv by (metis (full_types))
  have tl: "length t \<noteq> 0" using v tv by (auto simp: validDirectTarget_def validChannelTarget_def kBleActionMessageTargetBytes_def split: if_splits)
  have lt: "length t \<le> 43" "length m \<le> 128" using t(1) m(1) by (simp_all add: action_consts)
  note at = char_array_ok [OF lt(1), simplified] and am = char_array_ok [OF lt(2), simplified]
  show ?thesis
    using assms(2,3) v lt tl tm(3) t(3) m(2,3)
    unfolding validReplayCommand_def c' dated_command_def span Let_def
    by (simp add: action_consts at am split: if_splits)
qed

text \<open>
  Every command the decoder accepts is one the replay ledger can bind: its identifier is
  complete, its kind available, its expiry in the trusted range, its parameters present exactly
  for its kind and within their limits, the message text UTF-8 without NUL and the target in its
  one canonical spelling.  So no accepted command is later refused for lack of a digest, unless
  the hash itself fails.
\<close>

lemma decoded_command_valid:
  assumes "decodeBleActionCommand json = (DecodeOk, c)"
  shows "validReplayCommand c \<and> commandDigest sha c = sha (command_parts c)"
proof -
  from assms obtain spans where p: "parseObject json kMaximumOuterFields = Inr spans"
    by (auto simp: decodeBleActionCommand_def split: if_splits sum.splits ParseResult.splits)
  note run = assms [unfolded decodeBleActionCommand_def p sum.case]
  from run obtain c1 where u: "parseUuid (findField spans ''action_id'') command0 = (True, c1)"
    by (auto split: if_splits bool.splits prod.splits)
  note run = run [unfolded u prod.case bool.case]
  from run obtain k e where k: "parseKind (findField spans ''kind'') = Some k"
      and e: "parseUint32 (findField spans ''expires_at_epoch'') = Some e"
    by (auto split: if_splits option.splits)
  define d where "d = c1\<lparr>ac_kind := k, ac_expiresAtEpoch := e\<rparr>"
  note run = run [unfolded k e option.case Let_def, folded d_def]
  from run have r: "decodeParams (findField spans ''params'') d = (DecodeOk, c)"
      "\<not> (e < kBleActionMinimumTrustedEpoch \<or> e > kBleActionMaximumTrustedEpoch)" by (auto split: if_splits)
  have dated: "dated_command d"
  proof -
    note uu = parseUuid_ok [OF u]
    have "ac_durationMs c1 = 0" "ac_advertScope c1 = 0" "ac_messageRoute c1 = 0" "ac_messageTargetBytes c1 = 0"
      "ac_messageTextBytes c1 = 0" "ac_messageTarget c1 = replicate 44 0" "ac_messageText c1 = replicate 129 0"
      by (subst conjunct1 [OF conjunct2 [OF uu]], simp add: command0_def)+
    then show ?thesis using uu r(2) parseKind_ok [OF k] by (simp add: dated_command_def d_def)
  qed
  have "validReplayCommand c"
  proof (cases "ac_kind d = ActionSendMessage")
    case True
    then show ?thesis
      using r(1) decode_message_valid [OF _ dated True]
      by (auto simp: decodeParams_def split: option.splits if_splits sum.splits ParseResult.splits)
  next
    case False
    then show ?thesis
      using r(1) dated
      by (auto simp: decodeParams_def decode_listen_def decode_advertise_def validReplayCommand_def dated_command_def
          Let_def bleActionKindAvailable_def split: option.splits if_splits sum.splits ParseResult.splits)
  qed
  then show ?thesis by (simp add: commandDigest_def)
qed

text \<open>The body of a pet command.\<close>

definition demo_body :: bytes where
  "demo_body = ascii ''{\"action_id\":\"00112233-4455-6677-8899-aabbccddeeff\",\"kind\":\"pet\",\"expires_at_epoch\":1800000000,\"params\":{}}''"

lemma demo_body_decodes: "fst (decodeBleActionCommand (Some demo_body)) = DecodeOk"
  by code_simp

lemma decoded_command_valid_witness:
  "validReplayCommand (snd (decodeBleActionCommand (Some demo_body)))"
proof -
  have "decodeBleActionCommand (Some demo_body) = (DecodeOk, snd (decodeBleActionCommand (Some demo_body)))"
    using demo_body_decodes by (metis prod.collapse)
  from decoded_command_valid [OF this] show ?thesis by blast
qed

end
