(* ===== verification/Ble_Replay.thy ===== *)
theory Ble_Replay
  imports Ble_Action
begin

unbundle bit_operations_syntax

text \<open>
  The at-most-once ledger \<^verbatim>\<open>BleActionReplayCache\<close> of \<^verbatim>\<open>src/src/kitsu_ble_action.cpp\<close>: eight
  records (identifier, command digest, expiry, outcome) in a packed, CRC protected blob that is
  stored as a whole.  The object is modelled as the blob; \<^verbatim>\<open>serialized\<close> and \<^verbatim>\<open>load\<close> go through
  its byte image (436 bytes, little-endian target).

  Shown here: every operation keeps the blob valid, a saved blob loads back unchanged, and what
  \<^verbatim>\<open>inspect\<close>, \<^verbatim>\<open>remember\<close> and \<^verbatim>\<open>markApplied\<close> do to the records.
\<close>

definition kReplayMagic :: u32 where "kReplayMagic = 0x3341524b"
definition kReplayPending :: u8 where "kReplayPending = 1"
definition kReplayApplied :: u8 where "kReplayApplied = 2"
definition kReplayBlobBytes :: nat where "kReplayBlobBytes = 436"

record ReplayRecord =
  rr_actionId :: bytes
  rr_digest :: bytes
  rr_expires :: u32
  rr_outcome :: u8

record ReplayBlob =
  rb_magic :: u32
  rb_bytes :: u16
  rb_count :: u8
  rb_reserved :: u8
  rb_records :: "ReplayRecord list"
  rb_crc32 :: u32

datatype BleActionReplayDecision = Fresh | DuplicateApplied | DuplicateIndeterminate | ReplayConflict
  | Expired | TimeUnavailable | ReplayInvalidExpiry

subsection \<open>The byte image\<close>

definition crc_step :: "u32 \<Rightarrow> u32" where
  "crc_step crc = drop_bit 1 crc XOR (0xedb88320 AND (- (crc AND 1)))"

definition replay_crc32 :: "bytes \<Rightarrow> u32" where
  "replay_crc32 input = NOT (foldl (\<lambda>crc b. (crc_step ^^ 8) (crc XOR ucast b)) 0xffffffff input)"

definition allZero :: "bytes \<Rightarrow> bool" where
  "allZero input \<longleftrightarrow> foldl (OR) 0 input = 0"

definition record_image :: "ReplayRecord \<Rightarrow> bytes" where
  "record_image r = rr_actionId r @ rr_digest r @ le_bytes 4 (rr_expires r) @ [rr_outcome r]"

definition blob_body :: "ReplayBlob \<Rightarrow> bytes" where
  "blob_body b = le_bytes 4 (rb_magic b) @ le_bytes 2 (rb_bytes b) @ [rb_count b, rb_reserved b]
     @ concat (map record_image (rb_records b))"

definition rc_serialized :: "ReplayBlob \<Rightarrow> bytes" where
  "rc_serialized b = blob_body b @ le_bytes 4 (rb_crc32 b)"

definition le_word :: "bytes \<Rightarrow> 'a :: len word" where
  "le_word bs = foldr (\<lambda>b acc. ucast b OR push_bit 8 acc) bs 0"

definition record_of_bytes :: "bytes \<Rightarrow> ReplayRecord" where
  "record_of_bytes bs = \<lparr>rr_actionId = take 16 bs, rr_digest = take 32 (drop 16 bs),
     rr_expires = le_word (take 4 (drop 48 bs)), rr_outcome = bs ! 52\<rparr>"

fun records_of_bytes :: "nat \<Rightarrow> bytes \<Rightarrow> ReplayRecord list" where
  "records_of_bytes 0 bs = []"
| "records_of_bytes (Suc n) bs = record_of_bytes (take 53 bs) # records_of_bytes n (drop 53 bs)"

definition blob_of_bytes :: "bytes \<Rightarrow> ReplayBlob" where
  "blob_of_bytes bs = \<lparr>rb_magic = le_word (take 4 bs), rb_bytes = le_word (take 2 (drop 4 bs)),
     rb_count = bs ! 6, rb_reserved = bs ! 7, rb_records = records_of_bytes 8 (take 424 (drop 8 bs)),
     rb_crc32 = le_word (take 4 (drop 432 bs))\<rparr>"

subsection \<open>The operations\<close>

definition record0 :: ReplayRecord where
  "record0 = \<lparr>rr_actionId = replicate 16 0, rr_digest = replicate 32 0, rr_expires = 0, rr_outcome = 0\<rparr>"

definition rc_seal :: "ReplayBlob \<Rightarrow> ReplayBlob" where
  "rc_seal b = b\<lparr>rb_crc32 := replay_crc32 (blob_body b)\<rparr>"

definition rc_reset :: ReplayBlob where
  "rc_reset = rc_seal \<lparr>rb_magic = kReplayMagic, rb_bytes = word_of_nat kReplayBlobBytes, rb_count = 0, rb_reserved = 0,
     rb_records = replicate kBleActionReplayCapacity record0, rb_crc32 = 0\<rparr>"

text \<open>The records the loops run over.\<close>

definition occupied :: "ReplayBlob \<Rightarrow> ReplayRecord list" where
  "occupied b = take (unat (rb_count b)) (rb_records b)"

definition occupiedRecordValid :: "ReplayRecord \<Rightarrow> bool" where
  "occupiedRecordValid r \<longleftrightarrow> (rr_outcome r = kReplayPending \<or> rr_outcome r = kReplayApplied)
     \<and> rr_expires r \<ge> kBleActionMinimumTrustedEpoch \<and> rr_expires r \<le> kBleActionMaximumTrustedEpoch"

definition rc_valid :: "ReplayBlob \<Rightarrow> bool" where
  "rc_valid b \<longleftrightarrow> rb_magic b = kReplayMagic \<and> rb_bytes b = word_of_nat kReplayBlobBytes
     \<and> unat (rb_count b) \<le> kBleActionReplayCapacity \<and> rb_reserved b = 0
     \<and> rb_crc32 b = replay_crc32 (blob_body b)
     \<and> list_all (\<lambda>i. if i < unat (rb_count b)
          then occupiedRecordValid (rb_records b ! i)
            \<and> list_all (\<lambda>earlier. rr_actionId (rb_records b ! earlier) \<noteq> rr_actionId (rb_records b ! i)) [0 ..< i]
          else allZero (record_image (rb_records b ! i))) [0 ..< kBleActionReplayCapacity]"

definition rc_load :: "bytes option \<Rightarrow> bool \<times> ReplayBlob" where
  "rc_load bs = (if bs = None \<or> length (the bs) \<noteq> kReplayBlobBytes then (False, rc_reset)
     else let candidate = blob_of_bytes (the bs) in
       if rc_valid candidate then (True, candidate) else (False, rc_reset))"

fun inspect_scan :: "bytes \<Rightarrow> bytes \<Rightarrow> u32 \<Rightarrow> ReplayRecord list \<Rightarrow> BleActionReplayDecision" where
  "inspect_scan aid digest now [] = Fresh"
| "inspect_scan aid digest now (r # rs) =
     (if rr_actionId r \<noteq> aid then inspect_scan aid digest now rs
      else if rr_digest r = digest
      then (if rr_outcome r = kReplayApplied then DuplicateApplied else DuplicateIndeterminate)
      else if rr_expires r \<le> now then Fresh else ReplayConflict)"

definition rc_inspect :: "sha_parts \<Rightarrow> ReplayBlob \<Rightarrow> BleActionCommand \<Rightarrow> u32 \<Rightarrow> BleActionReplayDecision" where
  "rc_inspect sha b command now =
     (case commandDigest sha command of None \<Rightarrow> ReplayConflict
      | Some digest \<Rightarrow>
        if now < kBleActionMinimumTrustedEpoch \<or> now > kBleActionMaximumTrustedEpoch then TimeUnavailable
        else if ac_expiresAtEpoch command \<le> now then Expired
        else if ac_expiresAtEpoch command - now > kBleActionMaximumExpirySeconds then ReplayInvalidExpiry
        else inspect_scan (ac_actionId command) digest now (occupied b))"

text \<open>The loop of \<^verbatim>\<open>remember\<close> that looks for a slot: the first expired record, or the expired
  record of the same identifier.\<close>

fun slot_scan :: "bytes \<Rightarrow> u32 \<Rightarrow> nat option \<Rightarrow> nat \<Rightarrow> ReplayRecord list \<Rightarrow> nat option" where
  "slot_scan aid now slot i [] = slot"
| "slot_scan aid now slot i (r # rs) =
     (if rr_expires r \<le> now
      then if rr_actionId r = aid then Some i
        else slot_scan aid now (if slot = None then Some i else slot) (i + 1) rs
      else slot_scan aid now slot (i + 1) rs)"

definition reserved_record :: "BleActionCommand \<Rightarrow> bytes \<Rightarrow> ReplayRecord" where
  "reserved_record command digest = \<lparr>rr_actionId = ac_actionId command, rr_digest = digest,
     rr_expires = ac_expiresAtEpoch command, rr_outcome = kReplayPending\<rparr>"

definition rc_remember :: "sha_parts \<Rightarrow> BleActionCommand \<Rightarrow> u32 \<Rightarrow> ReplayBlob \<Rightarrow> bool \<times> ReplayBlob" where
  "rc_remember sha command now b =
     (let decision = rc_inspect sha b command now in
      if decision = DuplicateApplied \<or> decision = DuplicateIndeterminate then (True, b)
      else if decision \<noteq> Fresh then (False, b)
      else let found = slot_scan (ac_actionId command) now None 0 (occupied b) in
        if found = None \<and> unat (rb_count b) \<ge> kBleActionReplayCapacity then (False, b)
        else let slot = (case found of Some i \<Rightarrow> i | None \<Rightarrow> unat (rb_count b));
                 grown = (if found = None then b\<lparr>rb_count := rb_count b + 1\<rparr> else b) in
          case commandDigest sha command of None \<Rightarrow> (False, grown)
          | Some digest \<Rightarrow>
            (True, rc_seal (grown\<lparr>rb_records := (rb_records b)[slot := reserved_record command digest]\<rparr>)))"

text \<open>The index of the first occupied record with an identifier.\<close>

definition record_index :: "bytes \<Rightarrow> ReplayBlob \<Rightarrow> nat option" where
  "record_index aid b = find (\<lambda>i. rr_actionId (rb_records b ! i) = aid) [0 ..< unat (rb_count b)]"

definition rc_markApplied :: "sha_parts \<Rightarrow> BleActionCommand \<Rightarrow> ReplayBlob \<Rightarrow> bool \<times> ReplayBlob" where
  "rc_markApplied sha command b =
     (case commandDigest sha command of None \<Rightarrow> (False, b)
      | Some digest \<Rightarrow>
        (case record_index (ac_actionId command) b of None \<Rightarrow> (False, b)
         | Some i \<Rightarrow>
           if rr_digest (rb_records b ! i) \<noteq> digest then (False, b)
           else (True, rc_seal (b\<lparr>rb_records := (rb_records b)
             [i := (rb_records b ! i)\<lparr>rr_outcome := kReplayApplied\<rparr>]\<rparr>))))"

subsection \<open>Saving and loading\<close>

lemma bit_le_word:
  "bit (le_word bs :: 'a :: len word) k \<longleftrightarrow> k < LENGTH('a) \<and> k < 8 * length bs \<and> bit (bs ! (k div 8)) (k mod 8)"
proof (induction bs arbitrary: k)
  case Nil
  then show ?case by (simp add: le_word_def)
next
  case (Cons b bs)
  have "le_word (b # bs) = (ucast b OR push_bit 8 (le_word bs) :: 'a word)" by (simp add: le_word_def)
  moreover have "bit b k \<longleftrightarrow> bit b k \<and> k < 8" using bit_imp_le_length [of b k] by auto
  moreover have "k div 8 = Suc ((k - 8) div 8)" "k mod 8 = (k - 8) mod 8" if "8 \<le> k"
    using that by (simp_all add: le_div_geq le_mod_geq)
  ultimately show ?case
    by (cases "k < 8") (auto simp: Cons.IH bit_simps)
qed

lemma le_word_bytes: "LENGTH('a) \<le> 8 * n \<Longrightarrow> le_word (le_bytes n (w :: 'a :: len word)) = w"
  by (rule bit_word_eqI) (auto simp: bit_le_word le_bytes_def bit_simps less_mult_imp_div_less mult.commute)

text \<open>The arrays of the packed structures have their declared lengths.\<close>

definition record_shaped :: "ReplayRecord \<Rightarrow> bool" where
  "record_shaped r \<longleftrightarrow> length (rr_actionId r) = 16 \<and> length (rr_digest r) = 32"

definition rc_shaped :: "ReplayBlob \<Rightarrow> bool" where
  "rc_shaped b \<longleftrightarrow> length (rb_records b) = 8 \<and> list_all record_shaped (rb_records b)"

text \<open>The class invariant.\<close>

definition rc_wf :: "ReplayBlob \<Rightarrow> bool" where
  "rc_wf b \<longleftrightarrow> rc_shaped b \<and> rc_valid b"

lemma length_record_image [simp]: "record_shaped r \<Longrightarrow> length (record_image r) = 53"
  by (simp add: record_image_def record_shaped_def)

lemma record_of_image: "record_shaped r \<Longrightarrow> record_of_bytes (record_image r) = r"
  by (simp add: record_of_bytes_def record_image_def record_shaped_def le_word_bytes nth_append)

lemma length_images: "list_all record_shaped rs \<Longrightarrow> length (concat (map record_image rs)) = 53 * length rs"
  by (induction rs) auto

lemma records_of_images:
  "list_all record_shaped rs \<Longrightarrow> records_of_bytes (length rs) (concat (map record_image rs)) = rs"
  by (induction rs) (auto simp: record_of_image)

lemma length_serialized [simp]: "rc_shaped b \<Longrightarrow> length (rc_serialized b) = kReplayBlobBytes"
  by (simp add: rc_serialized_def blob_body_def rc_shaped_def length_images kReplayBlobBytes_def)

lemma blob_of_serialized: "rc_shaped b \<Longrightarrow> blob_of_bytes (rc_serialized b) = b"
proof -
  assume b: "rc_shaped b"
  define m n k where "m = le_bytes 4 (rb_magic b)" and "n = le_bytes 2 (rb_bytes b)" and "k = le_bytes 4 (rb_crc32 b)"
  define rs where "rs = concat (map record_image (rb_records b))"
  have len: "length m = 4" "length n = 2" "length k = 4" "length rs = 424"
    using b by (simp_all add: m_def n_def k_def rs_def rc_shaped_def length_images)
  have "le_word m = rb_magic b" "le_word n = rb_bytes b" "le_word k = rb_crc32 b"
    by (simp_all add: m_def n_def k_def le_word_bytes)
  moreover have "records_of_bytes 8 rs = rb_records b"
    using b records_of_images [of "rb_records b"] by (simp add: rs_def rc_shaped_def)
  moreover have "rc_serialized b = m @ n @ [rb_count b, rb_reserved b] @ rs @ k"
    by (simp add: rc_serialized_def blob_body_def m_def n_def k_def rs_def)
  ultimately show ?thesis
    by (simp add: blob_of_bytes_def len nth_append)
qed

lemma load_serialized: "rc_wf b \<Longrightarrow> rc_load (Some (rc_serialized b)) = (True, b)"
  by (simp add: rc_load_def blob_of_serialized rc_wf_def)

lemma blob_of_bytes_shaped: "length bs = kReplayBlobBytes \<Longrightarrow> rc_shaped (blob_of_bytes bs)"
proof -
  have "length bs = 53 * n \<Longrightarrow> length (records_of_bytes n bs) = n \<and> list_all record_shaped (records_of_bytes n bs)" for n bs
    by (induction n arbitrary: bs) (auto simp: record_of_bytes_def record_shaped_def)
  from this [of "take 424 (drop 8 bs)" 8] show "length bs = kReplayBlobBytes \<Longrightarrow> ?thesis"
    by (simp add: rc_shaped_def blob_of_bytes_def kReplayBlobBytes_def)
qed

subsection \<open>The invariant\<close>

text \<open>The scan of \<^verbatim>\<open>valid\<close> in terms of the records.\<close>

definition records_ok :: "nat \<Rightarrow> ReplayRecord list \<Rightarrow> bool" where
  "records_ok n rs \<longleftrightarrow> (\<forall>i < n. occupiedRecordValid (rs ! i) \<and> (\<forall>j < i. rr_actionId (rs ! j) \<noteq> rr_actionId (rs ! i)))
     \<and> (\<forall>i. n \<le> i \<and> i < 8 \<longrightarrow> allZero (record_image (rs ! i)))"

lemma rc_valid_iff:
  "rc_valid b \<longleftrightarrow> rb_magic b = kReplayMagic \<and> rb_bytes b = word_of_nat kReplayBlobBytes \<and> unat (rb_count b) \<le> 8
     \<and> rb_reserved b = 0 \<and> rb_crc32 b = replay_crc32 (blob_body b) \<and> records_ok (unat (rb_count b)) (rb_records b)"
  by (auto simp: rc_valid_def records_ok_def list_all_iff kBleActionReplayCapacity_def)

lemma seal_simps [simp]: "rb_magic (rc_seal b) = rb_magic b" "rb_bytes (rc_seal b) = rb_bytes b"
  "rb_count (rc_seal b) = rb_count b" "rb_reserved (rc_seal b) = rb_reserved b" "rb_records (rc_seal b) = rb_records b"
  "rb_crc32 (rc_seal b) = replay_crc32 (blob_body (rc_seal b))" "occupied (rc_seal b) = occupied b"
  by (simp_all add: rc_seal_def blob_body_def occupied_def)

lemma seal_wf:
  assumes "rb_magic b = kReplayMagic" "rb_bytes b = word_of_nat kReplayBlobBytes" "unat (rb_count b) \<le> 8" "rb_reserved b = 0"
    "records_ok (unat (rb_count b)) (rb_records b)" "rc_shaped b"
  shows "rc_wf (rc_seal b)"
  using assms by (simp add: rc_wf_def rc_valid_iff rc_shaped_def)

lemma allZero_record0: "allZero (record_image record0)"
  by code_simp

lemma reset_wf: "rc_wf rc_reset"
  unfolding rc_reset_def
  by (rule seal_wf) (simp_all add: records_ok_def rc_shaped_def kBleActionReplayCapacity_def list_all_iff allZero_record0,
    simp add: record_shaped_def record0_def)

lemma load_wf: "rc_wf (snd (rc_load bs))"
  using blob_of_bytes_shaped [of "the bs"] reset_wf by (auto simp: rc_load_def Let_def rc_wf_def)

lemma load_fails: "\<not> fst (rc_load bs) \<Longrightarrow> snd (rc_load bs) = rc_reset"
  by (auto simp: rc_load_def Let_def split: if_splits)

subsection \<open>Inspecting and reserving\<close>

lemma occupied_nth: "rc_wf b \<Longrightarrow> length (occupied b) = unat (rb_count b) \<and> (\<forall>i < unat (rb_count b). occupied b ! i = rb_records b ! i)"
  by (simp add: occupied_def rc_wf_def rc_shaped_def rc_valid_iff)

lemma in_occupied: "rc_wf b \<Longrightarrow> r \<in> set (occupied b) \<longleftrightarrow> (\<exists>i < unat (rb_count b). r = rb_records b ! i)"
  using occupied_nth [of b] by (auto simp: in_set_conv_nth)

lemma wf_ids_unique:
  "rc_wf b \<Longrightarrow> i < unat (rb_count b) \<Longrightarrow> j < unat (rb_count b) \<Longrightarrow> rr_actionId (rb_records b ! i) = rr_actionId (rb_records b ! j) \<Longrightarrow> i = j"
  by (metis linorder_neqE_nat rc_valid_iff rc_wf_def records_ok_def)

lemma scan_decides:
  "inspect_scan aid d now rs = Fresh \<Longrightarrow> (\<And>r. r \<in> set rs \<Longrightarrow> rr_actionId r = aid \<Longrightarrow> r = x) \<Longrightarrow>
     r \<in> set rs \<Longrightarrow> rr_actionId r = aid \<Longrightarrow> rr_expires r \<le> now"
  by (induction rs) (auto split: if_splits)

lemma inspect_fresh:
  assumes "rc_inspect sha b c now = Fresh" "rc_wf b"
  shows "kBleActionMinimumTrustedEpoch \<le> now" "now < ac_expiresAtEpoch c"
    "ac_expiresAtEpoch c - now \<le> kBleActionMaximumExpirySeconds" "\<exists>d. commandDigest sha c = Some d"
    "r \<in> set (occupied b) \<Longrightarrow> rr_actionId r = ac_actionId c \<Longrightarrow> rr_expires r \<le> now"
proof -
  from assms(1) show "kBleActionMinimumTrustedEpoch \<le> now" "now < ac_expiresAtEpoch c"
    "ac_expiresAtEpoch c - now \<le> kBleActionMaximumExpirySeconds" "\<exists>d. commandDigest sha c = Some d"
    by (auto simp: rc_inspect_def not_less split: option.splits if_splits)
  assume r: "r \<in> set (occupied b)" "rr_actionId r = ac_actionId c"
  from assms(1) obtain d where "inspect_scan (ac_actionId c) d now (occupied b) = Fresh"
    by (auto simp: rc_inspect_def split: option.splits if_splits)
  moreover have "s = r" if "s \<in> set (occupied b)" "rr_actionId s = ac_actionId c" for s
    using that r in_occupied [OF assms(2)] wf_ids_unique [OF assms(2)] by metis
  ultimately show "rr_expires r \<le> now" using r scan_decides [where x = r] by blast
qed

lemma slot_scan_some:
  "slot_scan aid now s i rs = Some k \<Longrightarrow>
     (s = Some k \<or> (i \<le> k \<and> k < i + length rs \<and> rr_expires (rs ! (k - i)) \<le> now))
     \<and> ((\<forall>r \<in> set rs. rr_actionId r = aid \<longrightarrow> rr_expires r \<le> now) \<longrightarrow> (\<exists>r \<in> set rs. rr_actionId r = aid) \<longrightarrow>
          i \<le> k \<and> k < i + length rs \<and> rr_actionId (rs ! (k - i)) = aid)"
proof (induction rs arbitrary: s i)
  case Nil
  then show ?case by simp
next
  case (Cons r rs)
  show ?case
  proof (cases "rr_expires r \<le> now \<and> rr_actionId r = aid")
    case True
    with Cons.prems show ?thesis by auto
  next
    case False
    define s' where "s' = (if rr_expires r \<le> now \<and> s = None then Some i else s)"
    from Cons.prems False have "slot_scan aid now s' (i + 1) rs = Some k" by (auto simp: s'_def split: if_splits)
    from Cons.IH [OF this] False show ?thesis
      by (auto simp: s'_def nth_Cons' split: if_splits)
  qed
qed

lemma slot_scan_none: "slot_scan aid now s i rs = None \<Longrightarrow> s = None \<and> (\<forall>r \<in> set rs. now < rr_expires r)"
proof (induction rs arbitrary: s i)
  case Nil
  then show ?case by simp
next
  case (Cons r rs)
  show ?case
  proof (cases "rr_expires r \<le> now")
    case True
    with Cons.prems have "rr_actionId r \<noteq> aid" by auto
    with Cons.prems True have "slot_scan aid now (if s = None then Some i else s) (i + 1) rs = None" by simp
    from Cons.IH [OF this] show ?thesis by (simp split: if_splits)
  next
    case False
    with Cons.prems have "slot_scan aid now s (i + 1) rs = None" by simp
    from Cons.IH [OF this] False show ?thesis by simp
  qed
qed

text \<open>What a reservation does to the records: the slot it takes is a free one or that of an expired
  record, and no other occupied record has the identifier.\<close>

lemma remember_slot:
  assumes wf: "rc_wf b" and fresh: "rc_inspect sha b c now = Fresh" and ok: "rc_remember sha c now b = (True, b')"
  obtains d slot m where "commandDigest sha c = Some d"
    "b' = rc_seal (b\<lparr>rb_count := m, rb_records := (rb_records b)[slot := reserved_record c d]\<rparr>)"
    "slot < unat m" "unat m \<le> 8"
    "(m = rb_count b \<and> rr_expires (rb_records b ! slot) \<le> now) \<or> (unat m = unat (rb_count b) + 1 \<and> slot = unat (rb_count b))"
    "\<forall>j < unat (rb_count b). j \<noteq> slot \<longrightarrow> rr_actionId (rb_records b ! j) \<noteq> ac_actionId c"
proof -
  let ?n = "unat (rb_count b)"
  define found where "found = slot_scan (ac_actionId c) now None 0 (occupied b)"
  define slot where "slot = (case found of Some i \<Rightarrow> i | None \<Rightarrow> ?n)"
  define m where "m = (if found = None then rb_count b + 1 else rb_count b)"
  from ok fresh have room: "found = None \<Longrightarrow> ?n < 8"
    by (auto simp: rc_remember_def Let_def found_def kBleActionReplayCapacity_def split: if_splits)
  from ok fresh obtain d where d: "commandDigest sha c = Some d"
    and b': "b' = rc_seal (b\<lparr>rb_count := m, rb_records := (rb_records b)[slot := reserved_record c d]\<rparr>)"
    by (auto simp: rc_remember_def Let_def found_def [symmetric] slot_def m_def split: if_splits option.splits)
  have n: "?n \<le> 8" using wf by (simp add: rc_wf_def rc_valid_iff)
  note occ = occupied_nth [OF wf] in_occupied [OF wf]
  have m: "found = None \<Longrightarrow> unat m = ?n + 1"
    using room by (auto simp: m_def unat_word_ariths)
  have live: "\<forall>r \<in> set (occupied b). rr_actionId r = ac_actionId c \<longrightarrow> rr_expires r \<le> now"
    using inspect_fresh(5) [OF fresh wf] by blast
  show thesis
  proof (cases found)
    case None
    from slot_scan_none [OF None [unfolded found_def]] live
    have "\<forall>r \<in> set (occupied b). rr_actionId r \<noteq> ac_actionId c" by fastforce
    then have "\<And>j. j < ?n \<Longrightarrow> rr_actionId (rb_records b ! j) \<noteq> ac_actionId c" using occ(2) by blast
    with None room m show thesis by (intro that [OF d b']) (auto simp: slot_def)
  next
    case (Some k)
    from slot_scan_some [OF Some [unfolded found_def]] occ
    have k: "k < ?n" "rr_expires (rb_records b ! k) \<le> now" by auto
    have own: "rr_actionId (rb_records b ! k) = ac_actionId c"
      if "j < ?n" "rr_actionId (rb_records b ! j) = ac_actionId c" for j
    proof -
      have "\<exists>r \<in> set (occupied b). rr_actionId r = ac_actionId c" using that occ by auto
      with slot_scan_some [OF Some [unfolded found_def]] live occ k show ?thesis by auto
    qed
    have others: "rr_actionId (rb_records b ! j) \<noteq> ac_actionId c" if "j < ?n" "j \<noteq> k" for j
      using own wf_ids_unique [OF wf that(1) k(1)] that by metis
    have sk: "slot = k" "m = rb_count b" by (simp_all add: slot_def m_def Some)
    show thesis
      by (rule that [OF d b']) (use k n others in \<open>simp_all add: sk\<close>)
  qed
qed

text \<open>The ledger holds a record that keeps an identifier from being accepted before a time.\<close>

definition rc_protects :: "ReplayBlob \<Rightarrow> bytes \<Rightarrow> u32 \<Rightarrow> bool" where
  "rc_protects b aid e \<longleftrightarrow> (\<exists>r \<in> set (occupied b). rr_actionId r = aid \<and> rr_expires r = e)"

lemma protects_iff:
  "rc_wf b \<Longrightarrow> rc_protects b aid e \<longleftrightarrow>
     (\<exists>i < unat (rb_count b). rr_actionId (rb_records b ! i) = aid \<and> rr_expires (rb_records b ! i) = e)"
  using in_occupied [of b] by (auto simp: rc_protects_def)

lemma digest_valid: "commandDigest sha c = Some d \<Longrightarrow> validReplayCommand c \<and> sha (command_parts c) = Some d"
  by (simp add: commandDigest_def split: if_splits)

lemma reserved_record_ok:
  "commandDigest sha c = Some d \<Longrightarrow> occupiedRecordValid (reserved_record c d)"
  using digest_valid [of sha c d] by (auto simp: occupiedRecordValid_def reserved_record_def validReplayCommand_def)

lemma records_ok_sym:
  "records_ok n rs \<longleftrightarrow> (\<forall>i < n. occupiedRecordValid (rs ! i)) \<and> (\<forall>i < n. \<forall>j < n. i \<noteq> j \<longrightarrow> rr_actionId (rs ! i) \<noteq> rr_actionId (rs ! j))
     \<and> (\<forall>i. n \<le> i \<and> i < 8 \<longrightarrow> allZero (record_image (rs ! i)))"
proof -
  have "rr_actionId (rs ! i) \<noteq> rr_actionId (rs ! j)"
    if "\<forall>i < n. \<forall>j < i. rr_actionId (rs ! j) \<noteq> rr_actionId (rs ! i)" "i < n" "j < n" "i \<noteq> j" for i j
    using that by (cases "i < j") (simp, metis nat_neq_iff)
  moreover have "rr_actionId (rs ! j) \<noteq> rr_actionId (rs ! i)"
    if "\<forall>i < n. \<forall>j < n. i \<noteq> j \<longrightarrow> rr_actionId (rs ! i) \<noteq> rr_actionId (rs ! j)" "i < n" "j < i" for i j
    using that(1) [rule_format, of j i] that(2,3) by simp
  ultimately have "(\<forall>i < n. \<forall>j < i. rr_actionId (rs ! j) \<noteq> rr_actionId (rs ! i)) \<longleftrightarrow>
    (\<forall>i < n. \<forall>j < n. i \<noteq> j \<longrightarrow> rr_actionId (rs ! i) \<noteq> rr_actionId (rs ! j))" by blast
  then show ?thesis unfolding records_ok_def by blast
qed

lemma records_ok_update:
  assumes old: "records_ok n rs" "length rs = 8" and slot: "slot < m" "m \<le> 8" "m = n \<or> (m = n + 1 \<and> slot = n)"
    and r: "occupiedRecordValid r" "\<forall>j < n. j \<noteq> slot \<longrightarrow> rr_actionId (rs ! j) \<noteq> rr_actionId r"
  shows "records_ok m (rs[slot := r])"
proof -
  have small: "i < n" if "i < m" "i \<noteq> slot" for i using slot that by auto
  have "occupiedRecordValid (rs[slot := r] ! i)" if "i < m" for i
    using old r(1) slot small [OF that] by (cases "i = slot") (auto simp: records_ok_sym)
  moreover have "rr_actionId (rs[slot := r] ! i) \<noteq> rr_actionId (rs[slot := r] ! j)" if "i < m" "j < m" "i \<noteq> j" for i j
    using old r(2) slot small [OF that(1)] small [OF that(2)] that
    by (cases "i = slot"; cases "j = slot") (auto simp: records_ok_sym dest: sym)
  moreover have "allZero (record_image (rs[slot := r] ! i))" if "m \<le> i" "i < 8" for i
    using old slot that by (auto simp: records_ok_sym)
  ultimately show ?thesis by (auto simp: records_ok_sym)
qed

text \<open>The digest function returns 32 bytes.\<close>

definition sha_sized :: "sha_parts \<Rightarrow> bool" where
  "sha_sized sha \<longleftrightarrow> (\<forall>p d. sha p = Some d \<longrightarrow> length d = 32)"

lemma shaped_update: "rc_shaped b \<Longrightarrow> record_shaped r \<Longrightarrow> rc_shaped (b\<lparr>rb_count := m, rb_records := (rb_records b)[i := r]\<rparr>)"
  by (auto simp: rc_shaped_def list_all_iff dest: set_update_subset_insert [THEN subsetD])

lemma remember_spec:
  assumes wf: "rc_wf b" and fresh: "rc_inspect sha b c now = Fresh" and ok: "rc_remember sha c now b = (True, b')"
    and sized: "sha_sized sha" "length (ac_actionId c) = 16"
  shows "rc_wf b'" "rc_protects b' (ac_actionId c) (ac_expiresAtEpoch c)"
    "rc_protects b aid e \<Longrightarrow> now < e \<Longrightarrow> rc_protects b' aid e"
proof -
  from wf fresh ok obtain d slot m where
    d: "commandDigest sha c = Some d" and
    b': "b' = rc_seal (b\<lparr>rb_count := m, rb_records := (rb_records b)[slot := reserved_record c d]\<rparr>)" and
    m: "slot < unat m" "unat m \<le> 8" and
    cases: "(m = rb_count b \<and> rr_expires (rb_records b ! slot) \<le> now) \<or> (unat m = unat (rb_count b) + 1 \<and> slot = unat (rb_count b))" and
    free: "\<forall>j < unat (rb_count b). j \<noteq> slot \<longrightarrow> rr_actionId (rb_records b ! j) \<noteq> ac_actionId c"
    by (rule remember_slot)
  have shape: "length (rb_records b) = 8" "rc_shaped b" using wf by (simp_all add: rc_wf_def rc_shaped_def)
  have rid: "rr_actionId (reserved_record c d) = ac_actionId c" "rr_expires (reserved_record c d) = ac_expiresAtEpoch c"
    by (simp_all add: reserved_record_def)
  have "length d = 32" using sized digest_valid [OF d] by (auto simp: sha_sized_def)
  then have "record_shaped (reserved_record c d)" using sized by (simp add: record_shaped_def reserved_record_def)
  note sh = shaped_update [OF shape(2) this]
  show wf': "rc_wf b'"
    unfolding b'
    by (rule seal_wf)
      (use wf m cases free reserved_record_ok [OF d] in
        \<open>auto simp: sh rc_wf_def rc_valid_iff rid shape intro!: records_ok_update [where n = "unat (rb_count b)"]\<close>)
  have cnt: "unat (rb_count b') = unat m" "rb_records b' = (rb_records b)[slot := reserved_record c d]"
    by (simp_all add: b')
  show "rc_protects b' (ac_actionId c) (ac_expiresAtEpoch c)"
    unfolding protects_iff [OF wf'] cnt using m shape by (intro exI [of _ slot]) (simp add: rid)
  assume "rc_protects b aid e" "now < e"
  then obtain i where i: "i < unat (rb_count b)" "rr_actionId (rb_records b ! i) = aid" "rr_expires (rb_records b ! i) = e"
    unfolding protects_iff [OF wf] by blast
  then have "i \<noteq> slot" "i < unat m" using cases \<open>now < e\<close> by auto
  with i show "rc_protects b' aid e"
    unfolding protects_iff [OF wf'] cnt by (intro exI [of _ i]) simp
qed

lemma mark_spec:
  assumes wf: "rc_wf b"
  shows "rc_wf (snd (rc_markApplied sha c b))" "rc_protects (snd (rc_markApplied sha c b)) aid e = rc_protects b aid e"
proof -
  have "rc_wf (snd (rc_markApplied sha c b)) \<and> rc_protects (snd (rc_markApplied sha c b)) aid e = rc_protects b aid e"
  proof (cases "fst (rc_markApplied sha c b)")
    case False
    then show ?thesis using wf by (auto simp: rc_markApplied_def split: option.splits if_splits)
  next
    case True
    then obtain i where i: "record_index (ac_actionId c) b = Some i" and
      b': "snd (rc_markApplied sha c b) = rc_seal (b\<lparr>rb_records := (rb_records b)[i := (rb_records b ! i)\<lparr>rr_outcome := kReplayApplied\<rparr>]\<rparr>)"
      by (auto simp: rc_markApplied_def split: option.splits if_splits)
    from i have lt: "i < unat (rb_count b)"
      by (auto simp: record_index_def find_Some_iff)
    let ?r = "(rb_records b ! i)\<lparr>rr_outcome := kReplayApplied\<rparr>"
    have shape: "length (rb_records b) = 8" "rc_shaped b" and n: "unat (rb_count b) \<le> 8"
      using wf by (simp_all add: rc_wf_def rc_shaped_def rc_valid_iff)
    have "record_shaped ?r" using shape lt n by (auto simp: rc_shaped_def list_all_iff record_shaped_def)
    note sh = shaped_update [OF shape(2) this, where m = "rb_count b" and i = i]
    have valid: "occupiedRecordValid ?r"
      using wf lt by (auto simp: rc_wf_def rc_valid_iff records_ok_def occupiedRecordValid_def)
    have wf': "rc_wf (snd (rc_markApplied sha c b))"
      unfolding b'
      by (rule seal_wf)
        (use wf lt n sh valid wf_ids_unique [OF wf] in
          \<open>auto simp: rc_wf_def rc_valid_iff shape intro!: records_ok_update [where n = "unat (rb_count b)"]\<close>)
    have "rr_actionId (rb_records (snd (rc_markApplied sha c b)) ! j) = rr_actionId (rb_records b ! j) \<and>
      rr_expires (rb_records (snd (rc_markApplied sha c b)) ! j) = rr_expires (rb_records b ! j)" for j
      using lt n shape by (cases "j = i") (simp_all add: b')
    with wf' show ?thesis
      unfolding protects_iff [OF wf] protects_iff [OF wf'] by (simp add: b')
  qed
  then show "rc_wf (snd (rc_markApplied sha c b))" "rc_protects (snd (rc_markApplied sha c b)) aid e = rc_protects b aid e"
    by blast+
qed

lemma fresh_unprotected: "rc_inspect sha b c now = Fresh \<Longrightarrow> rc_wf b \<Longrightarrow> rc_protects b (ac_actionId c) e \<Longrightarrow> e \<le> now"
  using inspect_fresh(5) [of sha b c now] by (auto simp: rc_protects_def)

subsection \<open>Answering a retry\<close>

lemma scan_finds:
  "r \<in> set rs \<Longrightarrow> rr_actionId r = aid \<Longrightarrow> rr_digest r = d \<Longrightarrow> \<forall>q \<in> set rs. rr_actionId q = aid \<longrightarrow> q = r \<Longrightarrow>
     inspect_scan aid d now rs = (if rr_outcome r = kReplayApplied then DuplicateApplied else DuplicateIndeterminate)"
proof (induction rs)
  case Nil
  from Nil(1) show ?case by simp
next
  case (Cons q qs)
  show ?case
  proof (cases "rr_actionId q = aid")
    case True
    with Cons.prems(4) have "q = r" by (metis list.set_intros(1))
    then show ?thesis using Cons.prems(2,3) by (metis inspect_scan.simps(2))
  next
    case False
    with Cons.prems(1,2) have "r \<in> set qs" by (metis set_ConsD)
    moreover have "\<forall>x \<in> set qs. rr_actionId x = aid \<longrightarrow> x = r" using Cons.prems(4) by simp
    ultimately show ?thesis using Cons.IH Cons.prems(2,3) False by (metis inspect_scan.simps(2))
  qed
qed

lemma marked_duplicate:
  assumes wf: "rc_wf b" and mark: "rc_markApplied sha c b = (True, m)"
    and now: "kBleActionMinimumTrustedEpoch \<le> now" "now \<le> kBleActionMaximumTrustedEpoch" "now < ac_expiresAtEpoch c"
      "ac_expiresAtEpoch c - now \<le> kBleActionMaximumExpirySeconds"
  shows "rc_inspect sha m c now = DuplicateApplied"
proof -
  from mark obtain d i where d: "commandDigest sha c = Some d" and i: "record_index (ac_actionId c) b = Some i"
    and dig: "rr_digest (rb_records b ! i) = d"
    and m: "m = rc_seal (b\<lparr>rb_records := (rb_records b)[i := (rb_records b ! i)\<lparr>rr_outcome := kReplayApplied\<rparr>]\<rparr>)"
    by (auto simp: rc_markApplied_def split: option.splits if_splits)
  from i have lt: "i < unat (rb_count b)" and id: "rr_actionId (rb_records b ! i) = ac_actionId c"
    by (auto simp: record_index_def find_Some_iff)
  have wfm: "rc_wf m" using mark_spec(1) [OF wf, of sha c] mark by simp
  have n: "unat (rb_count b) \<le> 8" "length (rb_records b) = 8" using wf by (simp_all add: rc_wf_def rc_valid_iff rc_shaped_def)
  have r: "rb_records m ! i = (rb_records b ! i)\<lparr>rr_outcome := kReplayApplied\<rparr>" using lt n by (simp add: m)
  have ltm: "i < unat (rb_count m)" using lt by (simp add: m)
  have "inspect_scan (ac_actionId c) d now (occupied m) = DuplicateApplied"
  proof (subst scan_finds [where r = "rb_records m ! i"])
    show "rb_records m ! i \<in> set (occupied m)" using in_occupied [OF wfm] ltm by blast
    have "q = rb_records m ! i" if "q \<in> set (occupied m)" "rr_actionId q = ac_actionId c" for q
    proof -
      from that in_occupied [OF wfm, of q] obtain j where j: "j < unat (rb_count m)" "q = rb_records m ! j" by blast
      with that have "rr_actionId (rb_records m ! j) = rr_actionId (rb_records m ! i)" by (simp add: r id)
      from wf_ids_unique [OF wfm j(1) ltm this] j show ?thesis by simp
    qed
    then show "\<forall>q \<in> set (occupied m). rr_actionId q = ac_actionId c \<longrightarrow> q = rb_records m ! i" by blast
  qed (simp_all add: r id dig)
  moreover have "\<not> (now < kBleActionMinimumTrustedEpoch \<or> now > kBleActionMaximumTrustedEpoch)" "\<not> ac_expiresAtEpoch c \<le> now"
    "\<not> ac_expiresAtEpoch c - now > kBleActionMaximumExpirySeconds" using now by (meson leD)+
  ultimately show ?thesis by (simp only: rc_inspect_def d option.case if_False)
qed

text \<open>A reservation can be marked, and there is room for one unless eight records are still protected.\<close>

lemma remembered_marks:
  assumes wf: "rc_wf b" and fresh: "rc_inspect sha b c now = Fresh" and ok: "rc_remember sha c now b = (True, b')"
  shows "\<exists>m. rc_markApplied sha c b' = (True, m)"
proof -
  from wf fresh ok obtain d slot m where
    d: "commandDigest sha c = Some d" and
    b': "b' = rc_seal (b\<lparr>rb_count := m, rb_records := (rb_records b)[slot := reserved_record c d]\<rparr>)" and
    m: "slot < unat m" "unat m \<le> 8" and
    cases: "(m = rb_count b \<and> rr_expires (rb_records b ! slot) \<le> now) \<or> (unat m = unat (rb_count b) + 1 \<and> slot = unat (rb_count b))" and
    free: "\<forall>j < unat (rb_count b). j \<noteq> slot \<longrightarrow> rr_actionId (rb_records b ! j) \<noteq> ac_actionId c"
    by (rule remember_slot)
  have len: "length (rb_records b) = 8" using wf by (simp add: rc_wf_def rc_shaped_def)
  have slot: "rb_records b' ! slot = reserved_record c d" using m len by (simp add: b')
  have "rr_actionId (rb_records b' ! j) \<noteq> ac_actionId c" if "j < slot" for j
    using that free cases m by (auto simp: b')
  then have "record_index (ac_actionId c) b' = Some slot"
    using m slot unfolding record_index_def find_Some_iff
    by (intro exI [of _ slot]) (auto simp: b' reserved_record_def)
  then show ?thesis by (simp add: rc_markApplied_def d slot) (simp add: reserved_record_def)
qed

lemma remember_room:
  assumes wf: "rc_wf b" and fresh: "rc_inspect sha b c now = Fresh"
    and room: "unat (rb_count b) < kBleActionReplayCapacity \<or> (\<exists>r \<in> set (occupied b). rr_expires r \<le> now)"
  shows "\<exists>b'. rc_remember sha c now b = (True, b')"
proof -
  obtain d where d: "commandDigest sha c = Some d" using inspect_fresh(4) [OF fresh wf] by blast
  have "slot_scan (ac_actionId c) now None 0 (occupied b) = None \<Longrightarrow> unat (rb_count b) < kBleActionReplayCapacity"
    using slot_scan_none [of "ac_actionId c" now None 0 "occupied b"] room by fastforce
  then show ?thesis by (auto simp: rc_remember_def fresh Let_def d)
qed

end
