(* ===== verification/Ble_Sha256.thy ===== *)
theory Ble_Sha256
  imports Kitsu_Prelude
begin

unbundle bit_operations_syntax

text \<open>
  The streaming SHA-256 of \<^verbatim>\<open>src/src/kitsu_ble_action.cpp\<close> (the implementation of host builds; on
  the device the same three functions forward to mbedTLS): \<^verbatim>\<open>rotateRight\<close>, \<^verbatim>\<open>sha256Transform\<close>,
  \<^verbatim>\<open>sha256Start\<close>, \<^verbatim>\<open>sha256Update\<close> and \<^verbatim>\<open>sha256Finish\<close>.  It is shown to compute, for any way of
  cutting the message into updates, the digest that FIPS 180-4 defines by padding the whole
  message and folding the compression function over its 64-byte blocks.

  The loop of \<^verbatim>\<open>sha256Update\<close> makes no progress when the block is full on entry, so it is a
  partial function; that it always returns is part of what is proved.
\<close>

definition rotateRight :: "u32 \<Rightarrow> nat \<Rightarrow> u32" where
  "rotateRight value bits = drop_bit bits value OR push_bit (32 - bits) value"

record Sha256Context =
  sc_state :: "u32 list"
  sc_totalBytes :: u64
  sc_block :: bytes
  sc_blockBytes :: nat

definition sha256_constants :: "u32 list" where
  "sha256_constants = concat
     [[0x428a2f98, 0x71374491, 0xb5c0fbcf, 0xe9b5dba5],
      [0x3956c25b, 0x59f111f1, 0x923f82a4, 0xab1c5ed5],
      [0xd807aa98, 0x12835b01, 0x243185be, 0x550c7dc3],
      [0x72be5d74, 0x80deb1fe, 0x9bdc06a7, 0xc19bf174],
      [0xe49b69c1, 0xefbe4786, 0x0fc19dc6, 0x240ca1cc],
      [0x2de92c6f, 0x4a7484aa, 0x5cb0a9dc, 0x76f988da],
      [0x983e5152, 0xa831c66d, 0xb00327c8, 0xbf597fc7],
      [0xc6e00bf3, 0xd5a79147, 0x06ca6351, 0x14292967],
      [0x27b70a85, 0x2e1b2138, 0x4d2c6dfc, 0x53380d13],
      [0x650a7354, 0x766a0abb, 0x81c2c92e, 0x92722c85],
      [0xa2bfe8a1, 0xa81a664b, 0xc24b8b70, 0xc76c51a3],
      [0xd192e819, 0xd6990624, 0xf40e3585, 0x106aa070],
      [0x19a4c116, 0x1e376c08, 0x2748774c, 0x34b0bcb5],
      [0x391c0cb3, 0x4ed8aa4a, 0x5b9cca4f, 0x682e6ff3],
      [0x748f82ee, 0x78a5636f, 0x84c87814, 0x8cc70208],
      [0x90befffa, 0xa4506ceb, 0xbef9a3f7, 0xc67178f2]]"

text \<open>The message schedule: sixteen words read from the block, extended to sixty-four.\<close>

definition block_word :: "bytes \<Rightarrow> nat \<Rightarrow> u32" where
  "block_word block index = push_bit 24 (ucast (block ! (index * 4))) OR push_bit 16 (ucast (block ! (index * 4 + 1)))
     OR push_bit 8 (ucast (block ! (index * 4 + 2))) OR ucast (block ! (index * 4 + 3))"

definition schedule_step :: "u32 list \<Rightarrow> nat \<Rightarrow> u32 list" where
  "schedule_step schedule index =
     (let first = schedule ! (index - 15); second = schedule ! (index - 2);
          sigma0 = rotateRight first 7 XOR rotateRight first 18 XOR drop_bit 3 first;
          sigma1 = rotateRight second 17 XOR rotateRight second 19 XOR drop_bit 10 second
      in schedule @ [schedule ! (index - 16) + sigma0 + schedule ! (index - 7) + sigma1])"

definition sha256_schedule :: "bytes \<Rightarrow> u32 list" where
  "sha256_schedule block = foldl schedule_step (map (block_word block) [0 ..< 16]) [16 ..< 64]"

text \<open>One round on the eight working variables.\<close>

type_synonym sha_vars = "u32 \<times> u32 \<times> u32 \<times> u32 \<times> u32 \<times> u32 \<times> u32 \<times> u32"

definition sha256_round :: "u32 list \<Rightarrow> sha_vars \<Rightarrow> nat \<Rightarrow> sha_vars" where
  "sha256_round schedule = (\<lambda>(a, b, c, d, e, f, g, h) index.
     let sum1 = rotateRight e 6 XOR rotateRight e 11 XOR rotateRight e 25;
         choice = (e AND f) XOR (NOT e AND g);
         temporary1 = h + sum1 + choice + sha256_constants ! index + schedule ! index;
         sum0 = rotateRight a 2 XOR rotateRight a 13 XOR rotateRight a 22;
         majority = (a AND b) XOR (a AND c) XOR (b AND c);
         temporary2 = sum0 + majority
     in (temporary1 + temporary2, a, b, c, d + temporary1, e, f, g))"

definition sha256_compress :: "u32 list \<Rightarrow> bytes \<Rightarrow> u32 list" where
  "sha256_compress st block =
     (case foldl (sha256_round (sha256_schedule block))
        (st ! 0, st ! 1, st ! 2, st ! 3, st ! 4, st ! 5, st ! 6, st ! 7) [0 ..< 64] of
      (a, b, c, d, e, f, g, h) \<Rightarrow>
        [st ! 0 + a, st ! 1 + b, st ! 2 + c, st ! 3 + d, st ! 4 + e, st ! 5 + f, st ! 6 + g, st ! 7 + h])"

definition sha256Transform :: "Sha256Context \<Rightarrow> bytes \<Rightarrow> Sha256Context" where
  "sha256Transform context block = context\<lparr>sc_state := sha256_compress (sc_state context) block\<rparr>"

definition sha256_initial :: "u32 list" where
  "sha256_initial = [0x6a09e667, 0xbb67ae85, 0x3c6ef372, 0xa54ff53a, 0x510e527f, 0x9b05688c, 0x1f83d9ab, 0x5be0cd19]"

definition sha256Start :: Sha256Context where
  "sha256Start = \<lparr>sc_state = sha256_initial, sc_totalBytes = 0, sc_block = replicate 64 0, sc_blockBytes = 0\<rparr>"

text \<open>A copy into the block at an offset.\<close>

definition block_copy :: "bytes \<Rightarrow> nat \<Rightarrow> bytes \<Rightarrow> bytes" where
  "block_copy block offset input = take offset block @ input @ drop (offset + length input) block"

partial_function (option) sha256_update_loop :: "Sha256Context \<Rightarrow> bytes \<Rightarrow> Sha256Context option" where
  "sha256_update_loop context input =
     (if input = [] then Some context
      else let available = 64 - sc_blockBytes context;
               copied = min (length input) available;
               filled = context\<lparr>sc_block := block_copy (sc_block context) (sc_blockBytes context) (take copied input),
                 sc_blockBytes := sc_blockBytes context + copied\<rparr>;
               flushed = (if sc_blockBytes filled = 64
                 then (sha256Transform filled (sc_block filled))\<lparr>sc_blockBytes := 0\<rparr> else filled)
        in sha256_update_loop flushed (drop copied input))"

definition sha256Update :: "Sha256Context \<Rightarrow> bytes \<Rightarrow> Sha256Context option" where
  "sha256Update context input =
     (if input = [] then Some context
      else sha256_update_loop (context\<lparr>sc_totalBytes := sc_totalBytes context + word_of_nat (length input)\<rparr>) input)"

definition be64 :: "u64 \<Rightarrow> bytes" where
  "be64 v = map (\<lambda>index. ucast (drop_bit ((7 - index) * 8) v)) [0 ..< 8]"

definition sha256_output :: "u32 list \<Rightarrow> bytes" where
  "sha256_output st = concat (map (\<lambda>w. [ucast (drop_bit 24 w), ucast (drop_bit 16 w), ucast (drop_bit 8 w), ucast w]) st)"

definition sha256Finish :: "Sha256Context \<Rightarrow> bytes" where
  "sha256Finish context =
     (let totalBits = sc_totalBytes context * 8;
          marked = context\<lparr>sc_block := (sc_block context)[sc_blockBytes context := 0x80],
            sc_blockBytes := sc_blockBytes context + 1\<rparr>;
          spilled = (if sc_blockBytes marked > 56
            then (sha256Transform marked (block_copy (sc_block marked) (sc_blockBytes marked)
                (replicate (64 - sc_blockBytes marked) 0)))
              \<lparr>sc_block := block_copy (sc_block marked) (sc_blockBytes marked) (replicate (64 - sc_blockBytes marked) 0),
               sc_blockBytes := 0\<rparr>
            else marked);
          zeroed = block_copy (sc_block spilled) (sc_blockBytes spilled) (replicate (56 - sc_blockBytes spilled) 0);
          last = block_copy zeroed 56 (be64 totalBits)
      in sha256_output (sc_state (sha256Transform spilled last)))"

text \<open>Start, one update per part, finish.\<close>

definition sha256_parts :: "bytes list \<Rightarrow> bytes option" where
  "sha256_parts parts = map_option sha256Finish
     (foldl (\<lambda>c part. Option.bind c (\<lambda>context. sha256Update context part)) (Some sha256Start) parts)"

subsection \<open>The reference\<close>

text \<open>The message followed by a one bit, zeros and its length in bits, to a multiple of 64 bytes.\<close>

definition sha256_padding :: "nat \<Rightarrow> bytes" where
  "sha256_padding n = 0x80 # replicate ((119 - n mod 64) mod 64) 0 @ be64 (word_of_nat (8 * n))"

fun sha256_blocks :: "u32 list \<Rightarrow> bytes \<Rightarrow> u32 list" where
  "sha256_blocks st m = (if length m < 64 then st else sha256_blocks (sha256_compress st (take 64 m)) (drop 64 m))"

definition sha256_reference :: "bytes \<Rightarrow> bytes" where
  "sha256_reference m = sha256_output (sha256_blocks sha256_initial (m @ sha256_padding (length m)))"

declare sha256_blocks.simps [simp del]

subsection \<open>What a context stands for\<close>

text \<open>The bytes of a message that do not fill a block.\<close>

definition sha_tail :: "bytes \<Rightarrow> bytes" where
  "sha_tail m = drop (64 * (length m div 64)) m"

definition sha_head :: "bytes \<Rightarrow> bytes" where
  "sha_head m = take (64 * (length m div 64)) m"

lemma sha_head_tail: "sha_head m @ sha_tail m = m"
  by (simp add: sha_head_def sha_tail_def)

lemma length_sha_tail [simp]: "length (sha_tail m) = length m mod 64"
  by (simp add: sha_tail_def minus_mult_div_eq_mod)

lemma length_sha_head: "length (sha_head m) = 64 * (length m div 64)"
  by (simp add: sha_head_def)

lemma blocks_short: "length m < 64 \<Longrightarrow> sha256_blocks st m = st"
  by (simp add: sha256_blocks.simps)

lemma blocks_one: "length b = 64 \<Longrightarrow> sha256_blocks st (b @ m) = sha256_blocks (sha256_compress st b) m"
  by (subst sha256_blocks.simps) simp

lemma blocks_append: "length a = 64 * n \<Longrightarrow> sha256_blocks st (a @ m) = sha256_blocks (sha256_blocks st a) m"
proof (induction n arbitrary: a st)
  case (Suc n)
  have l: "length (take 64 a) = 64" "length (drop 64 a) = 64 * n" using Suc.prems by simp_all
  have step: "sha256_blocks st (a @ y) = sha256_blocks (sha256_compress st (take 64 a)) (drop 64 a @ y)" for y
    using blocks_one [OF l(1), of st "drop 64 a @ y"] unfolding append_assoc [symmetric] append_take_drop_id .
  show ?case using step [of m] step [of "[]"] Suc.IH [OF l(2)] by simp
qed (simp add: blocks_short)

lemma blocks_tail: "sha256_blocks st (m @ x) = sha256_blocks (sha256_blocks st m) (sha_tail m @ x)"
proof -
  have "sha256_blocks st m = sha256_blocks (sha256_blocks st (sha_head m)) (sha_tail m)"
    using blocks_append [OF length_sha_head] sha_head_tail by metis
  also have "\<dots> = sha256_blocks st (sha_head m)" by (rule blocks_short) simp
  finally have h: "sha256_blocks st (sha_head m) = sha256_blocks st m" ..
  have "sha256_blocks st (m @ x) = sha256_blocks st (sha_head m @ sha_tail m @ x)"
    using sha_head_tail by (metis append.assoc)
  also have "\<dots> = sha256_blocks (sha256_blocks st m) (sha_tail m @ x)"
    using blocks_append [OF length_sha_head, of st m "sha_tail m @ x"] by (simp add: h)
  finally show ?thesis .
qed

definition sha_rep :: "Sha256Context \<Rightarrow> bytes \<Rightarrow> bool" where
  "sha_rep c m \<longleftrightarrow> sc_blockBytes c = length m mod 64 \<and> length (sc_block c) = 64
     \<and> take (length m mod 64) (sc_block c) = sha_tail m \<and> sc_state c = sha256_blocks sha256_initial m"

lemma sha_tail_append: "length m mod 64 + length x < 64 \<Longrightarrow> sha_tail (m @ x) = sha_tail m @ x"
proof -
  assume a: "length m mod 64 + length x < 64"
  have "(length m + length x) div 64 = length m div 64"
  proof -
    have "length m + length x = 64 * (length m div 64) + (length m mod 64 + length x)" by simp
    then show ?thesis using a by (metis div_mult_self4 div_less add_0_right numeral_eq_iff zero_neq_numeral)
  qed
  then show ?thesis by (simp add: sha_tail_def)
qed

lemma sha_tail_full: "length m mod 64 = 0 \<Longrightarrow> sha_tail m = []"
  using length_sha_tail [of m] by (simp del: length_sha_tail)

lemma update_loop_rep:
  "sha_rep c m \<Longrightarrow> \<exists>c'. sha256_update_loop c input = Some c' \<and> sha_rep c' (m @ input) \<and> sc_totalBytes c' = sc_totalBytes c"
proof (induction input arbitrary: c m rule: length_induct)
  case (1 input)
  show ?case
  proof (cases "input = []")
    case True
    with 1 show ?thesis by (simp add: sha256_update_loop.simps)
  next
    case False
    let ?r = "length m mod 64" and ?k = "min (length input) (64 - sc_blockBytes c)"
    let ?x = "take ?k input"
    define f where "f = c\<lparr>sc_block := block_copy (sc_block c) (sc_blockBytes c) ?x, sc_blockBytes := sc_blockBytes c + ?k\<rparr>"
    define g where "g = (if sc_blockBytes f = 64 then (sha256Transform f (sc_block f))\<lparr>sc_blockBytes := 0\<rparr> else f)"
    have c: "sc_blockBytes c = ?r" "length (sc_block c) = 64" "take ?r (sc_block c) = sha_tail m"
      "sc_state c = sha256_blocks sha256_initial m" using 1(2) by (auto simp: sha_rep_def)
    have k: "length ?x = ?k" "0 < ?k" "?r + ?k \<le> 64" using False c(1) by auto
    have blk: "sc_block f = sha_tail m @ ?x @ drop (?r + ?k) (sc_block c)"
      using c k by (simp add: f_def block_copy_def)
    have step: "sha256_update_loop c input = sha256_update_loop g (drop ?k input)"
      using False by (subst sha256_update_loop.simps) (simp add: Let_def f_def g_def)
    have rep: "sha_rep g (m @ ?x)"
    proof (cases "?r + ?k = 64")
      case True
      have len: "length (m @ ?x) mod 64 = 0" using True k(1) by (simp add: mod_add_left_eq [symmetric])
      have b: "sc_block f = sha_tail m @ ?x" using blk True c(2) by simp
      have "sha256_blocks sha256_initial (m @ ?x) = sha256_compress (sc_state c) (sha_tail m @ ?x)"
        using blocks_one [of "sha_tail m @ ?x" _ "[]"] True k(1)
        by (subst blocks_tail) (simp add: c(4) blocks_short)
      moreover have "sc_blockBytes f = 64" using True c(1) by (simp add: f_def)
      moreover have "sc_state f = sc_state c" by (simp add: f_def)
      ultimately show ?thesis
        using len sha_tail_full [OF len] b k(1) True by (simp add: g_def sha_rep_def sha256Transform_def)
    next
      case False
      then have lt: "?r + ?k < 64" using k by simp
      have len: "length (m @ ?x) mod 64 = ?r + ?k" using lt k(1) by (metis length_append mod_add_left_eq mod_less)
      have g: "g = f" using lt c(1) by (simp add: g_def f_def)
      have "sha256_blocks sha256_initial (m @ ?x) = sc_state c"
        using lt k(1) by (subst blocks_tail) (simp add: c(4) blocks_short)
      moreover have "sc_state f = sc_state c" "sc_blockBytes f = ?r + ?k" using c(1) by (simp_all add: f_def)
      moreover have "length (sc_block f) = 64" using blk c(2) k by simp
      moreover have "take (?r + ?k) (sc_block f) = sha_tail m @ ?x" using blk k(1) by simp
      ultimately show ?thesis using sha_tail_append [of m ?x] lt k(1) len unfolding g sha_rep_def by simp
    qed
    have "length (drop ?k input) < length input" using k(2) False by simp
    then obtain c' where "sha256_update_loop g (drop ?k input) = Some c'" "sha_rep c' ((m @ ?x) @ drop ?k input)"
      "sc_totalBytes c' = sc_totalBytes g" using 1(1) rep by blast
    moreover have "sc_totalBytes g = sc_totalBytes c" by (simp add: g_def f_def sha256Transform_def)
    ultimately show ?thesis using step by simp
  qed
qed

subsection \<open>The end of the message\<close>

lemma length_be64 [simp]: "length (be64 v) = 8"
  by (simp add: be64_def)

lemma block_copy_prefix:
  assumes "length b = 64" and "n + length x \<le> 64"
  shows "length (block_copy b n x) = 64" "take (n + length x) (block_copy b n x) = take n b @ x"
  using assms by (auto simp: block_copy_def)

lemma block_copy_full: "length b = 64 \<Longrightarrow> n + length x = 64 \<Longrightarrow> block_copy b n x = take n b @ x"
  by (simp add: block_copy_def)

lemma finish_one:
  assumes "length m mod 64 < 56"
  shows "sha256_padding (length m) = 0x80 # replicate (55 - length m mod 64) 0 @ be64 (word_of_nat (8 * length m))"
proof -
  have "(119 - length m mod 64) mod 64 = 55 - length m mod 64"
    using assms by (intro mod_nat_eqI) auto
  then show ?thesis by (simp add: sha256_padding_def)
qed

lemma finish_two:
  assumes "56 \<le> length m mod 64"
  shows "sha256_padding (length m) = (0x80 # replicate (63 - length m mod 64) 0) @ replicate 56 0
    @ be64 (word_of_nat (8 * length m))"
proof -
  have "119 - length m mod 64 = (63 - length m mod 64) + 56" "(119 - length m mod 64) mod 64 = 119 - length m mod 64"
    using assms mod_less_divisor [of 64 "length m"] by auto
  then have "replicate ((119 - length m mod 64) mod 64) (0 :: u8) = replicate (63 - length m mod 64) 0 @ replicate 56 0"
    by (metis replicate_add)
  then show ?thesis by (simp add: sha256_padding_def)
qed

lemma marked_block:
  assumes "length b = 64" and "take r b = t" and "r < 64"
  shows "take (r + 1) (b[r := v]) = t @ [v]" "length (b[r := v]) = 64"
  using assms by (simp_all add: take_Suc_conv_app_nth)

lemma finish_rep:
  assumes "sha_rep c m" and "sc_totalBytes c = word_of_nat (length m)"
  shows "sha256Finish c = sha256_reference m"
proof -
  let ?r = "length m mod 64" and ?len = "be64 (word_of_nat (8 * length m))"
  have c: "sc_blockBytes c = ?r" "length (sc_block c) = 64" "take ?r (sc_block c) = sha_tail m"
    "sc_state c = sha256_blocks sha256_initial m" using assms(1) by (auto simp: sha_rep_def)
  have bits: "sc_totalBytes c * 8 = word_of_nat (8 * length m)" by (simp add: assms(2))
  define b where "b = (sc_block c)[?r := 0x80]"
  have b: "take (?r + 1) b = sha_tail m @ [0x80]" "length b = 64"
    using marked_block [OF c(2,3)] by (simp_all add: b_def)
  have ref: "sha256_reference m = sha256_output (sha256_blocks (sc_state c) (sha_tail m @ sha256_padding (length m)))"
    unfolding sha256_reference_def blocks_tail [of sha256_initial m] c(4) ..
  show ?thesis
  proof (cases "?r < 56")
    case True
    let ?z = "block_copy b (?r + 1) (replicate (55 - ?r) 0)"
    have z: "length ?z = 64" "take 56 ?z = sha_tail m @ 0x80 # replicate (55 - ?r) 0"
      using block_copy_prefix [OF b(2), of "?r + 1" "replicate (55 - ?r) 0"] True b(1) by auto
    have l: "block_copy ?z 56 ?len = sha_tail m @ 0x80 # replicate (55 - ?r) 0 @ ?len"
      using block_copy_full [OF z(1), of 56 ?len] z(2) by simp
    have "sha256Finish c = sha256_output (sha256_compress (sc_state c) (block_copy ?z 56 ?len))"
      using True c(1) by (simp add: sha256Finish_def Let_def sha256Transform_def bits b_def)
    moreover have "length (sha_tail m @ 0x80 # replicate (55 - ?r) 0 @ ?len) = 64" using True by simp
    ultimately show ?thesis
      unfolding ref finish_one [OF True] l
      using blocks_one [of "sha_tail m @ 0x80 # replicate (55 - ?r) 0 @ ?len" "sc_state c" "[]"] by (simp add: blocks_short)
  next
    case False
    then have r: "56 \<le> ?r" "?r < 64" by simp_all
    let ?f = "block_copy b (?r + 1) (replicate (63 - ?r) 0)"
    have f: "?f = sha_tail m @ 0x80 # replicate (63 - ?r) 0" "length ?f = 64"
      using block_copy_full [OF b(2), of "?r + 1" "replicate (63 - ?r) 0"] r b(1) by auto
    let ?z = "block_copy ?f 0 (replicate 56 0)"
    have z: "length ?z = 64" "take 56 ?z = replicate 56 0"
      using block_copy_prefix [OF f(2), of 0 "replicate 56 0"] by auto
    have l: "block_copy ?z 56 ?len = replicate 56 0 @ ?len" using block_copy_full [OF z(1), of 56 ?len] z(2) by simp
    have fin: "sha256Finish c = sha256_output (sha256_compress (sha256_compress (sc_state c) ?f) (block_copy ?z 56 ?len))"
      using r c(1) by (simp add: sha256Finish_def Let_def sha256Transform_def bits b_def)
    note fin [unfolded l]
    moreover have "sha256_blocks (sc_state c) (?f @ replicate 56 0 @ ?len)
        = sha256_compress (sha256_compress (sc_state c) ?f) (replicate 56 0 @ ?len)"
      using blocks_one [OF f(2)] blocks_one [of "replicate 56 0 @ ?len" _ "[]"] by (simp add: blocks_short)
    ultimately show ?thesis unfolding ref finish_two [OF r(1)] f(1) by simp
  qed
qed

lemma update_rep:
  assumes "sha_rep c m" and "sc_totalBytes c = word_of_nat (length m)"
  shows "\<exists>c'. sha256Update c x = Some c' \<and> sha_rep c' (m @ x) \<and> sc_totalBytes c' = word_of_nat (length (m @ x))"
proof (cases "x = []")
  case False
  let ?c = "c\<lparr>sc_totalBytes := sc_totalBytes c + word_of_nat (length x)\<rparr>"
  have "sha_rep ?c m" using assms(1) by (simp add: sha_rep_def)
  from update_loop_rep [OF this, of x] obtain c' where "sha256_update_loop ?c x = Some c'" "sha_rep c' (m @ x)"
    "sc_totalBytes c' = sc_totalBytes ?c" by blast
  then show ?thesis using False assms(2) by (simp add: sha256Update_def)
qed (use assms in \<open>simp add: sha256Update_def\<close>)

text \<open>The whole run.\<close>

lemma sha256_run: "sha256_parts parts = Some (sha256_reference (concat parts))"
proof -
  let ?step = "\<lambda>c part. Option.bind c (\<lambda>context. sha256Update context part)"
  have run: "\<exists>c'. foldl ?step (Some c) parts = Some c' \<and> sha_rep c' (m @ concat parts)
      \<and> sc_totalBytes c' = word_of_nat (length (m @ concat parts))"
    if "sha_rep c m" "sc_totalBytes c = word_of_nat (length m)" for c m
    using that
  proof (induction parts arbitrary: c m)
    case (Cons x parts)
    from update_rep [OF Cons.prems, of x] obtain c1 where c1: "sha256Update c x = Some c1" "sha_rep c1 (m @ x)"
      "sc_totalBytes c1 = word_of_nat (length (m @ x))" by blast
    from Cons.IH [OF c1(2,3)] c1(1) show ?case by simp
  qed simp
  have "sha_rep sha256Start []" by (simp add: sha_rep_def sha256Start_def sha_tail_def blocks_short)
  moreover have "sc_totalBytes sha256Start = word_of_nat (length [])" by (simp add: sha256Start_def)
  ultimately obtain c' where "foldl ?step (Some sha256Start) parts = Some c'" "sha_rep c' (concat parts)"
    "sc_totalBytes c' = word_of_nat (length (concat parts))" using run [of sha256Start "[]"] by auto
  then show ?thesis using finish_rep by (simp add: sha256_parts_def)
qed

text \<open>
  C35. The streaming hash is exact: for every message and every way of handing it over in pieces
  (empty ones included), the updates all return and the finished digest is the one FIPS 180-4
  defines for the whole message, its length taken modulo 2^64 bits.
\<close>

theorem sha256_streaming_exact: "sha256_parts parts = Some (sha256_reference (concat parts))"
  by (rule sha256_run)

text \<open>The published digest of the three bytes abc.\<close>

lemma sha256_abc:
  "sha256_parts [[97], [98, 99]] = Some
     [0xba, 0x78, 0x16, 0xbf, 0x8f, 0x01, 0xcf, 0xea, 0x41, 0x41, 0x40, 0xde, 0x5d, 0xae, 0x22, 0x23,
      0xb0, 0x03, 0x61, 0xa3, 0x96, 0x17, 0x7a, 0x9c, 0xb4, 0x10, 0xff, 0x61, 0xf2, 0x00, 0x15, 0xad]"
proof -
  have "sha256_reference [97, 98, 99] =
     [0xba, 0x78, 0x16, 0xbf, 0x8f, 0x01, 0xcf, 0xea, 0x41, 0x41, 0x40, 0xde, 0x5d, 0xae, 0x22, 0x23,
      0xb0, 0x03, 0x61, 0xa3, 0x96, 0x17, 0x7a, 0x9c, 0xb4, 0x10, 0xff, 0x61, 0xf2, 0x00, 0x15, 0xad]"
    by code_simp
  moreover have "concat [[97], [98, 99]] = [97, 98, 99 :: u8]" by simp
  ultimately show ?thesis using sha256_run [of "[[97], [98, 99]]"] by simp
qed

end
