(* ===== verification/Ble_Apply.thy ===== *)
theory Ble_Apply
  imports Ble_Replay Ble_Sha256 Companion_Envelope
begin

text \<open>
  The \<^verbatim>\<open>action.apply\<close> handler of \<^verbatim>\<open>src/src/main.cpp\<close>: loading the replay ledger at boot, persisting and
  restoring it, and \<^verbatim>\<open>applyAction\<close> with its phases (checks, durable reservation, side effect, durable
  outcome).  The side effects themselves (\<^verbatim>\<open>petWisp\<close>, \<^verbatim>\<open>startListening\<close>, the mesh transport), the clock
  and the outcome of every NVS write are inputs of the model.

  Shown here: over every history of calls, failed writes, power losses and reboots no action
  identifier is executed twice within its protection window, and a retry of an accepted action returns the
  first receipt without executing anything.
\<close>

subsection \<open>State and environment\<close>

text \<open>\<open>ax_stored\<close> is the value of the NVS key \<^verbatim>\<open>ble_act_v3\<close>; \<open>ax_log\<close> records, in order, the commands whose
  side effect ran and when (it exists in the model only).\<close>

record ActionState =
  ax_cache :: ReplayBlob
  ax_ready :: bool
  ax_scratch :: bytes
  ax_storageReady :: bool
  ax_stored :: "bytes option"
  ax_log :: "(BleActionCommand \<times> u32) list"

text \<open>An NVS write succeeds, or fails and leaves the key with some content.\<close>

datatype PutResult = PutDone | PutFailed "bytes option"

text \<open>What the handler reads from the rest of the firmware.  \<open>ev_status\<close> is the error name of a transport
  status other than \<^verbatim>\<open>Ok\<close>; \<open>ev_applied\<close> is the result of the companion and listening effects and whether a
  queued message got its journal entry.\<close>

record ActionEnv =
  ev_packValid :: bool
  ev_gameActive :: bool
  ev_radioReady :: bool
  ev_time :: "u32 option"
  ev_identityReady :: bool
  ev_meshEnabled :: bool
  ev_meshActive :: bool
  ev_advertReadiness :: "string option"
  ev_status :: "string option"
  ev_applied :: bool
  ev_reservePut :: PutResult
  ev_outcomePut :: PutResult

datatype ActionReply = Receipt BleActionCommand bool string "string option" | PlainError string

subsection \<open>The ledger in memory and in storage\<close>

definition loadActionReplay :: "bool \<Rightarrow> ActionState \<Rightarrow> ActionState" where
  "loadActionReplay readOk s0 =
     (let s = s0\<lparr>ax_ready := False, ax_cache := rc_reset\<rparr>;
          storedBytes = (case ax_stored s of None \<Rightarrow> 0 | Some bs \<Rightarrow> length bs) in
      if \<not> ax_storageReady s then s
      else if storedBytes = 0 then s\<lparr>ax_ready := True\<rparr>
      else if storedBytes \<noteq> kReplayBlobBytes then s
      else if \<not> readOk then s\<lparr>ax_scratch := replicate kReplayBlobBytes 0\<rparr>
      else let (loaded, blob) = rc_load (ax_stored s) in
        s\<lparr>ax_cache := blob, ax_scratch := replicate kReplayBlobBytes 0, ax_ready := loaded\<rparr>)"

definition persistActionReplay :: "PutResult \<Rightarrow> ActionState \<Rightarrow> bool \<times> ActionState" where
  "persistActionReplay put s =
     (if \<not> ax_storageReady s \<or> \<not> ax_ready s then (False, s)
      else case put of PutDone \<Rightarrow> (True, s\<lparr>ax_stored := Some (rc_serialized (ax_cache s))\<rparr>)
      | PutFailed left \<Rightarrow> (False, s\<lparr>ax_stored := left\<rparr>))"

definition snapshotActionReplay :: "ActionState \<Rightarrow> bool \<times> ActionState" where
  "snapshotActionReplay s =
     (if length (rc_serialized (ax_cache s)) \<noteq> kReplayBlobBytes then (False, s)
      else (True, s\<lparr>ax_scratch := rc_serialized (ax_cache s)\<rparr>))"

definition restoreActionReplaySnapshotInMemory :: "ActionState \<Rightarrow> bool \<times> ActionState" where
  "restoreActionReplaySnapshotInMemory s =
     (let (loaded, blob) = rc_load (Some (ax_scratch s)) in
      (loaded, s\<lparr>ax_cache := blob, ax_scratch := replicate kReplayBlobBytes 0\<rparr>))"

definition restoreActionReplaySnapshot :: "PutResult \<Rightarrow> ActionState \<Rightarrow> bool \<times> ActionState" where
  "restoreActionReplaySnapshot put s =
     (let (loaded, s1) = restoreActionReplaySnapshotInMemory s in
      if loaded then persistActionReplay put s1 else (False, s1))"

subsection \<open>The handler\<close>

definition rejectAction :: "BleActionCommand \<Rightarrow> string \<Rightarrow> ActionReply" where
  "rejectAction command errorCode = Receipt command False ''rejected'' (Some errorCode)"

definition acceptAction :: "BleActionCommand \<Rightarrow> ActionReply" where
  "acceptAction command = Receipt command True
     (if ac_kind command = ActionSendMessage \<or> ac_kind command = ActionAdvertiseOnce then ''queued'' else ''applied'') None"

text \<open>The decisions that end the handler.\<close>

definition replay_reply :: "BleActionCommand \<Rightarrow> BleActionReplayDecision \<Rightarrow> ActionReply option" where
  "replay_reply command replay = (case replay of
       TimeUnavailable \<Rightarrow> Some (rejectAction command ''time_unset'')
     | Expired \<Rightarrow> Some (rejectAction command ''action_expired'')
     | ReplayInvalidExpiry \<Rightarrow> Some (rejectAction command ''invalid_expiry'')
     | ReplayConflict \<Rightarrow> Some (rejectAction command ''action_id_conflict'')
     | DuplicateApplied \<Rightarrow> Some (acceptAction command)
     | DuplicateIndeterminate \<Rightarrow> Some (rejectAction command ''action_result_unknown'')
     | Fresh \<Rightarrow> None)"

definition bleAdvertiseReadinessError :: "ActionEnv \<Rightarrow> ActionState \<Rightarrow> string option" where
  "bleAdvertiseReadinessError env s =
     (if \<not> ax_ready s then Some ''idempotency_unavailable''
      else if \<not> ev_packValid env then Some ''companion_unavailable''
      else if \<not> ev_identityReady env then Some ''mesh_identity_unavailable''
      else if \<not> ev_meshEnabled env then Some ''mesh_disabled''
      else if \<not> ev_meshActive env then Some ''mesh_radio_unavailable''
      else ev_advertReadiness env)"

definition careAction :: "BleActionKind \<Rightarrow> bool" where
  "careAction kind \<longleftrightarrow> kind = ActionPet \<or> kind = ActionFeed \<or> kind = ActionPlay \<or> kind = ActionListenOnce"

definition action_now :: "ActionEnv \<Rightarrow> u32" where
  "action_now env = (case ev_time env of Some epoch \<Rightarrow> epoch | None \<Rightarrow> 0)"

text \<open>The checks up to the reservation: a reply, or the command to reserve.\<close>

definition action_checks :: "sha_parts \<Rightarrow> ActionEnv \<Rightarrow> bytes option \<Rightarrow> ActionState \<Rightarrow> ActionReply + BleActionCommand" where
  "action_checks sha env payload s =
     (let (decoded, command) = decodeBleActionCommand payload in
      if decoded \<noteq> DecodeOk
      then Inl (if ac_actionIdValid command then rejectAction command (bleActionDecodeResultName decoded)
                else PlainError (bleActionDecodeResultName decoded))
      else if \<not> bleActionKindAvailable (ac_kind command) then Inl (rejectAction command ''action_unavailable'')
      else if careAction (ac_kind command) \<and> \<not> ev_packValid env then Inl (rejectAction command ''companion_unavailable'')
      else if ac_kind command = ActionListenOnce \<and> ev_gameActive env then Inl (rejectAction command ''busy_game'')
      else if ac_kind command = ActionListenOnce \<and> \<not> ev_radioReady env then Inl (rejectAction command ''radio_unavailable'')
      else if \<not> ax_ready s then Inl (rejectAction command ''idempotency_unavailable'')
      else case replay_reply command (rc_inspect sha (ax_cache s) command (action_now env)) of
        Some reply \<Rightarrow> Inl reply
      | None \<Rightarrow>
        (case (if ac_kind command = ActionAdvertiseOnce then bleAdvertiseReadinessError env s else None) of
           Some readiness \<Rightarrow> Inl (rejectAction command readiness)
         | None \<Rightarrow> Inr command))"

text \<open>The durable reservation: a reply when it is not made.\<close>

definition action_reserve :: "sha_parts \<Rightarrow> ActionEnv \<Rightarrow> BleActionCommand \<Rightarrow> ActionState \<Rightarrow> ActionReply option \<times> ActionState" where
  "action_reserve sha env command s =
     (let (snapped, s1) = snapshotActionReplay s in
      if \<not> snapped then (Some (rejectAction command ''idempotency_unavailable''), s1)
      else let (remembered, blob) = rc_remember sha command (action_now env) (ax_cache s1); s2 = s1\<lparr>ax_cache := blob\<rparr> in
      if \<not> remembered
      then let (restored, s3) = restoreActionReplaySnapshotInMemory s2 in
        if \<not> restored \<or> \<not> ax_ready s3
        then (Some (rejectAction command ''idempotency_unavailable''), s3\<lparr>ax_ready := False\<rparr>)
        else (Some (rejectAction command ''idempotency_busy''), s3)
      else let (persisted, s3) = persistActionReplay (ev_reservePut env) s2 in
        if \<not> persisted
        then (Some (rejectAction command ''idempotency_unavailable''),
              (snd (restoreActionReplaySnapshotInMemory s3))\<lparr>ax_ready := False\<rparr>)
        else (None, s3))"

text \<open>The error of the transport, for the actions that go through it.\<close>

definition effect_status :: "ActionEnv \<Rightarrow> BleActionCommand \<Rightarrow> string option" where
  "effect_status env command =
     (if ac_kind command = ActionAdvertiseOnce \<or> ac_kind command = ActionSendMessage then ev_status env else None)"

text \<open>The side effect.  A transport that refuses an advert or a message has done nothing, and the
  reservation is rolled back.\<close>

definition action_effect :: "ActionEnv \<Rightarrow> BleActionCommand \<Rightarrow> ActionState \<Rightarrow> ActionReply option \<times> ActionState" where
  "action_effect env command s =
     (let ran = s\<lparr>ax_log := ax_log s @ [(command, action_now env)]\<rparr>;
          applied = (ac_kind command = ActionAdvertiseOnce \<or> ev_applied env) in
      case effect_status env command of
        Some status \<Rightarrow>
          (let (restored, s1) = restoreActionReplaySnapshot (ev_outcomePut env) s in
           if \<not> restored then (Some (rejectAction command ''action_result_unknown''), s1\<lparr>ax_ready := False\<rparr>)
           else (Some (rejectAction command status), s1))
      | None \<Rightarrow>
          if \<not> applied
          then (Some (rejectAction command ''action_result_unknown''), ran\<lparr>ax_scratch := replicate kReplayBlobBytes 0\<rparr>)
          else (None, ran))"

text \<open>The durable outcome and the receipt.\<close>

definition action_outcome :: "sha_parts \<Rightarrow> ActionEnv \<Rightarrow> BleActionCommand \<Rightarrow> ActionState \<Rightarrow> ActionReply \<times> ActionState" where
  "action_outcome sha env command s =
     (let (snapped, s1) = snapshotActionReplay s in
      if \<not> snapped then (rejectAction command ''action_result_unknown'', s1)
      else let (marked, blob) = rc_markApplied sha command (ax_cache s1); s2 = s1\<lparr>ax_cache := blob\<rparr>;
               (persisted, s3) = (if marked then persistActionReplay (ev_outcomePut env) s2 else (False, s2)) in
        if \<not> persisted
        then (rejectAction command ''action_result_unknown'', snd (restoreActionReplaySnapshotInMemory s3))
        else (acceptAction command, s3\<lparr>ax_scratch := replicate kReplayBlobBytes 0\<rparr>))"

definition applyAction :: "sha_parts \<Rightarrow> ActionEnv \<Rightarrow> bytes option \<Rightarrow> ActionState \<Rightarrow> ActionReply \<times> ActionState" where
  "applyAction sha env payload s =
     (case action_checks sha env payload s of Inl reply \<Rightarrow> (reply, s)
      | Inr command \<Rightarrow>
        (case action_reserve sha env command s of (Some reply, s1) \<Rightarrow> (reply, s1)
         | (None, s1) \<Rightarrow>
           (case action_effect env command s1 of (Some reply, s2) \<Rightarrow> (reply, s2)
            | (None, s2) \<Rightarrow> action_outcome sha env command s2)))"

text \<open>The bytes of a reply, when they fit.\<close>

definition copyResponse :: "bytes \<Rightarrow> nat option \<Rightarrow> bytes option" where
  "copyResponse response capacity =
     (if capacity = None \<or> response = [] \<or> length response > the capacity
         \<or> length response > kMaximumEnvelopePayloadBytes then None else Some response)"

definition reply_bytes :: "nat option \<Rightarrow> ActionReply \<Rightarrow> bytes option" where
  "reply_bytes capacity reply = (case reply of
       Receipt command accepted st errorCode \<Rightarrow>
         encodeBleActionReceipt command accepted (Some (ascii st)) (map_option ascii errorCode) capacity
     | PlainError error \<Rightarrow> copyResponse (ascii ''{\"ok\":false,\"error\":\"'' @ ascii error @ ascii ''\"}'') capacity)"

subsection \<open>Histories\<close>

text \<open>The ledger a boot takes into use, if any, from the content of the key.\<close>

definition boot_ledger :: "bytes option \<Rightarrow> ReplayBlob option" where
  "boot_ledger content = (case content of None \<Rightarrow> Some rc_reset
     | Some bs \<Rightarrow> if bs = [] then Some rc_reset
       else let (loaded, blob) = rc_load (Some bs) in if loaded then Some blob else None)"

text \<open>A failed write leaves the old value, the new value, or one that does not validate.  A value that vanished
  would be taken for a first boot.\<close>

definition put_atomic :: "bytes option \<Rightarrow> bytes \<Rightarrow> PutResult \<Rightarrow> bool" where
  "put_atomic old new put = (case put of PutDone \<Rightarrow> True
     | PutFailed left \<Rightarrow> left = old \<or> left = Some new \<or> boot_ledger left = None)"

text \<open>Losing power: the volatile state is gone.\<close>

definition power_off :: "ActionState \<Rightarrow> ActionState" where
  "power_off s = s\<lparr>ax_ready := False, ax_cache := rc_reset, ax_scratch := replicate kReplayBlobBytes 0\<rparr>"

text \<open>The writes a run of the handler makes behave like NVS writes: the reservation first, then the outcome
  or the roll-back.\<close>

definition puts_atomic :: "sha_parts \<Rightarrow> ActionEnv \<Rightarrow> ActionState \<Rightarrow> BleActionCommand \<Rightarrow> bool" where
  "puts_atomic sha env s command \<longleftrightarrow>
     (let reserved = snd (rc_remember sha command (action_now env) (ax_cache s));
          marked = snd (rc_markApplied sha command reserved) in
      put_atomic (ax_stored s) (rc_serialized reserved) (ev_reservePut env)
      \<and> put_atomic (Some (rc_serialized reserved))
          (rc_serialized (if effect_status env command = None then marked else ax_cache s)) (ev_outcomePut env))"

text \<open>The states of the device, with the latest trusted time it has seen.  Trusted time does not run
  backwards.  Power may be lost at any point of a call; a loss inside a write is a failed write followed by a
  boot.\<close>

inductive act_reach :: "sha_parts \<Rightarrow> u32 \<Rightarrow> ActionState \<Rightarrow> bool" for sha where
  act_init: "act_reach sha T \<lparr>ax_cache = rc_reset, ax_ready = False, ax_scratch = [], ax_storageReady = False,
      ax_stored = stored, ax_log = []\<rparr>"
| act_boot: "act_reach sha T s \<Longrightarrow> act_reach sha T (loadActionReplay readOk (power_off s\<lparr>ax_storageReady := opened\<rparr>))"
| act_later: "act_reach sha T s \<Longrightarrow> T \<le> U \<Longrightarrow> act_reach sha U s"
| act_apply: "act_reach sha T s \<Longrightarrow> T \<le> action_now env \<or> ev_time env = None \<Longrightarrow>
      (\<And>c. action_checks sha env payload s = Inr c \<Longrightarrow> puts_atomic sha env s c) \<Longrightarrow>
      act_reach sha (max T (action_now env)) (snd (applyAction sha env payload s))"
| act_cut_reserved: "act_reach sha T s \<Longrightarrow> T \<le> action_now env \<Longrightarrow> action_checks sha env payload s = Inr c \<Longrightarrow>
      puts_atomic sha env s c \<Longrightarrow> action_reserve sha env c s = (None, s1) \<Longrightarrow>
      act_reach sha (action_now env) (power_off s1)"
| act_cut_effect: "act_reach sha T s \<Longrightarrow> T \<le> action_now env \<Longrightarrow> action_checks sha env payload s = Inr c \<Longrightarrow>
      puts_atomic sha env s c \<Longrightarrow> action_reserve sha env c s = (None, s1) \<Longrightarrow> action_effect env c s1 = (None, s2) \<Longrightarrow>
      act_reach sha (action_now env) (power_off s2)"

text \<open>The ledger protects every executed command that has not expired.\<close>

definition covered :: "ReplayBlob \<Rightarrow> u32 \<Rightarrow> (BleActionCommand \<times> u32) list \<Rightarrow> bool" where
  "covered b T l \<longleftrightarrow> (\<forall>(c, t) \<in> set l. T < ac_expiresAtEpoch c \<longrightarrow> rc_protects b (ac_actionId c) (ac_expiresAtEpoch c))"

definition log_once :: "(BleActionCommand \<times> u32) list \<Rightarrow> bool" where
  "log_once l \<longleftrightarrow> sorted_wrt (\<lambda>(c, t) (d, u). ac_actionId c = ac_actionId d \<longrightarrow> ac_expiresAtEpoch c \<le> u) l
     \<and> (\<forall>(c, t) \<in> set l. t < ac_expiresAtEpoch c \<and> ac_expiresAtEpoch c - t \<le> kBleActionMaximumExpirySeconds)"

definition act_inv :: "u32 \<Rightarrow> ActionState \<Rightarrow> bool" where
  "act_inv T s \<longleftrightarrow> rc_wf (ax_cache s) \<and> (ax_ready s \<longrightarrow> covered (ax_cache s) T (ax_log s))
     \<and> (\<forall>b. boot_ledger (ax_stored s) = Some b \<longrightarrow> covered b T (ax_log s)) \<and> log_once (ax_log s)"

lemma covered_later: "covered b T l \<Longrightarrow> T \<le> U \<Longrightarrow> covered b U l"
  by (fastforce simp: covered_def)

lemma act_inv_later: "act_inv T s \<Longrightarrow> T \<le> U \<Longrightarrow> act_inv U s"
  by (auto simp: act_inv_def intro: covered_later)

lemma boot_ledger_wf: "boot_ledger content = Some b \<Longrightarrow> rc_wf b"
  using load_wf reset_wf by (auto simp: boot_ledger_def split: option.splits if_splits prod.splits) (metis snd_conv)

lemma boot_ledger_serialized: "rc_wf b \<Longrightarrow> boot_ledger (Some (rc_serialized b)) = Some b"
proof -
  assume b: "rc_wf b"
  then have "length (rc_serialized b) = 436" by (simp add: rc_wf_def kReplayBlobBytes_def)
  then have "rc_serialized b \<noteq> []" by auto
  then show ?thesis using b by (simp add: boot_ledger_def load_serialized)
qed

lemma boot_inv: "act_inv T s \<Longrightarrow> act_inv T (loadActionReplay readOk s)"
  using load_wf [of "ax_stored s"] reset_wf
  by (auto simp: act_inv_def loadActionReplay_def boot_ledger_def Let_def split: option.splits prod.splits)

lemma power_off_inv: "act_inv T s \<Longrightarrow> act_inv T (power_off s)"
  using reset_wf by (simp add: act_inv_def power_off_def)

text \<open>A write of a ledger that covers the log keeps the stored value covered.\<close>

lemma put_covered:
  assumes "put_atomic old (rc_serialized b) put" "rc_wf b" "covered b T l" "\<forall>b. boot_ledger old = Some b \<longrightarrow> covered b T l"
    "case put of PutDone \<Rightarrow> stored = Some (rc_serialized b) | PutFailed left \<Rightarrow> stored = left"
  shows "\<forall>b. boot_ledger stored = Some b \<longrightarrow> covered b T l"
  using assms boot_ledger_serialized [OF assms(2)] by (auto simp: put_atomic_def split: PutResult.splits)

subsection \<open>The phases keep the invariant\<close>

lemma decodeParams_id: "ac_actionId (snd (decodeParams f d)) = ac_actionId d"
  by (auto simp: decodeParams_def decode_listen_def decode_advertise_def decode_message_def Let_def
      split: option.splits sum.splits ParseResult.splits)

lemma decoded_id_length: "decodeBleActionCommand payload = (DecodeOk, c) \<Longrightarrow> length (ac_actionId c) = 16"
proof -
  assume run: "decodeBleActionCommand payload = (DecodeOk, c)"
  then obtain spans where p: "parseObject payload kMaximumOuterFields = Inr spans"
    by (auto simp: decodeBleActionCommand_def split: if_splits sum.splits ParseResult.splits)
  note run = run [unfolded decodeBleActionCommand_def p sum.case]
  from run obtain c1 where u: "parseUuid (findField spans ''action_id'') command0 = (True, c1)"
    by (auto split: if_splits bool.splits prod.splits)
  from run [unfolded u prod.case bool.case] obtain f d where "decodeParams f d = (DecodeOk, c)" "ac_actionId d = ac_actionId c1"
    by (auto simp: Let_def split: if_splits option.splits)
  then show ?thesis using parseUuid_ok [OF u] decodeParams_id [of f d] by simp
qed

lemma checks_pass:
  assumes "action_checks sha env payload s = Inr c"
  shows "decodeBleActionCommand payload = (DecodeOk, c)" "ax_ready s"
    "rc_inspect sha (ax_cache s) c (action_now env) = Fresh"
  using assms
  by (auto simp: action_checks_def replay_reply_def split: prod.splits if_splits option.splits BleActionReplayDecision.splits)

lemma snapshot_wf: "rc_wf (ax_cache s) \<Longrightarrow> snapshotActionReplay s = (True, s\<lparr>ax_scratch := rc_serialized (ax_cache s)\<rparr>)"
  by (simp add: snapshotActionReplay_def rc_wf_def)

lemma restore_wf:
  "ax_scratch s = rc_serialized b \<Longrightarrow> rc_wf b \<Longrightarrow>
     restoreActionReplaySnapshotInMemory s = (True, s\<lparr>ax_cache := b, ax_scratch := replicate kReplayBlobBytes 0\<rparr>)"
  by (simp add: restoreActionReplaySnapshotInMemory_def load_serialized)

lemma reserve_none:
  assumes "action_reserve sha env c s = (None, s1)" "rc_wf (ax_cache s)"
  shows "\<exists>b. rc_remember sha c (action_now env) (ax_cache s) = (True, b) \<and> ax_ready s \<and> ax_storageReady s \<and>
    s1 = s\<lparr>ax_scratch := rc_serialized (ax_cache s), ax_cache := b, ax_stored := Some (rc_serialized b)\<rparr>"
  using assms
  by (auto simp: action_reserve_def snapshot_wf persistActionReplay_def Let_def split: prod.splits if_splits PutResult.splits)

lemma reserve_inv:
  assumes inv: "act_inv T s" and T: "T \<le> action_now env" and checks: "action_checks sha env payload s = Inr c"
    and puts: "puts_atomic sha env s c" and sha: "sha_sized sha"
  shows "act_inv (action_now env) (snd (action_reserve sha env c s))"
proof -
  let ?now = "action_now env"
  note pass = checks_pass [OF checks]
  have wf: "rc_wf (ax_cache s)" and cov: "covered (ax_cache s) ?now (ax_log s)"
    and st: "\<forall>b. boot_ledger (ax_stored s) = Some b \<longrightarrow> covered b ?now (ax_log s)" and log: "log_once (ax_log s)"
    using act_inv_later [OF inv T] pass(2) by (simp_all add: act_inv_def)
  obtain ok b where rem: "rc_remember sha c ?now (ax_cache s) = (ok, b)" by (cases "rc_remember sha c ?now (ax_cache s)")
  show ?thesis
  proof (cases ok)
    case False
    with rem have "ax_cache (snd (action_reserve sha env c s)) = ax_cache s \<and> ax_stored (snd (action_reserve sha env c s)) = ax_stored s
      \<and> ax_log (snd (action_reserve sha env c s)) = ax_log s"
      using wf by (simp add: action_reserve_def snapshot_wf Let_def restore_wf [where b = "ax_cache s"] split: prod.splits if_splits)
    with wf cov st log show ?thesis by (simp add: act_inv_def)
  next
    case True
    then have ok: "rc_remember sha c ?now (ax_cache s) = (True, b)" using rem by simp
    note spec = remember_spec [OF wf pass(3) ok sha decoded_id_length [OF pass(1)]]
    have cov': "covered b ?now (ax_log s)" using cov spec(3) by (fastforce simp: covered_def)
    define left where "left = (case ev_reservePut env of PutDone \<Rightarrow> Some (rc_serialized b) | PutFailed left \<Rightarrow> left)"
    have "put_atomic (ax_stored s) (rc_serialized b) (ev_reservePut env)" using puts rem by (simp add: puts_atomic_def Let_def)
    from put_covered [OF this spec(1) cov' st, of left]
    have st': "\<forall>b. boot_ledger left = Some b \<longrightarrow> covered b ?now (ax_log s)" by (simp add: left_def split: PutResult.splits)
    obtain s3 where s3: "snd (action_reserve sha env c s) = s3" by blast
    have "rc_wf (ax_cache s3) \<and> (ax_ready s3 \<longrightarrow> covered (ax_cache s3) ?now (ax_log s3)) \<and> ax_log s3 = ax_log s
      \<and> (ax_stored s3 = ax_stored s \<or> ax_stored s3 = left)"
      unfolding s3 [symmetric] using wf spec(1) cov cov' rem True
      by (auto simp: action_reserve_def snapshot_wf Let_def persistActionReplay_def left_def restore_wf [where b = "ax_cache s"]
          split: PutResult.splits)
    with st st' log show ?thesis by (auto simp: act_inv_def s3)
  qed
qed

text \<open>An execution of a fresh command extends the log.\<close>

lemma log_once_snoc:
  assumes "log_once l" "covered b (now) l" "rc_wf b" "rc_inspect sha b c now = Fresh"
  shows "log_once (l @ [(c, now)])"
proof -
  have "ac_expiresAtEpoch d \<le> now" if "(d, t) \<in> set l" "ac_actionId d = ac_actionId c" for d t
  proof (rule ccontr)
    assume "\<not> ac_expiresAtEpoch d \<le> now"
    then have live: "now < ac_expiresAtEpoch d" by simp
    with that assms(2) have "rc_protects b (ac_actionId c) (ac_expiresAtEpoch d)" by (fastforce simp: covered_def)
    with fresh_unprotected [OF assms(4,3)] live show False by (metis leD)
  qed
  with assms(1) inspect_fresh(2,3) [OF assms(4,3)] show ?thesis
    by (fastforce simp: log_once_def sorted_wrt_append)
qed

text \<open>The state between the reservation and the effect.\<close>

lemma reserved_facts:
  assumes inv: "act_inv T s" and T: "T \<le> action_now env" and checks: "action_checks sha env payload s = Inr c"
    and sha: "sha_sized sha" and res: "action_reserve sha env c s = (None, s1)"
  obtains b where "rc_wf b" "covered b (action_now env) (ax_log s @ [(c, action_now env)])"
    "log_once (ax_log s @ [(c, action_now env)])" "rc_wf (ax_cache s)" "covered (ax_cache s) (action_now env) (ax_log s)"
    "rc_remember sha c (action_now env) (ax_cache s) = (True, b)" "ax_ready s" "ax_storageReady s" "log_once (ax_log s)"
    "s1 = s\<lparr>ax_scratch := rc_serialized (ax_cache s), ax_cache := b, ax_stored := Some (rc_serialized b)\<rparr>"
proof -
  note pass = checks_pass [OF checks]
  have wf: "rc_wf (ax_cache s)" and cov: "covered (ax_cache s) (action_now env) (ax_log s)" and log: "log_once (ax_log s)"
    using act_inv_later [OF inv T] pass(2) by (simp_all add: act_inv_def)
  from reserve_none [OF res wf] obtain b where b: "rc_remember sha c (action_now env) (ax_cache s) = (True, b)"
    "ax_ready s" "ax_storageReady s"
    "s1 = s\<lparr>ax_scratch := rc_serialized (ax_cache s), ax_cache := b, ax_stored := Some (rc_serialized b)\<rparr>" by blast
  note spec = remember_spec [OF wf pass(3) b(1) sha decoded_id_length [OF pass(1)]]
  have "covered b (action_now env) (ax_log s @ [(c, action_now env)])"
    using cov spec(2,3) by (fastforce simp: covered_def)
  then show thesis by (rule that [OF spec(1) _ log_once_snoc [OF log cov wf pass(3)] wf cov b(1-3) log b(4)])
qed

lemma effect_inv:
  assumes ctx: "act_inv T s" "T \<le> action_now env" "action_checks sha env payload s = Inr c" "sha_sized sha"
    "action_reserve sha env c s = (None, s1)" and puts: "puts_atomic sha env s c"
  shows "act_inv (action_now env) (snd (action_effect env c s1))"
proof -
  let ?now = "action_now env"
  from ctx obtain b where b: "rc_wf b" "covered b ?now (ax_log s @ [(c, ?now)])"
    "log_once (ax_log s @ [(c, ?now)])" "rc_wf (ax_cache s)" "covered (ax_cache s) ?now (ax_log s)"
    "rc_remember sha c ?now (ax_cache s) = (True, b)" "ax_ready s" "ax_storageReady s" "log_once (ax_log s)"
    "s1 = s\<lparr>ax_scratch := rc_serialized (ax_cache s), ax_cache := b, ax_stored := Some (rc_serialized b)\<rparr>"
    by (rule reserved_facts)
  note boot = boot_ledger_serialized [OF b(1)]
  show ?thesis
  proof (cases "effect_status env c")
    case None
    then show ?thesis using b by (simp add: action_effect_def act_inv_def Let_def boot)
  next
    case (Some status)
    define left where "left = (case ev_outcomePut env of PutDone \<Rightarrow> Some (rc_serialized (ax_cache s)) | PutFailed left \<Rightarrow> left)"
    have put: "put_atomic (Some (rc_serialized b)) (rc_serialized (ax_cache s)) (ev_outcomePut env)"
      using puts Some b(6) by (simp add: puts_atomic_def Let_def)
    have "covered b ?now (ax_log s)" using b(2) by (simp add: covered_def)
    then have "\<forall>d. boot_ledger (Some (rc_serialized b)) = Some d \<longrightarrow> covered d ?now (ax_log s)" by (simp add: boot)
    from put_covered [OF put b(4,5) this, of left]
    have "\<forall>d. boot_ledger left = Some d \<longrightarrow> covered d ?now (ax_log s)" by (simp add: left_def split: PutResult.splits)
    then show ?thesis
      using b(4,5,7-9) unfolding b(10)
      by (auto simp: action_effect_def Some Let_def restoreActionReplaySnapshot_def restore_wf [where b = "ax_cache s"]
          persistActionReplay_def left_def act_inv_def split: PutResult.splits)
  qed
qed

lemma outcome_inv:
  assumes ctx: "act_inv T s" "T \<le> action_now env" "action_checks sha env payload s = Inr c" "sha_sized sha"
    "action_reserve sha env c s = (None, s1)" and puts: "puts_atomic sha env s c" and eff: "action_effect env c s1 = (None, s2)"
  shows "act_inv (action_now env) (snd (action_outcome sha env c s2))"
proof -
  let ?now = "action_now env"
  from ctx obtain b where b: "rc_wf b" "covered b ?now (ax_log s @ [(c, ?now)])"
    "log_once (ax_log s @ [(c, ?now)])" "rc_wf (ax_cache s)" "covered (ax_cache s) ?now (ax_log s)"
    "rc_remember sha c ?now (ax_cache s) = (True, b)" "ax_ready s" "ax_storageReady s" "log_once (ax_log s)"
    "s1 = s\<lparr>ax_scratch := rc_serialized (ax_cache s), ax_cache := b, ax_stored := Some (rc_serialized b)\<rparr>"
    by (rule reserved_facts)
  from eff have s2: "effect_status env c = None" "s2 = s1\<lparr>ax_log := ax_log s1 @ [(c, ?now)]\<rparr>"
    by (auto simp: action_effect_def Let_def split: option.splits if_splits prod.splits)
  obtain ok m where mark: "rc_markApplied sha c b = (ok, m)" by (cases "rc_markApplied sha c b")
  have m: "rc_wf m" "covered m ?now (ax_log s @ [(c, ?now)])"
    using mark_spec [OF b(1), of sha c] mark b(2) by (simp_all add: covered_def)
  define left where "left = (case ev_outcomePut env of PutDone \<Rightarrow> Some (rc_serialized m) | PutFailed left \<Rightarrow> left)"
  have "put_atomic (Some (rc_serialized b)) (rc_serialized m) (ev_outcomePut env)"
    using puts s2(1) b(6) mark by (simp add: puts_atomic_def Let_def)
  from put_covered [OF this m, of left] b(2)
  have "\<forall>d. boot_ledger left = Some d \<longrightarrow> covered d ?now (ax_log s @ [(c, ?now)])"
    by (simp add: left_def boot_ledger_serialized [OF b(1)] split: PutResult.splits)
  then show ?thesis
    using b(1-3,7,8) m unfolding s2(2) b(10)
    by (auto simp: action_outcome_def snapshot_wf mark persistActionReplay_def Let_def left_def act_inv_def
        restore_wf [where b = b] boot_ledger_serialized split: PutResult.splits)
qed

lemma unset_time_fails: "ev_time env = None \<Longrightarrow> \<nexists>c. action_checks sha env payload s = Inr c"
proof
  assume "ev_time env = None" "\<exists>c. action_checks sha env payload s = Inr c"
  then obtain c where "rc_inspect sha (ax_cache s) c 0 = Fresh" using checks_pass(3) by (fastforce simp: action_now_def)
  then show False by (auto simp: rc_inspect_def kBleActionMinimumTrustedEpoch_def split: option.splits if_splits)
qed

lemma apply_inv:
  assumes inv: "act_inv T s" and T: "T \<le> action_now env \<or> ev_time env = None" and sha: "sha_sized sha"
    and puts: "\<And>c. action_checks sha env payload s = Inr c \<Longrightarrow> puts_atomic sha env s c"
  shows "act_inv (max T (action_now env)) (snd (applyAction sha env payload s))"
proof (cases "action_checks sha env payload s")
  case (Inl reply)
  then show ?thesis using act_inv_later [OF inv] by (simp add: applyAction_def)
next
  case (Inr c)
  then have T': "T \<le> action_now env" using T unset_time_fails by blast
  obtain r s1 where res: "action_reserve sha env c s = (r, s1)" by (cases "action_reserve sha env c s")
  have "act_inv (action_now env) (snd (applyAction sha env payload s))"
  proof (cases r)
    case (Some reply)
    then show ?thesis using reserve_inv [OF inv T' Inr puts [OF Inr] sha] by (simp add: applyAction_def Inr res)
  next
    case None
    note ctx = inv T' Inr sha res [unfolded None] puts [OF Inr]
    obtain q s2 where eff: "action_effect env c s1 = (q, s2)" by (cases "action_effect env c s1")
    show ?thesis
      using effect_inv [OF ctx] outcome_inv [OF ctx] eff
      by (cases q) (simp_all add: applyAction_def Inr res None)
  qed
  then show ?thesis using T' by (simp add: max_def)
qed

lemma reach_inv: "act_reach sha T s \<Longrightarrow> sha_sized sha \<Longrightarrow> act_inv T s"
proof (induction rule: act_reach.induct)
  case (act_init T stored)
  show ?case using reset_wf by (simp add: act_inv_def covered_def log_once_def)
next
  case (act_boot T s readOk opened)
  then have "act_inv T (power_off s\<lparr>ax_storageReady := opened\<rparr>)"
    using power_off_inv [of T s] by (simp add: act_inv_def)
  then show ?case by (rule boot_inv)
next
  case (act_later T s U)
  then show ?case using act_inv_later by blast
next
  case (act_apply T s env payload)
  then show ?case using apply_inv by blast
next
  case (act_cut_reserved T s env payload c s1)
  then show ?case using reserve_inv [of T s env sha payload c] by (intro power_off_inv) simp
next
  case (act_cut_effect T s env payload c s1 s2)
  then show ?case using effect_inv [of T s env sha payload c s1] by (intro power_off_inv) simp
qed

subsection \<open>Accepted actions\<close>

lemma accepted_form:
  assumes wf: "rc_wf (ax_cache s)" and checks: "action_checks sha env payload s = Inr c"
    and acc: "applyAction sha env payload s = (Receipt d True st e, s')"
  obtains b m where "rc_remember sha c (action_now env) (ax_cache s) = (True, b)" "rc_markApplied sha c b = (True, m)"
    "ax_ready s" "Receipt d True st e = acceptAction c"
    "s' = s\<lparr>ax_cache := m, ax_stored := Some (rc_serialized m), ax_log := ax_log s @ [(c, action_now env)],
       ax_scratch := replicate kReplayBlobBytes 0\<rparr>"
proof -
  have no: "rejectAction c x \<noteq> Receipt d True st e" "Receipt d True st e \<noteq> rejectAction c x" for x by (simp_all add: rejectAction_def)
  obtain s1 where res: "action_reserve sha env c s = (None, s1)"
    using acc by (auto simp: applyAction_def checks action_reserve_def Let_def no split: prod.splits if_splits)
  from reserve_none [OF this wf] obtain b where b: "rc_remember sha c (action_now env) (ax_cache s) = (True, b)"
    "ax_ready s" "s1 = s\<lparr>ax_scratch := rc_serialized (ax_cache s), ax_cache := b, ax_stored := Some (rc_serialized b)\<rparr>" by blast
  have eff: "action_effect env c s1 = (None, s1\<lparr>ax_log := ax_log s1 @ [(c, action_now env)]\<rparr>)"
    using acc by (auto simp: applyAction_def checks res action_effect_def Let_def no split: prod.splits if_splits option.splits)
  have out: "action_outcome sha env c (s1\<lparr>ax_log := ax_log s1 @ [(c, action_now env)]\<rparr>) = (Receipt d True st e, s')"
    using acc by (simp add: applyAction_def checks res eff)
  obtain m where "rc_markApplied sha c b = (True, m)" "Receipt d True st e = acceptAction c"
    "s' = s\<lparr>ax_cache := m, ax_stored := Some (rc_serialized m), ax_log := ax_log s @ [(c, action_now env)],
       ax_scratch := replicate kReplayBlobBytes 0\<rparr>"
    using out by (auto simp: action_outcome_def snapshotActionReplay_def persistActionReplay_def b(3) Let_def no
        split: prod.splits if_splits PutResult.splits)
  with b show thesis by (intro that)
qed

text \<open>The conditions of the handler that come before the ledger.\<close>

definition action_possible :: "ActionEnv \<Rightarrow> BleActionCommand \<Rightarrow> bool" where
  "action_possible env c \<longleftrightarrow> (careAction (ac_kind c) \<longrightarrow> ev_packValid env)
     \<and> (ac_kind c = ActionListenOnce \<longrightarrow> \<not> ev_gameActive env \<and> ev_radioReady env)"

definition in_window :: "u32 \<Rightarrow> BleActionCommand \<Rightarrow> bool" where
  "in_window now c \<longleftrightarrow> kBleActionMinimumTrustedEpoch \<le> now \<and> now \<le> kBleActionMaximumTrustedEpoch \<and> now < ac_expiresAtEpoch c
     \<and> ac_expiresAtEpoch c - now \<le> kBleActionMaximumExpirySeconds"

lemma decoded_available: "decodeBleActionCommand payload = (DecodeOk, c) \<Longrightarrow> action_checks sha env payload s = Inr d \<Longrightarrow>
    bleActionKindAvailable (ac_kind c)"
  by (auto simp: action_checks_def split: if_splits)

lemma retry_answer:
  assumes "decodeBleActionCommand payload = (DecodeOk, c)" "bleActionKindAvailable (ac_kind c)" "ax_ready s"
    "action_possible env c" "rc_inspect sha (ax_cache s) c (action_now env) = DuplicateApplied"
  shows "applyAction sha env payload s = (acceptAction c, s)"
  using assms by (auto simp: applyAction_def action_checks_def action_possible_def replay_reply_def)

lemma boot_stored:
  "rc_wf m \<Longrightarrow> ax_stored s = Some (rc_serialized m) \<Longrightarrow>
     loadActionReplay True (power_off s\<lparr>ax_storageReady := True\<rparr>) =
       power_off s\<lparr>ax_storageReady := True, ax_cache := m, ax_ready := True\<rparr>"
  using length_serialized [of m]
  by (simp add: loadActionReplay_def power_off_def load_serialized rc_wf_def [of m] kReplayBlobBytes_def)

text \<open>With working storage and a free record a fresh action is executed and accepted.\<close>

lemma fresh_applied:
  assumes wf: "rc_wf (ax_cache s)" and checks: "action_checks sha env payload s = Inr c" and ready: "ax_storageReady s"
    and room: "unat (rb_count (ax_cache s)) < kBleActionReplayCapacity \<or> (\<exists>r \<in> set (occupied (ax_cache s)). rr_expires r \<le> action_now env)"
    and puts: "ev_reservePut env = PutDone" "ev_outcomePut env = PutDone"
    and effect: "effect_status env c = None" "ac_kind c = ActionAdvertiseOnce \<or> ev_applied env"
    and sha: "sha_sized sha"
  shows "\<exists>m. applyAction sha env payload s = (acceptAction c, s\<lparr>ax_cache := m, ax_stored := Some (rc_serialized m),
      ax_log := ax_log s @ [(c, action_now env)], ax_scratch := replicate kReplayBlobBytes 0\<rparr>) \<and> rc_wf m"
proof -
  note pass = checks_pass [OF checks]
  from remember_room [OF wf pass(3) room] obtain b where b: "rc_remember sha c (action_now env) (ax_cache s) = (True, b)" by blast
  from remembered_marks [OF wf pass(3) b] obtain m where m: "rc_markApplied sha c b = (True, m)" by blast
  have wfb: "rc_wf b" by (rule remember_spec(1) [OF wf pass(3) b sha decoded_id_length [OF pass(1)]])
  have wfm: "rc_wf m" using mark_spec(1) [OF wfb, of sha c] m by simp
  have res: "action_reserve sha env c s =
      (None, s\<lparr>ax_scratch := rc_serialized (ax_cache s), ax_cache := b, ax_stored := Some (rc_serialized b)\<rparr>)"
    using pass(2) ready by (simp add: action_reserve_def snapshot_wf [OF wf] b puts persistActionReplay_def)
  show ?thesis
    using pass(2) ready wfb wfm effect
    by (intro exI [of _ m]) (simp add: applyAction_def checks res action_effect_def effect(1) action_outcome_def
        snapshotActionReplay_def rc_wf_def [of b] m persistActionReplay_def puts Let_def)
qed

text \<open>A device that boots with an empty store and the pet command of \<^verbatim>\<open>demo_body\<close>.\<close>

definition demo_start :: ActionState where
  "demo_start = \<lparr>ax_cache = rc_reset, ax_ready = False, ax_scratch = [], ax_storageReady = False, ax_stored = None, ax_log = []\<rparr>"

definition demo_boot :: ActionState where
  "demo_boot = loadActionReplay True (power_off demo_start\<lparr>ax_storageReady := True\<rparr>)"

definition demo_env :: "u32 \<Rightarrow> ActionEnv" where
  "demo_env now = \<lparr>ev_packValid = True, ev_gameActive = False, ev_radioReady = True, ev_time = Some now, ev_identityReady = False,
     ev_meshEnabled = False, ev_meshActive = False, ev_advertReadiness = None, ev_status = None, ev_applied = True,
     ev_reservePut = PutDone, ev_outcomePut = PutDone\<rparr>"

definition demo_command :: BleActionCommand where
  "demo_command = snd (decodeBleActionCommand (Some demo_body))"

lemma demo_decodes: "decodeBleActionCommand (Some demo_body) = (DecodeOk, demo_command)"
  using demo_body_decodes by (simp add: demo_command_def prod_eq_iff)

lemma demo_facts: "ac_kind demo_command = ActionPet \<and> ac_expiresAtEpoch demo_command = 1800000000 \<and> validReplayCommand demo_command"
  by code_simp

lemma sha256_sized: "sha_sized sha256_parts"
proof -
  have step: "length (sha256_compress st blk) = 8" for st blk
    by (simp add: sha256_compress_def split: prod.split)
  have "length (sha256_blocks st m) = 8" if "length st = 8" for st m
    using that by (induction st m rule: sha256_blocks.induct) (subst sha256_blocks.simps, simp add: step)
  from this [of sha256_initial] show ?thesis
    by (auto simp: sha_sized_def sha256_run sha256_reference_def sha256_output_def length_concat sha256_initial_def
        comp_def sum_list_triv)
qed

lemma demo_env_simps [simp]: "ev_packValid (demo_env now)" "\<not> ev_gameActive (demo_env now)" "ev_radioReady (demo_env now)"
  "action_now (demo_env now) = now" "ev_time (demo_env now) = Some now" "ev_status (demo_env now) = None" "ev_applied (demo_env now)"
  "ev_reservePut (demo_env now) = PutDone" "ev_outcomePut (demo_env now) = PutDone"
  by (simp_all add: demo_env_def action_now_def)

lemma demo_boot_form: "demo_boot = power_off demo_start\<lparr>ax_storageReady := True, ax_ready := True\<rparr>"
  by (simp add: demo_boot_def loadActionReplay_def demo_start_def power_off_def)

lemma demo_possible: "action_possible (demo_env now) demo_command"
  using demo_facts by (simp add: action_possible_def)

lemma demo_checks:
  assumes "in_window now demo_command"
  shows "action_checks sha256_parts (demo_env now) (Some demo_body) demo_boot = Inr demo_command"
proof -
  have "\<not> (now < kBleActionMinimumTrustedEpoch \<or> now > kBleActionMaximumTrustedEpoch)" "\<not> ac_expiresAtEpoch demo_command \<le> now"
    "\<not> ac_expiresAtEpoch demo_command - now > kBleActionMaximumExpirySeconds"
    using assms unfolding in_window_def by (meson leD)+
  moreover have "\<exists>d. commandDigest sha256_parts demo_command = Some d"
    using demo_facts by (simp add: commandDigest_def sha256_run)
  moreover have "occupied rc_reset = []" by (simp add: occupied_def rc_reset_def)
  ultimately have "rc_inspect sha256_parts rc_reset demo_command now = Fresh"
    by (auto simp only: rc_inspect_def option.case if_False inspect_scan.simps)
  then show ?thesis
    using demo_facts
    by (simp add: action_checks_def demo_decodes demo_boot_form power_off_def demo_start_def
        replay_reply_def bleActionKindAvailable_def)
qed

lemma demo_applied:
  assumes "in_window now demo_command"
  shows "\<exists>m. applyAction sha256_parts (demo_env now) (Some demo_body) demo_boot = (acceptAction demo_command,
    demo_boot\<lparr>ax_cache := m, ax_stored := Some (rc_serialized m), ax_log := [(demo_command, now)],
       ax_scratch := replicate kReplayBlobBytes 0\<rparr>)"
proof -
  have c: "ax_cache demo_boot = rc_reset" "ax_storageReady demo_boot" "ax_log demo_boot = []" "rb_count rc_reset = 0"
    by (simp_all add: demo_boot_form power_off_def demo_start_def rc_reset_def)
  show ?thesis
    using fresh_applied [OF _ demo_checks [OF assms] c(2) _ _ _ _ _ sha256_sized] demo_facts
    by (auto simp: c reset_wf kBleActionReplayCapacity_def effect_status_def)
qed

lemma demo_in_window: "in_window 1799999950 demo_command" "in_window 1799999999 demo_command"
  using demo_facts by (simp_all add: in_window_def kBleActionMinimumTrustedEpoch_def kBleActionMaximumTrustedEpoch_def
      kBleActionMaximumExpirySeconds_def)

definition demo_done :: ActionState where
  "demo_done = snd (applyAction sha256_parts (demo_env 1799999950) (Some demo_body) demo_boot)"

lemma demo_done_form: "applyAction sha256_parts (demo_env 1799999950) (Some demo_body) demo_boot = (acceptAction demo_command, demo_done)"
    "ax_log demo_done = [(demo_command, 1799999950)]"
  using demo_applied [OF demo_in_window(1)] by (auto simp: demo_done_def)

text \<open>
  C2. An action that was accepted after its checks is answered alike when the same request comes again inside its
  acceptance window (trusted time valid, before the expiry and at most 120 seconds ahead of it) while the device could
  perform it (a valid companion pack for a care action; no game and a ready radio for listening): the reply is the
  same, nothing is executed and no state changes, and the same holds after a reboot that reads the stored ledger.
  Where the device could not perform it, the code refuses the retry before it looks at the ledger.
\<close>

theorem accepted_action_retry:
  assumes wf: "rc_wf (ax_cache s)" and sha: "sha_sized sha" and checks: "action_checks sha env payload s = Inr c"
    and acc: "applyAction sha env payload s = (Receipt d True st e, s')"
    and retry: "action_possible env' c" "in_window (action_now env') c"
  shows "applyAction sha env' payload s' = (Receipt d True st e, s') \<and>
    (let booted = loadActionReplay True (power_off s'\<lparr>ax_storageReady := True\<rparr>) in
      applyAction sha env' payload booted = (Receipt d True st e, booted) \<and> ax_log booted = ax_log s')"
proof -
  note pass = checks_pass [OF checks]
  from wf checks acc obtain b m where f: "rc_remember sha c (action_now env) (ax_cache s) = (True, b)"
    "rc_markApplied sha c b = (True, m)" "ax_ready s" "Receipt d True st e = acceptAction c"
    "s' = s\<lparr>ax_cache := m, ax_stored := Some (rc_serialized m), ax_log := ax_log s @ [(c, action_now env)],
       ax_scratch := replicate kReplayBlobBytes 0\<rparr>" by (rule accepted_form)
  have wfb: "rc_wf b" by (rule remember_spec(1) [OF wf pass(3) f(1) sha decoded_id_length [OF pass(1)]])
  have wfm: "rc_wf m" using mark_spec(1) [OF wfb, of sha c] f(2) by simp
  have dup: "rc_inspect sha m c (action_now env') = DuplicateApplied"
    using marked_duplicate [OF wfb f(2)] retry(2) by (simp add: in_window_def)
  note answer = retry_answer [OF pass(1) decoded_available [OF pass(1) checks] _ retry(1)]
  have "applyAction sha env' payload s' = (acceptAction c, s')" using f(3) dup by (intro answer) (simp_all add: f(5))
  moreover have boot: "loadActionReplay True (power_off s'\<lparr>ax_storageReady := True\<rparr>) =
      power_off s'\<lparr>ax_storageReady := True, ax_cache := m, ax_ready := True\<rparr>"
    by (rule boot_stored [OF wfm]) (simp add: f(5))
  moreover have "applyAction sha env' payload (power_off s'\<lparr>ax_storageReady := True, ax_cache := m, ax_ready := True\<rparr>)
      = (acceptAction c, power_off s'\<lparr>ax_storageReady := True, ax_cache := m, ax_ready := True\<rparr>)"
    using dup by (intro answer) simp_all
  ultimately show ?thesis by (simp add: f(4) power_off_def)
qed

theorem accepted_action_retry_witness:
  "applyAction sha256_parts (demo_env 1799999999) (Some demo_body) demo_done = (acceptAction demo_command, demo_done) \<and>
    ax_log demo_done = [(demo_command, 1799999950)]"
proof -
  have "rc_wf (ax_cache demo_boot)" by (simp add: demo_boot_form power_off_def reset_wf)
  moreover have "in_window (action_now (demo_env 1799999999)) demo_command"
    using demo_in_window(2) by simp
  ultimately show ?thesis
    using accepted_action_retry [OF _ sha256_sized demo_checks [OF demo_in_window(1)] demo_done_form(1) [unfolded acceptAction_def]
        demo_possible] demo_done_form(2)
    by (simp add: acceptAction_def)
qed

text \<open>
  C1. Over every history of boots, calls, failed writes and losses of power in which trusted time does not run
  backwards and a write leaves the old content, the new content or one that is detectably invalid, an action
  identifier is executed again only after the protection window of its earlier execution has ended, and every
  execution happens before the command's own expiry and at most 120 seconds ahead of it.  A history in which the clock
  is set back is outside the statement: entries of the ledger are freed by trusted time, so an identifier freed before
  the clock goes back is not protected.  The digest has 32 bytes.
\<close>

theorem action_at_most_once:
  assumes "act_reach sha T s" "sha_sized sha"
  shows "sorted_wrt (\<lambda>(c, t) (d, u). ac_actionId c = ac_actionId d \<longrightarrow> ac_expiresAtEpoch c \<le> u) (ax_log s) \<and>
    (\<forall>(c, t) \<in> set (ax_log s). t < ac_expiresAtEpoch c \<and> ac_expiresAtEpoch c - t \<le> kBleActionMaximumExpirySeconds)"
  using reach_inv [OF assms] by (simp add: act_inv_def log_once_def)

theorem action_at_most_once_witness:
  "act_reach sha256_parts 1799999950 demo_done \<and> ax_log demo_done = [(demo_command, 1799999950)] \<and>
     (1799999950 :: u32) < ac_expiresAtEpoch demo_command"
proof -
  have "act_reach sha256_parts 0 demo_start" unfolding demo_start_def by (rule act_init)
  then have "act_reach sha256_parts 0 demo_boot" unfolding demo_boot_def by (rule act_boot)
  then have "act_reach sha256_parts (max 0 (action_now (demo_env 1799999950)))
      (snd (applyAction sha256_parts (demo_env 1799999950) (Some demo_body) demo_boot))"
    by (rule act_apply) (simp_all add: puts_atomic_def put_atomic_def Let_def)
  then have r: "act_reach sha256_parts 1799999950 demo_done"
    by (simp add: demo_done_form)
  with action_at_most_once [OF r sha256_sized] demo_done_form(2) show ?thesis by simp
qed

end
