(* ===== verification/Security_Store.thy ===== *)
theory Security_Store
  imports Controller_Permissions
begin

unbundle bit_operations_syntax

text \<open>
  The two-slot store of device and controller secrets: \<^verbatim>\<open>src/src/kitsu_device_security.cpp\<close> and the storage
  adapter of \<^verbatim>\<open>src/src/kitsu_esp32_security.cpp\<close>.  A record is sealed under a wrapping key with a generation
  number; a change is written to the slot that is not in use and read back before it takes effect, and the records
  of a removed controller are erased from the other slot before the removal is reported.

  The virtual interfaces \<^verbatim>\<open>DeviceSecurityStorage\<close> and \<^verbatim>\<open>DeviceSecurityPlatform\<close> are records of functions on an
  abstract world.  The definitions come first; their laws are in \<^verbatim>\<open>Security_Laws\<close>.
\<close>

subsection \<open>Data\<close>

definition kKitsuSecretBytes :: nat where "kKitsuSecretBytes = 32"
definition kKitsuDeviceIdBytes :: nat where "kKitsuDeviceIdBytes = 16"
definition kKitsuControllerIdBytes :: nat where "kKitsuControllerIdBytes = 16"
definition kSecurityNonceBytes :: nat where "kSecurityNonceBytes = 12"
definition kKitsuControllerCapacity :: nat where "kKitsuControllerCapacity = 4"
definition kSecurityBlobCapacity :: nat where "kSecurityBlobCapacity = 384"
definition kOuterMagic :: bytes where "kOuterMagic = [75, 83, 69, 67]"
definition kPlainMagic :: bytes where "kPlainMagic = [75, 77, 65, 84]"
definition kSecurityVersion :: u16 where "kSecurityVersion = 2"
definition kOuterHeaderBytes :: nat where "kOuterHeaderBytes = 44"
definition kPlainBytes :: nat where "kPlainBytes = 320"
definition kPlainCrcOffset :: nat where "kPlainCrcOffset = kPlainBytes - 4"
definition kRetiredKeyBytes :: nat where "kRetiredKeyBytes = 32"
definition kRetiredCounterBytes :: nat where "kRetiredCounterBytes = 16"

lemmas sec_consts = kKitsuSecretBytes_def kKitsuDeviceIdBytes_def kKitsuControllerIdBytes_def kSecurityNonceBytes_def
  kKitsuControllerCapacity_def kSecurityBlobCapacity_def kOuterHeaderBytes_def kPlainBytes_def kPlainCrcOffset_def
  kRetiredKeyBytes_def kRetiredCounterBytes_def

datatype SecurityResult = SecOk | SecOkReflashable | NotBegun | SecInvalidArgument | SecurityModeUnavailable
  | WrappingRootUnavailable | StorageReadFailed | StorageWriteFailed | ReadbackFailed | CorruptStorage | CryptoFailed
  | AuthorizationRequired | ControllerNotProvisioned | ControllerTableFull

definition securityResultName :: "SecurityResult \<Rightarrow> string" where
  "securityResultName result = (case result of
       SecOk \<Rightarrow> ''ok'' | SecOkReflashable \<Rightarrow> ''ok_reflashable'' | NotBegun \<Rightarrow> ''not_begun''
     | SecInvalidArgument \<Rightarrow> ''invalid_argument'' | SecurityModeUnavailable \<Rightarrow> ''security_mode_unavailable''
     | WrappingRootUnavailable \<Rightarrow> ''wrapping_root_unavailable'' | StorageReadFailed \<Rightarrow> ''storage_read_failed''
     | StorageWriteFailed \<Rightarrow> ''storage_write_failed'' | ReadbackFailed \<Rightarrow> ''readback_failed''
     | CorruptStorage \<Rightarrow> ''corrupt_storage'' | CryptoFailed \<Rightarrow> ''crypto_failed''
     | AuthorizationRequired \<Rightarrow> ''authorization_required''
     | ControllerNotProvisioned \<Rightarrow> ''controller_not_provisioned'' | ControllerTableFull \<Rightarrow> ''controller_table_full'')"

record Controller =
  ct_valid :: bool
  ct_role :: ControllerRole
  ct_id :: bytes
  ct_root :: bytes

record Material =
  mt_deviceId :: bytes
  mt_deviceSecret :: bytes
  mt_controllers :: "Controller list"
  mt_pending :: bool

record DeviceSecurity =
  dv_bound :: bool
  dv_material :: Material
  dv_key :: bytes
  dv_crypt :: bytes
  dv_last :: SecurityResult
  dv_begun :: bool
  dv_count :: nat
  dv_active :: "u8 option"
  dv_generation :: u32

text \<open>The interfaces.  \<open>sp_seal\<close> returns ciphertext and tag.\<close>

record 'w SecurityStorage =
  st_read :: "u8 \<Rightarrow> 'w \<Rightarrow> bytes option \<times> 'w"
  st_write :: "u8 \<Rightarrow> bytes \<Rightarrow> 'w \<Rightarrow> bool \<times> 'w"
  st_clear :: "u8 \<Rightarrow> 'w \<Rightarrow> bool \<times> 'w"

record 'w SecurityPlatform =
  sp_reflashable :: bool
  sp_derive :: "bytes \<Rightarrow> bytes option"
  sp_random :: "nat \<Rightarrow> 'w \<Rightarrow> bytes option \<times> 'w"
  sp_seal :: "bytes \<Rightarrow> u32 \<Rightarrow> bytes \<Rightarrow> bytes \<Rightarrow> (bytes \<times> bytes) option"
  sp_open :: "bytes \<Rightarrow> u32 \<Rightarrow> bytes \<Rightarrow> bytes \<Rightarrow> bytes \<Rightarrow> bytes option"
  sp_hkdf :: "bytes \<Rightarrow> bytes \<Rightarrow> bytes \<Rightarrow> nat \<Rightarrow> bytes option"

text \<open>A cleared object.\<close>

definition controller0 :: Controller where
  "controller0 = \<lparr>ct_valid = False, ct_role = RoleOwner, ct_id = replicate 16 0, ct_root = replicate 32 0\<rparr>"

definition material0 :: Material where
  "material0 = \<lparr>mt_deviceId = replicate 16 0, mt_deviceSecret = replicate 32 0, mt_controllers = replicate 4 controller0,
     mt_pending = False\<rparr>"

definition dv_clear :: DeviceSecurity where
  "dv_clear = \<lparr>dv_bound = False, dv_material = material0, dv_key = replicate 32 0, dv_crypt = replicate 384 0, dv_last = NotBegun,
     dv_begun = False, dv_count = 0, dv_active = None, dv_generation = 0\<rparr>"

definition setResult :: "SecurityResult \<Rightarrow> DeviceSecurity \<Rightarrow> SecurityResult \<times> DeviceSecurity" where
  "setResult result s = (result, s\<lparr>dv_last := result\<rparr>)"

subsection \<open>Bytes\<close>

definition containsNonzero :: "bytes \<Rightarrow> bool" where
  "containsNonzero input \<longleftrightarrow> foldl (OR) 0 input \<noteq> 0"

definition getU16 :: "bytes \<Rightarrow> nat \<Rightarrow> u16" where
  "getU16 input i = ucast (input ! i) OR push_bit 8 (ucast (input ! (i + 1)))"

definition getU32 :: "bytes \<Rightarrow> nat \<Rightarrow> u32" where
  "getU32 input i = ucast (input ! i) OR push_bit 8 (ucast (input ! (i + 1)))
     OR push_bit 16 (ucast (input ! (i + 2))) OR push_bit 24 (ucast (input ! (i + 3)))"

definition putU16 :: "u16 \<Rightarrow> bytes" where
  "putU16 v = [ucast v, ucast (drop_bit 8 v)]"

definition putU32 :: "u32 \<Rightarrow> bytes" where
  "putU32 v = [ucast v, ucast (drop_bit 8 v), ucast (drop_bit 16 v), ucast (drop_bit 24 v)]"

definition sec_crc_step :: "u32 \<Rightarrow> u32" where
  "sec_crc_step crc = drop_bit 1 crc XOR (0xedb88320 AND (- (crc AND 1)))"

definition sec_crc32 :: "bytes \<Rightarrow> u32" where
  "sec_crc32 input = NOT (foldl (\<lambda>crc b. (sec_crc_step ^^ 8) (crc XOR ucast b)) 0xffffffff input)"

definition generationAfter :: "u32 \<Rightarrow> u32 \<Rightarrow> bool" where
  "generationAfter candidate reference \<longleftrightarrow> sint (candidate - reference) > 0"

subsection \<open>Records\<close>

record SlotInfo =
  si_valid :: bool
  si_generation :: u32
  si_bytes :: nat
  si_nonempty :: bool

definition outer_ok :: "bytes \<Rightarrow> bool" where
  "outer_ok raw \<longleftrightarrow> \<not> (length raw \<noteq> kOuterHeaderBytes + kPlainBytes \<or> take 4 raw \<noteq> kOuterMagic
     \<or> getU16 raw 4 \<noteq> kSecurityVersion \<or> getU16 raw 6 \<noteq> word_of_nat kOuterHeaderBytes
     \<or> getU16 raw 12 \<noteq> word_of_nat kPlainBytes \<or> getU16 raw 14 \<noteq> word_of_nat kPlainBytes)"

definition plain_ok :: "bytes \<Rightarrow> bool" where
  "plain_ok plain \<longleftrightarrow> \<not> (take 4 plain \<noteq> kPlainMagic \<or> getU16 plain 4 \<noteq> kSecurityVersion
     \<or> getU16 plain 6 \<noteq> word_of_nat kPlainBytes \<or> sec_crc32 (take kPlainCrcOffset plain) \<noteq> getU32 plain kPlainCrcOffset)"

definition validateSlot :: "'w SecurityStorage \<Rightarrow> 'w SecurityPlatform \<Rightarrow> u8 \<Rightarrow> DeviceSecurity \<Rightarrow> 'w
    \<Rightarrow> SlotInfo \<times> DeviceSecurity \<times> 'w" where
  "validateSlot St P slot s w =
     (case st_read St slot w of
        (None, w) \<Rightarrow> (\<lparr>si_valid = False, si_generation = 0, si_bytes = 0, si_nonempty = False\<rparr>, s\<lparr>dv_last := StorageReadFailed\<rparr>, w)
      | (Some raw, w) \<Rightarrow>
        let info = \<lparr>si_valid = False, si_generation = 0, si_bytes = length raw, si_nonempty = raw \<noteq> []\<rparr> in
        if raw = [] then (info, s, w)
        else if \<not> outer_ok raw then (info, s\<lparr>dv_last := CorruptStorage\<rparr>, w)
        else let generation = getU32 raw 8; info = info\<lparr>si_generation := generation\<rparr> in
        case sp_open P (dv_key s) generation (take 12 (drop 16 raw)) (take kPlainBytes (drop kOuterHeaderBytes raw))
            (take 16 (drop 28 raw)) of
          None \<Rightarrow> (info, s\<lparr>dv_last := CorruptStorage\<rparr>, w)
        | Some plain \<Rightarrow>
          let s = s\<lparr>dv_crypt := plain\<rparr> in
          if \<not> plain_ok plain then (info, s\<lparr>dv_last := CorruptStorage\<rparr>, w)
          else (info\<lparr>si_valid := True\<rparr>, s, w))"

text \<open>The controller table starts at byte 92 of the plaintext; an entry has 52 bytes.\<close>

fun decode_controllers :: "nat list \<Rightarrow> bytes \<Rightarrow> Material \<Rightarrow> bool \<times> Material" where
  "decode_controllers [] plain m = (True, m)"
| "decode_controllers (i # is) plain m =
     (let cursor = 92 + 52 * i; entry = mt_controllers m ! i;
          (codec, role) = decodeControllerRolePadding (Some (take 3 (drop (cursor + 1) plain))) kControllerRolePaddingBytes;
          entry = entry\<lparr>ct_valid := plain ! cursor \<noteq> 0, ct_role := role\<rparr> in
      if codec \<noteq> RoleCodecOk then (False, m\<lparr>mt_controllers := (mt_controllers m)[i := entry]\<rparr>)
      else decode_controllers is plain (m\<lparr>mt_controllers := (mt_controllers m)
             [i := entry\<lparr>ct_id := take 16 (drop (cursor + 4) plain), ct_root := take 32 (drop (cursor + 20) plain)\<rparr>]\<rparr>))"

definition decodeLoaded :: "nat \<Rightarrow> DeviceSecurity \<Rightarrow> bool \<times> bool \<times> DeviceSecurity" where
  "decodeLoaded bytes s =
     (if bytes \<noteq> kOuterHeaderBytes + kPlainBytes then (False, False, s)
      else let plain = dv_crypt s; flags = getU32 plain 8;
               m = (dv_material s)\<lparr>mt_deviceId := take 16 (drop 12 plain), mt_deviceSecret := take 32 (drop 28 plain)\<rparr>;
               retired = (flags AND 1 \<noteq> 0 \<or> containsNonzero (take kRetiredKeyBytes (drop 60 plain)));
               (ok, m) = decode_controllers [0 ..< kKitsuControllerCapacity] plain m in
        if \<not> ok then (False, retired, s\<lparr>dv_material := m\<rparr>)
        else (True, retired \<or> containsNonzero (take kRetiredCounterBytes (drop 300 plain)),
              s\<lparr>dv_material := m\<lparr>mt_pending := flags AND 2 \<noteq> 0\<rparr>\<rparr>))"

definition controller_image :: "Controller \<Rightarrow> bytes option" where
  "controller_image c =
     (case encodeControllerRolePadding (ct_role c) (Some [0, 0, 0]) kControllerRolePaddingBytes of
        (RoleCodecOk, Some padding) \<Rightarrow> Some ([if ct_valid c then 1 else 0] @ padding @ ct_id c @ ct_root c)
      | _ \<Rightarrow> None)"

fun controller_images :: "Controller list \<Rightarrow> bytes option" where
  "controller_images [] = Some []"
| "controller_images (c # cs) = (case controller_image c of None \<Rightarrow> None
     | Some img \<Rightarrow> map_option (\<lambda>rest. img @ rest) (controller_images cs))"

definition plain_image :: "Material \<Rightarrow> bytes option" where
  "plain_image m =
     (case controller_images (mt_controllers m) of None \<Rightarrow> None
      | Some table \<Rightarrow>
        let body = kPlainMagic @ putU16 kSecurityVersion @ putU16 (word_of_nat kPlainBytes)
              @ putU32 (if mt_pending m then 2 else 0) @ mt_deviceId m @ mt_deviceSecret m
              @ replicate kRetiredKeyBytes 0 @ table @ replicate kRetiredCounterBytes 0 in
        if length body \<noteq> kPlainCrcOffset then None else Some (body @ putU32 (sec_crc32 body)))"

definition sec_encode :: "'w SecurityPlatform \<Rightarrow> u32 \<Rightarrow> DeviceSecurity \<Rightarrow> 'w \<Rightarrow> bytes option \<times> 'w" where
  "sec_encode P generation s w =
     (case plain_image (dv_material s) of None \<Rightarrow> (None, w)
      | Some plain \<Rightarrow>
        (case sp_random P kSecurityNonceBytes w of (None, w) \<Rightarrow> (None, w)
         | (Some nonce, w) \<Rightarrow>
           (case sp_seal P (dv_key s) generation nonce plain of None \<Rightarrow> (None, w)
            | Some (ciphertext, tag) \<Rightarrow>
              (Some (kOuterMagic @ putU16 kSecurityVersion @ putU16 (word_of_nat kOuterHeaderBytes) @ putU32 generation
                 @ putU16 (word_of_nat kPlainBytes) @ putU16 (word_of_nat kPlainBytes) @ nonce @ tag @ ciphertext), w))))"

definition countControllers :: "Material \<Rightarrow> nat" where
  "countControllers m = length (filter ct_valid (mt_controllers m))"

subsection \<open>Writing\<close>

definition other_slot :: "u8 option \<Rightarrow> u8" where
  "other_slot active = (case active of None \<Rightarrow> 0 | Some slot \<Rightarrow> slot XOR 1)"

definition persist :: "'w SecurityStorage \<Rightarrow> 'w SecurityPlatform \<Rightarrow> DeviceSecurity \<Rightarrow> 'w \<Rightarrow> SecurityResult \<times> DeviceSecurity \<times> 'w" where
  "persist St P s w =
     (let nextGeneration = dv_generation s + 1 in
      case sec_encode P nextGeneration s w of (None, w) \<Rightarrow> (CryptoFailed, s\<lparr>dv_last := CryptoFailed\<rparr>, w)
      | (Some blob, w) \<Rightarrow>
        let target = other_slot (dv_active s) in
        case st_write St target blob w of
          (False, w) \<Rightarrow> (StorageWriteFailed, s\<lparr>dv_last := StorageWriteFailed\<rparr>, w)
        | (True, w) \<Rightarrow>
          (case validateSlot St P target (s\<lparr>dv_last := SecOk\<rparr>) w of (info, s, w) \<Rightarrow>
             if \<not> si_valid info \<or> \<not> si_nonempty info \<or> si_generation info \<noteq> nextGeneration \<or> si_bytes info \<noteq> length blob
             then (ReadbackFailed, s\<lparr>dv_last := ReadbackFailed\<rparr>, w)
             else (SecOk, s\<lparr>dv_active := Some target, dv_generation := nextGeneration,
                     dv_count := countControllers (dv_material s), dv_last := SecOk\<rparr>, w)))"

definition retirePreviousSlot :: "'w SecurityStorage \<Rightarrow> 'w SecurityPlatform \<Rightarrow> DeviceSecurity \<Rightarrow> 'w
    \<Rightarrow> SecurityResult \<times> DeviceSecurity \<times> 'w" where
  "retirePreviousSlot St P s w =
     (if \<not> mt_pending (dv_material s) then (SecOk, s\<lparr>dv_last := SecOk\<rparr>, w)
      else if \<not> dv_bound s \<or> dv_active s = None then (NotBegun, s\<lparr>dv_last := NotBegun\<rparr>, w)
      else let retired = other_slot (dv_active s) in
      case st_clear St retired w of (False, w) \<Rightarrow> (StorageWriteFailed, s\<lparr>dv_last := StorageWriteFailed\<rparr>, w)
      | (True, w) \<Rightarrow>
        (case st_read St retired w of (None, w) \<Rightarrow> (StorageReadFailed, s\<lparr>dv_last := StorageReadFailed\<rparr>, w)
         | (Some raw, w) \<Rightarrow>
           if raw \<noteq> [] then (ReadbackFailed, s\<lparr>dv_last := ReadbackFailed\<rparr>, w)
           else (case persist St P (s\<lparr>dv_material := (dv_material s)\<lparr>mt_pending := False\<rparr>\<rparr>) w of (finalized, s, w) \<Rightarrow>
             if finalized \<noteq> SecOk then (finalized, s\<lparr>dv_material := (dv_material s)\<lparr>mt_pending := True\<rparr>\<rparr>, w)
             else (SecOk, s\<lparr>dv_last := SecOk\<rparr>, w))))"

subsection \<open>Loading\<close>

text \<open>The part of \<^verbatim>\<open>begin\<close> that takes a validated slot into use.\<close>

definition begin_chosen :: "'w SecurityStorage \<Rightarrow> 'w SecurityPlatform \<Rightarrow> u8 \<Rightarrow> DeviceSecurity \<Rightarrow> 'w
    \<Rightarrow> SecurityResult option \<times> DeviceSecurity \<times> 'w" where
  "begin_chosen St P chosen s w =
     (case validateSlot St P chosen s w of (info, s, w) \<Rightarrow>
      if \<not> si_valid info \<or> \<not> si_nonempty info then (Some CorruptStorage, s\<lparr>dv_last := CorruptStorage\<rparr>, w)
      else (case decodeLoaded (si_bytes info) s of (ok, retiredMaterialPresent, s) \<Rightarrow>
      if \<not> ok then (Some CorruptStorage, s\<lparr>dv_last := CorruptStorage\<rparr>, w)
      else let s = s\<lparr>dv_active := Some chosen, dv_generation := si_generation info\<rparr> in
      (case (if mt_pending (dv_material s) then retirePreviousSlot St P s w else (SecOk, s, w)) of (resumed, s, w) \<Rightarrow>
      if resumed \<noteq> SecOk then (Some resumed, dv_clear\<lparr>dv_last := resumed\<rparr>, w)
      else if \<not> retiredMaterialPresent then (None, s, w)
      else (case persist St P (s\<lparr>dv_material := (dv_material s)\<lparr>mt_pending := True\<rparr>\<rparr>) w of (migrated, s, w) \<Rightarrow>
        if migrated \<noteq> SecOk then (Some migrated, dv_clear\<lparr>dv_last := migrated\<rparr>, w)
        else (case retirePreviousSlot St P s w of (retired, s, w) \<Rightarrow>
          if retired \<noteq> SecOk then (Some retired, dv_clear\<lparr>dv_last := retired\<rparr>, w)
          else (None, s, w))))))"

text \<open>The first start of a device: new secrets.\<close>

definition begin_fresh :: "'w SecurityStorage \<Rightarrow> 'w SecurityPlatform \<Rightarrow> DeviceSecurity \<Rightarrow> 'w
    \<Rightarrow> SecurityResult option \<times> DeviceSecurity \<times> 'w" where
  "begin_fresh St P s w =
     (case sp_random P kKitsuDeviceIdBytes w of (None, w) \<Rightarrow> (Some CryptoFailed, s\<lparr>dv_last := CryptoFailed\<rparr>, w)
      | (Some deviceId, w) \<Rightarrow>
        (case sp_random P kKitsuSecretBytes w of (None, w) \<Rightarrow> (Some CryptoFailed, s\<lparr>dv_material := (dv_material s)\<lparr>mt_deviceId := deviceId\<rparr>,
              dv_last := CryptoFailed\<rparr>, w)
         | (Some deviceSecret, w) \<Rightarrow>
           (case persist St P (s\<lparr>dv_material := (dv_material s)\<lparr>mt_deviceId := deviceId, mt_deviceSecret := deviceSecret\<rparr>,
                dv_begun := True\<rparr>) w of (persisted, s, w) \<Rightarrow>
             if persisted \<noteq> SecOk then (Some persisted, s\<lparr>dv_begun := False\<rparr>, w) else (None, s, w))))"

definition sec_choose :: "SlotInfo \<Rightarrow> SlotInfo \<Rightarrow> u8 option" where
  "sec_choose first second =
     (let chosen = (if si_valid first then Some 0 else None) in
      if si_valid second \<and> (chosen = None \<or> generationAfter (si_generation second) (si_generation first))
      then Some 1 else chosen)"

definition sec_begin :: "'w SecurityStorage \<Rightarrow> 'w SecurityPlatform \<Rightarrow> bytes option \<Rightarrow> 'w \<Rightarrow> SecurityResult \<times> DeviceSecurity \<times> 'w" where
  "sec_begin St P hardwareId w =
     (case hardwareId of None \<Rightarrow> (SecInvalidArgument, dv_clear\<lparr>dv_last := SecInvalidArgument\<rparr>, w)
      | Some hid \<Rightarrow>
        let s = dv_clear\<lparr>dv_bound := True\<rparr> in
        if \<not> sp_reflashable P then (SecurityModeUnavailable, s\<lparr>dv_last := SecurityModeUnavailable\<rparr>, w)
        else (case sp_derive P hid of None \<Rightarrow> (WrappingRootUnavailable, s\<lparr>dv_last := WrappingRootUnavailable\<rparr>, w)
        | Some wrappingKey \<Rightarrow>
          let s = s\<lparr>dv_key := wrappingKey\<rparr> in
          (case validateSlot St P 0 (s\<lparr>dv_last := SecOk\<rparr>) w of (first, s, w) \<Rightarrow>
          if \<not> si_valid first \<and> dv_last s = StorageReadFailed then (StorageReadFailed, s, w)
          else (case validateSlot St P 1 (s\<lparr>dv_last := SecOk\<rparr>) w of (second, s, w) \<Rightarrow>
          if \<not> si_valid second \<and> dv_last s = StorageReadFailed then (StorageReadFailed, s, w)
          else (case (case sec_choose first second of
              Some chosen \<Rightarrow> begin_chosen St P chosen s w
            | None \<Rightarrow> if si_nonempty first \<or> si_nonempty second
                then (Some CorruptStorage, s\<lparr>dv_last := CorruptStorage\<rparr>, w) else begin_fresh St P s w) of
              (Some failed, s, w) \<Rightarrow> (failed, s, w)
            | (None, s, w) \<Rightarrow> (SecOkReflashable, s\<lparr>dv_begun := True, dv_count := countControllers (dv_material s),
                  dv_last := SecOkReflashable\<rparr>, w))))))"

subsection \<open>Reading\<close>

definition copyDeviceId :: "DeviceSecurity \<Rightarrow> bytes option" where
  "copyDeviceId s = (if \<not> dv_begun s then None else Some (mt_deviceId (dv_material s)))"

definition controllerAt :: "nat \<Rightarrow> DeviceSecurity \<Rightarrow> bytes option" where
  "controllerAt ordinal s =
     (let present = filter ct_valid (mt_controllers (dv_material s)) in
      if \<not> dv_begun s \<or> ordinal \<ge> length present then None else Some (ct_id (present ! ordinal)))"

definition controllerAtSlot :: "nat \<Rightarrow> DeviceSecurity \<Rightarrow> bytes option" where
  "controllerAtSlot slot s =
     (if \<not> dv_begun s \<or> slot \<ge> kKitsuControllerCapacity then None
      else let c = mt_controllers (dv_material s) ! slot in if ct_valid c then Some (ct_id c) else None)"

text \<open>The search for a provisioned controller.\<close>

definition controller_index :: "bytes \<Rightarrow> Material \<Rightarrow> nat option" where
  "controller_index controllerId m =
     find (\<lambda>i. ct_valid (mt_controllers m ! i) \<and> ct_id (mt_controllers m ! i) = controllerId) [0 ..< kKitsuControllerCapacity]"

definition findControllerRoot :: "bytes \<Rightarrow> DeviceSecurity \<Rightarrow> (bytes \<times> ControllerRole) option" where
  "findControllerRoot controllerId s =
     (if \<not> dv_begun s then None
      else map_option (\<lambda>i. (ct_root (mt_controllers (dv_material s) ! i), ct_role (mt_controllers (dv_material s) ! i)))
        (controller_index controllerId (dv_material s)))"

text \<open>The label of the journal key, \<^verbatim>\<open>kitsu868/journal/aes256gcm/v1\<close>, is given as its characters.\<close>

definition journal_info :: bytes where
  "journal_info = map (\<lambda>c. of_nat (of_char c)) ''kitsu868/journal/aes256gcm/v1''"

definition deriveJournalKey :: "'w SecurityPlatform \<Rightarrow> DeviceSecurity \<Rightarrow> SecurityResult \<times> bytes option \<times> DeviceSecurity" where
  "deriveJournalKey P s =
     (if \<not> dv_begun s then (NotBegun, None, s\<lparr>dv_last := NotBegun\<rparr>)
      else case sp_hkdf P (mt_deviceSecret (dv_material s)) (mt_deviceId (dv_material s)) journal_info kKitsuSecretBytes of
        None \<Rightarrow> (CryptoFailed, None, s\<lparr>dv_last := CryptoFailed\<rparr>)
      | Some key \<Rightarrow> (SecOk, Some key, s\<lparr>dv_last := SecOk\<rparr>))"

subsection \<open>Pairing and revocation\<close>

record PairingLink =
  pl_secureConnections :: bool
  pl_linkEncrypted :: bool
  pl_bonded :: bool
  pl_physicalConfirmed :: bool

definition link_trusted :: "PairingLink \<Rightarrow> bool" where
  "link_trusted l \<longleftrightarrow> pl_secureConnections l \<and> pl_linkEncrypted l \<and> pl_bonded l \<and> pl_physicalConfirmed l"

definition generatePendingControllerRoot :: "'w SecurityPlatform \<Rightarrow> PairingLink \<Rightarrow> DeviceSecurity \<Rightarrow> 'w
    \<Rightarrow> SecurityResult \<times> bytes option \<times> DeviceSecurity \<times> 'w" where
  "generatePendingControllerRoot P l s w =
     (if \<not> dv_begun s then (NotBegun, None, s\<lparr>dv_last := NotBegun\<rparr>, w)
      else if \<not> link_trusted l then (AuthorizationRequired, None, s\<lparr>dv_last := AuthorizationRequired\<rparr>, w)
      else case sp_random P kKitsuSecretBytes w of
        (None, w) \<Rightarrow> (CryptoFailed, None, s\<lparr>dv_last := CryptoFailed\<rparr>, w)
      | (Some root, w) \<Rightarrow> (SecOk, Some root, s\<lparr>dv_last := SecOk\<rparr>, w))"

definition commit_target :: "bytes \<Rightarrow> Material \<Rightarrow> nat option" where
  "commit_target controllerId m =
     (case controller_index controllerId m of Some i \<Rightarrow> Some i
      | None \<Rightarrow> find (\<lambda>i. \<not> ct_valid (mt_controllers m ! i)) [0 ..< kKitsuControllerCapacity])"

definition commitControllerAfterPairing :: "'w SecurityStorage \<Rightarrow> 'w SecurityPlatform \<Rightarrow> bytes option \<Rightarrow> bytes option
    \<Rightarrow> PairingLink \<Rightarrow> bool \<Rightarrow> ControllerRole \<Rightarrow> DeviceSecurity \<Rightarrow> 'w \<Rightarrow> SecurityResult \<times> DeviceSecurity \<times> 'w" where
  "commitControllerAfterPairing St P controllerId pendingRoot l pairCommitVerified role s w =
     (if \<not> dv_begun s then (NotBegun, s\<lparr>dv_last := NotBegun\<rparr>, w)
      else if controllerId = None \<or> pendingRoot = None then (SecInvalidArgument, s\<lparr>dv_last := SecInvalidArgument\<rparr>, w)
      else if role \<noteq> RoleOwner \<and> role \<noteq> RoleCaretaker then (SecInvalidArgument, s\<lparr>dv_last := SecInvalidArgument\<rparr>, w)
      else if \<not> link_trusted l \<or> \<not> pairCommitVerified
      then (AuthorizationRequired, s\<lparr>dv_last := AuthorizationRequired\<rparr>, w)
      else if list_all (\<lambda>b. b = 0) (the controllerId) \<or> list_all (\<lambda>b. b = 0) (the pendingRoot)
      then (SecInvalidArgument, s\<lparr>dv_last := SecInvalidArgument\<rparr>, w)
      else case commit_target (the controllerId) (dv_material s) of
        None \<Rightarrow> (ControllerTableFull, s\<lparr>dv_last := ControllerTableFull\<rparr>, w)
      | Some target \<Rightarrow>
        let old = mt_controllers (dv_material s) ! target;
            new = \<lparr>ct_valid = True, ct_role = role, ct_id = the controllerId, ct_root = the pendingRoot\<rparr>;
            s1 = s\<lparr>dv_material := (dv_material s)\<lparr>mt_controllers := (mt_controllers (dv_material s))[target := new]\<rparr>\<rparr> in
        (case persist St P s1 w of (persisted, s2, w) \<Rightarrow>
          if persisted \<noteq> SecOk
          then (persisted, s2\<lparr>dv_material := (dv_material s2)\<lparr>mt_controllers := (mt_controllers (dv_material s2))[target := old]\<rparr>\<rparr>, w)
          else (persisted, s2, w)))"

text \<open>The end of both revocations: a reduced controller table is written with the pending mark, then the
  previous slot is retired.\<close>

definition revoke_to :: "'w SecurityStorage \<Rightarrow> 'w SecurityPlatform \<Rightarrow> Controller list \<Rightarrow> DeviceSecurity \<Rightarrow> 'w
    \<Rightarrow> SecurityResult \<times> DeviceSecurity \<times> 'w" where
  "revoke_to St P controllers s w =
     (case persist St P (s\<lparr>dv_material := (dv_material s)\<lparr>mt_controllers := controllers, mt_pending := True\<rparr>\<rparr>) w of
        (persisted, s1, w) \<Rightarrow>
      if persisted \<noteq> SecOk
      then (persisted, s1\<lparr>dv_material := (dv_material s1)\<lparr>mt_controllers := mt_controllers (dv_material s), mt_pending := False\<rparr>\<rparr>, w)
      else retirePreviousSlot St P s1 w)"

definition resume_retirement :: "'w SecurityStorage \<Rightarrow> 'w SecurityPlatform \<Rightarrow> DeviceSecurity \<Rightarrow> 'w
    \<Rightarrow> SecurityResult \<times> DeviceSecurity \<times> 'w" where
  "resume_retirement St P s w =
     (if mt_pending (dv_material s) then retirePreviousSlot St P s w else (SecOk, s, w))"

definition revokeController :: "'w SecurityStorage \<Rightarrow> 'w SecurityPlatform \<Rightarrow> bytes \<Rightarrow> DeviceSecurity \<Rightarrow> 'w
    \<Rightarrow> SecurityResult \<times> DeviceSecurity \<times> 'w" where
  "revokeController St P controllerId s0 w0 =
     (case resume_retirement St P s0 w0 of (resumed, s, w) \<Rightarrow>
      if resumed \<noteq> SecOk then (resumed, s, w)
      else case controller_index controllerId (dv_material s) of
        None \<Rightarrow> let result = (if mt_pending (dv_material s0) then SecOk else ControllerNotProvisioned) in (result, s\<lparr>dv_last := result\<rparr>, w)
      | Some target \<Rightarrow> revoke_to St P ((mt_controllers (dv_material s))[target := controller0]) s w)"

definition revokeControllerAfterPhysicalConfirmation :: "'w SecurityStorage \<Rightarrow> 'w SecurityPlatform \<Rightarrow> bytes option \<Rightarrow> bool
    \<Rightarrow> DeviceSecurity \<Rightarrow> 'w \<Rightarrow> SecurityResult \<times> DeviceSecurity \<times> 'w" where
  "revokeControllerAfterPhysicalConfirmation St P controllerId physicalConfirmed s w =
     (if \<not> dv_begun s then (NotBegun, s\<lparr>dv_last := NotBegun\<rparr>, w)
      else case controllerId of None \<Rightarrow> (SecInvalidArgument, s\<lparr>dv_last := SecInvalidArgument\<rparr>, w)
      | Some cid \<Rightarrow>
        if \<not> physicalConfirmed then (AuthorizationRequired, s\<lparr>dv_last := AuthorizationRequired\<rparr>, w)
        else revokeController St P cid s w)"

definition revokeAuthenticatedController :: "'w SecurityStorage \<Rightarrow> 'w SecurityPlatform \<Rightarrow> bytes option
    \<Rightarrow> DeviceSecurity \<Rightarrow> 'w \<Rightarrow> SecurityResult \<times> DeviceSecurity \<times> 'w" where
  "revokeAuthenticatedController St P controllerId s w =
     (if \<not> dv_begun s then (NotBegun, s\<lparr>dv_last := NotBegun\<rparr>, w)
      else case controllerId of None \<Rightarrow> (SecInvalidArgument, s\<lparr>dv_last := SecInvalidArgument\<rparr>, w)
      | Some cid \<Rightarrow> revokeController St P cid s w)"

definition revokeAllControllersAfterPhysicalConfirmation :: "'w SecurityStorage \<Rightarrow> 'w SecurityPlatform \<Rightarrow> bool
    \<Rightarrow> DeviceSecurity \<Rightarrow> 'w \<Rightarrow> SecurityResult \<times> DeviceSecurity \<times> 'w" where
  "revokeAllControllersAfterPhysicalConfirmation St P physicalConfirmed s w =
     (if \<not> dv_begun s then (NotBegun, s\<lparr>dv_last := NotBegun\<rparr>, w)
      else if \<not> physicalConfirmed then (AuthorizationRequired, s\<lparr>dv_last := AuthorizationRequired\<rparr>, w)
      else case resume_retirement St P s w of (resumed, s, w) \<Rightarrow>
        if resumed \<noteq> SecOk then (resumed, s, w)
        else if \<not> list_ex ct_valid (mt_controllers (dv_material s)) then (SecOk, s\<lparr>dv_last := SecOk\<rparr>, w)
        else revoke_to St P (replicate kKitsuControllerCapacity controller0) s w)"

subsection \<open>The storage adapter\<close>

text \<open>The Preferences library: the length of a value (0 when missing), reading, writing and removing it.\<close>

record 'w PreferenceOps =
  pf_length :: "string \<Rightarrow> 'w \<Rightarrow> nat"
  pf_get :: "string \<Rightarrow> 'w \<Rightarrow> bytes \<times> 'w"
  pf_put :: "string \<Rightarrow> bytes \<Rightarrow> 'w \<Rightarrow> nat \<times> 'w"
  pf_remove :: "string \<Rightarrow> 'w \<Rightarrow> bool \<times> 'w"

definition slotKey :: "u8 \<Rightarrow> string option" where
  "slotKey slot = (if slot = 0 then Some ''slot_a'' else if slot = 1 then Some ''slot_b'' else None)"

definition readPreferenceSlot :: "'w PreferenceOps \<Rightarrow> bool \<Rightarrow> u8 \<Rightarrow> nat \<Rightarrow> 'w \<Rightarrow> bytes option \<times> 'w" where
  "readPreferenceSlot Q begun slot capacity w =
     (case slotKey slot of None \<Rightarrow> (None, w)
      | Some key \<Rightarrow>
        if \<not> begun then (None, w)
        else let bytes = pf_length Q key w in
        if bytes = 0 then (Some [], w)
        else if bytes > capacity then (None, w)
        else (case pf_get Q key w of (got, w) \<Rightarrow> if length got \<noteq> bytes then (None, w) else (Some got, w)))"

definition writePreferenceSlot :: "'w PreferenceOps \<Rightarrow> bool \<Rightarrow> u8 \<Rightarrow> bytes \<Rightarrow> nat \<Rightarrow> 'w \<Rightarrow> bool \<times> 'w" where
  "writePreferenceSlot Q begun slot input maximumBytes w =
     (case slotKey slot of None \<Rightarrow> (False, w)
      | Some key \<Rightarrow>
        if \<not> begun \<or> input = [] \<or> length input > maximumBytes then (False, w)
        else (case pf_put Q key input w of (written, w) \<Rightarrow> (written = length input, w)))"

definition esp32_clearSlot :: "'w PreferenceOps \<Rightarrow> bool \<Rightarrow> u8 \<Rightarrow> 'w \<Rightarrow> bool \<times> 'w" where
  "esp32_clearSlot Q begun slot w =
     (case slotKey slot of None \<Rightarrow> (False, w)
      | Some key \<Rightarrow>
        if \<not> begun then (False, w)
        else if pf_length Q key w = 0 then (True, w)
        else pf_remove Q key w)"

definition Esp32DeviceSecurityStorage :: "'w PreferenceOps \<Rightarrow> bool \<Rightarrow> 'w SecurityStorage" where
  "Esp32DeviceSecurityStorage Q begun =
     \<lparr>st_read = (\<lambda>slot. readPreferenceSlot Q begun slot kSecurityBlobCapacity),
      st_write = (\<lambda>slot input. writePreferenceSlot Q begun slot input kSecurityBlobCapacity),
      st_clear = esp32_clearSlot Q begun\<rparr>"

end
