(* ===== verification/Security_Laws.thy ===== *)
theory Security_Laws
  imports Security_Store
begin

unbundle bit_operations_syntax

text \<open>
  Laws of the two-slot security store: a record that was written decodes to the material it was made from, the
  active slot always holds the material in memory, a committed controller survives a reboot and a failed commit
  leaves the old or the new table, and a revoked controller cannot come back from either slot.
\<close>

subsection \<open>The byte image of the material\<close>

definition controller_wf :: "Controller \<Rightarrow> bool" where
  "controller_wf c \<longleftrightarrow> length (ct_id c) = 16 \<and> length (ct_root c) = 32 \<and> (ct_role c = RoleOwner \<or> ct_role c = RoleCaretaker)"

definition material_wf :: "Material \<Rightarrow> bool" where
  "material_wf m \<longleftrightarrow> length (mt_deviceId m) = 16 \<and> length (mt_deviceSecret m) = 32 \<and> length (mt_controllers m) = 4
     \<and> list_all controller_wf (mt_controllers m)"

definition controller_bytes :: "Controller \<Rightarrow> bytes" where
  "controller_bytes c = [if ct_valid c then 1 else 0, ct_role c, 0, 0] @ ct_id c @ ct_root c"

lemma controller_image_wf: "controller_wf c \<Longrightarrow> controller_image c = Some (controller_bytes c)"
  by (auto simp: controller_wf_def controller_image_def controller_bytes_def encodeControllerRolePadding_def
      kControllerRolePaddingBytes_def numeral_3_eq_3)

lemma controller_images_wf:
  "list_all controller_wf cs \<Longrightarrow> controller_images cs = Some (concat (map controller_bytes cs))"
  by (induction cs) (simp_all add: controller_image_wf)

lemma length_controller_bytes [simp]: "controller_wf c \<Longrightarrow> length (controller_bytes c) = 52"
  by (simp add: controller_wf_def controller_bytes_def)

lemma getU16_put: "getU16 (xs @ putU16 v @ ys) (length xs) = v"
  unfolding getU16_def putU16_def
  by (rule bit_word_eqI) (auto simp: nth_append bit_simps)

lemma getU32_put: "getU32 (xs @ putU32 v @ ys) (length xs) = v"
proof -
  have "(ucast (ucast v :: u8) OR push_bit 8 (ucast (ucast (drop_bit 8 v) :: u8)) OR push_bit 16 (ucast (ucast (drop_bit 16 v) :: u8))
      OR push_bit 24 (ucast (ucast (drop_bit 24 v) :: u8)) :: u32) = v"
  proof (rule bit_word_eqI)
    fix n :: nat
    assume "n < LENGTH(32)"
    then consider "n < 8" | "8 \<le> n" "n < 16" | "16 \<le> n" "n < 24" | "24 \<le> n" "n < 32" by fastforce
    then show "bit (ucast (ucast v :: u8) OR push_bit 8 (ucast (ucast (drop_bit 8 v) :: u8)) OR push_bit 16 (ucast (ucast (drop_bit 16 v) :: u8))
      OR push_bit 24 (ucast (ucast (drop_bit 24 v) :: u8)) :: u32) n = bit v n"
      by cases (auto simp: bit_simps)
  qed
  then show ?thesis by (simp add: getU32_def putU32_def nth_append)
qed

text \<open>The plaintext of well-formed material.\<close>

definition material_head :: "Material \<Rightarrow> bytes" where
  "material_head m = kPlainMagic @ putU16 kSecurityVersion @ putU16 (word_of_nat kPlainBytes)
     @ putU32 (if mt_pending m then 2 else 0) @ mt_deviceId m @ mt_deviceSecret m @ replicate 32 0"

definition material_body :: "Material \<Rightarrow> bytes" where
  "material_body m = material_head m @ concat (map controller_bytes (mt_controllers m)) @ replicate 16 0"

definition material_plain :: "Material \<Rightarrow> bytes" where
  "material_plain m = material_body m @ putU32 (sec_crc32 (material_body m))"

lemma length_head [simp]: "material_wf m \<Longrightarrow> length (material_head m) = 92"
  by (simp add: material_wf_def material_head_def kPlainMagic_def putU16_def putU32_def)

lemma length_table: "list_all controller_wf cs \<Longrightarrow> length (concat (map controller_bytes cs)) = 52 * length cs"
  by (induction cs) simp_all

lemma length_body [simp]: "material_wf m \<Longrightarrow> length (material_body m) = 316"
  by (simp add: material_body_def length_table material_wf_def [of m])

lemma plain_image_wf: "material_wf m \<Longrightarrow> plain_image m = Some (material_plain m)"
proof -
  assume m: "material_wf m"
  then have "controller_images (mt_controllers m) = Some (concat (map controller_bytes (mt_controllers m)))"
    by (simp add: material_wf_def controller_images_wf)
  moreover have "length (material_body m) = kPlainCrcOffset" using m by (simp add: sec_consts)
  ultimately show ?thesis
    by (simp add: plain_image_def material_plain_def material_body_def material_head_def Let_def kRetiredKeyBytes_def kRetiredCounterBytes_def)
qed

lemma containsNonzero_zeros: "\<not> containsNonzero (replicate n 0)"
proof -
  have "foldl (OR) 0 (replicate n (0 :: u8)) = 0" by (induction n) simp_all
  then show ?thesis by (simp add: containsNonzero_def)
qed

lemma plain_fields:
  assumes m: "material_wf m"
  shows "take 4 (material_plain m) = kPlainMagic" "getU16 (material_plain m) 4 = kSecurityVersion"
    "getU16 (material_plain m) 6 = word_of_nat kPlainBytes" "getU32 (material_plain m) 8 = (if mt_pending m then 2 else 0)"
    "take 16 (drop 12 (material_plain m)) = mt_deviceId m" "take 32 (drop 28 (material_plain m)) = mt_deviceSecret m"
    "take 32 (drop 60 (material_plain m)) = replicate 32 0" "take 16 (drop 300 (material_plain m)) = replicate 16 0"
    "take 316 (material_plain m) = material_body m" "getU32 (material_plain m) 316 = sec_crc32 (material_body m)"
proof -
  define rest where "rest = concat (map controller_bytes (mt_controllers m)) @ replicate 16 0 @ putU32 (sec_crc32 (material_body m))"
  have len: "length (mt_deviceId m) = 16" "length (mt_deviceSecret m) = 32" "length kPlainMagic = 4" "\<And>v. length (putU16 v) = 2"
    "\<And>v. length (putU32 v) = 4" "length (concat (map controller_bytes (mt_controllers m))) = 208"
    using m by (simp_all add: material_wf_def kPlainMagic_def putU16_def putU32_def length_table)
  have p: "material_plain m = kPlainMagic @ putU16 kSecurityVersion @ putU16 (word_of_nat kPlainBytes)
      @ putU32 (if mt_pending m then 2 else 0) @ mt_deviceId m @ mt_deviceSecret m @ replicate 32 0 @ rest"
    by (simp add: material_plain_def material_body_def material_head_def rest_def)
  show "take 4 (material_plain m) = kPlainMagic" "take 16 (drop 12 (material_plain m)) = mt_deviceId m"
    "take 32 (drop 28 (material_plain m)) = mt_deviceSecret m" "take 32 (drop 60 (material_plain m)) = replicate 32 0"
    by (simp_all add: p len)
  show "getU16 (material_plain m) 4 = kSecurityVersion"
    using getU16_put [of kPlainMagic kSecurityVersion] by (simp add: p len)
  show "getU16 (material_plain m) 6 = word_of_nat kPlainBytes"
    using getU16_put [of "kPlainMagic @ putU16 kSecurityVersion" "word_of_nat kPlainBytes"] by (simp add: p len)
  show "getU32 (material_plain m) 8 = (if mt_pending m then 2 else 0)"
    using getU32_put [of "kPlainMagic @ putU16 kSecurityVersion @ putU16 (word_of_nat kPlainBytes)" "if mt_pending m then 2 else 0"]
    by (simp add: p len)
  show "take 16 (drop 300 (material_plain m)) = replicate 16 0" by (simp add: p rest_def len)
  show "take 316 (material_plain m) = material_body m" using m by (simp add: material_plain_def)
  show "getU32 (material_plain m) 316 = sec_crc32 (material_body m)"
    using getU32_put [of "material_body m" "sec_crc32 (material_body m)" "[]"] m by (simp add: material_plain_def)
qed

lemma plain_ok_wf: "material_wf m \<Longrightarrow> plain_ok (material_plain m)"
  by (simp add: plain_ok_def plain_fields sec_consts)

lemma plain_entry:
  assumes m: "material_wf m" and i: "i < 4" and k: "k + n \<le> 52"
  shows "take n (drop (92 + 52 * i + k) (material_plain m)) = take n (drop k (controller_bytes (mt_controllers m ! i)))"
proof -
  let ?cs = "mt_controllers m"
  have cs: "length ?cs = 4" "list_all controller_wf ?cs" using m by (simp_all add: material_wf_def)
  then have split: "?cs = take i ?cs @ ?cs ! i # drop (Suc i) ?cs" using i by (metis id_take_nth_drop)
  have wf: "controller_wf (?cs ! i)" using cs i by (simp add: list_all_length)
  have wft: "list_all controller_wf (take i ?cs)" using cs by (auto simp: list_all_iff dest: in_set_takeD)
  define tail where "tail = concat (map controller_bytes (drop (Suc i) ?cs)) @ replicate 16 0 @ putU32 (sec_crc32 (material_body m))"
  have "concat (map controller_bytes ?cs) = concat (map controller_bytes (take i ?cs)) @ controller_bytes (?cs ! i)
      @ concat (map controller_bytes (drop (Suc i) ?cs))"
    using arg_cong [OF split, of "\<lambda>x. concat (map controller_bytes x)"] by (simp del: append_take_drop_id)
  then have "material_plain m = (material_head m @ concat (map controller_bytes (take i ?cs))) @ controller_bytes (?cs ! i) @ tail"
    by (simp add: material_plain_def material_body_def tail_def)
  moreover have "length (material_head m @ concat (map controller_bytes (take i ?cs))) = 92 + 52 * i"
    using m wft cs i by (simp add: length_table)
  ultimately have "drop (92 + 52 * i) (material_plain m) = controller_bytes (?cs ! i) @ tail" by simp
  then have "drop (92 + 52 * i + k) (material_plain m) = drop k (controller_bytes (?cs ! i) @ tail)"
    by (metis add.commute drop_drop)
  then show ?thesis using wf k by simp
qed

lemma plain_entry_nth:
  assumes "material_wf m" "i < 4"
  shows "material_plain m ! (92 + 52 * i) = (if ct_valid (mt_controllers m ! i) then 1 else 0)"
proof -
  have "material_wf m \<Longrightarrow> length (material_plain m) = 320" by (simp add: material_plain_def putU32_def)
  then have "92 + 52 * i < length (material_plain m)" using assms by simp
  then have "take 1 (drop (92 + 52 * i) (material_plain m)) = [material_plain m ! (92 + 52 * i)]"
    by (simp add: take_Suc_conv_app_nth Cons_nth_drop_Suc [symmetric] del: take_Suc)
  with plain_entry [OF assms, of 0 1] show ?thesis by (simp add: controller_bytes_def)
qed

lemma decode_entry:
  assumes m: "material_wf m" and i: "i < 4"
  shows "decodeControllerRolePadding (Some (take 3 (drop (92 + 52 * i + 1) (material_plain m)))) kControllerRolePaddingBytes
      = (RoleCodecOk, ct_role (mt_controllers m ! i))"
    "take 16 (drop (92 + 52 * i + 4) (material_plain m)) = ct_id (mt_controllers m ! i)"
    "take 32 (drop (92 + 52 * i + 20) (material_plain m)) = ct_root (mt_controllers m ! i)"
proof -
  have wf: "controller_wf (mt_controllers m ! i)" using m i by (simp add: material_wf_def list_all_length)
  have "take 3 (drop (92 + 52 * i + 1) (material_plain m)) = [ct_role (mt_controllers m ! i), 0, 0]"
    using plain_entry [OF m i, of 1 3] by (simp add: controller_bytes_def numeral_3_eq_3)
  with wf show "decodeControllerRolePadding (Some (take 3 (drop (92 + 52 * i + 1) (material_plain m)))) kControllerRolePaddingBytes
      = (RoleCodecOk, ct_role (mt_controllers m ! i))"
    by (auto simp: decodeControllerRolePadding_def controller_wf_def)
  show "take 16 (drop (92 + 52 * i + 4) (material_plain m)) = ct_id (mt_controllers m ! i)"
    using plain_entry [OF m i, of 4 16] wf by (simp add: controller_bytes_def controller_wf_def)
  show "take 32 (drop (92 + 52 * i + 20) (material_plain m)) = ct_root (mt_controllers m ! i)"
    using plain_entry [OF m i, of 20 32] wf by (simp add: controller_bytes_def controller_wf_def)
qed

lemma controller_overwritten:
  "c\<lparr>ct_valid := ct_valid k, ct_role := ct_role k, ct_id := ct_id k, ct_root := ct_root k\<rparr> = (k :: Controller)"
  by simp

lemma decode_controllers_wf:
  assumes m: "material_wf m" and slots: "list_all (\<lambda>i. i < 4) ks" and d: "length (mt_controllers d) = 4"
  shows "\<exists>cs. decode_controllers ks (material_plain m) d = (True, d\<lparr>mt_controllers := cs\<rparr>) \<and> length cs = 4 \<and>
    (\<forall>j < 4. cs ! j = (if j \<in> set ks then mt_controllers m ! j else mt_controllers d ! j))"
  using slots d
proof (induction ks arbitrary: d)
  case Nil
  then show ?case by (intro exI [of _ "mt_controllers d"]) simp
next
  case (Cons i ks)
  have i: "i < 4" using Cons.prems by simp
  have valid: "(material_plain m ! (92 + 52 * i) \<noteq> 0) = ct_valid (mt_controllers m ! i)"
    using plain_entry_nth [OF m i] by simp
  define d' where "d' = d\<lparr>mt_controllers := (mt_controllers d)[i := mt_controllers m ! i]\<rparr>"
  have step: "decode_controllers (i # ks) (material_plain m) d = decode_controllers ks (material_plain m) d'"
    unfolding decode_controllers.simps Let_def decode_entry [OF m i] prod.case d'_def valid controller_overwritten by simp
  have "length (mt_controllers d') = 4" using Cons.prems by (simp add: d'_def)
  from Cons.IH [OF _ this] Cons.prems obtain cs where
    cs: "decode_controllers ks (material_plain m) d' = (True, d'\<lparr>mt_controllers := cs\<rparr>)" "length cs = 4"
      "\<forall>j < 4. cs ! j = (if j \<in> set ks then mt_controllers m ! j else mt_controllers d' ! j)" by auto
  show ?case
    unfolding step using cs i Cons.prems by (intro exI [of _ cs]) (auto simp: d'_def nth_list_update)
qed

text \<open>What a plaintext decodes to.\<close>

definition load_plain :: "bytes \<Rightarrow> bool \<times> bool \<times> Material" where
  "load_plain plain = (case decodeLoaded 364 (dv_clear\<lparr>dv_crypt := plain\<rparr>) of (ok, retired, s) \<Rightarrow> (ok, retired, dv_material s))"

lemma load_plain_wf: "material_wf m \<Longrightarrow> load_plain (material_plain m) = (True, False, m)"
proof -
  assume m: "material_wf m"
  define d where "d = material0\<lparr>mt_deviceId := mt_deviceId m, mt_deviceSecret := mt_deviceSecret m\<rparr>"
  have "length (mt_controllers d) = 4" by (simp add: d_def material0_def)
  from decode_controllers_wf [OF m _ this, of "[0 ..< 4]"] obtain cs where
    cs: "decode_controllers [0 ..< 4] (material_plain m) d = (True, d\<lparr>mt_controllers := cs\<rparr>)" "length cs = 4"
      "\<forall>j < 4. cs ! j = mt_controllers m ! j" by (auto simp: list_all_iff)
  have "cs = mt_controllers m" using cs m by (intro nth_equalityI) (simp_all add: material_wf_def)
  then have "decode_controllers [0 ..< 4] (material_plain m) d = (True, d\<lparr>mt_controllers := mt_controllers m\<rparr>)" using cs by simp
  then show ?thesis
    by (simp add: load_plain_def decodeLoaded_def sec_consts plain_fields [OF m] dv_clear_def d_def containsNonzero_zeros material0_def
        del: upt_rec_numeral)
qed

subsection \<open>The interfaces\<close>

text \<open>The contract of storage and randomness, over the contents of the slots: reading changes nothing and returns the
  content or fails; a write or removal touches its slot only, and when it fails the slot holds the old value, the new
  one, or none.\<close>

definition storage_laws :: "'w SecurityStorage \<Rightarrow> 'w SecurityPlatform \<Rightarrow> ('w \<Rightarrow> u8 \<Rightarrow> bytes) \<Rightarrow> bool" where
  "storage_laws St P slots \<longleftrightarrow>
     (\<forall>slot w. slots (snd (st_read St slot w)) = slots w \<and> (\<forall>raw. fst (st_read St slot w) = Some raw \<longrightarrow> raw = slots w slot))
     \<and> (\<forall>slot v w. (\<forall>k. k \<noteq> slot \<longrightarrow> slots (snd (st_write St slot v w)) k = slots w k)
          \<and> (fst (st_write St slot v w) \<longrightarrow> slots (snd (st_write St slot v w)) slot = v)
          \<and> slots (snd (st_write St slot v w)) slot \<in> {slots w slot, v, []})
     \<and> (\<forall>slot w. (\<forall>k. k \<noteq> slot \<longrightarrow> slots (snd (st_clear St slot w)) k = slots w k)
          \<and> (fst (st_clear St slot w) \<longrightarrow> slots (snd (st_clear St slot w)) slot = [])
          \<and> slots (snd (st_clear St slot w)) slot \<in> {slots w slot, []})
     \<and> (\<forall>n w. slots (snd (sp_random P n w)) = slots w \<and> (\<forall>b. fst (sp_random P n w) = Some b \<longrightarrow> length b = n))"

text \<open>The contract of the cipher: a sealed text has the length of the plain one and opens to it.\<close>

definition cipher_laws :: "'w SecurityPlatform \<Rightarrow> bool" where
  "cipher_laws P \<longleftrightarrow> (\<forall>k g n p c t. sp_seal P k g n p = Some (c, t) \<longrightarrow>
     length c = length p \<and> length t = 16 \<and> sp_open P k g n c t = Some p)"

lemma read_law:
  assumes "storage_laws St P slots" "st_read St slot w = (r, w')"
  shows "slots w' = slots w \<and> (\<forall>raw. r = Some raw \<longrightarrow> raw = slots w slot)"
  using assms(1) [unfolded storage_laws_def, THEN conjunct1, THEN spec, of slot, THEN spec, of w] assms(2) by simp

lemma write_law:
  assumes "storage_laws St P slots" "st_write St slot v w = (ok, w')"
  shows "(\<forall>k. k \<noteq> slot \<longrightarrow> slots w' k = slots w k) \<and> (ok \<longrightarrow> slots w' slot = v) \<and> slots w' slot \<in> {slots w slot, v, []}"
  using assms(1) [unfolded storage_laws_def, THEN conjunct2, THEN conjunct1, THEN spec, of slot, THEN spec, of v, THEN spec, of w]
    assms(2) by simp

lemma clear_law:
  assumes "storage_laws St P slots" "st_clear St slot w = (ok, w')"
  shows "(\<forall>k. k \<noteq> slot \<longrightarrow> slots w' k = slots w k) \<and> (ok \<longrightarrow> slots w' slot = []) \<and> slots w' slot \<in> {slots w slot, []}"
  using assms(1) [unfolded storage_laws_def, THEN conjunct2, THEN conjunct2, THEN conjunct1, THEN spec, of slot, THEN spec, of w]
    assms(2) by simp

lemma random_law:
  assumes "storage_laws St P slots" "sp_random P n w = (r, w')"
  shows "slots w' = slots w \<and> (\<forall>b. r = Some b \<longrightarrow> length b = n)"
  using assms(1) [unfolded storage_laws_def, THEN conjunct2, THEN conjunct2, THEN conjunct2, THEN spec, of n, THEN spec, of w]
    assms(2) by simp

subsection \<open>Slots\<close>

text \<open>The generation and plaintext of a slot that validates.\<close>

definition slot_record :: "'w SecurityPlatform \<Rightarrow> bytes \<Rightarrow> bytes \<Rightarrow> (u32 \<times> bytes) option" where
  "slot_record P key raw =
     (if raw = [] \<or> \<not> outer_ok raw then None
      else case sp_open P key (getU32 raw 8) (take 12 (drop 16 raw)) (take kPlainBytes (drop kOuterHeaderBytes raw))
          (take 16 (drop 28 raw)) of
        None \<Rightarrow> None
      | Some plain \<Rightarrow> if plain_ok plain then Some (getU32 raw 8, plain) else None)"

lemma slot_record_empty [simp]: "slot_record P key [] = None"
  by (simp add: slot_record_def)

text \<open>Validation reads the slot and reports its record; it changes the plaintext buffer and the last result only.\<close>

lemma validateSlot_spec:
  assumes laws: "storage_laws St P slots" and run: "validateSlot St P slot s w = (info, s', w')"
  shows "slots w' = slots w" "s' = s\<lparr>dv_crypt := dv_crypt s', dv_last := dv_last s'\<rparr>"
    "si_valid info \<Longrightarrow> slot_record P (dv_key s) (slots w slot) = Some (si_generation info, dv_crypt s') \<and> si_bytes info = 364
       \<and> si_nonempty info"
    "\<not> si_valid info \<Longrightarrow> dv_last s \<noteq> StorageReadFailed \<Longrightarrow> dv_last s' \<noteq> StorageReadFailed \<Longrightarrow>
       slot_record P (dv_key s) (slots w slot) = None \<and> si_nonempty info = (slots w slot \<noteq> [])"
    "fst (st_read St slot w) \<noteq> None \<Longrightarrow> dv_last s \<noteq> StorageReadFailed \<Longrightarrow> dv_last s' \<noteq> StorageReadFailed"
proof -
  obtain r v where r: "st_read St slot w = (r, v)" by (cases "st_read St slot w")
  note law = read_law [OF laws r]
  have len: "length raw = 364" if "outer_ok raw" for raw using that by (simp add: outer_ok_def sec_consts)
  show "slots w' = slots w" "s' = s\<lparr>dv_crypt := dv_crypt s', dv_last := dv_last s'\<rparr>"
    using run law r by (auto simp: validateSlot_def Let_def split: option.splits if_splits)
  show "slot_record P (dv_key s) (slots w slot) = Some (si_generation info, dv_crypt s') \<and> si_bytes info = 364 \<and> si_nonempty info"
    if "si_valid info"
    using run law r that by (auto simp: validateSlot_def Let_def slot_record_def len split: option.splits if_splits)
  show "slot_record P (dv_key s) (slots w slot) = None \<and> si_nonempty info = (slots w slot \<noteq> [])"
    if "\<not> si_valid info" "dv_last s \<noteq> StorageReadFailed" "dv_last s' \<noteq> StorageReadFailed"
    using run law r that by (auto simp: validateSlot_def Let_def slot_record_def split: option.splits if_splits)
  show "dv_last s' \<noteq> StorageReadFailed" if "fst (st_read St slot w) \<noteq> None" "dv_last s \<noteq> StorageReadFailed"
    using run r that by (auto simp: validateSlot_def Let_def split: option.splits if_splits)
qed

lemma encode_spec:
  assumes laws: "storage_laws St P slots" "cipher_laws P" and wf: "material_wf (dv_material s)"
    and run: "sec_encode P g s w = (b, w')"
  shows "slots w' = slots w"
    "b = Some blob \<Longrightarrow> length blob = 364 \<and> slot_record P (dv_key s) blob = Some (g, material_plain (dv_material s))"
proof -
  obtain r v where r: "sp_random P kSecurityNonceBytes w = (r, v)" by (cases "sp_random P kSecurityNonceBytes w")
  note law = random_law [OF laws(1) r]
  show "slots w' = slots w"
    using run law r by (auto simp: sec_encode_def plain_image_wf [OF wf] split: option.splits)
  assume "b = Some blob"
  then obtain nonce c t where n: "r = Some nonce" and c: "sp_seal P (dv_key s) g nonce (material_plain (dv_material s)) = Some (c, t)"
    and blob: "blob = kOuterMagic @ putU16 kSecurityVersion @ putU16 (word_of_nat kOuterHeaderBytes) @ putU32 g
      @ putU16 (word_of_nat kPlainBytes) @ putU16 (word_of_nat kPlainBytes) @ nonce @ t @ c"
    using run r by (auto simp: sec_encode_def plain_image_wf [OF wf] split: option.splits)
  have len: "length nonce = 12" "length c = 320" "length t = 16" "length kOuterMagic = 4" "\<And>v. length (putU16 v) = 2" "\<And>v. length (putU32 v) = 4"
    using law n c laws(2) wf by (auto simp: cipher_laws_def sec_consts material_plain_def kOuterMagic_def putU16_def putU32_def)
  have lb: "length blob = 364" by (simp add: blob len)
  have f: "take 4 blob = kOuterMagic" "take 12 (drop 16 blob) = nonce" "take 16 (drop 28 blob) = t" "drop 44 blob = c"
    by (simp_all add: blob len)
  have g: "getU16 blob 4 = kSecurityVersion" "getU16 blob 6 = word_of_nat kOuterHeaderBytes" "getU32 blob 8 = g"
    "getU16 blob 12 = word_of_nat kPlainBytes" "getU16 blob 14 = word_of_nat kPlainBytes"
    using getU16_put [of kOuterMagic kSecurityVersion] getU16_put [of "kOuterMagic @ putU16 kSecurityVersion" "word_of_nat kOuterHeaderBytes"]
      getU32_put [of "kOuterMagic @ putU16 kSecurityVersion @ putU16 (word_of_nat kOuterHeaderBytes)" g]
      getU16_put [of "kOuterMagic @ putU16 kSecurityVersion @ putU16 (word_of_nat kOuterHeaderBytes) @ putU32 g" "word_of_nat kPlainBytes"]
      getU16_put [of "kOuterMagic @ putU16 kSecurityVersion @ putU16 (word_of_nat kOuterHeaderBytes) @ putU32 g @ putU16 (word_of_nat kPlainBytes)"
        "word_of_nat kPlainBytes"]
    by (simp_all add: blob len)
  have "outer_ok blob" using lb f g by (simp add: outer_ok_def sec_consts)
  moreover have "blob \<noteq> []" using lb by auto
  moreover have "sp_open P (dv_key s) g nonce c t = Some (material_plain (dv_material s))" using laws(2) c by (simp add: cipher_laws_def)
  ultimately show "length blob = 364 \<and> slot_record P (dv_key s) blob = Some (g, material_plain (dv_material s))"
    using f g lb len plain_ok_wf [OF wf] by (simp add: slot_record_def kPlainBytes_def kOuterHeaderBytes_def)
qed

subsection \<open>Writing and retiring\<close>

text \<open>A slot with a record of some material; a strict one was written by this version of the store (its retired ranges
  are zero).\<close>

definition slot_rec :: "bool \<Rightarrow> 'w SecurityPlatform \<Rightarrow> bytes \<Rightarrow> bytes \<Rightarrow> u32 \<Rightarrow> Material \<Rightarrow> bool" where
  "slot_rec strict P key raw g m \<longleftrightarrow> (\<exists>plain retired. slot_record P key raw = Some (g, plain) \<and> load_plain plain = (True, retired, m)
     \<and> (strict \<longrightarrow> \<not> retired))"

abbreviation (input) slot_holds :: "'w SecurityPlatform \<Rightarrow> bytes \<Rightarrow> bytes \<Rightarrow> u32 \<Rightarrow> Material \<Rightarrow> bool" where
  "slot_holds \<equiv> slot_rec False"

abbreviation (input) slot_written :: "'w SecurityPlatform \<Rightarrow> bytes \<Rightarrow> bytes \<Rightarrow> u32 \<Rightarrow> Material \<Rightarrow> bool" where
  "slot_written \<equiv> slot_rec True"

lemma written_holds: "slot_written P key raw g m \<Longrightarrow> slot_rec q P key raw g m"
  by (auto simp: slot_rec_def)

lemma rec_holds: "slot_rec q P key raw g m \<Longrightarrow> slot_holds P key raw g m"
  by (auto simp: slot_rec_def)

text \<open>The fields of the object that a write may change.\<close>

definition dv_same :: "DeviceSecurity \<Rightarrow> DeviceSecurity \<Rightarrow> bool" where
  "dv_same s s' \<longleftrightarrow> dv_bound s' = dv_bound s \<and> dv_key s' = dv_key s \<and> dv_begun s' = dv_begun s"

lemma persist_spec:
  assumes laws: "storage_laws St P slots" "cipher_laws P" and wf: "material_wf (dv_material s)"
    and run: "persist St P s w = (r, s', w')"
  defines "t \<equiv> other_slot (dv_active s)"
  shows "dv_same s s'" "dv_material s' = dv_material s" "k \<noteq> t \<Longrightarrow> slots w' k = slots w k"
    "r = SecOk \<Longrightarrow> dv_active s' = Some t \<and> dv_generation s' = dv_generation s + 1
       \<and> slot_written P (dv_key s) (slots w' t) (dv_generation s + 1) (dv_material s)"
    "r \<noteq> SecOk \<Longrightarrow> dv_active s' = dv_active s \<and> dv_generation s' = dv_generation s"
    "slots w' t = slots w t \<or> slots w' t = [] \<or> slot_written P (dv_key s) (slots w' t) (dv_generation s + 1) (dv_material s)"
proof -
  obtain b w1 where e: "sec_encode P (dv_generation s + 1) s w = (b, w1)" by (cases "sec_encode P (dv_generation s + 1) s w")
  note enc = encode_spec [OF laws wf e]
  have goal: "dv_same s s' \<and> dv_material s' = dv_material s \<and> (\<forall>k. k \<noteq> t \<longrightarrow> slots w' k = slots w k) \<and>
    (if r = SecOk then dv_active s' = Some t \<and> dv_generation s' = dv_generation s + 1
       \<and> slot_written P (dv_key s) (slots w' t) (dv_generation s + 1) (dv_material s)
     else dv_active s' = dv_active s \<and> dv_generation s' = dv_generation s) \<and>
    (slots w' t = slots w t \<or> slots w' t = [] \<or> slot_written P (dv_key s) (slots w' t) (dv_generation s + 1) (dv_material s))"
  proof (cases b)
    case None
    then show ?thesis using run e enc(1) by (auto simp: persist_def dv_same_def)
  next
    case (Some blob)
    have blob: "length blob = 364" "slot_record P (dv_key s) blob = Some (dv_generation s + 1, material_plain (dv_material s))"
      using enc(2) [OF Some] by simp_all
    then have holds: "slot_written P (dv_key s) blob (dv_generation s + 1) (dv_material s)"
      using load_plain_wf [OF wf] by (auto simp: slot_rec_def)
    obtain ok w2 where wr: "st_write St t blob w1 = (ok, w2)" by (cases "st_write St t blob w1")
    note wl = write_law [OF laws(1) wr]
    show ?thesis
    proof (cases ok)
      case False
      then show ?thesis
        using run e Some wr wl enc(1) holds by (auto simp: persist_def dv_same_def t_def)
    next
      case True
      obtain info s3 w3 where v: "validateSlot St P t (s\<lparr>dv_last := SecOk\<rparr>) w2 = (info, s3, w3)"
        by (cases "validateSlot St P t (s\<lparr>dv_last := SecOk\<rparr>) w2") auto
      note vs = validateSlot_spec [OF laws(1) v]
      have fr: "dv_bound s3 = dv_bound s" "dv_key s3 = dv_key s" "dv_begun s3 = dv_begun s" "dv_material s3 = dv_material s"
        "dv_active s3 = dv_active s" "dv_generation s3 = dv_generation s"
        by (subst vs(2), simp)+
      have out: "slots w3 t = blob" "\<forall>k. k \<noteq> t \<longrightarrow> slots w3 k = slots w k" using wl True vs(1) enc(1) by simp_all
      have "w' = w3" "s' = (if r = SecOk then s3\<lparr>dv_active := Some t, dv_generation := dv_generation s + 1,
          dv_count := countControllers (dv_material s3), dv_last := SecOk\<rparr> else s3\<lparr>dv_last := ReadbackFailed\<rparr>)"
        using run e Some wr True v by (auto simp: persist_def Let_def t_def split: if_splits)
      with out fr holds show ?thesis by (simp add: dv_same_def)
    qed
  qed
  then show "dv_same s s'" "dv_material s' = dv_material s" "k \<noteq> t \<Longrightarrow> slots w' k = slots w k"
    "r = SecOk \<Longrightarrow> dv_active s' = Some t \<and> dv_generation s' = dv_generation s + 1
       \<and> slot_written P (dv_key s) (slots w' t) (dv_generation s + 1) (dv_material s)"
    "r \<noteq> SecOk \<Longrightarrow> dv_active s' = dv_active s \<and> dv_generation s' = dv_generation s"
    "slots w' t = slots w t \<or> slots w' t = [] \<or> slot_written P (dv_key s) (slots w' t) (dv_generation s + 1) (dv_material s)"
    by auto
qed

text \<open>The active slot holds the material in memory.\<close>

definition sec_live :: "bool \<Rightarrow> 'w SecurityPlatform \<Rightarrow> ('w \<Rightarrow> u8 \<Rightarrow> bytes) \<Rightarrow> DeviceSecurity \<Rightarrow> 'w \<Rightarrow> bool" where
  "sec_live q P slots s w \<longleftrightarrow> dv_bound s \<and> material_wf (dv_material s)
     \<and> (\<exists>a. dv_active s = Some a \<and> (a = 0 \<or> a = 1) \<and> slot_rec q P (dv_key s) (slots w a) (dv_generation s) (dv_material s))"

lemma sec_live_frame [simp]: "sec_live q P slots (s\<lparr>dv_last := x\<rparr>) w = sec_live q P slots s w"
    "sec_live q P slots (s\<lparr>dv_begun := b\<rparr>) w = sec_live q P slots s w" "sec_live q P slots (s\<lparr>dv_count := n\<rparr>) w = sec_live q P slots s w"
  by (simp_all add: sec_live_def)

text \<open>Every slot that validates decodes to material with a property.\<close>

definition slots_all :: "(Material \<Rightarrow> bool) \<Rightarrow> 'w SecurityPlatform \<Rightarrow> bytes \<Rightarrow> (u8 \<Rightarrow> bytes) \<Rightarrow> bool" where
  "slots_all Q P key sl \<longleftrightarrow> (\<forall>i g plain. (i = 0 \<or> i = 1) \<longrightarrow> slot_record P key (sl i) = Some (g, plain) \<longrightarrow>
     (\<exists>retired m. load_plain plain = (True, retired, m) \<and> Q m))"

text \<open>Properties that do not look at the pending mark.\<close>

definition table_property :: "(Material \<Rightarrow> bool) \<Rightarrow> bool" where
  "table_property Q \<longleftrightarrow> (\<forall>m b. Q (m\<lparr>mt_pending := b\<rparr>) = Q m)"

lemma other_slot_range: "a = 0 \<or> a = 1 \<Longrightarrow> (other_slot (Some a) = 0 \<or> other_slot (Some a) = 1) \<and> other_slot (Some a) \<noteq> a
    \<and> other_slot (Some (other_slot (Some a))) = a"
  by (auto simp: other_slot_def)

lemma slots_all_update:
  assumes "slots_all Q P key sl" "\<forall>k. k \<noteq> t \<longrightarrow> sl' k = sl k" "sl' t = sl t \<or> sl' t = [] \<or> slot_written P key (sl' t) g m" "Q m"
  shows "slots_all Q P key sl'"
  unfolding slots_all_def
proof (intro allI impI)
  fix i h plain
  assume i: "i = 0 \<or> i = (1 :: u8)" and rec: "slot_record P key (sl' i) = Some (h, plain)"
  show "\<exists>retired m. load_plain plain = (True, retired, m) \<and> Q m"
  proof (cases "sl' i = sl i")
    case True
    then show ?thesis using assms(1) i rec by (auto simp: slots_all_def)
  next
    case False
    then have "i = t" using assms(2) by blast
    then have "slot_written P key (sl' i) g m" using False rec assms(3) by auto
    then show ?thesis using rec assms(4) by (auto simp: slot_rec_def)
  qed
qed

lemma persist_step:
  assumes laws: "storage_laws St P slots" "cipher_laws P" and live: "sec_live q P slots s w" and wf: "material_wf m"
    and run: "persist St P (s\<lparr>dv_material := m\<rparr>) w = (r, s', w')"
  shows "dv_same s s'" "dv_material s' = m"
    "r = SecOk \<Longrightarrow> sec_live q2 P slots s' w' \<and> dv_active s' = Some (other_slot (dv_active s)) \<and> dv_generation s' = dv_generation s + 1"
    "r \<noteq> SecOk \<Longrightarrow> sec_live q P slots (s'\<lparr>dv_material := dv_material s\<rparr>) w' \<and> dv_active s' = dv_active s \<and> dv_generation s' = dv_generation s"
    "k \<noteq> other_slot (dv_active s) \<Longrightarrow> slots w' k = slots w k"
    "slots_all Q P (dv_key s) (slots w) \<Longrightarrow> Q m \<Longrightarrow> slots_all Q P (dv_key s) (slots w')"
    "slots w' (other_slot (dv_active s)) = slots w (other_slot (dv_active s)) \<or> slots w' (other_slot (dv_active s)) = [] \<or>
       slot_written P (dv_key s) (slots w' (other_slot (dv_active s))) (dv_generation s + 1) m"
    "r = SecOk \<Longrightarrow> slot_written P (dv_key s) (slots w' (other_slot (dv_active s))) (dv_generation s + 1) m"
proof -
  obtain a where a: "dv_active s = Some a" "a = 0 \<or> a = 1" "slot_rec q P (dv_key s) (slots w a) (dv_generation s) (dv_material s)"
    and b: "dv_bound s" "material_wf (dv_material s)" using live by (auto simp: sec_live_def)
  let ?t = "other_slot (dv_active s)"
  have t: "?t = 0 \<or> ?t = 1" "?t \<noteq> a" using other_slot_range [OF a(2)] a(1) by simp_all
  note ps = persist_spec [OF laws _ run, simplified, OF wf]
  have same: "dv_bound s' = dv_bound s" "dv_key s' = dv_key s" "dv_begun s' = dv_begun s" using ps(1) by (simp_all add: dv_same_def)
  then show "dv_same s s'" by (simp add: dv_same_def)
  show m: "dv_material s' = m" by (rule ps(2))
  show "k \<noteq> ?t \<Longrightarrow> slots w' k = slots w k" by (rule ps(3))
  show "r = SecOk \<Longrightarrow> sec_live q2 P slots s' w' \<and> dv_active s' = Some ?t \<and> dv_generation s' = dv_generation s + 1"
    using ps(4) t b wf m same by (simp add: sec_live_def written_holds)
  show "r \<noteq> SecOk \<Longrightarrow> sec_live q P slots (s'\<lparr>dv_material := dv_material s\<rparr>) w' \<and> dv_active s' = dv_active s \<and> dv_generation s' = dv_generation s"
    using ps(5) ps(3) [of a] a b same t by (simp add: sec_live_def)
  show "slots_all Q P (dv_key s) (slots w) \<Longrightarrow> Q m \<Longrightarrow> slots_all Q P (dv_key s) (slots w')"
    using slots_all_update [where sl = "slots w" and t = ?t and g = "dv_generation s + 1" and m = m] ps(3,6) by blast
  show "slots w' ?t = slots w ?t \<or> slots w' ?t = [] \<or> slot_written P (dv_key s) (slots w' ?t) (dv_generation s + 1) m"
    by (rule ps(6))
  show "r = SecOk \<Longrightarrow> slot_written P (dv_key s) (slots w' ?t) (dv_generation s + 1) m" using ps(4) by simp
qed

lemma retire_spec:
  assumes laws: "storage_laws St P slots" "cipher_laws P" and live: "sec_live q P slots s w"
    and run: "retirePreviousSlot St P s w = (r, s', w')"
  shows "dv_same s s'" "sec_live q P slots s' w'" "dv_material s' = (dv_material s)\<lparr>mt_pending := mt_pending (dv_material s')\<rparr>"
    "r = SecOk \<Longrightarrow> \<not> mt_pending (dv_material s')"
    "table_property Q \<Longrightarrow> Q (dv_material s) \<Longrightarrow> slots_all Q P (dv_key s) (slots w) \<Longrightarrow> slots_all Q P (dv_key s) (slots w')"
    "table_property Q \<Longrightarrow> Q (dv_material s) \<Longrightarrow> r = SecOk \<Longrightarrow> mt_pending (dv_material s) \<Longrightarrow> slots_all Q P (dv_key s) (slots w')"
proof -
  obtain a where a: "dv_active s = Some a" "a = 0 \<or> a = 1" "slot_rec q P (dv_key s) (slots w a) (dv_generation s) (dv_material s)"
    and b: "dv_bound s" "material_wf (dv_material s)" using live by (auto simp: sec_live_def)
  let ?t = "other_slot (dv_active s)" and ?m = "(dv_material s)\<lparr>mt_pending := False\<rparr>"
  have t: "?t = 0 \<or> ?t = 1" "?t \<noteq> a" using other_slot_range [OF a(2)] a(1) by simp_all
  have kept: "sec_live q P slots (s\<lparr>dv_last := x\<rparr>) v" if "slots v a = slots w a" for v x
    using that a b by (simp add: sec_live_def)
  have one: "slots_all Q P (dv_key s) (slots v)" if "slots_all Q P (dv_key s) (slots w)" "\<forall>k. k \<noteq> ?t \<longrightarrow> slots v k = slots w k"
      "slots v ?t = slots w ?t \<or> slots v ?t = []" "Q (dv_material s)" for v Q
    by (rule slots_all_update [OF that(1,2) _ that(4), where g = 0]) (use that(3) in blast)
  obtain ok w1 where c: "st_clear St ?t w = (ok, w1)" by (cases "st_clear St ?t w")
  note cl = clear_law [OF laws(1) c]
  obtain raw w2 where rd: "st_read St ?t w1 = (raw, w2)" by (cases "st_read St ?t w1")
  note rl = read_law [OF laws(1) rd]
  obtain p s3 w3 where pe: "persist St P (s\<lparr>dv_material := ?m\<rparr>) w2 = (p, s3, w3)"
    by (cases "persist St P (s\<lparr>dv_material := ?m\<rparr>) w2") auto
  have live2: "sec_live q P slots s w2" using kept [of w2 "dv_last s"] cl rl t by simp
  have wf: "material_wf ?m" using b by (simp add: material_wf_def)
  note ps = persist_step [OF laws live2 wf pe]
  consider (idle) "\<not> mt_pending (dv_material s)" "r = SecOk" "s' = s\<lparr>dv_last := SecOk\<rparr>" "w' = w"
    | (clear) "mt_pending (dv_material s)" "r \<noteq> SecOk" "s' = s\<lparr>dv_last := r\<rparr>" "w' = w1"
    | (readback) "mt_pending (dv_material s)" "r \<noteq> SecOk" "s' = s\<lparr>dv_last := r\<rparr>" "w' = w2"
    | (failed) "mt_pending (dv_material s)" "r \<noteq> SecOk" "p \<noteq> SecOk" "s' = s3\<lparr>dv_material := (dv_material s3)\<lparr>mt_pending := True\<rparr>\<rparr>" "w' = w3"
    | (final) "mt_pending (dv_material s)" "r = SecOk" "p = SecOk" "s' = s3\<lparr>dv_last := SecOk\<rparr>" "w' = w3"
    using run a b c rd pe by (auto simp: retirePreviousSlot_def Let_def split: if_splits bool.splits option.splits)
  then have "dv_same s s' \<and> sec_live q P slots s' w' \<and> dv_material s' = (dv_material s)\<lparr>mt_pending := mt_pending (dv_material s')\<rparr> \<and>
    (r = SecOk \<longrightarrow> \<not> mt_pending (dv_material s')) \<and>
    (table_property Q \<longrightarrow> Q (dv_material s) \<longrightarrow> slots_all Q P (dv_key s) (slots w) \<longrightarrow> slots_all Q P (dv_key s) (slots w')) \<and>
    (table_property Q \<longrightarrow> Q (dv_material s) \<longrightarrow> r = SecOk \<longrightarrow> mt_pending (dv_material s) \<longrightarrow> slots_all Q P (dv_key s) (slots w'))"
  proof cases
    case idle
    then show ?thesis using kept [of w SecOk] by (simp add: dv_same_def)
  next
    case clear
    then show ?thesis using kept [where v = w1] one [where v = w1] cl t by (simp add: dv_same_def)
  next
    case readback
    then show ?thesis using kept [where v = w2] one [where v = w2] cl rl t by (simp add: dv_same_def)
  next
    case failed
    have "dv_material s' = dv_material s" using failed ps(2) by simp
    moreover from this have "s' = s3\<lparr>dv_material := dv_material s\<rparr>" using failed by simp
    moreover have "slots_all Q P (dv_key s) (slots w')" if "table_property Q" "Q (dv_material s)" "slots_all Q P (dv_key s) (slots w)"
      using ps(6) [of Q] one [where v = w2 and Q = Q] cl rl that failed by (simp add: table_property_def)
    ultimately show ?thesis using failed ps(1,4) by (simp add: dv_same_def)
  next
    case final
    have own: "Q ?m" if "table_property Q" "Q (dv_material s)" using that by (simp add: table_property_def)
    have "slots_all Q P (dv_key s) (slots w')" if q: "table_property Q" "Q (dv_material s)"
    proof -
      have "slots w' a = slots w a" using ps(5) [of a] cl rl t final by simp
      moreover have "slot_holds P (dv_key s) (slots w' ?t) (dv_generation s + 1) ?m" using ps(8) final by (simp add: written_holds)
      moreover note rec_holds [OF a(3)]
      ultimately have "\<exists>m. Q m \<and> (\<exists>g. slot_holds P (dv_key s) (slots w' i) g m)" if "i = 0 \<or> i = 1" for i
        using that a(1,2) t q own by (metis (full_types) other_slot_range)
      then show ?thesis by (fastforce simp: slots_all_def slot_rec_def)
    qed
    moreover have "sec_live q P slots s' w'" using ps(3) final by simp
    moreover have "dv_same s s'" "dv_material s' = ?m" using ps(1,2) final by (simp_all add: dv_same_def)
    ultimately show ?thesis by simp
  qed
  then show "dv_same s s'" "sec_live q P slots s' w'" "dv_material s' = (dv_material s)\<lparr>mt_pending := mt_pending (dv_material s')\<rparr>"
    "r = SecOk \<Longrightarrow> \<not> mt_pending (dv_material s')"
    "table_property Q \<Longrightarrow> Q (dv_material s) \<Longrightarrow> slots_all Q P (dv_key s) (slots w) \<Longrightarrow> slots_all Q P (dv_key s) (slots w')"
    "table_property Q \<Longrightarrow> Q (dv_material s) \<Longrightarrow> r = SecOk \<Longrightarrow> mt_pending (dv_material s) \<Longrightarrow> slots_all Q P (dv_key s) (slots w')"
    by blast+
qed

subsection \<open>Loading\<close>

text \<open>Properties of controller tables that every record of a device has: they do not look at the pending mark, they
  include that the fields have their lengths, and they hold for a new device.\<close>

definition fresh_material :: "Material \<Rightarrow> bool" where
  "fresh_material m \<longleftrightarrow> material_wf m \<and> mt_controllers m = replicate 4 controller0"

definition store_property :: "(Material \<Rightarrow> bool) \<Rightarrow> bool" where
  "store_property Q \<longleftrightarrow> table_property Q \<and> (\<forall>m. Q m \<longrightarrow> material_wf m) \<and> (\<forall>m. fresh_material m \<longrightarrow> Q m)"

lemma decodeLoaded_load:
  assumes "dv_material s = material0" "load_plain (dv_crypt s) = (ok, retired, m)"
  shows "decodeLoaded 364 s = (ok, retired, s\<lparr>dv_material := m\<rparr>)"
  using assms by (auto simp: load_plain_def decodeLoaded_def sec_consts dv_clear_def Let_def split: prod.splits if_splits)

lemma begin_chosen_spec:
  assumes laws: "storage_laws St P slots" "cipher_laws P" and Q: "store_property Q"
    and all: "slots_all Q P (dv_key s) (slots w)" and s: "dv_material s = material0" "dv_bound s" "\<not> dv_begun s"
    and chosen: "chosen = 0 \<or> chosen = 1" and run: "begin_chosen St P chosen s w = (r, s', w')"
  shows "slots_all Q P (dv_key s) (slots w') \<and> \<not> dv_begun s' \<and>
    (r = None \<longrightarrow> sec_live True P slots s' w' \<and> dv_key s' = dv_key s \<and> Q (dv_material s'))"
proof -
  obtain info s1 w1 where v: "validateSlot St P chosen s w = (info, s1, w1)" by (cases "validateSlot St P chosen s w") auto
  note vs = validateSlot_spec [OF laws(1) v]
  have f1: "dv_material s1 = material0" "dv_bound s1" "dv_key s1 = dv_key s" "\<not> dv_begun s1"
    by (subst vs(2), simp add: s)+
  have tq: "table_property Q" "\<And>m. Q m \<Longrightarrow> material_wf m" using Q by (simp_all add: store_property_def)
  show ?thesis
  proof (cases "si_valid info \<and> si_nonempty info")
    case False
    then show ?thesis using run v all vs(1) f1 by (auto simp: begin_chosen_def)
  next
    case True
    from vs(3) True have rec: "slot_record P (dv_key s) (slots w chosen) = Some (si_generation info, dv_crypt s1)" "si_bytes info = 364"
      by simp_all
    from all [unfolded slots_all_def, rule_format, OF chosen rec(1)] obtain retired m
      where load: "load_plain (dv_crypt s1) = (True, retired, m)" and Qm: "Q m" by blast
    define s2 where "s2 = s1\<lparr>dv_material := m, dv_active := Some chosen, dv_generation := si_generation info\<rparr>"
    have live2: "sec_live (\<not> retired) P slots s2 w1"
      using rec load chosen tq(2) [OF Qm] f1 vs(1) by (auto simp: sec_live_def s2_def slot_rec_def)
    have s2: "dv_key s2 = dv_key s" "dv_material s2 = m" "\<not> dv_begun s2" using f1 by (simp_all add: s2_def)
    have all1: "slots_all Q P (dv_key s2) (slots w1)" using all vs(1) s2 by simp
    obtain r3 s3 w3 where res: "(if mt_pending m then retirePreviousSlot St P s2 w1 else (SecOk, s2, w1)) = (r3, s3, w3)"
      by (cases "if mt_pending m then retirePreviousSlot St P s2 w1 else (SecOk, s2, w1)") auto
    have st3: "sec_live (\<not> retired) P slots s3 w3 \<and> dv_same s2 s3 \<and> Q (dv_material s3) \<and> slots_all Q P (dv_key s2) (slots w3)"
    proof (cases "mt_pending m")
      case True
      with res have run3: "retirePreviousSlot St P s2 w1 = (r3, s3, w3)" by simp
      note rs = retire_spec [OF laws live2 run3]
      have "Q (dv_material s3)" using rs(3) Qm tq(1) s2 by (metis table_property_def)
      then show ?thesis using rs(1,2) rs(5) [OF tq(1)] Qm all1 s2 by simp
    next
      case False
      with res live2 Qm all1 s2 show ?thesis by (simp add: dv_same_def)
    qed
    then have k3: "dv_key s3 = dv_key s" "\<not> dv_begun s3" using s2 by (simp_all add: dv_same_def)
    define s4 where "s4 = s3\<lparr>dv_material := (dv_material s3)\<lparr>mt_pending := True\<rparr>\<rparr>"
    obtain r5 s5 w5 where per: "persist St P s4 w3 = (r5, s5, w5)" by (cases "persist St P s4 w3") auto
    have Q4: "Q ((dv_material s3)\<lparr>mt_pending := True\<rparr>)" using st3 tq(1) by (simp add: table_property_def)
    note ps = persist_step [OF laws conjunct1 [OF st3] tq(2) [OF Q4] per [unfolded s4_def]]
    have all5: "slots_all Q P (dv_key s) (slots w5)" using ps(6) [of Q] st3 Q4 k3 s2 by simp
    have k5: "dv_key s5 = dv_key s" "\<not> dv_begun s5" "Q (dv_material s5)" using ps(1,2) k3 Q4 by (simp_all add: dv_same_def)
    obtain r6 s6 w6 where ret: "retirePreviousSlot St P s5 w5 = (r6, s6, w6)" by (cases "retirePreviousSlot St P s5 w5") auto
    have fin: "sec_live True P slots s6 w6 \<and> dv_same s5 s6 \<and> Q (dv_material s6) \<and> slots_all Q P (dv_key s) (slots w6)" if "r5 = SecOk"
    proof -
      note rs = retire_spec [OF laws conjunct1 [OF ps(3) [OF that]] ret]
      have "Q (dv_material s6)" using rs(3) k5(3) tq(1) by (metis table_property_def)
      then show ?thesis using rs(1,2) rs(5) [OF tq(1)] k5 all5 by simp
    qed
    consider (resume) "r \<noteq> None" "\<not> dv_begun s'" "w' = w3" | (loaded) "\<not> retired" "r = None" "s' = s3" "w' = w3"
      | (migrate) "r \<noteq> None" "\<not> dv_begun s'" "w' = w5" | (retire) "r5 = SecOk" "r \<noteq> None" "\<not> dv_begun s'" "w' = w6"
      | (migrated) "r5 = SecOk" "r = None" "s' = s6" "w' = w6"
      using run v True rec(2) decodeLoaded_load [OF f1(1) load] res per ret
      by (auto simp: begin_chosen_def Let_def s2_def [symmetric] s4_def [symmetric] dv_clear_def split: if_splits)
    then show ?thesis
      using st3 k3 all5 fin k5 s2 by cases (auto simp: dv_same_def)
  qed
qed

lemma begin_fresh_spec:
  assumes laws: "storage_laws St P slots" "cipher_laws P" and Q: "store_property Q"
    and all: "slots_all Q P (dv_key s) (slots w)" and s: "dv_material s = material0" "dv_bound s" "\<not> dv_begun s" "dv_active s = None"
    and run: "begin_fresh St P s w = (r, s', w')"
  shows "slots_all Q P (dv_key s) (slots w') \<and> (r \<noteq> None \<longrightarrow> \<not> dv_begun s') \<and>
    (r = None \<longrightarrow> sec_live True P slots s' w' \<and> dv_key s' = dv_key s \<and> Q (dv_material s'))"
proof -
  obtain d w1 where r1: "sp_random P kKitsuDeviceIdBytes w = (d, w1)" by (cases "sp_random P kKitsuDeviceIdBytes w")
  obtain e w2 where r2: "sp_random P kKitsuSecretBytes w1 = (e, w2)" by (cases "sp_random P kKitsuSecretBytes w1")
  note l1 = random_law [OF laws(1) r1] and l2 = random_law [OF laws(1) r2]
  show ?thesis
  proof (cases "d = None \<or> e = None")
    case True
    then show ?thesis using run r1 r2 l1 l2 all s by (cases d) (auto simp: begin_fresh_def)
  next
    case False
    then obtain did key where de: "d = Some did" "e = Some key" by auto
    define m where "m = material0\<lparr>mt_deviceId := did, mt_deviceSecret := key\<rparr>"
    define s1 where "s1 = s\<lparr>dv_material := m, dv_begun := True\<rparr>"
    have fresh: "fresh_material m"
      using l1 l2 de by (simp add: fresh_material_def m_def material_wf_def material0_def controller_wf_def controller0_def sec_consts list_all_iff)
    then have wf: "material_wf m" and Qm: "Q m" using Q by (auto simp: fresh_material_def store_property_def)
    obtain p s3 w3 where per: "persist St P s1 w2 = (p, s3, w3)" by (cases "persist St P s1 w2") auto
    have "material_wf (dv_material s1)" using wf by (simp add: s1_def)
    note ps = persist_spec [OF laws this per]
    have t: "other_slot (dv_active s1) = 0" by (simp add: s1_def s other_slot_def)
    have all3: "slots_all Q P (dv_key s) (slots w3)"
      by (rule slots_all_update [OF all _ _ Qm, where t = 0 and g = "dv_generation s1 + 1"])
        (use ps(3,6) [unfolded t] l1 l2 in \<open>simp_all add: s1_def\<close>)
    have out: "s' = (if p = SecOk then s3 else s3\<lparr>dv_begun := False\<rparr>)" "w' = w3" "(r = None) = (p = SecOk)"
      using run r1 r2 de per s by (auto simp: begin_fresh_def m_def s1_def split: if_splits)
    show ?thesis
    proof (cases "p = SecOk")
      case False
      then show ?thesis using out all3 by auto
    next
      case True
      have w: "dv_active s3 = Some 0" "slot_written P (dv_key s) (slots w3 0) (dv_generation s3) m" "dv_material s3 = m" "dv_bound s3"
        "dv_key s3 = dv_key s"
        using ps(1,2,4) [unfolded t] True s by (auto simp: dv_same_def s1_def)
      then have "sec_live True P slots s3 w3" using wf by (simp add: sec_live_def)
      then show ?thesis using True out all3 w Qm by simp
    qed
  qed
qed

text \<open>Every load keeps what all records have in common, and a ready object is live with material of that kind.\<close>

lemma begin_spec:
  assumes laws: "storage_laws St P slots" "cipher_laws P" and Q: "store_property Q"
    and key: "sp_derive P hid = Some key" and all: "slots_all Q P key (slots w)"
    and run: "sec_begin St P (Some hid) w = (r, s', w')"
  shows "slots_all Q P key (slots w') \<and> (dv_begun s' \<longrightarrow> sec_live True P slots s' w' \<and> dv_key s' = key \<and> Q (dv_material s'))"
proof (cases "sp_reflashable P")
  case False
  then show ?thesis using run all by (auto simp: sec_begin_def dv_clear_def)
next
  case True
  define s0 where "s0 = dv_clear\<lparr>dv_bound := True, dv_key := key, dv_last := SecOk\<rparr>"
  obtain i1 s1 w1 where v1: "validateSlot St P 0 s0 w = (i1, s1, w1)" by (cases "validateSlot St P 0 s0 w") auto
  obtain i2 s2 w2 where v2: "validateSlot St P 1 (s1\<lparr>dv_last := SecOk\<rparr>) w1 = (i2, s2, w2)"
    by (cases "validateSlot St P 1 (s1\<lparr>dv_last := SecOk\<rparr>) w1") auto
  note vs1 = validateSlot_spec [OF laws(1) v1] and vs2 = validateSlot_spec [OF laws(1) v2]
  have f1: "\<not> dv_begun s1" by (subst vs1(2), simp add: s0_def dv_clear_def)
  have f2: "dv_material s2 = material0" "dv_bound s2" "\<not> dv_begun s2" "dv_key s2 = key" "dv_active s2 = None"
    by (subst vs2(2), simp, subst vs1(2), simp add: s0_def dv_clear_def)+
  have all2: "slots_all Q P (dv_key s2) (slots w2)" using all vs1(1) vs2(1) f2 by simp
  define go where "go = (case sec_choose i1 i2 of Some chosen \<Rightarrow> begin_chosen St P chosen s2 w2
    | None \<Rightarrow> if si_nonempty i1 \<or> si_nonempty i2 then (Some CorruptStorage, s2\<lparr>dv_last := CorruptStorage\<rparr>, w2) else begin_fresh St P s2 w2)"
  obtain r3 s3 w3 where go3: "go = (r3, s3, w3)" by (cases go) auto
  have ch: "chosen = 0 \<or> chosen = 1" if "sec_choose i1 i2 = Some chosen" for chosen
    using that by (auto simp: sec_choose_def Let_def split: if_splits)
  have st3: "slots_all Q P key (slots w3) \<and> (r3 \<noteq> None \<longrightarrow> \<not> dv_begun s3) \<and>
      (r3 = None \<longrightarrow> sec_live True P slots s3 w3 \<and> dv_key s3 = key \<and> Q (dv_material s3))"
    using go3 begin_chosen_spec [OF laws Q all2 f2(1-3)] begin_fresh_spec [OF laws Q all2 f2(1-3,5)] ch f2 all2
    by (auto simp: go_def split: option.splits if_splits)
  consider "w' = w1" "\<not> dv_begun s'" | "w' = w2" "\<not> dv_begun s'" | "r3 \<noteq> None" "w' = w3" "s' = s3"
    | "r3 = None" "w' = w3" "s' = s3\<lparr>dv_begun := True, dv_count := countControllers (dv_material s3), dv_last := SecOkReflashable\<rparr>"
    using run True key v1 v2 go3 f1 f2
    by (auto simp: sec_begin_def Let_def s0_def [symmetric] go_def [symmetric] split: if_splits option.splits)
  then show ?thesis using st3 all vs1(1) vs2(1) by cases auto
qed

subsection \<open>Pairing\<close>

lemma index_none: "controller_index cid m = None \<longleftrightarrow> (\<forall>i < 4. \<not> (ct_valid (mt_controllers m ! i) \<and> ct_id (mt_controllers m ! i) = cid))"
  by (auto simp: controller_index_def find_None_iff kKitsuControllerCapacity_def)

lemma index_some: "controller_index cid m = Some i \<Longrightarrow> i < 4 \<and> ct_valid (mt_controllers m ! i) \<and> ct_id (mt_controllers m ! i) = cid"
  by (auto simp: controller_index_def find_Some_iff kKitsuControllerCapacity_def)

text \<open>No identifier is provisioned twice.\<close>

definition ids_unique :: "Material \<Rightarrow> bool" where
  "ids_unique m \<longleftrightarrow> (\<forall>i < 4. \<forall>j < 4. ct_valid (mt_controllers m ! i) \<longrightarrow> ct_valid (mt_controllers m ! j) \<longrightarrow>
     ct_id (mt_controllers m ! i) = ct_id (mt_controllers m ! j) \<longrightarrow> i = j)"

definition store_wf :: "Material \<Rightarrow> bool" where
  "store_wf m \<longleftrightarrow> material_wf m \<and> ids_unique m"

text \<open>The tables that lack a controller.\<close>

definition lacks :: "bytes \<Rightarrow> Material \<Rightarrow> bool" where
  "lacks cid m \<longleftrightarrow> store_wf m \<and> controller_index cid m = None"

lemma store_properties: "store_property store_wf" "store_property (lacks cid)"
  by (auto simp: store_property_def table_property_def store_wf_def lacks_def material_wf_def ids_unique_def index_none
      fresh_material_def controller0_def)

lemma index_unique:
  "ids_unique m \<Longrightarrow> i < 4 \<Longrightarrow> ct_valid (mt_controllers m ! i) \<Longrightarrow> controller_index (ct_id (mt_controllers m ! i)) m = Some i"
proof -
  assume u: "ids_unique m" and i: "i < 4" "ct_valid (mt_controllers m ! i)"
  then obtain j where j: "controller_index (ct_id (mt_controllers m ! i)) m = Some j" using index_none by blast
  from index_some [OF j] u i have "j = i" unfolding ids_unique_def by blast
  with j show ?thesis by simp
qed

definition pair_entry :: "bytes \<Rightarrow> bytes \<Rightarrow> ControllerRole \<Rightarrow> Controller" where
  "pair_entry cid root role = \<lparr>ct_valid = True, ct_role = role, ct_id = cid, ct_root = root\<rparr>"

definition paired :: "nat \<Rightarrow> bytes \<Rightarrow> bytes \<Rightarrow> ControllerRole \<Rightarrow> Material \<Rightarrow> Material" where
  "paired target cid root role m = m\<lparr>mt_controllers := (mt_controllers m)[target := pair_entry cid root role]\<rparr>"

lemma commit_target_spec:
  assumes "commit_target cid m = Some target"
  shows "target < 4" "\<forall>i < 4. i \<noteq> target \<longrightarrow> ids_unique m \<longrightarrow> \<not> (ct_valid (mt_controllers m ! i) \<and> ct_id (mt_controllers m ! i) = cid)"
    "ct_valid (mt_controllers m ! target) \<longrightarrow> ct_id (mt_controllers m ! target) = cid"
proof -
  have "target < 4 \<and> (\<forall>i < 4. i \<noteq> target \<longrightarrow> ids_unique m \<longrightarrow> \<not> (ct_valid (mt_controllers m ! i) \<and> ct_id (mt_controllers m ! i) = cid))
      \<and> (ct_valid (mt_controllers m ! target) \<longrightarrow> ct_id (mt_controllers m ! target) = cid)"
  proof (cases "controller_index cid m")
    case None
    then have "target < 4" "\<not> ct_valid (mt_controllers m ! target)"
      using assms by (auto simp: commit_target_def find_Some_iff kKitsuControllerCapacity_def)
    then show ?thesis using None by (simp add: index_none)
  next
    case (Some i)
    then have "i = target" using assms by (simp add: commit_target_def)
    then show ?thesis using index_some [OF Some] by (metis ids_unique_def)
  qed
  then show "target < 4" "\<forall>i < 4. i \<noteq> target \<longrightarrow> ids_unique m \<longrightarrow> \<not> (ct_valid (mt_controllers m ! i) \<and> ct_id (mt_controllers m ! i) = cid)"
    "ct_valid (mt_controllers m ! target) \<longrightarrow> ct_id (mt_controllers m ! target) = cid" by blast+
qed

lemma paired_wf:
  assumes wf: "store_wf m" and t: "commit_target cid m = Some target" and c: "length cid = 16" "length root = 32"
    "role = RoleOwner \<or> role = RoleCaretaker"
  shows "store_wf (paired target cid root role m)"
proof -
  note ct = commit_target_spec [OF t]
  have len: "length (mt_controllers m) = 4" using wf by (simp add: store_wf_def material_wf_def)
  have "controller_wf (pair_entry cid root role)" using c by (auto simp: controller_wf_def pair_entry_def)
  then have "material_wf (paired target cid root role m)"
    using wf by (auto simp: store_wf_def material_wf_def paired_def list_all_iff dest: set_update_subset_insert [THEN subsetD])
  moreover have "ids_unique (paired target cid root role m)"
    unfolding ids_unique_def
  proof (intro allI impI)
    fix i j
    assume ij: "i < 4" "j < 4" "ct_valid (mt_controllers (paired target cid root role m) ! i)"
      "ct_valid (mt_controllers (paired target cid root role m) ! j)"
      "ct_id (mt_controllers (paired target cid root role m) ! i) = ct_id (mt_controllers (paired target cid root role m) ! j)"
    have u: "ids_unique m" using wf by (simp add: store_wf_def)
    show "i = j"
      using ij u ct(2) len
      by (cases "i = target"; cases "j = target") (auto simp: paired_def pair_entry_def ids_unique_def)
  qed
  ultimately show ?thesis by (simp add: store_wf_def)
qed

text \<open>Looking up a controller after a pairing.\<close>

definition lookup_in :: "bytes \<Rightarrow> Material \<Rightarrow> (bytes \<times> ControllerRole) option" where
  "lookup_in cid m = map_option (\<lambda>i. (ct_root (mt_controllers m ! i), ct_role (mt_controllers m ! i))) (controller_index cid m)"

lemma find_lookup: "dv_begun s \<Longrightarrow> findControllerRoot cid s = lookup_in cid (dv_material s)"
  by (simp add: findControllerRoot_def lookup_in_def)

lemma lookup_paired:
  assumes wf: "store_wf m" and t: "commit_target cid m = Some target" and c: "length cid = 16" "length root = 32"
    "role = RoleOwner \<or> role = RoleCaretaker"
  shows "lookup_in x (paired target cid root role m) = (if x = cid then Some (root, role) else lookup_in x m)"
proof -
  let ?n = "paired target cid root role m"
  note ct = commit_target_spec [OF t]
  have len: "length (mt_controllers m) = 4" using wf by (simp add: store_wf_def material_wf_def)
  have u: "ids_unique ?n" "ids_unique m" using paired_wf [OF assms] wf by (simp_all add: store_wf_def)
  have at: "mt_controllers ?n ! i = (if i = target then pair_entry cid root role else mt_controllers m ! i)" if "i < 4" for i
    using that len by (simp add: paired_def nth_list_update)
  show ?thesis
  proof (cases "x = cid")
    case True
    have "controller_index cid ?n = Some target"
      using index_unique [OF u(1) ct(1)] at [OF ct(1)] by (simp add: pair_entry_def)
    then show ?thesis using True at [OF ct(1)] by (simp add: lookup_in_def pair_entry_def)
  next
    case False
    show ?thesis
    proof (cases "controller_index x m")
      case None
      then have "controller_index x ?n = None" using False at by (auto simp: index_none pair_entry_def)
      then show ?thesis using None False by (simp add: lookup_in_def)
    next
      case (Some i)
      note i = index_some [OF Some]
      have "i \<noteq> target" using i ct(3) False by auto
      then have e: "mt_controllers ?n ! i = mt_controllers m ! i" using at i by simp
      then have "controller_index x ?n = Some i" using index_unique [OF u(1), of i] i by simp
      then show ?thesis using Some False e by (simp add: lookup_in_def)
    qed
  qed
qed

text \<open>A commit is refused without an effect, or it is one write of the paired table, undone in memory when the write
  failed.\<close>

lemma commit_cases:
  assumes laws: "storage_laws St P slots" "cipher_laws P" and live: "sec_live q P slots s w" and wf: "store_wf (dv_material s)"
    and begun: "dv_begun s" and len: "length cid = 16" "length root = 32"
    and run: "commitControllerAfterPairing St P (Some cid) (Some root) l v role s w = (r, s', w')"
  obtains (refused) "r \<noteq> SecOk" "w' = w" "s' = s\<lparr>dv_last := r\<rparr>"
    | (written) target s2 where "commit_target cid (dv_material s) = Some target" "role = RoleOwner \<or> role = RoleCaretaker"
      "persist St P (s\<lparr>dv_material := paired target cid root role (dv_material s)\<rparr>) w = (r, s2, w')"
      "s' = (if r = SecOk then s2 else s2\<lparr>dv_material := dv_material s\<rparr>)"
proof (cases "(role = RoleOwner \<or> role = RoleCaretaker) \<and> link_trusted l \<and> v \<and> \<not> list_all (\<lambda>b. b = 0) cid \<and> \<not> list_all (\<lambda>b. b = 0) root")
  case False
  then have "r \<noteq> SecOk \<and> w' = w \<and> s' = s\<lparr>dv_last := r\<rparr>"
    using run begun by (auto simp: commitControllerAfterPairing_def split: if_splits)
  then show thesis using refused by blast
next
  case True
  show thesis
  proof (cases "commit_target cid (dv_material s)")
    case None
    then have "r \<noteq> SecOk \<and> w' = w \<and> s' = s\<lparr>dv_last := r\<rparr>"
      using run begun True by (auto simp: commitControllerAfterPairing_def split: if_splits)
    then show thesis using refused by blast
  next
    case (Some target)
    define m where "m = paired target cid root role (dv_material s)"
    obtain p s2 w2 where per: "persist St P (s\<lparr>dv_material := m\<rparr>) w = (p, s2, w2)" by (cases "persist St P (s\<lparr>dv_material := m\<rparr>) w") auto
    have "material_wf m" using paired_wf [OF wf Some len] True by (simp add: m_def store_wf_def)
    note ps = persist_step [OF laws live this per]
    have undo: "m\<lparr>mt_controllers := (mt_controllers m)[target := mt_controllers (dv_material s) ! target]\<rparr> = dv_material s"
      by (simp add: m_def paired_def)
    have "r = p" "w' = w2" "s' = (if p = SecOk then s2 else s2\<lparr>dv_material := dv_material s\<rparr>)"
      using run begun True Some per ps(2) undo
      by (auto simp: commitControllerAfterPairing_def Let_def m_def [symmetric] paired_def [symmetric] pair_entry_def [symmetric] split: if_splits)
    then show thesis using written [of target s2] Some True per by (simp add: m_def)
  qed
qed

subsection \<open>Rebooting\<close>

definition reads_ok :: "'w SecurityStorage \<Rightarrow> bool" where
  "reads_ok St \<longleftrightarrow> (\<forall>slot w. fst (st_read St slot w) \<noteq> None)"

text \<open>The slot a load takes: the valid one, or the later of two.\<close>

definition newest_slot :: "'w SecurityPlatform \<Rightarrow> bytes \<Rightarrow> (u8 \<Rightarrow> bytes) \<Rightarrow> u8 option" where
  "newest_slot P key sl = (case (slot_record P key (sl 0), slot_record P key (sl 1)) of
       (None, None) \<Rightarrow> None | (Some _, None) \<Rightarrow> Some 0 | (None, Some _) \<Rightarrow> Some 1
     | (Some (g, _), Some (h, _)) \<Rightarrow> if generationAfter h g then Some 1 else Some 0)"

lemma validate_reads:
  assumes laws: "storage_laws St P slots" and reads: "reads_ok St" and last: "dv_last s \<noteq> StorageReadFailed"
    and run: "validateSlot St P slot s w = (info, s', w')"
  shows "dv_last s' \<noteq> StorageReadFailed" "si_valid info = (slot_record P (dv_key s) (slots w slot) \<noteq> None)"
    "slot_record P (dv_key s) (slots w slot) = Some (g, plain) \<Longrightarrow> si_generation info = g \<and> dv_crypt s' = plain"
proof -
  note vs = validateSlot_spec [OF laws run]
  show l: "dv_last s' \<noteq> StorageReadFailed" using vs(5) reads last by (simp add: reads_ok_def)
  show iff: "si_valid info = (slot_record P (dv_key s) (slots w slot) \<noteq> None)"
    using vs(3,4) l last by (metis option.distinct(1))
  assume rec: "slot_record P (dv_key s) (slots w slot) = Some (g, plain)"
  with iff have "si_valid info" by simp
  from vs(3) [OF this] rec show "si_generation info = g \<and> dv_crypt s' = plain" by simp
qed

lemma begin_loads:
  assumes laws: "storage_laws St P slots" "cipher_laws P" and reads: "reads_ok St" and P: "sp_reflashable P" "sp_derive P hid = Some key"
    and newest: "newest_slot P key (slots w) = Some a" and held: "slot_written P key (slots w a) g m" and settled: "\<not> mt_pending m"
  shows "\<exists>s' w'. sec_begin St P (Some hid) w = (SecOkReflashable, s', w') \<and> dv_begun s' \<and> dv_material s' = m \<and> slots w' = slots w"
proof -
  define s0 where "s0 = dv_clear\<lparr>dv_bound := True, dv_key := key, dv_last := SecOk\<rparr>"
  obtain i1 s1 w1 where v1: "validateSlot St P 0 s0 w = (i1, s1, w1)" by (cases "validateSlot St P 0 s0 w") auto
  obtain i2 s2 w2 where v2: "validateSlot St P 1 (s1\<lparr>dv_last := SecOk\<rparr>) w1 = (i2, s2, w2)"
    by (cases "validateSlot St P 1 (s1\<lparr>dv_last := SecOk\<rparr>) w1") auto
  note vs1 = validateSlot_spec [OF laws(1) v1] and vs2 = validateSlot_spec [OF laws(1) v2]
  have k0: "dv_key s0 = key" "dv_last s0 \<noteq> StorageReadFailed" by (simp_all add: s0_def)
  have k1: "dv_key s1 = key" by (subst vs1(2), simp add: k0)
  note r1 = validate_reads [OF laws(1) reads k0(2) v1, unfolded k0] and r2 = validate_reads [OF laws(1) reads _ v2, simplified, unfolded k1 vs1(1)]
  have f2: "dv_material s2 = material0" "dv_key s2 = key"
    by (subst vs2(2), simp, subst vs1(2), simp add: s0_def dv_clear_def)+
  have ch: "sec_choose i1 i2 = Some a"
    using newest r1(2,3) r2(2,3)
    by (cases "slot_record P key (slots w 0)"; cases "slot_record P key (slots w 1)")
      (auto simp: newest_slot_def sec_choose_def split: if_splits)
  obtain i3 s3 w3 where v3: "validateSlot St P a s2 w2 = (i3, s3, w3)" by (cases "validateSlot St P a s2 w2") auto
  note vs3 = validateSlot_spec [OF laws(1) v3]
  have sl: "slots w3 = slots w" "slots w2 = slots w" using vs1(1) vs2(1) vs3(1) by simp_all
  note r3 = validate_reads [OF laws(1) reads r2(1) v3, unfolded f2 sl]
  obtain plain where pl: "slot_record P key (slots w a) = Some (g, plain)" "load_plain plain = (True, False, m)"
    using held by (auto simp: slot_rec_def)
  have ok3: "si_valid i3" "si_nonempty i3" "si_bytes i3 = 364" "dv_crypt s3 = plain" "si_generation i3 = g"
    using r3(2,3) pl vs3(3) by simp_all
  have m3: "dv_material s3 = material0" by (subst vs3(2), simp add: f2)
  define s4 where "s4 = s3\<lparr>dv_material := m, dv_active := Some a, dv_generation := g\<rparr>"
  have "begin_chosen St P a s2 w2 = (None, s4, w3)"
    using v3 ok3 decodeLoaded_load [OF m3, of True False m] pl settled by (simp add: begin_chosen_def Let_def s4_def)
  then have "sec_begin St P (Some hid) w = (SecOkReflashable, s4\<lparr>dv_begun := True, dv_count := countControllers (dv_material s4),
      dv_last := SecOkReflashable\<rparr>, w3)"
    using P v1 v2 ch r1(1) r2(1) by (simp add: sec_begin_def Let_def s0_def [symmetric])
  moreover have "dv_material s4 = m" by (simp add: s4_def)
  ultimately show ?thesis using sl by auto
qed

end
