(* ===== verification/Security_Reach.thy ===== *)
theory Security_Reach
  imports Security_Laws
begin

text \<open>
  The life of a security store: boots, pairings and revocations in any order, with every fault the storage contract allows.
  Shown here: in a ready object the active slot holds the material in memory; a pairing is atomic over a reboot; a
  revoked controller is in neither slot and cannot return; and the one case the revocation of all controllers
  misses.
\<close>

subsection \<open>Histories\<close>

inductive sec_reach :: "'w SecurityStorage \<Rightarrow> 'w SecurityPlatform \<Rightarrow> ('w \<Rightarrow> u8 \<Rightarrow> bytes) \<Rightarrow> bytes \<Rightarrow> bytes \<Rightarrow> DeviceSecurity \<Rightarrow> 'w \<Rightarrow> bool"
  for St P slots hid key where
  sec_boot: "slots_all store_wf P key (slots w) \<Longrightarrow> sec_begin St P (Some hid) w = (r, s, w') \<Longrightarrow> sec_reach St P slots hid key s w'"
| sec_reboot: "sec_reach St P slots hid key s w \<Longrightarrow> sec_begin St P (Some hid) w = (r, s', w') \<Longrightarrow> sec_reach St P slots hid key s' w'"
| sec_generate: "sec_reach St P slots hid key s w \<Longrightarrow> generatePendingControllerRoot P l s w = (r, root, s', w') \<Longrightarrow>
    sec_reach St P slots hid key s' w'"
| sec_journal: "sec_reach St P slots hid key s w \<Longrightarrow> deriveJournalKey P s = (r, out, s') \<Longrightarrow> sec_reach St P slots hid key s' w"
| sec_commit: "sec_reach St P slots hid key s w \<Longrightarrow> length cid = 16 \<Longrightarrow> length root = 32 \<Longrightarrow>
    commitControllerAfterPairing St P (Some cid) (Some root) l v role s w = (r, s', w') \<Longrightarrow> sec_reach St P slots hid key s' w'"
| sec_revoke_confirmed: "sec_reach St P slots hid key s w \<Longrightarrow>
    revokeControllerAfterPhysicalConfirmation St P (Some cid) confirmed s w = (r, s', w') \<Longrightarrow> sec_reach St P slots hid key s' w'"
| sec_revoke_own: "sec_reach St P slots hid key s w \<Longrightarrow>
    revokeAuthenticatedController St P (Some cid) s w = (r, s', w') \<Longrightarrow> sec_reach St P slots hid key s' w'"
| sec_revoke_all: "sec_reach St P slots hid key s w \<Longrightarrow>
    revokeAllControllersAfterPhysicalConfirmation St P confirmed s w = (r, s', w') \<Longrightarrow> sec_reach St P slots hid key s' w'"

definition sec_inv :: "'w SecurityPlatform \<Rightarrow> ('w \<Rightarrow> u8 \<Rightarrow> bytes) \<Rightarrow> bytes \<Rightarrow> DeviceSecurity \<Rightarrow> 'w \<Rightarrow> bool" where
  "sec_inv P slots key s w \<longleftrightarrow> slots_all store_wf P key (slots w)
     \<and> (dv_begun s \<longrightarrow> sec_live True P slots s w \<and> dv_key s = key \<and> store_wf (dv_material s))"

lemma sec_inv_frame [simp]: "sec_inv P slots key (s\<lparr>dv_last := x\<rparr>) w = sec_inv P slots key s w"
  by (simp add: sec_inv_def)

lemma commit_inv:
  assumes laws: "storage_laws St P slots" "cipher_laws P" and inv: "sec_inv P slots key s w"
    and len: "length cid = 16" "length root = 32"
    and run: "commitControllerAfterPairing St P (Some cid) (Some root) l v role s w = (r, s', w')"
  shows "sec_inv P slots key s' w'"
proof (cases "dv_begun s")
  case False
  then show ?thesis using run inv by (auto simp: commitControllerAfterPairing_def)
next
  case True
  with inv have live: "sec_live True P slots s w" "dv_key s = key" "store_wf (dv_material s)" "slots_all store_wf P key (slots w)"
    by (simp_all add: sec_inv_def)
  from laws live(1,3) True len run show ?thesis
  proof (cases rule: commit_cases)
    case refused
    then show ?thesis using inv by simp
  next
    case (written target s2)
    have wf: "store_wf (paired target cid root role (dv_material s))" by (rule paired_wf [OF live(3) written(1) len written(2)])
    then have "material_wf (paired target cid root role (dv_material s))" by (simp add: store_wf_def)
    note ps = persist_step [OF laws live(1) this written(3)]
    have "slots_all store_wf P key (slots w')" using ps(6) [of store_wf] live(2,4) wf by simp
    then show ?thesis
      using ps(1-4) wf live(2,3) written(4) by (auto simp: sec_inv_def dv_same_def)
  qed
qed

text \<open>Revoking: the table without the controllers, in both slots.\<close>

lemma revoke_to_spec:
  assumes laws: "storage_laws St P slots" "cipher_laws P" and inv: "sec_inv P slots key s w" and begun: "dv_begun s"
    and settled: "\<not> mt_pending (dv_material s)" and wf: "store_wf ((dv_material s)\<lparr>mt_controllers := cs\<rparr>)"
    and run: "revoke_to St P cs s w = (r, s', w')"
  shows "sec_inv P slots key s' w'" "dv_begun s'"
    "r = SecOk \<Longrightarrow> table_property Q \<Longrightarrow> Q ((dv_material s)\<lparr>mt_controllers := cs\<rparr>) \<Longrightarrow> slots_all Q P key (slots w') \<and> Q (dv_material s')"
proof -
  from inv begun have live: "sec_live True P slots s w" "dv_key s = key" "store_wf (dv_material s)" "slots_all store_wf P key (slots w)"
    by (simp_all add: sec_inv_def)
  define m where "m = (dv_material s)\<lparr>mt_controllers := cs, mt_pending := True\<rparr>"
  have tp: "table_property store_wf" using store_properties(1) by (simp add: store_property_def)
  have mQ: "Q m = Q ((dv_material s)\<lparr>mt_controllers := cs\<rparr>)" if "table_property Q" for Q
    using that [unfolded table_property_def, THEN spec, of "(dv_material s)\<lparr>mt_controllers := cs\<rparr>", THEN spec, of True] by (simp add: m_def)
  have wfm: "store_wf m" using mQ [OF tp] wf by simp
  then have "material_wf m" by (simp add: store_wf_def)
  obtain p s1 w1 where per: "persist St P (s\<lparr>dv_material := m\<rparr>) w = (p, s1, w1)" by (cases "persist St P (s\<lparr>dv_material := m\<rparr>) w") auto
  note ps = persist_step [OF laws live(1) \<open>material_wf m\<close> per]
  have all1: "slots_all store_wf P key (slots w1)" using ps(6) [of store_wf] live(2,4) wfm by simp
  have k1: "dv_key s1 = key" "dv_begun s1" "dv_bound s1 = dv_bound s" using ps(1) live(2) begun by (simp_all add: dv_same_def)
  obtain q s2 w2 where ret: "retirePreviousSlot St P s1 w1 = (q, s2, w2)" by (cases "retirePreviousSlot St P s1 w1") auto
  have "sec_inv P slots key s' w' \<and> dv_begun s' \<and>
    (r = SecOk \<longrightarrow> table_property Q \<longrightarrow> Q ((dv_material s)\<lparr>mt_controllers := cs\<rparr>) \<longrightarrow> slots_all Q P key (slots w') \<and> Q (dv_material s'))"
  proof (cases "p = SecOk")
    case False
    have undo: "m\<lparr>mt_controllers := mt_controllers (dv_material s), mt_pending := False\<rparr> = dv_material s"
      using settled by (simp add: m_def)
    have "r = p" "w' = w1" "s' = s1\<lparr>dv_material := dv_material s\<rparr>"
      using run per False ps(2) undo by (simp_all add: revoke_to_def m_def [symmetric])
    then show ?thesis using False ps(4) all1 k1 live(3) by (simp add: sec_inv_def)
  next
    case True
    then have out: "r = q" "s' = s2" "w' = w2" using run per ret by (simp_all add: revoke_to_def m_def [symmetric])
    note rs = retire_spec [OF laws conjunct1 [OF ps(3) [OF True, of True]] ret]
    have "mt_pending (dv_material s1)" using ps(2) by (simp add: m_def)
    moreover have own: "Q (dv_material s2) = Q m" if "table_property Q" for Q
      using that rs(3) ps(2) by (metis table_property_def)
    ultimately show ?thesis
      using rs(1,2) rs(5) [OF tp] rs(6) [of Q] all1 k1 wfm mQ own [OF tp] own [of Q] ps(2) out by (auto simp: sec_inv_def dv_same_def)
  qed
  then show "sec_inv P slots key s' w'" "dv_begun s'"
    "r = SecOk \<Longrightarrow> table_property Q \<Longrightarrow> Q ((dv_material s)\<lparr>mt_controllers := cs\<rparr>) \<Longrightarrow> slots_all Q P key (slots w') \<and> Q (dv_material s')"
    by blast+
qed

lemma resume_spec:
  assumes laws: "storage_laws St P slots" "cipher_laws P" and inv: "sec_inv P slots key s w" and begun: "dv_begun s"
    and run: "resume_retirement St P s w = (r, s', w')"
  shows "sec_inv P slots key s' w'" "dv_begun s'" "r = SecOk \<Longrightarrow> \<not> mt_pending (dv_material s')"
    "table_property Q \<Longrightarrow> Q (dv_material s') = Q (dv_material s)"
    "r = SecOk \<Longrightarrow> mt_pending (dv_material s) \<Longrightarrow> table_property Q \<Longrightarrow> Q (dv_material s) \<Longrightarrow> slots_all Q P key (slots w')"
proof -
  from inv begun have live: "sec_live True P slots s w" "dv_key s = key" "store_wf (dv_material s)" "slots_all store_wf P key (slots w)"
    by (simp_all add: sec_inv_def)
  have tp: "table_property store_wf" using store_properties(1) by (simp add: store_property_def)
  have "sec_inv P slots key s' w' \<and> dv_begun s' \<and> (r = SecOk \<longrightarrow> \<not> mt_pending (dv_material s')) \<and>
    (table_property Q \<longrightarrow> Q (dv_material s') = Q (dv_material s)) \<and>
    (r = SecOk \<longrightarrow> mt_pending (dv_material s) \<longrightarrow> table_property Q \<longrightarrow> Q (dv_material s) \<longrightarrow> slots_all Q P key (slots w'))"
  proof (cases "mt_pending (dv_material s)")
    case False
    then show ?thesis using run inv begun by (simp add: resume_retirement_def)
  next
    case True
    then have ret: "retirePreviousSlot St P s w = (r, s', w')" using run by (simp add: resume_retirement_def)
    note rs = retire_spec [OF laws live(1) ret]
    have same: "Q (dv_material s') = Q (dv_material s)" if "table_property Q" for Q
      using that rs(3) by (metis table_property_def)
    show ?thesis
      using rs(1,2,4) rs(5) [OF tp] rs(6) [of Q] same [OF tp] same [of Q] live begun True
      by (auto simp: sec_inv_def dv_same_def)
  qed
  then show "sec_inv P slots key s' w'" "dv_begun s'" "r = SecOk \<Longrightarrow> \<not> mt_pending (dv_material s')"
    "table_property Q \<Longrightarrow> Q (dv_material s') = Q (dv_material s)"
    "r = SecOk \<Longrightarrow> mt_pending (dv_material s) \<Longrightarrow> table_property Q \<Longrightarrow> Q (dv_material s) \<Longrightarrow> slots_all Q P key (slots w')"
    by blast+
qed

lemma controller0_wf: "controller_wf controller0"
  by (simp add: controller_wf_def controller0_def)

lemma removed_lacks:
  assumes wf: "store_wf m" and i: "controller_index cid m = Some i"
  shows "lacks cid (m\<lparr>mt_controllers := (mt_controllers m)[i := controller0]\<rparr>)"
proof -
  let ?n = "m\<lparr>mt_controllers := (mt_controllers m)[i := controller0]\<rparr>"
  have len: "length (mt_controllers m) = 4" and u: "ids_unique m" using wf by (simp_all add: store_wf_def material_wf_def)
  note i' = index_some [OF i]
  have at: "mt_controllers ?n ! j = (if j = i then controller0 else mt_controllers m ! j)" if "j < 4" for j
    using that len by (simp add: nth_list_update)
  have no: "\<not> ct_valid controller0" by (simp add: controller0_def)
  have "material_wf ?n"
    using wf controller0_wf by (auto simp: store_wf_def material_wf_def list_all_iff dest: set_update_subset_insert [THEN subsetD])
  moreover have "ids_unique ?n" using u at no unfolding ids_unique_def by metis
  moreover have "controller_index cid ?n = None" using u at no i' unfolding index_none ids_unique_def by metis
  ultimately show ?thesis by (simp add: lacks_def store_wf_def)
qed

lemma cleared_lacks: "store_wf m \<Longrightarrow> lacks cid (m\<lparr>mt_controllers := replicate 4 controller0\<rparr>)"
  using controller0_wf by (auto simp: lacks_def store_wf_def material_wf_def ids_unique_def index_none controller0_def list_all_iff)

lemma lacks_table: "table_property (lacks cid)"
  using store_properties(2) [of cid] by (simp add: store_property_def)

lemma revokeController_spec:
  assumes laws: "storage_laws St P slots" "cipher_laws P" and inv: "sec_inv P slots key s w" and begun: "dv_begun s"
    and run: "revokeController St P cid s w = (r, s', w')"
  shows "sec_inv P slots key s' w'" "dv_begun s'"
    "r = SecOk \<Longrightarrow> lacks cid (dv_material s') \<and> slots_all (lacks cid) P key (slots w')"
proof -
  obtain q s1 w1 where res: "resume_retirement St P s w = (q, s1, w1)" by (cases "resume_retirement St P s w") auto
  note rs = resume_spec [OF laws inv begun res]
  have wf1: "store_wf (dv_material s1)" using rs(1,2) by (simp add: sec_inv_def)
  have "sec_inv P slots key s' w' \<and> dv_begun s' \<and> (r = SecOk \<longrightarrow> lacks cid (dv_material s') \<and> slots_all (lacks cid) P key (slots w'))"
  proof (cases "q = SecOk")
    case False
    then show ?thesis using run res rs(1,2) by (simp add: revokeController_def)
  next
    case ok: True
    show ?thesis
    proof (cases "controller_index cid (dv_material s1)")
      case None
      then have "lacks cid (dv_material s1)" using wf1 by (simp add: lacks_def)
      then have "mt_pending (dv_material s) \<Longrightarrow> slots_all (lacks cid) P key (slots w1)"
        using rs(5) [OF ok _ lacks_table] rs(4) [OF lacks_table, of cid] by simp
      then show ?thesis
        using run res rs(1,2) ok None \<open>lacks cid (dv_material s1)\<close>
        by (auto simp: revokeController_def Let_def split: if_splits)
    next
      case (Some i)
      have lk: "lacks cid ((dv_material s1)\<lparr>mt_controllers := (mt_controllers (dv_material s1))[i := controller0]\<rparr>)"
        by (rule removed_lacks [OF wf1 Some])
      then have wf2: "store_wf ((dv_material s1)\<lparr>mt_controllers := (mt_controllers (dv_material s1))[i := controller0]\<rparr>)"
        by (simp add: lacks_def)
      have to: "revoke_to St P ((mt_controllers (dv_material s1))[i := controller0]) s1 w1 = (r, s', w')"
        using run res ok Some by (simp add: revokeController_def)
      note rt = revoke_to_spec [OF laws rs(1,2) rs(3) [OF ok] wf2 to]
      show ?thesis using rt(1,2) rt(3) [OF _ lacks_table lk] by blast
    qed
  qed
  then show "sec_inv P slots key s' w'" "dv_begun s'"
    "r = SecOk \<Longrightarrow> lacks cid (dv_material s') \<and> slots_all (lacks cid) P key (slots w')" by blast+
qed

lemma revokeAll_spec:
  assumes laws: "storage_laws St P slots" "cipher_laws P" and inv: "sec_inv P slots key s w" and begun: "dv_begun s"
    and run: "revokeAllControllersAfterPhysicalConfirmation St P True s w = (r, s', w')"
  shows "sec_inv P slots key s' w'" "dv_begun s'"
    "r = SecOk \<Longrightarrow> mt_pending (dv_material s) \<or> list_ex ct_valid (mt_controllers (dv_material s)) \<Longrightarrow>
       lacks cid (dv_material s') \<and> slots_all (lacks cid) P key (slots w')"
proof -
  obtain q s1 w1 where res: "resume_retirement St P s w = (q, s1, w1)" by (cases "resume_retirement St P s w") auto
  note rs = resume_spec [OF laws inv begun res]
  have wf1: "store_wf (dv_material s1)" using rs(1,2) by (simp add: sec_inv_def)
  have "sec_inv P slots key s' w' \<and> dv_begun s' \<and>
    (r = SecOk \<longrightarrow> mt_pending (dv_material s) \<or> list_ex ct_valid (mt_controllers (dv_material s)) \<longrightarrow>
       lacks cid (dv_material s') \<and> slots_all (lacks cid) P key (slots w'))"
  proof (cases "q = SecOk")
    case False
    then show ?thesis using run res rs(1,2) begun by (simp add: revokeAllControllersAfterPhysicalConfirmation_def)
  next
    case ok: True
    show ?thesis
    proof (cases "list_ex ct_valid (mt_controllers (dv_material s1))")
      case False
      have len: "length (mt_controllers (dv_material s1)) = 4" using wf1 by (simp add: store_wf_def material_wf_def)
      have lk: "lacks cid (dv_material s1)" using wf1 False len by (auto simp: lacks_def index_none list_ex_length)
      have "table_property (\<lambda>m. list_ex ct_valid (mt_controllers m))" by (simp add: table_property_def)
      from rs(4) [OF this] False have "\<not> list_ex ct_valid (mt_controllers (dv_material s))" by simp
      moreover have "mt_pending (dv_material s) \<Longrightarrow> slots_all (lacks cid) P key (slots w1)"
        using rs(5) [OF ok _ lacks_table] rs(4) [OF lacks_table, of cid] lk by simp
      ultimately show ?thesis
        using run res rs(1,2) ok False lk begun by (auto simp: revokeAllControllersAfterPhysicalConfirmation_def)
    next
      case True
      have lk: "lacks cid ((dv_material s1)\<lparr>mt_controllers := replicate 4 controller0\<rparr>)" by (rule cleared_lacks [OF wf1])
      then have wf2: "store_wf ((dv_material s1)\<lparr>mt_controllers := replicate 4 controller0\<rparr>)" by (simp add: lacks_def)
      have to: "revoke_to St P (replicate 4 controller0) s1 w1 = (r, s', w')"
        using run res ok True begun by (simp add: revokeAllControllersAfterPhysicalConfirmation_def kKitsuControllerCapacity_def)
      note rt = revoke_to_spec [OF laws rs(1,2) rs(3) [OF ok] wf2 to]
      show ?thesis using rt(1,2) rt(3) [OF _ lacks_table lk] by blast
    qed
  qed
  then show "sec_inv P slots key s' w'" "dv_begun s'"
    "r = SecOk \<Longrightarrow> mt_pending (dv_material s) \<or> list_ex ct_valid (mt_controllers (dv_material s)) \<Longrightarrow>
       lacks cid (dv_material s') \<and> slots_all (lacks cid) P key (slots w')" by blast+
qed

lemma begin_inv:
  assumes laws: "storage_laws St P slots" "cipher_laws P" and key: "sp_derive P hid = Some key"
    and all: "slots_all store_wf P key (slots w)" and run: "sec_begin St P (Some hid) w = (r, s, w')"
  shows "sec_inv P slots key s w'"
  using begin_spec [OF laws store_properties(1) key all run] by (simp add: sec_inv_def)

lemma sec_reach_inv:
  assumes "sec_reach St P slots hid key s w" "storage_laws St P slots" "cipher_laws P" "sp_derive P hid = Some key"
  shows "sec_inv P slots key s w"
  using assms
proof (induction rule: sec_reach.induct)
  case (sec_boot w r s w')
  then show ?case using begin_inv [where slots = slots and w = w] by blast
next
  case (sec_reboot s w r s' w')
  then show ?case using begin_inv by (metis sec_inv_def)
next
  case (sec_generate s w l r root s' w')
  obtain x v where x: "sp_random P kKitsuSecretBytes w = (x, v)" by (cases "sp_random P kKitsuSecretBytes w")
  have "slots v = slots w" using random_law [OF sec_generate.prems(1) x] by simp
  then have "sec_inv P slots key s v = sec_inv P slots key s w" by (simp add: sec_inv_def sec_live_def)
  then have "sec_inv P slots key s v" using sec_generate by simp
  then show ?case
    using sec_generate x by (auto simp: generatePendingControllerRoot_def split: if_splits option.splits)
next
  case (sec_journal s w r out s')
  then show ?case by (auto simp: deriveJournalKey_def split: if_splits option.splits)
next
  case (sec_commit s w cid root l v role r s' w')
  then show ?case using commit_inv [of St P slots key s w cid root l v role r s' w'] by simp
next
  case (sec_revoke_confirmed s w cid confirmed r s' w')
  then show ?case
    using revokeController_spec(1) [of St P slots key s w cid r s' w']
    by (auto simp: revokeControllerAfterPhysicalConfirmation_def split: if_splits)
next
  case (sec_revoke_own s w cid r s' w')
  then show ?case
    using revokeController_spec(1) [of St P slots key s w cid r s' w']
    by (auto simp: revokeAuthenticatedController_def split: if_splits)
next
  case (sec_revoke_all s w confirmed r s' w')
  show ?case
  proof (cases "dv_begun s \<and> confirmed")
    case True
    then show ?thesis using sec_revoke_all revokeAll_spec(1) [of St P slots key s w r s' w'] by simp
  next
    case False
    then show ?thesis using sec_revoke_all by (auto simp: revokeAllControllersAfterPhysicalConfirmation_def split: if_splits)
  qed
qed

subsection \<open>Pairing over a reboot\<close>

lemma newest_later:
  assumes "a = 0 \<and> t = 1 \<or> a = 1 \<and> t = 0" "slot_rec q P key (sl a) g m" "slot_rec q P key (sl t) (g + 1) n"
  shows "newest_slot P key sl = Some t"
proof -
  have "generationAfter (g + 1) g" "\<not> generationAfter g (g + 1)"
    by (simp_all add: generationAfter_def)
  with assms show ?thesis by (auto simp: newest_slot_def slot_rec_def)
qed

lemma newest_only:
  assumes "a = 0 \<and> t = 1 \<or> a = 1 \<and> t = 0" "slot_rec q P key (sl a) g m" "sl t = []"
  shows "newest_slot P key sl = Some a"
  using assms by (auto simp: newest_slot_def slot_rec_def)

subsection \<open>Storage that works\<close>

text \<open>The generator and the cipher always deliver.\<close>

definition crypto_works :: "'w SecurityPlatform \<Rightarrow> bool" where
  "crypto_works P \<longleftrightarrow> (\<forall>n w. fst (sp_random P n w) \<noteq> None) \<and> (\<forall>k g n p. sp_seal P k g n p \<noteq> None)"

lemma encode_works:
  assumes crypto: "crypto_works P" and wf: "material_wf (dv_material s)" and e: "sec_encode P g s w = (b, w1)"
  shows "\<exists>blob. b = Some blob"
proof -
  obtain n v where n: "sp_random P kSecurityNonceBytes w = (Some n, v)"
    using crypto unfolding crypto_works_def by (metis option.collapse prod.collapse)
  obtain c t where "sp_seal P (dv_key s) g n (material_plain (dv_material s)) = Some (c, t)"
    using crypto unfolding crypto_works_def by (metis option.collapse prod.collapse)
  with n e show ?thesis by (auto simp: sec_encode_def plain_image_wf [OF wf])
qed

lemma persist_succeeds:
  assumes laws: "storage_laws St P slots" "cipher_laws P" and reads: "reads_ok St" and crypto: "crypto_works P"
    and wf: "material_wf (dv_material s)"
    and writes: "\<And>blob v. sec_encode P (dv_generation s + 1) s w = (Some blob, v) \<Longrightarrow> fst (st_write St (other_slot (dv_active s)) blob v)"
    and run: "persist St P s w = (r, s', w')"
  shows "r = SecOk"
proof -
  let ?t = "other_slot (dv_active s)"
  obtain b w1 where e: "sec_encode P (dv_generation s + 1) s w = (b, w1)" by (cases "sec_encode P (dv_generation s + 1) s w")
  obtain blob where b: "b = Some blob" using encode_works [OF crypto wf e] by blast
  note enc = encode_spec(2) [OF laws wf e b]
  obtain ok w2 where wr: "st_write St ?t blob w1 = (ok, w2)" by (cases "st_write St ?t blob w1")
  have ok: "ok" using writes [OF e [unfolded b]] wr by simp
  have sl: "slots w2 ?t = blob" using write_law [OF laws(1) wr] ok by simp
  obtain info s3 w3 where v: "validateSlot St P ?t (s\<lparr>dv_last := SecOk\<rparr>) w2 = (info, s3, w3)"
    by (cases "validateSlot St P ?t (s\<lparr>dv_last := SecOk\<rparr>) w2") auto
  have last: "dv_last (s\<lparr>dv_last := SecOk\<rparr>) \<noteq> StorageReadFailed" by simp
  note vr = validate_reads [OF laws(1) reads last v, simplified, unfolded sl]
  have "si_valid info" using vr(2) enc by simp
  then have "si_nonempty info" "si_bytes info = 364" "si_generation info = dv_generation s + 1"
    using validateSlot_spec(3) [OF laws(1) v] vr(3) enc by simp_all
  then show ?thesis using run e b wr ok v enc \<open>si_valid info\<close> by (simp add: persist_def Let_def)
qed

definition storage_works :: "'w SecurityStorage \<Rightarrow> bool" where
  "storage_works St \<longleftrightarrow> reads_ok St \<and> (\<forall>slot v w. fst (st_write St slot v w)) \<and> (\<forall>slot w. fst (st_clear St slot w))"

lemma persist_works:
  assumes "storage_laws St P slots" "cipher_laws P" "storage_works St" "crypto_works P" "material_wf (dv_material s)" "persist St P s w = (r, s', w')"
  shows "r = SecOk"
  using persist_succeeds [OF assms(1,2) _ assms(4,5) _ assms(6)] assms(3) by (simp add: storage_works_def)

lemma retire_works:
  assumes laws: "storage_laws St P slots" "cipher_laws P" and works: "storage_works St" "crypto_works P" and live: "sec_live q P slots s w"
    and run: "retirePreviousSlot St P s w = (r, s', w')"
  shows "r = SecOk"
proof -
  let ?t = "other_slot (dv_active s)"
  obtain a where a: "dv_active s = Some a" "dv_bound s" "material_wf (dv_material s)" using live by (auto simp: sec_live_def)
  obtain w1 where c: "st_clear St ?t w = (True, w1)" using works(1) unfolding storage_works_def by (metis prod.collapse)
  obtain raw w2 where rd: "st_read St ?t w1 = (Some raw, w2)"
    using works(1) unfolding storage_works_def reads_ok_def by (metis option.collapse prod.collapse)
  have "raw = []" using clear_law [OF laws(1) c] read_law [OF laws(1) rd] by simp
  obtain p s3 w3 where pe: "persist St P (s\<lparr>dv_material := (dv_material s)\<lparr>mt_pending := False\<rparr>\<rparr>) w2 = (p, s3, w3)"
    by (cases "persist St P (s\<lparr>dv_material := (dv_material s)\<lparr>mt_pending := False\<rparr>\<rparr>) w2") auto
  have "p = SecOk" by (rule persist_works [OF laws works _ pe]) (use a(3) in \<open>simp add: material_wf_def\<close>)
  then show ?thesis using run a c rd pe \<open>raw = []\<close> by (auto simp: retirePreviousSlot_def Let_def split: if_splits)
qed

text \<open>A trusted pairing succeeds while there is room, and a provisioned controller can be revoked.\<close>

lemma commit_works:
  assumes laws: "storage_laws St P slots" "cipher_laws P" and works: "storage_works St" "crypto_works P"
    and inv: "sec_inv P slots key s w" and begun: "dv_begun s" and len: "length cid = 16" "length root = 32"
    and trusted: "link_trusted l" "role = RoleOwner \<or> role = RoleCaretaker" "\<not> list_all (\<lambda>b. b = 0) cid" "\<not> list_all (\<lambda>b. b = 0) root"
    and room: "commit_target cid (dv_material s) = Some target"
  shows "\<exists>s' w'. commitControllerAfterPairing St P (Some cid) (Some root) l True role s w = (SecOk, s', w') \<and>
    dv_begun s' \<and> findControllerRoot cid s' = Some (root, role) \<and> dv_material s' = paired target cid root role (dv_material s)"
proof -
  from inv begun have live: "sec_live True P slots s w" "store_wf (dv_material s)" by (simp_all add: sec_inv_def)
  let ?m = "paired target cid root role (dv_material s)"
  have "store_wf ?m" by (rule paired_wf [OF live(2) room len trusted(2)])
  then have wf: "material_wf ?m" by (simp add: store_wf_def)
  obtain p s2 w2 where per: "persist St P (s\<lparr>dv_material := ?m\<rparr>) w = (p, s2, w2)" by (cases "persist St P (s\<lparr>dv_material := ?m\<rparr>) w") auto
  have p: "p = SecOk" by (rule persist_works [OF laws works _ per]) (simp add: wf)
  note ps = persist_step [OF laws live(1) wf per]
  have "commitControllerAfterPairing St P (Some cid) (Some root) l True role s w = (SecOk, s2, w2)"
    using begun trusted room per p
    by (auto simp: commitControllerAfterPairing_def Let_def paired_def pair_entry_def)
  moreover have "dv_begun s2" using ps(1) begun by (simp add: dv_same_def)
  moreover from this have "findControllerRoot cid s2 = Some (root, role)"
    using lookup_paired [OF live(2) room len trusted(2), of cid] ps(2) by (simp add: find_lookup)
  ultimately show ?thesis using ps(2) by blast
qed

lemma revoke_works:
  assumes laws: "storage_laws St P slots" "cipher_laws P" and works: "storage_works St" "crypto_works P"
    and inv: "sec_inv P slots key s w" and begun: "dv_begun s" and settled: "\<not> mt_pending (dv_material s)"
    and found: "controller_index cid (dv_material s) = Some i"
  shows "\<exists>s' w'. revokeAuthenticatedController St P (Some cid) s w = (SecOk, s', w')"
proof -
  from inv begun have live: "sec_live True P slots s w" "store_wf (dv_material s)" by (simp_all add: sec_inv_def)
  define m where "m = (dv_material s)\<lparr>mt_controllers := (mt_controllers (dv_material s))[i := controller0], mt_pending := True\<rparr>"
  have wf: "material_wf m"
    using removed_lacks [OF live(2) found] by (simp add: lacks_def store_wf_def material_wf_def m_def)
  obtain p s2 w2 where per: "persist St P (s\<lparr>dv_material := m\<rparr>) w = (p, s2, w2)" by (cases "persist St P (s\<lparr>dv_material := m\<rparr>) w") auto
  have p: "p = SecOk" by (rule persist_works [OF laws works _ per]) (simp add: wf)
  note ps = persist_step [OF laws live(1) wf per]
  obtain q s3 w3 where ret: "retirePreviousSlot St P s2 w2 = (q, s3, w3)" by (cases "retirePreviousSlot St P s2 w2") auto
  have "q = SecOk" by (rule retire_works [OF laws works conjunct1 [OF ps(3) [OF p, of True]] ret])
  then show ?thesis
    using begun settled found per p ret
    by (simp add: revokeAuthenticatedController_def revokeController_def resume_retirement_def revoke_to_def m_def)
qed

text \<open>The first boot of a blank store.\<close>

lemma validate_blank:
  assumes "storage_laws St P slots" "reads_ok St" "slots w slot = []" "validateSlot St P slot s w = (info, s', w')"
  shows "\<not> si_valid info \<and> \<not> si_nonempty info \<and> s' = s \<and> slots w' = slots w"
proof -
  obtain raw v where r: "st_read St slot w = (Some raw, v)"
    using assms(2) unfolding reads_ok_def by (metis option.collapse prod.collapse)
  with read_law [OF assms(1) r] assms(3,4) show ?thesis by (auto simp: validateSlot_def)
qed

lemma first_boot:
  assumes laws: "storage_laws St P slots" "cipher_laws P" and reads: "reads_ok St" and crypto: "crypto_works P"
    and P: "sp_reflashable P" "sp_derive P hid = Some key" and blank: "slots w 0 = []" "slots w 1 = []"
    and wr0: "\<And>blob v. fst (st_write St 0 blob v)"
  shows "\<exists>s' w'. sec_begin St P (Some hid) w = (SecOkReflashable, s', w') \<and> dv_begun s' \<and> fresh_material (dv_material s') \<and>
    \<not> mt_pending (dv_material s') \<and> dv_active s' = Some 0 \<and> newest_slot P key (slots w') = Some 0 \<and>
    slots w' 1 = [] \<and> sec_reach St P slots hid key s' w'"
proof -
  define s0 where "s0 = dv_clear\<lparr>dv_bound := True, dv_key := key, dv_last := SecOk\<rparr>"
  obtain i1 s1 w1 where v1: "validateSlot St P 0 s0 w = (i1, s1, w1)" by (cases "validateSlot St P 0 s0 w") auto
  note b1 = validate_blank [OF laws(1) reads blank(1) v1]
  then have bl: "slots w1 1 = []" using blank by simp
  obtain i2 s2 w2 where v2: "validateSlot St P 1 (s1\<lparr>dv_last := SecOk\<rparr>) w1 = (i2, s2, w2)"
    by (cases "validateSlot St P 1 (s1\<lparr>dv_last := SecOk\<rparr>) w1") auto
  note b2 = validate_blank [OF laws(1) reads bl v2]
  have s2: "s2 = s0" using b1 b2 by (simp add: s0_def)
  obtain did w3 where r1: "sp_random P kKitsuDeviceIdBytes w2 = (Some did, w3)"
    using crypto unfolding crypto_works_def by (metis option.collapse prod.collapse)
  obtain sec w4 where r2: "sp_random P kKitsuSecretBytes w3 = (Some sec, w4)"
    using crypto unfolding crypto_works_def by (metis option.collapse prod.collapse)
  define m where "m = material0\<lparr>mt_deviceId := did, mt_deviceSecret := sec\<rparr>"
  have fresh: "fresh_material m" "\<not> mt_pending m"
    using random_law [OF laws(1) r1] random_law [OF laws(1) r2]
    by (simp_all add: fresh_material_def m_def material_wf_def material0_def controller_wf_def controller0_def sec_consts list_all_iff)
  define s3 where "s3 = s0\<lparr>dv_material := m, dv_begun := True\<rparr>"
  have s3: "dv_active s3 = None" "dv_material s3 = m" "dv_key s3 = key" by (simp_all add: s3_def s0_def dv_clear_def)
  have t: "other_slot (dv_active s3) = 0" by (simp add: s3 other_slot_def)
  obtain p s4 w5 where per: "persist St P s3 w4 = (p, s4, w5)" by (cases "persist St P s3 w4") auto
  have wf: "material_wf (dv_material s3)" using fresh by (simp add: s3 fresh_material_def)
  have p: "p = SecOk" by (rule persist_succeeds [OF laws reads crypto wf _ per]) (simp add: t wr0)
  have t0: "other_slot None = 0" by (simp add: other_slot_def)
  note ps = persist_spec [OF laws wf per, unfolded s3 t0]
  have w1: "slots w5 1 = []" using ps(3) [of 1] b1 b2 bl random_law [OF laws(1) r1] random_law [OF laws(1) r2] by simp
  have "newest_slot P key (slots w5) = Some 0"
    using ps(4) [OF p] w1 by (intro newest_only [where t = 1 and q = True and m = m]) auto
  moreover have run: "sec_begin St P (Some hid) w = (SecOkReflashable, s4\<lparr>dv_begun := True, dv_count := countControllers (dv_material s4),
      dv_last := SecOkReflashable\<rparr>, w5)"
    using P v1 v2 b1 b2 s2 r1 r2 per p
    by (simp add: sec_begin_def Let_def s0_def [symmetric] sec_choose_def begin_fresh_def)
       (simp add: s0_def s3_def m_def dv_clear_def)
  moreover have "slots_all store_wf P key (slots w)" using blank by (auto simp: slots_all_def)
  ultimately show ?thesis
    using ps(2) ps(4) [OF p] fresh w1 sec_boot [OF _ run] by (intro exI conjI) (assumption | simp)+
qed

text \<open>A storage in memory; one that reports every write to the second slot as failed although it was done; and a
  platform whose cipher leaves the text as it is.\<close>

definition demo_storage :: "bool \<Rightarrow> (u8 \<Rightarrow> bytes) SecurityStorage" where
  "demo_storage flaky = \<lparr>st_read = (\<lambda>slot w. (Some (w slot), w)), st_write = (\<lambda>slot v w. (\<not> (flaky \<and> slot = 1), w(slot := v))),
     st_clear = (\<lambda>slot w. (True, w(slot := [])))\<rparr>"

definition demo_platform :: "(u8 \<Rightarrow> bytes) SecurityPlatform" where
  "demo_platform = \<lparr>sp_reflashable = True, sp_derive = (\<lambda>hid. Some hid), sp_random = (\<lambda>n w. (Some (replicate n 7), w)),
     sp_seal = (\<lambda>k g n p. Some (p, replicate 16 0)), sp_open = (\<lambda>k g n c t. Some c), sp_hkdf = (\<lambda>k s i n. None)\<rparr>"

abbreviation (input) demo_slots :: "(u8 \<Rightarrow> bytes) \<Rightarrow> u8 \<Rightarrow> bytes" where
  "demo_slots \<equiv> (\<lambda>w. w)"

lemma demo_laws: "storage_laws (demo_storage flaky) demo_platform demo_slots" "cipher_laws demo_platform" "reads_ok (demo_storage flaky)"
  "crypto_works demo_platform" "sp_reflashable demo_platform" "sp_derive demo_platform hid = Some hid" "storage_works (demo_storage False)"
  by (simp_all add: storage_laws_def cipher_laws_def reads_ok_def crypto_works_def demo_storage_def demo_platform_def storage_works_def)

definition demo_link :: PairingLink where
  "demo_link = \<lparr>pl_secureConnections = True, pl_linkEncrypted = True, pl_bonded = True, pl_physicalConfirmed = True\<rparr>"

lemma demo_powered: "\<exists>s w. sec_begin (demo_storage flaky) demo_platform (Some []) (\<lambda>_. []) = (SecOkReflashable, s, w) \<and> dv_begun s \<and>
    fresh_material (dv_material s) \<and> \<not> mt_pending (dv_material s) \<and> dv_active s = Some 0 \<and>
    newest_slot demo_platform [] w = Some 0 \<and> w 1 = [] \<and> sec_reach (demo_storage flaky) demo_platform demo_slots [] [] s w"
  using first_boot [OF demo_laws(1-6), where w = "\<lambda>_. []" and hid = "[]"] by (simp add: demo_storage_def)

lemma fresh_target: "fresh_material m \<Longrightarrow> commit_target cid m = Some 0"
proof -
  assume m: "fresh_material m"
  then have "controller_index cid m = None" by (simp add: index_none fresh_material_def controller0_def)
  moreover have "[0 ..< kKitsuControllerCapacity] = 0 # [1 ..< kKitsuControllerCapacity]" by (simp add: upt_rec kKitsuControllerCapacity_def)
  ultimately show ?thesis using m by (simp add: commit_target_def fresh_material_def controller0_def kKitsuControllerCapacity_def)
qed

text \<open>The storage of the witnesses after a boot and a pairing.\<close>

definition demo_cid :: bytes where "demo_cid = replicate 16 3"
definition demo_root :: bytes where "demo_root = replicate 32 5"

lemma demo_sizes: "length demo_cid = 16" "length demo_root = 32" "\<not> list_all (\<lambda>b. b = 0) demo_cid" "\<not> list_all (\<lambda>b. b = 0) demo_root"
  "link_trusted demo_link"
  by (simp_all add: demo_cid_def demo_root_def list_all_iff demo_link_def link_trusted_def)

subsection \<open>The storage adapter\<close>

text \<open>The contract of the Preferences library: values are read as they are or not at all, an operation concerns its key only, and
  one that reports failure leaves the old value, the new one or none.\<close>

definition preference_laws :: "'w PreferenceOps \<Rightarrow> ('w \<Rightarrow> string \<Rightarrow> bytes) \<Rightarrow> bool" where
  "preference_laws Q vals \<longleftrightarrow>
     (\<forall>k w. pf_length Q k w = length (vals w k))
     \<and> (\<forall>k w. vals (snd (pf_get Q k w)) = vals w \<and> (length (fst (pf_get Q k w)) = length (vals w k) \<longrightarrow> fst (pf_get Q k w) = vals w k))
     \<and> (\<forall>k v w. (\<forall>j. j \<noteq> k \<longrightarrow> vals (snd (pf_put Q k v w)) j = vals w j)
          \<and> (fst (pf_put Q k v w) = length v \<longrightarrow> vals (snd (pf_put Q k v w)) k = v)
          \<and> vals (snd (pf_put Q k v w)) k \<in> {vals w k, v, []})
     \<and> (\<forall>k w. (\<forall>j. j \<noteq> k \<longrightarrow> vals (snd (pf_remove Q k w)) j = vals w j)
          \<and> (fst (pf_remove Q k w) \<longrightarrow> vals (snd (pf_remove Q k w)) k = [])
          \<and> vals (snd (pf_remove Q k w)) k \<in> {vals w k, []})"

definition preference_slots :: "('w \<Rightarrow> string \<Rightarrow> bytes) \<Rightarrow> 'w \<Rightarrow> u8 \<Rightarrow> bytes" where
  "preference_slots vals w slot = (case slotKey slot of None \<Rightarrow> [] | Some k \<Rightarrow> vals w k)"

lemma slotKey_eq: "slotKey a = Some k \<Longrightarrow> slotKey b = Some k \<Longrightarrow> a = b"
  by (auto simp: slotKey_def split: if_splits)

lemma esp32_storage_laws:
  assumes prefs: "preference_laws Q vals"
    and random: "\<And>n w. vals (snd (sp_random P n w)) = vals w" "\<And>n w b. fst (sp_random P n w) = Some b \<Longrightarrow> length b = n"
  shows "storage_laws (Esp32DeviceSecurityStorage Q begun) P (preference_slots vals)"
proof -
  note get = prefs [unfolded preference_laws_def, THEN conjunct2, THEN conjunct1, THEN spec, THEN spec]
  note put = prefs [unfolded preference_laws_def, THEN conjunct2, THEN conjunct2, THEN conjunct1, THEN spec, THEN spec, THEN spec]
  note rem = prefs [unfolded preference_laws_def, THEN conjunct2, THEN conjunct2, THEN conjunct2, THEN spec, THEN spec]
  have len: "pf_length Q k w = length (vals w k)" for k w using prefs by (simp add: preference_laws_def)
  show ?thesis
    unfolding storage_laws_def
  proof (intro conjI allI impI)
    fix slot :: u8 and w
    show "preference_slots vals (snd (st_read (Esp32DeviceSecurityStorage Q begun) slot w)) = preference_slots vals w"
      using get by (auto simp: Esp32DeviceSecurityStorage_def readPreferenceSlot_def preference_slots_def fun_eq_iff Let_def
          split: option.splits prod.splits) (metis snd_conv)+
  next
    fix slot :: u8 and w raw
    assume "fst (st_read (Esp32DeviceSecurityStorage Q begun) slot w) = Some raw"
    then show "raw = preference_slots vals w slot"
      using get [of _ w] by (auto simp: Esp32DeviceSecurityStorage_def readPreferenceSlot_def preference_slots_def Let_def len
          split: option.splits prod.splits if_splits) (metis fst_conv)
  next
    fix slot k :: u8 and v w
    assume "k \<noteq> slot"
    then show "preference_slots vals (snd (st_write (Esp32DeviceSecurityStorage Q begun) slot v w)) k = preference_slots vals w k"
      using put slotKey_eq [of slot _ k] by (auto simp: Esp32DeviceSecurityStorage_def writePreferenceSlot_def preference_slots_def
          split: option.splits prod.splits) (metis snd_conv)
  next
    fix slot :: u8 and v w
    assume "fst (st_write (Esp32DeviceSecurityStorage Q begun) slot v w)"
    then show "preference_slots vals (snd (st_write (Esp32DeviceSecurityStorage Q begun) slot v w)) slot = v"
      using put [of _ v w] by (auto simp: Esp32DeviceSecurityStorage_def writePreferenceSlot_def preference_slots_def
          split: option.splits prod.splits if_splits) (metis fst_conv snd_conv)
  next
    fix slot :: u8 and v w
    show "preference_slots vals (snd (st_write (Esp32DeviceSecurityStorage Q begun) slot v w)) slot \<in> {preference_slots vals w slot, v, []}"
      using put [of _ v w] by (auto simp: Esp32DeviceSecurityStorage_def writePreferenceSlot_def preference_slots_def
          split: option.splits prod.splits if_splits) (metis fst_conv snd_conv)
  next
    fix slot k :: u8 and w
    assume "k \<noteq> slot"
    then show "preference_slots vals (snd (st_clear (Esp32DeviceSecurityStorage Q begun) slot w)) k = preference_slots vals w k"
      using rem [of _ w] slotKey_eq [of slot _ k] by (auto simp: Esp32DeviceSecurityStorage_def esp32_clearSlot_def preference_slots_def
          split: option.splits prod.splits) metis
  next
    fix slot :: u8 and w
    assume "fst (st_clear (Esp32DeviceSecurityStorage Q begun) slot w)"
    then show "preference_slots vals (snd (st_clear (Esp32DeviceSecurityStorage Q begun) slot w)) slot = []"
      using rem [of _ w] len by (auto simp: Esp32DeviceSecurityStorage_def esp32_clearSlot_def preference_slots_def
          split: option.splits prod.splits if_splits)
  next
    fix slot :: u8 and w
    show "preference_slots vals (snd (st_clear (Esp32DeviceSecurityStorage Q begun) slot w)) slot \<in> {preference_slots vals w slot, []}"
      using rem [of _ w] by (auto simp: Esp32DeviceSecurityStorage_def esp32_clearSlot_def preference_slots_def
          split: option.splits prod.splits if_splits)
  next
    fix n w
    show "preference_slots vals (snd (sp_random P n w)) = preference_slots vals w"
      using random(1) [of n w] by (simp add: preference_slots_def fun_eq_iff split: option.splits)
  next
    fix n w b
    assume "fst (sp_random P n w) = Some b"
    then show "length b = n" by (rule random(2))
  qed
qed

subsection \<open>Properties\<close>

text \<open>
  C3. A pairing is atomic over a reboot.  In a ready store with no interrupted revocation, and with the active slot
  the newest, a commit is followed by a boot that succeeds and finds either exactly the controllers from before or those
  with the new one in place; when the commit reported success it is the latter.  Writes may fail in every
  way of the storage contract; reads succeed.
\<close>

theorem pairing_atomic:
  assumes laws: "storage_laws St P slots" "cipher_laws P" and reads: "reads_ok St"
    and P: "sp_reflashable P" "sp_derive P hid = Some key"
    and reach: "sec_reach St P slots hid key s w" and ready: "dv_begun s" "\<not> mt_pending (dv_material s)"
    and settled: "newest_slot P key (slots w) = dv_active s" and len: "length cid = 16" "length root = 32"
    and run: "commitControllerAfterPairing St P (Some cid) (Some root) l v role s w = (r, s', w')"
  shows "\<exists>s2 w2. sec_begin St P (Some hid) w' = (SecOkReflashable, s2, w2) \<and>
    ((\<forall>x. findControllerRoot x s2 = findControllerRoot x s) \<and> r \<noteq> SecOk \<or>
     (\<forall>x. findControllerRoot x s2 = (if x = cid then Some (root, role) else findControllerRoot x s)))"
proof -
  from sec_reach_inv [OF reach laws P(2)] ready(1) have live: "sec_live True P slots s w" "dv_key s = key" "store_wf (dv_material s)"
    by (simp_all add: sec_inv_def)
  then obtain a where a: "dv_active s = Some a" "a = 0 \<or> a = 1" "slot_written P key (slots w a) (dv_generation s) (dv_material s)"
    by (auto simp: sec_live_def)
  note boot = begin_loads [OF laws reads P]
  have keep: "\<exists>s2 w2. sec_begin St P (Some hid) w' = (SecOkReflashable, s2, w2) \<and> (\<forall>x. findControllerRoot x s2 = findControllerRoot x s)"
    if "newest_slot P key (slots w') = Some a" "slots w' a = slots w a"
    using boot [OF that(1), of "dv_generation s" "dv_material s"] a(3) that(2) ready by (auto simp: find_lookup)
  from laws live(1,3) ready(1) len run show ?thesis
  proof (cases rule: commit_cases)
    case refused
    then show ?thesis using keep settled a(1) by auto
  next
    case (written target s2)
    let ?m = "paired target cid root role (dv_material s)" and ?t = "other_slot (dv_active s)"
    have wf: "store_wf ?m" by (rule paired_wf [OF live(3) written(1) len written(2)])
    then have "material_wf ?m" by (simp add: store_wf_def)
    note ps = persist_step [OF laws live(1) this written(3)]
    have t: "a = 0 \<and> ?t = 1 \<or> a = 1 \<and> ?t = 0" using a(1,2) by (auto simp: other_slot_def)
    then have wa: "slots w' a = slots w a" using ps(5) [of a] by auto
    have new: "\<exists>s2 w2. sec_begin St P (Some hid) w' = (SecOkReflashable, s2, w2) \<and>
        (\<forall>x. findControllerRoot x s2 = (if x = cid then Some (root, role) else findControllerRoot x s))"
      if held: "slot_written P key (slots w' ?t) (dv_generation s + 1) ?m"
    proof -
      have "newest_slot P key (slots w') = Some ?t" using newest_later [where sl = "slots w'", OF t _ held] a(3) wa by simp
      from boot [OF this held] ready obtain s3 w3 where "sec_begin St P (Some hid) w' = (SecOkReflashable, s3, w3)" "dv_begun s3"
        "dv_material s3 = ?m" by (auto simp: paired_def)
      then show ?thesis
        using lookup_paired [OF live(3) written(1) len written(2)] ready(1) by (auto simp: find_lookup)
    qed
    consider (ok) "slot_written P key (slots w' ?t) (dv_generation s + 1) ?m" | (same) "r \<noteq> SecOk" "slots w' ?t = slots w ?t"
      | (lost) "r \<noteq> SecOk" "slots w' ?t = []"
      using ps(7,8) live(2) by blast
    then show ?thesis
    proof cases
      case ok
      then show ?thesis using new by blast
    next
      case same
      have "slots w' 0 = slots w 0 \<and> slots w' 1 = slots w 1" using t wa same by auto
      then have "newest_slot P key (slots w') = newest_slot P key (slots w)" by (simp add: newest_slot_def)
      then show ?thesis using keep settled a(1) wa same by auto
    next
      case lost
      then have "newest_slot P key (slots w') = Some a" using newest_only [OF t, of True P key "slots w'"] a(3) wa by simp
      then show ?thesis using keep wa lost by auto
    qed
  qed
qed

theorem pairing_atomic_witness:
  "\<exists>s w s' w' s2 w2. sec_begin (demo_storage False) demo_platform (Some []) (\<lambda>_. []) = (SecOkReflashable, s, w) \<and>
     commitControllerAfterPairing (demo_storage False) demo_platform (Some demo_cid) (Some demo_root) demo_link True RoleOwner s w = (SecOk, s', w') \<and>
     sec_begin (demo_storage False) demo_platform (Some []) w' = (SecOkReflashable, s2, w2) \<and>
     findControllerRoot demo_cid s2 = Some (demo_root, RoleOwner)"
proof -
  obtain s w where b: "sec_begin (demo_storage False) demo_platform (Some []) (\<lambda>_. []) = (SecOkReflashable, s, w)" "dv_begun s"
    "fresh_material (dv_material s)" "\<not> mt_pending (dv_material s)" "dv_active s = Some 0" "newest_slot demo_platform [] w = Some 0"
    "sec_reach (demo_storage False) demo_platform demo_slots [] [] s w" using demo_powered [of False] by blast
  note laws = demo_laws(1) [where flaky = False] demo_laws(2) demo_laws(3) [where flaky = False] demo_laws(5) demo_laws(6) [where hid = "[]"]
  note inv = sec_reach_inv [OF b(7) laws(1,2,5)]
  have role: "RoleOwner = RoleOwner \<or> RoleOwner = RoleCaretaker" by simp
  obtain s' w' where c: "commitControllerAfterPairing (demo_storage False) demo_platform (Some demo_cid) (Some demo_root) demo_link True RoleOwner s w
      = (SecOk, s', w')"
    using commit_works [OF laws(1,2) demo_laws(7,4) inv b(2) demo_sizes(1,2,5) role demo_sizes(3,4) fresh_target [OF b(3)]] by blast
  have settled: "newest_slot demo_platform [] w = dv_active s" using b(5,6) by simp
  from pairing_atomic [OF laws b(7,2,4) settled demo_sizes(1,2) c] b(1) c show ?thesis by auto
qed

text \<open>
  C4. A revoked controller does not come back.  When a revocation reports success, the controller is not found
  any more, and no later boot finds it, even one that finds a slot missing: neither slot has a record
  with it.  For the revocation of all controllers this holds when there was one or a revocation was pending.
\<close>

theorem revoked_never_returns:
  assumes laws: "storage_laws St P slots" "cipher_laws P" and key: "sp_derive P hid = Some key"
    and reach: "sec_reach St P slots hid key s w" and ready: "dv_begun s"
    and run: "revokeAuthenticatedController St P (Some cid) s w = (SecOk, s', w') \<or>
      revokeControllerAfterPhysicalConfirmation St P (Some cid) True s w = (SecOk, s', w') \<or>
      (mt_pending (dv_material s) \<or> list_ex ct_valid (mt_controllers (dv_material s))) \<and>
        revokeAllControllersAfterPhysicalConfirmation St P True s w = (SecOk, s', w')"
    and later: "\<forall>i. slots w2 i = slots w' i \<or> slots w2 i = []" "sec_begin St P (Some hid) w2 = (r, s2, w3)"
  shows "findControllerRoot cid s' = None \<and> findControllerRoot cid s2 = None"
proof -
  note inv = sec_reach_inv [OF reach laws key]
  have out: "dv_begun s' \<and> lacks cid (dv_material s') \<and> slots_all (lacks cid) P key (slots w')"
    using run
  proof (elim disjE conjE)
    assume "revokeAuthenticatedController St P (Some cid) s w = (SecOk, s', w')"
    then have "revokeController St P cid s w = (SecOk, s', w')" using ready by (simp add: revokeAuthenticatedController_def)
    then show ?thesis using revokeController_spec [OF laws inv ready] by blast
  next
    assume "revokeControllerAfterPhysicalConfirmation St P (Some cid) True s w = (SecOk, s', w')"
    then have "revokeController St P cid s w = (SecOk, s', w')" using ready by (simp add: revokeControllerAfterPhysicalConfirmation_def)
    then show ?thesis using revokeController_spec [OF laws inv ready] by blast
  qed (use revokeAll_spec [OF laws inv ready] in blast)+
  have "slots_all (lacks cid) P key (slots w2)"
    unfolding slots_all_def
  proof (intro allI impI)
    fix i g plain
    assume i: "i = 0 \<or> i = (1 :: u8)" and rec: "slot_record P key (slots w2 i) = Some (g, plain)"
    then have "slots w2 i = slots w' i" using later(1) by (metis option.distinct(1) slot_record_empty)
    then show "\<exists>retired m. load_plain plain = (True, retired, m) \<and> lacks cid m"
      using out i rec by (auto simp: slots_all_def)
  qed
  from begin_spec [OF laws store_properties(2) key this later(2)] out show ?thesis
    by (auto simp: findControllerRoot_def lacks_def)
qed

theorem revoked_never_returns_witness:
  "\<exists>s w s' w' r s2 w3. sec_reach (demo_storage False) demo_platform demo_slots [] [] s w \<and> findControllerRoot demo_cid s = Some (demo_root, RoleOwner) \<and>
     revokeAuthenticatedController (demo_storage False) demo_platform (Some demo_cid) s w = (SecOk, s', w') \<and> findControllerRoot demo_cid s' = None \<and>
     sec_begin (demo_storage False) demo_platform (Some []) w' = (r, s2, w3) \<and> findControllerRoot demo_cid s2 = None"
proof -
  obtain s w where b: "dv_begun s" "fresh_material (dv_material s)" "\<not> mt_pending (dv_material s)"
    "sec_reach (demo_storage False) demo_platform demo_slots [] [] s w" using demo_powered [of False] by blast
  note laws = demo_laws(1) [where flaky = False] demo_laws(2) demo_laws(6) [where hid = "[]"]
  have role: "RoleOwner = RoleOwner \<or> RoleOwner = RoleCaretaker" by simp
  obtain s1 w1 where c: "commitControllerAfterPairing (demo_storage False) demo_platform (Some demo_cid) (Some demo_root) demo_link True RoleOwner s w
      = (SecOk, s1, w1)" "dv_begun s1" "findControllerRoot demo_cid s1 = Some (demo_root, RoleOwner)"
      "dv_material s1 = paired 0 demo_cid demo_root RoleOwner (dv_material s)"
    using commit_works [OF laws(1,2) demo_laws(7,4) sec_reach_inv [OF b(4) laws] b(1) demo_sizes(1,2,5) role demo_sizes(3,4) fresh_target [OF b(2)]]
    by blast
  note reach = sec_commit [OF b(4) demo_sizes(1,2) c(1)]
  obtain i where i: "controller_index demo_cid (dv_material s1) = Some i"
    using c(2,3) by (auto simp: findControllerRoot_def split: option.splits)
  have "\<not> mt_pending (dv_material s1)" using b(3) c(4) by (simp add: paired_def)
  then obtain s' w' where rv: "revokeAuthenticatedController (demo_storage False) demo_platform (Some demo_cid) s1 w1 = (SecOk, s', w')"
    using revoke_works [OF laws(1,2) demo_laws(7,4) sec_reach_inv [OF reach laws] c(2) _ i] by blast
  obtain r s2 w3 where bt: "sec_begin (demo_storage False) demo_platform (Some []) w' = (r, s2, w3)"
    by (cases "sec_begin (demo_storage False) demo_platform (Some []) w'") auto
  have "\<forall>i. w' i = w' i \<or> w' i = []" by simp
  from revoked_never_returns [OF laws reach c(2) disjI1 [OF rv] this bt] reach c(3) rv bt show ?thesis by blast
qed

text \<open>
  C36. What the revocation of all controllers misses.  When the table of controllers is empty, no revocation is pending
  and a pairing reports failure although its record reached the spare slot, the table in memory is empty again; the
  revocation of all controllers then reports success without touching the storage, and the next boot finds the
  controller.  With another controller in the table the revocation rewrites both slots.
\<close>

theorem failed_pairing_survives_revocation:
  assumes laws: "storage_laws St P slots" "cipher_laws P" and reads: "reads_ok St"
    and P: "sp_reflashable P" "sp_derive P hid = Some key"
    and reach: "sec_reach St P slots hid key s w" and ready: "dv_begun s" "\<not> mt_pending (dv_material s)"
    and none: "\<not> list_ex ct_valid (mt_controllers (dv_material s))" and len: "length cid = 16" "length root = 32"
    and run: "commitControllerAfterPairing St P (Some cid) (Some root) l v role s w = (r, s', w')" and failed: "r \<noteq> SecOk"
    and arrived: "slots w' (other_slot (dv_active s)) \<noteq> slots w (other_slot (dv_active s))" "slots w' (other_slot (dv_active s)) \<noteq> []"
  shows "findControllerRoot cid s' = None \<and>
    (\<exists>s2. revokeAllControllersAfterPhysicalConfirmation St P True s' w' = (SecOk, s2, w')) \<and>
    (\<exists>s3 w3. sec_begin St P (Some hid) w' = (SecOkReflashable, s3, w3) \<and> findControllerRoot cid s3 = Some (root, role))"
proof -
  from sec_reach_inv [OF reach laws P(2)] ready(1) have live: "sec_live True P slots s w" "dv_key s = key" "store_wf (dv_material s)"
    by (simp_all add: sec_inv_def)
  then obtain a where a: "dv_active s = Some a" "a = 0 \<or> a = 1" "slot_written P key (slots w a) (dv_generation s) (dv_material s)"
    by (auto simp: sec_live_def)
  have tab: "length (mt_controllers (dv_material s)) = 4" using live(3) by (simp add: store_wf_def material_wf_def)
  then have out: "controller_index cid (dv_material s) = None" using none by (auto simp: index_none list_ex_iff)
  from laws live(1,3) ready(1) len run show ?thesis
  proof (cases rule: commit_cases)
    case refused
    then show ?thesis using arrived by simp
  next
    case (written target s2)
    let ?m = "paired target cid root role (dv_material s)" and ?t = "other_slot (dv_active s)"
    have "store_wf ?m" by (rule paired_wf [OF live(3) written(1) len written(2)])
    then have "material_wf ?m" by (simp add: store_wf_def)
    note ps = persist_step [OF laws live(1) this written(3)]
    have held: "slot_written P key (slots w' ?t) (dv_generation s + 1) ?m" using ps(7) arrived live(2) by simp
    have t: "a = 0 \<and> ?t = 1 \<or> a = 1 \<and> ?t = 0" using a(1,2) by (auto simp: other_slot_def)
    then have wa: "slots w' a = slots w a" using ps(5) [of a] by auto
    have "newest_slot P key (slots w') = Some ?t" using newest_later [where sl = "slots w'", OF t _ held] a(3) wa by simp
    from begin_loads [OF laws reads P this held] ready obtain s3 w3 where "sec_begin St P (Some hid) w' = (SecOkReflashable, s3, w3)" "dv_begun s3"
      "dv_material s3 = ?m" by (auto simp: paired_def)
    then have "\<exists>s3 w3. sec_begin St P (Some hid) w' = (SecOkReflashable, s3, w3) \<and> findControllerRoot cid s3 = Some (root, role)"
      using lookup_paired [OF live(3) written(1) len written(2), of cid] by (auto simp: find_lookup)
    moreover have s': "dv_material s' = dv_material s" "dv_begun s'" using written(4) failed ps(1) ready(1) by (simp_all add: dv_same_def)
    ultimately show ?thesis
      using out none ready(2) by (simp add: findControllerRoot_def revokeAllControllersAfterPhysicalConfirmation_def resume_retirement_def)
  qed
qed

text \<open>A storage that reports the write to the second slot as failed although it was done.\<close>

lemma demo_commit_fails:
  assumes s: "dv_begun s" "dv_active s = Some 0" "fresh_material (dv_material s)"
  shows "\<exists>s' w'. commitControllerAfterPairing (demo_storage True) demo_platform (Some demo_cid) (Some demo_root) demo_link True RoleOwner s w
    = (StorageWriteFailed, s', w') \<and> w' 1 \<noteq> []"
proof -
  define m where "m = paired 0 demo_cid demo_root RoleOwner (dv_material s)"
  have "store_wf (dv_material s)" using s(3) store_properties(1) by (auto simp: store_property_def)
  then have "store_wf m" unfolding m_def by (rule paired_wf [OF _ fresh_target [OF s(3)] demo_sizes(1,2)]) simp
  then have wf: "material_wf m" by (simp add: store_wf_def)
  define s1 where "s1 = s\<lparr>dv_material := m\<rparr>"
  obtain b w1 where e: "sec_encode demo_platform (dv_generation s + 1) s1 w = (b, w1)" by (cases "sec_encode demo_platform (dv_generation s + 1) s1 w")
  have wf1: "material_wf (dv_material s1)" by (simp add: s1_def wf)
  obtain blob where b: "b = Some blob" using encode_works [OF demo_laws(4) wf1 e] by blast
  have "blob \<noteq> []" using encode_spec(2) [OF demo_laws(1) demo_laws(2) wf1 e b] by auto
  then show ?thesis
    using s e b fresh_target [OF s(3), of demo_cid] demo_sizes
    by (simp add: commitControllerAfterPairing_def Let_def persist_def s1_def m_def paired_def pair_entry_def other_slot_def demo_storage_def)
qed

theorem failed_pairing_survives_revocation_witness:
  "\<exists>s w s' w'. sec_begin (demo_storage True) demo_platform (Some []) (\<lambda>_. []) = (SecOkReflashable, s, w) \<and>
     commitControllerAfterPairing (demo_storage True) demo_platform (Some demo_cid) (Some demo_root) demo_link True RoleOwner s w
       = (StorageWriteFailed, s', w') \<and>
     (\<exists>s2. revokeAllControllersAfterPhysicalConfirmation (demo_storage True) demo_platform True s' w' = (SecOk, s2, w')) \<and>
     (\<exists>s3 w3. sec_begin (demo_storage True) demo_platform (Some []) w' = (SecOkReflashable, s3, w3) \<and>
        findControllerRoot demo_cid s3 = Some (demo_root, RoleOwner))"
proof -
  obtain s w where b: "sec_begin (demo_storage True) demo_platform (Some []) (\<lambda>_. []) = (SecOkReflashable, s, w)" "dv_begun s"
    "fresh_material (dv_material s)" "\<not> mt_pending (dv_material s)" "dv_active s = Some 0" "w 1 = []"
    "sec_reach (demo_storage True) demo_platform demo_slots [] [] s w" using demo_powered [of True] by blast
  obtain s' w' where c: "commitControllerAfterPairing (demo_storage True) demo_platform (Some demo_cid) (Some demo_root) demo_link True RoleOwner s w
    = (StorageWriteFailed, s', w')" "w' 1 \<noteq> []" using demo_commit_fails [OF b(2,5,3)] by blast
  note laws = demo_laws(1) [where flaky = True] demo_laws(2) demo_laws(3) [where flaky = True] demo_laws(5) demo_laws(6) [where hid = "[]"]
  have none: "\<not> list_ex ct_valid (mt_controllers (dv_material s))" using b(3) by (simp add: fresh_material_def list_ex_iff controller0_def)
  have t: "other_slot (dv_active s) = 1" using b(5) by (simp add: other_slot_def)
  have "w' (other_slot (dv_active s)) \<noteq> w (other_slot (dv_active s))" "w' (other_slot (dv_active s)) \<noteq> []" using c(2) b(6) t by simp_all
  from failed_pairing_survives_revocation [where slots = demo_slots, OF laws b(7,2,4) none demo_sizes(1,2) c(1) _ this] b(1) c(1) show ?thesis by blast
qed

end
