(* ===== verification/Ble_Control.thy ===== *)
theory Ble_Control
  imports Ble_Action Companion_Proofs
begin

unbundle bit_operations_syntax

text \<open>
  The control messages of the BLE session, first part of \<^verbatim>\<open>src/src/kitsu_ble_session.cpp\<close>: the parser of
  flat JSON objects with a fixed schema, and the writer of the messages.  Shown here: a message in canonical
  form is parsed into its fields, and the messages of the device always fit their buffer.

  The string scanner of this file is the one of \<^verbatim>\<open>kitsu_ble_action.cpp\<close>, modelled in \<^verbatim>\<open>Ble_Action\<close>;
  the text of both functions is the same.
\<close>

subsection \<open>Parsing\<close>

definition kMaximumControlFields :: nat where "kMaximumControlFields = 10"

definition ses_allZero :: "bytes \<Rightarrow> bool" where
  "ses_allZero input \<longleftrightarrow> foldl (OR) 0 input = 0"

definition validDeviceUid :: "bytes option \<Rightarrow> bool" where
  "validDeviceUid uid \<longleftrightarrow> (case uid of None \<Rightarrow> False | Some u \<Rightarrow> length u = 7 \<and> uid_valid u)"

datatype FlatValueKind = FlatString | FlatUnsigned

record FlatField =
  ff_key :: ActSpan
  ff_value :: ActSpan
  ff_kind :: FlatValueKind

definition sameSpan :: "ActSpan \<Rightarrow> ActSpan \<Rightarrow> bool" where
  "sameSpan left right \<longleftrightarrow> \<not> sp_escaped left \<and> \<not> sp_escaped right \<and> sp_data left = sp_data right"

definition flat_unsigned :: "bytes \<Rightarrow> (ActSpan \<times> bytes) option" where
  "flat_unsigned rest =
     (let digits = takeWhile is_digit rest in
      if digits = [] \<or> (length digits > 1 \<and> hd digits = cZero) then None
      else Some (\<lparr>sp_data = digits, sp_escaped = False\<rparr>, dropWhile is_digit rest))"

definition flat_value :: "bytes \<Rightarrow> (ActSpan \<times> FlatValueKind \<times> bytes) option" where
  "flat_value rest =
     (if rest \<noteq> [] \<and> hd rest = cQuote then map_option (\<lambda>(s, r). (s, FlatString, r)) (parseString rest)
      else map_option (\<lambda>(s, r). (s, FlatUnsigned, r)) (flat_unsigned rest))"

lemma flat_value_le: "flat_value r = Some (s, k, r') \<Longrightarrow> length r' \<le> length r"
  by (auto simp: flat_value_def flat_unsigned_def Let_def split: if_splits dest!: parseString_shorter
      intro: length_dropWhile_le)

text \<open>The field loop.  Like the other object parsers it also ends at the end of the text after a comma.\<close>

function flat_fields :: "FlatField list \<Rightarrow> bytes \<Rightarrow> (FlatField list \<times> bytes) option" where
  "flat_fields parsed rest =
     (if rest = [] then Some (parsed, rest)
      else if length parsed \<ge> kMaximumControlFields then None
      else case parseString rest of None \<Rightarrow> None
      | Some (key, r1) \<Rightarrow>
        if sp_escaped key \<or> sp_data key = [] then None
        else if list_ex (\<lambda>f. sameSpan (ff_key f) key) parsed then None
        else let r2 = skipWhitespace r1 in
          if r2 = [] \<or> hd r2 \<noteq> cColon then None
          else let r3 = skipWhitespace (tl r2) in
            (case flat_value r3 of None \<Rightarrow> None
             | Some (v, kind, r4) \<Rightarrow>
               let added = parsed @ [\<lparr>ff_key = key, ff_value = v, ff_kind = kind\<rparr>]; r5 = skipWhitespace r4 in
               if r5 = [] then None
               else if hd r5 = cCloseBrace then Some (added, tl r5)
               else if hd r5 \<noteq> cComma then None
               else flat_fields added (skipWhitespace (tl r5))))"
  by pat_completeness auto

termination flat_fields
proof (relation "measure (\<lambda>(f, r). length r)", goal_cases)
  case (2 parsed rest x key r1 r2 r3 y v z kind r4 added r5)
  have "length r1 < length rest" using 2 parseString_shorter by blast
  then have "length r3 < length rest" using skip_after_shorter(2) [of r1 "length rest"] 2 by auto
  moreover have "length r4 \<le> length r3" using flat_value_le 2 by blast
  ultimately have "length r4 < length rest" by linarith
  then show ?case using skip_after_shorter(2) [of r4 "length rest"] 2 by auto
qed simp

declare flat_fields.simps [simp del]

definition parseFlatObject :: "bytes option \<Rightarrow> FlatField list option" where
  "parseFlatObject json =
     (case json of None \<Rightarrow> None
      | Some text \<Rightarrow>
        if text = [] \<or> length text > kMaximumHandshakeFrameBytes \<or> \<not> validUtf8 (Some text) then None
        else let r = skipWhitespace text in
          if r = [] \<or> hd r \<noteq> cOpenBrace then None
          else let r = skipWhitespace (tl r) in
            if r \<noteq> [] \<and> hd r = cCloseBrace then None
            else case flat_fields [] r of None \<Rightarrow> None
            | Some (parsed, rest) \<Rightarrow> if skipWhitespace rest = [] then Some parsed else None)"

definition flat_findField :: "FlatField list \<Rightarrow> string \<Rightarrow> FlatField option" where
  "flat_findField fs name = find (\<lambda>f. spanEquals (ff_key f) name) fs"

definition schemaMatches :: "FlatField list \<Rightarrow> string list \<Rightarrow> bool" where
  "schemaMatches fs names \<longleftrightarrow> length fs = length names \<and> list_all (\<lambda>n. flat_findField fs n \<noteq> None) names"

definition versionEquals :: "FlatField list \<Rightarrow> u8 \<Rightarrow> bool" where
  "versionEquals fs expected \<longleftrightarrow> (case flat_findField fs ''v'' of None \<Rightarrow> False
     | Some version \<Rightarrow> ff_kind version = FlatUnsigned \<and> length (sp_data (ff_value version)) = 1
         \<and> 1 \<le> expected \<and> expected \<le> 9 \<and> hd (sp_data (ff_value version)) = cZero + expected)"

definition validVersion :: "FlatField list \<Rightarrow> bool" where
  "validVersion fs = versionEquals fs 1"

definition validPairingRole :: "ControllerRole \<Rightarrow> bool" where
  "validPairingRole role \<longleftrightarrow> role = RoleOwner \<or> role = RoleCaretaker"

definition pairingVersionForRole :: "ControllerRole \<Rightarrow> u8" where
  "pairingVersionForRole role = (if role = RoleOwner then 1 else if role = RoleCaretaker then 2 else 0)"

definition stringFieldEquals :: "FlatField list \<Rightarrow> string \<Rightarrow> string \<Rightarrow> bool" where
  "stringFieldEquals fs fieldName expected \<longleftrightarrow> (case flat_findField fs fieldName of None \<Rightarrow> False
     | Some field \<Rightarrow> ff_kind field = FlatString \<and> spanEquals (ff_value field) expected)"

definition decodeExact :: "FlatField list \<Rightarrow> string \<Rightarrow> nat \<Rightarrow> bytes option" where
  "decodeExact fs name expectedBytes =
     (case flat_findField fs name of None \<Rightarrow> None
      | Some field \<Rightarrow>
        if ff_kind field \<noteq> FlatString \<or> sp_escaped (ff_value field) then None
        else case decodeBase64Url (Some (sp_data (ff_value field))) (Some expectedBytes) of None \<Rightarrow> None
          | Some decoded \<Rightarrow> if length decoded = expectedBytes then Some decoded else None)"

definition platform_char :: "u8 \<Rightarrow> bool" where
  "platform_char c \<longleftrightarrow> (97 \<le> c \<and> c \<le> 122) \<or> (65 \<le> c \<and> c \<le> 90) \<or> (48 \<le> c \<and> c \<le> 57) \<or> c = cDot
     \<or> c = of_char CHR ''_'' \<or> c = cMinus"

definition validPlatform :: "ActSpan \<Rightarrow> bool" where
  "validPlatform v \<longleftrightarrow> \<not> sp_escaped v \<and> sp_data v \<noteq> [] \<and> length (sp_data v) \<le> 16 \<and> list_all platform_char (sp_data v)"

subsection \<open>Writing\<close>

record JsonWriter =
  jw_output :: bytes
  jw_capacity :: nat
  jw_ok :: bool

definition jw_new :: "nat \<Rightarrow> JsonWriter" where
  "jw_new capacity = \<lparr>jw_output = [], jw_capacity = capacity, jw_ok = True\<rparr>"

definition jw_literal :: "bytes \<Rightarrow> JsonWriter \<Rightarrow> bool \<times> JsonWriter" where
  "jw_literal text w =
     (if \<not> jw_ok w then (False, w)
      else if length (jw_output w) + length text > jw_capacity w then (False, w\<lparr>jw_ok := False\<rparr>)
      else (True, w\<lparr>jw_output := jw_output w @ text\<rparr>))"

definition jw_token :: "bytes \<Rightarrow> JsonWriter \<Rightarrow> bool \<times> JsonWriter" where
  "jw_token text w =
     (if \<not> jw_ok w \<or> length (jw_output w) + length text > jw_capacity w then (False, w\<lparr>jw_ok := False\<rparr>)
      else (True, w\<lparr>jw_output := jw_output w @ text\<rparr>))"

definition jw_unsignedValue :: "u32 \<Rightarrow> JsonWriter \<Rightarrow> bool \<times> JsonWriter" where
  "jw_unsignedValue n w =
     (let decimal = formatDecimal (ucast n) in
      if decimal = [] \<or> length decimal \<ge> 11 then (False, w) else jw_token decimal w)"

definition encodeB64 :: "bytes \<Rightarrow> nat \<Rightarrow> bytes option" where
  "encodeB64 input outputCapacity = encodeBase64Url (Some input) (Some outputCapacity)"

definition writeQuoted :: "bytes \<Rightarrow> JsonWriter \<Rightarrow> bool \<times> JsonWriter" where
  "writeQuoted input w =
     (case jw_literal [cQuote] w of (False, w) \<Rightarrow> (False, w)
      | (True, w) \<Rightarrow> (case jw_token input w of (False, w) \<Rightarrow> (False, w)
        | (True, w) \<Rightarrow> jw_literal [cQuote] w))"

text \<open>A message is a sequence of writes whose results are not looked at; only \<^verbatim>\<open>ok()\<close> is.\<close>

definition jw_all :: "(JsonWriter \<Rightarrow> bool \<times> JsonWriter) list \<Rightarrow> JsonWriter" where
  "jw_all writes = fold (\<lambda>f w. snd (f w)) writes (jw_new kMaximumHandshakeFrameBytes)"

definition error_json :: "string \<Rightarrow> JsonWriter" where
  "error_json code = jw_all [jw_literal (ascii ''{\"v\":1,\"type\":\"error\",\"code\":''), writeQuoted (ascii code), jw_literal (ascii ''}'')]"

definition device_hello_json :: "bytes \<Rightarrow> bytes \<Rightarrow> JsonWriter" where
  "device_hello_json deviceNonceB64 proofB64 = jw_all
     [jw_literal (ascii ''{\"v\":1,\"type\":\"device_hello\",\"device_nonce_b64\":''), writeQuoted deviceNonceB64,
      jw_literal (ascii '',\"proof_b64\":''), writeQuoted proofB64, jw_literal (ascii ''}'')]"

definition device_ok_json :: "bytes \<Rightarrow> JsonWriter" where
  "device_ok_json proofB64 = jw_all
     [jw_literal (ascii ''{\"v\":1,\"type\":\"device_ok\",\"proof_b64\":''), writeQuoted proofB64, jw_literal (ascii ''}'')]"

definition pair_pending_json :: "u8 \<Rightarrow> bytes \<Rightarrow> u32 \<Rightarrow> JsonWriter" where
  "pair_pending_json version deviceNonceB64 remaining = jw_all
     [if version = 1 then jw_literal (ascii ''{\"v\":1,\"type\":\"pair_pending\",\"device_nonce_b64\":'')
      else jw_literal (ascii ''{\"v\":2,\"type\":\"pair_pending\",\"role\":\"caretaker\",\"device_nonce_b64\":''),
      writeQuoted deviceNonceB64, jw_literal (ascii '',\"expires_in_ms\":''),
      jw_unsignedValue (if remaining > 60000 then 60000 else remaining), jw_literal (ascii ''}'')]"

definition pair_grant_json :: "u8 \<Rightarrow> bytes \<Rightarrow> bytes \<Rightarrow> bytes \<Rightarrow> bytes \<Rightarrow> bytes \<Rightarrow> bytes \<Rightarrow> JsonWriter" where
  "pair_grant_json version controllerB64 rootB64 deviceUid clientNonceB64 deviceNonceB64 proofB64 = jw_all
     [if version = 1 then jw_literal (ascii ''{\"v\":1,\"type\":\"pair_grant\",\"controller_id_b64\":'')
      else jw_literal (ascii ''{\"v\":2,\"type\":\"pair_grant\",\"role\":\"caretaker\",\"controller_id_b64\":''),
      writeQuoted controllerB64, jw_literal (ascii '',\"root_b64\":''), writeQuoted rootB64,
      jw_literal (ascii '',\"device_uid\":''), writeQuoted (take 6 deviceUid),
      jw_literal (ascii '',\"client_nonce_b64\":''), writeQuoted clientNonceB64,
      jw_literal (ascii '',\"device_nonce_b64\":''), writeQuoted deviceNonceB64,
      jw_literal (ascii '',\"proof_b64\":''), writeQuoted proofB64, jw_literal (ascii ''}'')]"

definition pair_ok_json :: "u8 \<Rightarrow> bytes \<Rightarrow> JsonWriter" where
  "pair_ok_json version proofB64 = jw_all
     [if version = 1 then jw_literal (ascii ''{\"v\":1,\"type\":\"pair_ok\",\"proof_b64\":'')
      else jw_literal (ascii ''{\"v\":2,\"type\":\"pair_ok\",\"role\":\"caretaker\",\"proof_b64\":''),
      writeQuoted proofB64, jw_literal (ascii ''}'')]"

end
