(* ===== verification/Ble_Session.thy ===== *)
theory Ble_Session
  imports Ble_Control Security_Store
begin

text \<open>
  The application session above the encrypted BLE link, \<^verbatim>\<open>KitsuBleSession\<close> of
  \<^verbatim>\<open>src/src/kitsu_ble_session.cpp\<close>: handshake, pairing, authenticated requests, closing and backoff.
  The definitions follow the methods; the laws are in \<^verbatim>\<open>Session_Laws\<close>.

  The members that \<^verbatim>\<open>clearSessionSecrets\<close> resets are grouped in the record \<open>SessionSecrets\<close>, those of
  \<^verbatim>\<open>clearPendingPairing\<close> in \<open>PendingPairing\<close>.  The transport, the crypto library and the delegate are functions
  on an abstract world; the device security is the object of \<^verbatim>\<open>Security_Store\<close>.  A handler that returns false has
  its partly written members cleared by its caller before anything reads them, so the model leaves them out.
\<close>

subsection \<open>Data\<close>

definition kBleHandshakeTotalTimeoutMs :: u32 where "kBleHandshakeTotalTimeoutMs = 10000"
definition kBleControllerBackoffMs :: u32 where "kBleControllerBackoffMs = 30000"
definition kBleMaximumProofFailures :: u8 where "kBleMaximumProofFailures = 3"
definition kCloseDelayMs :: u32 where "kCloseDelayMs = 250"
definition kTransmitDrainTimeoutMs :: u32 where "kTransmitDrainTimeoutMs = 2000"

abbreviation (input) NoRole :: ControllerRole where "NoRole \<equiv> 0xFF"

datatype BleSessionState = Disconnected | AwaitingHello | AwaitingClientAuth | Authenticated
  | PairingAwaitingPhysical | PairingAwaitingCommit | Closing | Backoff

datatype BleCloseCause = CauseNone | RemoteUserTerminated | SupervisionTimeout | CauseUnknown | LinkRejected | FrameTimedOut
  | ProtocolViolation | TransportFailure | SecureLinkRejected | HandshakeTimeout | CauseAuthenticationFailed
  | SessionProtocolViolation | ResponseSendFailed | PairingFailed | PairingTimeout | ControllerForget
  | AuthenticationBackoff | ApplicationRequest | ControllerRecovery

record SessionSecrets =
  ss_controllerId :: bytes
  ss_controllerRoot :: bytes
  ss_clientNonce :: bytes
  ss_deviceNonce :: bytes
  ss_clientToDeviceKey :: bytes
  ss_deviceToClientKey :: bytes
  ss_controllerKnown :: bool
  ss_controllerRole :: ControllerRole
  ss_barrier :: bool
  ss_expectedClientSequence :: u64
  ss_nextDeviceSequence :: u64

record PendingPairing =
  pp_controllerId :: bytes
  pp_controllerRoot :: bytes
  pp_clientNonce :: bytes
  pp_deviceNonce :: bytes
  pp_role :: ControllerRole
  pp_version :: u8

record BleSession =
  bs_deviceUid :: bytes
  bs_state :: BleSessionState
  bs_begun :: bool
  bs_secureConnections :: bool
  bs_linkEncrypted :: bool
  bs_linkAuthenticated :: bool
  bs_linkBonded :: bool
  bs_windowOpen :: bool
  bs_windowRole :: ControllerRole
  bs_proofFailures :: u8
  bs_stateDeadline :: u32
  bs_windowDeadline :: u32
  bs_closeAt :: u32
  bs_closeAfterTransmit :: bool
  bs_closeCause :: BleCloseCause
  bs_backoffUntil :: u32
  bs_secrets :: SessionSecrets
  bs_pending :: PendingPairing
  bs_pairingCompleted :: bool
  bs_completedRole :: ControllerRole

definition secrets0 :: SessionSecrets where
  "secrets0 = \<lparr>ss_controllerId = replicate 16 0, ss_controllerRoot = replicate 32 0, ss_clientNonce = replicate 16 0,
     ss_deviceNonce = replicate 16 0, ss_clientToDeviceKey = replicate 32 0, ss_deviceToClientKey = replicate 32 0,
     ss_controllerKnown = False, ss_controllerRole = NoRole, ss_barrier = False, ss_expectedClientSequence = 1,
     ss_nextDeviceSequence = 1\<rparr>"

definition pending0 :: PendingPairing where
  "pending0 = \<lparr>pp_controllerId = replicate 16 0, pp_controllerRoot = replicate 32 0, pp_clientNonce = replicate 16 0,
     pp_deviceNonce = replicate 16 0, pp_role = NoRole, pp_version = 0\<rparr>"

definition session0 :: BleSession where
  "session0 = \<lparr>bs_deviceUid = replicate 7 0, bs_state = Disconnected, bs_begun = False, bs_secureConnections = False,
     bs_linkEncrypted = False, bs_linkAuthenticated = False, bs_linkBonded = False, bs_windowOpen = False,
     bs_windowRole = NoRole, bs_proofFailures = 0, bs_stateDeadline = 0, bs_windowDeadline = 0, bs_closeAt = 0,
     bs_closeAfterTransmit = False, bs_closeCause = CauseNone, bs_backoffUntil = 0, bs_secrets = secrets0,
     bs_pending = pending0, bs_pairingCompleted = False, bs_completedRole = NoRole\<rparr>"

text \<open>The objects the session works on: itself, the device security and the rest of the world.\<close>

record 'w BleSys =
  sy_session :: BleSession
  sy_security :: DeviceSecurity
  sy_world :: 'w

record 'w BleEnv =
  be_storage :: "'w SecurityStorage"
  be_platform :: "'w SecurityPlatform"
  be_hmac :: hmac_fun
  be_sha :: sha_fun
  be_hkdf :: hkdf_fun
  be_random :: "nat \<Rightarrow> 'w \<Rightarrow> bytes option \<times> 'w"
  be_sendJson :: "bytes \<Rightarrow> 'w \<Rightarrow> bool \<times> 'w"
  be_setAuthenticated :: "bool \<Rightarrow> 'w \<Rightarrow> bool \<times> 'w"
  be_transmitIdle :: "'w \<Rightarrow> bool"
  be_disconnect :: "BleCloseCause \<Rightarrow> 'w \<Rightarrow> 'w"
  be_handleRequest :: "ControllerRole \<Rightarrow> DecodedEnvelope \<Rightarrow> bytes \<Rightarrow> 'w \<Rightarrow> (bool \<times> bytes) \<times> 'w"

abbreviation (input) upd_session :: "(BleSession \<Rightarrow> BleSession) \<Rightarrow> 'w BleSys \<Rightarrow> 'w BleSys" where
  "upd_session f y \<equiv> y\<lparr>sy_session := f (sy_session y)\<rparr>"

definition sys_random :: "'w BleEnv \<Rightarrow> nat \<Rightarrow> 'w BleSys \<Rightarrow> bytes option \<times> 'w BleSys" where
  "sys_random E n y = (case be_random E n (sy_world y) of (r, w) \<Rightarrow> (r, y\<lparr>sy_world := w\<rparr>))"

definition sys_authenticated :: "'w BleEnv \<Rightarrow> bool \<Rightarrow> 'w BleSys \<Rightarrow> bool \<times> 'w BleSys" where
  "sys_authenticated E b y = (case be_setAuthenticated E b (sy_world y) of (r, w) \<Rightarrow> (r, y\<lparr>sy_world := w\<rparr>))"

definition sys_sendJson :: "'w BleEnv \<Rightarrow> bytes \<Rightarrow> 'w BleSys \<Rightarrow> bool \<times> 'w BleSys" where
  "sys_sendJson E json y = (case be_sendJson E json (sy_world y) of (r, w) \<Rightarrow> (r, y\<lparr>sy_world := w\<rparr>))"

definition sys_disconnect :: "'w BleEnv \<Rightarrow> BleCloseCause \<Rightarrow> 'w BleSys \<Rightarrow> 'w BleSys" where
  "sys_disconnect E cause y = y\<lparr>sy_world := be_disconnect E cause (sy_world y)\<rparr>"

text \<open>Sending what a writer holds, if it fitted.\<close>

definition send_writer :: "'w BleEnv \<Rightarrow> JsonWriter \<Rightarrow> 'w BleSys \<Rightarrow> bool \<times> 'w BleSys" where
  "send_writer E w y = (if jw_ok w then sys_sendJson E (jw_output w) y else (False, y))"

subsection \<open>The link\<close>

definition session_begin :: "bytes option \<Rightarrow> 'w BleSys \<Rightarrow> bool \<times> 'w BleSys" where
  "session_begin deviceUid y =
     (if \<not> dv_begun (sy_security y) \<or> \<not> validDeviceUid deviceUid \<or> bs_begun (sy_session y) then (False, y)
      else (True, upd_session (\<lambda>s. s\<lparr>bs_deviceUid := the deviceUid, bs_state := Disconnected, bs_begun := True\<rparr>) y))"

definition clearSessionSecrets :: "BleSession \<Rightarrow> BleSession" where
  "clearSessionSecrets s = s\<lparr>bs_secrets := secrets0\<rparr>"

definition clearPendingPairing :: "BleSession \<Rightarrow> BleSession" where
  "clearPendingPairing s = s\<lparr>bs_pending := pending0\<rparr>"

definition resetForSecureLink :: "'w BleEnv \<Rightarrow> u32 \<Rightarrow> 'w BleSys \<Rightarrow> 'w BleSys" where
  "resetForSecureLink E nowMillis y =
     (let y = snd (sys_authenticated E False (upd_session (clearPendingPairing \<circ> clearSessionSecrets) y)) in
      upd_session (\<lambda>s. s\<lparr>bs_state := AwaitingHello, bs_stateDeadline := nowMillis + kBleHandshakeTotalTimeoutMs, bs_closeAt := 0,
        bs_closeAfterTransmit := False, bs_closeCause := CauseNone\<rparr>) y)"

definition sendControlError :: "'w BleEnv \<Rightarrow> string \<Rightarrow> 'w BleSys \<Rightarrow> bool \<times> 'w BleSys" where
  "sendControlError E code y = send_writer E (error_json code) y"

definition failProof :: "'w BleEnv \<Rightarrow> u32 \<Rightarrow> 'w BleSys \<Rightarrow> 'w BleSys" where
  "failProof E nowMillis y =
     (let y = snd (sys_authenticated E False (upd_session (clearSessionSecrets \<circ> clearPendingPairing) y));
          y = upd_session (\<lambda>s. if bs_proofFailures s < 0xff then s\<lparr>bs_proofFailures := bs_proofFailures s + 1\<rparr> else s) y;
          y = snd (sendControlError E ''auth_failed'' y) in
      if bs_proofFailures (sy_session y) \<ge> kBleMaximumProofFailures
      then upd_session (\<lambda>s. s\<lparr>bs_backoffUntil := nowMillis + kBleControllerBackoffMs, bs_state := Closing,
             bs_closeAt := nowMillis + kCloseDelayMs, bs_closeAfterTransmit := False, bs_closeCause := CauseAuthenticationFailed\<rparr>) y
      else upd_session (\<lambda>s. s\<lparr>bs_state := AwaitingHello\<rparr>) y)"

definition failAndClose :: "'w BleEnv \<Rightarrow> u32 \<Rightarrow> BleCloseCause \<Rightarrow> 'w BleSys \<Rightarrow> 'w BleSys" where
  "failAndClose E nowMillis cause y =
     (let y = snd (sys_authenticated E False (upd_session (clearSessionSecrets \<circ> clearPendingPairing) y)) in
      upd_session (\<lambda>s. s\<lparr>bs_closeCause := (if bs_closeCause s = CauseNone then (if cause = CauseNone then ApplicationRequest else cause)
          else bs_closeCause s), bs_state := Closing, bs_closeAt := nowMillis + kCloseDelayMs, bs_closeAfterTransmit := False\<rparr>) y)"

definition secure_link :: "BleSession \<Rightarrow> bool" where
  "secure_link s \<longleftrightarrow> bs_secureConnections s \<and> bs_linkEncrypted s \<and> bs_linkAuthenticated s \<and> bs_linkBonded s"

definition onSecureLinkEstablished :: "'w BleEnv \<Rightarrow> bool \<Rightarrow> bool \<Rightarrow> bool \<Rightarrow> bool \<Rightarrow> u32 \<Rightarrow> 'w BleSys \<Rightarrow> 'w BleSys" where
  "onSecureLinkEstablished E secureConnections encrypted authenticated bonded nowMillis y =
     (if \<not> bs_begun (sy_session y) then y
      else let y = upd_session (\<lambda>s. s\<lparr>bs_secureConnections := secureConnections, bs_linkEncrypted := encrypted,
                     bs_linkAuthenticated := authenticated, bs_linkBonded := bonded\<rparr>) y in
      if \<not> secure_link (sy_session y) then failAndClose E nowMillis SecureLinkRejected y
      else if bs_backoffUntil (sy_session y) \<noteq> 0 \<and> \<not> deadlineReached nowMillis (bs_backoffUntil (sy_session y))
      then sys_disconnect E AuthenticationBackoff (upd_session (\<lambda>s. s\<lparr>bs_state := Backoff\<rparr>) y)
      else resetForSecureLink E nowMillis (upd_session (\<lambda>s. s\<lparr>bs_backoffUntil := 0\<rparr>) y))"

text \<open>An expired pairing window is closed.\<close>

definition expire_window :: "u32 \<Rightarrow> BleSession \<Rightarrow> BleSession" where
  "expire_window nowMillis s =
     (if bs_windowOpen s \<and> deadlineReached nowMillis (bs_windowDeadline s)
      then s\<lparr>bs_windowOpen := False, bs_windowDeadline := 0, bs_windowRole := NoRole\<rparr> else s)"

definition onLinkClosed :: "u32 \<Rightarrow> BleSession \<Rightarrow> BleSession" where
  "onLinkClosed nowMillis s =
     (if \<not> bs_begun s then s
      else let s = (clearSessionSecrets (clearPendingPairing s))\<lparr>bs_secureConnections := False, bs_linkEncrypted := False,
                     bs_linkAuthenticated := False, bs_linkBonded := False\<rparr>;
               s = expire_window nowMillis s in
      s\<lparr>bs_stateDeadline := 0, bs_closeAt := 0, bs_closeAfterTransmit := False, bs_closeCause := CauseNone,
        bs_state := (if bs_backoffUntil s = 0 then Disconnected else Backoff)\<rparr>)"

definition setPairingWindow :: "bool \<Rightarrow> u32 \<Rightarrow> u32 \<Rightarrow> ControllerRole \<Rightarrow> BleSession \<Rightarrow> BleSession" where
  "setPairingWindow open remainingMs nowMillis role s =
     (if \<not> bs_begun s then s
      else let requestedOpen = (open \<and> validPairingRole role \<and> remainingMs \<noteq> 0 \<and> remainingMs \<le> 60000);
               s = (if bs_state s = PairingAwaitingPhysical \<or> bs_state s = PairingAwaitingCommit
                    then (clearPendingPairing s)\<lparr>bs_state := AwaitingHello\<rparr> else s) in
      s\<lparr>bs_windowOpen := requestedOpen, bs_windowRole := (if requestedOpen then role else NoRole),
        bs_windowDeadline := (if requestedOpen then nowMillis + remainingMs else 0),
        bs_pairingCompleted := False, bs_completedRole := NoRole\<rparr>)"

subsection \<open>The handshake\<close>

text \<open>The fields of the three client messages, when their schema matches.\<close>

definition hello_fields :: "bytes \<Rightarrow> (bytes \<times> bytes) option" where
  "hello_fields json = (case parseFlatObject (Some json) of None \<Rightarrow> None
     | Some fs \<Rightarrow>
       if \<not> schemaMatches fs [''v'', ''type'', ''controller_id_b64'', ''client_nonce_b64''] \<or> \<not> validVersion fs
          \<or> \<not> stringFieldEquals fs ''type'' ''client_hello'' then None
       else case (decodeExact fs ''controller_id_b64'' 16, decodeExact fs ''client_nonce_b64'' 16) of
         (Some controllerId, Some clientNonce) \<Rightarrow> if ses_allZero controllerId then None else Some (controllerId, clientNonce)
       | _ \<Rightarrow> None)"

definition auth_proof :: "bytes \<Rightarrow> bytes option" where
  "auth_proof json = (case parseFlatObject (Some json) of None \<Rightarrow> None
     | Some fs \<Rightarrow>
       if \<not> schemaMatches fs [''v'', ''type'', ''proof_b64''] \<or> \<not> validVersion fs
          \<or> \<not> stringFieldEquals fs ''type'' ''client_auth'' then None
       else decodeExact fs ''proof_b64'' 32)"

definition handshake_proof :: "'w BleEnv \<Rightarrow> string \<Rightarrow> SessionSecrets \<Rightarrow> bytes option" where
  "handshake_proof E role k =
     (case makeHandshakeProof (be_hmac E) (Some (ss_controllerRoot k)) (Some (ascii role)) (Some (ss_controllerId k))
         (Some (ss_clientNonce k)) (Some (ss_deviceNonce k)) of Inl e \<Rightarrow> None | Inr proof \<Rightarrow> Some proof)"

text \<open>The root a proof is made with: the stored one, or a random one for an unknown controller.\<close>

definition hello_root :: "'w BleEnv \<Rightarrow> bytes \<Rightarrow> 'w BleSys \<Rightarrow> (bool \<times> bytes \<times> ControllerRole) option \<times> 'w BleSys" where
  "hello_root E controllerId y =
     (case findControllerRoot controllerId (sy_security y) of
        Some (root, role) \<Rightarrow> (Some (True, root, role), y)
      | None \<Rightarrow> (case sys_random E kKitsuSecretBytes y of (None, y) \<Rightarrow> (None, y)
                | (Some root, y) \<Rightarrow> (Some (False, root, NoRole), y)))"

definition handleClientHello :: "'w BleEnv \<Rightarrow> bytes \<Rightarrow> 'w BleSys \<Rightarrow> bool \<times> 'w BleSys" where
  "handleClientHello E json y =
     (case hello_fields json of None \<Rightarrow> (False, y)
      | Some (controllerId, clientNonce) \<Rightarrow>
        (case hello_root E controllerId y of (None, y) \<Rightarrow> (False, y)
         | (Some (known, root, role), y) \<Rightarrow>
           (case sys_random E 16 y of (None, y) \<Rightarrow> (False, y)
            | (Some deviceNonce, y) \<Rightarrow>
              let k = (bs_secrets (sy_session y))\<lparr>ss_controllerId := controllerId, ss_clientNonce := clientNonce,
                    ss_controllerKnown := known, ss_controllerRoot := root, ss_controllerRole := role, ss_deviceNonce := deviceNonce\<rparr>;
                  y = upd_session (\<lambda>s. s\<lparr>bs_secrets := k\<rparr>) y in
              (case handshake_proof E ''device'' k of None \<Rightarrow> (False, y)
               | Some proof \<Rightarrow>
                 (case (encodeB64 deviceNonce 23, encodeB64 proof 44) of
                    (Some deviceNonceB64, Some proofB64) \<Rightarrow>
                      if length deviceNonceB64 \<noteq> 22 \<or> length proofB64 \<noteq> 43 then (False, y)
                      else (case send_writer E (device_hello_json deviceNonceB64 proofB64) y of
                          (False, y) \<Rightarrow> (False, y)
                        | (True, y) \<Rightarrow> (True, upd_session (\<lambda>s. s\<lparr>bs_state := AwaitingClientAuth\<rparr>) y))
                  | _ \<Rightarrow> (False, y))))))"

definition handleClientAuth :: "'w BleEnv \<Rightarrow> bytes \<Rightarrow> 'w BleSys \<Rightarrow> bool \<times> 'w BleSys" where
  "handleClientAuth E json y =
     (case auth_proof json of None \<Rightarrow> (False, y)
      | Some supplied \<Rightarrow>
        let k = bs_secrets (sy_session y) in
        (case handshake_proof E ''client'' k of None \<Rightarrow> (False, y)
         | Some expected \<Rightarrow>
           if \<not> ss_controllerKnown k \<or> \<not> constantTimeEqual expected supplied then (False, y)
           else (case deriveBleSessionKeys (be_sha E) (be_hkdf E) (Some (ss_controllerRoot k)) (Some (ss_clientNonce k))
               (Some (ss_deviceNonce k)) of Inl e \<Rightarrow> (False, y)
           | Inr (c2d, d2c) \<Rightarrow>
             let k = k\<lparr>ss_clientToDeviceKey := c2d, ss_deviceToClientKey := d2c\<rparr>;
                 y = upd_session (\<lambda>s. s\<lparr>bs_secrets := k\<rparr>) y in
             (case handshake_proof E ''ok'' k of None \<Rightarrow> (False, y)
              | Some okProof \<Rightarrow>
                (case encodeB64 okProof 44 of None \<Rightarrow> (False, y)
                 | Some proofB64 \<Rightarrow>
                   if length proofB64 \<noteq> 43 then (False, y)
                   else (case sys_authenticated E True y of (False, y) \<Rightarrow> (False, y)
                   | (True, y) \<Rightarrow>
                     (case send_writer E (device_ok_json proofB64) y of
                        (False, y) \<Rightarrow> (False, snd (sys_authenticated E False y))
                      | (True, y) \<Rightarrow>
                        (True, upd_session (\<lambda>s. s\<lparr>bs_secrets := k\<lparr>ss_controllerRoot := replicate 32 0, ss_expectedClientSequence := 1,
                                  ss_nextDeviceSequence := 1\<rparr>,
                              bs_proofFailures := 0, bs_stateDeadline := 0, bs_state := Authenticated\<rparr>) y))))))))"

subsection \<open>Pairing\<close>

text \<open>The version and the client nonce of a valid pairing request.\<close>

definition pair_request_fields :: "bytes \<Rightarrow> (u8 \<times> bytes) option" where
  "pair_request_fields json = (case parseFlatObject (Some json) of None \<Rightarrow> None
     | Some fs \<Rightarrow>
       if \<not> schemaMatches fs [''v'', ''type'', ''client_nonce_b64'', ''label'', ''platform'']
          \<or> (\<not> versionEquals fs 1 \<and> \<not> versionEquals fs 2) \<or> \<not> stringFieldEquals fs ''type'' ''pair_request'' then None
       else case decodeExact fs ''client_nonce_b64'' 16 of None \<Rightarrow> None
       | Some clientNonce \<Rightarrow>
         (case (flat_findField fs ''label'', flat_findField fs ''platform'') of
            (Some label, Some platform) \<Rightarrow>
              if ff_kind label \<noteq> FlatString \<or> sp_data (ff_value label) = [] \<or> length (sp_data (ff_value label)) > 96
                 \<or> ff_kind platform \<noteq> FlatString \<or> \<not> validPlatform (ff_value platform) then None
              else Some (if versionEquals fs 1 then 1 else 2, clientNonce)
          | _ \<Rightarrow> None))"

definition handlePairRequest :: "'w BleEnv \<Rightarrow> bytes \<Rightarrow> u32 \<Rightarrow> 'w BleSys \<Rightarrow> bool \<times> 'w BleSys" where
  "handlePairRequest E json nowMillis y =
     (case pair_request_fields json of None \<Rightarrow> (False, y)
      | Some (requestVersion, clientNonce) \<Rightarrow>
        if \<not> bs_windowOpen (sy_session y) \<or> deadlineReached nowMillis (bs_windowDeadline (sy_session y))
        then (True, snd (sendControlError E ''pairing_closed'' (upd_session clearPendingPairing y)))
        else if requestVersion \<noteq> pairingVersionForRole (bs_windowRole (sy_session y)) then (False, y)
        else if dv_count (sy_security y) \<ge> kKitsuControllerCapacity
        then (True, snd (sendControlError E ''controller_full'' (upd_session clearPendingPairing y)))
        else (case sys_random E 16 y of (None, y) \<Rightarrow> (False, y)
        | (Some deviceNonce, y) \<Rightarrow>
          let y = upd_session (\<lambda>s. s\<lparr>bs_pending := (bs_pending s)\<lparr>pp_clientNonce := clientNonce, pp_deviceNonce := deviceNonce,
                    pp_version := requestVersion, pp_role := bs_windowRole s\<rparr>,
                  bs_pairingCompleted := False, bs_completedRole := NoRole\<rparr>) y in
          (case encodeB64 deviceNonce 23 of None \<Rightarrow> (False, y)
           | Some deviceNonceB64 \<Rightarrow>
             if length deviceNonceB64 \<noteq> 22 then (False, y)
             else (case send_writer E (pair_pending_json requestVersion deviceNonceB64
                 (bs_windowDeadline (sy_session y) - nowMillis)) y of
                 (False, y) \<Rightarrow> (False, y)
               | (True, y) \<Rightarrow> (True, upd_session (\<lambda>s. s\<lparr>bs_state := PairingAwaitingPhysical,
                       bs_stateDeadline := bs_windowDeadline s\<rparr>) y)))))"

definition makePendingPairingProof :: "'w BleEnv \<Rightarrow> string \<Rightarrow> BleSession \<Rightarrow> bytes option" where
  "makePendingPairingProof E proofRole s =
     (let p = bs_pending s in
      if pp_version p = 1 \<and> pp_role p = RoleOwner
      then (case makePairingProof (be_hmac E) (Some (pp_controllerRoot p)) (Some (ascii proofRole)) (Some (pp_controllerId p))
          (Some (bs_deviceUid s)) (Some (pp_clientNonce p)) (Some (pp_deviceNonce p)) of Inl e \<Rightarrow> None | Inr m \<Rightarrow> Some m)
      else if pp_version p = 2 \<and> pp_role p = RoleCaretaker
      then (case makeRoleBoundPairingProof (be_hmac E) (Some (pp_controllerRoot p)) (Some (ascii proofRole)) (Some (ascii ''caretaker''))
          (Some (pp_controllerId p)) (Some (bs_deviceUid s)) (Some (pp_clientNonce p)) (Some (pp_deviceNonce p)) of
            Inl e \<Rightarrow> None | Inr m \<Rightarrow> Some m)
      else None)"

definition session_pairing_link :: "BleSession \<Rightarrow> PairingLink" where
  "session_pairing_link s = \<lparr>pl_secureConnections = bs_secureConnections s, pl_linkEncrypted = bs_linkEncrypted s,
     pl_bonded = bs_linkBonded s, pl_physicalConfirmed = True\<rparr>"

text \<open>The search for an unused identifier, at most the given number of attempts; the last identifier drawn stays
  in the pending record.\<close>

fun unique_id :: "'w BleEnv \<Rightarrow> nat \<Rightarrow> 'w BleSys \<Rightarrow> bytes option \<times> 'w BleSys" where
  "unique_id E 0 y = (None, y)"
| "unique_id E (Suc n) y =
     (case sys_random E 16 y of (None, y) \<Rightarrow> unique_id E n y
      | (Some cid, y) \<Rightarrow>
        if ses_allZero cid then unique_id E n y
        else if findControllerRoot cid (sy_security y) = None then (Some cid, y)
        else unique_id E n y)"

definition session_failed_pairing :: "'w BleEnv \<Rightarrow> u32 \<Rightarrow> BleCloseCause \<Rightarrow> 'w BleSys \<Rightarrow> bool \<times> 'w BleSys" where
  "session_failed_pairing E nowMillis cause y = (False, failAndClose E nowMillis cause (upd_session clearPendingPairing y))"

definition grant_writer :: "BleSession \<Rightarrow> bytes \<Rightarrow> JsonWriter option" where
  "grant_writer s proof =
     (let p = bs_pending s in
      case (encodeB64 (pp_controllerId p) 23, encodeB64 (pp_controllerRoot p) 44, encodeB64 (pp_clientNonce p) 23,
          encodeB64 (pp_deviceNonce p) 23, encodeB64 proof 44) of
        (Some controllerB64, Some rootB64, Some clientNonceB64, Some deviceNonceB64, Some proofB64) \<Rightarrow>
          if length controllerB64 \<noteq> 22 \<or> length rootB64 \<noteq> 43 \<or> length clientNonceB64 \<noteq> 22 \<or> length deviceNonceB64 \<noteq> 22
             \<or> length proofB64 \<noteq> 43 then None
          else Some (pair_grant_json (pp_version p) controllerB64 rootB64 (bs_deviceUid s) clientNonceB64 deviceNonceB64 proofB64)
      | _ \<Rightarrow> None)"

definition confirmPendingPairing :: "'w BleEnv \<Rightarrow> u32 \<Rightarrow> 'w BleSys \<Rightarrow> bool \<times> 'w BleSys" where
  "confirmPendingPairing E nowMillis y =
     (let s = sy_session y in
      if \<not> bs_begun s \<or> bs_state s \<noteq> PairingAwaitingPhysical \<or> \<not> bs_windowOpen s \<or> deadlineReached nowMillis (bs_stateDeadline s)
         \<or> \<not> secure_link s \<or> pp_role (bs_pending s) \<noteq> bs_windowRole s
         \<or> pp_version (bs_pending s) \<noteq> pairingVersionForRole (bs_windowRole s) then (False, y)
      else (case generatePendingControllerRoot (be_platform E) (session_pairing_link s) (sy_security y) (sy_world y) of
        (result, root, sec, w) \<Rightarrow>
        let y = y\<lparr>sy_security := sec, sy_world := w\<rparr> in
        if result \<noteq> SecOk
        then (False, snd (sendControlError E (if dv_count (sy_security y) \<ge> kKitsuControllerCapacity then ''controller_full'' else ''auth_failed'')
               (upd_session clearPendingPairing y)))
        else (case unique_id E 8 y of (None, y) \<Rightarrow> session_failed_pairing E nowMillis PairingFailed y
        | (Some cid, y) \<Rightarrow>
          let y = upd_session (\<lambda>s. s\<lparr>bs_pending := (bs_pending s)\<lparr>pp_controllerRoot := the root, pp_controllerId := cid\<rparr>\<rparr>) y in
          (case makePendingPairingProof E ''device'' (sy_session y) of None \<Rightarrow> session_failed_pairing E nowMillis PairingFailed y
           | Some proof \<Rightarrow>
             (case grant_writer (sy_session y) proof of None \<Rightarrow> session_failed_pairing E nowMillis PairingFailed y
              | Some grant \<Rightarrow>
                (case send_writer E grant y of (False, y) \<Rightarrow> session_failed_pairing E nowMillis ResponseSendFailed y
                 | (True, y) \<Rightarrow> (True, upd_session (\<lambda>s. s\<lparr>bs_state := PairingAwaitingCommit\<rparr>) y)))))))"

definition commit_proof :: "PendingPairing \<Rightarrow> bytes \<Rightarrow> bytes option" where
  "commit_proof p json = (case parseFlatObject (Some json) of None \<Rightarrow> None
     | Some fs \<Rightarrow>
       if \<not> (if pp_version p = 1 \<and> pp_role p = RoleOwner then schemaMatches fs [''v'', ''type'', ''proof_b64''] \<and> versionEquals fs 1
              else pp_version p = 2 \<and> pp_role p = RoleCaretaker \<and> schemaMatches fs [''v'', ''type'', ''role'', ''proof_b64'']
                 \<and> versionEquals fs 2 \<and> stringFieldEquals fs ''role'' ''caretaker'')
          \<or> \<not> stringFieldEquals fs ''type'' ''pair_commit'' then None
       else decodeExact fs ''proof_b64'' 32)"

definition handlePairCommit :: "'w BleEnv \<Rightarrow> bytes \<Rightarrow> u32 \<Rightarrow> 'w BleSys \<Rightarrow> bool \<times> 'w BleSys" where
  "handlePairCommit E json nowMillis y =
     (let p = bs_pending (sy_session y) in
      case commit_proof p json of None \<Rightarrow> (False, y)
      | Some supplied \<Rightarrow>
        (case makePendingPairingProof E ''client'' (sy_session y) of None \<Rightarrow> (False, y)
         | Some expected \<Rightarrow>
           if \<not> constantTimeEqual expected supplied then (False, y)
           else (case makePendingPairingProof E ''ok'' (sy_session y) of None \<Rightarrow> (False, y)
           | Some okProof \<Rightarrow>
             (case commitControllerAfterPairing (be_storage E) (be_platform E) (Some (pp_controllerId p)) (Some (pp_controllerRoot p))
                 (session_pairing_link (sy_session y)) True (pp_role p) (sy_security y) (sy_world y) of
               (committed, sec, w) \<Rightarrow>
               let y = y\<lparr>sy_security := sec, sy_world := w\<rparr> in
               if committed \<noteq> SecOk
               then (False, snd (sendControlError E (if committed = ControllerTableFull then ''controller_full'' else ''auth_failed'')
                      (upd_session clearPendingPairing y)))
               else (case encodeB64 okProof 44 of None \<Rightarrow> session_failed_pairing E nowMillis PairingFailed y
               | Some proofB64 \<Rightarrow>
                 if length proofB64 \<noteq> 43 then session_failed_pairing E nowMillis PairingFailed y
                 else (case send_writer E (pair_ok_json (pp_version p) proofB64) y of (sent, y) \<Rightarrow>
                   let y = upd_session (\<lambda>s. (clearPendingPairing s)\<lparr>bs_pairingCompleted := True, bs_completedRole := pp_role p,
                             bs_state := AwaitingHello\<rparr>) y in
                   if \<not> sent then (False, failAndClose E nowMillis ResponseSendFailed y) else (True, y)))))))"

subsection \<open>Authenticated requests\<close>

definition sendAuthenticated :: "'w BleEnv \<Rightarrow> EnvelopeChannel \<Rightarrow> bytes option \<Rightarrow> bytes option \<Rightarrow> bytes option \<Rightarrow> 'w BleSys \<Rightarrow> bool \<times> 'w BleSys" where
  "sendAuthenticated E channel requestId operation payload y =
     (let k = bs_secrets (sy_session y) in
      if bs_state (sy_session y) \<noteq> Authenticated \<or> requestId = None \<or> operation = None \<or> ss_nextDeviceSequence k = - 1 then (False, y)
      else (case sys_random E 16 y of (None, y) \<Rightarrow> (False, y)
      | (Some nonce, y) \<Rightarrow>
        (case encodeEnvelope (be_hmac E) channel (ss_nextDeviceSequence k) (Some nonce) requestId operation payload
            (Some (ss_deviceToClientKey k)) (Some kMaximumFrameBytes) of Inl e \<Rightarrow> (False, y)
         | Inr json \<Rightarrow>
           (case sys_sendJson E json y of (False, y) \<Rightarrow> (False, y)
            | (True, y) \<Rightarrow> (True, upd_session (\<lambda>s. s\<lparr>bs_secrets := k\<lparr>ss_nextDeviceSequence := ss_nextDeviceSequence k + 1\<rparr>\<rparr>) y)))))"

text \<open>What the role allows: the operation itself, or an operation that carries an action the role allows.\<close>

definition request_authorized :: "ControllerRole \<Rightarrow> DecodedEnvelope \<Rightarrow> bytes \<Rightarrow> bool" where
  "request_authorized role request payload =
     (let permission = controllerPermission role (controllerOperation (Some (map (\<lambda>b. char_of (unat b)) (de_operation request)))) in
      permission = Allowed \<or>
      (permission = ActionRequired \<and>
       (case decodeBleActionCommand (Some payload) of (result, command) \<Rightarrow>
          result = DecodeOk \<and> controllerPermission role (controllerBleAction (ac_kind command)) = Allowed)))"

definition forget_accepted :: bytes where
  "forget_accepted = ascii ''{\"schema\":\"kitsu.controller-forget.v1\",\"accepted\":true}''"

definition forget_rejected :: bytes where
  "forget_rejected = ascii ''{\"schema\":\"kitsu.controller-forget.v1\",\"accepted\":false,\"error\":\"storage_failed\"}''"

definition request_rejected :: bytes where
  "request_rejected = ascii ''{\"ok\":false,\"error\":\"request_rejected\"}''"

definition handle_forget :: "'w BleEnv \<Rightarrow> DecodedEnvelope \<Rightarrow> bytes \<Rightarrow> u32 \<Rightarrow> 'w BleSys \<Rightarrow> bool \<times> 'w BleSys" where
  "handle_forget E request payload nowMillis y =
     (let cid = ss_controllerId (bs_secrets (sy_session y)) in
      case (if payload = ascii ''{}'' then revokeAuthenticatedController (be_storage E) (be_platform E) (Some cid) (sy_security y) (sy_world y)
            else (SecInvalidArgument, sy_security y, sy_world y)) of
        (revoked, sec, w) \<Rightarrow>
        let y = y\<lparr>sy_security := sec, sy_world := w\<rparr>;
            stillAuthorized = (findControllerRoot cid sec \<noteq> None) in
        (case sendAuthenticated E ChannelResponse (Some (de_requestId request)) (Some (de_operation request))
            (Some (if revoked = SecOk then forget_accepted else forget_rejected)) y of
          (False, y) \<Rightarrow> (False, failAndClose E nowMillis ResponseSendFailed y)
        | (True, y) \<Rightarrow>
          if revoked = SecOk \<or> \<not> stillAuthorized
          then (True, upd_session (\<lambda>s. (clearSessionSecrets s)\<lparr>bs_state := Closing, bs_closeAfterTransmit := True,
                  bs_closeAt := nowMillis + kTransmitDrainTimeoutMs, bs_closeCause := ControllerForget\<rparr>)
                (snd (sys_authenticated E False y)))
          else (True, y)))"

definition handle_request :: "'w BleEnv \<Rightarrow> DecodedEnvelope \<Rightarrow> bytes \<Rightarrow> u32 \<Rightarrow> 'w BleSys \<Rightarrow> bool \<times> 'w BleSys" where
  "handle_request E request payload nowMillis y =
     (case be_handleRequest E (ss_controllerRole (bs_secrets (sy_session y))) request payload (sy_world y) of
        ((ok, response), w) \<Rightarrow>
        let response = (if \<not> ok \<or> response = [] \<or> length response > kMaximumEnvelopePayloadBytes then request_rejected else response) in
        (case sendAuthenticated E ChannelResponse (Some (de_requestId request)) (Some (de_operation request)) (Some response)
            (y\<lparr>sy_world := w\<rparr>) of
          (False, y) \<Rightarrow> (False, failAndClose E nowMillis ResponseSendFailed y)
        | (True, y) \<Rightarrow> (True, upd_session (\<lambda>s. s\<lparr>bs_secrets := (bs_secrets s)\<lparr>ss_barrier := True\<rparr>\<rparr>) y)))"

definition session_request :: "'w BleEnv \<Rightarrow> bytes \<Rightarrow> BleSession \<Rightarrow> (DecodedEnvelope \<times> bytes) option" where
  "session_request E json s =
     (let k = bs_secrets s in
      case decodeAndVerifyEnvelope (be_hmac E) (Some json) (Some (ss_clientToDeviceKey k)) ChannelRequest
          (ss_expectedClientSequence k) (Some kMaximumEnvelopePayloadBytes) of
        Inl e \<Rightarrow> None
      | Inr (request, payload) \<Rightarrow>
        if \<not> request_authorized (ss_controllerRole k) request payload \<or> ss_expectedClientSequence k = - 1 then None
        else Some (request, payload))"

definition handleAuthenticatedEnvelope :: "'w BleEnv \<Rightarrow> bytes \<Rightarrow> u32 \<Rightarrow> 'w BleSys \<Rightarrow> bool \<times> 'w BleSys" where
  "handleAuthenticatedEnvelope E json nowMillis y =
     (case session_request E json (sy_session y) of
        None \<Rightarrow> (False, failAndClose E nowMillis SessionProtocolViolation
                  (upd_session (\<lambda>s. s\<lparr>bs_backoffUntil := nowMillis + kBleControllerBackoffMs\<rparr>) y))
      | Some (request, payload) \<Rightarrow>
        let y = upd_session (\<lambda>s. s\<lparr>bs_secrets := (bs_secrets s)
                  \<lparr>ss_expectedClientSequence := ss_expectedClientSequence (bs_secrets s) + 1\<rparr>\<rparr>) y in
        if de_operation request = ascii ''controller.forget'' then handle_forget E request payload nowMillis y
        else handle_request E request payload nowMillis y)"

subsection \<open>Events\<close>

definition hello_dispatch :: "'w BleEnv \<Rightarrow> bytes \<Rightarrow> u32 \<Rightarrow> 'w BleSys \<Rightarrow> bool \<times> 'w BleSys" where
  "hello_dispatch E json nowMillis y =
     (case parseFlatObject (Some json) of None \<Rightarrow> (False, y)
      | Some fs \<Rightarrow>
        if validVersion fs \<and> stringFieldEquals fs ''type'' ''client_hello'' then handleClientHello E json y
        else if (versionEquals fs 1 \<or> versionEquals fs 2) \<and> stringFieldEquals fs ''type'' ''pair_request''
        then handlePairRequest E json nowMillis y
        else (False, y))"

definition frame_dispatch :: "'w BleEnv \<Rightarrow> bytes \<Rightarrow> u32 \<Rightarrow> 'w BleSys \<Rightarrow> bool \<times> 'w BleSys" where
  "frame_dispatch E json nowMillis y =
     (case bs_state (sy_session y) of
        AwaitingHello \<Rightarrow> hello_dispatch E json nowMillis y
      | AwaitingClientAuth \<Rightarrow> handleClientAuth E json y
      | Authenticated \<Rightarrow> handleAuthenticatedEnvelope E json nowMillis y
      | PairingAwaitingCommit \<Rightarrow> handlePairCommit E json nowMillis y
      | _ \<Rightarrow> (False, y))"

text \<open>A frame before \<^verbatim>\<open>begin\<close> makes the code use a null transport; the result is \<open>None\<close>.\<close>

definition onFrame :: "'w BleEnv \<Rightarrow> bytes option \<Rightarrow> u32 \<Rightarrow> 'w BleSys \<Rightarrow> 'w BleSys option" where
  "onFrame E frame nowMillis y =
     (let s = sy_session y in
      if \<not> bs_begun s then None
      else if frame = None \<or> the frame = [] \<or> \<not> secure_link s
      then Some (failAndClose E nowMillis (if secure_link s then SessionProtocolViolation else SecureLinkRejected) y)
      else if (bs_state s = AwaitingHello \<or> bs_state s = AwaitingClientAuth) \<and> deadlineReached nowMillis (bs_stateDeadline s)
      then Some (failAndClose E nowMillis HandshakeTimeout (snd (sendControlError E ''timeout'' y)))
      else case frame_dispatch E (the frame) nowMillis y of (handled, y) \<Rightarrow>
        Some (if \<not> handled \<and> bs_state (sy_session y) \<noteq> Closing then failProof E nowMillis y else y))"

definition loop_timeout :: "'w BleEnv \<Rightarrow> u32 \<Rightarrow> 'w BleSys \<Rightarrow> 'w BleSys" where
  "loop_timeout E nowMillis y =
     (let s = sy_session y in
      if (bs_state s = AwaitingHello \<or> bs_state s = AwaitingClientAuth \<or> bs_state s = PairingAwaitingPhysical
           \<or> bs_state s = PairingAwaitingCommit) \<and> bs_stateDeadline s \<noteq> 0 \<and> deadlineReached nowMillis (bs_stateDeadline s)
      then failAndClose E nowMillis (if bs_state s = PairingAwaitingPhysical \<or> bs_state s = PairingAwaitingCommit then PairingTimeout
             else HandshakeTimeout) (snd (sendControlError E ''timeout'' (upd_session clearPendingPairing y)))
      else y)"

definition loop_close :: "'w BleEnv \<Rightarrow> u32 \<Rightarrow> 'w BleSys \<Rightarrow> 'w BleSys" where
  "loop_close E nowMillis y =
     (let s = sy_session y in
      if (bs_state s = Closing \<and> bs_closeAfterTransmit s \<and> be_transmitIdle E (sy_world y))
         \<or> (bs_state s = Closing \<and> bs_closeAt s \<noteq> 0 \<and> deadlineReached nowMillis (bs_closeAt s))
      then sys_disconnect E (bs_closeCause s) (upd_session (\<lambda>s. s\<lparr>bs_closeAt := 0, bs_closeAfterTransmit := False\<rparr>) y)
      else y)"

definition loop_backoff :: "u32 \<Rightarrow> BleSession \<Rightarrow> BleSession" where
  "loop_backoff nowMillis s =
     (if bs_state s = Backoff \<and> bs_backoffUntil s \<noteq> 0 \<and> deadlineReached nowMillis (bs_backoffUntil s)
      then s\<lparr>bs_backoffUntil := 0, bs_state := Disconnected\<rparr> else s)"

definition session_loop :: "'w BleEnv \<Rightarrow> u32 \<Rightarrow> 'w BleSys \<Rightarrow> 'w BleSys" where
  "session_loop E nowMillis y =
     (if \<not> bs_begun (sy_session y) then y
      else upd_session (loop_backoff nowMillis)
        (loop_close E nowMillis (loop_timeout E nowMillis (upd_session (expire_window nowMillis) y))))"

definition cancelPendingPairing :: "BleSession \<Rightarrow> BleSession" where
  "cancelPendingPairing s =
     (if \<not> bs_begun s then s
      else let s = clearPendingPairing s in
        if bs_state s = PairingAwaitingPhysical \<or> bs_state s = PairingAwaitingCommit then s\<lparr>bs_state := AwaitingHello\<rparr> else s)"

definition sendEvent :: "'w BleEnv \<Rightarrow> bytes option \<Rightarrow> bytes option \<Rightarrow> 'w BleSys \<Rightarrow> bool \<times> 'w BleSys" where
  "sendEvent E operation payload y =
     (if \<not> ss_barrier (bs_secrets (sy_session y)) \<or> \<not> bs_begun (sy_session y) then (False, y)
      else (case sys_random E 16 y of (None, y) \<Rightarrow> (False, y)
      | (Some requestId, y) \<Rightarrow> sendAuthenticated E ChannelEvent (Some requestId) operation payload y))"

subsection \<open>The status\<close>

record BleSessionStatus =
  bt_state :: BleSessionState
  bt_begun :: bool
  bt_secureLink :: bool
  bt_pairingWindowOpen :: bool
  bt_physicalConfirmationPending :: bool
  bt_pairingCompleted :: bool
  bt_pairingRole :: ControllerRole
  bt_applicationAuthenticated :: bool
  bt_controllerRole :: ControllerRole
  bt_authenticatedRequestBarrier :: bool
  bt_proofFailures :: u8
  bt_nextClientSequence :: u64
  bt_nextDeviceSequence :: u64
  bt_deadlineRemainingMs :: u32
  bt_backoffRemainingMs :: u32

definition session_status :: "u32 \<Rightarrow> BleSession \<Rightarrow> BleSessionStatus" where
  "session_status nowMillis s =
     (let windowOpen = (bs_windowOpen s \<and> \<not> deadlineReached nowMillis (bs_windowDeadline s));
          authenticated = (bs_state s = Authenticated); k = bs_secrets s in
      \<lparr>bt_state = bs_state s, bt_begun = bs_begun s, bt_secureLink = secure_link s, bt_pairingWindowOpen = windowOpen,
       bt_physicalConfirmationPending = (bs_state s = PairingAwaitingPhysical), bt_pairingCompleted = bs_pairingCompleted s,
       bt_pairingRole = (if windowOpen \<and> validPairingRole (bs_windowRole s) then bs_windowRole s
          else if bs_pairingCompleted s \<and> validPairingRole (bs_completedRole s) then bs_completedRole s else NoRole),
       bt_applicationAuthenticated = authenticated, bt_controllerRole = (if authenticated then ss_controllerRole k else NoRole),
       bt_authenticatedRequestBarrier = ss_barrier k, bt_proofFailures = bs_proofFailures s,
       bt_nextClientSequence = ss_expectedClientSequence k, bt_nextDeviceSequence = ss_nextDeviceSequence k,
       bt_deadlineRemainingMs = (if bs_stateDeadline s \<noteq> 0 \<and> \<not> deadlineReached nowMillis (bs_stateDeadline s)
          then bs_stateDeadline s - nowMillis else 0),
       bt_backoffRemainingMs = (if bs_backoffUntil s \<noteq> 0 \<and> \<not> deadlineReached nowMillis (bs_backoffUntil s)
          then bs_backoffUntil s - nowMillis else 0)\<rparr>)"

end
