(* ===== verification/Session_Laws.thy ===== *)
theory Session_Laws
  imports Ble_Session
begin

text \<open>
  The laws of the BLE session: what every method does to the session and the security object, the
  invariant of all reachable sessions, and the properties: who is authenticated, what a pairing
  needs, which requests reach the delegate, replay, backoff and closing.
\<close>

named_theorems session_frame

subsection \<open>What the methods keep\<close>

lemma sys_frames [session_frame, simp]:
  "sy_session (snd (sys_random E n y)) = sy_session y" "sy_security (snd (sys_random E n y)) = sy_security y"
  "sy_session (snd (sys_authenticated E b y)) = sy_session y" "sy_security (snd (sys_authenticated E b y)) = sy_security y"
  "sy_session (snd (sys_sendJson E j y)) = sy_session y" "sy_security (snd (sys_sendJson E j y)) = sy_security y"
  "sy_session (sys_disconnect E c y) = sy_session y" "sy_security (sys_disconnect E c y) = sy_security y"
  by (simp_all add: sys_random_def sys_authenticated_def sys_sendJson_def sys_disconnect_def split: prod.splits)

lemma send_frames [session_frame, simp]:
  "sy_session (snd (send_writer E w y)) = sy_session y" "sy_security (snd (send_writer E w y)) = sy_security y"
  "sy_session (snd (sendControlError E c y)) = sy_session y" "sy_security (snd (sendControlError E c y)) = sy_security y"
  by (simp_all add: send_writer_def sendControlError_def)

lemma sys_results [session_frame]:
  "sys_random E n y = (r, y') \<Longrightarrow> sy_session y' = sy_session y \<and> sy_security y' = sy_security y"
  "sys_authenticated E b y = (q, y') \<Longrightarrow> sy_session y' = sy_session y \<and> sy_security y' = sy_security y"
  "sys_sendJson E j y = (q, y') \<Longrightarrow> sy_session y' = sy_session y \<and> sy_security y' = sy_security y"
  "send_writer E w y = (q, y') \<Longrightarrow> sy_session y' = sy_session y \<and> sy_security y' = sy_security y"
  using sys_frames(1,2) [of E n y] sys_frames(3,4) [of E b y] sys_frames(5,6) [of E j y] send_frames(1,2) [of E w y] by auto

lemma failAndClose_session:
  "sy_session (failAndClose E now cause y) = (sy_session y)\<lparr>bs_secrets := secrets0, bs_pending := pending0,
     bs_closeCause := (if bs_closeCause (sy_session y) = CauseNone then (if cause = CauseNone then ApplicationRequest else cause)
        else bs_closeCause (sy_session y)),
     bs_state := Closing, bs_closeAt := now + kCloseDelayMs, bs_closeAfterTransmit := False\<rparr>"
  "sy_security (failAndClose E now cause y) = sy_security y"
  by (simp_all add: failAndClose_def clearSessionSecrets_def clearPendingPairing_def Let_def)

text \<open>The number of failures after one more.\<close>

definition more_failures :: "u8 \<Rightarrow> u8" where
  "more_failures n = (if n < 0xff then n + 1 else n)"

lemma failProof_session:
  "sy_session (failProof E now y) = (let s = (sy_session y)\<lparr>bs_secrets := secrets0, bs_pending := pending0,
       bs_proofFailures := more_failures (bs_proofFailures (sy_session y))\<rparr> in
     if more_failures (bs_proofFailures (sy_session y)) \<ge> kBleMaximumProofFailures
     then s\<lparr>bs_backoffUntil := now + kBleControllerBackoffMs, bs_state := Closing, bs_closeAt := now + kCloseDelayMs,
            bs_closeAfterTransmit := False, bs_closeCause := CauseAuthenticationFailed\<rparr>
     else s\<lparr>bs_state := AwaitingHello\<rparr>)"
  "sy_security (failProof E now y) = sy_security y"
  by (simp_all add: failProof_def clearSessionSecrets_def clearPendingPairing_def Let_def more_failures_def)

subsection \<open>The handlers\<close>

lemma hello_root_spec:
  "hello_root E cid y = (r, y') \<Longrightarrow> sy_session y' = sy_session y \<and> sy_security y' = sy_security y \<and>
     (\<forall>root role. r = Some (True, root, role) \<longrightarrow> findControllerRoot cid (sy_security y) = Some (root, role))"
  using sys_results(1) [of E kKitsuSecretBytes y] by (auto simp: hello_root_def split: option.splits prod.splits)

definition same_but_secrets :: "BleSession \<Rightarrow> BleSession \<Rightarrow> bool" where
  "same_but_secrets s s' \<longleftrightarrow> s'\<lparr>bs_secrets := bs_secrets s\<rparr> = s"

lemma same_but_secrets_simps [simp]:
  "same_but_secrets s s" "same_but_secrets s (s\<lparr>bs_secrets := k\<rparr>)"
  by (simp_all add: same_but_secrets_def)

lemma handleClientHello_spec:
  assumes "handleClientHello E json y = (r, y')"
  shows "sy_security y' = sy_security y" "\<not> r \<Longrightarrow> same_but_secrets (sy_session y) (sy_session y')"
    "r \<Longrightarrow> \<exists>k. sy_session y' = (sy_session y)\<lparr>bs_secrets := k, bs_state := AwaitingClientAuth\<rparr> \<and>
       (ss_controllerKnown k \<longrightarrow> findControllerRoot (ss_controllerId k) (sy_security y) = Some (ss_controllerRoot k, ss_controllerRole k))"
proof -
  show "sy_security y' = sy_security y"
    using assms by (auto simp: handleClientHello_def Let_def split: option.splits prod.splits if_splits bool.splits
        dest!: sys_results hello_root_spec)
  show "\<not> r \<Longrightarrow> same_but_secrets (sy_session y) (sy_session y')"
    using assms by (auto simp: handleClientHello_def Let_def split: option.splits prod.splits if_splits bool.splits
        dest!: sys_results hello_root_spec)
  show "r \<Longrightarrow> \<exists>k. sy_session y' = (sy_session y)\<lparr>bs_secrets := k, bs_state := AwaitingClientAuth\<rparr> \<and>
       (ss_controllerKnown k \<longrightarrow> findControllerRoot (ss_controllerId k) (sy_security y) = Some (ss_controllerRoot k, ss_controllerRole k))"
    using assms by (auto simp: handleClientHello_def Let_def split: option.splits prod.splits if_splits bool.splits
        dest!: sys_results hello_root_spec)
qed

lemmas session_splits = option.splits prod.splits if_splits bool.splits sum.splits

lemma handshake_proof_eq: "handshake_proof E (''client'') k = Some proof \<Longrightarrow>
    be_hmac E (ss_controllerRoot k) (handshake_parts (ascii ''client'') (ss_controllerId k) (ss_clientNonce k) (ss_deviceNonce k)) = Some proof"
  by (simp add: handshake_proof_def makeHandshakeProof_def roleAllowed_def split: option.splits sum.splits if_splits)

text \<open>The digests of the crypto library have 32 bytes.\<close>

definition mac_sized :: "hmac_fun \<Rightarrow> bool" where
  "mac_sized hmac \<longleftrightarrow> (\<forall>key parts mac. hmac key parts = Some mac \<longrightarrow> length mac = 32)"

lemma decodeExact_length: "decodeExact fs name n = Some out \<Longrightarrow> length out = n"
  by (auto simp: decodeExact_def split: session_splits)

lemma auth_proof_length: "auth_proof json = Some proof \<Longrightarrow> length proof = 32"
  by (auto simp: auth_proof_def split: session_splits dest: decodeExact_length)

lemma same_mac: "mac_sized hmac \<Longrightarrow> hmac key parts = Some mac \<Longrightarrow> length other = 32 \<Longrightarrow> constantTimeEqual mac other \<longleftrightarrow> mac = other"
  using constantTimeEqual_iff [of mac other] by (auto simp: mac_sized_def)

text \<open>The evidence on which a session is authenticated: a root and a proof of the client for the nonces of the session.\<close>

definition auth_evidence :: "'w BleEnv \<Rightarrow> SessionSecrets \<Rightarrow> bytes \<Rightarrow> bytes \<Rightarrow> bool" where
  "auth_evidence E k root json \<longleftrightarrow> (\<exists>proof. auth_proof json = Some proof \<and>
     be_hmac E root (handshake_parts (ascii ''client'') (ss_controllerId k) (ss_clientNonce k) (ss_deviceNonce k)) = Some proof) \<and>
     deriveBleSessionKeys (be_sha E) (be_hkdf E) (Some root) (Some (ss_clientNonce k)) (Some (ss_deviceNonce k))
       = Inr (ss_clientToDeviceKey k, ss_deviceToClientKey k)"

lemma handleClientAuth_spec:
  assumes run: "handleClientAuth E json y = (r, y')" and sized: "mac_sized (be_hmac E)"
  shows "sy_security y' = sy_security y" "\<not> r \<Longrightarrow> same_but_secrets (sy_session y) (sy_session y')"
    "r \<Longrightarrow> let k = bs_secrets (sy_session y); k' = bs_secrets (sy_session y') in ss_controllerKnown k \<and> auth_evidence E k' (ss_controllerRoot k) json \<and>
       ss_controllerKnown k' \<and> ss_controllerId k' = ss_controllerId k \<and> ss_controllerRole k' = ss_controllerRole k \<and>
       ss_expectedClientSequence k' = 1 \<and> ss_nextDeviceSequence k' = 1 \<and>
       sy_session y' = (sy_session y)\<lparr>bs_secrets := k', bs_proofFailures := 0, bs_stateDeadline := 0, bs_state := Authenticated\<rparr>"
proof -
  show "sy_security y' = sy_security y"
    using run by (auto simp: handleClientAuth_def Let_def split: session_splits dest!: sys_results)
  show "\<not> r \<Longrightarrow> same_but_secrets (sy_session y) (sy_session y')"
    using run by (auto simp: handleClientAuth_def Let_def split: session_splits dest!: sys_results)
  assume r: r
  have mac: "expected = supplied"
    if "auth_proof json = Some supplied" "be_hmac E root parts = Some expected" "constantTimeEqual expected supplied" for root parts supplied expected
    using same_mac [OF sized that(2) auth_proof_length [OF that(1)]] that(3) by simp
  show "let k = bs_secrets (sy_session y); k' = bs_secrets (sy_session y') in ss_controllerKnown k \<and> auth_evidence E k' (ss_controllerRoot k) json \<and>
       ss_controllerKnown k' \<and> ss_controllerId k' = ss_controllerId k \<and> ss_controllerRole k' = ss_controllerRole k \<and>
       ss_expectedClientSequence k' = 1 \<and> ss_nextDeviceSequence k' = 1 \<and>
       sy_session y' = (sy_session y)\<lparr>bs_secrets := k', bs_proofFailures := 0, bs_stateDeadline := 0, bs_state := Authenticated\<rparr>"
    using run r by (auto simp: handleClientAuth_def Let_def auth_evidence_def split: session_splits dest!: sys_results dest: mac
        dest!: handshake_proof_eq)
qed

definition same_but_pending :: "BleSession \<Rightarrow> BleSession \<Rightarrow> bool" where
  "same_but_pending s s' \<longleftrightarrow> s'\<lparr>bs_pending := bs_pending s, bs_pairingCompleted := bs_pairingCompleted s, bs_completedRole := bs_completedRole s\<rparr> = s"

lemma same_but_pending_simps [simp]:
  "same_but_pending s s" "same_but_pending s (s\<lparr>bs_pending := p\<rparr>)" "same_but_pending s (clearPendingPairing s)"
  "same_but_pending s (s\<lparr>bs_pending := p, bs_pairingCompleted := c, bs_completedRole := q\<rparr>)"
  by (simp_all add: same_but_pending_def clearPendingPairing_def)

lemma handlePairRequest_spec:
  assumes run: "handlePairRequest E json now y = (r, y')"
  shows "sy_security y' = sy_security y" "\<not> r \<Longrightarrow> same_but_pending (sy_session y) (sy_session y')"
    "r \<Longrightarrow> sy_session y' = clearPendingPairing (sy_session y) \<or>
       (\<exists>p. sy_session y' = (sy_session y)\<lparr>bs_pending := p, bs_pairingCompleted := False, bs_completedRole := NoRole,
          bs_state := PairingAwaitingPhysical, bs_stateDeadline := bs_windowDeadline (sy_session y)\<rparr> \<and> pp_role p = bs_windowRole (sy_session y))"
proof -
  show "sy_security y' = sy_security y"
    using run by (auto simp: handlePairRequest_def Let_def split: session_splits dest!: sys_results)
  show "\<not> r \<Longrightarrow> same_but_pending (sy_session y) (sy_session y')"
    using run by (auto simp: handlePairRequest_def Let_def split: session_splits dest!: sys_results)
  show "r \<Longrightarrow> sy_session y' = clearPendingPairing (sy_session y) \<or>
       (\<exists>p. sy_session y' = (sy_session y)\<lparr>bs_pending := p, bs_pairingCompleted := False, bs_completedRole := NoRole,
          bs_state := PairingAwaitingPhysical, bs_stateDeadline := bs_windowDeadline (sy_session y)\<rparr> \<and> pp_role p = bs_windowRole (sy_session y))"
    using run by (auto simp: handlePairRequest_def Let_def split: session_splits dest!: sys_results)
qed

lemma unique_id_frame: "unique_id E n y = (r, y') \<Longrightarrow> sy_session y' = sy_session y \<and> sy_security y' = sy_security y"
  by (induction E n y rule: unique_id.induct) (auto split: session_splits dest!: sys_results)

lemma generate_material:
  "generatePendingControllerRoot P l sec w = (r, root, sec', w') \<Longrightarrow> dv_material sec' = dv_material sec \<and> dv_begun sec' = dv_begun sec \<and> dv_key sec' = dv_key sec"
  by (auto simp: generatePendingControllerRoot_def split: session_splits)

text \<open>A session that is being closed.\<close>

abbreviation (input) closed_from :: "BleSession \<Rightarrow> BleSession \<Rightarrow> bool" where
  "closed_from s s' \<equiv> bs_state s' = Closing \<and> bs_begun s' = bs_begun s"

lemma session_failed_pairing_spec:
  assumes "session_failed_pairing E now cause y = (r, y')"
  shows "\<not> r" "closed_from (sy_session y) (sy_session y')" "sy_security y' = sy_security y"
  using assms by (auto simp: session_failed_pairing_def failAndClose_session clearPendingPairing_def)

lemma confirmPendingPairing_spec:
  assumes run: "confirmPendingPairing E now y = (r, y')"
  shows "dv_material (sy_security y') = dv_material (sy_security y)"
    "\<not> r \<Longrightarrow> sy_session y' = sy_session y \<or> bs_state (sy_session y) = PairingAwaitingPhysical \<and> sy_session y' = clearPendingPairing (sy_session y)
       \<or> closed_from (sy_session y) (sy_session y')"
    "r \<Longrightarrow> let s = sy_session y in bs_state s = PairingAwaitingPhysical \<and> bs_windowOpen s \<and> \<not> deadlineReached now (bs_stateDeadline s) \<and>
       secure_link s \<and> pp_role (bs_pending s) = bs_windowRole s \<and>
       (\<exists>p. sy_session y' = s\<lparr>bs_pending := p, bs_state := PairingAwaitingCommit\<rparr> \<and> pp_role p = pp_role (bs_pending s))"
proof -
  show "dv_material (sy_security y') = dv_material (sy_security y)"
    using run by (auto simp: confirmPendingPairing_def Let_def split: session_splits
        dest!: sys_results unique_id_frame session_failed_pairing_spec(3) generate_material)
  show "\<not> r \<Longrightarrow> sy_session y' = sy_session y \<or> bs_state (sy_session y) = PairingAwaitingPhysical \<and> sy_session y' = clearPendingPairing (sy_session y)
       \<or> closed_from (sy_session y) (sy_session y')"
    using run by (auto simp: confirmPendingPairing_def Let_def clearPendingPairing_def split: session_splits
        dest!: sys_results unique_id_frame session_failed_pairing_spec(2))
  show "r \<Longrightarrow> let s = sy_session y in bs_state s = PairingAwaitingPhysical \<and> bs_windowOpen s \<and> \<not> deadlineReached now (bs_stateDeadline s) \<and>
       secure_link s \<and> pp_role (bs_pending s) = bs_windowRole s \<and>
       (\<exists>p. sy_session y' = s\<lparr>bs_pending := p, bs_state := PairingAwaitingCommit\<rparr> \<and> pp_role p = pp_role (bs_pending s))"
    using run by (auto simp: confirmPendingPairing_def Let_def split: session_splits
        dest!: sys_results unique_id_frame dest: session_failed_pairing_spec(1))
qed

lemma commit_proof_length: "commit_proof p json = Some proof \<Longrightarrow> length proof = 32"
  by (auto simp: commit_proof_def split: session_splits dest: decodeExact_length)

text \<open>What the client of a pairing has to authenticate with the granted root.\<close>

definition pairing_evidence :: "'w BleEnv \<Rightarrow> BleSession \<Rightarrow> bytes \<Rightarrow> bool" where
  "pairing_evidence E s json \<longleftrightarrow> (let p = bs_pending s in
     \<exists>proof. commit_proof p json = Some proof \<and> be_hmac E (pp_controllerRoot p)
       (if pp_role p = RoleOwner
        then pairing_parts (ascii ''client'') (pp_controllerId p) (pp_controllerRoot p) (bs_deviceUid s) (pp_clientNonce p) (pp_deviceNonce p)
        else role_pairing_parts (ascii ''client'') (ascii ''caretaker'') (pp_controllerId p) (pp_controllerRoot p) (bs_deviceUid s)
          (pp_clientNonce p) (pp_deviceNonce p)) = Some proof)"

lemma pending_proof_evidence:
  assumes "mac_sized (be_hmac E)" "commit_proof (bs_pending s) json = Some supplied"
    "makePendingPairingProof E ''client'' s = Some expected" "constantTimeEqual expected supplied"
  shows "pairing_evidence E s json"
proof -
  have "be_hmac E (pp_controllerRoot (bs_pending s))
       (if pp_role (bs_pending s) = RoleOwner
        then pairing_parts (ascii ''client'') (pp_controllerId (bs_pending s)) (pp_controllerRoot (bs_pending s)) (bs_deviceUid s)
          (pp_clientNonce (bs_pending s)) (pp_deviceNonce (bs_pending s))
        else role_pairing_parts (ascii ''client'') (ascii ''caretaker'') (pp_controllerId (bs_pending s)) (pp_controllerRoot (bs_pending s))
          (bs_deviceUid s) (pp_clientNonce (bs_pending s)) (pp_deviceNonce (bs_pending s))) = Some expected"
    using assms(3) by (auto simp: makePendingPairingProof_def makePairingProof_def makeRoleBoundPairingProof_def Let_def split: session_splits)
  from this same_mac [OF assms(1) this commit_proof_length [OF assms(2)]] assms(2,4) show ?thesis
    by (auto simp: pairing_evidence_def Let_def)
qed

text \<open>The commit a pairing leads to.\<close>

abbreviation (input) session_commit :: "'w BleEnv \<Rightarrow> 'w BleSys \<Rightarrow> SecurityResult \<times> DeviceSecurity \<times> 'w" where
  "session_commit E y \<equiv> commitControllerAfterPairing (be_storage E) (be_platform E) (Some (pp_controllerId (bs_pending (sy_session y))))
     (Some (pp_controllerRoot (bs_pending (sy_session y)))) (session_pairing_link (sy_session y)) True (pp_role (bs_pending (sy_session y)))
     (sy_security y) (sy_world y)"

lemma handlePairCommit_spec:
  assumes run: "handlePairCommit E json now y = (r, y')" and sized: "mac_sized (be_hmac E)"
  shows "sy_security y' = sy_security y \<or> pairing_evidence E (sy_session y) json \<and> (\<exists>q w. session_commit E y = (q, sy_security y', w))"
    "\<not> r \<Longrightarrow> same_but_pending (sy_session y) (sy_session y') \<or> closed_from (sy_session y) (sy_session y')"
    "r \<Longrightarrow> sy_session y' = (sy_session y)\<lparr>bs_pending := pending0, bs_pairingCompleted := True,
       bs_completedRole := pp_role (bs_pending (sy_session y)), bs_state := AwaitingHello\<rparr>"
proof -
  note ev = pending_proof_evidence [OF sized, of "sy_session y" json]
  show "sy_security y' = sy_security y \<or> pairing_evidence E (sy_session y) json \<and> (\<exists>q w. session_commit E y = (q, sy_security y', w))"
    using run by (auto simp: handlePairCommit_def Let_def failAndClose_session split: session_splits
        dest!: sys_results session_failed_pairing_spec(3) dest: ev)
  show "\<not> r \<Longrightarrow> same_but_pending (sy_session y) (sy_session y') \<or> closed_from (sy_session y) (sy_session y')"
    using run by (auto simp: handlePairCommit_def Let_def failAndClose_session clearPendingPairing_def split: session_splits
        dest!: sys_results session_failed_pairing_spec(2))
  show "r \<Longrightarrow> sy_session y' = (sy_session y)\<lparr>bs_pending := pending0, bs_pairingCompleted := True,
       bs_completedRole := pp_role (bs_pending (sy_session y)), bs_state := AwaitingHello\<rparr>"
    using run by (auto simp: handlePairCommit_def Let_def clearPendingPairing_def split: session_splits
        dest!: sys_results dest: session_failed_pairing_spec(1))
qed

lemma sendAuthenticated_spec:
  assumes "sendAuthenticated E ch rid op payload y = (r, y')"
  shows "sy_security y' = sy_security y" "\<not> r \<Longrightarrow> sy_session y' = sy_session y"
    "r \<Longrightarrow> bs_state (sy_session y) = Authenticated \<and> sy_session y' = (sy_session y)\<lparr>bs_secrets := (bs_secrets (sy_session y))
       \<lparr>ss_nextDeviceSequence := ss_nextDeviceSequence (bs_secrets (sy_session y)) + 1\<rparr>\<rparr> \<and> ss_nextDeviceSequence (bs_secrets (sy_session y)) \<noteq> - 1"
  using assms by (auto simp: sendAuthenticated_def Let_def split: session_splits dest!: sys_results)

text \<open>A session after a served request: the same controller, keys and nonces.\<close>

definition same_peer :: "BleSession \<Rightarrow> BleSession \<Rightarrow> bool" where
  "same_peer s s' \<longleftrightarrow> (let k = bs_secrets s; k' = bs_secrets s' in
     s' = s\<lparr>bs_secrets := k\<lparr>ss_barrier := ss_barrier k', ss_expectedClientSequence := ss_expectedClientSequence k',
       ss_nextDeviceSequence := ss_nextDeviceSequence k'\<rparr>\<rparr>)"

lemma same_peer_update:
  "same_peer s (s\<lparr>bs_secrets := (bs_secrets s)\<lparr>ss_barrier := b, ss_expectedClientSequence := e, ss_nextDeviceSequence := n\<rparr>\<rparr>)"
  "same_peer s (s\<lparr>bs_secrets := (bs_secrets s)\<lparr>ss_expectedClientSequence := e, ss_nextDeviceSequence := n\<rparr>\<rparr>)"
  "same_peer s (s\<lparr>bs_secrets := (bs_secrets s)\<lparr>ss_expectedClientSequence := e, ss_nextDeviceSequence := n, ss_barrier := b\<rparr>\<rparr>)"
  "same_peer s (s\<lparr>bs_secrets := (bs_secrets s)\<lparr>ss_nextDeviceSequence := n\<rparr>\<rparr>)" "same_peer s s"
  by (simp_all add: same_peer_def Let_def)

lemma sendAuthenticated_peer: "sendAuthenticated E ch rid op payload y = (r, y') \<Longrightarrow> same_peer (sy_session y) (sy_session y')"
  using sendAuthenticated_spec(2,3) [of E ch rid op payload y r y'] by (cases r) (simp_all add: same_peer_update)

lemma handle_forget_spec:
  assumes run: "handle_forget E request payload now y = (r, y')" and auth: "bs_state (sy_session y) = Authenticated"
  shows "sy_security y' = sy_security y \<or> (\<exists>q w. revokeAuthenticatedController (be_storage E) (be_platform E)
      (Some (ss_controllerId (bs_secrets (sy_session y)))) (sy_security y) (sy_world y) = (q, sy_security y', w))"
    "closed_from (sy_session y) (sy_session y') \<or> r \<and> sy_session y' = (sy_session y)\<lparr>bs_secrets := (bs_secrets (sy_session y))
       \<lparr>ss_nextDeviceSequence := ss_nextDeviceSequence (bs_secrets (sy_session y)) + 1\<rparr>\<rparr>"
proof -
  show "sy_security y' = sy_security y \<or> (\<exists>q w. revokeAuthenticatedController (be_storage E) (be_platform E)
      (Some (ss_controllerId (bs_secrets (sy_session y)))) (sy_security y) (sy_world y) = (q, sy_security y', w))"
    using run by (auto simp: handle_forget_def Let_def failAndClose_session split: session_splits dest!: sendAuthenticated_spec(1))
  show "closed_from (sy_session y) (sy_session y') \<or> r \<and> sy_session y' = (sy_session y)\<lparr>bs_secrets := (bs_secrets (sy_session y))
       \<lparr>ss_nextDeviceSequence := ss_nextDeviceSequence (bs_secrets (sy_session y)) + 1\<rparr>\<rparr>"
    using run by (auto simp: handle_forget_def Let_def failAndClose_session clearSessionSecrets_def split: session_splits
        dest: sendAuthenticated_spec(2,3))
qed

lemma handle_request_spec:
  assumes run: "handle_request E request payload now y = (r, y')" and auth: "bs_state (sy_session y) = Authenticated"
  shows "sy_security y' = sy_security y"
    "closed_from (sy_session y) (sy_session y') \<or> r \<and> sy_session y' = (sy_session y)\<lparr>bs_secrets := (bs_secrets (sy_session y))
       \<lparr>ss_nextDeviceSequence := ss_nextDeviceSequence (bs_secrets (sy_session y)) + 1, ss_barrier := True\<rparr>\<rparr>"
proof -
  show "sy_security y' = sy_security y"
    using run by (auto simp: handle_request_def Let_def failAndClose_session split: session_splits dest!: sendAuthenticated_spec(1))
  show "closed_from (sy_session y) (sy_session y') \<or> r \<and> sy_session y' = (sy_session y)\<lparr>bs_secrets := (bs_secrets (sy_session y))
       \<lparr>ss_nextDeviceSequence := ss_nextDeviceSequence (bs_secrets (sy_session y)) + 1, ss_barrier := True\<rparr>\<rparr>"
    using run by (auto simp: handle_request_def Let_def failAndClose_session split: session_splits dest: sendAuthenticated_spec(2,3))
qed

lemma handleAuthenticatedEnvelope_spec:
  assumes run: "handleAuthenticatedEnvelope E json now y = (r, y')" and auth: "bs_state (sy_session y) = Authenticated"
  shows "session_request E json (sy_session y) = None \<Longrightarrow> \<not> r \<and> closed_from (sy_session y) (sy_session y') \<and> sy_security y' = sy_security y \<and>
      bs_backoffUntil (sy_session y') = now + kBleControllerBackoffMs"
    "closed_from (sy_session y) (sy_session y') \<or> r \<and> session_request E json (sy_session y) \<noteq> None \<and> same_peer (sy_session y) (sy_session y') \<and>
      ss_expectedClientSequence (bs_secrets (sy_session y')) = ss_expectedClientSequence (bs_secrets (sy_session y)) + 1"
    "sy_security y' = sy_security y \<or> (\<exists>request payload q w. session_request E json (sy_session y) = Some (request, payload) \<and>
      de_operation request = ascii ''controller.forget'' \<and> revokeAuthenticatedController (be_storage E) (be_platform E)
      (Some (ss_controllerId (bs_secrets (sy_session y)))) (sy_security y) (sy_world y) = (q, sy_security y', w))"
proof -
  show "session_request E json (sy_session y) = None \<Longrightarrow> \<not> r \<and> closed_from (sy_session y) (sy_session y') \<and> sy_security y' = sy_security y \<and>
      bs_backoffUntil (sy_session y') = now + kBleControllerBackoffMs"
    using run by (auto simp: handleAuthenticatedEnvelope_def failAndClose_session)
  show "closed_from (sy_session y) (sy_session y') \<or> r \<and> session_request E json (sy_session y) \<noteq> None \<and> same_peer (sy_session y) (sy_session y') \<and>
      ss_expectedClientSequence (bs_secrets (sy_session y')) = ss_expectedClientSequence (bs_secrets (sy_session y)) + 1"
    using run auth by (auto simp: handleAuthenticatedEnvelope_def failAndClose_session Let_def same_peer_update split: session_splits
        dest!: handle_forget_spec(2) handle_request_spec(2))
  show "sy_security y' = sy_security y \<or> (\<exists>request payload q w. session_request E json (sy_session y) = Some (request, payload) \<and>
      de_operation request = ascii ''controller.forget'' \<and> revokeAuthenticatedController (be_storage E) (be_platform E)
      (Some (ss_controllerId (bs_secrets (sy_session y)))) (sy_security y) (sy_world y) = (q, sy_security y', w))"
    using run auth by (auto simp: handleAuthenticatedEnvelope_def failAndClose_session Let_def split: session_splits
        dest!: handle_forget_spec(1) handle_request_spec(1))
qed

subsection \<open>Reachable sessions\<close>

text \<open>
  A history records the frames received, the controllers that were in the store when a frame arrived, and the grants made
  at the device: identifier, root and role handed out by a confirmation while the pairing window for that role was open.
  Everything else may happen at any time and in any order; other parts of the firmware may change
  the security object.
\<close>

record SessionHistory =
  hi_frames :: "bytes set"
  hi_stored :: "(bytes \<times> bytes \<times> ControllerRole) set"
  hi_granted :: "(bytes \<times> bytes \<times> ControllerRole) set"

definition stored_controllers :: "DeviceSecurity \<Rightarrow> (bytes \<times> bytes \<times> ControllerRole) set" where
  "stored_controllers sec = {(cid, root, role). findControllerRoot cid sec = Some (root, role)}"

text \<open>The grant of a confirmation made while the window was open for its role.\<close>

definition granted_now :: "u32 \<Rightarrow> BleSession \<Rightarrow> BleSession \<Rightarrow> (bytes \<times> bytes \<times> ControllerRole) set" where
  "granted_now now s s' = (if bs_windowOpen s \<and> \<not> deadlineReached now (bs_windowDeadline s) \<and> secure_link s \<and> pp_role (bs_pending s') = bs_windowRole s
     then {(pp_controllerId (bs_pending s'), pp_controllerRoot (bs_pending s'), pp_role (bs_pending s'))} else {})"

inductive ses_reach :: "'w BleEnv \<Rightarrow> SessionHistory \<Rightarrow> 'w BleSys \<Rightarrow> bool" for E where
  ses_start: "sy_session y = session0 \<Longrightarrow> session_begin uid y = (True, y') \<Longrightarrow>
    ses_reach E \<lparr>hi_frames = {}, hi_stored = {}, hi_granted = {}\<rparr> y'"
| ses_link: "ses_reach E h y \<Longrightarrow> ses_reach E h (onSecureLinkEstablished E sc enc auth bond now y)"
| ses_closed: "ses_reach E h y \<Longrightarrow> ses_reach E h (upd_session (onLinkClosed now) y)"
| ses_window: "ses_reach E h y \<Longrightarrow> ses_reach E h (upd_session (setPairingWindow opened remaining now role) y)"
| ses_frame: "ses_reach E h y \<Longrightarrow> onFrame E (Some json) now y = Some y' \<Longrightarrow>
    ses_reach E (h\<lparr>hi_frames := insert json (hi_frames h), hi_stored := hi_stored h \<union> stored_controllers (sy_security y)\<rparr>) y'"
| ses_loop: "ses_reach E h y \<Longrightarrow> ses_reach E h (session_loop E now y)"
| ses_confirm: "ses_reach E h y \<Longrightarrow> confirmPendingPairing E now y = (ok, y') \<Longrightarrow>
    ses_reach E (h\<lparr>hi_granted := hi_granted h \<union> (if ok then granted_now now (sy_session y) (sy_session y') else {})\<rparr>) y'"
| ses_cancel: "ses_reach E h y \<Longrightarrow> ses_reach E h (upd_session cancelPendingPairing y)"
| ses_event: "ses_reach E h y \<Longrightarrow> sendEvent E op payload y = (sent, y') \<Longrightarrow> ses_reach E h y'"
| ses_other: "ses_reach E h y \<Longrightarrow> ses_reach E h (y\<lparr>sy_security := sec, sy_world := w\<rparr>)"

definition ses_inv :: "'w BleEnv \<Rightarrow> SessionHistory \<Rightarrow> BleSession \<Rightarrow> bool" where
  "ses_inv E h s \<longleftrightarrow> bs_begun s
     \<and> (bs_state s \<in> {AwaitingHello, AwaitingClientAuth, Authenticated, PairingAwaitingPhysical, PairingAwaitingCommit} \<longrightarrow> secure_link s)
     \<and> (let k = bs_secrets s in
         (bs_state s = AwaitingClientAuth \<and> ss_controllerKnown k \<longrightarrow> (ss_controllerId k, ss_controllerRoot k, ss_controllerRole k) \<in> hi_stored h)
       \<and> (bs_state s = Authenticated \<longrightarrow> (\<exists>root json. (ss_controllerId k, root, ss_controllerRole k) \<in> hi_stored h \<and> json \<in> hi_frames h \<and>
            auth_evidence E k root json)))
     \<and> (bs_state s = PairingAwaitingPhysical \<and> bs_windowOpen s \<longrightarrow> bs_stateDeadline s = bs_windowDeadline s)
     \<and> (let p = bs_pending s in bs_state s = PairingAwaitingCommit \<longrightarrow> (pp_controllerId p, pp_controllerRoot p, pp_role p) \<in> hi_granted h)"

lemma ses_inv_closed: "bs_state s' = Closing \<Longrightarrow> bs_begun s' \<Longrightarrow> ses_inv E h s'"
  by (simp add: ses_inv_def)

lemma failAndClose_inv: "bs_begun (sy_session y) \<Longrightarrow> ses_inv E h (sy_session (failAndClose E now cause y))"
  by (rule ses_inv_closed) (simp_all add: failAndClose_session)

lemma failProof_inv: "bs_begun (sy_session y) \<Longrightarrow> secure_link (sy_session y) \<Longrightarrow> ses_inv E h (sy_session (failProof E now y))"
  by (simp add: ses_inv_def failProof_session Let_def secure_link_def)

lemma auth_evidence_cong:
  "ss_controllerId k' = ss_controllerId k \<Longrightarrow> ss_clientNonce k' = ss_clientNonce k \<Longrightarrow> ss_deviceNonce k' = ss_deviceNonce k \<Longrightarrow>
   ss_clientToDeviceKey k' = ss_clientToDeviceKey k \<Longrightarrow> ss_deviceToClientKey k' = ss_deviceToClientKey k \<Longrightarrow>
   auth_evidence E k' root json = auth_evidence E k root json"
  by (simp add: auth_evidence_def)

lemma same_peer_inv: "same_peer s s' \<Longrightarrow> ses_inv E h s \<Longrightarrow> ses_inv E h s'"
  unfolding same_peer_def Let_def
  by (erule ssubst) (simp add: ses_inv_def Let_def secure_link_def auth_evidence_def)

lemma ses_inv_mono:
  assumes "ses_inv E h s" "hi_frames h \<subseteq> hi_frames h'" "hi_stored h \<subseteq> hi_stored h'" "hi_granted h \<subseteq> hi_granted h'"
  shows "ses_inv E h' s"
  using assms unfolding ses_inv_def Let_def by blast

lemma same_but_link:
  "same_but_secrets s s' \<Longrightarrow> bs_begun s' = bs_begun s \<and> secure_link s' = secure_link s \<and> bs_state s' = bs_state s"
  "same_but_pending s s' \<Longrightarrow> bs_begun s' = bs_begun s \<and> secure_link s' = secure_link s \<and> bs_state s' = bs_state s"
  unfolding same_but_secrets_def same_but_pending_def secure_link_def by (drule sym, erule ssubst, simp)+

text \<open>What a handler has to leave: the invariant, or a session that its caller can reset.\<close>

definition handled_ok :: "'w BleEnv \<Rightarrow> SessionHistory \<Rightarrow> bool \<Rightarrow> BleSession \<Rightarrow> bool" where
  "handled_ok E h r s \<longleftrightarrow> bs_begun s \<and> (if r then ses_inv E h s else bs_state s = Closing \<or> secure_link s)"

lemma same_handled:
  "secure_link s \<Longrightarrow> bs_begun s \<Longrightarrow> same_but_secrets s s' \<or> same_but_pending s s' \<or> closed_from s s' \<Longrightarrow> handled_ok E h False s'"
  using same_but_link [of s s'] by (auto simp: handled_ok_def)

lemma client_hello_inv:
  assumes link: "secure_link (sy_session y)" "bs_begun (sy_session y)" and hist: "stored_controllers (sy_security y) \<subseteq> hi_stored h"
    and run: "handleClientHello E json y = (r, y')"
  shows "handled_ok E h r (sy_session y')"
proof (cases r)
  case True
  from handleClientHello_spec(3) [OF run this] obtain k where k: "sy_session y' = (sy_session y)\<lparr>bs_secrets := k, bs_state := AwaitingClientAuth\<rparr>"
    "ss_controllerKnown k \<longrightarrow> findControllerRoot (ss_controllerId k) (sy_security y) = Some (ss_controllerRoot k, ss_controllerRole k)" by blast
  have "ss_controllerKnown k \<longrightarrow> (ss_controllerId k, ss_controllerRoot k, ss_controllerRole k) \<in> hi_stored h"
    using k(2) hist by (auto simp: stored_controllers_def)
  then show ?thesis using True link k(1) by (simp add: handled_ok_def ses_inv_def secure_link_def)
next
  case False
  then show ?thesis using same_handled [OF link, of "sy_session y'"] handleClientHello_spec(2) [OF run] by simp
qed

lemma pair_request_inv:
  assumes link: "secure_link (sy_session y)" "bs_begun (sy_session y)" and st: "bs_state (sy_session y) = AwaitingHello"
    and run: "handlePairRequest E json now y = (r, y')"
  shows "handled_ok E h r (sy_session y')"
proof (cases r)
  case True
  from handlePairRequest_spec(3) [OF run this] show ?thesis
  proof
    assume "sy_session y' = clearPendingPairing (sy_session y)"
    then show ?thesis using True link st by (simp add: handled_ok_def ses_inv_def secure_link_def clearPendingPairing_def)
  next
    assume "\<exists>p. sy_session y' = (sy_session y)\<lparr>bs_pending := p, bs_pairingCompleted := False, bs_completedRole := NoRole,
          bs_state := PairingAwaitingPhysical, bs_stateDeadline := bs_windowDeadline (sy_session y)\<rparr> \<and> pp_role p = bs_windowRole (sy_session y)"
    then obtain p where "sy_session y' = (sy_session y)\<lparr>bs_pending := p, bs_pairingCompleted := False, bs_completedRole := NoRole,
          bs_state := PairingAwaitingPhysical, bs_stateDeadline := bs_windowDeadline (sy_session y)\<rparr>" by blast
    then show ?thesis using True link by (simp add: handled_ok_def ses_inv_def secure_link_def)
  qed
next
  case False
  then show ?thesis using same_handled [OF link, of "sy_session y'"] handlePairRequest_spec(2) [OF run] by simp
qed

lemma hello_dispatch_inv:
  assumes "secure_link (sy_session y)" "bs_begun (sy_session y)" "bs_state (sy_session y) = AwaitingHello"
    "stored_controllers (sy_security y) \<subseteq> hi_stored h" and run: "hello_dispatch E json now y = (r, y')"
  shows "handled_ok E h r (sy_session y')"
proof -
  from run have "\<not> r \<and> y' = y \<or> handleClientHello E json y = (r, y') \<or> handlePairRequest E json now y = (r, y')"
    by (simp add: hello_dispatch_def split: option.splits if_splits)
  then show ?thesis
    using client_hello_inv [OF assms(1,2,4), of E json] pair_request_inv [OF assms(1-3), of E json now] same_handled [OF assms(1,2), of "sy_session y"] by auto
qed

lemma client_auth_inv:
  assumes inv: "ses_inv E h (sy_session y)" and st: "bs_state (sy_session y) = AwaitingClientAuth" and sized: "mac_sized (be_hmac E)"
    and hist: "json \<in> hi_frames h" and run: "handleClientAuth E json y = (r, y')"
  shows "handled_ok E h r (sy_session y')"
proof (cases r)
  case True
  define k where "k = bs_secrets (sy_session y)"
  define k' where "k' = bs_secrets (sy_session y')"
  note a = handleClientAuth_spec(3) [OF run sized True, unfolded Let_def, folded k_def k'_def]
  have "(ss_controllerId k, ss_controllerRoot k, ss_controllerRole k) \<in> hi_stored h" "secure_link (sy_session y)" "bs_begun (sy_session y)"
    using inv st a by (simp_all add: ses_inv_def Let_def k_def)
  moreover have "sy_session y' = (sy_session y)\<lparr>bs_secrets := k', bs_proofFailures := 0, bs_stateDeadline := 0, bs_state := Authenticated\<rparr>"
    using a by blast
  ultimately show ?thesis using True a hist by (auto simp: handled_ok_def ses_inv_def secure_link_def Let_def)
next
  case False
  have "secure_link (sy_session y)" "bs_begun (sy_session y)" using inv st by (simp_all add: ses_inv_def)
  then show ?thesis using False same_handled [of "sy_session y" "sy_session y'"] handleClientAuth_spec(2) [OF run sized] by simp
qed

lemma pair_commit_inv:
  assumes link: "secure_link (sy_session y)" "bs_begun (sy_session y)" and sized: "mac_sized (be_hmac E)"
    and run: "handlePairCommit E json now y = (r, y')"
  shows "handled_ok E h r (sy_session y')"
proof (cases r)
  case True
  then show ?thesis using link handlePairCommit_spec(3) [OF run sized] by (simp add: handled_ok_def ses_inv_def secure_link_def)
next
  case False
  then show ?thesis using same_handled [OF link, of "sy_session y'"] handlePairCommit_spec(2) [OF run sized] by auto
qed

lemma envelope_inv:
  assumes inv: "ses_inv E h (sy_session y)" and st: "bs_state (sy_session y) = Authenticated"
    and run: "handleAuthenticatedEnvelope E json now y = (r, y')"
  shows "handled_ok E h r (sy_session y')"
proof -
  have begun: "bs_begun (sy_session y)" using inv by (simp add: ses_inv_def)
  from handleAuthenticatedEnvelope_spec(2) [OF run st] show ?thesis
  proof
    assume "closed_from (sy_session y) (sy_session y')"
    then show ?thesis using begun by (simp add: handled_ok_def ses_inv_closed)
  next
    assume "r \<and> session_request E json (sy_session y) \<noteq> None \<and> same_peer (sy_session y) (sy_session y') \<and>
      ss_expectedClientSequence (bs_secrets (sy_session y')) = ss_expectedClientSequence (bs_secrets (sy_session y)) + 1"
    then show ?thesis using same_peer_inv [OF _ inv, of "sy_session y'"] by (simp add: handled_ok_def ses_inv_def)
  qed
qed

lemma frame_dispatch_inv:
  assumes inv: "ses_inv E h (sy_session y)" and link: "secure_link (sy_session y)" and sized: "mac_sized (be_hmac E)"
    and hist: "json \<in> hi_frames h" "stored_controllers (sy_security y) \<subseteq> hi_stored h"
    and run: "frame_dispatch E json now y = (r, y')"
  shows "handled_ok E h r (sy_session y')"
proof -
  have begun: "bs_begun (sy_session y)" using inv by (simp add: ses_inv_def)
  have none: "handled_ok E h False (sy_session y)" using begun link by (simp add: handled_ok_def)
  show ?thesis
    using run none hello_dispatch_inv [OF link begun _ hist(2), of E json now] client_auth_inv [OF inv _ sized hist(1)]
      pair_commit_inv [OF link begun sized, of json now] envelope_inv [OF inv, of json now]
    by (cases "bs_state (sy_session y)") (auto simp: frame_dispatch_def)
qed

lemma onFrame_inv:
  assumes inv: "ses_inv E h (sy_session y)" and sized: "mac_sized (be_hmac E)"
    and hist: "json \<in> hi_frames h" "stored_controllers (sy_security y) \<subseteq> hi_stored h"
    and run: "onFrame E (Some json) now y = Some y'"
  shows "ses_inv E h (sy_session y')"
proof -
  have begun: "bs_begun (sy_session y)" using inv by (simp add: ses_inv_def)
  obtain r y1 where d: "frame_dispatch E json now y = (r, y1)" by (cases "frame_dispatch E json now y")
  show ?thesis
  proof (cases "secure_link (sy_session y)")
    case True
    from frame_dispatch_inv [OF inv True sized hist d] have "handled_ok E h r (sy_session y1)" .
    then show ?thesis
      using run True begun d failAndClose_inv [of y E h] failAndClose_inv [of "snd (sendControlError E ''timeout'' y)" E h] failProof_inv [of y1 E h]
      by (auto simp: onFrame_def Let_def handled_ok_def ses_inv_closed split: if_splits)
  next
    case False
    then show ?thesis using run begun failAndClose_inv [of y E h] by (auto simp: onFrame_def Let_def split: if_splits)
  qed
qed

lemma link_inv:
  assumes "ses_inv E h (sy_session y)"
  shows "ses_inv E h (sy_session (onSecureLinkEstablished E sc enc auth bond now y))"
proof -
  have "bs_begun (sy_session y)" using assms by (simp add: ses_inv_def)
  then show ?thesis
    by (simp add: onSecureLinkEstablished_def Let_def failAndClose_session resetForSecureLink_def ses_inv_def secure_link_def
        clearPendingPairing_def clearSessionSecrets_def)
qed

lemma closed_inv: "ses_inv E h s \<Longrightarrow> ses_inv E h (onLinkClosed now s)"
  by (simp add: onLinkClosed_def ses_inv_def Let_def expire_window_def clearPendingPairing_def clearSessionSecrets_def)

lemma window_inv:
  assumes "ses_inv E h s"
  shows "ses_inv E h (setPairingWindow opened remaining now role s)"
proof (cases "bs_state s = PairingAwaitingPhysical \<or> bs_state s = PairingAwaitingCommit")
  case True
  then show ?thesis using assms by (auto simp: setPairingWindow_def ses_inv_def Let_def clearPendingPairing_def secure_link_def)
next
  case False
  then show ?thesis using assms by (auto simp: setPairingWindow_def ses_inv_def Let_def secure_link_def)
qed

lemma cancel_inv: "ses_inv E h s \<Longrightarrow> ses_inv E h (cancelPendingPairing s)"
  by (auto simp: cancelPendingPairing_def ses_inv_def Let_def clearPendingPairing_def secure_link_def)

lemma expire_inv: "ses_inv E h s \<Longrightarrow> ses_inv E h (expire_window now s)"
  by (auto simp: expire_window_def ses_inv_def Let_def secure_link_def)

lemma loop_inv:
  assumes "ses_inv E h (sy_session y)"
  shows "ses_inv E h (sy_session (session_loop E now y))"
proof -
  have begun: "bs_begun (sy_session y)" using assms by (simp add: ses_inv_def)
  define y1 where "y1 = upd_session (expire_window now) y"
  have i1: "ses_inv E h (sy_session y1)" using expire_inv [OF assms] by (simp add: y1_def)
  then have b1: "bs_begun (sy_session y1)" by (simp add: ses_inv_def)
  have i2: "ses_inv E h (sy_session (loop_timeout E now y1))"
    using i1 b1 by (simp add: loop_timeout_def Let_def clearPendingPairing_def failAndClose_inv)
  have close: "ses_inv E h (sy_session (loop_close E now z))" if "ses_inv E h (sy_session z)" for z
    using that by (auto simp: loop_close_def Let_def ses_inv_def)
  have "ses_inv E h (loop_backoff now s)" if "ses_inv E h s" for s
    using that by (auto simp: loop_backoff_def ses_inv_def)
  with i2 close begun show ?thesis by (simp add: session_loop_def y1_def)
qed

lemma confirm_inv:
  assumes inv: "ses_inv E h (sy_session y)" and run: "confirmPendingPairing E now y = (r, y')"
  shows "ses_inv E (h\<lparr>hi_granted := hi_granted h \<union> (if r then granted_now now (sy_session y) (sy_session y') else {})\<rparr>) (sy_session y')"
proof (cases r)
  case True
  from confirmPendingPairing_spec(3) [OF run True] obtain p where st: "bs_state (sy_session y) = PairingAwaitingPhysical" "bs_windowOpen (sy_session y)"
    "\<not> deadlineReached now (bs_stateDeadline (sy_session y))" "secure_link (sy_session y)" "pp_role p = bs_windowRole (sy_session y)"
    and s': "sy_session y' = (sy_session y)\<lparr>bs_pending := p, bs_state := PairingAwaitingCommit\<rparr>" by (auto simp: Let_def)
  have "bs_stateDeadline (sy_session y) = bs_windowDeadline (sy_session y)" using inv st by (simp add: ses_inv_def Let_def)
  then show ?thesis using inv st True by (simp add: ses_inv_def s' granted_now_def secure_link_def)
next
  case False
  have h: "h\<lparr>hi_granted := hi_granted h \<union> (if r then granted_now now (sy_session y) (sy_session y') else {})\<rparr> = h" using False by simp
  have cleared: "ses_inv E h (clearPendingPairing s)" if "bs_state s = PairingAwaitingPhysical" "ses_inv E h s" for s
    using that by (simp add: ses_inv_def Let_def clearPendingPairing_def secure_link_def)
  have begun: "bs_begun (sy_session y)" using inv by (simp add: ses_inv_def)
  from confirmPendingPairing_spec(2) [OF run False] inv begun show ?thesis
    unfolding h by (elim disjE conjE) (simp_all add: cleared ses_inv_closed)
qed

lemma event_inv:
  assumes inv: "ses_inv E h (sy_session y)" and run: "sendEvent E op payload y = (r, y')"
  shows "ses_inv E h (sy_session y')"
proof -
  have "same_peer (sy_session y) (sy_session y')"
    using run by (auto simp: sendEvent_def same_peer_update split: session_splits dest!: sys_results sendAuthenticated_peer)
  then show ?thesis using inv by (rule same_peer_inv)
qed

lemma ses_reach_inv:
  assumes "ses_reach E h y" "mac_sized (be_hmac E)"
  shows "ses_inv E h (sy_session y)"
  using assms
proof (induction rule: ses_reach.induct)
  case (ses_start y uid y')
  then show ?case by (auto simp: session_begin_def ses_inv_def session0_def split: if_splits)
next
  case (ses_frame h y json now y')
  let ?h = "h\<lparr>hi_frames := insert json (hi_frames h), hi_stored := hi_stored h \<union> stored_controllers (sy_security y)\<rparr>"
  have "ses_inv E ?h (sy_session y)" by (rule ses_inv_mono [OF ses_frame.IH [OF ses_frame.prems]]) auto
  then show ?case using onFrame_inv [OF _ ses_frame.prems _ _ ses_frame.hyps(2), of ?h] by simp
next
  case (ses_confirm h y now ok y')
  then show ?case by (intro confirm_inv) simp_all
qed (simp_all add: link_inv closed_inv window_inv loop_inv cancel_inv event_inv)

end
