(* ===== verification/Session_Props.thy ===== *)
theory Session_Props
  imports Session_Laws
begin

text \<open>
  The properties of the BLE session: authentication and authorization over all reachable sessions, what a change of
  the security store needs, replay, lockout after failed proofs, and a way around the lockout.
\<close>

subsection \<open>The delegate\<close>

abbreviation (input) other_delegate :: "'w BleEnv \<Rightarrow> (ControllerRole \<Rightarrow> DecodedEnvelope \<Rightarrow> bytes \<Rightarrow> 'w \<Rightarrow> (bool \<times> bytes) \<times> 'w) \<Rightarrow> 'w BleEnv" where
  "other_delegate E g \<equiv> E\<lparr>be_handleRequest := g\<rparr>"

lemma delegate_sys [simp]:
  "sys_random (other_delegate E g) = sys_random E" "sys_authenticated (other_delegate E g) = sys_authenticated E"
  "sys_sendJson (other_delegate E g) = sys_sendJson E" "sys_disconnect (other_delegate E g) = sys_disconnect E"
  by (simp_all add: fun_eq_iff sys_random_def sys_authenticated_def sys_sendJson_def sys_disconnect_def)

lemma delegate_fields:
  "be_storage (other_delegate E g) = be_storage E" "be_platform (other_delegate E g) = be_platform E" "be_hmac (other_delegate E g) = be_hmac E"
  "be_sha (other_delegate E g) = be_sha E" "be_hkdf (other_delegate E g) = be_hkdf E"
  by simp_all

lemma delegate_send [simp]:
  "send_writer (other_delegate E g) = send_writer E" "sendControlError (other_delegate E g) = sendControlError E"
  unfolding send_writer_def sendControlError_def delegate_sys by (rule refl)+

lemma delegate_fail [simp]:
  "failProof (other_delegate E g) = failProof E" "failAndClose (other_delegate E g) = failAndClose E"
  "session_failed_pairing (other_delegate E g) = session_failed_pairing E" "sendAuthenticated (other_delegate E g) = sendAuthenticated E"
  "session_request (other_delegate E g) = session_request E"
  unfolding failProof_def failAndClose_def session_failed_pairing_def sendAuthenticated_def session_request_def delegate_sys
      delegate_send delegate_fields by (rule refl)+

lemma delegate_handshake [simp]:
  "handshake_proof (other_delegate E g) = handshake_proof E" "makePendingPairingProof (other_delegate E g) = makePendingPairingProof E"
  "hello_root (other_delegate E g) = hello_root E"
  unfolding handshake_proof_def makePendingPairingProof_def hello_root_def delegate_sys delegate_fields by (rule refl)+

lemma delegate_handlers [simp]:
  "handleClientHello (other_delegate E g) = handleClientHello E" "handleClientAuth (other_delegate E g) = handleClientAuth E"
  "handlePairRequest (other_delegate E g) = handlePairRequest E" "handlePairCommit (other_delegate E g) = handlePairCommit E"
  "handle_forget (other_delegate E g) = handle_forget E"
  unfolding handleClientHello_def handleClientAuth_def handlePairRequest_def handlePairCommit_def handle_forget_def
      delegate_sys delegate_send delegate_fail delegate_handshake delegate_fields by (rule refl)+

lemma delegate_hello [simp]: "hello_dispatch (other_delegate E g) = hello_dispatch E"
  unfolding hello_dispatch_def delegate_handlers by (rule refl)+

text \<open>The delegate is consulted only for an authorized request of an authenticated session.\<close>

lemma delegate_consulted:
  assumes "onFrame (other_delegate E g) (Some json) now y \<noteq> onFrame E (Some json) now y"
  shows "bs_state (sy_session y) = Authenticated \<and> secure_link (sy_session y) \<and> session_request E json (sy_session y) \<noteq> None"
proof (rule ccontr)
  assume no: "\<not> ?thesis"
  have "handleAuthenticatedEnvelope (other_delegate E g) json now y = handleAuthenticatedEnvelope E json now y"
    if "session_request E json (sy_session y) = None" using that by (simp add: handleAuthenticatedEnvelope_def)
  then have "frame_dispatch (other_delegate E g) json now y = frame_dispatch E json now y"
    if "\<not> (bs_state (sy_session y) = Authenticated \<and> session_request E json (sy_session y) \<noteq> None)"
    using that by (cases "bs_state (sy_session y)") (simp_all add: frame_dispatch_def del: not_None_eq)
  with no assms show False by (auto simp: onFrame_def Let_def split: if_splits prod.splits)
qed

lemma session_request_authorized:
  assumes "session_request E json s = Some (request, payload)"
  shows "decodeAndVerifyEnvelope (be_hmac E) (Some json) (Some (ss_clientToDeviceKey (bs_secrets s))) ChannelRequest
      (ss_expectedClientSequence (bs_secrets s)) (Some kMaximumEnvelopePayloadBytes) = Inr (request, payload)"
    "request_authorized (ss_controllerRole (bs_secrets s)) request payload" "ss_expectedClientSequence (bs_secrets s) \<noteq> - 1"
  using assms by (auto simp: session_request_def Let_def split: sum.splits if_splits)

subsection \<open>Sequence numbers\<close>

lemma decode_sequence:
  assumes "decodeAndVerifyEnvelope hmac (Some json) key ch e cap = Inr x" "decodeAndVerifyEnvelope hmac' (Some json) key' ch e' cap = Inr x'"
  shows "e = e'"
  using assms by (simp add: decodeAndVerifyEnvelope_def Let_def split: if_splits sum.splits option.splits)

text \<open>The rest of an authenticated session: anything but a change of the link, as long as the session stays authenticated.\<close>

inductive ses_continues :: "'w BleEnv \<Rightarrow> 'w BleSys \<Rightarrow> 'w BleSys \<Rightarrow> bool" for E where
  cont_now: "ses_continues E y y"
| cont_frame: "ses_continues E y z \<Longrightarrow> onFrame E frame now z = Some z' \<Longrightarrow> bs_state (sy_session z') = Authenticated \<Longrightarrow> ses_continues E y z'"
| cont_event: "ses_continues E y z \<Longrightarrow> sendEvent E op payload z = (sent, z') \<Longrightarrow> ses_continues E y z'"
| cont_loop: "ses_continues E y z \<Longrightarrow> ses_continues E y (session_loop E now z)"
| cont_window: "ses_continues E y z \<Longrightarrow> ses_continues E y (upd_session (setPairingWindow opened remaining now role) z)"
| cont_cancel: "ses_continues E y z \<Longrightarrow> ses_continues E y (upd_session cancelPendingPairing z)"
| cont_other: "ses_continues E y z \<Longrightarrow> ses_continues E y (z\<lparr>sy_security := sec, sy_world := w\<rparr>)"

text \<open>A frame that leaves an authenticated session authenticated was served.\<close>

lemma frame_served:
  assumes "bs_state (sy_session y) = Authenticated" "onFrame E frame now y = Some y'" "bs_state (sy_session y') = Authenticated"
  shows "\<exists>json. frame = Some json \<and> session_request E json (sy_session y) \<noteq> None \<and>
    ss_expectedClientSequence (bs_secrets (sy_session y')) = ss_expectedClientSequence (bs_secrets (sy_session y)) + 1"
proof -
  obtain json r y1 where f: "frame = Some json" and d: "handleAuthenticatedEnvelope E json now y = (r, y1)"
    and y': "y' = (if \<not> r \<and> bs_state (sy_session y1) \<noteq> Closing then failProof E now y1 else y1)"
    using assms by (cases "handleAuthenticatedEnvelope E (the frame) now y")
      (auto simp: onFrame_def Let_def frame_dispatch_def failAndClose_session split: if_splits)
  have "bs_state (sy_session (failProof E now y1)) \<noteq> Authenticated" by (simp add: failProof_session Let_def)
  then have "y' = y1" using y' assms(3) by (auto split: if_splits)
  with handleAuthenticatedEnvelope_spec(2) [OF d assms(1)] assms(3) f show ?thesis by auto
qed

lemma loop_authenticated: "bs_state (sy_session y) = Authenticated \<Longrightarrow> bs_begun (sy_session y) \<Longrightarrow>
    sy_session (session_loop E now y) = expire_window now (sy_session y)"
  by (auto simp: session_loop_def loop_close_def loop_timeout_def loop_backoff_def expire_window_def Let_def)

lemma event_sequence: "sendEvent E op payload y = (r, y') \<Longrightarrow> bs_state (sy_session y') = bs_state (sy_session y) \<and>
    ss_expectedClientSequence (bs_secrets (sy_session y')) = ss_expectedClientSequence (bs_secrets (sy_session y))"
  by (cases r) (auto simp: sendEvent_def split: session_splits dest!: sys_results dest: sendAuthenticated_spec(2,3))

lemma served_next:
  assumes "session_request E json s \<noteq> None"
  shows "unat (ss_expectedClientSequence (bs_secrets s) + 1) = unat (ss_expectedClientSequence (bs_secrets s)) + 1"
proof -
  let ?n = "ss_expectedClientSequence (bs_secrets s)"
  have "?n \<noteq> - 1" using assms session_request_authorized(3) by fast
  then have "unat ?n \<noteq> unat (- 1 :: u64)" using unsigned_word_eqI by blast
  moreover have "unat (- 1 :: u64) = 18446744073709551615" by (simp add: unsigned_minus_1_eq_mask mask_eq_exp_minus_1)
  moreover have "unat ?n < 2 ^ LENGTH(64)" by (rule unsigned_less)
  ultimately have "unat ?n + 1 < 18446744073709551616" by simp
  then show ?thesis by (simp add: unat_word_ariths)
qed

lemma continues_sequence:
  assumes "ses_continues E y z" "bs_state (sy_session y) = Authenticated"
  shows "bs_state (sy_session z) = Authenticated \<and>
    unat (ss_expectedClientSequence (bs_secrets (sy_session y))) \<le> unat (ss_expectedClientSequence (bs_secrets (sy_session z)))"
  using assms
proof (induction rule: ses_continues.induct)
  case (cont_frame y z frame now z')
  then show ?case using frame_served [of z E frame now z'] served_next [of E _ "sy_session z"] by fastforce
next
  case (cont_event y z op payload sent z')
  then show ?case using event_sequence by fastforce
next
  case (cont_loop y z now)
  show ?case
  proof (cases "bs_begun (sy_session z)")
    case True
    then show ?thesis using cont_loop loop_authenticated [of z E now] by (simp add: expire_window_def)
  next
    case False
    then show ?thesis using cont_loop by (simp add: session_loop_def)
  qed
next
  case (cont_window y z opened remaining now role)
  then show ?case by (simp add: setPairingWindow_def Let_def)
next
  case (cont_cancel y z)
  then show ?case by (simp add: cancelPendingPairing_def clearPendingPairing_def Let_def)
qed simp_all

subsection \<open>Properties\<close>

text \<open>
  C5. Whoever has an authenticated session has proved to hold the root of a controller in the store.  In every
  reachable authenticated session the link is secure, and some frame carried the client proof, a MAC under a root
  that the store had for this controller and role, over the identifier and the two nonces of this session; the session
  keys are derived from that root.
\<close>

theorem authenticated_session_proved:
  assumes "ses_reach E h y" "mac_sized (be_hmac E)" "bs_state (sy_session y) = Authenticated"
  shows "secure_link (sy_session y) \<and> (let k = bs_secrets (sy_session y) in
    \<exists>root json proof. (ss_controllerId k, root, ss_controllerRole k) \<in> hi_stored h \<and> json \<in> hi_frames h \<and> auth_proof json = Some proof \<and>
      be_hmac E root (handshake_parts (ascii ''client'') (ss_controllerId k) (ss_clientNonce k) (ss_deviceNonce k)) = Some proof \<and>
      deriveBleSessionKeys (be_sha E) (be_hkdf E) (Some root) (Some (ss_clientNonce k)) (Some (ss_deviceNonce k))
        = Inr (ss_clientToDeviceKey k, ss_deviceToClientKey k))"
  using ses_reach_inv [OF assms(1,2)] assms(3) by (fastforce simp: ses_inv_def auth_evidence_def Let_def)

text \<open>
  C6. The delegate only sees authorized requests.  When the outcome of a frame depends on the delegate at all, the
  session is authenticated on a secure link for a controller the store had with that role, the frame is an
  envelope with a valid MAC under the session key and exactly the expected sequence number, and the role is allowed its
  operation, or the action it carries.
\<close>

theorem delegate_only_authorized:
  assumes "ses_reach E h y" "mac_sized (be_hmac E)" "onFrame (other_delegate E g) (Some json) now y \<noteq> onFrame E (Some json) now y"
  shows "let k = bs_secrets (sy_session y); role = ss_controllerRole k in bs_state (sy_session y) = Authenticated \<and> secure_link (sy_session y) \<and>
    (\<exists>root. (ss_controllerId k, root, role) \<in> hi_stored h) \<and>
    (\<exists>request payload. decodeAndVerifyEnvelope (be_hmac E) (Some json) (Some (ss_clientToDeviceKey k)) ChannelRequest
        (ss_expectedClientSequence k) (Some kMaximumEnvelopePayloadBytes) = Inr (request, payload) \<and>
      (let permission = controllerPermission role (controllerOperation (Some (map (\<lambda>b. char_of (unat b)) (de_operation request)))) in
       permission = Allowed \<or> permission = ActionRequired \<and> (\<exists>command. decodeBleActionCommand (Some payload) = (DecodeOk, command) \<and>
         controllerPermission role (controllerBleAction (ac_kind command)) = Allowed)))"
proof -
  note c = delegate_consulted [OF assms(3)]
  then obtain request payload where r: "session_request E json (sy_session y) = Some (request, payload)" by fast
  note a = session_request_authorized [OF r]
  have "\<exists>root. (ss_controllerId (bs_secrets (sy_session y)), root, ss_controllerRole (bs_secrets (sy_session y))) \<in> hi_stored h"
    using ses_reach_inv [OF assms(1,2)] c by (auto simp: ses_inv_def Let_def)
  with c a show ?thesis by (auto simp: Let_def request_authorized_def split: prod.splits)
qed

text \<open>
  C7. A frame that was served once is never served again in the same session: when it comes back, whatever
  happened in between, the delegate is not consulted, the store is not touched, the session is
  closed and a backoff of 30 seconds starts.
\<close>

theorem replayed_frame_closes:
  assumes auth: "bs_state (sy_session y) = Authenticated" and served: "onFrame E (Some json) now y = Some y1" "bs_state (sy_session y1) = Authenticated"
    and later: "ses_continues E y1 z" and link: "bs_begun (sy_session z)" "secure_link (sy_session z)" and json: "json \<noteq> []"
  shows "\<exists>z1. onFrame E (Some json) later_now z = Some z1 \<and> onFrame (other_delegate E g) (Some json) later_now z = Some z1 \<and>
    sy_security z1 = sy_security z \<and> bs_state (sy_session z1) = Closing \<and> bs_backoffUntil (sy_session z1) = later_now + kBleControllerBackoffMs"
proof -
  note s1 = frame_served [OF auth served]
  then have "unat (ss_expectedClientSequence (bs_secrets (sy_session y))) < unat (ss_expectedClientSequence (bs_secrets (sy_session y1)))"
    using served_next [of E json "sy_session y"] by auto
  with continues_sequence [OF later served(2)] have z: "bs_state (sy_session z) = Authenticated"
    "ss_expectedClientSequence (bs_secrets (sy_session z)) \<noteq> ss_expectedClientSequence (bs_secrets (sy_session y))" by auto
  obtain x where "session_request E json (sy_session y) = Some x" using s1 by auto
  then obtain request payload where r: "session_request E json (sy_session y) = Some (request, payload)" by (cases x) auto
  have none: "session_request E json (sy_session z) = None"
  proof (rule ccontr)
    assume "session_request E json (sy_session z) \<noteq> None"
    then obtain request' payload' where r': "session_request E json (sy_session z) = Some (request', payload')" by fast
    from decode_sequence [OF session_request_authorized(1) [OF r] session_request_authorized(1) [OF r']] z(2) show False by simp
  qed
  have eq: "onFrame (other_delegate E g) (Some json) later_now z = onFrame E (Some json) later_now z"
    using delegate_consulted [of g E json later_now z] none by blast
  obtain q z1 where d: "handleAuthenticatedEnvelope E json later_now z = (q, z1)" by (cases "handleAuthenticatedEnvelope E json later_now z")
  from handleAuthenticatedEnvelope_spec(1) [OF d z(1) none] have "\<not> q" "bs_state (sy_session z1) = Closing" "sy_security z1 = sy_security z"
    "bs_backoffUntil (sy_session z1) = later_now + kBleControllerBackoffMs" by simp_all
  moreover from this d z(1) link json have "onFrame E (Some json) later_now z = Some z1"
    by (simp add: onFrame_def Let_def frame_dispatch_def)
  ultimately show ?thesis using eq by simp
qed

text \<open>
  C8. What a frame needs to change the security object.  Either it completes a pairing: the session waits for the
  commit of a grant that was made at the device, while the pairing window for that role was open, and the
  frame proves knowledge of the granted root; the object is then the result of committing exactly that grant.  Or it
  is a request of an authenticated controller to be forgotten, and the object is the result of revoking
  this controller.
\<close>

theorem store_changed_by_frame:
  assumes "ses_reach E h y" "mac_sized (be_hmac E)" "onFrame E (Some json) now y = Some y'" "sy_security y' \<noteq> sy_security y"
  shows "secure_link (sy_session y) \<and>
    ((let p = bs_pending (sy_session y) in bs_state (sy_session y) = PairingAwaitingCommit \<and>
       (pp_controllerId p, pp_controllerRoot p, pp_role p) \<in> hi_granted h \<and> pairing_evidence E (sy_session y) json \<and>
       (\<exists>q w. commitControllerAfterPairing (be_storage E) (be_platform E) (Some (pp_controllerId p)) (Some (pp_controllerRoot p))
          (session_pairing_link (sy_session y)) True (pp_role p) (sy_security y) (sy_world y) = (q, sy_security y', w))) \<or>
     (bs_state (sy_session y) = Authenticated \<and>
       (\<exists>request payload q w. session_request E json (sy_session y) = Some (request, payload) \<and> de_operation request = ascii ''controller.forget'' \<and>
         revokeAuthenticatedController (be_storage E) (be_platform E) (Some (ss_controllerId (bs_secrets (sy_session y)))) (sy_security y) (sy_world y)
           = (q, sy_security y', w))))"
proof -
  note inv = ses_reach_inv [OF assms(1,2)]
  obtain r y1 where d: "frame_dispatch E json now y = (r, y1)" by (cases "frame_dispatch E json now y")
  have link: "secure_link (sy_session y)" and sec: "sy_security y1 = sy_security y'"
    using assms(3,4) d by (auto simp: onFrame_def Let_def failAndClose_session failProof_session split: if_splits)
  have ch: "sy_security y1 \<noteq> sy_security y" using assms(4) sec by simp
  show ?thesis
  proof (cases "bs_state (sy_session y)")
    case AwaitingHello
    then have "sy_security y1 = sy_security y"
      using d handleClientHello_spec(1) [of E json y r y1] handlePairRequest_spec(1) [of E json now y r y1]
      by (auto simp: frame_dispatch_def hello_dispatch_def split: option.splits if_splits)
    with ch show ?thesis by simp
  next
    case AwaitingClientAuth
    then show ?thesis using d ch handleClientAuth_spec(1) [OF _ assms(2)] by (simp add: frame_dispatch_def)
  next
    case Authenticated
    then have "handleAuthenticatedEnvelope E json now y = (r, y1)" using d by (simp add: frame_dispatch_def)
    from handleAuthenticatedEnvelope_spec(3) [OF this Authenticated] ch link Authenticated show ?thesis unfolding sec by blast
  next
    case PairingAwaitingCommit
    then have "handlePairCommit E json now y = (r, y1)" using d by (simp add: frame_dispatch_def)
    from handlePairCommit_spec(1) [OF this assms(2)] ch link PairingAwaitingCommit inv show ?thesis
      unfolding sec by (auto simp: ses_inv_def Let_def)
  qed (use d ch in \<open>simp_all add: frame_dispatch_def\<close>)
qed

subsection \<open>Lockout\<close>

text \<open>
  What happens during a backoff, as long as every event falls into it.  Time stamps for which the end of a new
  backoff would be the reserved value 0 are left out.
\<close>

definition in_backoff :: "u32 \<Rightarrow> 'w BleSys \<Rightarrow> bool" where
  "in_backoff now y \<longleftrightarrow> \<not> deadlineReached now (bs_backoffUntil (sy_session y)) \<and> now + kBleControllerBackoffMs \<noteq> 0"

inductive locked_run :: "'w BleEnv \<Rightarrow> 'w BleSys \<Rightarrow> 'w BleSys \<Rightarrow> bool" for E where
  lock_now: "locked_run E y y"
| lock_link: "locked_run E y z \<Longrightarrow> in_backoff now z \<Longrightarrow> locked_run E y (onSecureLinkEstablished E sc enc auth bond now z)"
| lock_closed: "locked_run E y z \<Longrightarrow> locked_run E y (upd_session (onLinkClosed now) z)"
| lock_window: "locked_run E y z \<Longrightarrow> locked_run E y (upd_session (setPairingWindow opened remaining now role) z)"
| lock_frame: "locked_run E y z \<Longrightarrow> in_backoff now z \<Longrightarrow> onFrame E frame now z = Some z' \<Longrightarrow> locked_run E y z'"
| lock_loop: "locked_run E y z \<Longrightarrow> in_backoff now z \<Longrightarrow> locked_run E y (session_loop E now z)"
| lock_confirm: "locked_run E y z \<Longrightarrow> confirmPendingPairing E now z = (ok, z') \<Longrightarrow> locked_run E y z'"
| lock_cancel: "locked_run E y z \<Longrightarrow> locked_run E y (upd_session cancelPendingPairing z)"
| lock_event: "locked_run E y z \<Longrightarrow> sendEvent E op payload z = (sent, z') \<Longrightarrow> locked_run E y z'"
| lock_other: "locked_run E y z \<Longrightarrow> locked_run E y (z\<lparr>sy_security := sec, sy_world := w\<rparr>)"

definition locked_out :: "BleSession \<Rightarrow> bool" where
  "locked_out s \<longleftrightarrow> bs_begun s \<and> kBleMaximumProofFailures \<le> bs_proofFailures s \<and> bs_backoffUntil s \<noteq> 0 \<and> (bs_state s = Closing \<or> bs_state s = Backoff)"

lemma locked_simps [simp]:
  "locked_out (s\<lparr>bs_secrets := k\<rparr>) = locked_out s" "locked_out (s\<lparr>bs_pending := p\<rparr>) = locked_out s"
  "locked_out (expire_window now s) = locked_out s"
  by (simp_all add: locked_out_def expire_window_def)

lemma more_failures_limit: "kBleMaximumProofFailures \<le> n \<Longrightarrow> kBleMaximumProofFailures \<le> more_failures n"
  unfolding more_failures_def kBleMaximumProofFailures_def by (simp add: word_le_nat_alt word_less_nat_alt unat_word_ariths)

lemma locked_frame:
  assumes "locked_out (sy_session z)" "in_backoff now z" "onFrame E frame now z = Some z'"
  shows "locked_out (sy_session z') \<and> sy_security z' = sy_security z"
  using assms more_failures_limit [of "bs_proofFailures (sy_session z)"]
  by (auto simp: locked_out_def in_backoff_def onFrame_def Let_def frame_dispatch_def failAndClose_session failProof_session split: if_splits)

lemma locked_loop:
  assumes "locked_out (sy_session z)" "in_backoff now z"
  shows "locked_out (sy_session (session_loop E now z))"
proof -
  define z1 where "z1 = upd_session (expire_window now) z"
  have l1: "locked_out (sy_session z1)" "in_backoff now z1" using assms by (simp_all add: z1_def in_backoff_def) (simp add: expire_window_def)
  then have "loop_timeout E now z1 = z1" by (auto simp: loop_timeout_def locked_out_def Let_def)
  moreover have l2: "locked_out (sy_session (loop_close E now z1))" "in_backoff now (loop_close E now z1)"
    using l1 by (auto simp: loop_close_def Let_def locked_out_def in_backoff_def)
  moreover have "loop_backoff now (sy_session (loop_close E now z1)) = sy_session (loop_close E now z1)"
    using l2(2) by (simp add: loop_backoff_def in_backoff_def)
  ultimately show ?thesis using assms(1) by (simp add: session_loop_def z1_def locked_out_def)
qed

lemma locked_run_out:
  assumes "locked_run E y z" "locked_out (sy_session y)"
  shows "locked_out (sy_session z)"
  using assms
proof (induction rule: locked_run.induct)
  case (lock_link y z now sc enc auth bond)
  then show ?case
    by (auto simp: onSecureLinkEstablished_def Let_def locked_out_def in_backoff_def failAndClose_session)
next
  case (lock_closed y z now)
  then show ?case
    by (auto simp: onLinkClosed_def Let_def locked_out_def expire_window_def clearSessionSecrets_def clearPendingPairing_def)
next
  case (lock_window y z opened remaining now role)
  then show ?case by (auto simp: setPairingWindow_def Let_def locked_out_def)
next
  case (lock_frame y z now frame z')
  then show ?case using locked_frame by blast
next
  case (lock_loop y z now)
  then show ?case using locked_loop by blast
next
  case (lock_confirm y z now ok z')
  then show ?case by (auto simp: confirmPendingPairing_def Let_def locked_out_def)
next
  case (lock_cancel y z)
  then show ?case by (auto simp: cancelPendingPairing_def clearPendingPairing_def Let_def locked_out_def)
next
  case (lock_event y z op payload sent z')
  then have "same_peer (sy_session z) (sy_session z')"
    by (auto simp: sendEvent_def same_peer_update split: session_splits dest!: sys_results sendAuthenticated_peer)
  then show ?case using lock_event unfolding same_peer_def Let_def by (metis locked_simps(1))
qed simp_all

text \<open>
  C10. Lockout.  After the third failed proof, as long as the backoff lasts, no event of any kind leads out of it: the
  session is closing or in backoff, it is neither in a handshake nor in a pairing nor authenticated, and frames do
  not change the security object.
\<close>

theorem lockout_holds:
  assumes fail: "bs_begun (sy_session y)" "kBleMaximumProofFailures \<le> more_failures (bs_proofFailures (sy_session y))"
      "now + kBleControllerBackoffMs \<noteq> 0"
    and run: "locked_run E (failProof E now y) z"
  shows "(bs_state (sy_session z) = Closing \<or> bs_state (sy_session z) = Backoff) \<and>
    (\<forall>frame now' z'. in_backoff now' z \<and> onFrame E frame now' z = Some z' \<longrightarrow> sy_security z' = sy_security z)"
proof -
  have "locked_out (sy_session (failProof E now y))"
    using fail by (simp add: locked_out_def failProof_session Let_def)
  note z = locked_run_out [OF run this]
  then have "\<forall>frame now' z'. in_backoff now' z \<and> onFrame E frame now' z = Some z' \<longrightarrow> sy_security z' = sy_security z"
    using locked_frame by blast
  then show ?thesis using z by (simp add: locked_out_def)
qed

text \<open>
  C37. A way around the backoff that follows a protocol violation.  With fewer than two failed proofs counted, any frame
  that is delivered on a link refused because of a running backoff takes the session to the start of a handshake,
  while the backoff is still running.
\<close>

theorem backoff_left_by_frame:
  assumes "bs_begun (sy_session y)" "secure_link (sy_session y)" "bs_state (sy_session y) = Backoff" "bs_proofFailures (sy_session y) < 2" "json \<noteq> []"
  shows "\<exists>y'. onFrame E (Some json) now y = Some y' \<and> bs_state (sy_session y') = AwaitingHello \<and> secure_link (sy_session y') \<and>
    bs_backoffUntil (sy_session y') = bs_backoffUntil (sy_session y)"
proof -
  have "\<not> kBleMaximumProofFailures \<le> more_failures (bs_proofFailures (sy_session y))"
    using assms(4) unfolding more_failures_def kBleMaximumProofFailures_def
    by (simp add: word_le_nat_alt word_less_nat_alt unat_word_ariths)
  then show ?thesis using assms by (simp add: onFrame_def Let_def frame_dispatch_def failProof_session secure_link_def)
qed

end
