(* ===== verification/Session_Works.thy ===== *)
theory Session_Works
  imports Session_Props
begin

text \<open>
  Sessions that work: the messages of the device fit their buffers, a handshake with the right proofs succeeds
  when the platform does its part, and the runs on which the other properties are instantiated.
\<close>

subsection \<open>The messages fit\<close>

lemma jw_fits:
  "jw_ok w \<Longrightarrow> length (jw_output w) + length text \<le> jw_capacity w \<Longrightarrow> jw_literal text w = (True, w\<lparr>jw_output := jw_output w @ text\<rparr>)"
  "jw_ok w \<Longrightarrow> length (jw_output w) + length text + 2 \<le> jw_capacity w \<Longrightarrow>
     writeQuoted text w = (True, w\<lparr>jw_output := jw_output w @ cQuote # text @ [cQuote]\<rparr>)"
  by (simp_all add: jw_literal_def writeQuoted_def jw_token_def)

text \<open>The two messages of the device byte for byte, around the base64url texts they carry.\<close>

definition greeting_text :: "bytes \<Rightarrow> bytes \<Rightarrow> bytes" where
  "greeting_text nonce proof = ascii ''{\"v\":1,\"type\":\"device_hello\",\"device_nonce_b64\":\"'' @ nonce
     @ ascii ''\",\"proof_b64\":\"'' @ proof @ ascii ''\"}''"

definition confirm_text :: "bytes \<Rightarrow> bytes" where
  "confirm_text proof = ascii ''{\"v\":1,\"type\":\"device_ok\",\"proof_b64\":\"'' @ proof @ ascii ''\"}''"

lemma device_messages_fit:
  "length a = 22 \<Longrightarrow> length b = 43 \<Longrightarrow> jw_ok (device_hello_json a b) \<and> jw_output (device_hello_json a b) = greeting_text a b"
  "length b = 43 \<Longrightarrow> jw_ok (device_ok_json b) \<and> jw_output (device_ok_json b) = confirm_text b"
  by (simp_all add: device_hello_json_def device_ok_json_def jw_all_def jw_new_def jw_fits kMaximumHandshakeFrameBytes_def)
    (simp_all add: greeting_text_def confirm_text_def ascii_def)

lemma encodeB64_sizes:
  "length x = 16 \<Longrightarrow> \<exists>t. encodeB64 x 23 = Some t \<and> length t = 22 \<and> decodeBase64Url (Some t) (Some 16) = Some x"
  "length z = 32 \<Longrightarrow> \<exists>t. encodeB64 z 44 = Some t \<and> length t = 43 \<and> decodeBase64Url (Some t) (Some 32) = Some z"
  by (simp_all add: encodeB64_def encodeBase64Url_eq base64UrlEncodedBytes_def length_b64_encode decodeBase64Url_eq b64_decode_encode)

subsection \<open>A handshake that succeeds\<close>

text \<open>The platform does its part: random bytes, digests and keys are delivered and messages are accepted.\<close>

definition env_works :: "'w BleEnv \<Rightarrow> bool" where
  "env_works E \<longleftrightarrow> (\<forall>n w. \<exists>r. fst (be_random E n w) = Some r \<and> length r = n) \<and> mac_sized (be_hmac E) \<and> (\<forall>key parts. be_hmac E key parts \<noteq> None)
     \<and> (\<forall>parts. be_sha E parts \<noteq> None) \<and> (\<forall>key salt info. be_hkdf E key salt info \<noteq> None)
     \<and> (\<forall>json w. fst (be_sendJson E json w)) \<and> (\<forall>b w. fst (be_setAuthenticated E b w))"

lemma env_results:
  assumes "env_works E"
  shows "\<exists>r. sys_random E n y = (Some r, y\<lparr>sy_world := snd (be_random E n (sy_world y))\<rparr>) \<and> length r = n \<and> fst (be_random E n (sy_world y)) = Some r"
    "\<exists>mac. be_hmac E key parts = Some mac \<and> length mac = 32"
    "sys_authenticated E b y = (True, y\<lparr>sy_world := snd (be_setAuthenticated E b (sy_world y))\<rparr>)"
    "jw_ok msg \<and> jw_output msg = out \<Longrightarrow> send_writer E msg y = (True, y\<lparr>sy_world := snd (be_sendJson E out (sy_world y))\<rparr>)"
    "\<exists>keys. deriveBleSessionKeys (be_sha E) (be_hkdf E) (Some root) (Some cn) (Some dn) = Inr keys"
proof -
  obtain r where "fst (be_random E n (sy_world y)) = Some r" "length r = n" using assms unfolding env_works_def by blast
  then show "\<exists>r. sys_random E n y = (Some r, y\<lparr>sy_world := snd (be_random E n (sy_world y))\<rparr>) \<and> length r = n \<and> fst (be_random E n (sy_world y)) = Some r"
    by (cases "be_random E n (sy_world y)") (auto simp: sys_random_def)
  have "be_hmac E key parts \<noteq> None" "mac_sized (be_hmac E)" using assms by (simp_all add: env_works_def)
  then show "\<exists>mac. be_hmac E key parts = Some mac \<and> length mac = 32" unfolding mac_sized_def by blast
  have "fst (be_setAuthenticated E b (sy_world y))" using assms unfolding env_works_def by blast
  then show "sys_authenticated E b y = (True, y\<lparr>sy_world := snd (be_setAuthenticated E b (sy_world y))\<rparr>)"
    by (cases "be_setAuthenticated E b (sy_world y)") (auto simp: sys_authenticated_def)
  have "fst (be_sendJson E out (sy_world y))" using assms unfolding env_works_def by blast
  then show "jw_ok msg \<and> jw_output msg = out \<Longrightarrow> send_writer E msg y = (True, y\<lparr>sy_world := snd (be_sendJson E out (sy_world y))\<rparr>)"
    by (cases "be_sendJson E out (sy_world y)") (auto simp: send_writer_def sys_sendJson_def)
  have total: "be_sha E p \<noteq> None" "be_hkdf E root x info \<noteq> None" for p x info using assms by (simp_all add: env_works_def)
  obtain s where s: "be_sha E [cn, dn] = Some s" using total(1) by blast
  obtain a where a: "be_hkdf E root s c2dInfo = Some a" using total(2) by blast
  obtain b where "be_hkdf E root s d2cInfo = Some b" using total(2) by blast
  with s a show "\<exists>keys. deriveBleSessionKeys (be_sha E) (be_hkdf E) (Some root) (Some cn) (Some dn) = Inr keys"
    by (simp add: deriveBleSessionKeys_def)
qed

lemma handshake_proof_works:
  assumes "env_works E" "role = ''device'' \<or> role = ''client'' \<or> role = ''ok''"
  shows "\<exists>mac. handshake_proof E role k = Some mac \<and> length mac = 32 \<and>
    be_hmac E (ss_controllerRoot k) (handshake_parts (ascii role) (ss_controllerId k) (ss_clientNonce k) (ss_deviceNonce k)) = Some mac"
proof -
  have "roleAllowed (Some (ascii role))" using assms(2) by (auto simp: roleAllowed_def)
  moreover obtain mac where "be_hmac E (ss_controllerRoot k) (handshake_parts (ascii role) (ss_controllerId k) (ss_clientNonce k) (ss_deviceNonce k))
      = Some mac" "length mac = 32" using env_results(2) [OF assms(1)] by blast
  ultimately show ?thesis by (simp add: handshake_proof_def makeHandshakeProof_def)
qed

text \<open>A base64url text carries the keyed digest that the given side owes for this handshake.\<close>

definition carries_proof :: "'w BleEnv \<Rightarrow> string \<Rightarrow> bytes \<Rightarrow> bytes \<Rightarrow> bytes \<Rightarrow> bytes \<Rightarrow> bytes \<Rightarrow> bool" where
  "carries_proof E side root cid cn dn text64 \<longleftrightarrow> (\<exists>mac. length mac = 32 \<and>
     be_hmac E root (handshake_parts (ascii side) cid cn dn) = Some mac \<and> decodeBase64Url (Some text64) (Some 32) = Some mac)"

lemma hello_works:
  assumes E: "env_works E" and hello: "hello_fields json = Some (cid, cn)" and stored: "findControllerRoot cid (sy_security y) = Some (root, role)"
  shows "\<exists>dn a b. length dn = 16 \<and> fst (be_random E 16 (sy_world y)) = Some dn \<and> decodeBase64Url (Some a) (Some 16) = Some dn \<and>
    carries_proof E ''device'' root cid cn dn b \<and> handleClientHello E json y = (True, y\<lparr>
      sy_world := snd (be_sendJson E (greeting_text a b) (snd (be_random E 16 (sy_world y)))), sy_session := (sy_session y)\<lparr>
      bs_secrets := (bs_secrets (sy_session y))\<lparr>ss_controllerId := cid, ss_clientNonce := cn, ss_controllerKnown := True,
         ss_controllerRoot := root, ss_controllerRole := role, ss_deviceNonce := dn\<rparr>, bs_state := AwaitingClientAuth\<rparr>\<rparr>)"
proof -
  define w where "w = snd (be_random E 16 (sy_world y))"
  obtain dn where r: "sys_random E 16 y = (Some dn, y\<lparr>sy_world := w\<rparr>)" "length dn = 16" "fst (be_random E 16 (sy_world y)) = Some dn"
    using env_results(1) [OF E] unfolding w_def by blast
  define k where "k = (bs_secrets (sy_session y))\<lparr>ss_controllerId := cid, ss_clientNonce := cn, ss_controllerKnown := True,
         ss_controllerRoot := root, ss_controllerRole := role, ss_deviceNonce := dn\<rparr>"
  obtain mac where mac: "handshake_proof E ''device'' k = Some mac" "length mac = 32"
    "be_hmac E root (handshake_parts (ascii ''device'') cid cn dn) = Some mac"
    using handshake_proof_works [OF E, of "''device''" k] by (auto simp: k_def)
  obtain a where a: "encodeB64 dn 23 = Some a" "length a = 22" "decodeBase64Url (Some a) (Some 16) = Some dn"
    using encodeB64_sizes(1) [OF r(2)] by blast
  obtain b where b: "encodeB64 mac 44 = Some b" "length b = 43" "decodeBase64Url (Some b) (Some 32) = Some mac"
    using encodeB64_sizes(2) [OF mac(2)] by blast
  define y1 where "y1 = y\<lparr>sy_world := w, sy_session := (sy_session y)\<lparr>bs_secrets := k\<rparr>\<rparr>"
  define w2 where "w2 = snd (be_sendJson E (greeting_text a b) w)"
  have s: "send_writer E (device_hello_json a b) y1 = (True, y1\<lparr>sy_world := w2\<rparr>)"
    using env_results(4) [OF E device_messages_fit(1) [OF a(2) b(2)], of y1] by (simp add: y1_def w2_def)
  have "handleClientHello E json y = (True, y\<lparr>sy_world := w2, sy_session := (sy_session y)\<lparr>bs_secrets := k, bs_state := AwaitingClientAuth\<rparr>\<rparr>)"
    using hello stored r mac a b s by (simp add: handleClientHello_def hello_root_def Let_def k_def y1_def)
  moreover have "carries_proof E ''device'' root cid cn dn b" using mac b by (auto simp: carries_proof_def)
  ultimately show ?thesis using r(2,3) a(3) unfolding k_def w2_def w_def by blast
qed

lemma auth_works:
  assumes E: "env_works E" and known: "ss_controllerKnown (bs_secrets (sy_session y))" and proof_sent: "auth_proof json = Some mac"
    and right: "be_hmac E (ss_controllerRoot (bs_secrets (sy_session y))) (handshake_parts (ascii ''client'') (ss_controllerId (bs_secrets (sy_session y)))
      (ss_clientNonce (bs_secrets (sy_session y))) (ss_deviceNonce (bs_secrets (sy_session y)))) = Some mac"
  shows "\<exists>c k. carries_proof E ''ok'' (ss_controllerRoot (bs_secrets (sy_session y))) (ss_controllerId (bs_secrets (sy_session y)))
        (ss_clientNonce (bs_secrets (sy_session y))) (ss_deviceNonce (bs_secrets (sy_session y))) c \<and>
      handleClientAuth E json y = (True, y\<lparr>sy_world := snd (be_sendJson E (confirm_text c) (snd (be_setAuthenticated E True (sy_world y)))), sy_session := (sy_session y)\<lparr>bs_secrets := k, bs_proofFailures := 0,
      bs_stateDeadline := 0, bs_state := Authenticated\<rparr>\<rparr>) \<and> ss_controllerId k = ss_controllerId (bs_secrets (sy_session y)) \<and>
      ss_controllerRole k = ss_controllerRole (bs_secrets (sy_session y)) \<and> ss_expectedClientSequence k = 1 \<and> ss_nextDeviceSequence k = 1"
proof -
  define k0 where "k0 = bs_secrets (sy_session y)"
  obtain mac1 where m1: "handshake_proof E ''client'' k0 = Some mac1" "be_hmac E (ss_controllerRoot k0) (handshake_parts (ascii ''client'')
      (ss_controllerId k0) (ss_clientNonce k0) (ss_deviceNonce k0)) = Some mac1" using handshake_proof_works [OF E, of "''client''" k0] by blast
  have "mac1 = mac" using m1(2) right by (simp add: k0_def)
  then have eq: "constantTimeEqual mac1 mac" using constantTimeEqual_iff by blast
  obtain c2d d2c where keys: "deriveBleSessionKeys (be_sha E) (be_hkdf E) (Some (ss_controllerRoot k0)) (Some (ss_clientNonce k0))
      (Some (ss_deviceNonce k0)) = Inr (c2d, d2c)" using env_results(5) [OF E] by (metis surj_pair)
  define k1 where "k1 = k0\<lparr>ss_clientToDeviceKey := c2d, ss_deviceToClientKey := d2c\<rparr>"
  obtain okp where okp: "handshake_proof E ''ok'' k1 = Some okp" "length okp = 32" "be_hmac E (ss_controllerRoot k0) (handshake_parts (ascii ''ok'')
      (ss_controllerId k0) (ss_clientNonce k0) (ss_deviceNonce k0)) = Some okp"
    using handshake_proof_works [OF E, of "''ok''" k1] by (auto simp: k1_def)
  obtain b where b: "encodeB64 okp 44 = Some b" "length b = 43" "decodeBase64Url (Some b) (Some 32) = Some okp"
    using encodeB64_sizes(2) [OF okp(2)] by blast
  define y1 where "y1 = y\<lparr>sy_session := (sy_session y)\<lparr>bs_secrets := k1\<rparr>\<rparr>"
  define w1 where "w1 = snd (be_setAuthenticated E True (sy_world y))"
  define w2 where "w2 = snd (be_sendJson E (confirm_text b) w1)"
  have w1: "sys_authenticated E True y1 = (True, y1\<lparr>sy_world := w1\<rparr>)" using env_results(3) [OF E, of True y1] by (simp add: y1_def w1_def)
  have w2: "send_writer E (device_ok_json b) (y1\<lparr>sy_world := w1\<rparr>) = (True, (y1\<lparr>sy_world := w1\<rparr>)\<lparr>sy_world := w2\<rparr>)"
    using env_results(4) [OF E device_messages_fit(2) [OF b(2)], of "y1\<lparr>sy_world := w1\<rparr>"] by (simp add: w2_def)
  define k where "k = k1\<lparr>ss_controllerRoot := replicate 32 0, ss_expectedClientSequence := 1, ss_nextDeviceSequence := 1\<rparr>"
  have "handleClientAuth E json y = (True, y\<lparr>sy_world := w2, sy_session := (sy_session y)\<lparr>bs_secrets := k, bs_proofFailures := 0,
      bs_stateDeadline := 0, bs_state := Authenticated\<rparr>\<rparr>)"
    using proof_sent known m1(1) eq keys okp b w1 w2
    by (simp add: handleClientAuth_def Let_def k_def k0_def [symmetric] k1_def [symmetric] y1_def)
  moreover have "ss_controllerId k = ss_controllerId k0" "ss_controllerRole k = ss_controllerRole k0" "ss_expectedClientSequence k = 1" "ss_nextDeviceSequence k = 1"
    by (simp_all add: k_def k1_def)
  moreover have "carries_proof E ''ok'' (ss_controllerRoot k0) (ss_controllerId k0) (ss_clientNonce k0) (ss_deviceNonce k0) b"
    using okp b by (auto simp: carries_proof_def)
  ultimately show ?thesis unfolding k0_def w2_def w1_def by blast
qed

lemma hello_fields_form:
  assumes "hello_fields json = Some x"
  shows "\<exists>fs. parseFlatObject (Some json) = Some fs \<and> validVersion fs \<and> stringFieldEquals fs ''type'' ''client_hello''" "json \<noteq> []"
  using assms by (auto simp: hello_fields_def parseFlatObject_def split: option.splits if_splits)

lemma auth_proof_nonempty: "auth_proof json = Some x \<Longrightarrow> json \<noteq> []"
  by (auto simp: auth_proof_def parseFlatObject_def split: option.splits if_splits)

lemma dispatch_frame:
  assumes "bs_begun (sy_session y)" "secure_link (sy_session y)" "json \<noteq> []" "\<not> deadlineReached now (bs_stateDeadline (sy_session y))"
    "frame_dispatch E json now y = (True, y')"
  shows "onFrame E (Some json) now y = Some y'"
  using assms by (simp add: onFrame_def Let_def)

lemma hello_frame:
  assumes E: "env_works E" and session: "bs_begun (sy_session y)" "secure_link (sy_session y)" "bs_state (sy_session y) = AwaitingHello"
      "\<not> deadlineReached now (bs_stateDeadline (sy_session y))"
    and hello: "hello_fields json = Some (cid, cn)" and stored: "findControllerRoot cid (sy_security y) = Some (root, role)"
  shows "\<exists>dn a b. length dn = 16 \<and> fst (be_random E 16 (sy_world y)) = Some dn \<and> decodeBase64Url (Some a) (Some 16) = Some dn \<and>
    carries_proof E ''device'' root cid cn dn b \<and> onFrame E (Some json) now y = Some (y\<lparr>
      sy_world := snd (be_sendJson E (greeting_text a b) (snd (be_random E 16 (sy_world y)))), sy_session := (sy_session y)\<lparr>
      bs_secrets := (bs_secrets (sy_session y))\<lparr>ss_controllerId := cid, ss_clientNonce := cn, ss_controllerKnown := True,
         ss_controllerRoot := root, ss_controllerRole := role, ss_deviceNonce := dn\<rparr>, bs_state := AwaitingClientAuth\<rparr>\<rparr>)"
proof -
  obtain fs where fs: "parseFlatObject (Some json) = Some fs" "validVersion fs" "stringFieldEquals fs ''type'' ''client_hello''" "json \<noteq> []"
    using hello_fields_form [OF hello] by blast
  then have "frame_dispatch E json now y = handleClientHello E json y" using session by (simp add: frame_dispatch_def hello_dispatch_def)
  then show ?thesis using hello_works [OF E hello stored] dispatch_frame [OF session(1,2) fs(4) session(4), of E] by metis
qed

lemma auth_frame:
  assumes E: "env_works E" and session: "bs_begun (sy_session y)" "secure_link (sy_session y)" "bs_state (sy_session y) = AwaitingClientAuth"
      "\<not> deadlineReached now (bs_stateDeadline (sy_session y))"
    and known: "ss_controllerKnown (bs_secrets (sy_session y))" and proof_sent: "auth_proof json = Some mac"
    and right: "be_hmac E (ss_controllerRoot (bs_secrets (sy_session y))) (handshake_parts (ascii ''client'') (ss_controllerId (bs_secrets (sy_session y)))
      (ss_clientNonce (bs_secrets (sy_session y))) (ss_deviceNonce (bs_secrets (sy_session y)))) = Some mac"
  shows "\<exists>c k. carries_proof E ''ok'' (ss_controllerRoot (bs_secrets (sy_session y))) (ss_controllerId (bs_secrets (sy_session y)))
        (ss_clientNonce (bs_secrets (sy_session y))) (ss_deviceNonce (bs_secrets (sy_session y))) c \<and>
      onFrame E (Some json) now y = Some (y\<lparr>sy_world := snd (be_sendJson E (confirm_text c) (snd (be_setAuthenticated E True (sy_world y)))), sy_session := (sy_session y)\<lparr>bs_secrets := k, bs_proofFailures := 0,
      bs_stateDeadline := 0, bs_state := Authenticated\<rparr>\<rparr>) \<and> ss_controllerId k = ss_controllerId (bs_secrets (sy_session y)) \<and>
      ss_controllerRole k = ss_controllerRole (bs_secrets (sy_session y)) \<and> ss_expectedClientSequence k = 1 \<and> ss_nextDeviceSequence k = 1"
proof -
  have "frame_dispatch E json now y = handleClientAuth E json y" using session by (simp add: frame_dispatch_def)
  then show ?thesis
    using auth_works [OF E known proof_sent right] dispatch_frame [OF session(1,2) auth_proof_nonempty [OF proof_sent] session(4), of E] by metis
qed

text \<open>
  C9. A handshake succeeds.  On a secure link, before the deadline and with a platform that does its part, the greeting of
  a stored controller is answered by exactly one message, \<^verbatim>\<open>device_hello\<close> with the fresh random device nonce and the
  device's keyed digest under the stored root over both nonces; and a client proof under that root over the nonces of both
  sides, also before the deadline, makes the transport authenticated, is answered by exactly \<^verbatim>\<open>device_ok\<close> with the digest
  for that side, and makes the session authenticated with the stored role and resets the failures.
\<close>

theorem handshake_succeeds:
  assumes E: "env_works E" and session: "bs_begun (sy_session y)" "secure_link (sy_session y)" "bs_state (sy_session y) = AwaitingHello"
      "\<not> deadlineReached now (bs_stateDeadline (sy_session y))"
    and hello: "hello_fields json = Some (cid, cn)" and stored: "findControllerRoot cid (sy_security y) = Some (root, role)"
  shows "\<exists>y1 dn a b. onFrame E (Some json) now y = Some y1 \<and> bs_state (sy_session y1) = AwaitingClientAuth \<and>
    fst (be_random E 16 (sy_world y)) = Some dn \<and> length dn = 16 \<and> decodeBase64Url (Some a) (Some 16) = Some dn \<and>
    carries_proof E ''device'' root cid cn dn b \<and>
    sy_world y1 = snd (be_sendJson E (greeting_text a b) (snd (be_random E 16 (sy_world y)))) \<and>
    (\<forall>reply mac later. auth_proof reply = Some mac \<and> be_hmac E root (handshake_parts (ascii ''client'') cid cn dn) = Some mac \<and>
       \<not> deadlineReached later (bs_stateDeadline (sy_session y)) \<longrightarrow>
       (\<exists>y2 c. onFrame E (Some reply) later y1 = Some y2 \<and> bs_state (sy_session y2) = Authenticated \<and>
          carries_proof E ''ok'' root cid cn dn c \<and>
          sy_world y2 = snd (be_sendJson E (confirm_text c) (snd (be_setAuthenticated E True (sy_world y1)))) \<and>
          ss_controllerId (bs_secrets (sy_session y2)) = cid \<and> ss_controllerRole (bs_secrets (sy_session y2)) = role \<and>
          ss_expectedClientSequence (bs_secrets (sy_session y2)) = 1 \<and> bs_proofFailures (sy_session y2) = 0))"
proof -
  from hello_frame [OF assms] obtain dn a b where dn: "length dn = 16" "fst (be_random E 16 (sy_world y)) = Some dn"
      "decodeBase64Url (Some a) (Some 16) = Some dn" "carries_proof E ''device'' root cid cn dn b"
    and f: "onFrame E (Some json) now y = Some (y\<lparr>sy_world := snd (be_sendJson E (greeting_text a b) (snd (be_random E 16 (sy_world y)))),
      sy_session := (sy_session y)\<lparr>bs_secrets := (bs_secrets (sy_session y))\<lparr>ss_controllerId := cid, ss_clientNonce := cn, ss_controllerKnown := True,
         ss_controllerRoot := root, ss_controllerRole := role, ss_deviceNonce := dn\<rparr>, bs_state := AwaitingClientAuth\<rparr>\<rparr>)" (is "_ = Some ?y1") by blast
  have s1: "bs_begun (sy_session ?y1)" "secure_link (sy_session ?y1)" "bs_state (sy_session ?y1) = AwaitingClientAuth"
    "bs_stateDeadline (sy_session ?y1) = bs_stateDeadline (sy_session y)" "ss_controllerKnown (bs_secrets (sy_session ?y1))"
    using session by (simp_all add: secure_link_def)
  have second: "\<exists>y2 c. onFrame E (Some reply) later ?y1 = Some y2 \<and> bs_state (sy_session y2) = Authenticated \<and>
          carries_proof E ''ok'' root cid cn dn c \<and>
          sy_world y2 = snd (be_sendJson E (confirm_text c) (snd (be_setAuthenticated E True (sy_world ?y1)))) \<and>
          ss_controllerId (bs_secrets (sy_session y2)) = cid \<and> ss_controllerRole (bs_secrets (sy_session y2)) = role \<and>
          ss_expectedClientSequence (bs_secrets (sy_session y2)) = 1 \<and> bs_proofFailures (sy_session y2) = 0"
    if "auth_proof reply = Some mac" "be_hmac E root (handshake_parts (ascii ''client'') cid cn dn) = Some mac"
       "\<not> deadlineReached later (bs_stateDeadline (sy_session y))" for reply mac later
    using auth_frame [OF E s1(1-3) _ s1(5) that(1), of later] that(2,3) by auto
  show ?thesis
    by (rule exI [of _ ?y1], rule exI [of _ dn], rule exI [of _ a], rule exI [of _ b]) (use f dn s1(3) second in simp)
qed

subsection \<open>A concrete session\<close>

definition link_env :: "nat BleEnv" where
  "link_env = \<lparr>be_storage = \<lparr>st_read = (\<lambda>slot w. (Some [], w)), st_write = (\<lambda>slot v w. (False, w)), st_clear = (\<lambda>slot w. (True, w))\<rparr>,
     be_platform = \<lparr>sp_reflashable = True, sp_derive = (\<lambda>hid. Some hid), sp_random = (\<lambda>n w. (Some (replicate n 7), w)),
       sp_seal = (\<lambda>k g n p. None), sp_open = (\<lambda>k g n c t. None), sp_hkdf = (\<lambda>k s i n. None)\<rparr>,
     be_hmac = demo_hmac, be_sha = (\<lambda>p. Some (replicate 32 2)), be_hkdf = (\<lambda>k s i. Some (replicate 32 3)),
     be_random = (\<lambda>n w. (Some (replicate n 4), w)), be_sendJson = (\<lambda>j w. (True, w)), be_setAuthenticated = (\<lambda>b w. (True, w)),
     be_transmitIdle = (\<lambda>w. True), be_disconnect = (\<lambda>c w. w), be_handleRequest = (\<lambda>r q p w. ((True, [123, 125]), Suc w))\<rparr>"

definition demo_controller :: Controller where
  "demo_controller = \<lparr>ct_valid = True, ct_role = RoleOwner, ct_id = replicate 16 5, ct_root = replicate 32 6\<rparr>"

definition demo_security :: DeviceSecurity where
  "demo_security = dv_clear\<lparr>dv_begun := True, dv_count := 1, dv_material := material0\<lparr>mt_controllers := demo_controller # replicate 3 controller0\<rparr>\<rparr>"

definition demo_hello :: bytes where
  "demo_hello = ascii ''{\"v\":1,\"type\":\"client_hello\",\"controller_id_b64\":\"BQUFBQUFBQUFBQUFBQUFBQ\",\"client_nonce_b64\":\"BQUFBQUFBQUFBQUFBQUFBQ\"}''"

definition demo_reply :: bytes where
  "demo_reply = ascii ''{\"v\":1,\"type\":\"client_auth\",\"proof_b64\":\"BwcHBwcHBwcHBwcHBwcHBwcHBwcHBwcHBwcHBwcHBwc\"}''"

definition demo_uid :: bytes where "demo_uid = ascii ''KT0A1B'' @ [0]"

abbreviation (input) demo_time :: u32 where "demo_time \<equiv> 0x80000000"

definition demo_begun :: "nat BleSys" where
  "demo_begun = \<lparr>sy_session = session0\<lparr>bs_deviceUid := demo_uid, bs_begun := True\<rparr>, sy_security = demo_security, sy_world = 0\<rparr>"

definition demo_linked :: "nat BleSys" where
  "demo_linked = onSecureLinkEstablished link_env True True True True demo_time demo_begun"

lemma demo_frames: "hello_fields demo_hello = Some (replicate 16 5, replicate 16 5)" "auth_proof demo_reply = Some (replicate 32 7)"
  by code_simp+

lemma demo_sized: "mac_sized (be_hmac link_env)"
  by (auto simp: mac_sized_def link_env_def demo_hmac_def)

lemma demo_works: "env_works link_env"
  using demo_sized by (simp add: env_works_def) (simp add: link_env_def demo_hmac_def)

lemma demo_stored: "findControllerRoot (replicate 16 5) demo_security = Some (replicate 32 6, RoleOwner)"
  by code_simp

lemma demo_linked_state:
  "bs_begun (sy_session demo_linked)" "secure_link (sy_session demo_linked)" "bs_state (sy_session demo_linked) = AwaitingHello"
  "sy_security demo_linked = demo_security" "\<not> deadlineReached demo_time (bs_stateDeadline (sy_session demo_linked))"
  "bs_windowOpen (sy_session demo_linked) = False" "bs_backoffUntil (sy_session demo_linked) = 0"
  by code_simp+

lemma demo_linked_reach: "ses_reach link_env \<lparr>hi_frames = {}, hi_stored = {}, hi_granted = {}\<rparr> demo_linked"
proof -
  have "session_begin (Some demo_uid) (demo_begun\<lparr>sy_session := session0\<rparr>) = (True, demo_begun)" by code_simp
  then show ?thesis unfolding demo_linked_def by (intro ses_link ses_start) auto
qed

text \<open>The session after a handshake.\<close>

lemma demo_authenticated:
  "\<exists>h y. ses_reach link_env h y \<and> bs_begun (sy_session y) \<and> secure_link (sy_session y) \<and> bs_state (sy_session y) = Authenticated \<and>
     sy_security y = demo_security \<and> ss_controllerRole (bs_secrets (sy_session y)) = RoleOwner \<and> bs_proofFailures (sy_session y) = 0 \<and>
     ss_controllerId (bs_secrets (sy_session y)) = replicate 16 5 \<and> ss_expectedClientSequence (bs_secrets (sy_session y)) = 1 \<and>
     ss_nextDeviceSequence (bs_secrets (sy_session y)) = 1"
proof -
  note d = demo_linked_state
  have st: "findControllerRoot (replicate 16 5) (sy_security demo_linked) = Some (replicate 32 6, RoleOwner)" using demo_stored d(4) by simp
  from hello_frame [OF demo_works d(1-3,5) demo_frames(1) st] obtain w dn where f: "onFrame link_env (Some demo_hello) demo_time demo_linked
      = Some (demo_linked\<lparr>sy_world := w, sy_session := (sy_session demo_linked)\<lparr>bs_secrets := (bs_secrets (sy_session demo_linked))
        \<lparr>ss_controllerId := replicate 16 5, ss_clientNonce := replicate 16 5, ss_controllerKnown := True,
         ss_controllerRoot := replicate 32 6, ss_controllerRole := RoleOwner, ss_deviceNonce := dn\<rparr>, bs_state := AwaitingClientAuth\<rparr>\<rparr>)" (is "_ = Some ?y1")
    by blast
  note r1 = ses_frame [OF demo_linked_reach f]
  have s1: "bs_begun (sy_session ?y1)" "secure_link (sy_session ?y1)" "bs_state (sy_session ?y1) = AwaitingClientAuth"
    "\<not> deadlineReached demo_time (bs_stateDeadline (sy_session ?y1))" "ss_controllerKnown (bs_secrets (sy_session ?y1))" "sy_security ?y1 = demo_security"
    using d by (simp_all add: secure_link_def)
  have mac: "be_hmac link_env key parts = Some (replicate 32 7)" for key parts by (simp add: link_env_def demo_hmac_def)
  from auth_frame [OF demo_works s1(1-5) demo_frames(2) mac] obtain w2 k where g: "onFrame link_env (Some demo_reply) demo_time ?y1 = Some (?y1\<lparr>sy_world := w2,
      sy_session := (sy_session ?y1)\<lparr>bs_secrets := k, bs_proofFailures := 0, bs_stateDeadline := 0, bs_state := Authenticated\<rparr>\<rparr>)"
      "ss_controllerId k = replicate 16 5" "ss_controllerRole k = RoleOwner" "ss_expectedClientSequence k = 1" "ss_nextDeviceSequence k = 1" by auto
  show ?thesis by (intro exI conjI, rule ses_frame [OF r1 g(1)]) (use g s1 in \<open>simp_all add: secure_link_def\<close>)
qed

definition link_request :: "string \<Rightarrow> bytes" where
  "link_request op = object_text (envelope_values ChannelRequest 1 (replicate 16 1) (replicate 16 2) (ascii op) [123, 125] (replicate 32 7)) cCloseBrace"

definition demo_decoded :: "string \<Rightarrow> DecodedEnvelope" where
  "demo_decoded op = \<lparr>de_version = 1, de_channel = ChannelRequest, de_sequence = 1, de_nonce = replicate 16 1, de_requestId = replicate 16 2,
     de_operation = ascii op, de_payloadBytes = 2\<rparr>"

lemma demo_payload: "validUtf8 (Some [123, 125])" "js_valid [123, 125]"
  by code_simp (simp add: js_valid_def skipWhitespace_def json_ws_def js_value.simps js_object.simps)

lemma link_request_served:
  assumes "operationValid (Some (ascii op))" "request_authorized RoleOwner (demo_decoded op) [123, 125]"
    and s: "ss_controllerRole (bs_secrets s) = RoleOwner" "ss_expectedClientSequence (bs_secrets s) = 1"
  shows "session_request link_env (link_request op) s = Some (demo_decoded op, [123, 125])" "link_request op \<noteq> []"
proof -
  have "decodeAndVerifyEnvelope demo_hmac (Some (link_request op)) (Some (ss_clientToDeviceKey (bs_secrets s))) ChannelRequest 1
      (Some kMaximumEnvelopePayloadBytes) = Inr (demo_decoded op, [123, 125])"
    unfolding link_request_def demo_decoded_def using assms(1) demo_payload
    by (subst decode_object) (simp_all add: demo_hmac_def kMaximumEnvelopePayloadBytes_def)
  then show "session_request link_env (link_request op) s = Some (demo_decoded op, [123, 125])"
    using assms(2) s by (simp add: session_request_def link_env_def)
  show "link_request op \<noteq> []" by (simp add: link_request_def object_text_def)
qed

lemma demo_operations:
  "operationValid (Some (ascii ''state.get''))" "request_authorized RoleOwner (demo_decoded ''state.get'') [123, 125]"
  "operationValid (Some (ascii ''controller.forget''))" "request_authorized RoleOwner (demo_decoded ''controller.forget'') [123, 125]"
  by code_simp+

lemma demo_response:
  assumes "length nonce = 16" "n \<noteq> 0"
  shows "\<exists>out. encodeEnvelope demo_hmac ChannelResponse n (Some nonce) (Some (replicate 16 2)) (Some (ascii ''state.get'')) (Some [123, 125])
    (Some key) (Some kMaximumFrameBytes) = Inr out"
proof -
  let ?op = "ascii ''state.get''"
  have t: "take (stringLengthBounded (Some ?op) kMaximumOperationBytes) ?op = ?op" by code_simp
  have "base64UrlEncodedBytes 16 = 22" "base64UrlEncodedBytes 32 = 43" "base64UrlEncodedBytes (Suc (Suc 0)) = 3" by code_simp+
  then have "length (object_text (envelope_values ChannelResponse n nonce (replicate 16 2) ?op [123, 125] (replicate 32 7)) cCloseBrace) \<le> kMaximumFrameBytes"
    using formatDecimal_digits(2) [of n] assms(1) by (simp add: length_object_text kMaximumFrameBytes_def)
  then show ?thesis
    unfolding encodeEnvelope_def Let_def option.sel t
    using demo_payload demo_operations(1) assms(2) by (simp add: calculateEnvelopeMac_def demo_hmac_def envelope_written Let_def envelope_consts)
qed

abbreviation (input) demo_delegate :: "(nat \<Rightarrow> nat) \<Rightarrow> ControllerRole \<Rightarrow> DecodedEnvelope \<Rightarrow> bytes \<Rightarrow> nat \<Rightarrow> (bool \<times> bytes) \<times> nat" where
  "demo_delegate f \<equiv> (\<lambda>r q p w. ((True, [123, 125]), f w))"

lemma demo_serves:
  assumes y: "bs_begun (sy_session y)" "secure_link (sy_session y)" "bs_state (sy_session y) = Authenticated"
    "ss_controllerRole (bs_secrets (sy_session y)) = RoleOwner" "ss_expectedClientSequence (bs_secrets (sy_session y)) = 1"
    "ss_nextDeviceSequence (bs_secrets (sy_session y)) = 1"
  shows "\<exists>y1. onFrame (other_delegate link_env (demo_delegate f)) (Some (link_request ''state.get'')) now y = Some y1 \<and> sy_world y1 = f (sy_world y) \<and>
    bs_state (sy_session y1) = Authenticated \<and> bs_begun (sy_session y1) \<and> secure_link (sy_session y1)"
proof -
  note r = link_request_served [OF demo_operations(1,2) y(4,5)]
  have key: "ascii ''state.get'' \<noteq> ascii ''controller.forget''" by code_simp
  have rnd: "sys_random link_env 16 z = (Some (replicate 16 4), z)" for z by (simp add: sys_random_def link_env_def)
  have snd: "sys_sendJson link_env j z = (True, z)" for j z by (simp add: sys_sendJson_def link_env_def)
  have hm: "be_hmac link_env = demo_hmac" by (simp add: link_env_def)
  define k where "k = (bs_secrets (sy_session y))\<lparr>ss_expectedClientSequence := 2\<rparr>"
  obtain out where out: "encodeEnvelope demo_hmac ChannelResponse 1 (Some (replicate 16 4)) (Some (replicate 16 2)) (Some (ascii ''state.get''))
      (Some [123, 125]) (Some (ss_deviceToClientKey k)) (Some kMaximumFrameBytes) = Inr out" using demo_response [of "replicate 16 4" 1] by auto
  have "handleAuthenticatedEnvelope (other_delegate link_env (demo_delegate f)) (link_request ''state.get'') now y =
      (True, y\<lparr>sy_world := f (sy_world y), sy_session := (sy_session y)\<lparr>bs_secrets := k\<lparr>ss_nextDeviceSequence := 2, ss_barrier := True\<rparr>\<rparr>\<rparr>)"
    using r y key out unfolding handleAuthenticatedEnvelope_def handle_request_def delegate_fail sendAuthenticated_def
    by (simp add: Let_def demo_decoded_def rnd snd hm k_def kMaximumEnvelopePayloadBytes_def)
  then show ?thesis
    using y r(2) by (simp add: onFrame_def Let_def frame_dispatch_def secure_link_def)
qed

lemma link_env_delegate: "link_env = other_delegate link_env (demo_delegate Suc)"
  by (simp add: link_env_def)

theorem handshake_succeeds_witness:
  "\<exists>y1 y2. onFrame link_env (Some demo_hello) demo_time demo_linked = Some y1 \<and> onFrame link_env (Some demo_reply) demo_time y1 = Some y2 \<and>
     bs_state (sy_session y2) = Authenticated \<and> ss_controllerRole (bs_secrets (sy_session y2)) = RoleOwner"
proof -
  note d = demo_linked_state
  have st: "findControllerRoot (replicate 16 5) (sy_security demo_linked) = Some (replicate 32 6, RoleOwner)" using demo_stored d(4) by simp
  have mac: "be_hmac link_env key parts = Some (replicate 32 7)" for key parts by (simp add: link_env_def demo_hmac_def)
  note works = handshake_succeeds [OF demo_works d(1-3,5) demo_frames(1) st]
  from works obtain y1 where y1: "onFrame link_env (Some demo_hello) demo_time demo_linked = Some y1" by blast
  moreover have "\<exists>y2. onFrame link_env (Some demo_reply) demo_time y1 = Some y2 \<and> bs_state (sy_session y2) = Authenticated \<and>
      ss_controllerRole (bs_secrets (sy_session y2)) = RoleOwner"
    using works demo_frames(2) d(5) unfolding y1 mac by blast
  ultimately show ?thesis by blast
qed

theorem authenticated_session_proved_witness:
  "\<exists>h y. ses_reach link_env h y \<and> bs_state (sy_session y) = Authenticated \<and> secure_link (sy_session y) \<and>
     (\<exists>json proof. json \<in> hi_frames h \<and> auth_proof json = Some proof)"
proof -
  obtain h y where y: "ses_reach link_env h y" "bs_state (sy_session y) = Authenticated" using demo_authenticated by blast
  from authenticated_session_proved [OF y(1) demo_sized y(2)] y show ?thesis unfolding Let_def by blast
qed

theorem delegate_only_authorized_witness:
  "\<exists>h y. ses_reach link_env h y \<and> onFrame (other_delegate link_env (demo_delegate id)) (Some (link_request ''state.get'')) demo_time y
       \<noteq> onFrame link_env (Some (link_request ''state.get'')) demo_time y \<and> bs_state (sy_session y) = Authenticated"
proof -
  obtain h y where y: "ses_reach link_env h y" "bs_begun (sy_session y)" "secure_link (sy_session y)" "bs_state (sy_session y) = Authenticated"
    "ss_controllerRole (bs_secrets (sy_session y)) = RoleOwner" "ss_expectedClientSequence (bs_secrets (sy_session y)) = 1"
    "ss_nextDeviceSequence (bs_secrets (sy_session y)) = 1" using demo_authenticated by blast
  obtain y1 where y1: "onFrame (other_delegate link_env (demo_delegate id)) (Some (link_request ''state.get'')) demo_time y = Some y1" "sy_world y1 = sy_world y"
    using demo_serves [OF y(2-7), of id demo_time] by auto
  obtain y2 where y2: "onFrame link_env (Some (link_request ''state.get'')) demo_time y = Some y2" "sy_world y2 = Suc (sy_world y)"
    using demo_serves [OF y(2-7), of Suc demo_time] unfolding link_env_delegate [symmetric] by auto
  have "y1 \<noteq> y2" using y1(2) y2(2) by auto
  then have ne: "onFrame (other_delegate link_env (demo_delegate id)) (Some (link_request ''state.get'')) demo_time y
       \<noteq> onFrame link_env (Some (link_request ''state.get'')) demo_time y" using y1(1) y2(1) by simp
  from delegate_only_authorized [OF y(1) demo_sized ne] y(1) ne show ?thesis unfolding Let_def by blast
qed

theorem replayed_frame_closes_witness:
  "\<exists>h y y1 z1. ses_reach link_env h y \<and> onFrame link_env (Some (link_request ''state.get'')) demo_time y = Some y1 \<and>
     bs_state (sy_session y1) = Authenticated \<and> onFrame link_env (Some (link_request ''state.get'')) demo_time y1 = Some z1 \<and>
     bs_state (sy_session z1) = Closing"
proof -
  obtain h y where y: "ses_reach link_env h y" "bs_begun (sy_session y)" "secure_link (sy_session y)" "bs_state (sy_session y) = Authenticated"
    "ss_controllerRole (bs_secrets (sy_session y)) = RoleOwner" "ss_expectedClientSequence (bs_secrets (sy_session y)) = 1"
    "ss_nextDeviceSequence (bs_secrets (sy_session y)) = 1" using demo_authenticated by blast
  obtain y1 where y1: "onFrame link_env (Some (link_request ''state.get'')) demo_time y = Some y1" "bs_state (sy_session y1) = Authenticated"
    "bs_begun (sy_session y1)" "secure_link (sy_session y1)"
    using demo_serves [OF y(2-7), of Suc demo_time] unfolding link_env_delegate [symmetric] by auto
  from replayed_frame_closes [OF y(4) y1(1,2) cont_now y1(3,4) link_request_served(2) [OF demo_operations(1,2) y(5,6)]] y(1) y1(1,2) show ?thesis by blast
qed

lemma demo_forget:
  assumes y: "bs_begun (sy_session y)" "secure_link (sy_session y)" "bs_state (sy_session y) = Authenticated"
    "ss_controllerRole (bs_secrets (sy_session y)) = RoleOwner" "ss_expectedClientSequence (bs_secrets (sy_session y)) = 1"
    and sec: "revokeAuthenticatedController (be_storage link_env) (be_platform link_env) (Some (ss_controllerId (bs_secrets (sy_session y))))
       (sy_security y) (sy_world y) = (q, sec, w)"
  shows "\<exists>y'. onFrame link_env (Some (link_request ''controller.forget'')) now y = Some y' \<and> sy_security y' = sec"
proof -
  note r = link_request_served [OF demo_operations(3,4) y(4,5)]
  have p: "ascii ''{}'' = [123, 125]" by code_simp
  obtain ok y1 where h: "handleAuthenticatedEnvelope link_env (link_request ''controller.forget'') now y = (ok, y1)"
    by (cases "handleAuthenticatedEnvelope link_env (link_request ''controller.forget'') now y")
  have "sy_security y1 = sec"
    using h r(1) sec p by (auto simp: handleAuthenticatedEnvelope_def handle_forget_def Let_def demo_decoded_def failAndClose_session split: session_splits
        dest!: sendAuthenticated_spec(1))
  then show ?thesis using h y r(2) by (auto simp: onFrame_def Let_def frame_dispatch_def failProof_session)
qed

theorem store_changed_by_frame_witness:
  "\<exists>h y y'. ses_reach link_env h y \<and> onFrame link_env (Some (link_request ''controller.forget'')) demo_time y = Some y' \<and>
     sy_security y' \<noteq> sy_security y \<and> secure_link (sy_session y)"
proof -
  obtain h y0 where y0: "ses_reach link_env h y0" "bs_begun (sy_session y0)" "secure_link (sy_session y0)" "bs_state (sy_session y0) = Authenticated"
    "ss_controllerRole (bs_secrets (sy_session y0)) = RoleOwner" "ss_expectedClientSequence (bs_secrets (sy_session y0)) = 1"
    "ss_controllerId (bs_secrets (sy_session y0)) = replicate 16 5" using demo_authenticated by blast
  define s where "s = demo_security\<lparr>dv_material := material0\<rparr>"
  define y where "y = y0\<lparr>sy_security := s, sy_world := 0\<rparr>"
  have r: "ses_reach link_env h y" unfolding y_def by (rule ses_other [OF y0(1)])
  have "controller_index (replicate 16 5) material0 = None" by code_simp
  then have rev: "revokeAuthenticatedController (be_storage link_env) (be_platform link_env) (Some (ss_controllerId (bs_secrets (sy_session y))))
      (sy_security y) (sy_world y) = (ControllerNotProvisioned, s\<lparr>dv_last := ControllerNotProvisioned\<rparr>, 0)"
    using y0(7) by (simp add: y_def s_def demo_security_def revokeAuthenticatedController_def revokeController_def resume_retirement_def material0_def Let_def)
  obtain y' where y': "onFrame link_env (Some (link_request ''controller.forget'')) demo_time y = Some y'" "sy_security y' = s\<lparr>dv_last := ControllerNotProvisioned\<rparr>"
    using demo_forget [OF _ _ _ _ _ rev] y0 by (auto simp: y_def)
  have "dv_last s = NotBegun" by (simp add: s_def demo_security_def dv_clear_def)
  then have ne: "sy_security y' \<noteq> sy_security y" using y'(2) by (auto simp: y_def dest: arg_cong [where f = dv_last])
  from store_changed_by_frame [OF r demo_sized y'(1) ne] r y'(1) ne show ?thesis by blast
qed

theorem lockout_holds_witness:
  "let y = upd_session (\<lambda>s. s\<lparr>bs_proofFailures := 2\<rparr>) demo_linked;
       z = onSecureLinkEstablished link_env True True True True (demo_time + 5) (upd_session (onLinkClosed demo_time) (failProof link_env demo_time y)) in
     bs_state (sy_session z) = Closing \<or> bs_state (sy_session z) = Backoff"
proof -
  define y where "y = upd_session (\<lambda>s. s\<lparr>bs_proofFailures := 2\<rparr>) demo_linked"
  have f: "bs_begun (sy_session y)" "kBleMaximumProofFailures \<le> more_failures (bs_proofFailures (sy_session y))" "demo_time + kBleControllerBackoffMs \<noteq> 0"
    "in_backoff (demo_time + 5) (upd_session (onLinkClosed demo_time) (failProof link_env demo_time y))"
    unfolding y_def by code_simp+
  have "locked_run link_env (failProof link_env demo_time y)
      (onSecureLinkEstablished link_env True True True True (demo_time + 5) (upd_session (onLinkClosed demo_time) (failProof link_env demo_time y)))"
    by (intro lock_link lock_closed lock_now f(4))
  from lockout_holds [OF f(1-3) this] show ?thesis by (simp add: y_def)
qed

theorem backoff_left_by_frame_witness:
  "\<exists>h y y'. ses_reach link_env h y \<and> bs_state (sy_session y) = Backoff \<and> onFrame link_env (Some [1]) (demo_time + 5) y = Some y' \<and>
     bs_state (sy_session y') = AwaitingHello \<and> bs_backoffUntil (sy_session y') \<noteq> 0 \<and> \<not> deadlineReached (demo_time + 5) (bs_backoffUntil (sy_session y'))"
proof -
  obtain h y where y: "ses_reach link_env h y" "bs_begun (sy_session y)" "secure_link (sy_session y)" "bs_state (sy_session y) = Authenticated"
    "bs_proofFailures (sy_session y) = 0" using demo_authenticated by blast
  have "session_request link_env [1] (sy_session y) = None"
    by (simp add: session_request_def decodeAndVerifyEnvelope_def parseOuterObject_def skipWhitespace_def json_ws_def kMaximumFrameBytes_def Let_def)
  then have bad: "onFrame link_env (Some [1]) demo_time y = Some (failAndClose link_env demo_time SessionProtocolViolation
      (upd_session (\<lambda>s. s\<lparr>bs_backoffUntil := demo_time + kBleControllerBackoffMs\<rparr>) y))" (is "_ = Some ?y1")
    using y by (simp add: onFrame_def Let_def frame_dispatch_def handleAuthenticatedEnvelope_def failAndClose_session)
  define y2 where "y2 = onSecureLinkEstablished link_env True True True True (demo_time + 5) (upd_session (onLinkClosed demo_time) ?y1)"
  have r2: "ses_reach link_env (h\<lparr>hi_frames := insert [1] (hi_frames h), hi_stored := hi_stored h \<union> stored_controllers (sy_security y)\<rparr>) y2"
    unfolding y2_def by (intro ses_link ses_closed ses_frame [OF y(1) bad])
  have b: "\<not> deadlineReached (demo_time + 5) (demo_time + kBleControllerBackoffMs)" "demo_time + kBleControllerBackoffMs \<noteq> 0" by code_simp+
  have s2: "bs_begun (sy_session y2)" "secure_link (sy_session y2)" "bs_state (sy_session y2) = Backoff" "bs_proofFailures (sy_session y2) < 2"
    "bs_backoffUntil (sy_session y2) = demo_time + kBleControllerBackoffMs"
    using y b by (simp_all add: y2_def onSecureLinkEstablished_def onLinkClosed_def expire_window_def Let_def secure_link_def failAndClose_session
        clearSessionSecrets_def clearPendingPairing_def)
  from backoff_left_by_frame [OF s2(1-4), of "[1]" link_env "demo_time + 5"] obtain y3 where y3:
    "onFrame link_env (Some [1]) (demo_time + 5) y2 = Some y3" "bs_state (sy_session y3) = AwaitingHello"
    "bs_backoffUntil (sy_session y3) = demo_time + kBleControllerBackoffMs" using s2(5) by auto
  show ?thesis by (intro exI conjI, rule r2, rule s2(3), rule y3(1)) (use y3 b in simp_all)
qed

end
