(* ===== verification/Civil_Calendar.thy ===== *)
theory Civil_Calendar
  imports Kitsu_Prelude "HOL-Library.Signed_Division"
begin

text \<open>
  The civil calendar of \<^verbatim>\<open>src/src/kitsu_clock.cpp\<close>: month lengths, the closed-form conversions
  between dates and day numbers, and the conversions between Unix seconds and a local date and
  time.  The reference is the calendar itself, \<open>next_day\<close>: the theorems say that the closed
  forms count the days that \<open>next_day\<close> steps through, and that they are inverse to each other.

  Locals of the conversions are \<^verbatim>\<open>int\<close>: with a 16-bit year and a 64-bit second counter below
  \<^verbatim>\<open>2 ^ 40\<close> every intermediate value is far inside its C++ type, and \<open>unixToCivil_ranges\<close> bounds the results.
  Signed division is C++'s, which truncates.  The one cast that can lose information, the year
  to \<^verbatim>\<open>uint16_t\<close>, is written out.
\<close>

subsection \<open>The source\<close>

definition leapYear :: "int \<Rightarrow> bool" where
  "leapYear year \<longleftrightarrow> year mod 4 = 0 \<and> (year mod 100 \<noteq> 0 \<or> year mod 400 = 0)"

definition kDays :: "int list" where
  "kDays = [31, 28, 31, 30, 31, 30, 31, 31, 30, 31, 30, 31]"

definition monthDays :: "int \<Rightarrow> int \<Rightarrow> int" where
  "monthDays year month =
     (if month < 1 \<or> month > 12 then 0
      else if month = 2 \<and> leapYear year then 29
      else kDays ! nat (month - 1))"

definition daysFromCivil :: "int \<Rightarrow> int \<Rightarrow> int \<Rightarrow> int" where
  "daysFromCivil year0 month day =
     (let year = year0 - (if month \<le> 2 then 1 else 0);
          era = (if year \<ge> 0 then year else year - 399) sdiv 400;
          yearOfEra = year - era * 400;
          adjustedMonth = (if month > 2 then month - 3 else month + 9);
          dayOfYear = (153 * adjustedMonth + 2) div 5 + day - 1;
          dayOfEra = yearOfEra * 365 + yearOfEra div 4 - yearOfEra div 100 + dayOfYear
      in era * 146097 + dayOfEra - 719468)"

definition civilFromDays :: "int \<Rightarrow> int \<times> int \<times> int" where
  "civilFromDays days0 =
     (let days = days0 + 719468;
          era = (if days \<ge> 0 then days else days - 146096) sdiv 146097;
          dayOfEra = days - era * 146097;
          yearOfEra = (dayOfEra - dayOfEra div 1460 + dayOfEra div 36524 - dayOfEra div 146096) div 365;
          resultYear = yearOfEra + era * 400;
          dayOfYear = dayOfEra - (365 * yearOfEra + yearOfEra div 4 - yearOfEra div 100);
          monthPrime = (5 * dayOfYear + 2) div 153;
          day = dayOfYear - (153 * monthPrime + 2) div 5 + 1;
          resultMonth = monthPrime + (if monthPrime < 10 then 3 else -9)
      in ((resultYear + (if resultMonth \<le> 2 then 1 else 0)) mod 65536, resultMonth, day))"

definition kMinimumUtcOffsetMinutes :: int where "kMinimumUtcOffsetMinutes = -840"
definition kMaximumUtcOffsetMinutes :: int where "kMaximumUtcOffsetMinutes = 840"

definition validOffset :: "int \<Rightarrow> bool" where
  "validOffset offset \<longleftrightarrow> offset \<ge> kMinimumUtcOffsetMinutes \<and> offset \<le> kMaximumUtcOffsetMinutes"

definition civilToUnix :: "int \<Rightarrow> int \<Rightarrow> int \<Rightarrow> int \<Rightarrow> int \<Rightarrow> int \<Rightarrow> int \<Rightarrow> int option" where
  "civilToUnix year month day hour minute second utcOffsetMinutes =
     (if month < 1 \<or> month > 12 \<or> day < 1 \<or> day > monthDays year month \<or> hour > 23 \<or> minute > 59
         \<or> second > 59 \<or> \<not> validOffset utcOffsetMinutes
      then None
      else let localSeconds = daysFromCivil year month day * 86400 + hour * 3600 + minute * 60 + second;
               utcSeconds = localSeconds - utcOffsetMinutes * 60
           in if utcSeconds < 0 then None else Some utcSeconds)"

record CivilTime =
  cv_year :: int
  cv_month :: int
  cv_day :: int
  cv_hour :: int
  cv_minute :: int
  cv_second :: int

definition unixToCivil :: "int \<Rightarrow> int \<Rightarrow> CivilTime" where
  "unixToCivil unixSeconds utcOffsetMinutes =
     (let localSeconds = unixSeconds + utcOffsetMinutes * 60;
          days = localSeconds sdiv 86400;
          secondsOfDay = localSeconds smod 86400;
          (days, secondsOfDay) =
            (if secondsOfDay < 0 then (days - 1, secondsOfDay + 86400) else (days, secondsOfDay));
          (year, month, day) = civilFromDays days;
          hour = secondsOfDay sdiv 3600;
          secondsOfDay = secondsOfDay smod 3600
      in \<lparr>cv_year = year, cv_month = month, cv_day = day, cv_hour = hour,
          cv_minute = secondsOfDay sdiv 60, cv_second = secondsOfDay smod 60\<rparr>)"

subsection \<open>The calendar\<close>

text \<open>A date of the proleptic Gregorian calendar and the date that follows it.\<close>

definition valid_date :: "int \<times> int \<times> int \<Rightarrow> bool" where
  "valid_date c = (case c of (y, m, d) \<Rightarrow> 1 \<le> m \<and> m \<le> 12 \<and> 1 \<le> d \<and> d \<le> monthDays y m)"

definition next_day :: "int \<times> int \<times> int \<Rightarrow> int \<times> int \<times> int" where
  "next_day c = (case c of (y, m, d) \<Rightarrow>
     if d < monthDays y m then (y, m, d + 1)
     else if m < 12 then (y, m + 1, 1)
     else (y + 1, 1, 1))"

definition days_of :: "int \<times> int \<times> int \<Rightarrow> int" where
  "days_of c = (case c of (y, m, d) \<Rightarrow> daysFromCivil y m d)"

lemma month_cases:
  fixes m :: int
  assumes "1 \<le> m" and "m \<le> 12"
  obtains "m = 1" | "m = 2" | "m = 3" | "m = 4" | "m = 5" | "m = 6"
    | "m = 7" | "m = 8" | "m = 9" | "m = 10" | "m = 11" | "m = 12"
  using assms by atomize_elim presburger

lemma monthDays_simps [simp]:
  "monthDays y 1 = 31" "monthDays y 2 = (if leapYear y then 29 else 28)" "monthDays y 3 = 31"
  "monthDays y 4 = 30" "monthDays y 5 = 31" "monthDays y 6 = 30" "monthDays y 7 = 31"
  "monthDays y 8 = 31" "monthDays y 9 = 30" "monthDays y 10 = 31" "monthDays y 11 = 30"
  "monthDays y 12 = 31"
  by (simp_all add: monthDays_def kDays_def)

lemma monthDays_bounds: "1 \<le> m \<Longrightarrow> m \<le> 12 \<Longrightarrow> 28 \<le> monthDays y m \<and> monthDays y m \<le> 31"
  by (erule month_cases) simp_all

lemma valid_next_day: "valid_date c \<Longrightarrow> valid_date (next_day c)"
  using monthDays_bounds [of "fst (snd c) + 1" "fst c"] monthDays_bounds [of 1 "fst c + 1"]
  by (auto simp: valid_date_def next_day_def split: prod.splits)

subsection \<open>Truncating division is flooring after the adjustment\<close>

lemma sdiv_floor_adjust:
  fixes x k c :: int
  assumes "0 < k" and c: "c = k - 1"
  shows "(if x \<ge> 0 then x else x - c) sdiv k = x div k"
proof (cases "x \<ge> 0")
  case True
  with assms show ?thesis by (simp add: signed_divide_int_def sgn_if)
next
  case False
  have "(k - 1 - x) div k = - (x div k)"
  proof -
    have "(k - 1 - x) div k = ((k - 1) - x mod k - k * (x div k)) div k"
      by (simp add: algebra_simps)
    also have "\<dots> = ((k - 1) - x mod k) div k - x div k"
      using assms div_mult_self2 [of k "(k - 1) - x mod k" "- (x div k)"] by simp
    also have "((k - 1) - x mod k) div k = 0"
      using assms pos_mod_bound [of k x] pos_mod_sign [of k x] by (intro div_pos_pos_trivial) linarith+
    finally show ?thesis by simp
  qed
  with False assms show ?thesis by (simp add: signed_divide_int_def sgn_if abs_if c)
qed

lemma sdiv_nonneg: "0 \<le> x \<Longrightarrow> 0 < k \<Longrightarrow> x sdiv k = x div k" for x k :: int
  by (simp add: signed_divide_int_def sgn_if)

lemma smod_nonneg: "0 \<le> x \<Longrightarrow> 0 < k \<Longrightarrow> x smod k = x mod k" for x k :: int
  by (cases "x = 0") (simp_all add: signed_modulo_int_def sgn_if)

lemma sdiv_smod_floor:
  fixes t k :: int
  assumes "0 < k"
  shows "(if t smod k < 0 then (t sdiv k - 1, t smod k + k) else (t sdiv k, t smod k)) = (t div k, t mod k)"
proof (cases "t \<ge> 0")
  case True
  then show ?thesis using assms by (simp add: sdiv_nonneg smod_nonneg not_less)
next
  case False
  define n where "n = - t"
  have n: "0 < n" "t = - n" using False by (simp_all add: n_def)
  have s: "t sdiv k = - (n div k)" "t smod k = - (n mod k)"
    using assms n by (simp_all add: signed_divide_int_def signed_modulo_int_def sgn_if minus_div_mult_eq_mod [symmetric])
  show ?thesis unfolding s
    using assms by (auto simp: n zdiv_zminus1_eq_if zmod_zminus1_eq_if) (smt (verit) pos_mod_sign)+
qed

lemma era_floor: "(if y \<ge> 0 then y else y - 399) sdiv 400 = y div 400" for y :: int
  by (rule sdiv_floor_adjust) simp_all

lemma day_era_floor: "(if y \<ge> 0 then y else y - 146096) sdiv 146097 = y div 146097" for y :: int
  by (rule sdiv_floor_adjust) simp_all

subsection \<open>The day number in closed form\<close>

definition year_days :: "int \<Rightarrow> int" where
  "year_days y = 365 * y + y div 4 - y div 100 + y div 400"

definition month_start :: "int \<Rightarrow> int" where
  "month_start m = (153 * (if m > 2 then m - 3 else m + 9) + 2) div 5"

lemma era_year_days:
  "(y div 400) * 146097 + ((y - y div 400 * 400) * 365 + (y - y div 400 * 400) div 4 - (y - y div 400 * 400) div 100)
     = year_days y"
proof -
  define e r where "e = y div 400" and "r = y mod 400"
  have y: "y = 400 * e + r" by (simp add: e_def r_def)
  have small: "r div 400 = 0" by (rule div_pos_pos_trivial) (simp_all add: r_def)
  have "y div 4 = 100 * e + r div 4" "y div 100 = 4 * e + r div 100"
    using div_mult_self2 [of 4 r "100 * e"] div_mult_self2 [of 100 r "4 * e"] unfolding y
    by (simp_all only: mult.assoc [symmetric] mult_numeral_1 numeral_times_numeral add.commute)
  moreover have "y - y div 400 * 400 = r" by (simp add: y e_def [symmetric] small)
  ultimately show ?thesis by (simp add: year_days_def e_def [symmetric] y small)
qed

lemma daysFromCivil_form:
  "daysFromCivil y m d =
     year_days (y - (if m \<le> 2 then 1 else 0)) + month_start m + d - 1 - 719468"
  using era_year_days [of "y - (if m \<le> 2 then 1 else 0)"]
  by (simp only: daysFromCivil_def Let_def era_floor month_start_def)

lemma div_pred:
  fixes k y :: int
  assumes "0 < k"
  shows "y div k - (y - 1) div k = (if y mod k = 0 then 1 else 0)"
proof (cases "y mod k = 0")
  case True
  then have "(y - 1) div k = y div k - 1"
    using assms minus_mod_eq_mult_div [of y k]
    by (intro int_div_pos_eq [where r = "k - 1"]) (simp_all add: algebra_simps)
  with True show ?thesis by simp
next
  case False
  moreover have "y mod k < k" "0 \<le> y mod k" using assms by simp_all
  moreover have "y = k * (y div k) + y mod k" by simp
  ultimately have "(y - 1) div k = y div k"
    by (intro int_div_pos_eq [where r = "y mod k - 1"]) linarith+
  with False show ?thesis by simp
qed

lemma leap_count:
  assumes "c \<Longrightarrow> b" and "b \<Longrightarrow> a"
  shows "365 + (if a then 1 else 0) - (if b then 1 else 0) + (if c then 1 else 0)
    = (365 :: int) + (if a \<and> (\<not> b \<or> c) then 1 else 0)"
  using assms by auto

lemma year_days_next: "year_days y - year_days (y - 1) = 365 + (if leapYear y then 1 else 0)"
proof -
  have "y mod 400 = 0 \<Longrightarrow> y mod 100 = 0" "y mod 100 = 0 \<Longrightarrow> y mod 4 = 0"
    unfolding mod_eq_0_iff_dvd by (erule dvd_trans [rotated], simp)+
  moreover have "year_days y - year_days (y - 1) =
      365 + (y div 4 - (y - 1) div 4) - (y div 100 - (y - 1) div 100) + (y div 400 - (y - 1) div 400)"
    by (simp only: year_days_def right_diff_distrib)
  ultimately show ?thesis
    unfolding leapYear_def by (simp only: div_pred zero_less_numeral) (rule leap_count)
qed

lemma month_start_simps [simp]:
  "month_start 1 = 306" "month_start 2 = 337" "month_start 3 = 0" "month_start 4 = 31"
  "month_start 5 = 61" "month_start 6 = 92" "month_start 7 = 122" "month_start 8 = 153"
  "month_start 9 = 184" "month_start 10 = 214" "month_start 11 = 245" "month_start 12 = 275"
  by (simp_all add: month_start_def)

lemma days_of_next_day: "valid_date c \<Longrightarrow> days_of (next_day c) = days_of c + 1"
proof -
  obtain y m d where c: "c = (y, m, d)" by (cases c)
  assume "valid_date c"
  then have m: "1 \<le> m" "m \<le> 12" and d: "d \<le> monthDays y m" by (auto simp: valid_date_def c)
  have leap: "year_days y = year_days (y - 1) + 365 + (if leapYear y then 1 else 0)"
    using year_days_next [of y] by simp
  from m show ?thesis
    by (rule month_cases) (use d leap in \<open>auto simp: c days_of_def next_day_def daysFromCivil_form\<close>)
qed

subsection \<open>The date of a day number\<close>

text \<open>
  The March-based year: \<open>q\<close> is the year of the 400-year era, \<open>j\<close> the day of that year, which
  reaches 365 only when the following February has 29 days.
\<close>

lemma era_split:
  fixes q :: int
  assumes "0 \<le> q" "q < 400"
  obtains c k s where "q = 100 * c + 4 * k + s" "q div 4 = 25 * c + k" "q div 100 = c"
    "0 \<le> c" "c \<le> 3" "0 \<le> k" "k \<le> 24" "0 \<le> s" "s \<le> 3"
proof -
  define c r where "c = q div 100" and "r = q mod 100"
  define k s where "k = r div 4" and "s = r mod 4"
  have r: "0 \<le> r" "r < 100" and s: "0 \<le> s" "s \<le> 3" and c: "0 \<le> c" "c \<le> 3"
    using assms by (simp_all add: r_def s_def c_def)
  have rk: "r = 4 * k + s" and "q = 100 * c + r" by (simp_all add: k_def s_def c_def r_def)
  then have q: "q = 100 * c + 4 * k + s" by simp
  have k: "0 \<le> k" "k \<le> 24" using r s rk by simp_all
  have "q div 4 = 25 * c + k" by (rule int_div_pos_eq [where r = s]) (use q s in simp_all)
  then show ?thesis by (rule that [OF q _ c_def [symmetric] c k s])
qed

lemma era_leap:
  fixes c k s :: int
  assumes leap: "leapYear (100 * c + 4 * k + s + 1)" and "0 \<le> c" "c \<le> 3" "0 \<le> k" "k \<le> 24" "0 \<le> s" "s \<le> 3"
  shows "s = 3 \<and> (k = 24 \<longrightarrow> c = 3)"
proof
  have "(100 * c + 4 * k + s + 1) mod 4 = (s + 1) mod 4"
    using mod_mult_self2 [of "s + 1" 4 "25 * c + k"] by (simp add: algebra_simps)
  moreover have "s = 0 \<or> s = 1 \<or> s = 2 \<or> s = 3" using assms by arith
  ultimately show s3: "s = 3" using leap by (auto simp: leapYear_def)
  have "c = 0 \<or> c = 1 \<or> c = 2 \<or> c = 3" using assms by arith
  then show "k = 24 \<longrightarrow> c = 3" using leap s3 by (auto simp: leapYear_def)
qed

lemma leapYear_era: "leapYear (400 * e + x) \<longleftrightarrow> leapYear x"
proof -
  have "(400 * e + x) mod 4 = x mod 4" "(400 * e + x) mod 100 = x mod 100" "(400 * e + x) mod 400 = x mod 400"
    using mod_mult_self4 [of 4 "100 * e" x] mod_mult_self4 [of 100 "4 * e" x] mod_mult_self4 [of 400 e x] by simp_all
  then show ?thesis by (simp only: leapYear_def)
qed

lemma yearOfEra_exact:
  fixes q j :: int
  assumes q: "0 \<le> q" "q < 400" and j: "0 \<le> j" "j \<le> 364 + (if leapYear (q + 1) then 1 else 0)"
  defines "e \<equiv> 365 * q + q div 4 - q div 100 + j"
  shows "(e - e div 1460 + e div 36524 - e div 146096) div 365 = q"
proof -
  obtain c k s where q_form: "q = 100 * c + 4 * k + s" and div: "q div 4 = 25 * c + k" "q div 100 = c"
    and c: "0 \<le> c" "c \<le> 3" and k: "0 \<le> k" "k \<le> 24" and s: "0 \<le> s" "s \<le> 3"
    using q by (rule era_split)
  define i where "i = 365 * s + j"
  have e: "e = 36524 * c + 1461 * k + i" by (simp add: e_def div i_def) (simp add: q_form)
  have "s = 3 \<and> (k = 24 \<longrightarrow> c = 3)" if "leapYear (q + 1)"
    using that c k s unfolding q_form by (rule era_leap)
  then have j_cases: "j \<le> 364 \<or> (j = 365 \<and> s = 3 \<and> (k = 24 \<longrightarrow> c = 3))"
    using j by (auto split: if_splits)
  have last: "e div 36524 - e div 146096 = c"
  proof (cases "c = 3 \<and> k = 24 \<and> i = 1460")
    case True
    then show ?thesis by (simp add: e)
  next
    case False
    then have "1461 * k + i < 36524" using j_cases k s j by (auto simp: i_def)
    moreover have "0 \<le> 1461 * k + i" using k s j by (simp add: i_def)
    ultimately have "e div 36524 = c" using c by (intro int_div_pos_eq [where r = "1461 * k + i"]; simp add: e)
    moreover have "e < 146096" using \<open>1461 * k + i < 36524\<close> c by (simp only: e)
    moreover have "e div 146096 = 0" using \<open>e < 146096\<close> \<open>0 \<le> 1461 * k + i\<close> c by (simp add: e)
    ultimately show ?thesis by simp
  qed
  define f where "f = 24 * c + k + i"
  have f: "e div 1460 = 25 * c + k + f div 1460"
  proof -
    have "e = f + (25 * c + k) * 1460" by (simp add: e f_def)
    then show ?thesis by simp
  qed
  have "e - e div 1460 + e div 36524 - e div 146096 = 36500 * c + 1460 * k + i - f div 1460"
    using last f by (simp add: e)
  also have "\<dots> = (i - f div 1460) + (100 * c + 4 * k) * 365" by simp
  finally have "(e - e div 1460 + e div 36524 - e div 146096) div 365 = 100 * c + 4 * k + (i - f div 1460) div 365"
    by simp
  moreover have "(i - f div 1460) div 365 = s"
  proof (cases "f < 1460")
    case True
    then have "f div 1460 = 0" using c k s j by (simp add: f_def i_def)
    moreover have "j \<le> 364" using True j_cases c k by (auto simp: f_def i_def)
    ultimately show ?thesis using j by (simp add: i_def)
  next
    case False
    have "f < 2 * 1460" using c k s j_cases by (auto simp: f_def i_def)
    with False have "f div 1460 = 1" by (intro int_div_pos_eq [where r = "f - 1460"]) simp_all
    moreover have "s = 3" "1 \<le> j" using False c k s j_cases by (auto simp: f_def i_def)
    ultimately show ?thesis
      using j_cases by (intro int_div_pos_eq [where r = "j - 1"]) (auto simp: i_def)
  qed
  ultimately show ?thesis by (simp add: q_form)
qed

definition march_month :: "int \<Rightarrow> int" where
  "march_month m = (if m > 2 then m - 3 else m + 9)"

lemma month_start_march: "month_start m = (153 * march_month m + 2) div 5"
  by (simp only: month_start_def march_month_def)

lemma march_month_exact:
  assumes "1 \<le> m" "m \<le> 12" and d: "1 \<le> d" "d \<le> monthDays y m"
  shows "(5 * (month_start m + d - 1) + 2) div 153 = march_month m"
proof -
  have div: "(5 * (month_start m + d - 1) + 2) div 153 = k"
    if "153 * k \<le> 5 * (month_start m + d - 1) + 2" "5 * (month_start m + d - 1) + 2 < 153 * k + 153" for k
    by (rule int_div_pos_eq [where r = "5 * (month_start m + d - 1) + 2 - 153 * k"]) (use that in linarith)+
  from assms(1,2) show ?thesis
    by (rule month_cases; intro div) (use d in \<open>auto simp: march_month_def split: if_splits\<close>)
qed

lemma civilFromDays_daysFromCivil:
  assumes "valid_date (y, m, d)" and y: "0 \<le> y" "y < 65536"
  shows "civilFromDays (daysFromCivil y m d) = (y, m, d)"
proof -
  have m: "1 \<le> m" "m \<le> 12" and d: "1 \<le> d" "d \<le> monthDays y m" using assms by (auto simp: valid_date_def)
  define Y where "Y = y - (if m \<le> 2 then 1 else 0)"
  define E q where "E = Y div 400" and "q = Y mod 400"
  define j where "j = month_start m + d - 1"
  define e where "e = 365 * q + q div 4 - q div 100 + j"
  have Y: "Y = 400 * E + q" and q: "0 \<le> q" "q < 400" by (simp_all add: E_def q_def)
  have leap: "leapYear (q + 1) \<longleftrightarrow> leapYear (Y + 1)" unfolding Y by (simp only: add.assoc leapYear_era)
  from m have j: "0 \<le> j" "j \<le> 364 + (if leapYear (q + 1) then 1 else 0)"
    unfolding leap by (rule month_cases; use d in \<open>auto simp: j_def Y_def split: if_splits\<close>)+
  have "year_days Y = E * 146097 + (365 * q + q div 4 - q div 100)"
  proof -
    have "Y - Y div 400 * 400 = q" by (simp add: q_def minus_div_mult_eq_mod)
    then show ?thesis using era_year_days [of Y] by (simp add: E_def)
  qed
  then have days: "daysFromCivil y m d + 719468 = E * 146097 + e"
    by (simp add: daysFromCivil_form Y_def [symmetric] j_def e_def)
  obtain c k s where "q = 100 * c + 4 * k + s" "q div 4 = 25 * c + k" "q div 100 = c"
    "0 \<le> c" "c \<le> 3" "0 \<le> k" "k \<le> 24" "0 \<le> s" "s \<le> 3"
    using q by (rule era_split)
  then have e: "0 \<le> e" "e < 146097" using j by (simp_all add: e_def split: if_splits)
  then have era: "(E * 146097 + e) div 146097 = E" by simp
  have yoe: "(e - e div 1460 + e div 36524 - e div 146096) div 365 = q"
    unfolding e_def by (rule yearOfEra_exact) (use q j in auto)
  have doy: "e - (365 * q + q div 4 - q div 100) = j" by (simp add: e_def)
  have mp: "(5 * j + 2) div 153 = march_month m" unfolding j_def using m d by (rule march_month_exact)
  have "q + E * 400 = Y" by (simp add: Y)
  then show ?thesis
    unfolding civilFromDays_def Let_def days day_era_floor era
    unfolding add_diff_cancel_left' yoe doy mp month_start_march [symmetric]
    using m y by (simp add: march_month_def j_def Y_def)
qed

subsection \<open>Dates and Unix seconds\<close>

lemma days_of_step: "valid_date c \<Longrightarrow> valid_date ((next_day ^^ n) c) \<and> days_of ((next_day ^^ n) c) = days_of c + int n"
  by (induction n) (simp_all add: valid_next_day days_of_next_day)

definition epoch_date :: "int \<times> int \<times> int" where
  "epoch_date = (1970, 1, 1)"

lemma epoch_date_facts [simp]: "valid_date epoch_date" "days_of epoch_date = 0"
  by (simp_all add: epoch_date_def valid_date_def days_of_def daysFromCivil_form year_days_def)

lemma next_day_year: "y \<le> fst c \<Longrightarrow> y \<le> fst ((next_day ^^ n) c)"
  by (induction n) (auto simp: next_day_def split: prod.splits if_splits)

lemma calendar_steps:
  assumes "fst ((next_day ^^ n) epoch_date) < 65536"
  shows "civilFromDays (int n) = (next_day ^^ n) epoch_date"
    and "days_of ((next_day ^^ n) epoch_date) = int n"
proof -
  obtain y m d where c: "(next_day ^^ n) epoch_date = (y, m, d)" by (cases "(next_day ^^ n) epoch_date")
  have facts: "valid_date (y, m, d)" "days_of (y, m, d) = int n"
    using days_of_step [of epoch_date n] by (simp_all add: c)
  moreover have "1970 \<le> y" using next_day_year [of 1970 epoch_date n] by (simp add: c) (simp add: epoch_date_def)
  ultimately have "civilFromDays (daysFromCivil y m d) = (y, m, d)"
    using assms c by (intro civilFromDays_daysFromCivil) simp_all
  with facts show "civilFromDays (int n) = (next_day ^^ n) epoch_date" by (simp add: c days_of_def)
  show "days_of ((next_day ^^ n) epoch_date) = int n" using facts c by simp
qed

text \<open>
  C38. The closed-form calendar agrees with the calendar: stepping \<open>n\<close> days from 1 January 1970, one
  date at a time with the month lengths and the leap-year rule, reaches the date that
  \<^verbatim>\<open>civilFromDays\<close> computes for \<open>n\<close>, as long as its year fits the 16-bit result, and \<^verbatim>\<open>daysFromCivil\<close>
  gives \<open>n\<close> back for that date.
\<close>

theorem civil_calendar_exact:
  assumes "fst ((next_day ^^ n) (1970, 1, 1)) < 65536"
  shows "civilFromDays (int n) = (next_day ^^ n) (1970, 1, 1)
    \<and> (case (next_day ^^ n) (1970, 1, 1) of (y, m, d) \<Rightarrow> daysFromCivil y m d = int n)"
  using calendar_steps [of n] assms by (simp add: epoch_date_def days_of_def split: prod.splits)

theorem civil_calendar_exact_witness: "civilFromDays 1 = next_day (1970, 1, 1)"
  using civil_calendar_exact [of 1] by (simp add: next_day_def)

lemma year_days_mono: "a \<le> b \<Longrightarrow> year_days a \<le> year_days b"
proof (induction b rule: int_ge_induct)
  case (step i)
  then show ?case using year_days_next [of "i + 1"] by (simp split: if_splits)
qed simp

lemma date_year_bound:
  assumes "int n \<le> 47482"
  shows "1970 \<le> fst ((next_day ^^ n) epoch_date)" and "fst ((next_day ^^ n) epoch_date) \<le> 2100"
proof -
  obtain y m d where c: "(next_day ^^ n) epoch_date = (y, m, d)" by (cases "(next_day ^^ n) epoch_date")
  show "1970 \<le> fst ((next_day ^^ n) epoch_date)" by (rule next_day_year) (simp add: epoch_date_def)
  have "valid_date (y, m, d)" and "days_of (y, m, d) = int n"
    using days_of_step [of epoch_date n] by (simp_all add: c)
  then have days: "daysFromCivil y m d \<le> 47482" using assms by (simp add: days_of_def)
  from \<open>valid_date (y, m, d)\<close> have m: "1 \<le> m" "m \<le> 12" and d: "1 \<le> d" by (auto simp: valid_date_def)
  show "fst ((next_day ^^ n) epoch_date) \<le> 2100"
  proof (rule ccontr)
    assume "\<not> ?thesis"
    then have y: "2101 \<le> y" by (simp add: c)
    have big: "year_days 2100 = 767010 - 1" "year_days 2101 = 767375 - 1" by (simp_all add: year_days_def)
    have "0 \<le> month_start m" "m \<le> 2 \<Longrightarrow> 306 \<le> month_start m" using m by (rule month_cases; simp)+
    then show False
      using days d y year_days_mono [of 2100 "y - 1"] year_days_mono [of 2101 y] big
      by (cases "m \<le> 2") (simp_all add: daysFromCivil_form)
  qed
qed

lemma unixToCivil_form:
  "unixToCivil u off =
     (let t = u + off * 60; (y, m, d) = civilFromDays (t div 86400); s = t mod 86400
      in \<lparr>cv_year = y, cv_month = m, cv_day = d, cv_hour = s div 3600, cv_minute = s mod 3600 div 60,
          cv_second = s mod 60\<rparr>)"
proof -
  define t where "t = u + off * 60"
  have split: "(if t smod 86400 < 0 then (t sdiv 86400 - 1, t smod 86400 + 86400) else (t sdiv 86400, t smod 86400))
      = (t div 86400, t mod 86400)"
    by (rule sdiv_smod_floor) simp
  have "s smod 3600 = s mod 3600" "s sdiv 3600 = s div 3600" "(s mod 3600) sdiv 60 = s mod 3600 div 60"
    "(s mod 3600) smod 60 = s mod 60" if "0 \<le> s" for s :: int
    using that by (simp_all add: sdiv_nonneg smod_nonneg mod_mod_cancel)
  from this [of "t mod 86400"] show ?thesis
    by (simp add: unixToCivil_def Let_def t_def [symmetric] split split: prod.splits)
qed

definition valid_civil :: "CivilTime \<Rightarrow> bool" where
  "valid_civil c \<longleftrightarrow> valid_date (cv_year c, cv_month c, cv_day c) \<and> 0 \<le> cv_hour c \<and> cv_hour c \<le> 23
     \<and> 0 \<le> cv_minute c \<and> cv_minute c \<le> 59 \<and> 0 \<le> cv_second c \<and> cv_second c \<le> 59"

text \<open>The local times of the clock's range of instants: 1 January 2024 to 1 January 2100, fourteen hours either way.\<close>

lemma unixToCivil_ranges:
  assumes t: "0 \<le> u + off * 60" "u + off * 60 \<le> 4102495200"
  shows "valid_civil (unixToCivil u off)" and "1970 \<le> cv_year (unixToCivil u off)"
    and "cv_year (unixToCivil u off) \<le> 2100"
    and "daysFromCivil (cv_year (unixToCivil u off)) (cv_month (unixToCivil u off)) (cv_day (unixToCivil u off)) * 86400
      + cv_hour (unixToCivil u off) * 3600 + cv_minute (unixToCivil u off) * 60 + cv_second (unixToCivil u off)
      = u + off * 60"
proof -
  define t where "t = u + off * 60"
  define n where "n = nat (t div 86400)"
  obtain y m d where c: "(next_day ^^ n) epoch_date = (y, m, d)" by (cases "(next_day ^^ n) epoch_date")
  have range: "0 \<le> t" "t \<le> 4102495200" using t by (simp_all only: t_def)
  have "t div 86400 \<le> 4102495200 div 86400" using range(2) by (rule zdiv_mono1) simp
  also have "(4102495200 :: int) div 86400 = 47482" by simp
  finally have "t div 86400 \<le> 47482" .
  moreover have "0 \<le> t div 86400" using range(1) by simp
  ultimately have n: "t div 86400 = int n" "int n \<le> 47482" by (simp_all only: n_def nat_0_le)
  have y: "1970 \<le> y" "y \<le> 2100" using date_year_bound [OF n(2)] by (simp_all add: c)
  have date: "civilFromDays (int n) = (y, m, d)" "daysFromCivil y m d = int n" "valid_date (y, m, d)"
    using calendar_steps [of n] days_of_step [of epoch_date n] y by (simp_all add: c days_of_def)
  define s where "s = t mod 86400"
  have s: "0 \<le> s" "s < 86400" and whole: "t = int n * 86400 + s" by (simp_all add: s_def flip: n(1))
  have form: "unixToCivil u off = \<lparr>cv_year = y, cv_month = m, cv_day = d, cv_hour = s div 3600,
      cv_minute = s mod 3600 div 60, cv_second = s mod 60\<rparr>"
    by (simp add: unixToCivil_form Let_def t_def [symmetric] n date s_def)
  have "0 \<le> s div 3600" "s div 3600 \<le> 23" using s by simp_all
  moreover have "0 \<le> s mod 3600 div 60" "s mod 3600 div 60 \<le> 59" by simp_all
  moreover have "0 \<le> s mod 60" "s mod 60 \<le> 59" by simp_all
  ultimately show "valid_civil (unixToCivil u off)" using date(3) by (simp only: valid_civil_def form CivilTime.select_convs)
  show "1970 \<le> cv_year (unixToCivil u off)" "cv_year (unixToCivil u off) \<le> 2100" using y by (simp_all add: form)
  have "s div 3600 * 3600 + s mod 3600 = s" by simp
  moreover have "s mod 3600 div 60 * 60 + s mod 3600 mod 60 = s mod 3600" by (rule div_mult_mod_eq)
  moreover have "s mod 3600 mod 60 = s mod 60" by (simp add: mod_mod_cancel)
  ultimately have "s div 3600 * 3600 + s mod 3600 div 60 * 60 + s mod 60 = s" by linarith
  then show "daysFromCivil (cv_year (unixToCivil u off)) (cv_month (unixToCivil u off)) (cv_day (unixToCivil u off)) * 86400
      + cv_hour (unixToCivil u off) * 3600 + cv_minute (unixToCivil u off) * 60 + cv_second (unixToCivil u off)
      = u + off * 60"
    by (simp only: form CivilTime.select_convs date(2)) (simp only: t_def [symmetric] whole)
qed

lemma civilToUnix_unixToCivil:
  assumes "0 \<le> u" "validOffset off" "0 \<le> u + off * 60" "u + off * 60 \<le> 4102495200"
  defines "c \<equiv> unixToCivil u off"
  shows "civilToUnix (cv_year c) (cv_month c) (cv_day c) (cv_hour c) (cv_minute c) (cv_second c) off = Some u"
  using unixToCivil_ranges [OF assms(3,4)] assms(1,2) unfolding c_def [symmetric]
  by (simp add: civilToUnix_def Let_def valid_civil_def valid_date_def)

end
