(* ===== verification/Kitsu_Clock.thy ===== *)
theory Kitsu_Clock
  imports Civil_Calendar "HOL-Library.Monad_Syntax"
begin

text \<open>
  The wall clock, \<^verbatim>\<open>src/src/kitsu_clock.{h,cpp}\<close>: the anchored clock \<^verbatim>\<open>KitsuClock\<close> with one definition
  per method, its 32-byte snapshot record, and the text formats.  Enumerations that are cast from
  stored bytes are modelled at their underlying type \<^verbatim>\<open>uint8_t\<close>; an \<^verbatim>\<open>int16_t\<close> is a 16-bit word read
  with \<open>sint\<close>; a \<^verbatim>\<open>const char*\<close> is an optional string, whose end reads as the terminating NUL.
\<close>

unbundle bit_operations_syntax

subsection \<open>Data\<close>

type_synonym i16 = "16 word"

definition kMinimumClockUnixSeconds :: u64 where "kMinimumClockUnixSeconds = 1704067200"
definition kMaximumClockUnixSeconds :: u64 where "kMaximumClockUnixSeconds = 4102444800"
definition kClockSnapshotSchemaVersion :: u8 where "kClockSnapshotSchemaVersion = 1"
definition kClockSnapshotBytes :: u8 where "kClockSnapshotBytes = 32"
definition kSnapshotMagic :: u32 where "kSnapshotMagic = 0x314C434B"

lemmas clock_consts = kMinimumClockUnixSeconds_def kMaximumClockUnixSeconds_def
  kClockSnapshotSchemaVersion_def kClockSnapshotBytes_def kSnapshotMagic_def

type_synonym ClockSource = u8
abbreviation SourceNone :: ClockSource where "SourceNone \<equiv> 0"
abbreviation ManualSerial :: ClockSource where "ManualSerial \<equiv> 1"
abbreviation ManualDevice :: ClockSource where "ManualDevice \<equiv> 2"
abbreviation NetworkTime :: ClockSource where "NetworkTime \<equiv> 3"
abbreviation AuthenticatedApp :: ClockSource where "AuthenticatedApp \<equiv> 4"

type_synonym ClockTrust = u8
abbreviation TrustUnset :: ClockTrust where "TrustUnset \<equiv> 0"
abbreviation RestoredStale :: ClockTrust where "RestoredStale \<equiv> 1"
abbreviation Trusted :: ClockTrust where "Trusted \<equiv> 2"

datatype ClockResult = ClockOk | NotSet | ClockInvalidArgument | InvalidSource | InvalidIso8601
  | InvalidUnixText | OutOfRange | NetworkTimeNotSynchronized | MonotonicDiscontinuity
  | BadSnapshotMagic | UnsupportedSnapshot | CorruptSnapshot | InvalidSnapshot

record ParsedIso8601 =
  pi_unixSeconds :: u64
  pi_millisecond :: u16
  pi_utcOffsetMinutes :: i16

record NetworkTimeSample =
  nt_unixSeconds :: u64
  nt_millisecond :: u16
  nt_synchronized :: bool

record ClockReading =
  rd_unixSeconds :: u64
  rd_millisecond :: u16
  rd_utcOffsetMinutes :: i16
  rd_source :: ClockSource
  rd_trust :: ClockTrust
  rd_monotonicHealthy :: bool

record ClockSnapshot =
  sn_magic :: u32
  sn_schemaVersion :: u8
  sn_bytes :: u8
  sn_source :: u8
  sn_savedTrust :: u8
  sn_generation :: u32
  sn_millisecond :: u16
  sn_utcOffsetMinutes :: i16
  sn_unixSeconds :: u64
  sn_reserved :: bytes
  sn_crc32 :: u32

definition snapshot0 :: ClockSnapshot where
  "snapshot0 = \<lparr>sn_magic = 0x314C434B, sn_schemaVersion = kClockSnapshotSchemaVersion, sn_bytes = kClockSnapshotBytes,
     sn_source = SourceNone, sn_savedTrust = TrustUnset, sn_generation = 0, sn_millisecond = 0,
     sn_utcOffsetMinutes = 0, sn_unixSeconds = 0, sn_reserved = [0, 0, 0, 0], sn_crc32 = 0\<rparr>"

record KitsuClock =
  ck_unixSeconds :: u64
  ck_millisecond :: u16
  ck_utcOffsetMinutes :: i16
  ck_lastMillis :: u32
  ck_restoredGeneration :: u32
  ck_source :: ClockSource
  ck_trust :: ClockTrust
  ck_lastResult :: ClockResult
  ck_monotonicHealthy :: bool

subsection \<open>Validation and checksum\<close>

definition validSource :: "ClockSource \<Rightarrow> bool" where
  "validSource source \<longleftrightarrow> source \<ge> ManualSerial \<and> source \<le> AuthenticatedApp"

definition validDirectSource :: "ClockSource \<Rightarrow> bool" where
  "validDirectSource source \<longleftrightarrow> source = ManualSerial \<or> source = ManualDevice \<or> source = AuthenticatedApp"

definition validInstant :: "u64 \<Rightarrow> u16 \<Rightarrow> bool" where
  "validInstant unixSeconds millisecond \<longleftrightarrow>
     \<not> (unixSeconds < kMinimumClockUnixSeconds \<or> unixSeconds > kMaximumClockUnixSeconds \<or> millisecond > 999)
     \<and> (unixSeconds \<noteq> kMaximumClockUnixSeconds \<or> millisecond = 0)"

definition clock_crc_bit :: "u32 \<Rightarrow> u32" where
  "clock_crc_bit crc = drop_bit 1 crc XOR (0xEDB88320 AND (0 - (crc AND 1)))"

definition snapshot_image :: "ClockSnapshot \<Rightarrow> bytes" where
  "snapshot_image s = le_bytes 4 (sn_magic s) @ [sn_schemaVersion s, sn_bytes s, sn_source s, sn_savedTrust s]
     @ le_bytes 4 (sn_generation s) @ le_bytes 2 (sn_millisecond s) @ le_bytes 2 (sn_utcOffsetMinutes s)
     @ le_bytes 8 (sn_unixSeconds s) @ sn_reserved s"

definition snapshotCrc :: "ClockSnapshot \<Rightarrow> u32" where
  "snapshotCrc s = NOT (foldl (\<lambda>crc b. (clock_crc_bit ^^ 8) (crc XOR ucast b)) 0xFFFFFFFF (snapshot_image s))"

subsection \<open>Text\<close>

definition clock_digit :: "char \<Rightarrow> bool" where
  "clock_digit c \<longleftrightarrow> (48 :: nat) \<le> of_char c \<and> of_char c \<le> (57 :: nat)"

definition digit_value :: "char \<Rightarrow> nat" where
  "digit_value c = of_char c - 48"

fun parseDigits :: "string \<Rightarrow> nat \<Rightarrow> nat \<Rightarrow> (nat \<times> string) option" where
  "parseDigits cursor 0 v = Some (v, cursor)"
| "parseDigits [] (Suc n) v = None"
| "parseDigits (c # cs) (Suc n) v = (if clock_digit c then parseDigits cs n (v * 10 + digit_value c) else None)"

fun clock_consume :: "char \<Rightarrow> string \<Rightarrow> string option" where
  "clock_consume expected [] = None"
| "clock_consume expected (c # cs) = (if c = expected then Some cs else None)"

fun unix_digits :: "string \<Rightarrow> u64 \<Rightarrow> ClockResult + u64" where
  "unix_digits [] candidate = Inr candidate"
| "unix_digits (c # cs) candidate =
     (if \<not> clock_digit c then Inl InvalidUnixText
      else let digit = of_nat (digit_value c)
           in if candidate > (0xFFFFFFFFFFFFFFFF - digit) div 10 then Inl OutOfRange
              else unix_digits cs (candidate * 10 + digit))"

definition parseUnixText :: "string option \<Rightarrow> ClockResult + u64" where
  "parseUnixText input = (case input of None \<Rightarrow> Inl InvalidUnixText
     | Some text \<Rightarrow> if text = [] then Inl InvalidUnixText
         else case unix_digits text 0 of Inl e \<Rightarrow> Inl e
           | Inr candidate \<Rightarrow> if \<not> validInstant candidate 0 then Inl OutOfRange else Inr candidate)"

text \<open>The date and time fields before the fraction.\<close>

definition iso_fields :: "string \<Rightarrow> (nat \<times> nat \<times> nat \<times> nat \<times> nat \<times> nat \<times> string) option" where
  "iso_fields cursor =
     do { (year, cursor) \<leftarrow> parseDigits cursor 4 0; cursor \<leftarrow> clock_consume (CHR ''-'') cursor;
          (month, cursor) \<leftarrow> parseDigits cursor 2 0; cursor \<leftarrow> clock_consume (CHR ''-'') cursor;
          (day, cursor) \<leftarrow> parseDigits cursor 2 0; cursor \<leftarrow> clock_consume (CHR ''T'') cursor;
          (hour, cursor) \<leftarrow> parseDigits cursor 2 0; cursor \<leftarrow> clock_consume (CHR '':'') cursor;
          (minute, cursor) \<leftarrow> parseDigits cursor 2 0; cursor \<leftarrow> clock_consume (CHR '':'') cursor;
          (second, cursor) \<leftarrow> parseDigits cursor 2 0;
          Some (year, month, day, hour, minute, second, cursor) }"

text \<open>The loop over the digits of the fraction, then the scaling of a short fraction.\<close>

fun fraction_digits :: "string \<Rightarrow> nat \<Rightarrow> nat \<Rightarrow> (nat \<times> nat \<times> string) option" where
  "fraction_digits [] millisecond digits = Some (millisecond, digits, [])"
| "fraction_digits (c # cs) millisecond digits =
     (if \<not> clock_digit c then Some (millisecond, digits, c # cs)
      else if digits \<ge> 3 then None
      else fraction_digits cs (millisecond * 10 + digit_value c) (digits + 1))"

definition iso_fraction :: "string \<Rightarrow> (nat \<times> string) option" where
  "iso_fraction cursor =
     (case cursor of [] \<Rightarrow> Some (0, cursor)
      | c # rest \<Rightarrow> if c \<noteq> CHR ''.'' then Some (0, cursor)
          else do { (millisecond, digits, cursor) \<leftarrow> fraction_digits rest 0 0;
                    if digits = 0 then None else Some (millisecond * 10 ^ (3 - digits), cursor) })"

definition iso_zone :: "string \<Rightarrow> (int \<times> string) option" where
  "iso_zone cursor =
     (case cursor of [] \<Rightarrow> None
      | c # rest \<Rightarrow> if c = CHR ''Z'' then Some (0, rest)
          else if c = CHR ''+'' \<or> c = CHR ''-'' then
            do { (offsetHour, cursor) \<leftarrow> parseDigits rest 2 0; cursor \<leftarrow> clock_consume (CHR '':'') cursor;
                 (offsetMinute, cursor) \<leftarrow> parseDigits cursor 2 0;
                 if offsetHour > 14 \<or> offsetMinute > 59 \<or> (offsetHour = 14 \<and> offsetMinute \<noteq> 0) then None
                 else let magnitude = int (offsetHour * 60 + offsetMinute)
                      in Some (if c = CHR ''-'' then - magnitude else magnitude, cursor) }
          else None)"

definition parseIso8601 :: "string option \<Rightarrow> ClockResult + ParsedIso8601" where
  "parseIso8601 input = (case input of None \<Rightarrow> Inl InvalidIso8601 | Some text \<Rightarrow>
     case do { (year, month, day, hour, minute, second, cursor) \<leftarrow> iso_fields text;
               (millisecond, cursor) \<leftarrow> iso_fraction cursor;
               (offsetMinutes, cursor) \<leftarrow> iso_zone cursor;
               if cursor \<noteq> [] \<or> year > 65535 \<or> month > 255 \<or> day > 255 \<or> hour > 255 \<or> minute > 255 \<or> second > 255
               then None
               else do { unixSeconds \<leftarrow> civilToUnix (int year) (int month) (int day) (int hour) (int minute)
                                            (int second) offsetMinutes;
                         Some (unixSeconds, millisecond, offsetMinutes) } } of
       None \<Rightarrow> Inl InvalidIso8601
     | Some (unixSeconds, millisecond, offsetMinutes) \<Rightarrow>
         if \<not> validInstant (word_of_int unixSeconds) (of_nat millisecond) then Inl OutOfRange
         else Inr \<lparr>pi_unixSeconds = word_of_int unixSeconds, pi_millisecond = of_nat millisecond,
                   pi_utcOffsetMinutes = word_of_int offsetMinutes\<rparr>)"

text \<open>\<^verbatim>\<open>snprintf\<close>'s \<^verbatim>\<open>%0nu\<close>: the decimal digits, padded with zeros to the width.\<close>

fun decimal_text :: "nat \<Rightarrow> string" where
  "decimal_text n = (if n < 10 then [char_of (48 + n)] else decimal_text (n div 10) @ [char_of (48 + n mod 10)])"

declare decimal_text.simps [simp del]

definition fmt_u :: "nat \<Rightarrow> nat \<Rightarrow> string" where
  "fmt_u width n = replicate (width - length (decimal_text n)) (CHR ''0'') @ decimal_text n"

definition iso_text :: "CivilTime \<Rightarrow> nat \<Rightarrow> int \<Rightarrow> string" where
  "iso_text c millisecond utcOffsetMinutes =
     fmt_u 4 (nat (cv_year c)) @ ''-'' @ fmt_u 2 (nat (cv_month c)) @ ''-'' @ fmt_u 2 (nat (cv_day c)) @ ''T''
     @ fmt_u 2 (nat (cv_hour c)) @ '':'' @ fmt_u 2 (nat (cv_minute c)) @ '':'' @ fmt_u 2 (nat (cv_second c))
     @ (if millisecond = 0 then [] else ''.'' @ fmt_u 3 millisecond)
     @ (if utcOffsetMinutes = 0 then ''Z''
        else let magnitude = nat (if utcOffsetMinutes < 0 then - utcOffsetMinutes else utcOffsetMinutes)
             in (if utcOffsetMinutes < 0 then ''-'' else ''+'') @ fmt_u 2 (magnitude div 60) @ '':''
                @ fmt_u 2 (magnitude mod 60))"

text \<open>
  The buffer is its size, \<^verbatim>\<open>None\<close> for a null pointer; the second result is the C string the buffer holds
  afterwards, \<^verbatim>\<open>None\<close> when it was not written.
\<close>

definition formatIso8601 :: "u64 \<Rightarrow> u16 \<Rightarrow> i16 \<Rightarrow> nat option \<Rightarrow> ClockResult \<times> string option" where
  "formatIso8601 unixSeconds millisecond utcOffsetMinutes output =
     (case output of None \<Rightarrow> (ClockInvalidArgument, None)
      | Some outputBytes \<Rightarrow>
          if outputBytes = 0 then (ClockInvalidArgument, None)
          else if \<not> validOffset (sint utcOffsetMinutes) \<or> \<not> validInstant unixSeconds millisecond
          then (OutOfRange, Some [])
          else let text = iso_text (unixToCivil (uint unixSeconds) (sint utcOffsetMinutes)) (unat millisecond)
                            (sint utcOffsetMinutes)
               in if length text \<ge> outputBytes then (ClockInvalidArgument, Some []) else (ClockOk, Some text))"

subsection \<open>The clock\<close>

definition clock_reset :: KitsuClock where
  "clock_reset = \<lparr>ck_unixSeconds = 0, ck_millisecond = 0, ck_utcOffsetMinutes = 0, ck_lastMillis = 0,
     ck_restoredGeneration = 0, ck_source = SourceNone, ck_trust = TrustUnset, ck_lastResult = NotSet,
     ck_monotonicHealthy = False\<rparr>"

definition clock_set :: "KitsuClock \<Rightarrow> bool" where
  "clock_set c \<longleftrightarrow> ck_trust c \<noteq> TrustUnset"

definition clock_fail :: "KitsuClock \<Rightarrow> ClockResult \<Rightarrow> ClockResult \<times> KitsuClock" where
  "clock_fail c r = (r, c\<lparr>ck_lastResult := r\<rparr>)"

definition setAnchor :: "KitsuClock \<Rightarrow> u64 \<Rightarrow> u16 \<Rightarrow> ClockSource \<Rightarrow> i16 \<Rightarrow> u32 \<Rightarrow> ClockResult \<times> KitsuClock" where
  "setAnchor c unixSeconds millisecond source utcOffsetMinutes nowMillis =
     (if \<not> validDirectSource source then clock_fail c InvalidSource
      else if \<not> validOffset (sint utcOffsetMinutes) then clock_fail c OutOfRange
      else if \<not> validInstant unixSeconds millisecond then clock_fail c OutOfRange
      else (ClockOk, c\<lparr>ck_unixSeconds := unixSeconds, ck_millisecond := millisecond,
              ck_utcOffsetMinutes := utcOffsetMinutes, ck_lastMillis := nowMillis, ck_source := source,
              ck_trust := Trusted, ck_monotonicHealthy := True, ck_lastResult := ClockOk\<rparr>))"

definition setFromIso8601 :: "KitsuClock \<Rightarrow> string option \<Rightarrow> ClockSource \<Rightarrow> u32 \<Rightarrow> ClockResult \<times> KitsuClock" where
  "setFromIso8601 c input source nowMillis =
     (if \<not> validDirectSource source then clock_fail c InvalidSource
      else case parseIso8601 input of Inl e \<Rightarrow> clock_fail c e
        | Inr parsed \<Rightarrow> setAnchor c (pi_unixSeconds parsed) (pi_millisecond parsed) source
                          (pi_utcOffsetMinutes parsed) nowMillis)"

definition setFromUnixText ::
    "KitsuClock \<Rightarrow> string option \<Rightarrow> ClockSource \<Rightarrow> i16 \<Rightarrow> u32 \<Rightarrow> ClockResult \<times> KitsuClock" where
  "setFromUnixText c input source utcOffsetMinutes nowMillis =
     (if \<not> validDirectSource source then clock_fail c InvalidSource
      else case parseUnixText input of Inl e \<Rightarrow> clock_fail c e
        | Inr unixSeconds \<Rightarrow> setAnchor c unixSeconds 0 source utcOffsetMinutes nowMillis)"

definition setFromUnixSeconds ::
    "KitsuClock \<Rightarrow> u64 \<Rightarrow> u16 \<Rightarrow> ClockSource \<Rightarrow> i16 \<Rightarrow> u32 \<Rightarrow> ClockResult \<times> KitsuClock" where
  "setFromUnixSeconds c unixSeconds millisecond source utcOffsetMinutes nowMillis =
     setAnchor c unixSeconds millisecond source utcOffsetMinutes nowMillis"

definition acceptNtp :: "KitsuClock \<Rightarrow> NetworkTimeSample \<Rightarrow> u32 \<Rightarrow> ClockResult \<times> KitsuClock" where
  "acceptNtp c sample nowMillis =
     (if \<not> nt_synchronized sample then clock_fail c NetworkTimeNotSynchronized
      else if \<not> validInstant (nt_unixSeconds sample) (nt_millisecond sample) then clock_fail c OutOfRange
      else (ClockOk, c\<lparr>ck_unixSeconds := nt_unixSeconds sample, ck_millisecond := nt_millisecond sample,
              ck_lastMillis := nowMillis, ck_source := NetworkTime, ck_trust := Trusted,
              ck_monotonicHealthy := True, ck_lastResult := ClockOk\<rparr>))"

definition setUtcOffsetMinutes :: "KitsuClock \<Rightarrow> i16 \<Rightarrow> ClockResult \<times> KitsuClock" where
  "setUtcOffsetMinutes c utcOffsetMinutes =
     (if \<not> validOffset (sint utcOffsetMinutes) then clock_fail c OutOfRange
      else (ClockOk, c\<lparr>ck_utcOffsetMinutes := utcOffsetMinutes, ck_lastResult := ClockOk\<rparr>))"

definition clock_advance :: "KitsuClock \<Rightarrow> u32 \<Rightarrow> ClockResult \<times> KitsuClock" where
  "clock_advance c nowMillis =
     (if \<not> clock_set c then clock_fail c NotSet
      else let delta = nowMillis - ck_lastMillis c
           in if delta > 0x7FFFFFFF
              then (MonotonicDiscontinuity, c\<lparr>ck_lastMillis := nowMillis, ck_trust := RestoredStale,
                      ck_monotonicHealthy := False, ck_lastResult := MonotonicDiscontinuity\<rparr>)
              else let totalMilliseconds = (ucast (ck_millisecond c) + ucast delta :: u64);
                       addedSeconds = totalMilliseconds div 1000;
                       nextMillisecond = (ucast (totalMilliseconds mod 1000) :: u16)
                   in if addedSeconds > kMaximumClockUnixSeconds - ck_unixSeconds c
                         \<or> (ck_unixSeconds c + addedSeconds = kMaximumClockUnixSeconds \<and> nextMillisecond \<noteq> 0)
                      then (OutOfRange, c\<lparr>ck_unixSeconds := kMaximumClockUnixSeconds, ck_millisecond := 0,
                              ck_lastMillis := nowMillis, ck_trust := RestoredStale,
                              ck_monotonicHealthy := False, ck_lastResult := OutOfRange\<rparr>)
                      else (ClockOk, c\<lparr>ck_unixSeconds := ck_unixSeconds c + addedSeconds,
                              ck_millisecond := nextMillisecond, ck_lastMillis := nowMillis,
                              ck_lastResult := ClockOk\<rparr>))"

definition clock_read :: "KitsuClock \<Rightarrow> u32 \<Rightarrow> ClockResult \<times> ClockReading \<times> KitsuClock" where
  "clock_read c nowMillis =
     (let (result, c) = clock_advance c nowMillis
      in (result,
          \<lparr>rd_unixSeconds = (if clock_set c then ck_unixSeconds c else 0),
           rd_millisecond = (if clock_set c then ck_millisecond c else 0),
           rd_utcOffsetMinutes = ck_utcOffsetMinutes c, rd_source = ck_source c, rd_trust = ck_trust c,
           rd_monotonicHealthy = ck_monotonicHealthy c\<rparr>, c))"

definition makeSnapshot :: "KitsuClock \<Rightarrow> u32 \<Rightarrow> u32 \<Rightarrow> ClockResult \<times> ClockSnapshot option \<times> KitsuClock" where
  "makeSnapshot c nowMillis generation =
     (let (advanced, c) = clock_advance c nowMillis
      in if advanced \<noteq> ClockOk then (advanced, None, c)
         else let candidate = snapshot0\<lparr>sn_source := ck_source c, sn_savedTrust := ck_trust c,
                    sn_generation := generation, sn_millisecond := ck_millisecond c,
                    sn_utcOffsetMinutes := ck_utcOffsetMinutes c, sn_unixSeconds := ck_unixSeconds c\<rparr>
              in (ClockOk, Some (candidate\<lparr>sn_crc32 := snapshotCrc candidate\<rparr>), c\<lparr>ck_lastResult := ClockOk\<rparr>))"

definition validateSnapshot :: "ClockSnapshot \<Rightarrow> ClockResult" where
  "validateSnapshot s =
     (if sn_magic s \<noteq> kSnapshotMagic then BadSnapshotMagic
      else if sn_schemaVersion s \<noteq> kClockSnapshotSchemaVersion \<or> sn_bytes s \<noteq> kClockSnapshotBytes
      then UnsupportedSnapshot
      else if sn_crc32 s \<noteq> snapshotCrc s then CorruptSnapshot
      else if \<not> validSource (sn_source s)
              \<or> (sn_savedTrust s \<noteq> Trusted \<and> sn_savedTrust s \<noteq> RestoredStale)
              \<or> \<not> validInstant (sn_unixSeconds s) (sn_millisecond s)
              \<or> \<not> validOffset (sint (sn_utcOffsetMinutes s))
              \<or> sn_reserved s ! 0 \<noteq> 0 \<or> sn_reserved s ! 1 \<noteq> 0 \<or> sn_reserved s ! 2 \<noteq> 0 \<or> sn_reserved s ! 3 \<noteq> 0
      then InvalidSnapshot else ClockOk)"

definition clock_restore :: "KitsuClock \<Rightarrow> ClockSnapshot \<Rightarrow> u32 \<Rightarrow> ClockResult \<times> KitsuClock" where
  "clock_restore c s nowMillis =
     (let valid = validateSnapshot s
      in if valid \<noteq> ClockOk then clock_fail c valid
         else (ClockOk, c\<lparr>ck_unixSeconds := sn_unixSeconds s, ck_millisecond := sn_millisecond s,
                 ck_utcOffsetMinutes := sn_utcOffsetMinutes s, ck_lastMillis := nowMillis,
                 ck_restoredGeneration := sn_generation s, ck_source := sn_source s,
                 ck_trust := RestoredStale, ck_monotonicHealthy := True, ck_lastResult := ClockOk\<rparr>))"

definition clock_generationAfter :: "u32 \<Rightarrow> u32 \<Rightarrow> bool" where
  "clock_generationAfter candidate reference \<longleftrightarrow> sint (candidate - reference) > 0"

end
