(* ===== verification/Clock_Text.thy ===== *)
theory Clock_Text
  imports Kitsu_Clock
begin

text \<open>
  The text formats of the clock: what the printer of \<^verbatim>\<open>formatIso8601\<close> writes, \<^verbatim>\<open>parseIso8601\<close> reads back,
  and the Unix-seconds parser computes the number that its digits denote, without wrapping.
\<close>

subsection \<open>Digits\<close>

lemma digit_char [simp]:
  assumes "d < 10"
  shows "clock_digit (char_of (48 + d))" and "digit_value (char_of (48 + d)) = d"
  using assms by (simp_all add: clock_digit_def digit_value_def of_char_of)

lemma digit_value_less: "clock_digit c \<Longrightarrow> digit_value c < 10"
  unfolding clock_digit_def digit_value_def by arith

lemma zero_char: "char_of (48 :: nat) = CHR ''0''"
  by (simp add: char_of_eq_iff)

text \<open>The last \<open>w\<close> decimal digits of a number.\<close>

primrec fixed_text :: "nat \<Rightarrow> nat \<Rightarrow> string" where
  "fixed_text 0 n = []"
| "fixed_text (Suc w) n = fixed_text w (n div 10) @ [char_of (48 + n mod 10)]"

lemma length_fixed_text [simp]: "length (fixed_text w n) = w"
  by (induction w arbitrary: n) simp_all

lemma fixed_text_zero: "fixed_text w 0 = replicate w (CHR ''0'')"
  by (induction w) (simp_all add: replicate_append_same zero_char)

lemma decimal_text_length: "n < 10 ^ w \<Longrightarrow> 0 < w \<Longrightarrow> length (decimal_text n) \<le> w"
proof (induction n arbitrary: w rule: decimal_text.induct)
  case (1 n)
  show ?case
  proof (cases "n < 10")
    case True
    then show ?thesis using 1(3) by (simp add: decimal_text.simps [of n])
  next
    case False
    then obtain k where "w = Suc k" "0 < k" using 1(2,3) by (cases w; cases "w - 1") auto
    moreover have "n div 10 < 10 ^ k" using 1(2) \<open>w = Suc k\<close> by (simp add: div_less_iff_less_mult mult.commute)
    ultimately show ?thesis using 1(1) [OF False] False by (simp add: decimal_text.simps [of n])
  qed
qed

lemma fmt_u_fixed: "n < 10 ^ w \<Longrightarrow> 0 < w \<Longrightarrow> fmt_u w n = fixed_text w n"
proof (induction w arbitrary: n)
  case (Suc w)
  show ?case
  proof (cases "n < 10")
    case True
    then show ?thesis by (simp add: fmt_u_def decimal_text.simps [of n] fixed_text_zero)
  next
    case False
    then have "0 < w" using Suc.prems(1) by (cases w) auto
    moreover have small: "n div 10 < 10 ^ w" using Suc.prems(1) by (simp add: div_less_iff_less_mult mult.commute)
    ultimately have "fmt_u w (n div 10) = fixed_text w (n div 10)" by (intro Suc.IH)
    then show ?thesis
      using False by (simp add: fmt_u_def decimal_text.simps [of n])
  qed
qed simp

lemma parseDigits_append:
  "parseDigits cs (m + k) v = parseDigits cs m v \<bind> (\<lambda>(v, cs). parseDigits cs k v)"
  by (induction cs m v rule: parseDigits.induct) simp_all

lemma parseDigits_fixed: "n < 10 ^ w \<Longrightarrow> parseDigits (fixed_text w n @ rest) w v = Some (v * 10 ^ w + n, rest)"
proof (induction w arbitrary: n v rest)
  case (Suc w)
  have "n div 10 < 10 ^ w" using Suc.prems by (simp add: div_less_iff_less_mult mult.commute)
  then have "parseDigits (fixed_text (Suc w) n @ rest) w v
      = Some (v * 10 ^ w + n div 10, char_of (48 + n mod 10) # rest)"
    using Suc.IH [of "n div 10" "char_of (48 + n mod 10) # rest" v] by simp
  then have "parseDigits (fixed_text (Suc w) n @ rest) (w + 1) v = Some (v * 10 ^ Suc w + n, rest)"
    by (simp only: parseDigits_append) (simp add: algebra_simps)
  then show ?case by simp
qed simp

lemma parseDigits_fmt [simp]:
  "n < 100 \<Longrightarrow> parseDigits (fmt_u 2 n @ rest) 2 0 = Some (n, rest)"
  "n < 10000 \<Longrightarrow> parseDigits (fmt_u 4 n @ rest) 4 0 = Some (n, rest)"
  using parseDigits_fixed [of n 2 rest 0] parseDigits_fixed [of n 4 rest 0] by (simp_all add: fmt_u_fixed)

lemma parseDigits_fmt_end [simp]: "n < 100 \<Longrightarrow> parseDigits (fmt_u 2 n) 2 0 = Some (n, [])"
  using parseDigits_fmt(1) [of n "[]"] by simp

subsection \<open>The parts of the ISO-8601 text\<close>

lemma iso_fields_text:
  assumes "y < 10000" "m < 100" "d < 100" "h < 100" "mi < 100" "s < 100"
  shows "iso_fields (fmt_u 4 y @ ''-'' @ fmt_u 2 m @ ''-'' @ fmt_u 2 d @ ''T'' @ fmt_u 2 h @ '':'' @ fmt_u 2 mi
    @ '':'' @ fmt_u 2 s @ rest) = Some (y, m, d, h, mi, s, rest)"
  using assms by (simp add: iso_fields_def)

definition zone_text :: "int \<Rightarrow> string" where
  "zone_text off = (if off = 0 then ''Z''
     else let magnitude = nat (if off < 0 then - off else off)
          in (if off < 0 then ''-'' else ''+'') @ fmt_u 2 (magnitude div 60) @ '':'' @ fmt_u 2 (magnitude mod 60))"

lemma zone_text_head: "\<exists>c rest. zone_text off = c # rest \<and> \<not> clock_digit c \<and> c \<noteq> CHR ''.''"
  by (auto simp: zone_text_def clock_digit_def Let_def of_char_def)

lemma iso_zone_text:
  assumes "validOffset off"
  shows "iso_zone (zone_text off) = Some (off, [])"
proof -
  define k where "k = nat \<bar>off\<bar>"
  have k: "k \<le> 840" "int k = \<bar>off\<bar>"
    using assms by (auto simp: k_def validOffset_def kMinimumUtcOffsetMinutes_def kMaximumUtcOffsetMinutes_def)
  have parts: "k div 60 \<le> 14" "k mod 60 \<le> 59" "k div 60 = 14 \<Longrightarrow> k mod 60 = 0"
    using div_le_mono [OF k(1), of 60] div_mult_mod_eq [of k 60] k(1) by simp_all
  have "int (k div 60 * 60 + k mod 60) = \<bar>off\<bar>" by (simp add: k(2))
  moreover have "nat (if off < 0 then - off else off) = k" by (simp add: k_def)
  ultimately show ?thesis
    using parts by (auto simp: zone_text_def iso_zone_def Let_def)
qed

lemma fixed_text_three: "fixed_text 3 n = [char_of (48 + n div 10 div 10 mod 10), char_of (48 + n div 10 mod 10), char_of (48 + n mod 10)]"
  by (simp add: numeral_3_eq_3)

lemma three_digits: "n < 1000 \<Longrightarrow> (n div 10 div 10 mod 10 * 10 + n div 10 mod 10) * 10 + n mod 10 = n" for n :: nat
proof -
  assume n: "n < 1000"
  define m where "m = n div 10"
  have "n = m * 10 + n mod 10" "m = m div 10 * 10 + m mod 10" by (simp_all add: m_def)
  moreover have "m div 10 mod 10 = m div 10" using n by (intro mod_less) (simp add: m_def)
  ultimately show ?thesis by (simp only: m_def [symmetric])
qed

lemma iso_fraction_text:
  assumes "ms < 1000"
  shows "iso_fraction ((if ms = 0 then [] else ''.'' @ fmt_u 3 ms) @ zone_text off) = Some (ms, zone_text off)"
proof -
  obtain c rest where z: "zone_text off = c # rest" "\<not> clock_digit c" "c \<noteq> CHR ''.''" using zone_text_head by blast
  have "fmt_u 3 ms = fixed_text 3 ms" using assms by (intro fmt_u_fixed) simp_all
  then show ?thesis
    using assms z three_digits [OF assms]
    by (simp add: iso_fraction_def fixed_text_three numeral_3_eq_3)
qed

lemma iso_text_form:
  "iso_text c ms off = fmt_u 4 (nat (cv_year c)) @ ''-'' @ fmt_u 2 (nat (cv_month c)) @ ''-'' @ fmt_u 2 (nat (cv_day c)) @ ''T''
     @ fmt_u 2 (nat (cv_hour c)) @ '':'' @ fmt_u 2 (nat (cv_minute c)) @ '':'' @ fmt_u 2 (nat (cv_second c))
     @ (if ms = 0 then [] else ''.'' @ fmt_u 3 ms) @ zone_text off"
  by (simp add: iso_text_def zone_text_def)

lemma parse_iso_text:
  assumes c: "valid_civil c" and y: "0 \<le> cv_year c" "cv_year c \<le> 9999" and ms: "ms < 1000" and off: "validOffset off"
    and u: "civilToUnix (cv_year c) (cv_month c) (cv_day c) (cv_hour c) (cv_minute c) (cv_second c) off = Some u"
    and valid: "validInstant (word_of_int u) (of_nat ms)"
  shows "parseIso8601 (Some (iso_text c ms off)) = Inr \<lparr>pi_unixSeconds = word_of_int u, pi_millisecond = of_nat ms,
    pi_utcOffsetMinutes = word_of_int off\<rparr>"
proof -
  have r: "0 \<le> cv_month c" "cv_month c \<le> 12" "0 \<le> cv_day c" "cv_day c \<le> 31" "0 \<le> cv_hour c" "cv_hour c \<le> 23"
    "0 \<le> cv_minute c" "cv_minute c \<le> 59" "0 \<le> cv_second c" "cv_second c \<le> 59"
    using c monthDays_bounds [of "cv_month c" "cv_year c"] by (auto simp: valid_civil_def valid_date_def)
  then have "iso_fields (iso_text c ms off) = Some (nat (cv_year c), nat (cv_month c), nat (cv_day c), nat (cv_hour c),
      nat (cv_minute c), nat (cv_second c), (if ms = 0 then [] else ''.'' @ fmt_u 3 ms) @ zone_text off)"
    unfolding iso_text_form using y by (intro iso_fields_text) simp_all
  moreover have "nat (cv_year c) \<le> 65535" "nat (cv_month c) \<le> 255" "nat (cv_day c) \<le> 255" "nat (cv_hour c) \<le> 255"
    "nat (cv_minute c) \<le> 255" "nat (cv_second c) \<le> 255" using r y by simp_all
  ultimately show ?thesis
    using iso_fraction_text [OF ms, of off] iso_zone_text [OF off] u valid r y
    by (simp add: parseIso8601_def)
qed

subsection \<open>Words\<close>

lemma sint_i16 [simp]: "word_of_int (sint (x :: i16)) = x"
  by simp

lemma valid_instant_range:
  assumes "validInstant u ms"
  shows "1704067200 \<le> unat u" "unat u \<le> 4102444800" "unat ms \<le> 999" "unat u = 4102444800 \<longrightarrow> ms = 0"
proof -
  have "unat (1704067200 :: u64) = 1704067200" "unat (4102444800 :: u64) = 4102444800" "unat (999 :: u16) = 999"
    by simp_all
  then show "1704067200 \<le> unat u" "unat u \<le> 4102444800" "unat ms \<le> 999"
    using assms by (auto simp: validInstant_def clock_consts word_less_nat_alt not_less)
  show "unat u = 4102444800 \<longrightarrow> ms = 0"
    using assms by (auto simp: validInstant_def clock_consts word_unat_eq_iff)
qed

lemma iso_text_length:
  assumes "valid_civil c" "0 \<le> cv_year c" "cv_year c \<le> 9999" "ms < 1000" "validOffset off"
  shows "length (iso_text c ms off) \<le> 29"
proof -
  have r: "0 \<le> cv_month c" "cv_month c \<le> 12" "0 \<le> cv_day c" "cv_day c \<le> 31" "0 \<le> cv_hour c" "cv_hour c \<le> 23"
    "0 \<le> cv_minute c" "cv_minute c \<le> 59" "0 \<le> cv_second c" "cv_second c \<le> 59"
    using assms(1) monthDays_bounds [of "cv_month c" "cv_year c"] by (auto simp: valid_civil_def valid_date_def)
  have len2: "length (fmt_u 2 n) = 2" if "n < 100" for n using that by (simp add: fmt_u_fixed)
  have "length (fmt_u 4 (nat (cv_year c))) = 4" using assms(2,3) by (simp add: fmt_u_fixed)
  moreover have "length (if ms = 0 then [] else ''.'' @ fmt_u 3 ms) \<le> 4" using assms(4) by (simp add: fmt_u_fixed)
  moreover have "length (zone_text off) \<le> 6"
    using assms(5) by (auto simp: zone_text_def Let_def len2 validOffset_def kMinimumUtcOffsetMinutes_def
        kMaximumUtcOffsetMinutes_def)
  ultimately show ?thesis unfolding iso_text_form using r by (simp add: len2)
qed

text \<open>
  C39. A printed time is read back exactly: for every instant and zone offset the clock can hold,
  \<^verbatim>\<open>formatIso8601\<close> into a buffer of \<^verbatim>\<open>kClockIso8601BufferBytes\<close> or more succeeds, and
  \<^verbatim>\<open>parseIso8601\<close> of the text gives the same second, millisecond and offset.
\<close>

theorem iso8601_roundtrip:
  assumes "validInstant u ms" and "validOffset (sint off)" and "30 \<le> n"
  shows "\<exists>text. formatIso8601 u ms off (Some n) = (ClockOk, Some text)
    \<and> parseIso8601 (Some text) = Inr \<lparr>pi_unixSeconds = u, pi_millisecond = ms, pi_utcOffsetMinutes = off\<rparr>"
proof -
  define c where "c = unixToCivil (uint u) (sint off)"
  note range = valid_instant_range [OF assms(1)]
  have u: "1704067200 \<le> uint u" "uint u \<le> 4102444800"
    using range(1,2) by (simp_all only: uint_nat)
  have off: "-840 \<le> sint off" "sint off \<le> 840"
    using assms(2) by (simp_all add: validOffset_def kMinimumUtcOffsetMinutes_def kMaximumUtcOffsetMinutes_def)
  have t: "0 \<le> uint u + sint off * 60" "uint u + sint off * 60 \<le> 4102495200" using u off by linarith+
  have c: "valid_civil c" "1970 \<le> cv_year c" "cv_year c \<le> 2100"
    using unixToCivil_ranges [OF t] by (simp_all add: c_def)
  have inverse: "civilToUnix (cv_year c) (cv_month c) (cv_day c) (cv_hour c) (cv_minute c) (cv_second c) (sint off) = Some (uint u)"
    using civilToUnix_unixToCivil [OF _ assms(2) t] by (simp add: c_def)
  have ms: "unat ms < 1000" using range(3) by simp
  have "length (iso_text c (unat ms) (sint off)) \<le> 29"
    using c by (intro iso_text_length) (simp_all add: ms assms(2))
  then have "formatIso8601 u ms off (Some n) = (ClockOk, Some (iso_text c (unat ms) (sint off)))"
    using assms by (simp add: formatIso8601_def c_def Let_def)
  moreover have "parseIso8601 (Some (iso_text c (unat ms) (sint off)))
      = Inr \<lparr>pi_unixSeconds = u, pi_millisecond = ms, pi_utcOffsetMinutes = off\<rparr>"
    using parse_iso_text [OF c(1) _ _ ms assms(2) inverse] c assms(1) by simp
  ultimately show ?thesis by blast
qed

theorem iso8601_roundtrip_witness:
  "\<exists>text. formatIso8601 1709210096 250 (word_of_int (-570)) (Some 30) = (ClockOk, Some text)
    \<and> parseIso8601 (Some text)
        = Inr \<lparr>pi_unixSeconds = 1709210096, pi_millisecond = 250, pi_utcOffsetMinutes = word_of_int (-570)\<rparr>"
  by (rule iso8601_roundtrip)
    (simp_all add: validInstant_def clock_consts validOffset_def kMinimumUtcOffsetMinutes_def kMaximumUtcOffsetMinutes_def)

subsection \<open>Unix seconds as text\<close>

definition text_value :: "nat \<Rightarrow> string \<Rightarrow> nat" where
  "text_value = foldl (\<lambda>v c. v * 10 + digit_value c)"

lemma text_value_ge: "v \<le> text_value v cs"
proof (induction cs arbitrary: v)
  case (Cons c cs)
  show ?case using Cons.IH [of "v * 10 + digit_value c"] by (simp add: text_value_def)
qed (simp add: text_value_def)

lemma unat_of_nat64: "v < 18446744073709551616 \<Longrightarrow> unat (of_nat v :: u64) = v"
  by (simp add: unat_of_nat take_bit_nat_eq_self)

lemma digit_overflow:
  fixes w :: u64
  assumes "d < 10"
  shows "(0xFFFFFFFFFFFFFFFF - of_nat d) div 10 < w \<longleftrightarrow> 18446744073709551616 \<le> unat w * 10 + d"
proof -
  have d: "unat (of_nat d :: u64) = d" using assms by (intro unat_of_nat64) simp
  have "unat (0xFFFFFFFFFFFFFFFF - of_nat d :: u64) = 18446744073709551615 - d"
    using assms by (subst unat_sub) (simp_all add: d word_le_nat_alt)
  then have "unat ((0xFFFFFFFFFFFFFFFF - of_nat d :: u64) div 10) = (18446744073709551615 - d) div 10"
    by (simp add: unat_div)
  then show ?thesis using assms by (simp add: word_less_nat_alt div_less_iff_less_mult) arith
qed

lemma unix_digits_exact:
  "list_all clock_digit cs \<Longrightarrow> unix_digits cs w =
     (if text_value (unat w) cs < 18446744073709551616 then Inr (of_nat (text_value (unat w) cs)) else Inl OutOfRange)"
proof (induction cs arbitrary: w)
  case Nil
  then show ?case using unat64_lt [of w] by (simp add: text_value_def)
next
  case (Cons c cs)
  define d where "d = digit_value c"
  have d: "d < 10" using Cons.prems by (simp add: d_def digit_value_less)
  show ?case
  proof (cases "18446744073709551616 \<le> unat w * 10 + d")
    case True
    moreover have "unat w * 10 + d \<le> text_value (unat w) (c # cs)"
      using text_value_ge [of "unat w * 10 + d" cs] by (simp add: text_value_def d_def)
    ultimately show ?thesis
      using Cons.prems digit_overflow [OF d, of w] by (simp add: d_def [symmetric] Let_def)
  next
    case False
    then have small: "unat w * 10 + d < 18446744073709551616" by simp
    have "w * 10 + of_nat d = of_nat (unat w * 10 + d)" by simp
    then have "unat (w * 10 + of_nat d) = unat w * 10 + d"
      using small by (simp only: unat_of_nat64)
    then show ?thesis
      using Cons.prems False digit_overflow [OF d, of w] Cons.IH [of "w * 10 + of_nat d"]
      by (simp add: d_def [symmetric] Let_def text_value_def)
  qed
qed

lemma parseUnixText_exact:
  assumes "list_all clock_digit cs" "cs \<noteq> []"
  shows "parseUnixText (Some cs) =
    (if 1704067200 \<le> text_value 0 cs \<and> text_value 0 cs \<le> 4102444800
     then Inr (of_nat (text_value 0 cs)) else Inl OutOfRange)"
proof -
  define v where "v = text_value 0 cs"
  have "validInstant (of_nat v) 0 \<longleftrightarrow> 1704067200 \<le> v \<and> v \<le> 4102444800" if "v < 18446744073709551616"
  proof -
    have "unat (of_nat v :: u64) = v" using that by (rule unat_of_nat64)
    then show ?thesis by (simp add: validInstant_def clock_consts word_less_nat_alt not_less)
  qed
  then show ?thesis
    using assms unix_digits_exact [of cs 0] by (simp add: parseUnixText_def v_def [symmetric])
qed

end
