(* ===== verification/Clock_Laws.thy ===== *)
theory Clock_Laws
  imports Clock_Text
begin

text \<open>
  The wall clock as a state machine.  \<open>clock_call\<close> is one call of a method of \<^verbatim>\<open>KitsuClock\<close>;
  \<open>clock_run\<close> collects the states that calls can produce together with a ghost that never looks at
  the clock object's fields: the instant of the last accepted anchor, the milliseconds of monotonic
  time that passed since, summed over the samples of the wrapping counter, and the last sample.
\<close>

subsection \<open>Calls\<close>

datatype ClockCall = CallReset | CallIso "string option" ClockSource u32 | CallUnixText "string option" ClockSource i16 u32
  | CallUnix u64 u16 ClockSource i16 u32 | CallNtp NetworkTimeSample u32 | CallOffset i16
  | CallRead u32 | CallSnapshot u32 u32 | CallRestore ClockSnapshot u32

fun clock_call :: "KitsuClock \<Rightarrow> ClockCall \<Rightarrow> ClockResult \<times> KitsuClock" where
  "clock_call c CallReset = (NotSet, clock_reset)"
| "clock_call c (CallIso text source now) = setFromIso8601 c text source now"
| "clock_call c (CallUnixText text source off now) = setFromUnixText c text source off now"
| "clock_call c (CallUnix u ms source off now) = setFromUnixSeconds c u ms source off now"
| "clock_call c (CallNtp sample now) = acceptNtp c sample now"
| "clock_call c (CallOffset off) = setUtcOffsetMinutes c off"
| "clock_call c (CallRead now) = (case clock_read c now of (r, _, c) \<Rightarrow> (r, c))"
| "clock_call c (CallSnapshot now gen) = (case makeSnapshot c now gen of (r, _, c) \<Rightarrow> (r, c))"
| "clock_call c (CallRestore s now) = clock_restore c s now"

definition instant_ms :: "KitsuClock \<Rightarrow> nat" where
  "instant_ms c = 1000 * unat (ck_unixSeconds c) + unat (ck_millisecond c)"

definition clock_inv :: "KitsuClock \<Rightarrow> bool" where
  "clock_inv c \<longleftrightarrow> validOffset (sint (ck_utcOffsetMinutes c))
     \<and> (ck_trust c = TrustUnset \<or> ck_trust c = RestoredStale \<or> ck_trust c = Trusted)
     \<and> (clock_set c \<longrightarrow> validInstant (ck_unixSeconds c) (ck_millisecond c) \<and> validSource (ck_source c))
     \<and> (ck_trust c = Trusted \<longrightarrow> ck_monotonicHealthy c)"

lemma validOffset_zero [simp]: "validOffset 0"
  by (simp add: validOffset_def kMinimumUtcOffsetMinutes_def kMaximumUtcOffsetMinutes_def)

lemma directSource_valid [simp]: "validDirectSource s \<Longrightarrow> validSource s"
  by (auto simp: validDirectSource_def validSource_def)

lemma networkTime_valid [simp]: "validSource NetworkTime"
  by (simp add: validSource_def)

lemma clock_inv_lastResult [simp]: "clock_inv (c\<lparr>ck_lastResult := r\<rparr>) = clock_inv c"
  by (simp add: clock_inv_def clock_set_def)

subsection \<open>Advancing\<close>

lemma valid_instantI:
  assumes "1704067200 \<le> unat u" "unat u \<le> 4102444800" "unat ms \<le> 999" "unat u = 4102444800 \<longrightarrow> ms = 0"
  shows "validInstant u ms"
proof -
  have "u = 4102444800 \<Longrightarrow> unat u = 4102444800" by simp
  with assms show ?thesis by (auto simp: validInstant_def clock_consts word_less_nat_alt)
qed

text \<open>One step of the monotonic counter, over natural numbers.\<close>

lemma instant_limit:
  assumes "validInstant u ms" and "1000 * unat u + unat ms + d = 1000 * q + r" and "r < 1000"
  shows "unat u + (unat ms + d) div 1000 = q" and "(unat ms + d) mod 1000 = r"
proof -
  have "1000 * unat u + (unat ms + d) = 1000 * q + r" using assms(2) by simp
  then have "(1000 * unat u + (unat ms + d)) div 1000 = q" "(1000 * unat u + (unat ms + d)) mod 1000 = r"
    using assms(3) by simp_all
  then show "unat u + (unat ms + d) div 1000 = q" "(unat ms + d) mod 1000 = r" by simp_all
qed

lemma unat_delta: "unat (ucast (d :: u32) :: u64) = unat d" "unat (ucast (m :: u16) :: u64) = unat m"
  by (simp_all add: unsigned_ucast_eq take_bit_nat_eq_self_iff)
    (use unat32_lt [of d] unat16_lt [of m] in simp_all)

lemma clock_total:
  fixes m :: u16 and d :: u32
  shows "unat (ucast m + ucast d :: u64) = unat m + unat d"
  using unat16_lt [of m] unat32_lt [of d] by (simp add: unat_plus_small unat_delta)

lemma clock_advance_cases:
  fixes c :: KitsuClock and now :: u32
  assumes "clock_inv c" "clock_set c"
  defines "d \<equiv> unat (now - ck_lastMillis c)"
  obtains
    (jump) "2147483648 \<le> d" "clock_advance c now = (MonotonicDiscontinuity, c\<lparr>ck_lastMillis := now,
        ck_trust := RestoredStale, ck_monotonicHealthy := False, ck_lastResult := MonotonicDiscontinuity\<rparr>)"
  | (over) "d < 2147483648" "4102444800000 < instant_ms c + d"
      "clock_advance c now = (OutOfRange, c\<lparr>ck_unixSeconds := kMaximumClockUnixSeconds, ck_millisecond := 0,
        ck_lastMillis := now, ck_trust := RestoredStale, ck_monotonicHealthy := False, ck_lastResult := OutOfRange\<rparr>)"
  | (ok) u ms where "d < 2147483648" "1000 * unat u + unat ms = instant_ms c + d" "validInstant u ms"
      "clock_advance c now = (ClockOk, c\<lparr>ck_unixSeconds := u, ck_millisecond := ms, ck_lastMillis := now,
        ck_lastResult := ClockOk\<rparr>)"
proof -
  define delta where "delta = now - ck_lastMillis c"
  have d: "d = unat delta" by (simp add: d_def delta_def)
  have inst: "validInstant (ck_unixSeconds c) (ck_millisecond c)" using assms by (simp add: clock_inv_def)
  note bounds = valid_instant_range [OF inst]
  define total where "total = (ucast (ck_millisecond c) + ucast delta :: u64)"
  define u where "u = ck_unixSeconds c + total div 1000"
  define ms where "ms = (ucast (total mod 1000) :: u16)"
  define q r where "q = (unat (ck_millisecond c) + d) div 1000" and "r = (unat (ck_millisecond c) + d) mod 1000"
  have total: "unat total = unat (ck_millisecond c) + d" by (simp add: total_def d clock_total)
  have q: "unat (total div 1000) = q" by (simp add: unat_div total q_def)
  have "unat (total mod 1000) = r" by (simp add: unat_mod total r_def)
  then have r: "unat ms = r" "r < 1000"
    by (simp_all add: ms_def unsigned_ucast_eq take_bit_nat_eq_self r_def)
  have sum: "instant_ms c + d = 1000 * (unat (ck_unixSeconds c) + q) + r"
    by (simp add: instant_ms_def q_def r_def)
  have late: "kMaximumClockUnixSeconds - ck_unixSeconds c < total div 1000 \<longleftrightarrow> 4102444800 < unat (ck_unixSeconds c) + q"
  proof -
    have "unat (kMaximumClockUnixSeconds - ck_unixSeconds c) = 4102444800 - unat (ck_unixSeconds c)"
      using bounds(2) by (subst unat_sub) (simp_all add: clock_consts word_le_nat_alt)
    then show ?thesis using bounds(2) by (simp add: word_less_nat_alt q) arith
  qed
  have q_small: "q < 18446744073709551616 - 4102444800" using unat32_lt [of delta] bounds(3) by (simp add: q_def d)
  then have u: "unat u = unat (ck_unixSeconds c) + q"
    using bounds(2) by (simp add: u_def q unat_plus_small)
  have last: "u = kMaximumClockUnixSeconds \<longleftrightarrow> unat u = 4102444800"
    by (simp add: word_unat_eq_iff clock_consts)
  have msz: "ms = 0 \<longleftrightarrow> r = 0" using r(1) by (simp add: unat_eq_0 [symmetric])
  have limit: "4102444800 < unat (ck_unixSeconds c) + q \<or> (u = kMaximumClockUnixSeconds \<and> ms \<noteq> 0)
      \<longleftrightarrow> 4102444800000 < instant_ms c + d"
    unfolding last msz u sum using r(2) by auto
  have form: "clock_advance c now = (if 2147483648 \<le> d
      then (MonotonicDiscontinuity, c\<lparr>ck_lastMillis := now, ck_trust := RestoredStale, ck_monotonicHealthy := False,
              ck_lastResult := MonotonicDiscontinuity\<rparr>)
      else if 4102444800000 < instant_ms c + d
      then (OutOfRange, c\<lparr>ck_unixSeconds := kMaximumClockUnixSeconds, ck_millisecond := 0, ck_lastMillis := now,
              ck_trust := RestoredStale, ck_monotonicHealthy := False, ck_lastResult := OutOfRange\<rparr>)
      else (ClockOk, c\<lparr>ck_unixSeconds := u, ck_millisecond := ms, ck_lastMillis := now, ck_lastResult := ClockOk\<rparr>))"
  proof -
    have "0x7FFFFFFF < delta \<longleftrightarrow> 2147483648 \<le> d" by (simp add: word_less_nat_alt d) arith
    then show ?thesis
      using assms(2) limit [unfolded late [symmetric]]
      by (simp add: clock_advance_def Let_def delta_def [symmetric] total_def [symmetric] u_def [symmetric]
          ms_def [symmetric])
  qed
  consider "2147483648 \<le> d" | "d < 2147483648" "4102444800000 < instant_ms c + d"
    | "d < 2147483648" "instant_ms c + d \<le> 4102444800000" by linarith
  then show ?thesis
  proof cases
    case 3
    have eq: "1000 * unat u + unat ms = instant_ms c + d" by (simp add: u r sum)
    have "1704067200 \<le> unat u" "unat u \<le> 4102444800" "unat ms \<le> 999" "unat u = 4102444800 \<longrightarrow> unat ms = 0"
      using 3 eq bounds r by (simp_all add: u)
    then have "validInstant u ms"
      by (intro valid_instantI) (simp_all add: unat_eq_0)
    then show ?thesis using 3 eq form by (intro ok) simp_all
  qed (use form jump over in simp_all)
qed

subsection \<open>The invariant\<close>

lemma clock_advance_unset: "\<not> clock_set c \<Longrightarrow> clock_advance c now = (NotSet, c\<lparr>ck_lastResult := NotSet\<rparr>)"
  by (simp add: clock_advance_def clock_fail_def)

lemma validInstant_max [simp]: "validInstant kMaximumClockUnixSeconds 0"
  by (simp add: validInstant_def clock_consts)

lemma clock_advance_inv [kitsu_inv]: "clock_inv c \<Longrightarrow> clock_inv (snd (clock_advance c now))"
proof (cases "clock_set c")
  case True
  assume inv: "clock_inv c"
  from inv True show ?thesis
    by (cases rule: clock_advance_cases [of c now]) (use inv True in \<open>auto simp: clock_inv_def clock_set_def\<close>)
qed (simp add: clock_advance_unset)

lemma clock_fail_inv [simp]: "clock_inv (snd (clock_fail c r)) = clock_inv c"
  by (simp add: clock_fail_def)

lemma setAnchor_inv [kitsu_inv]: "clock_inv c \<Longrightarrow> clock_inv (snd (setAnchor c u ms source off now))"
  by (simp add: setAnchor_def) (simp add: clock_inv_def clock_set_def)

lemma setFromIso8601_inv [kitsu_inv]: "clock_inv c \<Longrightarrow> clock_inv (snd (setFromIso8601 c text source now))"
  by (simp add: setFromIso8601_def setAnchor_inv split: sum.split)

lemma setFromUnixText_inv [kitsu_inv]: "clock_inv c \<Longrightarrow> clock_inv (snd (setFromUnixText c text source off now))"
  by (simp add: setFromUnixText_def setAnchor_inv split: sum.split)

lemma acceptNtp_inv [kitsu_inv]: "clock_inv c \<Longrightarrow> clock_inv (snd (acceptNtp c sample now))"
  by (simp add: acceptNtp_def) (simp add: clock_inv_def clock_set_def)

lemma setUtcOffsetMinutes_inv [kitsu_inv]: "clock_inv c \<Longrightarrow> clock_inv (snd (setUtcOffsetMinutes c off))"
  by (simp add: setUtcOffsetMinutes_def) (simp add: clock_inv_def clock_set_def)

lemma clock_read_call: "clock_call c (CallRead now) = clock_advance c now"
  by (simp add: clock_read_def Let_def split: prod.split)

lemma makeSnapshot_advance:
  "makeSnapshot c now gen = (if fst (clock_advance c now) \<noteq> ClockOk
     then (fst (clock_advance c now), None, snd (clock_advance c now))
     else let c' = snd (clock_advance c now);
              s = snapshot0\<lparr>sn_source := ck_source c', sn_savedTrust := ck_trust c', sn_generation := gen,
                    sn_millisecond := ck_millisecond c', sn_utcOffsetMinutes := ck_utcOffsetMinutes c',
                    sn_unixSeconds := ck_unixSeconds c'\<rparr>
          in (ClockOk, Some (s\<lparr>sn_crc32 := snapshotCrc s\<rparr>), c'\<lparr>ck_lastResult := ClockOk\<rparr>))"
  by (simp add: makeSnapshot_def Let_def split: prod.split)

lemma clock_advance_lastResult: "clock_advance c now = (r, c') \<Longrightarrow> ck_lastResult c' = r"
  by (auto simp: clock_advance_def clock_fail_def Let_def split: if_splits)

lemma makeSnapshot_call: "clock_call c (CallSnapshot now gen) = clock_advance c now"
proof -
  obtain r c' where adv: "clock_advance c now = (r, c')" by (cases "clock_advance c now")
  then have "c'\<lparr>ck_lastResult := r\<rparr> = c'" using clock_advance_lastResult [OF adv] by simp
  then show ?thesis by (auto simp: makeSnapshot_advance adv Let_def)
qed

lemma validateSnapshot_ok:
  "validateSnapshot s = ClockOk \<Longrightarrow> validSource (sn_source s) \<and> validInstant (sn_unixSeconds s) (sn_millisecond s)
     \<and> validOffset (sint (sn_utcOffsetMinutes s))"
  by (auto simp: validateSnapshot_def split: if_splits)

lemma clock_restore_inv [kitsu_inv]: "clock_inv c \<Longrightarrow> clock_inv (snd (clock_restore c s now))"
  using validateSnapshot_ok [of s] by (simp add: clock_restore_def Let_def) (simp add: clock_inv_def clock_set_def)

lemma clock_reset_inv [simp]: "clock_inv clock_reset"
  by (simp add: clock_reset_def clock_inv_def clock_set_def)

lemma clock_call_inv: "clock_inv c \<Longrightarrow> clock_inv (snd (clock_call c call))"
proof (cases call)
  case (CallRead now)
  assume "clock_inv c"
  then show ?thesis unfolding CallRead clock_read_call by (rule clock_advance_inv)
next
  case (CallSnapshot now gen)
  assume "clock_inv c"
  then show ?thesis unfolding CallSnapshot makeSnapshot_call by (rule clock_advance_inv)
qed (simp_all add: kitsu_inv setFromUnixSeconds_def)

interpretation clock_steps: step_system "\<lambda>c call. snd (clock_call c call)" clock_inv
  by unfold_locales (rule clock_call_inv)

subsection \<open>Runs\<close>

text \<open>The instant a call offers as the new anchor, in milliseconds.\<close>

fun call_instant :: "ClockCall \<Rightarrow> nat option" where
  "call_instant (CallIso text _ _) = (case parseIso8601 text of Inl _ \<Rightarrow> None
     | Inr p \<Rightarrow> Some (1000 * unat (pi_unixSeconds p) + unat (pi_millisecond p)))"
| "call_instant (CallUnixText text _ _ _) = (case parseUnixText text of Inl _ \<Rightarrow> None | Inr u \<Rightarrow> Some (1000 * unat u))"
| "call_instant (CallUnix u ms _ _ _) = Some (1000 * unat u + unat ms)"
| "call_instant (CallNtp s _) = Some (1000 * unat (nt_unixSeconds s) + unat (nt_millisecond s))"
| "call_instant (CallRestore s _) = Some (1000 * unat (sn_unixSeconds s) + unat (sn_millisecond s))"
| "call_instant _ = None"

text \<open>The sample of the monotonic counter that a call hands over.\<close>

fun call_now :: "ClockCall \<Rightarrow> u32" where
  "call_now (CallIso _ _ now) = now"
| "call_now (CallUnixText _ _ _ now) = now"
| "call_now (CallUnix _ _ _ _ now) = now"
| "call_now (CallNtp _ now) = now"
| "call_now (CallRead now) = now"
| "call_now (CallSnapshot now _) = now"
| "call_now (CallRestore _ now) = now"
| "call_now _ = 0"

text \<open>
  The ghost of a run is built from the calls and their answers alone: the last accepted anchor, the
  monotonic milliseconds sampled since, and the sample that was counted last.
\<close>

type_synonym clock_ghost_state = "nat \<times> nat \<times> u32"

definition clock_ghost :: "clock_ghost_state \<Rightarrow> ClockCall \<Rightarrow> bool \<Rightarrow> clock_ghost_state" where
  "clock_ghost g call accepted = (case g of (anchor, elapsed, sampled) \<Rightarrow>
     (case call of
       CallReset \<Rightarrow> (0, 0, 0)
     | CallRead now \<Rightarrow> (anchor, elapsed + unat (now - sampled), now)
     | CallSnapshot now _ \<Rightarrow> (anchor, elapsed + unat (now - sampled), now)
     | _ \<Rightarrow> (case call_instant call of None \<Rightarrow> g
         | Some a \<Rightarrow> if accepted then (a, 0, call_now call) else g)))"

definition clock_step :: "KitsuClock \<times> clock_ghost_state \<Rightarrow> ClockCall \<Rightarrow> KitsuClock \<times> clock_ghost_state" where
  "clock_step s call = (case s of (c, g) \<Rightarrow>
     (snd (clock_call c call), clock_ghost g call (fst (clock_call c call) = ClockOk)))"

definition clock_run :: "ClockCall list \<Rightarrow> KitsuClock \<times> clock_ghost_state" where
  "clock_run calls = foldl clock_step (clock_reset, 0, 0, 0) calls"

definition clock_exact :: "KitsuClock \<times> clock_ghost_state \<Rightarrow> bool" where
  "clock_exact s \<longleftrightarrow> (case s of (c, a, e, sampled) \<Rightarrow>
     clock_inv c \<and> (clock_set c \<longrightarrow> ck_lastMillis c = sampled)
     \<and> (clock_set c \<and> ck_monotonicHealthy c \<longrightarrow> instant_ms c = a + e))"

lemma instant_ms_update [simp]: "instant_ms (c\<lparr>ck_lastResult := r\<rparr>) = instant_ms c"
  "instant_ms (c\<lparr>ck_utcOffsetMinutes := off\<rparr>) = instant_ms c"
  by (simp_all add: instant_ms_def)

lemma clock_exact_lastResult [simp]: "clock_exact (c\<lparr>ck_lastResult := r\<rparr>, g) = clock_exact (c, g)"
  by (simp add: clock_exact_def clock_set_def split: prod.splits)

lemma clock_advance_exact:
  assumes "clock_exact (c, a, e, sampled)"
  shows "clock_exact (snd (clock_advance c now), a, e + unat (now - sampled), now)"
proof (cases "clock_set c")
  case True
  have "clock_inv c" using assms by (simp add: clock_exact_def)
  then have inv: "clock_inv (snd (clock_advance c now))" by (rule clock_advance_inv)
  from \<open>clock_inv c\<close> True show ?thesis
  proof (cases rule: clock_advance_cases [of c now])
    case (ok u ms)
    then show ?thesis using inv assms by (simp add: clock_exact_def instant_ms_def clock_set_def)
  qed (use inv in \<open>simp_all add: clock_exact_def\<close>)
next
  case False
  then show ?thesis using assms by (simp add: clock_advance_unset clock_exact_def clock_set_def)
qed

lemma setAnchor_exact:
  assumes "clock_exact (c, g)"
  shows "clock_exact (snd (setAnchor c u ms source off now),
    if fst (setAnchor c u ms source off now) = ClockOk then (1000 * unat u + unat ms, 0, now) else g)"
proof -
  have "clock_inv (snd (setAnchor c u ms source off now))" using assms by (intro setAnchor_inv) (auto simp: clock_exact_def)
  then show ?thesis using assms
    by (simp add: setAnchor_def clock_fail_def) (auto simp: clock_exact_def instant_ms_def)
qed

lemma clock_step_exact: "clock_exact s \<Longrightarrow> clock_exact (clock_step s call)"
proof -
  assume exact: "clock_exact s"
  obtain c a e sampled where s: "s = (c, a, e, sampled)" by (cases s)
  note here = exact [unfolded s]
  have inv: "clock_inv (snd (clock_call c call))" using here by (intro clock_call_inv) (simp add: clock_exact_def)
  show ?thesis
  proof (cases call)
    case CallReset
    then show ?thesis using inv by (simp add: s clock_step_def clock_ghost_def clock_exact_def clock_set_def clock_reset_def)
  next
    case (CallIso str source now)
    then show ?thesis
    proof (cases "parseIso8601 str")
      case (Inr p)
      then show ?thesis
        using CallIso here setAnchor_exact [OF here, of "pi_unixSeconds p" "pi_millisecond p" source "pi_utcOffsetMinutes p" now]
        by (simp add: s clock_step_def clock_ghost_def setFromIso8601_def clock_fail_def split: if_splits)
    qed (use here in \<open>simp add: s clock_step_def clock_ghost_def setFromIso8601_def clock_fail_def\<close>)
  next
    case (CallUnixText str source off now)
    then show ?thesis
    proof (cases "parseUnixText str")
      case (Inr u)
      then show ?thesis using CallUnixText here setAnchor_exact [OF here, of u 0 source off now]
        by (simp add: s clock_step_def clock_ghost_def setFromUnixText_def clock_fail_def split: if_splits)
    qed (use here in \<open>simp add: s clock_step_def clock_ghost_def setFromUnixText_def clock_fail_def\<close>)
  next
    case (CallUnix u ms source off now)
    then show ?thesis using setAnchor_exact [OF here, of u ms source off now]
      by (simp add: s clock_step_def clock_ghost_def setFromUnixSeconds_def split: if_splits)
  next
    case (CallNtp sample now)
    then show ?thesis using here inv
      by (simp add: s clock_step_def clock_ghost_def acceptNtp_def clock_fail_def)
        (auto simp: clock_exact_def instant_ms_def)
  next
    case (CallOffset off)
    then show ?thesis using here inv
      by (simp add: s clock_step_def clock_ghost_def setUtcOffsetMinutes_def clock_fail_def)
        (auto simp: clock_exact_def clock_set_def)
  next
    case (CallRead now)
    then show ?thesis using clock_advance_exact [OF here]
      by (simp add: s clock_step_def clock_ghost_def clock_read_call del: clock_call.simps)
  next
    case (CallSnapshot now gen)
    then show ?thesis using clock_advance_exact [OF here]
      by (simp add: s clock_step_def clock_ghost_def makeSnapshot_call del: clock_call.simps)
  next
    case (CallRestore sn now)
    then show ?thesis using here inv
      by (simp add: s clock_step_def clock_ghost_def clock_restore_def Let_def clock_fail_def)
        (auto simp: clock_exact_def instant_ms_def)
  qed
qed

interpretation clock_exactness: step_system clock_step clock_exact
  by unfold_locales (rule clock_step_exact)

lemma clock_run_exact: "clock_exact (clock_run calls)"
  unfolding clock_run_def by (rule clock_exactness.run_inv) (simp add: clock_exact_def clock_set_def clock_reset_def clock_inv_def)

text \<open>Whether the next read succeeds, and what it shows, follows from the ghost alone.\<close>

lemma clock_read_exact:
  assumes "clock_exact (c, a, e, sampled)" "clock_set c" "ck_monotonicHealthy c" "clock_read c now = (r, rd, c')"
  shows "r = ClockOk \<longleftrightarrow> unat (now - sampled) < 2147483648 \<and> a + e + unat (now - sampled) \<le> 4102444800000"
    and "r = ClockOk \<Longrightarrow> 1000 * unat (rd_unixSeconds rd) + unat (rd_millisecond rd) = a + e + unat (now - sampled)"
proof -
  have at_ghost: "clock_inv c" "ck_lastMillis c = sampled" "instant_ms c = a + e"
    using assms(1-3) by (simp_all add: clock_exact_def)
  have "(r = ClockOk \<longleftrightarrow> unat (now - sampled) < 2147483648 \<and> a + e + unat (now - sampled) \<le> 4102444800000)
      \<and> (r = ClockOk \<longrightarrow> 1000 * unat (rd_unixSeconds rd) + unat (rd_millisecond rd) = a + e + unat (now - sampled))"
    using at_ghost(1) assms(2)
  proof (cases rule: clock_advance_cases [of c now])
    case (ok u ms)
    have "instant_ms c + unat (now - sampled) \<le> 4102444800000"
      using ok(2) valid_instant_range [OF ok(3)] at_ghost(2) ok(3)
      by (cases "u = kMaximumClockUnixSeconds") (auto simp: validInstant_def clock_consts word_less_nat_alt)
    then show ?thesis
      using ok assms(2,4) at_ghost by (auto simp: clock_read_def clock_set_def)
  qed (use assms(4) at_ghost in \<open>auto simp: clock_read_def\<close>)
  then show "r = ClockOk \<longleftrightarrow> unat (now - sampled) < 2147483648 \<and> a + e + unat (now - sampled) \<le> 4102444800000"
    and "r = ClockOk \<Longrightarrow> 1000 * unat (rd_unixSeconds rd) + unat (rd_millisecond rd) = a + e + unat (now - sampled)"
    by simp_all
qed

text \<open>
  C11. After any sequence of calls, a trusted clock, and any set clock whose monotonic source is
  healthy, holds exactly the instant of the last accepted anchor plus the milliseconds that the
  samples handed to it since then add up to, each taken modulo the wrapping 32-bit counter.  The next
  read succeeds exactly when its sample is less than 2^31 ms after the last one and the clock's range
  is not left, and shows that instant plus the time since the last sample: rollovers of the counter,
  reads, snapshots, refused settings and changes of the display offset neither lose nor add time.
\<close>

theorem clock_keeps_time:
  assumes "clock_run calls = (c, anchor, elapsed, sampled)" and "clock_set c"
    and "ck_trust c = Trusted \<or> ck_monotonicHealthy c" and "clock_read c now = (r, rd, c')"
  shows "instant_ms c = anchor + elapsed \<and> validInstant (ck_unixSeconds c) (ck_millisecond c)
    \<and> (r = ClockOk \<longleftrightarrow> unat (now - sampled) < 2147483648 \<and> anchor + elapsed + unat (now - sampled) \<le> 4102444800000)
    \<and> (r = ClockOk \<longrightarrow> 1000 * unat (rd_unixSeconds rd) + unat (rd_millisecond rd) = anchor + elapsed + unat (now - sampled))"
proof -
  have exact: "clock_exact (c, anchor, elapsed, sampled)" using clock_run_exact [of calls] assms(1) by simp
  then have healthy: "ck_monotonicHealthy c" using assms(3) by (auto simp: clock_exact_def clock_inv_def)
  show ?thesis
    using clock_read_exact [OF exact assms(2) healthy assms(4)] exact healthy assms(2)
    by (simp add: clock_exact_def clock_inv_def)
qed

definition demo_clock_calls :: "ClockCall list" where
  "demo_clock_calls = [CallUnix 1709210096 250 ManualSerial 0 4294967000, CallRead 500, CallRead 2250]"

lemma demo_clock_run:
  "clock_run demo_clock_calls = (clock_reset\<lparr>ck_unixSeconds := 1709210098, ck_millisecond := 796, ck_lastMillis := 2250,
     ck_source := ManualSerial, ck_trust := Trusted, ck_lastResult := ClockOk, ck_monotonicHealthy := True\<rparr>,
     1709210096250, 2546, 2250)"
  by (simp add: demo_clock_calls_def clock_run_def clock_step_def clock_ghost_def setFromUnixSeconds_def setAnchor_def
      validDirectSource_def validInstant_def clock_consts clock_read_def clock_advance_def clock_set_def clock_reset_def)

theorem clock_keeps_time_witness:
  "instant_ms (fst (clock_run demo_clock_calls)) = 1709210096250 + 2546
   \<and> (case clock_read (fst (clock_run demo_clock_calls)) 3000 of (r, rd, _) \<Rightarrow>
        r = ClockOk \<and> 1000 * unat (rd_unixSeconds rd) + unat (rd_millisecond rd) = 1709210096250 + 2546 + 750)"
proof (cases "clock_read (fst (clock_run demo_clock_calls)) 3000")
  case (fields r rd c')
  show ?thesis
    using clock_keeps_time [OF demo_clock_run _ _ fields [unfolded demo_clock_run fst_conv]]
    by (simp add: clock_set_def fields) (simp add: demo_clock_run)
qed

subsection \<open>Trust\<close>

text \<open>The calls that assert a current time: accepted settings, never a restore.\<close>

fun sets_time :: "ClockCall \<Rightarrow> bool" where
  "sets_time (CallIso _ _ _) = True"
| "sets_time (CallUnixText _ _ _ _) = True"
| "sets_time (CallUnix _ _ _ _ _) = True"
| "sets_time (CallNtp _ _) = True"
| "sets_time _ = False"

lemma trust_gained:
  assumes "ck_trust (snd (clock_call c call)) = Trusted" "ck_trust c \<noteq> Trusted"
  shows "sets_time call \<and> fst (clock_call c call) = ClockOk"
  using assms
  by (cases call)
    (auto simp: clock_reset_def setFromIso8601_def setFromUnixText_def setFromUnixSeconds_def setAnchor_def acceptNtp_def
      setUtcOffsetMinutes_def clock_read_def makeSnapshot_def clock_advance_def clock_restore_def clock_fail_def
      Let_def split: sum.splits if_splits prod.splits)

subsection \<open>Snapshots\<close>

lemma snapshotCrc_crc [simp]: "snapshotCrc (s\<lparr>sn_crc32 := x\<rparr>) = snapshotCrc s"
  by (simp add: snapshotCrc_def snapshot_image_def)

lemma snapshot0_simps: "sn_magic snapshot0 = kSnapshotMagic" "sn_schemaVersion snapshot0 = kClockSnapshotSchemaVersion"
  "sn_bytes snapshot0 = kClockSnapshotBytes" "sn_reserved snapshot0 = [0, 0, 0, 0]"
  by (simp_all add: snapshot0_def clock_consts)

lemma clock_advance_ok:
  assumes "clock_inv c" "clock_advance c now = (ClockOk, c')"
  shows "clock_inv c' \<and> clock_set c'"
proof -
  have "clock_set c" using assms(2) by (auto simp: clock_advance_def clock_fail_def split: if_splits)
  with assms(1) show ?thesis
    by (cases rule: clock_advance_cases [of c now])
      (use assms(2) clock_advance_inv [OF assms(1), of now] \<open>clock_set c\<close> in \<open>auto simp: clock_set_def\<close>)
qed

lemma makeSnapshot_valid:
  assumes "clock_inv c" "makeSnapshot c now gen = (ClockOk, Some s, c')"
  shows "validateSnapshot s = ClockOk" and "sn_unixSeconds s = ck_unixSeconds c'" "sn_millisecond s = ck_millisecond c'"
    "sn_utcOffsetMinutes s = ck_utcOffsetMinutes c'" "sn_source s = ck_source c'" "sn_generation s = gen"
proof -
  obtain r d where adv: "clock_advance c now = (r, d)" by (cases "clock_advance c now")
  then have r: "r = ClockOk" and c': "c' = d\<lparr>ck_lastResult := ClockOk\<rparr>"
    and s: "s = (let t = snapshot0\<lparr>sn_source := ck_source d, sn_savedTrust := ck_trust d, sn_generation := gen,
      sn_millisecond := ck_millisecond d, sn_utcOffsetMinutes := ck_utcOffsetMinutes d, sn_unixSeconds := ck_unixSeconds d\<rparr>
      in t\<lparr>sn_crc32 := snapshotCrc t\<rparr>)"
    using assms(2) by (auto simp: makeSnapshot_advance Let_def split: if_splits)
  have "clock_inv d" "clock_set d" using clock_advance_ok [OF assms(1)] adv r by auto
  then show "validateSnapshot s = ClockOk"
    by (auto simp: s Let_def validateSnapshot_def snapshot0_simps clock_inv_def clock_set_def)
  show "sn_unixSeconds s = ck_unixSeconds c'" "sn_millisecond s = ck_millisecond c'"
    "sn_utcOffsetMinutes s = ck_utcOffsetMinutes c'" "sn_source s = ck_source c'" "sn_generation s = gen"
    by (simp_all add: s Let_def c' snapshot0_simps)
qed

text \<open>
  C12. A snapshot taken after any sequence of calls is accepted by \<^verbatim>\<open>restore\<close> on any clock, whatever its
  state, and brings back the instant, the zone offset, the source and the storage generation; the
  restored clock is set but never trusted, because the time without power is unknown.
\<close>

theorem snapshot_restores:
  assumes "clock_run calls = (c, g)" and "makeSnapshot c now gen = (ClockOk, Some s, c')"
  shows "\<exists>d'. clock_restore d s now' = (ClockOk, d') \<and> instant_ms d' = instant_ms c'
    \<and> ck_utcOffsetMinutes d' = ck_utcOffsetMinutes c' \<and> ck_source d' = ck_source c'
    \<and> ck_restoredGeneration d' = gen \<and> ck_lastMillis d' = now' \<and> ck_trust d' = RestoredStale"
proof -
  have "clock_inv c" using clock_run_exact [of calls] assms(1) by (simp add: clock_exact_def split: prod.splits)
  note valid = makeSnapshot_valid [OF this assms(2)]
  then show ?thesis by (simp add: clock_restore_def Let_def instant_ms_def)
qed

theorem snapshot_restores_witness:
  "\<exists>s d'. clock_restore clock_reset s 9 = (ClockOk, d') \<and> instant_ms d' = 1709210099546 \<and> ck_restoredGeneration d' = 7
    \<and> ck_trust d' = RestoredStale"
proof -
  define c where "c = fst (clock_run demo_clock_calls)"
  have c: "c = clock_reset\<lparr>ck_unixSeconds := 1709210098, ck_millisecond := 796, ck_lastMillis := 2250,
      ck_source := ManualSerial, ck_trust := Trusted, ck_lastResult := ClockOk, ck_monotonicHealthy := True\<rparr>"
    by (simp add: c_def demo_clock_run)
  have adv: "clock_advance c 3000 = (ClockOk, c\<lparr>ck_unixSeconds := 1709210099, ck_millisecond := 546, ck_lastMillis := 3000\<rparr>)"
    by (simp add: c clock_advance_def clock_set_def clock_consts clock_reset_def)
  then obtain s where s: "makeSnapshot c 3000 7 = (ClockOk, Some s,
      c\<lparr>ck_unixSeconds := 1709210099, ck_millisecond := 546, ck_lastMillis := 3000, ck_lastResult := ClockOk\<rparr>)"
    by (simp add: makeSnapshot_advance Let_def c)
  from snapshot_restores [OF _ s, of demo_clock_calls _ clock_reset 9]
  show ?thesis by (auto simp: demo_clock_run c instant_ms_def)
qed

end
