(* ===== verification/Clock_Editor.thy ===== *)
theory Clock_Editor
  imports Clock_Text
begin

text \<open>
  The one-button clock editor, \<^verbatim>\<open>OneButtonClockEditor\<close> of \<^verbatim>\<open>src/src/kitsu_clock.cpp\<close>.  The field is an
  enumeration with underlying type \<^verbatim>\<open>uint8_t\<close> that the code increments, so it is modelled at that
  type.  The lemmas show that every sequence of presses keeps a real date on the screen, that the
  editor implements an abstract screen of cyclic fields over the integers, and that a value is
  yielded exactly when it is committed, for the instant that reads as the screen shows.
\<close>

subsection \<open>The editor\<close>

definition kClockEditorMinimumYear :: u16 where "kClockEditorMinimumYear = 2024"
definition kClockEditorMaximumYear :: u16 where "kClockEditorMaximumYear = 2099"
definition kClockEditorMinimumOffsetMinutes :: int where "kClockEditorMinimumOffsetMinutes = -720"
definition kClockEditorMaximumOffsetMinutes :: int where "kClockEditorMaximumOffsetMinutes = 840"
definition kClockEditorOffsetStepMinutes :: int where "kClockEditorOffsetStepMinutes = 15"

lemmas editor_consts = kClockEditorMinimumYear_def kClockEditorMaximumYear_def kClockEditorMinimumOffsetMinutes_def
  kClockEditorMaximumOffsetMinutes_def kClockEditorOffsetStepMinutes_def

type_synonym ClockEditorField = u8
abbreviation FieldInactive :: ClockEditorField where "FieldInactive \<equiv> 0"
abbreviation FieldYear :: ClockEditorField where "FieldYear \<equiv> 1"
abbreviation FieldMonth :: ClockEditorField where "FieldMonth \<equiv> 2"
abbreviation FieldDay :: ClockEditorField where "FieldDay \<equiv> 3"
abbreviation FieldHour :: ClockEditorField where "FieldHour \<equiv> 4"
abbreviation FieldMinute :: ClockEditorField where "FieldMinute \<equiv> 5"
abbreviation FieldUtcOffset :: ClockEditorField where "FieldUtcOffset \<equiv> 6"
abbreviation FieldReview :: ClockEditorField where "FieldReview \<equiv> 7"

datatype ClockEditorEvent = EditorIgnored | EditorChanged | EditorAdvanced | CommitRequested

record ClockEditorView =
  ed_active :: bool
  ed_commitReady :: bool
  ed_field :: ClockEditorField
  ed_year :: u16
  ed_month :: u8
  ed_day :: u8
  ed_hour :: u8
  ed_minute :: u8
  ed_utcOffsetMinutes :: i16

definition editor_cancel :: ClockEditorView where
  "editor_cancel = \<lparr>ed_active = False, ed_commitReady = False, ed_field = FieldInactive, ed_year = kClockEditorMinimumYear,
     ed_month = 1, ed_day = 1, ed_hour = 0, ed_minute = 0, ed_utcOffsetMinutes = 0\<rparr>"

definition editor_begin :: "u64 \<Rightarrow> i16 \<Rightarrow> ClockResult \<times> ClockEditorView" where
  "editor_begin seedUnixSeconds utcOffsetMinutes =
     (if \<not> validOffset (sint utcOffsetMinutes) \<or> \<not> validInstant seedUnixSeconds 0 then (OutOfRange, editor_cancel)
      else let c = unixToCivil (uint seedUnixSeconds) (sint utcOffsetMinutes);
               year = (word_of_int (cv_year c) :: u16)
           in if year < kClockEditorMinimumYear \<or> year > kClockEditorMaximumYear
                 \<or> sint utcOffsetMinutes < kClockEditorMinimumOffsetMinutes
                 \<or> sint utcOffsetMinutes > kClockEditorMaximumOffsetMinutes
              then (OutOfRange, editor_cancel)
              else (ClockOk, editor_cancel\<lparr>ed_active := True, ed_field := FieldYear, ed_year := year,
                      ed_month := word_of_int (cv_month c), ed_day := word_of_int (cv_day c),
                      ed_hour := word_of_int (cv_hour c), ed_minute := word_of_int (cv_minute c),
                      ed_utcOffsetMinutes := utcOffsetMinutes\<rparr>))"

definition view_days :: "ClockEditorView \<Rightarrow> u8" where
  "view_days v = word_of_int (monthDays (uint (ed_year v)) (uint (ed_month v)))"

definition clampDay :: "ClockEditorView \<Rightarrow> ClockEditorView" where
  "clampDay v = (let maximum = view_days v in if ed_day v > maximum then v\<lparr>ed_day := maximum\<rparr> else v)"

definition shortPress :: "ClockEditorView \<Rightarrow> ClockEditorEvent \<times> ClockEditorView" where
  "shortPress v =
     (if \<not> ed_active v then (EditorIgnored, v)
      else let v = v\<lparr>ed_commitReady := False\<rparr>
           in if ed_field v = FieldYear
              then (EditorChanged, clampDay (v\<lparr>ed_year := if ed_year v \<ge> kClockEditorMaximumYear
                      then kClockEditorMinimumYear else ed_year v + 1\<rparr>))
              else if ed_field v = FieldMonth
              then (EditorChanged, clampDay (v\<lparr>ed_month := if ed_month v \<ge> 12 then 1 else ed_month v + 1\<rparr>))
              else if ed_field v = FieldDay
              then (EditorChanged, v\<lparr>ed_day := if ed_day v \<ge> view_days v then 1 else ed_day v + 1\<rparr>)
              else if ed_field v = FieldHour
              then (EditorChanged, v\<lparr>ed_hour := if ed_hour v \<ge> 23 then 0 else ed_hour v + 1\<rparr>)
              else if ed_field v = FieldMinute
              then (EditorChanged, v\<lparr>ed_minute := if ed_minute v \<ge> 59 then 0 else ed_minute v + 1\<rparr>)
              else if ed_field v = FieldUtcOffset
              then (EditorChanged, v\<lparr>ed_utcOffsetMinutes :=
                      if sint (ed_utcOffsetMinutes v) > kClockEditorMaximumOffsetMinutes - kClockEditorOffsetStepMinutes
                      then word_of_int kClockEditorMinimumOffsetMinutes
                      else word_of_int (sint (ed_utcOffsetMinutes v) + kClockEditorOffsetStepMinutes)\<rparr>)
              else if ed_field v = FieldReview then (EditorAdvanced, v\<lparr>ed_field := FieldYear\<rparr>)
              else if ed_field v = FieldInactive then (EditorIgnored, v)
              else (EditorChanged, v))"

definition longPress :: "ClockEditorView \<Rightarrow> ClockEditorEvent \<times> ClockEditorView" where
  "longPress v =
     (if \<not> ed_active v then (EditorIgnored, v)
      else if ed_field v = FieldReview then (CommitRequested, v\<lparr>ed_commitReady := True\<rparr>)
      else if ed_field v = FieldInactive then (EditorIgnored, v)
      else (EditorAdvanced, v\<lparr>ed_commitReady := False, ed_field := ed_field v + 1\<rparr>))"

definition editor_value :: "ClockEditorView \<Rightarrow> (u64 \<times> i16) option" where
  "editor_value v =
     (if \<not> ed_active v \<or> \<not> ed_commitReady v \<or> ed_field v \<noteq> FieldReview then None
      else case civilToUnix (uint (ed_year v)) (uint (ed_month v)) (uint (ed_day v)) (uint (ed_hour v))
                  (uint (ed_minute v)) 0 (sint (ed_utcOffsetMinutes v)) of
          None \<Rightarrow> None
        | Some candidate \<Rightarrow> if \<not> validInstant (word_of_int candidate) 0 then None
            else Some (word_of_int candidate, ed_utcOffsetMinutes v))"

subsection \<open>Presses keep a real date\<close>

definition editor_inv :: "ClockEditorView \<Rightarrow> bool" where
  "editor_inv v \<longleftrightarrow>
     (ed_active v \<longrightarrow> 1 \<le> uint (ed_field v) \<and> uint (ed_field v) \<le> 7
        \<and> 2024 \<le> uint (ed_year v) \<and> uint (ed_year v) \<le> 2099
        \<and> valid_date (uint (ed_year v), uint (ed_month v), uint (ed_day v))
        \<and> uint (ed_hour v) \<le> 23 \<and> uint (ed_minute v) \<le> 59
        \<and> -720 \<le> sint (ed_utcOffsetMinutes v) \<and> sint (ed_utcOffsetMinutes v) \<le> 840)
     \<and> (ed_commitReady v \<longrightarrow> ed_active v \<and> ed_field v = FieldReview)"

lemma sint_i16_small: "-32768 \<le> k \<Longrightarrow> k < 32768 \<Longrightarrow> sint (word_of_int k :: i16) = k"
  by (simp add: sint_sbintrunc' signed_take_bit_int_eq_self)

lemma uint_succ8: "x < y \<Longrightarrow> uint (x + 1) = uint x + 1" for x y :: u8
  using uint_lt2p [of y] by (simp add: word_less_def uint_word_ariths)

lemma uint_succ16: "x < y \<Longrightarrow> uint (x + 1) = uint x + 1" for x y :: u16
  using uint_lt2p [of y] by (simp add: word_less_def uint_word_ariths)

lemma uint_view_days:
  "1 \<le> uint (ed_month v) \<Longrightarrow> uint (ed_month v) \<le> 12 \<Longrightarrow>
     uint (view_days v) = monthDays (uint (ed_year v)) (uint (ed_month v))"
  using monthDays_bounds [of "uint (ed_month v)" "uint (ed_year v)"]
  by (simp add: view_days_def uint_word_of_int)

lemma clampDay_valid:
  assumes "1 \<le> uint (ed_month v)" "uint (ed_month v) \<le> 12" "1 \<le> uint (ed_day v)"
  shows "valid_date (uint (ed_year (clampDay v)), uint (ed_month (clampDay v)), uint (ed_day (clampDay v)))"
  using assms uint_view_days [OF assms(1,2)] monthDays_bounds [OF assms(1,2), of "uint (ed_year v)"]
  by (auto simp: clampDay_def Let_def valid_date_def word_less_def)

lemma clampDay_same [simp]:
  "ed_active (clampDay v) = ed_active v" "ed_commitReady (clampDay v) = ed_commitReady v"
  "ed_field (clampDay v) = ed_field v" "ed_year (clampDay v) = ed_year v" "ed_month (clampDay v) = ed_month v"
  "ed_hour (clampDay v) = ed_hour v" "ed_minute (clampDay v) = ed_minute v"
  "ed_utcOffsetMinutes (clampDay v) = ed_utcOffsetMinutes v"
  by (simp_all add: clampDay_def Let_def)

lemma editor_cancel_inv [simp]: "editor_inv editor_cancel"
  by (simp add: editor_inv_def editor_cancel_def)

lemma press_year:
  "2024 \<le> uint y \<Longrightarrow> uint y \<le> 2099 \<Longrightarrow>
   2024 \<le> uint (if y \<ge> kClockEditorMaximumYear then kClockEditorMinimumYear else y + 1) \<and>
   uint (if y \<ge> kClockEditorMaximumYear then kClockEditorMinimumYear else y + 1) \<le> 2099"
  by (auto simp: editor_consts not_le uint_succ16) (simp add: word_less_def)

lemma press_month:
  "1 \<le> uint m \<Longrightarrow> 1 \<le> uint (if m \<ge> 12 then 1 else m + 1 :: u8) \<and> uint (if m \<ge> 12 then 1 else m + 1 :: u8) \<le> 12"
  by (auto simp: not_le uint_succ8) (simp add: word_less_def)

lemma press_offset:
  assumes "-720 \<le> sint off" "sint off \<le> 840"
  defines "new \<equiv> (if sint off > kClockEditorMaximumOffsetMinutes - kClockEditorOffsetStepMinutes
     then word_of_int kClockEditorMinimumOffsetMinutes
     else word_of_int (sint off + kClockEditorOffsetStepMinutes) :: i16)"
  shows "-720 \<le> sint new \<and> sint new \<le> 840"
  using assms(1,2) sint_i16_small [of "sint off + 15"] sint_i16_small [of "-720"] by (simp add: new_def editor_consts)

lemma shortPress_inv [kitsu_inv]:
  assumes inv: "editor_inv v"
  shows "editor_inv (snd (shortPress v))"
proof (cases "ed_active v")
  case True
  note here = inv [unfolded editor_inv_def]
  have date: "valid_date (uint (ed_year v), uint (ed_month v), uint (ed_day v))" using here True by simp
  then have m: "1 \<le> uint (ed_month v)" "uint (ed_month v) \<le> 12" and d: "1 \<le> uint (ed_day v)"
    by (auto simp: valid_date_def)
  note days = uint_view_days [OF m]
  consider "ed_field v = FieldYear" | "ed_field v = FieldMonth" | "ed_field v = FieldDay" | "ed_field v = FieldHour"
    | "ed_field v = FieldMinute" | "ed_field v = FieldUtcOffset" | "ed_field v = FieldReview"
    | "ed_field v \<notin> {FieldYear, FieldMonth, FieldDay, FieldHour, FieldMinute, FieldUtcOffset, FieldReview}" by blast
  then show ?thesis
  proof cases
    case 1
    then show ?thesis
      using here True m d press_year [of "ed_year v"] clampDay_valid [of "v\<lparr>ed_commitReady := False, ed_year := _\<rparr>"]
      by (simp add: shortPress_def Let_def editor_inv_def split: if_splits)
  next
    case 2
    define m' where "m' = (if ed_month v \<ge> 12 then 1 else ed_month v + 1)"
    have "snd (shortPress v) = clampDay (v\<lparr>ed_commitReady := False, ed_month := m'\<rparr>)"
      using True 2 by (simp add: shortPress_def Let_def m'_def)
    then show ?thesis
      using here True d press_month [OF m(1)] clampDay_valid [of "v\<lparr>ed_commitReady := False, ed_month := m'\<rparr>"]
      by (simp add: editor_inv_def m'_def [symmetric])
  next
    case 3
    have "view_days (v\<lparr>ed_commitReady := False\<rparr>) = view_days v" by (simp add: view_days_def)
    moreover have "1 \<le> monthDays (uint (ed_year v)) (uint (ed_month v))"
      using monthDays_bounds [OF m, of "uint (ed_year v)"] by simp
    ultimately show ?thesis
      using here True 3 m d days
      by (auto simp: shortPress_def Let_def editor_inv_def valid_date_def not_le uint_succ8) (auto simp: word_less_def)
  next
    case 4
    then show ?thesis
      using here True by (auto simp: shortPress_def Let_def editor_inv_def not_le uint_succ8) (auto simp: word_less_def)
  next
    case 5
    then show ?thesis
      using here True by (auto simp: shortPress_def Let_def editor_inv_def not_le uint_succ8) (auto simp: word_less_def)
  next
    case 6
    then show ?thesis
      using here True press_offset [of "ed_utcOffsetMinutes v"]
      by (simp add: shortPress_def Let_def editor_inv_def split: if_splits)
  next
    case 7
    then show ?thesis using here True by (simp add: shortPress_def Let_def editor_inv_def)
  next
    case 8
    then show ?thesis using here True by (auto simp: shortPress_def Let_def editor_inv_def)
  qed
qed (use inv in \<open>simp add: shortPress_def\<close>)

lemma longPress_inv [kitsu_inv]: "editor_inv v \<Longrightarrow> editor_inv (snd (longPress v))"
proof (cases "ed_active v \<and> ed_field v \<noteq> FieldReview \<and> ed_field v \<noteq> FieldInactive")
  case True
  assume inv: "editor_inv v"
  have "uint (ed_field v) \<noteq> 7" using True by (auto simp: word_uint_eq_iff)
  then have "ed_field v < FieldReview" using inv True by (simp add: editor_inv_def word_less_def)
  then have "uint (ed_field v + 1) = uint (ed_field v) + 1" by (rule uint_succ8)
  then show ?thesis
    using inv True \<open>ed_field v < FieldReview\<close> by (simp add: longPress_def editor_inv_def word_less_def)
qed (auto simp: longPress_def editor_inv_def)

lemma civil_words:
  assumes valid: "validInstant seed 0" "validOffset (sint off)"
  defines "c \<equiv> unixToCivil (uint seed) (sint off)"
  shows "valid_civil c" and "-840 \<le> sint off" and "sint off \<le> 840"
    and "uint (word_of_int (cv_year c) :: u16) = cv_year c" and "uint (word_of_int (cv_month c) :: u8) = cv_month c"
    and "uint (word_of_int (cv_day c) :: u8) = cv_day c" and "uint (word_of_int (cv_hour c) :: u8) = cv_hour c"
    and "uint (word_of_int (cv_minute c) :: u8) = cv_minute c"
proof -
  show offr: "-840 \<le> sint off" "sint off \<le> 840"
    using valid(2) by (simp_all add: validOffset_def kMinimumUtcOffsetMinutes_def kMaximumUtcOffsetMinutes_def)
  have seed: "1704067200 \<le> uint seed" "uint seed \<le> 4102444800"
    using valid_instant_range [OF valid(1)] by (simp_all only: uint_nat)
  have t: "0 \<le> uint seed + sint off * 60" "uint seed + sint off * 60 \<le> 4102495200" using seed offr by linarith+
  have c: "valid_civil c" "1970 \<le> cv_year c" "cv_year c \<le> 2100"
    using unixToCivil_ranges [OF t] by (simp_all add: c_def)
  then show "valid_civil c" by simp
  have r: "1 \<le> cv_month c" "cv_month c \<le> 12" "1 \<le> cv_day c" "cv_day c \<le> 31"
    using c monthDays_bounds [of "cv_month c" "cv_year c"] by (auto simp: valid_civil_def valid_date_def)
  show "uint (word_of_int (cv_year c) :: u16) = cv_year c" "uint (word_of_int (cv_month c) :: u8) = cv_month c"
    "uint (word_of_int (cv_day c) :: u8) = cv_day c" "uint (word_of_int (cv_hour c) :: u8) = cv_hour c"
    "uint (word_of_int (cv_minute c) :: u8) = cv_minute c"
    using c r by (simp_all add: uint_word_of_int valid_civil_def)
qed

lemma editor_begin_inv: "editor_inv (snd (editor_begin seed off))"
proof (cases "fst (editor_begin seed off) = ClockOk")
  case True
  then have valid: "validInstant seed 0" "validOffset (sint off)"
    by (auto simp: editor_begin_def split: if_splits)
  define c where "c = unixToCivil (uint seed) (sint off)"
  note words = civil_words [OF valid, folded c_def]
  have form: "snd (editor_begin seed off) = editor_cancel\<lparr>ed_active := True, ed_field := FieldYear,
      ed_year := word_of_int (cv_year c), ed_month := word_of_int (cv_month c), ed_day := word_of_int (cv_day c),
      ed_hour := word_of_int (cv_hour c), ed_minute := word_of_int (cv_minute c), ed_utcOffsetMinutes := off\<rparr>"
    and "\<not> word_of_int (cv_year c) < kClockEditorMinimumYear" "\<not> word_of_int (cv_year c) > kClockEditorMaximumYear"
      "-720 \<le> sint off"
    using True by (auto simp: editor_begin_def Let_def c_def [symmetric] editor_consts split: if_splits)
  then have "2024 \<le> cv_year c" "cv_year c \<le> 2099"
    by (simp_all add: word_less_def words editor_consts)
  then show ?thesis
    using words(1,3) \<open>-720 \<le> sint off\<close> by (simp add: form editor_inv_def editor_cancel_def words valid_civil_def)
next
  case False
  then have "snd (editor_begin seed off) = editor_cancel" by (auto simp: editor_begin_def Let_def split: if_splits)
  then show ?thesis by simp
qed

datatype Press = ShortPress | LongPress

definition press :: "ClockEditorView \<Rightarrow> Press \<Rightarrow> ClockEditorView" where
  "press v p = snd (case p of ShortPress \<Rightarrow> shortPress v | LongPress \<Rightarrow> longPress v)"

interpretation editor_steps: step_system press editor_inv
  by unfold_locales (simp add: press_def kitsu_inv split: Press.split)

subsection \<open>What is committed is what is shown\<close>

lemma unixToCivil_local:
  assumes "valid_date (y, m, d)" "0 \<le> y" "y < 65536" "0 \<le> h" "h \<le> 23" "0 \<le> mi" "mi \<le> 59" "0 \<le> s" "s \<le> 59"
    and u: "u + off * 60 = daysFromCivil y m d * 86400 + h * 3600 + mi * 60 + s"
  shows "unixToCivil u off = \<lparr>cv_year = y, cv_month = m, cv_day = d, cv_hour = h, cv_minute = mi, cv_second = s\<rparr>"
proof -
  define k where "k = h * 3600 + mi * 60 + s"
  have k: "0 \<le> k" "k < 86400" using assms by (simp_all add: k_def)
  have day: "u + off * 60 = 86400 * daysFromCivil y m d + k" using u by (simp add: k_def)
  have "(u + off * 60) div 86400 = daysFromCivil y m d" "(u + off * 60) mod 86400 = k"
    using k by (rule int_div_pos_eq [OF day], rule int_mod_pos_eq [OF day])
  moreover have hour: "k = 3600 * h + (mi * 60 + s)" by (simp add: k_def)
  have "0 \<le> mi * 60 + s" "mi * 60 + s < 3600" using assms by linarith+
  then have "k div 3600 = h" "k mod 3600 = mi * 60 + s" by (rule int_div_pos_eq [OF hour], rule int_mod_pos_eq [OF hour])
  moreover have minute: "mi * 60 + s = 60 * mi + s" and second: "k = 60 * (h * 60 + mi) + s" by (simp_all add: k_def)
  have "0 \<le> s" "s < 60" using assms by linarith+
  then have "(mi * 60 + s) div 60 = mi" "k mod 60 = s" by (rule int_div_pos_eq [OF minute], rule int_mod_pos_eq [OF second])
  ultimately show ?thesis
    using civilFromDays_daysFromCivil [OF assms(1-3)]
    by (simp only: unixToCivil_form Let_def prod.case)
qed

lemma days_bound:
  assumes "valid_date (y, m, d)" "y \<le> 2099"
  shows "daysFromCivil y m d \<le> 3000000"
proof -
  have m: "1 \<le> m" "m \<le> 12" and d: "d \<le> 31"
    using assms(1) monthDays_bounds [of m y] by (auto simp: valid_date_def)
  have "month_start m \<le> 337" using m by (rule month_cases) simp_all
  moreover have "year_days (y - (if m \<le> 2 then 1 else 0)) \<le> year_days 2099"
    using assms(2) by (intro year_days_mono) simp
  moreover have "year_days 2099 \<le> 800000" by (simp add: year_days_def)
  ultimately show ?thesis using d by (simp only: daysFromCivil_form)
qed

lemma editor_value_exact:
  assumes inv: "editor_inv v" and act: "ed_active v"
  shows "editor_value v = Some (u, zone) \<longleftrightarrow> ed_commitReady v \<and> zone = ed_utcOffsetMinutes v \<and> validInstant u 0
    \<and> unixToCivil (uint u) (sint zone) = \<lparr>cv_year = uint (ed_year v), cv_month = uint (ed_month v),
         cv_day = uint (ed_day v), cv_hour = uint (ed_hour v), cv_minute = uint (ed_minute v), cv_second = 0\<rparr>"
    (is "_ \<longleftrightarrow> ?shown")
proof
  assume val: "editor_value v = Some (u, zone)"
  obtain k where k: "civilToUnix (uint (ed_year v)) (uint (ed_month v)) (uint (ed_day v)) (uint (ed_hour v))
      (uint (ed_minute v)) 0 (sint (ed_utcOffsetMinutes v)) = Some k"
    and u: "u = word_of_int k" "validInstant u 0" "zone = ed_utcOffsetMinutes v" "ed_commitReady v"
    using val by (auto simp: editor_value_def split: if_splits option.splits)
  have secs: "k + sint zone * 60 = daysFromCivil (uint (ed_year v)) (uint (ed_month v)) (uint (ed_day v)) * 86400
      + uint (ed_hour v) * 3600 + uint (ed_minute v) * 60 + 0" and "0 \<le> k"
    using k u(3) by (auto simp: civilToUnix_def Let_def split: if_splits)
  have date: "valid_date (uint (ed_year v), uint (ed_month v), uint (ed_day v))" "uint (ed_hour v) \<le> 23"
    "uint (ed_minute v) \<le> 59" "uint (ed_year v) \<le> 2099" "-720 \<le> sint zone"
    using inv act u(3) by (simp_all add: editor_inv_def)
  have "daysFromCivil (uint (ed_year v)) (uint (ed_month v)) (uint (ed_day v)) \<le> 3000000"
    using date(1,4) by (rule days_bound)
  then have "k < 18446744073709551616" using secs date by linarith
  then have "uint u = k" using \<open>0 \<le> k\<close> by (simp add: u uint_word_of_int)
  moreover have "unixToCivil k (sint zone) = \<lparr>cv_year = uint (ed_year v), cv_month = uint (ed_month v),
         cv_day = uint (ed_day v), cv_hour = uint (ed_hour v), cv_minute = uint (ed_minute v), cv_second = 0\<rparr>"
    by (rule unixToCivil_local [OF date(1) _ _ _ date(2) _ date(3) _ _ secs]) (use date in simp_all)
  ultimately show ?shown using u by simp
next
  assume shown: ?shown
  have off: "-720 \<le> sint zone" "sint zone \<le> 840" and review: "ed_field v = FieldReview"
    using inv act shown by (simp_all add: editor_inv_def)
  have inst: "validInstant u 0" using shown by simp
  have "1704067200 \<le> uint u" "uint u \<le> 4102444800"
    using valid_instant_range [OF inst] by (simp_all only: uint_nat)
  then have "civilToUnix (uint (ed_year v)) (uint (ed_month v)) (uint (ed_day v)) (uint (ed_hour v))
      (uint (ed_minute v)) 0 (sint zone) = Some (uint u)"
    using civilToUnix_unixToCivil [of "uint u" "sint zone"] off conjunct2 [OF conjunct2 [OF conjunct2 [OF shown]]]
    by (simp add: validOffset_def kMinimumUtcOffsetMinutes_def kMaximumUtcOffsetMinutes_def)
  then show "editor_value v = Some (u, zone)" using shown act review by (simp add: editor_value_def)
qed

subsection \<open>The abstract screen\<close>

text \<open>
  What the person at the device sees and what a press does to it, over the integers: each field is
  a cycle, a short press moves the selected field one step on, and the day never exceeds the
  length of the month shown.
\<close>

datatype screen_field = AtYear | AtMonth | AtDay | AtHour | AtMinute | AtOffset | AtReview

record editor_screen =
  sc_field :: screen_field
  sc_commit :: bool
  sc_year :: int
  sc_month :: int
  sc_day :: int
  sc_hour :: int
  sc_minute :: int
  sc_offset :: int

definition month_length :: "int \<Rightarrow> int \<Rightarrow> int" where
  "month_length y m = (if m \<in> {4, 6, 9, 11} then 30 else if m \<noteq> 2 then 31
     else if 4 dvd y \<and> (\<not> 100 dvd y \<or> 400 dvd y) then 29 else 28)"

definition fit_day :: "editor_screen \<Rightarrow> editor_screen" where
  "fit_day s = s\<lparr>sc_day := min (sc_day s) (month_length (sc_year s) (sc_month s))\<rparr>"

definition screen_short :: "editor_screen \<Rightarrow> editor_screen" where
  "screen_short s = (let s = s\<lparr>sc_commit := False\<rparr> in case sc_field s of
       AtYear \<Rightarrow> fit_day (s\<lparr>sc_year := 2024 + (sc_year s - 2024 + 1) mod 76\<rparr>)
     | AtMonth \<Rightarrow> fit_day (s\<lparr>sc_month := sc_month s mod 12 + 1\<rparr>)
     | AtDay \<Rightarrow> s\<lparr>sc_day := sc_day s mod month_length (sc_year s) (sc_month s) + 1\<rparr>
     | AtHour \<Rightarrow> s\<lparr>sc_hour := (sc_hour s + 1) mod 24\<rparr>
     | AtMinute \<Rightarrow> s\<lparr>sc_minute := (sc_minute s + 1) mod 60\<rparr>
     | AtOffset \<Rightarrow> s\<lparr>sc_offset := if sc_offset s + 15 \<le> 840 then sc_offset s + 15 else -720\<rparr>
     | AtReview \<Rightarrow> s\<lparr>sc_field := AtYear\<rparr>)"

definition screen_long :: "editor_screen \<Rightarrow> editor_screen" where
  "screen_long s = (case sc_field s of
       AtYear \<Rightarrow> s\<lparr>sc_field := AtMonth\<rparr>
     | AtMonth \<Rightarrow> s\<lparr>sc_field := AtDay\<rparr>
     | AtDay \<Rightarrow> s\<lparr>sc_field := AtHour\<rparr>
     | AtHour \<Rightarrow> s\<lparr>sc_field := AtMinute\<rparr>
     | AtMinute \<Rightarrow> s\<lparr>sc_field := AtOffset\<rparr>
     | AtOffset \<Rightarrow> s\<lparr>sc_field := AtReview\<rparr>
     | AtReview \<Rightarrow> s\<lparr>sc_commit := True\<rparr>)"

definition screen_press :: "editor_screen \<Rightarrow> Press \<Rightarrow> editor_screen" where
  "screen_press s p = (case p of ShortPress \<Rightarrow> screen_short s | LongPress \<Rightarrow> screen_long s)"

definition screen_start :: "CivilTime \<Rightarrow> int \<Rightarrow> editor_screen" where
  "screen_start c off = \<lparr>sc_field = AtYear, sc_commit = False, sc_year = cv_year c, sc_month = cv_month c,
     sc_day = cv_day c, sc_hour = cv_hour c, sc_minute = cv_minute c, sc_offset = off\<rparr>"

definition screen_time :: "editor_screen \<Rightarrow> CivilTime" where
  "screen_time s = \<lparr>cv_year = sc_year s, cv_month = sc_month s, cv_day = sc_day s, cv_hour = sc_hour s,
     cv_minute = sc_minute s, cv_second = 0\<rparr>"

text \<open>The screen that a view of the editor stands for.\<close>

definition screen_of :: "ClockEditorView \<Rightarrow> editor_screen" where
  "screen_of v = \<lparr>sc_field = (if ed_field v = FieldYear then AtYear else if ed_field v = FieldMonth then AtMonth
       else if ed_field v = FieldDay then AtDay else if ed_field v = FieldHour then AtHour
       else if ed_field v = FieldMinute then AtMinute else if ed_field v = FieldUtcOffset then AtOffset else AtReview),
     sc_commit = ed_commitReady v, sc_year = uint (ed_year v), sc_month = uint (ed_month v), sc_day = uint (ed_day v),
     sc_hour = uint (ed_hour v), sc_minute = uint (ed_minute v), sc_offset = sint (ed_utcOffsetMinutes v)\<rparr>"

lemma month_length_code: "1 \<le> m \<Longrightarrow> m \<le> 12 \<Longrightarrow> monthDays y m = month_length y m"
  by (erule (1) month_cases) (auto simp: month_length_def leapYear_def dvd_eq_mod_eq_0)

lemma cycle_step:
  fixes x n :: int
  assumes "0 \<le> x" "x < n"
  shows "(x + 1) mod n = (if x + 1 = n then 0 else x + 1)"
  using assms by simp

lemma editor_fields:
  assumes "editor_inv v" "ed_active v"
  obtains "ed_field v = FieldYear" | "ed_field v = FieldMonth" | "ed_field v = FieldDay" | "ed_field v = FieldHour"
    | "ed_field v = FieldMinute" | "ed_field v = FieldUtcOffset" | "ed_field v = FieldReview"
proof -
  have "uint (ed_field v) \<in> {1..7}" using assms by (simp add: editor_inv_def)
  then have "uint (ed_field v) \<in> {1, 2, 3, 4, 5, 6, 7}" by (simp add: atLeastAtMost_iff) arith
  then have "ed_field v \<in> {FieldYear, FieldMonth, FieldDay, FieldHour, FieldMinute, FieldUtcOffset, FieldReview}"
    by (simp add: word_uint_eq_iff)
  then show thesis using that by blast
qed

lemma screen_clampDay:
  assumes "1 \<le> uint (ed_month v)" "uint (ed_month v) \<le> 12"
  shows "screen_of (clampDay v) = fit_day (screen_of v)"
  using uint_view_days [OF assms] month_length_code [OF assms]
  by (simp add: clampDay_def Let_def screen_of_def fit_day_def word_less_def)

lemma screen_update [simp]:
  "screen_of (v\<lparr>ed_commitReady := b\<rparr>) = screen_of v\<lparr>sc_commit := b\<rparr>"
  "screen_of (v\<lparr>ed_year := y\<rparr>) = screen_of v\<lparr>sc_year := uint y\<rparr>"
  "screen_of (v\<lparr>ed_month := m\<rparr>) = screen_of v\<lparr>sc_month := uint m\<rparr>"
  "screen_of (v\<lparr>ed_day := d\<rparr>) = screen_of v\<lparr>sc_day := uint d\<rparr>"
  "screen_of (v\<lparr>ed_hour := h\<rparr>) = screen_of v\<lparr>sc_hour := uint h\<rparr>"
  "screen_of (v\<lparr>ed_minute := mi\<rparr>) = screen_of v\<lparr>sc_minute := uint mi\<rparr>"
  "screen_of (v\<lparr>ed_utcOffsetMinutes := off\<rparr>) = screen_of v\<lparr>sc_offset := sint off\<rparr>"
  by (simp_all add: screen_of_def)

lemma screen_shown:
  "sc_year (screen_of v) = uint (ed_year v)" "sc_month (screen_of v) = uint (ed_month v)"
  "sc_day (screen_of v) = uint (ed_day v)" "sc_hour (screen_of v) = uint (ed_hour v)"
  "sc_minute (screen_of v) = uint (ed_minute v)" "sc_offset (screen_of v) = sint (ed_utcOffsetMinutes v)"
  "sc_commit (screen_of v) = ed_commitReady v"
  by (simp_all add: screen_of_def)

lemma screen_shortPress:
  assumes inv: "editor_inv v" and act: "ed_active v"
  shows "screen_of (snd (shortPress v)) = screen_short (screen_of v)"
proof -
  note here = inv [unfolded editor_inv_def]
  have m: "1 \<le> uint (ed_month v)" "uint (ed_month v) \<le> 12" and d: "1 \<le> uint (ed_day v)"
    "uint (ed_day v) \<le> monthDays (uint (ed_year v)) (uint (ed_month v))"
    and y: "2024 \<le> uint (ed_year v)" "uint (ed_year v) \<le> 2099" and h: "uint (ed_hour v) \<le> 23"
    and mi: "uint (ed_minute v) \<le> 59" and off: "-720 \<le> sint (ed_utcOffsetMinutes v)" "sint (ed_utcOffsetMinutes v) \<le> 840"
    using here act by (simp_all add: valid_date_def)
  note len = month_length_code [OF m, of "uint (ed_year v)"]
  show ?thesis using inv act
  proof (cases rule: editor_fields)
    case 1
    define y' where "y' = (if ed_year v \<ge> kClockEditorMaximumYear then kClockEditorMinimumYear else ed_year v + 1)"
    have "uint y' = 2024 + (uint (ed_year v) - 2024 + 1) mod 76"
      using y uint_succ16 [of "ed_year v" 2099] by (subst cycle_step) (auto simp: y'_def editor_consts word_le_def word_less_def)
    moreover have "snd (shortPress v) = clampDay (v\<lparr>ed_commitReady := False, ed_year := y'\<rparr>)"
      using act 1 by (simp add: shortPress_def Let_def y'_def)
    moreover have "sc_field (screen_of v) = AtYear" using 1 by (simp add: screen_of_def)
    ultimately show ?thesis using m
      by (simp add: screen_short_def screen_clampDay screen_shown)
  next
    case 2
    define m' where "m' = (if ed_month v \<ge> 12 then 1 else ed_month v + 1)"
    have m': "uint m' = uint (ed_month v) mod 12 + 1"
      using m uint_succ8 [of "ed_month v" 12] by (auto simp: m'_def word_le_def word_less_def)
    moreover have "1 \<le> uint m'" "uint m' \<le> 12" using m' by simp_all
    moreover have "snd (shortPress v) = clampDay (v\<lparr>ed_commitReady := False, ed_month := m'\<rparr>)"
      using act 2 by (simp add: shortPress_def Let_def m'_def)
    moreover have "sc_field (screen_of v) = AtMonth" using 2 by (simp add: screen_of_def)
    ultimately show ?thesis
      by (simp add: screen_short_def screen_clampDay screen_shown)
  next
    case 3
    define d' where "d' = (if ed_day v \<ge> view_days v then 1 else ed_day v + 1)"
    have "uint d' = uint (ed_day v) mod month_length (uint (ed_year v)) (uint (ed_month v)) + 1"
      using d uint_view_days [OF m] len uint_succ8 [of "ed_day v" "view_days v"]
      by (auto simp: d'_def word_le_def word_less_def)
    moreover have "snd (shortPress v) = v\<lparr>ed_commitReady := False, ed_day := d'\<rparr>"
      using act 3 by (simp add: shortPress_def Let_def d'_def view_days_def)
    moreover have "sc_field (screen_of v) = AtDay" using 3 by (simp add: screen_of_def)
    ultimately show ?thesis
      by (simp add: screen_short_def screen_shown)
  next
    case 4
    define h' where "h' = (if ed_hour v \<ge> 23 then 0 else ed_hour v + 1)"
    have "uint h' = (uint (ed_hour v) + 1) mod 24"
      using h uint_succ8 [of "ed_hour v" 23] by (subst cycle_step) (auto simp: h'_def word_le_def word_less_def)
    moreover have "snd (shortPress v) = v\<lparr>ed_commitReady := False, ed_hour := h'\<rparr>"
      using act 4 by (simp add: shortPress_def Let_def h'_def)
    moreover have "sc_field (screen_of v) = AtHour" using 4 by (simp add: screen_of_def)
    ultimately show ?thesis
      by (simp add: screen_short_def screen_shown)
  next
    case 5
    define n' where "n' = (if ed_minute v \<ge> 59 then 0 else ed_minute v + 1)"
    have "uint n' = (uint (ed_minute v) + 1) mod 60"
      using mi uint_succ8 [of "ed_minute v" 59] by (subst cycle_step) (auto simp: n'_def word_le_def word_less_def)
    moreover have "snd (shortPress v) = v\<lparr>ed_commitReady := False, ed_minute := n'\<rparr>"
      using act 5 by (simp add: shortPress_def Let_def n'_def)
    moreover have "sc_field (screen_of v) = AtMinute" using 5 by (simp add: screen_of_def)
    ultimately show ?thesis
      by (simp add: screen_short_def screen_shown)
  next
    case 6
    then show ?thesis
      using act off sint_i16_small [of "sint (ed_utcOffsetMinutes v) + 15"] sint_i16_small [of "-720"]
      by (simp add: shortPress_def Let_def screen_short_def screen_shown editor_consts) (simp add: screen_of_def)
  next
    case 7
    then show ?thesis using act by (simp add: shortPress_def Let_def screen_short_def screen_of_def)
  qed
qed

lemma screen_longPress:
  assumes inv: "editor_inv v" and act: "ed_active v"
  shows "screen_of (snd (longPress v)) = screen_long (screen_of v)"
proof -
  have "ed_commitReady v \<longrightarrow> ed_field v = FieldReview" using inv by (simp add: editor_inv_def)
  then show ?thesis using inv act
    by (cases rule: editor_fields [OF inv act]) (auto simp: longPress_def screen_long_def screen_of_def)
qed

lemma press_active: "ed_active (press v p) = ed_active v"
  by (cases p) (simp_all add: press_def shortPress_def longPress_def Let_def)

lemma screen_run:
  assumes "editor_inv v" "ed_active v"
  shows "screen_of (foldl press v ps) = foldl screen_press (screen_of v) ps \<and> editor_inv (foldl press v ps)
    \<and> ed_active (foldl press v ps)"
  using assms
proof (induction ps arbitrary: v)
  case (Cons p ps)
  have "screen_of (press v p) = screen_press (screen_of v) p"
    using Cons.prems by (cases p) (simp_all add: press_def screen_press_def screen_shortPress screen_longPress)
  moreover have "editor_inv (press v p)" using Cons.prems(1) by (rule editor_steps.step_inv)
  ultimately show ?case using Cons.IH [of "press v p"] Cons.prems(2) by (simp add: press_active)
qed simp

text \<open>The fields that a successful start puts on the screen.\<close>

lemma screen_begin:
  assumes "editor_begin seed off = (ClockOk, v0)"
  shows "ed_active v0" and "screen_of v0 = screen_start (unixToCivil (uint seed) (sint off)) (sint off)"
proof -
  define c where "c = unixToCivil (uint seed) (sint off)"
  have valid: "validInstant seed 0" "validOffset (sint off)"
    using assms by (auto simp: editor_begin_def split: if_splits)
  have v0: "v0 = editor_cancel\<lparr>ed_active := True, ed_field := FieldYear,
      ed_year := word_of_int (cv_year c), ed_month := word_of_int (cv_month c), ed_day := word_of_int (cv_day c),
      ed_hour := word_of_int (cv_hour c), ed_minute := word_of_int (cv_minute c), ed_utcOffsetMinutes := off\<rparr>"
    using assms by (auto simp: editor_begin_def Let_def c_def [symmetric] split: if_splits)
  then show "ed_active v0" by simp
  show "screen_of v0 = screen_start (unixToCivil (uint seed) (sint off)) (sint off)"
    using civil_words [OF valid] by (simp add: v0 screen_of_def screen_start_def editor_cancel_def flip: c_def)
qed

text \<open>
  C40. The one-button editor implements the abstract screen: after a successful start and any
  sequence of short and long presses, the date, time, zone and selected field shown are those the
  cyclic fields over the integers give, starting from the civil time of the seed, with the day
  never past the end of the month.  The editor yields a value exactly after a long press on the
  review field not followed by a short one, and the value is the zone shown with the instant of the
  clock's range that reads, in that zone, as the date and time shown with zero seconds.
\<close>

theorem editor_commits_shown:
  assumes "editor_begin seed off = (ClockOk, v0)"
    and "s = foldl screen_press (screen_start (unixToCivil (uint seed) (sint off)) (sint off)) ps"
  shows "screen_of (foldl press v0 ps) = s
    \<and> (editor_value (foldl press v0 ps) = Some (u, zone) \<longleftrightarrow>
         sc_commit s \<and> sint zone = sc_offset s \<and> validInstant u 0 \<and> unixToCivil (uint u) (sint zone) = screen_time s)"
proof -
  let ?v = "foldl press v0 ps"
  have "editor_inv v0" using editor_begin_inv [of seed off] assms(1) by simp
  from screen_run [OF this screen_begin(1) [OF assms(1)], of ps]
  have run: "screen_of ?v = s" "editor_inv ?v" "ed_active ?v"
    using screen_begin(2) [OF assms(1)] assms(2) by simp_all
  have "zone = ed_utcOffsetMinutes ?v \<longleftrightarrow> sint zone = sc_offset s"
    by (simp add: run(1) [symmetric] screen_shown word_eq_iff_signed)
  moreover have "screen_time s = \<lparr>cv_year = uint (ed_year ?v), cv_month = uint (ed_month ?v),
         cv_day = uint (ed_day ?v), cv_hour = uint (ed_hour ?v), cv_minute = uint (ed_minute ?v), cv_second = 0\<rparr>"
    by (simp add: run(1) [symmetric] screen_time_def screen_shown)
  moreover have "ed_commitReady ?v = sc_commit s" by (simp add: run(1) [symmetric] screen_shown)
  ultimately show ?thesis using editor_value_exact [OF run(2,3), of u zone] run(1) by simp
qed

definition demo_presses :: "Press list" where
  "demo_presses = [ShortPress, LongPress, LongPress, LongPress, ShortPress, LongPress, LongPress, LongPress, LongPress]"

lemma demo_seed: "unixToCivil 1709210096 0
    = \<lparr>cv_year = 2024, cv_month = 2, cv_day = 29, cv_hour = 12, cv_minute = 34, cv_second = 56\<rparr>"
  by (rule unixToCivil_local) (simp_all add: valid_date_def leapYear_def daysFromCivil_form year_days_def)

lemma demo_begin: "fst (editor_begin 1709210096 0) = ClockOk"
  by (simp add: editor_begin_def demo_seed validInstant_def clock_consts editor_consts validOffset_def
      kMinimumUtcOffsetMinutes_def kMaximumUtcOffsetMinutes_def)

lemma demo_shown: "foldl screen_press (screen_start (unixToCivil (uint (1709210096 :: u64)) (sint (0 :: i16))) (sint (0 :: i16)))
    demo_presses = \<lparr>sc_field = AtReview, sc_commit = True, sc_year = 2025, sc_month = 2, sc_day = 28, sc_hour = 13,
      sc_minute = 34, sc_offset = 0\<rparr>"
  by (simp add: demo_seed demo_presses_def screen_press_def screen_start_def screen_short_def screen_long_def
      fit_day_def month_length_def)

lemma demo_committed: "unixToCivil 1740749640 0
    = \<lparr>cv_year = 2025, cv_month = 2, cv_day = 28, cv_hour = 13, cv_minute = 34, cv_second = 0\<rparr>"
  by (rule unixToCivil_local) (simp_all add: valid_date_def leapYear_def daysFromCivil_form year_days_def)

theorem editor_commits_shown_witness:
  "editor_value (foldl press (snd (editor_begin 1709210096 0)) demo_presses) = Some (1740749640, 0)"
proof -
  have started: "editor_begin 1709210096 0 = (ClockOk, snd (editor_begin 1709210096 0))"
    using demo_begin by (simp add: prod_eq_iff)
  show ?thesis
    using editor_commits_shown [OF started demo_shown [symmetric], of 1740749640 0]
    by (simp add: demo_committed screen_time_def validInstant_def clock_consts)
qed

text \<open>A commit is never more than seven long presses away.\<close>

lemma longPress_advances:
  assumes "editor_inv v" "ed_active v" "ed_field v \<noteq> FieldReview"
  shows "ed_active (snd (longPress v)) \<and> uint (ed_field (snd (longPress v))) = uint (ed_field v) + 1"
proof -
  have "uint (ed_field v) \<noteq> 7" using assms(3) by (auto simp: word_uint_eq_iff)
  then have "ed_field v < FieldReview" using assms(1,2) by (simp add: editor_inv_def word_less_def)
  then have "uint (ed_field v + 1) = uint (ed_field v) + 1" by (rule uint_succ8)
  moreover have "ed_field v \<noteq> FieldInactive" using assms(1,2) by (auto simp: editor_inv_def)
  ultimately show ?thesis using assms(2,3) by (simp add: longPress_def)
qed

lemma editor_commit_reached:
  assumes "editor_inv v" "ed_active v" "uint (ed_field v) + int n = 7"
  shows "fst (longPress (((\<lambda>v. snd (longPress v)) ^^ n) v)) = CommitRequested"
  using assms
proof (induction n arbitrary: v)
  case 0
  then have "ed_field v = FieldReview" by (simp add: word_uint_eq_iff)
  then show ?case using 0 by (simp add: longPress_def)
next
  case (Suc n)
  have "ed_field v \<noteq> FieldReview" using Suc.prems(3) by auto
  then have "ed_active (snd (longPress v))" "uint (ed_field (snd (longPress v))) = uint (ed_field v) + 1"
    using longPress_advances Suc.prems by auto
  then show ?case
    using Suc.IH [OF longPress_inv [OF Suc.prems(1)]] Suc.prems(3) by (simp add: funpow_Suc_right del: funpow.simps)
qed

end
