(* ===== verification/Chat_Contract.thy ===== *)
theory Chat_Contract
  imports Companion_Utf8
begin

text \<open>
  The serial chat commands, \<^verbatim>\<open>src/src/kitsu_chat_contract.{h,cpp}\<close>: the tokenizer, the field parsers, the
  strict UTF-8 check of user text and \<^verbatim>\<open>parseCommand\<close>.  The cursor is the rest of the line, a token
  its bytes.  A refused line is its status alone: the half-filled \<^verbatim>\<open>Command\<close> that the code leaves
  behind on an error is not part of the model.
\<close>

unbundle bit_operations_syntax

subsection \<open>Data\<close>

definition kInputLineMaxBytes :: nat where "kInputLineMaxBytes = 224"
definition kDirectTextMaxBytes :: nat where "kDirectTextMaxBytes = 128"
definition kKitsuChannelTextMaxBytes :: nat where "kKitsuChannelTextMaxBytes = 128"
definition kContactNameMaxBytes :: nat where "kContactNameMaxBytes = 31"
definition kPublicKeyBytes :: nat where "kPublicKeyBytes = 32"
definition kChannelSecretBytes :: nat where "kChannelSecretBytes = 16"
definition kContactReferenceBytes :: nat where "kContactReferenceBytes = 6"
definition kChannelCount :: u32 where "kChannelCount = 4"

lemmas chat_consts = kInputLineMaxBytes_def kDirectTextMaxBytes_def kKitsuChannelTextMaxBytes_def
  kContactNameMaxBytes_def kPublicKeyBytes_def kChannelSecretBytes_def kContactReferenceBytes_def kChannelCount_def

datatype ContactRole = RoleClient | RoleRepeater | RoleRoom | RoleSensor
datatype ChannelRegionScope = ScopeLegacy | ScopeEu

datatype CommandKind = KindNone | KindStatus | KindReset | ListContacts | ListChannels | ListInbox | SetContact
  | DropContact | SetChannel | ClearChannel | SendDirect | SendChannel

datatype ParseStatus = NotChat | ChatEmpty | LineTooLong | ControlCharacter | InvalidUtf8 | BadSyntax | BadHex
  | IntegerOverflow | InvalidRole | InvalidRegionScope | InvalidChannel | PublicChannelImmutable | ZeroKey
  | EmptyName | NameTooLong | EmptyText | TextTooLong

record Command =
  cm_kind :: CommandKind
  cm_afterMessageId :: u32
  cm_channelIndex :: u8
  cm_channelRegionScope :: ChannelRegionScope
  cm_contactRole :: ContactRole
  cm_publicKey :: bytes
  cm_channelSecret :: bytes
  cm_contactReference :: bytes
  cm_name :: bytes
  cm_text :: bytes

definition chat_command0 :: Command where
  "chat_command0 = \<lparr>cm_kind = KindNone, cm_afterMessageId = 0, cm_channelIndex = 0, cm_channelRegionScope = ScopeLegacy,
     cm_contactRole = RoleClient, cm_publicKey = replicate kPublicKeyBytes 0, cm_channelSecret = replicate kChannelSecretBytes 0,
     cm_contactReference = replicate kContactReferenceBytes 0, cm_name = [], cm_text = []\<rparr>"

subsection \<open>Tokens\<close>

definition asciiSpace :: "u8 \<Rightarrow> bool" where "asciiSpace c \<longleftrightarrow> c = 0x20"

definition asciiLower :: "u8 \<Rightarrow> u8" where
  "asciiLower c = (if c \<ge> 65 \<and> c \<le> 90 then c + 32 else c)"

definition tokenEquals :: "bytes \<Rightarrow> string \<Rightarrow> bool" where
  "tokenEquals token expected \<longleftrightarrow> length token = length expected \<and> map asciiLower token = ascii expected"

definition tokenEqualsExact :: "bytes \<Rightarrow> string \<Rightarrow> bool" where
  "tokenEqualsExact token expected \<longleftrightarrow> token = ascii expected"

definition tokenStartsWithExact :: "bytes \<Rightarrow> string \<Rightarrow> bool" where
  "tokenStartsWithExact token p \<longleftrightarrow> length token \<ge> length p \<and> take (length p) token = ascii p"

definition nextToken :: "bytes \<Rightarrow> (bytes \<times> bytes) option" where
  "nextToken cursor =
     (let start = dropWhile asciiSpace cursor
      in if start = [] then None
         else Some (takeWhile (\<lambda>c. \<not> asciiSpace c) start, dropWhile (\<lambda>c. \<not> asciiSpace c) start))"

definition noMoreTokens :: "bytes \<Rightarrow> bool" where
  "noMoreTokens cursor \<longleftrightarrow> dropWhile asciiSpace cursor = []"

definition remainingTail :: "bytes \<Rightarrow> bytes option" where
  "remainingTail cursor = (case cursor of [] \<Rightarrow> None
     | c # rest \<Rightarrow> if \<not> asciiSpace c then None else if rest = [] then None else Some rest)"

subsection \<open>Fields\<close>

definition chat_hexNibble :: "u8 \<Rightarrow> u8 option" where
  "chat_hexNibble c = (if c \<ge> 48 \<and> c \<le> 57 then Some (c - 48)
     else let l = asciiLower c in if l \<ge> 97 \<and> l \<le> 102 then Some (l - 97 + 10) else None)"

fun hex_pairs :: "bytes \<Rightarrow> bytes option" where
  "hex_pairs (h # l # rest) =
     (case (chat_hexNibble h, chat_hexNibble l) of
        (Some high, Some low) \<Rightarrow> map_option (\<lambda>bs. (push_bit 4 high OR low) # bs) (hex_pairs rest)
      | _ \<Rightarrow> None)"
| "hex_pairs _ = Some []"

definition decodeHex :: "bytes \<Rightarrow> nat \<Rightarrow> bytes option" where
  "decodeHex token expectedBytes = (if length token \<noteq> expectedBytes * 2 then None else hex_pairs token)"

definition chat_allZero :: "bytes \<Rightarrow> bool" where
  "chat_allZero data \<longleftrightarrow> foldl (OR) 0 data = 0"

fun uint32_digits :: "bytes \<Rightarrow> u32 \<Rightarrow> u32 option" where
  "uint32_digits [] value = Some value"
| "uint32_digits (c # cs) value =
     (if c < 48 \<or> c > 57 then None
      else let digit = ucast (c - 48)
           in if value > (0xFFFFFFFF - digit) div 10 then None else uint32_digits cs (value * 10 + digit))"

definition chat_parseUint32 :: "bytes \<Rightarrow> u32 option" where
  "chat_parseUint32 token = (if token = [] then None else uint32_digits token 0)"

definition parseChannel :: "bytes \<Rightarrow> u8 option" where
  "parseChannel token = (case chat_parseUint32 token of None \<Rightarrow> None
     | Some value \<Rightarrow> if value \<ge> kChannelCount then None else Some (ucast value))"

subsection \<open>User text\<close>

definition user_lead :: "u8 \<Rightarrow> (u32 \<times> nat) option" where
  "user_lead c =
     (if c \<le> 0x7F then Some (ucast c, 0)
      else if c \<ge> 0xC2 \<and> c \<le> 0xDF then Some (ucast (c AND 0x1F), 1)
      else if c \<ge> 0xE0 \<and> c \<le> 0xEF then Some (ucast (c AND 0x0F), 2)
      else if c \<ge> 0xF0 \<and> c \<le> 0xF4 then Some (ucast (c AND 0x07), 3)
      else None)"

text \<open>The loop over the continuation bytes is the one of the companion protocol, \<open>utf8_continue\<close>.\<close>

fun user_scan :: "bytes \<Rightarrow> bool" where
  "user_scan [] = True"
| "user_scan (first # rest) =
     (case user_lead first of None \<Rightarrow> False
      | Some (lead, count) \<Rightarrow>
          if length rest < count then False
          else case utf8_continue lead (take count rest) of None \<Rightarrow> False
            | Some codePoint \<Rightarrow>
                if (count = 1 \<and> codePoint < 0x80) \<or> (count = 2 \<and> codePoint < 0x800)
                   \<or> (count = 3 \<and> codePoint < 0x10000) \<or> codePoint > 0x10FFFF
                   \<or> (codePoint \<ge> 0xD800 \<and> codePoint \<le> 0xDFFF)
                then False
                else if codePoint \<le> 0x1F \<or> codePoint = 0x7F \<or> (codePoint \<ge> 0x80 \<and> codePoint \<le> 0x9F) then False
                else user_scan (drop count rest))"

definition validUserUtf8 :: "bytes option \<Rightarrow> nat \<Rightarrow> bool" where
  "validUserUtf8 input inputLength = (case input of None \<Rightarrow> inputLength = 0 | Some bs \<Rightarrow> user_scan (take inputLength bs))"

definition copyUserText :: "bytes \<Rightarrow> nat \<Rightarrow> bool \<Rightarrow> ParseStatus + bytes" where
  "copyUserText source capacity isName =
     (if source = [] then Inl (if isName then EmptyName else EmptyText)
      else if length source + 1 > capacity then Inl (if isName then NameTooLong else TextTooLong)
      else if \<not> validUserUtf8 (Some source) (length source) then Inl InvalidUtf8
      else Inr source)"

definition parseContactRole :: "bytes \<Rightarrow> ParseStatus + ContactRole" where
  "parseContactRole token =
     (if tokenEquals token ''client'' then Inr RoleClient
      else if tokenEquals token ''repeater'' then Inr RoleRepeater
      else if tokenEquals token ''room'' then Inr RoleRoom
      else if tokenEquals token ''sensor'' then Inr RoleSensor
      else Inl InvalidRole)"

subsection \<open>Commands\<close>

text \<open>The early returns: a missing value ends the parse with the given status.\<close>

definition need :: "'a option \<Rightarrow> ParseStatus \<Rightarrow> ('a \<Rightarrow> ParseStatus + 'b) \<Rightarrow> ParseStatus + 'b" where
  "need x e k = (case x of None \<Rightarrow> Inl e | Some v \<Rightarrow> k v)"

definition pass :: "ParseStatus + 'a \<Rightarrow> ('a \<Rightarrow> ParseStatus + 'b) \<Rightarrow> ParseStatus + 'b" where
  "pass x k = (case x of Inl e \<Rightarrow> Inl e | Inr v \<Rightarrow> k v)"

lemmas flow_defs = need_def pass_def

definition parseListCommand :: "bytes \<Rightarrow> CommandKind \<Rightarrow> ParseStatus + Command" where
  "parseListCommand cursor kind =
     (if \<not> noMoreTokens cursor then Inl BadSyntax else Inr (chat_command0\<lparr>cm_kind := kind\<rparr>))"

definition parse_inbox :: "bytes \<Rightarrow> ParseStatus + Command" where
  "parse_inbox cursor =
     (if noMoreTokens cursor then Inr (chat_command0\<lparr>cm_kind := ListInbox\<rparr>)
      else need (nextToken cursor) BadSyntax (\<lambda>(after, cursor).
        if \<not> noMoreTokens cursor then Inl BadSyntax
        else need (chat_parseUint32 after) IntegerOverflow (\<lambda>n.
          Inr (chat_command0\<lparr>cm_afterMessageId := n, cm_kind := ListInbox\<rparr>))))"

definition parse_contact :: "bytes \<Rightarrow> ParseStatus + Command" where
  "parse_contact cursor =
     need (nextToken cursor) BadSyntax (\<lambda>(action, cursor).
     need (nextToken cursor) BadSyntax (\<lambda>(key, cursor).
     need (decodeHex key kPublicKeyBytes) BadHex (\<lambda>publicKey.
       if chat_allZero publicKey then Inl ZeroKey
       else if tokenEquals action ''drop'' then
         (if \<not> noMoreTokens cursor then Inl BadSyntax
          else Inr (chat_command0\<lparr>cm_publicKey := publicKey, cm_kind := DropContact\<rparr>))
       else if \<not> tokenEquals action ''set'' then Inl BadSyntax
       else need (nextToken cursor) BadSyntax (\<lambda>(role, cursor).
            pass (parseContactRole role) (\<lambda>contactRole.
            need (remainingTail cursor) EmptyName (\<lambda>name.
            pass (copyUserText name (kContactNameMaxBytes + 1) True) (\<lambda>name.
              Inr (chat_command0\<lparr>cm_publicKey := publicKey, cm_contactRole := contactRole, cm_name := name,
                     cm_kind := SetContact\<rparr>))))))))"

definition parse_channel :: "bytes \<Rightarrow> ParseStatus + Command" where
  "parse_channel cursor =
     need (nextToken cursor) BadSyntax (\<lambda>(action, cursor).
     need (nextToken cursor) BadSyntax (\<lambda>(channel, cursor).
     need (parseChannel channel) InvalidChannel (\<lambda>channelIndex.
       if channelIndex = 0 then Inl PublicChannelImmutable
       else if tokenEquals action ''clear'' then
         (if \<not> noMoreTokens cursor then Inl BadSyntax
          else Inr (chat_command0\<lparr>cm_channelIndex := channelIndex, cm_kind := ClearChannel\<rparr>))
       else if \<not> tokenEquals action ''set'' then Inl BadSyntax
       else need (nextToken cursor) BadSyntax (\<lambda>(secret, cursor).
            pass (if tokenStartsWithExact secret ''region_scope='' then
                    (if \<not> tokenEqualsExact secret ''region_scope=EU'' then Inl InvalidRegionScope
                     else need (nextToken cursor) BadSyntax (\<lambda>(secret, cursor). Inr (ScopeEu, secret, cursor)))
                  else Inr (ScopeLegacy, secret, cursor)) (\<lambda>(scope, secret, cursor).
            need (decodeHex secret kChannelSecretBytes) BadHex (\<lambda>channelSecret.
              if chat_allZero channelSecret then Inl ZeroKey
              else need (remainingTail cursor) EmptyName (\<lambda>name.
                   pass (copyUserText name (kContactNameMaxBytes + 1) True) (\<lambda>name.
                     Inr (chat_command0\<lparr>cm_channelIndex := channelIndex, cm_channelRegionScope := scope,
                            cm_channelSecret := channelSecret, cm_name := name, cm_kind := SetChannel\<rparr>)))))))))"

definition parse_send :: "bytes \<Rightarrow> ParseStatus + Command" where
  "parse_send cursor =
     need (nextToken cursor) BadSyntax (\<lambda>(targetKind, cursor).
     need (nextToken cursor) BadSyntax (\<lambda>(target, cursor).
       if tokenEquals targetKind ''dm'' then
         need (decodeHex target kContactReferenceBytes) BadHex (\<lambda>contactReference.
         need (remainingTail cursor) EmptyText (\<lambda>text.
         pass (copyUserText text (kDirectTextMaxBytes + 1) False) (\<lambda>text.
           Inr (chat_command0\<lparr>cm_contactReference := contactReference, cm_text := text, cm_kind := SendDirect\<rparr>))))
       else if tokenEquals targetKind ''ch'' then
         need (parseChannel target) InvalidChannel (\<lambda>channelIndex.
         need (remainingTail cursor) EmptyText (\<lambda>text.
         pass (copyUserText text (kKitsuChannelTextMaxBytes + 1) False) (\<lambda>text.
           Inr (chat_command0\<lparr>cm_channelIndex := channelIndex, cm_text := text, cm_kind := SendChannel\<rparr>))))
       else Inl BadSyntax))"

text \<open>The word after \<^verbatim>\<open>chat\<close> selects the command.\<close>

definition parse_verb :: "bytes \<Rightarrow> ParseStatus + Command" where
  "parse_verb cursor =
     need (nextToken cursor) BadSyntax (\<lambda>(token, cursor).
       if tokenEquals token ''status'' then parseListCommand cursor KindStatus
       else if tokenEquals token ''reset'' then parseListCommand cursor KindReset
       else if tokenEquals token ''contacts'' then parseListCommand cursor ListContacts
       else if tokenEquals token ''channels'' then parseListCommand cursor ListChannels
       else if tokenEquals token ''inbox'' then parse_inbox cursor
       else if tokenEquals token ''contact'' then parse_contact cursor
       else if tokenEquals token ''channel'' then parse_channel cursor
       else if tokenEquals token ''send'' then parse_send cursor
       else Inl BadSyntax)"

definition control_byte :: "u8 \<Rightarrow> bool" where
  "control_byte c \<longleftrightarrow> c = 0 \<or> c = 13 \<or> c = 10 \<or> c = 0x7F \<or> c < 0x20"

definition parseCommand :: "bytes option \<Rightarrow> ParseStatus + Command" where
  "parseCommand input = (case input of None \<Rightarrow> Inl ChatEmpty | Some line \<Rightarrow>
     if line = [] then Inl ChatEmpty
     else if length line > kInputLineMaxBytes then Inl LineTooLong
     else if list_ex control_byte line then Inl ControlCharacter
     else if \<not> validUserUtf8 (Some line) (length line) then Inl InvalidUtf8
     else need (nextToken line) ChatEmpty (\<lambda>(token, cursor).
       if \<not> tokenEquals token ''chat'' then Inl NotChat else parse_verb cursor))"

end
