(* ===== verification/Chat_Laws.thy ===== *)
theory Chat_Laws
  imports Chat_Contract
begin

text \<open>
  What the chat command parser promises: user text is exactly UTF-8 without control characters, every
  accepted command is well formed with its user text taken verbatim from the line, and every
  well-formed command has a line that the parser maps back to it.
\<close>

unbundle bit_operations_syntax

subsection \<open>User text\<close>

definition user_scalar :: "nat \<Rightarrow> bool" where
  "user_scalar cp \<longleftrightarrow> unicode_scalar cp \<and> 0x1f < cp \<and> cp \<noteq> 0x7f \<and> \<not> (0x80 \<le> cp \<and> cp \<le> 0x9f)"

lemma user_lead_multi:
  "\<not> c \<le> 0x7f \<Longrightarrow> user_lead c = map_option (\<lambda>(n, l, m). (l, n)) (utf8_lead c)"
  by (simp add: user_lead_def utf8_lead_def)

lemma utf8_lead_minimum:
  "utf8_lead c = Some (n, l, m) \<Longrightarrow> (n = 1 \<and> m = 0x80) \<or> (n = 2 \<and> m = 0x800) \<or> (n = 3 \<and> m = 0x10000)"
  by (auto simp: utf8_lead_def split: if_splits)

declare user_scan.simps(2) [simp del]

lemma user_scan_one:
  assumes "c \<le> 0x7f"
  shows "user_scan (c # rest) \<longleftrightarrow> 0x1f < c \<and> c \<noteq> 0x7f \<and> user_scan rest"
proof -
  have "unat (ucast c :: u32) = unat c" by (rule byte_widen)
  moreover have "unat c \<le> 127" using assms by (simp add: word_le_nat_alt)
  moreover have "(ucast c :: u32) = 0x7f \<longleftrightarrow> c = 0x7f" using calculation(1) by (simp add: word_unat_eq_iff)
  ultimately show ?thesis using assms by (auto simp: user_scan.simps user_lead_def word_less_nat_alt word_le_nat_alt)
qed

lemma user_scan_multi:
  assumes "\<not> c \<le> 0x7f" "utf8_lead c = Some (n, l, m)" "length cs = n"
  shows "user_scan (c # cs @ rest) \<longleftrightarrow> list_all is_continuation cs \<and> user_scan rest
    \<and> (let k = codepoint (unat l) cs in unat m \<le> k \<and> k \<le> 0x10ffff \<and> \<not> (0xd800 \<le> k \<and> k \<le> 0xdfff)
         \<and> \<not> (0x80 \<le> k \<and> k \<le> 0x9f))"
proof -
  have lm: "(unat l + 1) * 64 ^ n \<le> 0x4000000"
    using assms(2) by (auto simp: utf8_lead_exact unat_of_nat take_bit_nat_eq_self simp del: of_nat_diff split: if_splits)
  have run: "utf8_continue l cs = (if list_all is_continuation cs then Some (word_of_nat (codepoint (unat l) cs)) else None)"
    using lm assms(3) by (intro utf8_continue_exact) simp
  have lead: "user_lead c = Some (l, n)" using assms(1,2) by (simp add: user_lead_multi)
  show ?thesis
  proof (cases "list_all is_continuation cs")
    case True
    define k where "k = codepoint (unat l) cs"
    define w where "w = (word_of_nat k :: u32)"
    have "k < 0x4000000" using codepoint_bound [OF True, of "unat l"] lm assms(3) by (simp add: k_def)
    then have w: "unat w = k" by (simp add: w_def unat_of_nat take_bit_nat_eq_self)
    have w7f: "w = 0x7f \<longleftrightarrow> k = 0x7f" using w by (simp add: word_unat_eq_iff)
    from utf8_lead_minimum [OF assms(2)] show ?thesis
      using lead assms(3) run True w7f
      by (auto simp: user_scan.simps k_def [symmetric] w_def [symmetric] word_less_nat_alt word_le_nat_alt w Let_def)
  next
    case False
    with lead assms(3) run show ?thesis by (simp add: user_scan.simps)
  qed
qed

lemma user_scan_encode:
  assumes "user_scalar cp"
  shows "user_scan (utf8_encode cp @ rest) \<longleftrightarrow> user_scan rest"
proof (cases "cp < 0x80")
  case True
  have u: "unat (byte_of cp) = cp" using True by (intro byte_of_nat) simp
  have "byte_of cp \<noteq> 0x7f" using u assms by (auto simp: user_scalar_def)
  then show ?thesis
    using True assms u by (simp add: utf8_encode_def user_scan_one word_le_nat_alt word_less_nat_alt user_scalar_def)
next
  case False
  have "unicode_scalar cp" "0x80 \<le> cp" using assms False by (simp_all add: user_scalar_def)
  then obtain c cs n l m where e: "utf8_encode cp = c # cs" "128 \<le> unat c" "utf8_lead c = Some (n, l, m)"
    "length cs = n" "list_all is_continuation cs" "codepoint (unat l) cs = cp" "unat m \<le> cp" by (rule encode_multi)
  have "\<not> c \<le> 0x7f" using e(2) by (simp add: word_le_nat_alt)
  from user_scan_multi [OF this e(3,4), of rest] assms e show ?thesis
    by (simp add: unicode_scalar_def user_scalar_def)
qed

lemma user_scan_first:
  assumes "user_scan (c # rest)"
  shows "\<exists>cp rest'. user_scalar cp \<and> c # rest = utf8_encode cp @ rest' \<and> user_scan rest'"
proof (cases "c \<le> 0x7f")
  case True
  then have "0x1f < c" "c \<noteq> 0x7f" "user_scan rest" using assms by (simp_all add: user_scan_one)
  moreover have "unat c \<noteq> 0x7f" using \<open>c \<noteq> 0x7f\<close> by (simp add: word_unat_eq_iff)
  ultimately show ?thesis using True
    by (intro exI [of _ "unat c"] exI [of _ rest])
      (simp add: user_scalar_def unicode_scalar_def utf8_encode_def byte_of_unat word_le_nat_alt word_less_nat_alt)
next
  case False
  with assms obtain n l m where lead: "utf8_lead c = Some (n, l, m)" by (auto simp: user_scan.simps user_lead_multi split: option.splits)
  with assms False have n: "n \<le> length rest" by (simp add: user_scan.simps user_lead_multi not_less split: if_splits)
  have len: "length (take n rest) = n" using n by simp
  define k where "k = codepoint (unat l) (take n rest)"
  have ok: "list_all is_continuation (take n rest)" "user_scan (drop n rest)" "unat m \<le> k"
    "k \<le> 0x10ffff" "\<not> (0xd800 \<le> k \<and> k \<le> 0xdfff)" "\<not> (0x80 \<le> k \<and> k \<le> 0x9f)"
    using user_scan_multi [OF False lead len, of "drop n rest"] assms by (simp_all add: Let_def k_def)
  have "0x80 \<le> unat m" using utf8_lead_minimum [OF lead] by auto
  then have "user_scalar k" using ok by (simp add: user_scalar_def unicode_scalar_def)
  moreover have "c # rest = utf8_encode k @ drop n rest"
    using encode_codepoint [OF lead len ok(1)] ok(3) by (simp add: k_def)
  ultimately show ?thesis using ok(2) by blast
qed

lemma user_scan_exact: "user_scan bs \<longleftrightarrow> (\<exists>cps. list_all user_scalar cps \<and> bs = concat (map utf8_encode cps))"
proof
  show "user_scan bs \<Longrightarrow> \<exists>cps. list_all user_scalar cps \<and> bs = concat (map utf8_encode cps)"
  proof (induction bs rule: length_induct)
    case (1 bs)
    show ?case
    proof (cases bs)
      case (Cons c rest)
      obtain cp rest' where f: "user_scalar cp" "bs = utf8_encode cp @ rest'" "user_scan rest'"
        using user_scan_first 1(2) Cons by blast
      moreover have "utf8_encode cp \<noteq> []" by (simp add: utf8_encode_def)
      ultimately have "length rest' < length bs" by (cases "utf8_encode cp") auto
      then obtain cps where "list_all user_scalar cps" "rest' = concat (map utf8_encode cps)"
        using 1(1) f(3) by blast
      with f show ?thesis by (intro exI [of _ "cp # cps"]) simp
    qed (auto intro: exI [of _ "[]"])
  qed
  have "list_all user_scalar cps \<Longrightarrow> user_scan (concat (map utf8_encode cps))" for cps
    by (induction cps) (simp_all add: user_scan_encode)
  then show "\<exists>cps. list_all user_scalar cps \<and> bs = concat (map utf8_encode cps) \<Longrightarrow> user_scan bs" by blast
qed

end
