(* ===== verification/Chat_Commands.thy ===== *)
theory Chat_Commands
  imports Chat_Laws Clock_Text "HOL-Library.Sublist"
begin

text \<open>
  The chat parser against the set of well-formed commands: \<open>valid_command\<close> says which commands the
  parser may produce, \<open>render\<close> gives a line for each of them.
\<close>

unbundle bit_operations_syntax

subsection \<open>Well-formed commands\<close>

text \<open>
  User text and keys are specified without the parser's own tests: a text is the UTF-8 encoding of
  scalar values none of which is a control character, a key is a byte string other than zeros.
\<close>

definition user_text :: "bytes \<Rightarrow> nat \<Rightarrow> bool" where
  "user_text bs limit \<longleftrightarrow> bs \<noteq> [] \<and> length bs \<le> limit
     \<and> (\<exists>cps. list_all user_scalar cps \<and> bs = concat (map utf8_encode cps))"

definition usable_key :: "bytes \<Rightarrow> nat \<Rightarrow> bool" where
  "usable_key key n \<longleftrightarrow> length key = n \<and> key \<noteq> replicate n 0"

lemma user_text_code: "user_text bs limit \<longleftrightarrow> bs \<noteq> [] \<and> length bs \<le> limit \<and> user_scan bs"
  by (simp add: user_text_def user_scan_exact)

lemma or_bytes_zero: "foldl (OR) a bs = 0 \<longleftrightarrow> a = 0 \<and> (\<forall>b \<in> set bs. b = 0)" for a :: u8
proof (induction bs arbitrary: a)
  case (Cons b bs)
  have "a OR b = 0 \<longleftrightarrow> a = 0 \<and> b = 0" by (auto simp: bit_eq_iff bit_or_iff)
  then show ?case by (auto simp: Cons.IH)
qed simp

lemma usable_key_code: "usable_key key n \<longleftrightarrow> length key = n \<and> \<not> chat_allZero key"
proof -
  have "key = replicate n 0 \<longleftrightarrow> (\<forall>b \<in> set key. b = 0)" if "length key = n"
    using that replicate_length_same [of key 0] in_set_replicate [of _ n 0] by metis
  then show ?thesis by (auto simp: usable_key_def chat_allZero_def or_bytes_zero)
qed

definition valid_command :: "Command \<Rightarrow> bool" where
  "valid_command c = (case cm_kind c of
     KindNone \<Rightarrow> False
   | KindStatus \<Rightarrow> c = chat_command0\<lparr>cm_kind := KindStatus\<rparr>
   | KindReset \<Rightarrow> c = chat_command0\<lparr>cm_kind := KindReset\<rparr>
   | ListContacts \<Rightarrow> c = chat_command0\<lparr>cm_kind := ListContacts\<rparr>
   | ListChannels \<Rightarrow> c = chat_command0\<lparr>cm_kind := ListChannels\<rparr>
   | ListInbox \<Rightarrow> c = chat_command0\<lparr>cm_afterMessageId := cm_afterMessageId c, cm_kind := ListInbox\<rparr>
   | SetContact \<Rightarrow> usable_key (cm_publicKey c) 32 \<and> user_text (cm_name c) 31
       \<and> c = chat_command0\<lparr>cm_publicKey := cm_publicKey c, cm_contactRole := cm_contactRole c, cm_name := cm_name c,
               cm_kind := SetContact\<rparr>
   | DropContact \<Rightarrow> usable_key (cm_publicKey c) 32
       \<and> c = chat_command0\<lparr>cm_publicKey := cm_publicKey c, cm_kind := DropContact\<rparr>
   | SetChannel \<Rightarrow> 1 \<le> unat (cm_channelIndex c) \<and> unat (cm_channelIndex c) \<le> 3
       \<and> usable_key (cm_channelSecret c) 16 \<and> user_text (cm_name c) 31
       \<and> c = chat_command0\<lparr>cm_channelIndex := cm_channelIndex c, cm_channelRegionScope := cm_channelRegionScope c,
               cm_channelSecret := cm_channelSecret c, cm_name := cm_name c, cm_kind := SetChannel\<rparr>
   | ClearChannel \<Rightarrow> 1 \<le> unat (cm_channelIndex c) \<and> unat (cm_channelIndex c) \<le> 3
       \<and> c = chat_command0\<lparr>cm_channelIndex := cm_channelIndex c, cm_kind := ClearChannel\<rparr>
   | SendDirect \<Rightarrow> length (cm_contactReference c) = 6 \<and> user_text (cm_text c) 128
       \<and> c = chat_command0\<lparr>cm_contactReference := cm_contactReference c, cm_text := cm_text c, cm_kind := SendDirect\<rparr>
   | SendChannel \<Rightarrow> unat (cm_channelIndex c) \<le> 3 \<and> user_text (cm_text c) 128
       \<and> c = chat_command0\<lparr>cm_channelIndex := cm_channelIndex c, cm_text := cm_text c, cm_kind := SendChannel\<rparr>)"

subsection \<open>Everything accepted is well formed\<close>

lemma hex_pairs_length: "hex_pairs t = Some bs \<Longrightarrow> length bs = length t div 2"
  by (induction t arbitrary: bs rule: hex_pairs.induct) (auto split: option.splits)

lemma decodeHex_length: "decodeHex t n = Some bs \<Longrightarrow> length bs = n"
  by (auto simp: decodeHex_def dest: hex_pairs_length split: if_splits)

lemma parseChannel_range: "parseChannel t = Some i \<Longrightarrow> unat i \<le> 3"
proof -
  assume "parseChannel t = Some i"
  then obtain v :: u32 where v: "v < 4" "i = ucast v" by (auto simp: parseChannel_def chat_consts not_le split: option.splits if_splits)
  then have "unat v < 4" by (simp add: word_less_nat_alt)
  moreover have "unat (ucast v :: u8) = unat v" using \<open>unat v < 4\<close> by (simp add: unsigned_ucast_eq take_bit_nat_eq_self)
  ultimately show ?thesis using v by simp
qed

lemma copyUserText_ok: "copyUserText s n b = Inr t \<Longrightarrow> t = s \<and> user_text s (n - 1)"
  by (auto simp: copyUserText_def user_text_code validUserUtf8_def split: if_splits)

lemma nextToken_suffix: "nextToken cursor = Some (t, rest) \<Longrightarrow> suffix rest cursor"
  by (auto simp: nextToken_def Let_def split: if_splits intro: suffix_order.trans suffix_dropWhile)

lemma remainingTail_suffix: "remainingTail cursor = Some t \<Longrightarrow> suffix t cursor"
  by (auto simp: remainingTail_def suffix_ConsI split: list.splits if_splits)

lemma need_Inr: "need x e k = Inr c \<Longrightarrow> (\<And>v. x = Some v \<Longrightarrow> k v = Inr c \<Longrightarrow> P) \<Longrightarrow> P"
  by (auto simp: need_def split: option.splits)

lemma pass_Inr: "pass x k = Inr c \<Longrightarrow> (\<And>v. x = Inr v \<Longrightarrow> k v = Inr c \<Longrightarrow> P) \<Longrightarrow> P"
  by (auto simp: pass_def split: sum.splits)

text \<open>A command of the parser, with its user text a suffix of the line it was read from.\<close>

definition parsed_from :: "bytes \<Rightarrow> Command \<Rightarrow> bool" where
  "parsed_from cursor c \<longleftrightarrow> valid_command c \<and> suffix (cm_name c) cursor \<and> suffix (cm_text c) cursor"

lemma parsed_from_rest: "parsed_from rest c \<Longrightarrow> suffix rest cursor \<Longrightarrow> parsed_from cursor c"
  by (auto simp: parsed_from_def intro: suffix_order.trans)

lemma chat_command0_texts [simp]: "cm_name chat_command0 = []" "cm_text chat_command0 = []"
  by (simp_all add: chat_command0_def)

lemma list_command_valid: "parseListCommand cursor kind = Inr c \<Longrightarrow>
    kind \<in> {KindStatus, KindReset, ListContacts, ListChannels} \<Longrightarrow> parsed_from cursor c"
  by (auto simp: parseListCommand_def parsed_from_def valid_command_def split: if_splits)

lemma inbox_valid: "parse_inbox cursor = Inr c \<Longrightarrow> parsed_from cursor c"
  by (auto simp: parse_inbox_def parsed_from_def valid_command_def chat_command0_def split: if_splits elim!: need_Inr)

lemma contact_valid: "parse_contact cursor = Inr c \<Longrightarrow> parsed_from cursor c"
  unfolding parse_contact_def chat_consts
  by (auto elim!: need_Inr pass_Inr split: if_splits prod.splits
      simp: parsed_from_def valid_command_def usable_key_code
      dest!: decodeHex_length copyUserText_ok nextToken_suffix remainingTail_suffix
      intro: suffix_order.trans)

lemma channel_index_nonzero: "i \<noteq> 0 \<Longrightarrow> Suc 0 \<le> unat i" for i :: u8
  by (simp add: unat_eq_0 Suc_le_eq unat_gt_0)

lemma channel_valid: "parse_channel cursor = Inr c \<Longrightarrow> parsed_from cursor c"
  unfolding parse_channel_def chat_consts(1-7)
  by (auto elim!: need_Inr pass_Inr split: if_splits prod.splits
      simp: parsed_from_def valid_command_def usable_key_code channel_index_nonzero
      dest!: decodeHex_length copyUserText_ok nextToken_suffix remainingTail_suffix parseChannel_range
      intro: suffix_order.trans) (meson suffix_order.trans)+

lemma send_valid: "parse_send cursor = Inr c \<Longrightarrow> parsed_from cursor c"
  unfolding parse_send_def chat_consts(1-7)
  by (auto elim!: need_Inr pass_Inr split: if_splits prod.splits
      simp: parsed_from_def valid_command_def
      dest!: decodeHex_length copyUserText_ok nextToken_suffix remainingTail_suffix parseChannel_range
      intro: suffix_order.trans)

lemma verb_valid:
  assumes "parse_verb cursor = Inr c"
  shows "parsed_from cursor c"
proof -
  obtain t rest where "nextToken cursor = Some (t, rest)" using assms by (auto simp: parse_verb_def elim!: need_Inr)
  moreover from this have "parsed_from rest c"
    using assms by (auto simp: parse_verb_def need_def split: if_splits
        intro: list_command_valid inbox_valid contact_valid channel_valid send_valid)
  ultimately show ?thesis by (blast intro: parsed_from_rest nextToken_suffix)
qed

lemma accepted_command:
  assumes "parseCommand (Some line) = Inr c"
  shows "parsed_from line c" and "length line \<le> 224" and "user_scan line"
proof -
  show "length line \<le> 224" "user_scan line"
    using assms by (auto simp: parseCommand_def chat_consts validUserUtf8_def split: if_splits)
  have run: "need (nextToken line) ChatEmpty (\<lambda>(token, cursor).
      if \<not> tokenEquals token ''chat'' then Inl NotChat else parse_verb cursor) = Inr c"
    using assms by (simp add: parseCommand_def split: if_splits)
  then obtain t rest where "nextToken line = Some (t, rest)" by (auto elim!: need_Inr)
  moreover from this run have "parse_verb rest = Inr c" by (simp add: need_def split: if_splits)
  ultimately show "parsed_from line c" by (blast intro: verb_valid parsed_from_rest nextToken_suffix)
qed

subsection \<open>A line for every command\<close>

definition nibble_char :: "u8 \<Rightarrow> u8" where
  "nibble_char n = (if n < 10 then 48 + n else 87 + n)"

definition hex_text :: "bytes \<Rightarrow> bytes" where
  "hex_text bs = concat (map (\<lambda>b. [nibble_char (drop_bit 4 b), nibble_char (take_bit 4 b)]) bs)"

fun role_word :: "ContactRole \<Rightarrow> string" where
  "role_word RoleClient = ''client''"
| "role_word RoleRepeater = ''repeater''"
| "role_word RoleRoom = ''room''"
| "role_word RoleSensor = ''sensor''"

text \<open>The words of a line, and its last part, which may hold spaces of its own.\<close>

definition words :: "bytes list \<Rightarrow> bytes \<Rightarrow> bytes" where
  "words ws rest = foldr (\<lambda>w r. w @ r) (map ((#) 0x20) ws) rest"

definition scope_words :: "ChannelRegionScope \<Rightarrow> bytes list" where
  "scope_words s = (case s of ScopeLegacy \<Rightarrow> [] | ScopeEu \<Rightarrow> [ascii ''region_scope=EU''])"

fun command_words :: "Command \<Rightarrow> bytes list \<times> bytes" where
  "command_words c = (case cm_kind c of
     KindNone \<Rightarrow> ([], [])
   | KindStatus \<Rightarrow> ([ascii ''status''], [])
   | KindReset \<Rightarrow> ([ascii ''reset''], [])
   | ListContacts \<Rightarrow> ([ascii ''contacts''], [])
   | ListChannels \<Rightarrow> ([ascii ''channels''], [])
   | ListInbox \<Rightarrow> ([ascii ''inbox'', ascii (decimal_text (unat (cm_afterMessageId c)))], [])
   | SetContact \<Rightarrow> ([ascii ''contact'', ascii ''set'', hex_text (cm_publicKey c), ascii (role_word (cm_contactRole c))],
       0x20 # cm_name c)
   | DropContact \<Rightarrow> ([ascii ''contact'', ascii ''drop'', hex_text (cm_publicKey c)], [])
   | SetChannel \<Rightarrow> ([ascii ''channel'', ascii ''set'', [48 + cm_channelIndex c]] @ scope_words (cm_channelRegionScope c)
       @ [hex_text (cm_channelSecret c)], 0x20 # cm_name c)
   | ClearChannel \<Rightarrow> ([ascii ''channel'', ascii ''clear'', [48 + cm_channelIndex c]], [])
   | SendDirect \<Rightarrow> ([ascii ''send'', ascii ''dm'', hex_text (cm_contactReference c)], 0x20 # cm_text c)
   | SendChannel \<Rightarrow> ([ascii ''send'', ascii ''ch'', [48 + cm_channelIndex c]], 0x20 # cm_text c))"

definition render :: "Command \<Rightarrow> bytes" where
  "render c = ascii ''chat'' @ words (fst (command_words c)) (snd (command_words c))"

subsection \<open>Tokens of a rendered line\<close>

definition word_bytes :: "bytes \<Rightarrow> bool" where
  "word_bytes w \<longleftrightarrow> w \<noteq> [] \<and> list_all (\<lambda>c. 0x20 < c \<and> c < 0x7f) w"

definition line_rest :: "bytes \<Rightarrow> bool" where
  "line_rest r \<longleftrightarrow> r = [] \<or> hd r = 0x20"

lemma words_Cons [simp]: "words (w # ws) r = 0x20 # w @ words ws r"
  by (simp add: words_def)

lemma words_Nil [simp]: "words [] r = r"
  by (simp add: words_def)

lemma line_rest_words [simp]: "line_rest r \<Longrightarrow> line_rest (words ws r)"
  by (cases ws) (simp_all add: line_rest_def)

lemma not_space: "0x20 < c \<Longrightarrow> \<not> asciiSpace c"
  by (auto simp: asciiSpace_def)

lemma nextToken_word:
  assumes "word_bytes w" "line_rest r"
  shows "nextToken (w @ r) = Some (w, r)" and "nextToken (0x20 # w @ r) = Some (w, r)"
proof -
  obtain c w' where w: "w = c # w'" using assms(1) by (cases w) (auto simp: word_bytes_def)
  have all: "\<forall>x \<in> set w. \<not> asciiSpace x" using assms(1) by (auto simp: word_bytes_def list_all_iff not_space)
  have "dropWhile asciiSpace (w @ r) = w @ r" using all by (simp add: w)
  moreover have "takeWhile (\<lambda>c. \<not> asciiSpace c) (w @ r) = w" "dropWhile (\<lambda>c. \<not> asciiSpace c) (w @ r) = r"
    using all assms(2) by (cases r; simp add: line_rest_def asciiSpace_def takeWhile_append2 dropWhile_append2)+
  ultimately show "nextToken (w @ r) = Some (w, r)" "nextToken (0x20 # w @ r) = Some (w, r)"
    by (simp_all add: nextToken_def Let_def asciiSpace_def w)
qed

lemma noMoreTokens_Nil [simp]: "noMoreTokens []"
  by (simp add: noMoreTokens_def)

lemma noMoreTokens_word: "word_bytes w \<Longrightarrow> \<not> noMoreTokens (0x20 # w @ r)"
  by (cases w) (auto simp: noMoreTokens_def word_bytes_def asciiSpace_def)

lemma need_Some [simp]: "need (Some v) e k = k v" "need None e k = Inl e"
  by (simp_all add: need_def)

lemma pass_Inr_simp [simp]: "pass (Inr v) k = k v"
  by (simp add: pass_def)

subsection \<open>Fields of a rendered line\<close>

lemma nibble_cases: "n < 16 \<Longrightarrow> n \<in> {0, 1, 2, 3, 4, 5, 6, 7, 8, 9, 10, 11, 12, 13, 14, 15}" for n :: u8
proof -
  assume "n < 16"
  then have "unat n < 16" by (simp add: word_less_nat_alt)
  then have "unat n \<in> {0, 1, 2, 3, 4, 5, 6, 7, 8, 9, 10, 11, 12, 13, 14, 15}" unfolding insert_iff empty_iff by arith
  then show ?thesis by (auto simp: word_unat_eq_iff)
qed

lemma chat_hexNibble_digit: "n < 16 \<Longrightarrow> chat_hexNibble (nibble_char n) = Some n"
  by (drule nibble_cases) (auto simp: nibble_char_def chat_hexNibble_def asciiLower_def)

lemma nibble_char_printable: "n < 16 \<Longrightarrow> 0x20 < nibble_char n \<and> nibble_char n < 0x7f"
  by (drule nibble_cases) (auto simp: nibble_char_def)

lemma nibble_small: "drop_bit 4 b < 16" "take_bit 4 b < 16" for b :: u8
proof -
  have "unat (drop_bit 4 b) = unat b div 16" by (simp add: unsigned_drop_bit_eq drop_bit_nat_def take_bit_nat_eq_self unat8_lt)
  then show "drop_bit 4 b < 16" using unat8_lt [of b] by (simp add: word_less_nat_alt)
  show "take_bit 4 b < 16" by (simp add: word_less_nat_alt unsigned_take_bit_eq take_bit_nat_def)
qed

lemma hex_pairs_text: "hex_pairs (hex_text bs) = Some bs"
proof (induction bs)
  case (Cons b bs)
  have "push_bit 4 (drop_bit 4 b) OR take_bit 4 b = b" by (rule bit_word_eqI) (auto simp: bit_simps)
  with Cons show ?case by (simp add: hex_text_def chat_hexNibble_digit nibble_small)
qed (simp add: hex_text_def)

lemma length_hex_text [simp]: "length (hex_text bs) = 2 * length bs"
  by (induction bs) (simp_all add: hex_text_def)

lemma decodeHex_text: "length bs = n \<Longrightarrow> decodeHex (hex_text bs) n = Some bs"
  by (simp add: decodeHex_def hex_pairs_text)

lemma word_bytes_hex: "bs \<noteq> [] \<Longrightarrow> word_bytes (hex_text bs)"
  by (cases bs) (auto simp: word_bytes_def hex_text_def list_all_iff nibble_char_printable nibble_small)

lemma usable_word: "usable_key key n \<Longrightarrow> 0 < n \<Longrightarrow> word_bytes (hex_text key)"
  by (intro word_bytes_hex) (auto simp: usable_key_code)

lemma index_cases: "unat i \<le> 3 \<Longrightarrow> i \<in> {0, 1, 2, 3}" for i :: u8
proof -
  assume "unat i \<le> 3"
  then have "unat i \<in> {0, 1, 2, 3}" by auto
  then show ?thesis by (auto simp: word_unat_eq_iff)
qed

lemma parseChannel_index: "unat i \<le> 3 \<Longrightarrow> parseChannel [48 + i] = Some i"
  by (drule index_cases) (auto simp: parseChannel_def chat_parseUint32_def chat_consts word_le_nat_alt word_less_nat_alt)

lemma word_bytes_index: "unat i \<le> 3 \<Longrightarrow> word_bytes [48 + i]"
  by (drule index_cases) (auto simp: word_bytes_def)

lemma uint32_digits_append:
  "uint32_digits (xs @ ys) v = (case uint32_digits xs v of None \<Rightarrow> None | Some w \<Rightarrow> uint32_digits ys w)"
  by (induction xs arbitrary: v) (simp_all add: Let_def)

lemma digit_byte: "d < 10 \<Longrightarrow> (of_char (char_of (48 + d)) :: u8) = 48 + of_nat d"
proof -
  assume "d < 10"
  then have "of_char (char_of (48 + d) :: char) = (48 + d :: nat)" by (simp add: of_char_of take_bit_nat_eq_self)
  then have "(of_nat (of_char (char_of (48 + d))) :: u8) = of_nat (48 + d)" by simp
  then show ?thesis by (simp only: of_nat_of_char) simp
qed

lemma uint32_digit:
  fixes v :: u32
  assumes "d < 10" "unat v * 10 + d < 4294967296"
  shows "uint32_digits [48 + of_nat d] v = Some (v * 10 + of_nat d)"
proof -
  have d8: "unat (of_nat d :: u8) = d" and d32: "unat (of_nat d :: u32) = d"
    using assms(1) by (simp_all add: unat_of_nat take_bit_nat_eq_self)
  have "unat (48 + of_nat d :: u8) = 48 + d" using assms(1) d8 by (simp add: unat_plus_small)
  then have range: "\<not> (48 + of_nat d :: u8) < 48" "\<not> (48 + of_nat d :: u8) > 57"
    using assms(1) by (simp_all add: word_less_nat_alt)
  have cast: "(ucast (of_nat d :: u8) :: u32) = of_nat d"
    using byte_widen [of "of_nat d"] by (simp add: word_unat_eq_iff d8 d32)
  have "unat (0xFFFFFFFF - of_nat d :: u32) = 4294967295 - d"
    using assms(1) by (subst unat_sub) (simp_all add: d32 word_le_nat_alt)
  then have "unat ((0xFFFFFFFF - of_nat d :: u32) div 10) = (4294967295 - d) div 10" by (simp add: unat_div)
  then have "\<not> v > (0xFFFFFFFF - of_nat d) div 10"
    using assms by (simp add: word_less_nat_alt not_less less_eq_div_iff_mult_less_eq)
  then show ?thesis using range cast by (simp add: Let_def)
qed

lemma uint32_digits_decimal:
  "n < 4294967296 \<Longrightarrow> uint32_digits (ascii (decimal_text n)) 0 = Some (of_nat n)"
proof (induction n rule: decimal_text.induct)
  case (1 n)
  show ?case
  proof (cases "n < 10")
    case True
    then have form: "ascii (decimal_text n) = [48 + of_nat n]"
      by (simp add: decimal_text.simps [of n] ascii_def digit_byte del: of_char_of)
    show ?thesis unfolding form using uint32_digit [of n 0] True by simp
  next
    case False
    define q d where "q = n div 10" and "d = n mod 10"
    have qd: "n = q * 10 + d" "d < 10" by (simp_all add: q_def d_def)
    have form: "ascii (decimal_text n) = ascii (decimal_text q) @ [48 + of_nat d]"
      using False qd(2) by (simp add: decimal_text.simps [of n] ascii_def digit_byte q_def d_def del: of_char_of)
    have "unat (of_nat q :: u32) = q" using 1(2) qd by (simp add: unat_of_nat take_bit_nat_eq_self)
    then have "uint32_digits [48 + of_nat d] (of_nat q) = Some (of_nat q * 10 + of_nat d)"
      using 1(2) qd by (intro uint32_digit) simp_all
    moreover have "(of_nat q * 10 + of_nat d :: u32) = of_nat n" by (simp add: qd(1))
    moreover have "uint32_digits (ascii (decimal_text q)) 0 = Some (of_nat q)"
      using 1(1) [OF False] 1(2) unfolding q_def by simp
    ultimately show ?thesis unfolding form uint32_digits_append by simp
  qed
qed

lemma decimal_printable: "list_all (\<lambda>c. 0x20 < c \<and> c < (0x7f :: u8)) (ascii (decimal_text n))"
proof (induction n rule: decimal_text.induct)
  case (1 n)
  have digit: "(0x20 :: u8) < 48 + of_nat d \<and> 48 + of_nat d < (0x7f :: u8)" if "d < 10" for d :: nat
    using that by (simp add: word_less_nat_alt unat_plus_small unat_of_nat take_bit_nat_eq_self)
  show ?case
    using 1 digit [of "n mod 10"] digit [of n]
    by (cases "n < 10") (simp_all add: decimal_text.simps [of n] ascii_def digit_byte del: of_char_of)
qed

lemma word_bytes_decimal: "word_bytes (ascii (decimal_text n))"
  using decimal_printable [of n] by (auto simp: word_bytes_def decimal_text.simps [of n] ascii_def)

lemma chat_parseUint32_decimal: "chat_parseUint32 (ascii (decimal_text (unat v))) = Some v"
  using uint32_digits_decimal [OF unat32_lt [of v]] word_bytes_decimal [of "unat v"]
  by (simp add: chat_parseUint32_def word_bytes_def)

subsection \<open>The rendered line\<close>

lemma user_scan_printable:
  "list_all (\<lambda>c. 0x20 \<le> c \<and> c < 0x7f) p \<Longrightarrow> user_scan (p @ r) = user_scan r"
  by (induction p) (auto simp: user_scan_one word_le_nat_alt word_less_nat_alt)

lemma continuation_high: "is_continuation c \<Longrightarrow> \<not> control_byte c"
  by (auto simp: is_continuation_def control_byte_def word_less_nat_alt)

lemma encode_no_control:
  assumes "user_scalar cp"
  shows "\<not> list_ex control_byte (utf8_encode cp)"
proof (cases "cp < 0x80")
  case True
  have u: "unat (byte_of cp) = cp" using True by (intro byte_of_nat) simp
  have "byte_of cp \<noteq> 0x7f" using u assms by (auto simp: user_scalar_def)
  moreover have "0x1f < unat (byte_of cp)" using u assms by (simp add: user_scalar_def)
  ultimately show ?thesis using True by (auto simp: utf8_encode_def control_byte_def word_less_nat_alt)
next
  case False
  have "unicode_scalar cp" "0x80 \<le> cp" using assms False by (simp_all add: user_scalar_def)
  then obtain c cs n l m where e: "utf8_encode cp = c # cs" "128 \<le> unat c" "list_all is_continuation cs"
    by (rule encode_multi) blast
  have "\<not> control_byte c" using e(2) by (auto simp: control_byte_def word_less_nat_alt)
  moreover have "\<not> list_ex control_byte cs" using e(3) by (auto simp: list_ex_iff list_all_iff dest: continuation_high)
  ultimately show ?thesis by (simp add: e(1))
qed

lemma user_scan_no_control: "user_scan bs \<Longrightarrow> \<not> list_ex control_byte bs"
proof -
  have "list_all user_scalar cps \<Longrightarrow> \<not> list_ex control_byte (concat (map utf8_encode cps))" for cps
    by (induction cps) (auto simp: encode_no_control)
  then show "user_scan bs \<Longrightarrow> \<not> list_ex control_byte bs" by (auto simp: user_scan_exact)
qed

lemma word_bytes_printable: "word_bytes w \<Longrightarrow> list_all (\<lambda>c. 0x20 \<le> c \<and> c < 0x7f) (0x20 # w)"
  by (auto simp: word_bytes_def list_all_iff)

lemma user_scan_words: "list_all word_bytes ws \<Longrightarrow> user_scan (words ws r) = user_scan r"
proof (induction ws)
  case (Cons w ws)
  then show ?case using user_scan_printable [OF word_bytes_printable [of w], of "words ws r"] by simp
qed simp

lemma user_scan_space [simp]: "user_scan (0x20 # r) = user_scan r"
  by (simp add: user_scan_one)

lemma length_words: "length (words ws r) = sum_list (map (\<lambda>w. 1 + length w) ws) + length r"
  by (induction ws) simp_all

lemma word_chat: "word_bytes (ascii ''chat'')"
  by (simp add: word_bytes_def ascii_def)

lemma parse_line:
  assumes "list_all word_bytes ws" "r = [] \<or> hd r = 0x20" "user_scan r" "length (words ws r) \<le> 220"
  shows "parseCommand (Some (ascii ''chat'' @ words ws r)) = parse_verb (words ws r)"
proof -
  define line where "line = ascii ''chat'' @ words ws r"
  have "user_scan line"
    using user_scan_printable [of "ascii ''chat''" "words ws r"] user_scan_words [OF assms(1), of r] assms(3)
    by (simp add: line_def ascii_def)
  moreover have "nextToken line = Some (ascii ''chat'', words ws r)"
    unfolding line_def using assms(2) by (intro nextToken_word(1) word_chat line_rest_words) (simp add: line_rest_def)
  moreover have "tokenEquals (ascii ''chat'') ''chat''" by (simp add: tokenEquals_def ascii_def asciiLower_def)
  moreover have "length line \<le> 224" "line \<noteq> []" using assms(4) by (simp_all add: line_def ascii_def)
  ultimately show ?thesis
    unfolding line_def [symmetric]
    by (simp add: parseCommand_def chat_consts user_scan_no_control validUserUtf8_def)
qed

lemma literal_words [simp]:
  "word_bytes (ascii ''status'')" "word_bytes (ascii ''reset'')" "word_bytes (ascii ''contacts'')"
  "word_bytes (ascii ''channels'')" "word_bytes (ascii ''inbox'')" "word_bytes (ascii ''contact'')"
  "word_bytes (ascii ''channel'')" "word_bytes (ascii ''send'')" "word_bytes (ascii ''set'')" "word_bytes (ascii ''drop'')"
  "word_bytes (ascii ''clear'')" "word_bytes (ascii ''dm'')" "word_bytes (ascii ''ch'')"
  "word_bytes (ascii ''region_scope=EU'')" "word_bytes (ascii (role_word role))"
  by (cases role; simp add: word_bytes_def ascii_def)+

lemma unat_of_char: "unat (of_char c :: u8) = of_char c"
proof -
  have "(of_char c :: u8) = of_nat (of_char c)" by (simp only: of_nat_of_char)
  moreover have "of_char c < (256 :: nat)" using of_char_mod_256 [of c, where 'a = nat] mod_less_divisor [of 256 "of_char c :: nat"] by simp
  ultimately show ?thesis by (simp only: unat_of_nat) (simp add: take_bit_nat_eq_self)
qed

lemma ascii_inj: "ascii s = ascii t \<longleftrightarrow> s = t"
proof -
  have "inj (of_char :: char \<Rightarrow> u8)"
    by (rule injI) (metis unat_of_char char_of_char)
  then show ?thesis by (simp add: ascii_def inj_map_eq_map)
qed

lemma tokenEquals_lower:
  "list_all (\<lambda>c. asciiLower (of_char c) = of_char c) s \<Longrightarrow> tokenEquals (ascii s) t \<longleftrightarrow> s = t"
proof -
  assume "list_all (\<lambda>c. asciiLower (of_char c) = of_char c) s"
  then have "map asciiLower (ascii s) = ascii s" by (auto simp: ascii_def list_all_iff)
  then show ?thesis by (auto simp: tokenEquals_def ascii_inj)
qed

lemma tokenEquals_literal [simp]:
  "tokenEquals (ascii ''status'') t \<longleftrightarrow> ''status'' = t" "tokenEquals (ascii ''reset'') t \<longleftrightarrow> ''reset'' = t"
  "tokenEquals (ascii ''contacts'') t \<longleftrightarrow> ''contacts'' = t" "tokenEquals (ascii ''channels'') t \<longleftrightarrow> ''channels'' = t"
  "tokenEquals (ascii ''inbox'') t \<longleftrightarrow> ''inbox'' = t" "tokenEquals (ascii ''contact'') t \<longleftrightarrow> ''contact'' = t"
  "tokenEquals (ascii ''channel'') t \<longleftrightarrow> ''channel'' = t" "tokenEquals (ascii ''send'') t \<longleftrightarrow> ''send'' = t"
  "tokenEquals (ascii ''set'') t \<longleftrightarrow> ''set'' = t" "tokenEquals (ascii ''drop'') t \<longleftrightarrow> ''drop'' = t"
  "tokenEquals (ascii ''clear'') t \<longleftrightarrow> ''clear'' = t" "tokenEquals (ascii ''dm'') t \<longleftrightarrow> ''dm'' = t"
  "tokenEquals (ascii ''ch'') t \<longleftrightarrow> ''ch'' = t"
  by (rule tokenEquals_lower; simp add: asciiLower_def)+

lemma parseContactRole_word: "parseContactRole (ascii (role_word role)) = Inr role"
proof -
  have "tokenEquals (ascii (role_word role)) t \<longleftrightarrow> role_word role = t" for t
    by (rule tokenEquals_lower) (cases role; simp add: asciiLower_def)
  then show ?thesis by (cases role) (simp_all add: parseContactRole_def)
qed

lemma copyUserText_text: "user_text s n \<Longrightarrow> copyUserText s (n + 1) b = Inr s"
  by (simp add: copyUserText_def user_text_code validUserUtf8_def)

lemma remainingTail_text [simp]: "s \<noteq> [] \<Longrightarrow> remainingTail (0x20 # s) = Some s"
  by (simp add: remainingTail_def asciiSpace_def)

lemma user_text_parts: "user_text s n \<Longrightarrow> s \<noteq> [] \<and> length s \<le> n \<and> user_scan s"
  by (simp add: user_text_code)

lemma line_rest_simps [simp]: "line_rest []" "line_rest (0x20 # s)"
  by (simp_all add: line_rest_def)

lemma scope_hex: "\<not> tokenStartsWithExact (hex_text bs) ''region_scope=''"
proof (cases bs)
  case (Cons b bs')
  have "nibble_char (drop_bit 4 b) \<noteq> 114"
    using nibble_cases [OF nibble_small(1) [of b]] by (auto simp: nibble_char_def)
  then show ?thesis by (auto simp: Cons tokenStartsWithExact_def hex_text_def ascii_def)
qed (simp add: tokenStartsWithExact_def hex_text_def ascii_def)

lemma scope_token: "tokenStartsWithExact (ascii ''region_scope=EU'') ''region_scope=''"
  "tokenEqualsExact (ascii ''region_scope=EU'') ''region_scope=EU''"
  by (simp_all add: tokenStartsWithExact_def tokenEqualsExact_def ascii_def)

lemmas chat_steps = nextToken_word(2) noMoreTokens_word decodeHex_text word_bytes_hex word_bytes_index word_bytes_decimal
  parseChannel_index chat_parseUint32_decimal parseContactRole_word copyUserText_text scope_hex

subsection \<open>Round trip\<close>

lemma parse_list_line:
  "parse_verb (words [ascii ''status''] []) = Inr (chat_command0\<lparr>cm_kind := KindStatus\<rparr>)"
  "parse_verb (words [ascii ''reset''] []) = Inr (chat_command0\<lparr>cm_kind := KindReset\<rparr>)"
  "parse_verb (words [ascii ''contacts''] []) = Inr (chat_command0\<lparr>cm_kind := ListContacts\<rparr>)"
  "parse_verb (words [ascii ''channels''] []) = Inr (chat_command0\<lparr>cm_kind := ListChannels\<rparr>)"
  using nextToken_word(2) [of _ "[]"] by (simp_all add: parse_verb_def parseListCommand_def)

lemma parse_inbox_line:
  "parse_verb (words [ascii ''inbox'', ascii (decimal_text (unat n))] [])
     = Inr (chat_command0\<lparr>cm_afterMessageId := n, cm_kind := ListInbox\<rparr>)"
  using nextToken_word(2) [of _ "[]"] noMoreTokens_word [of _ "[]"]
  by (simp add: parse_verb_def parse_inbox_def chat_steps)

lemma parse_contact_line:
  assumes "usable_key key 32"
  shows "parse_verb (words [ascii ''contact'', ascii ''drop'', hex_text key] [])
      = Inr (chat_command0\<lparr>cm_publicKey := key, cm_kind := DropContact\<rparr>)"
    and "user_text name 31 \<Longrightarrow> parse_verb (words [ascii ''contact'', ascii ''set'', hex_text key, ascii (role_word role)] (0x20 # name))
      = Inr (chat_command0\<lparr>cm_publicKey := key, cm_contactRole := role, cm_name := name, cm_kind := SetContact\<rparr>)"
proof -
  have key: "length key = 32" "\<not> chat_allZero key" "word_bytes (hex_text key)"
    using assms usable_word [of key 32] by (auto simp: usable_key_code)
  then show "parse_verb (words [ascii ''contact'', ascii ''drop'', hex_text key] [])
      = Inr (chat_command0\<lparr>cm_publicKey := key, cm_kind := DropContact\<rparr>)"
    using nextToken_word(2) [of "hex_text key" "[]"]
    by (simp add: parse_verb_def parse_contact_def chat_steps chat_consts)
  assume "user_text name 31"
  with key show "parse_verb (words [ascii ''contact'', ascii ''set'', hex_text key, ascii (role_word role)] (0x20 # name))
      = Inr (chat_command0\<lparr>cm_publicKey := key, cm_contactRole := role, cm_name := name, cm_kind := SetContact\<rparr>)"
    using copyUserText_text [of name 31] user_text_parts [of name 31]
    by (simp add: parse_verb_def parse_contact_def chat_steps chat_consts)
qed

lemma parse_channel_line:
  assumes "unat i \<le> 3" "i \<noteq> 0"
  shows "parse_verb (words [ascii ''channel'', ascii ''clear'', [48 + i]] [])
      = Inr (chat_command0\<lparr>cm_channelIndex := i, cm_kind := ClearChannel\<rparr>)"
    and "usable_key key 16 \<Longrightarrow> user_text name 31 \<Longrightarrow>
      parse_verb (words ([ascii ''channel'', ascii ''set'', [48 + i]] @ scope_words scope @ [hex_text key]) (0x20 # name))
      = Inr (chat_command0\<lparr>cm_channelIndex := i, cm_channelRegionScope := scope, cm_channelSecret := key, cm_name := name,
          cm_kind := SetChannel\<rparr>)"
proof -
  have i: "word_bytes [48 + i]" "parseChannel [48 + i] = Some i"
    using assms by (simp_all add: word_bytes_index parseChannel_index)
  note tok = nextToken_word(2) [OF i(1)]
  show "parse_verb (words [ascii ''channel'', ascii ''clear'', [48 + i]] [])
      = Inr (chat_command0\<lparr>cm_channelIndex := i, cm_kind := ClearChannel\<rparr>)"
    using assms i tok [of "[]"] by (simp add: parse_verb_def parse_channel_def chat_steps)
  assume key: "usable_key key 16" and name: "user_text name 31"
  have "word_bytes (hex_text key)" "length key = 16" "\<not> chat_allZero key"
    using key usable_word [of key 16] by (auto simp: usable_key_code)
  then show "parse_verb (words ([ascii ''channel'', ascii ''set'', [48 + i]] @ scope_words scope @ [hex_text key]) (0x20 # name))
      = Inr (chat_command0\<lparr>cm_channelIndex := i, cm_channelRegionScope := scope, cm_channelSecret := key, cm_name := name,
          cm_kind := SetChannel\<rparr>)"
    using assms i tok copyUserText_text [OF name] user_text_parts [OF name]
    by (cases scope) (simp_all add: parse_verb_def parse_channel_def chat_steps chat_consts(1-7) scope_words_def scope_token)
qed

lemma parse_send_line:
  assumes "user_text s 128"
  shows "length key = 6 \<Longrightarrow> parse_verb (words [ascii ''send'', ascii ''dm'', hex_text key] (0x20 # s))
      = Inr (chat_command0\<lparr>cm_contactReference := key, cm_text := s, cm_kind := SendDirect\<rparr>)"
    and "unat i \<le> 3 \<Longrightarrow> parse_verb (words [ascii ''send'', ascii ''ch'', [48 + i]] (0x20 # s))
      = Inr (chat_command0\<lparr>cm_channelIndex := i, cm_text := s, cm_kind := SendChannel\<rparr>)"
proof -
  note s = copyUserText_text [OF assms] user_text_parts [OF assms]
  show "parse_verb (words [ascii ''send'', ascii ''dm'', hex_text key] (0x20 # s))
      = Inr (chat_command0\<lparr>cm_contactReference := key, cm_text := s, cm_kind := SendDirect\<rparr>)" if key: "length key = 6"
  proof -
    have "word_bytes (hex_text key)" using key by (intro word_bytes_hex) auto
    then show ?thesis using s key by (simp add: parse_verb_def parse_send_def chat_steps chat_consts(1-7))
  qed
  show "parse_verb (words [ascii ''send'', ascii ''ch'', [48 + i]] (0x20 # s))
      = Inr (chat_command0\<lparr>cm_channelIndex := i, cm_text := s, cm_kind := SendChannel\<rparr>)" if "unat i \<le> 3"
    using s nextToken_word(2) [OF word_bytes_index [OF that], of "0x20 # s"] parseChannel_index [OF that]
    by (simp add: parse_verb_def parse_send_def chat_steps chat_consts(1-7))
qed

lemma decimal_text_length32: "length (decimal_text (unat (n :: u32))) \<le> 10"
  using unat32_lt [of n] by (intro decimal_text_length) simp_all

lemma valid_command_cases:
  assumes "valid_command c"
  obtains (plain) k where "k \<in> {KindStatus, KindReset, ListContacts, ListChannels}" "c = chat_command0\<lparr>cm_kind := k\<rparr>"
  | (inbox) n where "c = chat_command0\<lparr>cm_afterMessageId := n, cm_kind := ListInbox\<rparr>"
  | (set_contact) key role name where "usable_key key 32" "user_text name 31"
      "c = chat_command0\<lparr>cm_publicKey := key, cm_contactRole := role, cm_name := name, cm_kind := SetContact\<rparr>"
  | (drop_contact) key where "usable_key key 32" "c = chat_command0\<lparr>cm_publicKey := key, cm_kind := DropContact\<rparr>"
  | (set_channel) i scope key name where "unat i \<le> 3" "i \<noteq> 0" "usable_key key 16" "user_text name 31"
      "c = chat_command0\<lparr>cm_channelIndex := i, cm_channelRegionScope := scope, cm_channelSecret := key, cm_name := name,
         cm_kind := SetChannel\<rparr>"
  | (clear_channel) i where "unat i \<le> 3" "i \<noteq> 0" "c = chat_command0\<lparr>cm_channelIndex := i, cm_kind := ClearChannel\<rparr>"
  | (direct) key s where "length key = 6" "user_text s 128"
      "c = chat_command0\<lparr>cm_contactReference := key, cm_text := s, cm_kind := SendDirect\<rparr>"
  | (channel) i s where "unat i \<le> 3" "user_text s 128"
      "c = chat_command0\<lparr>cm_channelIndex := i, cm_text := s, cm_kind := SendChannel\<rparr>"
proof -
  have nz: "i \<noteq> 0" if "1 \<le> unat i" for i :: u8 using that by auto
  show ?thesis
  proof (cases "cm_kind c")
    case KindNone then show ?thesis using assms by (simp add: valid_command_def)
  next
    case KindStatus then show ?thesis using assms plain [of KindStatus] by (simp add: valid_command_def)
  next
    case KindReset then show ?thesis using assms plain [of KindReset] by (simp add: valid_command_def)
  next
    case ListContacts then show ?thesis using assms plain [of ListContacts] by (simp add: valid_command_def)
  next
    case ListChannels then show ?thesis using assms plain [of ListChannels] by (simp add: valid_command_def)
  next
    case ListInbox then show ?thesis using assms inbox by (simp add: valid_command_def)
  next
    case SetContact then show ?thesis using assms set_contact by (simp add: valid_command_def) blast
  next
    case DropContact then show ?thesis using assms drop_contact by (simp add: valid_command_def) blast
  next
    case SetChannel then show ?thesis using assms set_channel nz by (simp add: valid_command_def) blast
  next
    case ClearChannel then show ?thesis using assms clear_channel nz by (simp add: valid_command_def) blast
  next
    case SendDirect then show ?thesis using assms direct by (simp add: valid_command_def) blast
  next
    case SendChannel then show ?thesis using assms channel by (simp add: valid_command_def) blast
  qed
qed

definition line_ok :: "Command \<Rightarrow> bool" where
  "line_ok c \<longleftrightarrow> (case command_words c of (ws, r) \<Rightarrow> list_all word_bytes ws \<and> user_scan r
     \<and> (r = [] \<or> hd r = 0x20) \<and> length (words ws r) \<le> 220 \<and> parse_verb (words ws r) = Inr c)"

lemma length_role_word: "length (role_word role) \<le> 8"
  by (cases role) simp_all

lemma scope_words_ok: "list_all word_bytes (scope_words s)" "sum_list (map (\<lambda>w. 1 + length w) (scope_words s)) \<le> 16"
  by (simp_all add: scope_words_def split: ChannelRegionScope.split)

lemma render_line:
  assumes "valid_command c"
  shows "line_ok c"
  using assms
proof (cases rule: valid_command_cases)
  case (plain k)
  then show ?thesis using parse_list_line by (auto simp: line_ok_def length_words)
next
  case (inbox n)
  then show ?thesis using parse_inbox_line [of n] decimal_text_length32 [of n]
    by (simp add: line_ok_def length_words word_bytes_decimal del: words_Cons)
next
  case (set_contact key role name)
  then show ?thesis using parse_contact_line(2) [of key name role] usable_word [of key 32] user_text_parts [of name 31] length_role_word [of role]
    by (simp add: line_ok_def length_words usable_key_code del: words_Cons)
next
  case (drop_contact key)
  then show ?thesis using parse_contact_line(1) [of key] usable_word [of key 32]
    by (simp add: line_ok_def length_words usable_key_code del: words_Cons)
next
  case (set_channel i scope key name)
  then show ?thesis using parse_channel_line(2) [of i key name scope] usable_word [of key 16] user_text_parts [of name 31]
      scope_words_ok [of scope] word_bytes_index [of i]
    by (simp add: line_ok_def length_words usable_key_code del: words_Cons)
next
  case (clear_channel i)
  then show ?thesis using parse_channel_line(1) [of i] word_bytes_index [of i]
    by (simp add: line_ok_def length_words del: words_Cons)
next
  case (direct key s)
  have "word_bytes (hex_text key)" using direct by (intro word_bytes_hex) auto
  then show ?thesis using direct parse_send_line(1) [of s key] user_text_parts [of s 128]
    by (simp add: line_ok_def length_words del: words_Cons)
next
  case (channel i s)
  then show ?thesis using parse_send_line(2) [of s i] user_text_parts [of s 128] word_bytes_index [of i]
    by (simp add: line_ok_def length_words del: words_Cons)
qed

text \<open>
  C13. Every well-formed chat command can be given on a line: the parser maps its rendered line, the
  command words and fields separated by single spaces and the user text verbatim at the end, back
  to exactly that command.
\<close>

theorem chat_render_parses:
  assumes "valid_command c"
  shows "parseCommand (Some (render c)) = Inr c"
  unfolding render_def using render_line [OF assms]
  by (subst parse_line) (simp_all add: line_ok_def split_beta del: command_words.simps)

theorem chat_render_parses_witness:
  "parseCommand (Some (render (chat_command0\<lparr>cm_channelIndex := 2, cm_text := ascii ''hi  there'', cm_kind := SendChannel\<rparr>)))
     = Inr (chat_command0\<lparr>cm_channelIndex := 2, cm_text := ascii ''hi  there'', cm_kind := SendChannel\<rparr>)"
  by (rule chat_render_parses)
    (simp add: valid_command_def user_text_code ascii_def user_scan_one)

text \<open>
  C14. Every line the chat parser accepts, whatever its spacing and letter case, yields a well-formed
  command: keys of the right size and not all zero, a channel number in range (never the public
  channel for a change), names of 1 to 31 and texts of 1 to 128 bytes of UTF-8 without control
  characters, and every other field at its default; the name or text is the end of the line, byte
  for byte.
\<close>

theorem chat_accepts_valid:
  assumes "parseCommand (Some line) = Inr c"
  shows "valid_command c \<and> suffix (cm_name c) line \<and> suffix (cm_text c) line \<and> length line \<le> 224"
  using accepted_command [OF assms] by (simp add: parsed_from_def)

theorem chat_accepts_valid_witness:
  "valid_command (chat_command0\<lparr>cm_afterMessageId := 7, cm_kind := ListInbox\<rparr>)
     \<and> length (ascii ''  Chat   INBOX 007 '') \<le> 224"
proof -
  have "parseCommand (Some (ascii ''  Chat   INBOX 007 '')) = Inr (chat_command0\<lparr>cm_afterMessageId := 7, cm_kind := ListInbox\<rparr>)"
    by (simp add: parseCommand_def parse_verb_def parse_inbox_def chat_consts ascii_def control_byte_def validUserUtf8_def
        user_scan_one nextToken_def noMoreTokens_def asciiSpace_def tokenEquals_def asciiLower_def chat_parseUint32_def)
  from chat_accepts_valid [OF this] show ?thesis by blast
qed

end
