(* ===== verification/Message_Read.thy ===== *)
theory Message_Read
  imports Companion_Codec
begin

text \<open>
  Read acknowledgements, \<^verbatim>\<open>src/src/kitsu_message_read_contract.{h,cpp}\<close>: the parser of the request, the
  planner that checks a whole batch before anything changes, and the journal generation arithmetic.
  The cursor is the rest of the input; a refused request is its status.
\<close>

subsection \<open>Data\<close>

definition kMaximumMessageIds :: nat where "kMaximumMessageIds = 24"

datatype ReadParseStatus = ReadInvalidArgument | DuplicateMessageId

record ReadCommand =
  rc_journalSession :: u32
  rc_messageIds :: "u32 list"

record ReadRecord =
  rr_messageId :: u32
  rr_inbound :: bool
  rr_unread :: bool

datatype PlanStatus = JournalSessionMismatch | SnapshotChanged | MessageNotInbound

record ReadPlan =
  rp_recordIndexes :: "nat list"
  rp_markedCount :: nat
  rp_unchangedCount :: nat

subsection \<open>The request\<close>

definition read_space :: "u8 \<Rightarrow> bool" where
  "read_space c \<longleftrightarrow> c = 0x20 \<or> c = 9 \<or> c = 13 \<or> c = 10"

definition read_skip :: "bytes \<Rightarrow> bytes" where
  "read_skip cursor = dropWhile read_space cursor"

definition read_consume :: "u8 \<Rightarrow> bytes \<Rightarrow> bytes option" where
  "read_consume expected cursor = (case read_skip cursor of [] \<Rightarrow> None
     | c # rest \<Rightarrow> if c \<noteq> expected then None else Some rest)"

text \<open>The loop of \<^verbatim>\<open>parseAsciiString\<close> after the opening quote.\<close>

fun read_string :: "bytes \<Rightarrow> (bytes \<times> bytes) option" where
  "read_string [] = None"
| "read_string (c # rest) =
     (if c = 0x22 then Some ([], rest)
      else if c < 0x20 \<or> c > 0x7e \<or> c = 0x5c then None
      else map_option (\<lambda>(s, r). (c # s, r)) (read_string rest))"

definition parseAsciiString :: "bytes \<Rightarrow> (bytes \<times> bytes) option" where
  "parseAsciiString cursor = (case read_skip cursor of [] \<Rightarrow> None
     | c # rest \<Rightarrow> if c \<noteq> 0x22 then None else read_string rest)"

text \<open>The \<^verbatim>\<open>uint64_t\<close> accumulator is bounded by ten digits, so it is a natural number here.\<close>

fun read_digits :: "bytes \<Rightarrow> nat \<Rightarrow> nat option" where
  "read_digits [] v = Some v"
| "read_digits (c # cs) v =
     (if c < 48 \<or> c > 57 then None
      else let v' = v * 10 + unat (c - 48) in if v' > 4294967295 then None else read_digits cs v')"

definition parseCanonicalNonzeroUint32 :: "bytes \<Rightarrow> u32 option" where
  "parseCanonicalNonzeroUint32 input =
     (if input = [] \<or> length input > 10 \<or> hd input = 48 then None
      else case read_digits input 0 of None \<Rightarrow> None
        | Some v \<Rightarrow> let output = of_nat v in if output \<noteq> 0 then Some output else None)"

definition parseQuotedUint32 :: "bytes \<Rightarrow> (u32 \<times> bytes) option" where
  "parseQuotedUint32 cursor = (case parseAsciiString cursor of None \<Rightarrow> None
     | Some (token, cursor) \<Rightarrow> (case parseCanonicalNonzeroUint32 token of None \<Rightarrow> None | Some v \<Rightarrow> Some (v, cursor)))"

text \<open>One turn of the loop per identifier; at most 24 turns succeed, so fuel 25 is enough.\<close>

fun read_ids :: "nat \<Rightarrow> u32 list \<Rightarrow> bytes \<Rightarrow> ReadParseStatus + (u32 list \<times> bytes)" where
  "read_ids 0 ids cursor = Inl ReadInvalidArgument"
| "read_ids (Suc fuel) ids cursor =
     (if length ids \<ge> kMaximumMessageIds then Inl ReadInvalidArgument
      else case parseQuotedUint32 cursor of None \<Rightarrow> Inl ReadInvalidArgument
        | Some (messageId, cursor) \<Rightarrow>
            if messageId \<in> set ids then Inl DuplicateMessageId
            else let ids = ids @ [messageId]
                 in case read_skip cursor of [] \<Rightarrow> Inl ReadInvalidArgument
                   | c # rest \<Rightarrow> if c = 0x5d then Inr (ids, rest)
                       else if c \<noteq> 0x2c then Inl ReadInvalidArgument
                       else read_ids fuel ids rest)"

definition parseMessageIds :: "bytes \<Rightarrow> ReadParseStatus + (u32 list \<times> bytes)" where
  "parseMessageIds cursor = (case read_consume 0x5b cursor of None \<Rightarrow> Inl ReadInvalidArgument
     | Some cursor \<Rightarrow> (case read_skip cursor of c # rest \<Rightarrow>
           if c = 0x5d then Inl ReadInvalidArgument else read_ids 25 [] cursor
         | [] \<Rightarrow> read_ids 25 [] cursor))"

text \<open>One of the two fields: what was seen so far, then the key, the colon and the value.\<close>

definition read_field ::
    "u32 option \<times> u32 list option \<Rightarrow> bytes \<Rightarrow> ReadParseStatus + ((u32 option \<times> u32 list option) \<times> bytes)" where
  "read_field seen cursor =
     (case parseAsciiString cursor of None \<Rightarrow> Inl ReadInvalidArgument
      | Some (key, cursor) \<Rightarrow> (case read_consume 0x3a cursor of None \<Rightarrow> Inl ReadInvalidArgument
        | Some cursor \<Rightarrow>
            if key = ascii ''journal_session'' then
              (if fst seen \<noteq> None then Inl ReadInvalidArgument
               else case parseQuotedUint32 cursor of None \<Rightarrow> Inl ReadInvalidArgument
                 | Some (v, cursor) \<Rightarrow> Inr ((Some v, snd seen), cursor))
            else if key = ascii ''message_ids'' then
              (if snd seen \<noteq> None then Inl ReadInvalidArgument
               else case parseMessageIds cursor of Inl e \<Rightarrow> Inl e
                 | Inr (ids, cursor) \<Rightarrow> Inr ((fst seen, Some ids), cursor))
            else Inl ReadInvalidArgument))"

definition read_parseCommand :: "bytes option \<Rightarrow> ReadParseStatus + ReadCommand" where
  "read_parseCommand input = (case input of None \<Rightarrow> Inl ReadInvalidArgument | Some cursor \<Rightarrow>
     if cursor = [] then Inl ReadInvalidArgument
     else case read_consume 0x7b cursor of None \<Rightarrow> Inl ReadInvalidArgument | Some cursor \<Rightarrow>
       (case read_field (None, None) cursor of Inl e \<Rightarrow> Inl e | Inr (seen, cursor) \<Rightarrow>
         (case read_skip cursor of [] \<Rightarrow> Inl ReadInvalidArgument | c # cursor \<Rightarrow>
            if c \<noteq> 0x2c then Inl ReadInvalidArgument
            else case read_field seen cursor of Inl e \<Rightarrow> Inl e | Inr ((session, ids), cursor) \<Rightarrow>
              (case (session, ids, read_consume 0x7d cursor) of
                 (Some session, Some ids, Some cursor) \<Rightarrow>
                   if read_skip cursor = [] then Inr \<lparr>rc_journalSession = session, rc_messageIds = ids\<rparr>
                   else Inl ReadInvalidArgument
               | _ \<Rightarrow> Inl ReadInvalidArgument))))"

subsection \<open>The plan\<close>

fun find_record :: "nat \<Rightarrow> ReadRecord list \<Rightarrow> u32 \<Rightarrow> nat option" where
  "find_record i [] messageId = None"
| "find_record i (r # rs) messageId = (if rr_messageId r = messageId then Some i else find_record (i + 1) rs messageId)"

fun plan_ids :: "ReadRecord list \<Rightarrow> u32 list \<Rightarrow> ReadPlan \<Rightarrow> PlanStatus + ReadPlan" where
  "plan_ids records [] output = Inr output"
| "plan_ids records (messageId # ids) output =
     (case find_record 0 records messageId of None \<Rightarrow> Inl SnapshotChanged
      | Some match \<Rightarrow>
          if \<not> rr_inbound (records ! match) then Inl MessageNotInbound
          else plan_ids records ids
                 (output\<lparr>rp_recordIndexes := rp_recordIndexes output @ [match],
                    rp_markedCount := rp_markedCount output + (if rr_unread (records ! match) then 1 else 0),
                    rp_unchangedCount := rp_unchangedCount output + (if rr_unread (records ! match) then 0 else 1)\<rparr>))"

definition read_plan :: "u32 \<Rightarrow> ReadCommand \<Rightarrow> ReadRecord list option \<Rightarrow> PlanStatus + ReadPlan" where
  "read_plan currentJournalSession command records =
     (if currentJournalSession = 0 \<or> rc_journalSession command \<noteq> currentJournalSession then Inl JournalSessionMismatch
      else case records of None \<Rightarrow> Inl SnapshotChanged
        | Some records \<Rightarrow>
            if length records > kMaximumMessageIds \<or> rc_messageIds command = []
               \<or> length (rc_messageIds command) > kMaximumMessageIds
            then Inl SnapshotChanged
            else plan_ids records (rc_messageIds command)
                   \<lparr>rp_recordIndexes = [], rp_markedCount = 0, rp_unchangedCount = 0\<rparr>)"

definition planStatusError :: "PlanStatus \<Rightarrow> string" where
  "planStatusError status = (case status of JournalSessionMismatch \<Rightarrow> ''journal_session_mismatch''
     | SnapshotChanged \<Rightarrow> ''snapshot_changed'' | MessageNotInbound \<Rightarrow> ''message_not_inbound'')"

definition advanceJournalSession :: "u32 \<Rightarrow> u32" where
  "advanceJournalSession current = (let current = current + 1 in if current = 0 then 1 else current)"

definition revisionBatchRequiresGenerationAdvance :: "u32 \<Rightarrow> u8 \<Rightarrow> bool" where
  "revisionBatchRequiresGenerationAdvance currentRevision allocations \<longleftrightarrow>
     allocations \<noteq> 0 \<and> currentRevision > 0xFFFFFFFF - ucast allocations"

subsection \<open>What a parsed request holds\<close>

lemma parseQuotedUint32_nonzero: "parseQuotedUint32 c = Some (v, r) \<Longrightarrow> v \<noteq> 0"
  by (auto simp: parseQuotedUint32_def parseCanonicalNonzeroUint32_def Let_def split: option.splits if_splits)

lemma read_ids_ok:
  assumes "read_ids fuel ids cursor = Inr (out, rest)" "distinct ids" "0 \<notin> set ids"
  shows "distinct out \<and> 0 \<notin> set out \<and> out \<noteq> [] \<and> length out \<le> 24"
  using assms
proof (induction fuel arbitrary: ids cursor)
  case (Suc fuel)
  from Suc.prems(1) obtain v r where v: "length ids < 24" "parseQuotedUint32 cursor = Some (v, r)" "v \<notin> set ids"
    by (auto simp: kMaximumMessageIds_def Let_def not_le split: option.splits if_splits)
  then have grown: "distinct (ids @ [v])" "0 \<notin> set (ids @ [v])"
    using Suc.prems(2,3) parseQuotedUint32_nonzero by auto
  from Suc.prems(1) v consider "out = ids @ [v]" | r' where "read_ids fuel (ids @ [v]) r' = Inr (out, rest)"
    by (auto simp: kMaximumMessageIds_def Let_def split: list.splits if_splits)
  then show ?case
  proof cases
    case 1
    with grown v(1) show ?thesis by simp
  next
    case (2 r')
    then show ?thesis using Suc.IH grown by blast
  qed
qed simp

lemma parseMessageIds_ok:
  "parseMessageIds cursor = Inr (ids, rest) \<Longrightarrow> distinct ids \<and> 0 \<notin> set ids \<and> ids \<noteq> [] \<and> length ids \<le> 24"
  by (auto simp: parseMessageIds_def dest: read_ids_ok split: option.splits list.splits if_splits)

definition valid_request :: "ReadCommand \<Rightarrow> bool" where
  "valid_request c \<longleftrightarrow> rc_journalSession c \<noteq> 0 \<and> distinct (rc_messageIds c) \<and> 0 \<notin> set (rc_messageIds c)
     \<and> rc_messageIds c \<noteq> [] \<and> length (rc_messageIds c) \<le> 24"

definition seen_ok :: "u32 option \<times> u32 list option \<Rightarrow> bool" where
  "seen_ok seen \<longleftrightarrow> fst seen \<noteq> Some 0 \<and> (\<forall>ids. snd seen = Some ids \<longrightarrow> distinct ids \<and> 0 \<notin> set ids \<and> ids \<noteq> [] \<and> length ids \<le> 24)"

lemma read_field_ok: "read_field seen cursor = Inr (seen', rest) \<Longrightarrow> seen_ok seen \<Longrightarrow> seen_ok seen'"
  by (auto simp: read_field_def seen_ok_def dest: parseQuotedUint32_nonzero parseMessageIds_ok
      split: option.splits if_splits sum.splits prod.splits)

lemma read_parse_valid:
  assumes "read_parseCommand (Some bs) = Inr c"
  shows "valid_request c"
proof -
  have start: "seen_ok (None, None)" by (simp add: seen_ok_def)
  from assms obtain c1 c2 c3 c4 seen session ids where f: "read_field (None, None) c1 = Inr (seen, c2)"
    "read_field seen c3 = Inr ((Some session, Some ids), c4)" and c: "c = \<lparr>rc_journalSession = session, rc_messageIds = ids\<rparr>"
    by (auto simp: read_parseCommand_def split: if_splits option.splits sum.splits prod.splits list.splits)
  from read_field_ok [OF f(2) read_field_ok [OF f(1) start]] show ?thesis
    by (auto simp: seen_ok_def valid_request_def c)
qed

subsection \<open>What a plan covers\<close>

lemma find_record_sound:
  "find_record i rs x = Some k \<Longrightarrow> i \<le> k \<and> k < i + length rs \<and> rr_messageId (rs ! (k - i)) = x"
proof (induction rs arbitrary: i)
  case (Cons r rs)
  show ?case
  proof (cases "rr_messageId r = x")
    case False
    then have "i + 1 \<le> k \<and> k < i + 1 + length rs \<and> rr_messageId (rs ! (k - (i + 1))) = x"
      using Cons.IH [of "i + 1"] Cons.prems by simp
    moreover from this have "k - i = Suc (k - (i + 1))" by arith
    ultimately show ?thesis by simp
  qed (use Cons.prems in simp)
qed simp

lemma find_record_complete: "find_record i rs x = None \<Longrightarrow> x \<notin> set (map rr_messageId rs)"
  by (induction i rs x rule: find_record.induct) (auto split: if_splits)

text \<open>A plan lists, for each requested identifier in order, an inbound record that carries it.\<close>

lemma plan_ids_sound:
  assumes "plan_ids records ids o0 = Inr p"
  shows "\<exists>ks. rp_recordIndexes p = rp_recordIndexes o0 @ ks
      \<and> list_all2 (\<lambda>x k. k < length records \<and> rr_messageId (records ! k) = x \<and> rr_inbound (records ! k)) ids ks
      \<and> rp_markedCount p = rp_markedCount o0 + length (filter (\<lambda>k. rr_unread (records ! k)) ks)
      \<and> rp_unchangedCount p = rp_unchangedCount o0 + length (filter (\<lambda>k. \<not> rr_unread (records ! k)) ks)"
  using assms
proof (induction ids arbitrary: o0)
  case (Cons x ids)
  obtain k where k: "find_record 0 records x = Some k" "rr_inbound (records ! k)"
    using Cons.prems by (auto split: option.splits if_splits)
  define o1 where "o1 = o0\<lparr>rp_recordIndexes := rp_recordIndexes o0 @ [k],
     rp_markedCount := rp_markedCount o0 + (if rr_unread (records ! k) then 1 else 0),
     rp_unchangedCount := rp_unchangedCount o0 + (if rr_unread (records ! k) then 0 else 1)\<rparr>"
  have "plan_ids records ids o1 = Inr p" using Cons.prems k by (simp add: o1_def)
  from Cons.IH [OF this] obtain ks where ks: "rp_recordIndexes p = rp_recordIndexes o1 @ ks"
      "list_all2 (\<lambda>x k. k < length records \<and> rr_messageId (records ! k) = x \<and> rr_inbound (records ! k)) ids ks"
      "rp_markedCount p = rp_markedCount o1 + length (filter (\<lambda>k. rr_unread (records ! k)) ks)"
      "rp_unchangedCount p = rp_unchangedCount o1 + length (filter (\<lambda>k. \<not> rr_unread (records ! k)) ks)" by blast
  have "k < length records \<and> rr_messageId (records ! k) = x" using find_record_sound [OF k(1)] by simp
  then show ?case using ks k(2) by (intro exI [of _ "k # ks"]) (simp add: o1_def)
qed simp

end
