(* ===== verification/Chat_Journal.thy ===== *)
theory Chat_Journal
  imports Message_Read
begin

text \<open>
  The message journal of the firmware, \<^verbatim>\<open>src/src/main.cpp\<close>: a ring of 24 rows with message
  identifiers, per-row revisions and a journal session that changes whenever either counter wraps.
  One definition per function that changes it; the rows are addressed by their index in the array,
  as the references of the code.  The received signal strength and noise ratio of a row, both floats, are left out, and
  \<open>rm_text\<close> is the text of a received message after its normalization.
\<close>

subsection \<open>Data\<close>

definition kInboxCapacity :: nat where "kInboxCapacity = 24"

datatype MessageKind = KindDirect | KindChannel
datatype MessageRoute = RouteFlood | RouteDirect
datatype ChatJournalState = Received | Queued | Sent | Delivered | Unconfirmed | Failed | Cancelled
datatype DeliveryState = EvDelivered | EvTimedOut | EvCancelled | EvTxFailed | EvSent | EvRepeatObserved

record ChatEntry =
  ce_id :: u32
  ce_journalSession :: u32
  ce_revision :: u32
  ce_timestamp :: u32
  ce_expectedAck :: u32
  ce_queuedAt :: u32
  ce_sentAt :: u32
  ce_inbound :: bool
  ce_kind :: MessageKind
  ce_route :: MessageRoute
  ce_state :: ChatJournalState
  ce_authenticated :: bool
  ce_unread :: bool
  ce_repeaterCountKnown :: bool
  ce_repeaterCount :: u8
  ce_repeatCountKnown :: bool
  ce_repeatCount :: u8
  ce_repeatObservationOpen :: bool
  ce_repeatSources :: "bytes list"
  ce_repeatSourcesTruncated :: bool
  ce_contactPublicKey :: bytes
  ce_channelSlot :: u8
  ce_senderName :: bytes
  ce_text :: bytes

definition chat_entry0 :: ChatEntry where
  "chat_entry0 = \<lparr>ce_id = 0, ce_journalSession = 0, ce_revision = 0, ce_timestamp = 0, ce_expectedAck = 0, ce_queuedAt = 0,
     ce_sentAt = 0, ce_inbound = True, ce_kind = KindDirect, ce_route = RouteFlood, ce_state = Received,
     ce_authenticated = False, ce_unread = False, ce_repeaterCountKnown = False, ce_repeaterCount = 0,
     ce_repeatCountKnown = False, ce_repeatCount = 0, ce_repeatObservationOpen = False, ce_repeatSources = [],
     ce_repeatSourcesTruncated = False, ce_contactPublicKey = replicate 32 0, ce_channelSlot = 0xff, ce_senderName = [],
     ce_text = []\<rparr>"

record ChatJournal =
  cj_entries :: "ChatEntry list"
  cj_start :: nat
  cj_count :: nat
  cj_dropped :: u32
  cj_nextId :: u32
  cj_revision :: u32
  cj_session :: u32
  cj_unread :: nat
  cj_refreshDirty :: bool

text \<open>The variables at power on, and the random session drawn in \<^verbatim>\<open>setup\<close>.\<close>

definition journal_boot :: "u32 \<Rightarrow> ChatJournal" where
  "journal_boot random = \<lparr>cj_entries = replicate kInboxCapacity chat_entry0, cj_start = 0, cj_count = 0, cj_dropped = 0,
     cj_nextId = 1, cj_revision = 0, cj_session = (if random = 0 then 1 else random), cj_unread = 0,
     cj_refreshDirty = True\<rparr>"

record ReceivedMessage =
  rm_kind :: MessageKind
  rm_route :: MessageRoute
  rm_senderAuthenticated :: bool
  rm_timestamp :: u32
  rm_publicKey :: bytes
  rm_channelSlot :: u8
  rm_senderName :: bytes
  rm_text :: bytes
  rm_hopCount :: u8

record DeliveryEvent =
  de_kind :: MessageKind
  de_state :: DeliveryState
  de_messageTimestamp :: u32
  de_expectedAck :: u32
  de_recipientPublicKey :: bytes
  de_channelSlot :: u8
  de_repeaterCountKnown :: bool
  de_repeaterCount :: u8
  de_repeatCountKnown :: bool
  de_repeatCount :: u8
  de_repeatObservationOpen :: bool
  de_repeatSources :: "bytes list"
  de_repeatSourcesTruncated :: bool

subsection \<open>The ring\<close>

definition ring_index :: "ChatJournal \<Rightarrow> nat \<Rightarrow> nat" where
  "ring_index j ordinal = (cj_start j + ordinal) mod kInboxCapacity"

definition ring :: "ChatJournal \<Rightarrow> nat list" where
  "ring j = map (ring_index j) [0 ..< cj_count j]"

definition entry_update :: "nat \<Rightarrow> (ChatEntry \<Rightarrow> ChatEntry) \<Rightarrow> ChatJournal \<Rightarrow> ChatJournal" where
  "entry_update i f j = j\<lparr>cj_entries := (cj_entries j)[i := f (cj_entries j ! i)]\<rparr>"

definition clear_unread :: "ChatEntry \<Rightarrow> ChatEntry" where
  "clear_unread e = e\<lparr>ce_unread := False\<rparr>"

definition advanceChatJournalGeneration :: "ChatJournal \<Rightarrow> ChatJournal" where
  "advanceChatJournalGeneration j =
     (let j = j\<lparr>cj_session := advanceJournalSession (cj_session j), cj_revision := 0\<rparr>;
          j = fold (\<lambda>i. entry_update i clear_unread) (ring j) j
      in j\<lparr>cj_unread := 0, cj_refreshDirty := True\<rparr>)"

definition allocateChatMessageId :: "ChatJournal \<Rightarrow> u32 \<times> ChatJournal" where
  "allocateChatMessageId j =
     (let i = cj_nextId j; j = j\<lparr>cj_nextId := i + 1\<rparr>
      in if i = 0 then (1, advanceChatJournalGeneration (j\<lparr>cj_nextId := 2\<rparr>)) else (i, j))"

definition allocateChatRevision :: "ChatJournal \<Rightarrow> u32 \<times> ChatJournal" where
  "allocateChatRevision j =
     (let revision = cj_revision j + 1;
          (revision, j) = (if revision = 0 then (1, advanceChatJournalGeneration j) else (revision, j))
      in (revision, j\<lparr>cj_revision := revision\<rparr>))"

definition touchChatJournal :: "nat \<Rightarrow> ChatJournal \<Rightarrow> ChatJournal" where
  "touchChatJournal i j =
     (let (revision, j) = allocateChatRevision j
      in entry_update i (\<lambda>e. e\<lparr>ce_revision := revision, ce_journalSession := cj_session j\<rparr>) (j\<lparr>cj_refreshDirty := True\<rparr>))"

definition appendChatJournal :: "ChatJournal \<Rightarrow> nat \<times> ChatJournal" where
  "appendChatJournal j =
     (let (writeIndex, j) =
            (if cj_count j < kInboxCapacity
             then ((cj_start j + cj_count j) mod kInboxCapacity, j\<lparr>cj_count := cj_count j + 1\<rparr>)
             else let writeIndex = cj_start j; old = cj_entries j ! writeIndex
                  in (writeIndex,
                      j\<lparr>cj_unread := (if ce_inbound old \<and> ce_unread old \<and> cj_unread j > 0 then cj_unread j - 1 else cj_unread j),
                        cj_start := (cj_start j + 1) mod kInboxCapacity, cj_dropped := cj_dropped j + 1\<rparr>));
          j = entry_update writeIndex (\<lambda>_. chat_entry0) j;
          (newId, j) = allocateChatMessageId j;
          j = entry_update writeIndex (\<lambda>e. e\<lparr>ce_id := newId\<rparr>) j
      in (writeIndex, touchChatJournal writeIndex j))"

definition recount :: "ChatJournal \<Rightarrow> nat" where
  "recount j = length (filter (\<lambda>i. ce_inbound (cj_entries j ! i) \<and> ce_unread (cj_entries j ! i)) (ring j))"

definition applyChatJournalReadPlan :: "nat list option \<Rightarrow> ChatJournal \<Rightarrow> nat \<times> ChatJournal" where
  "applyChatJournalReadPlan journalIndexes j =
     (case journalIndexes of None \<Rightarrow> (0, j)
      | Some indexes \<Rightarrow>
          if length indexes > kInboxCapacity then (0, j)
          else let shouldMark = filter (\<lambda>i. i < kInboxCapacity \<and> ce_inbound (cj_entries j ! i) \<and> ce_unread (cj_entries j ! i)) indexes;
                   marked = length shouldMark;
                   j = (if revisionBatchRequiresGenerationAdvance (cj_revision j) (of_nat marked)
                        then advanceChatJournalGeneration j else j);
                   j = fold (\<lambda>i j. touchChatJournal i (entry_update i clear_unread j)) shouldMark j
               in (marked, j\<lparr>cj_unread := recount j\<rparr>))"

definition markChatJournalRead :: "ChatJournal \<Rightarrow> ChatJournal" where
  "markChatJournalRead j =
     snd (applyChatJournalReadPlan
            (Some (filter (\<lambda>i. ce_inbound (cj_entries j ! i) \<and> ce_unread (cj_entries j ! i)) (ring j))) j)"

definition chatJournalNewest :: "ChatJournal \<Rightarrow> nat \<Rightarrow> nat option" where
  "chatJournalNewest j newestOffset =
     (if newestOffset \<ge> cj_count j then None
      else Some ((cj_start j + cj_count j - 1 - newestOffset) mod kInboxCapacity))"

subsection \<open>Mesh events\<close>

definition pending :: "ChatEntry \<Rightarrow> bool" where
  "pending e \<longleftrightarrow> ce_state e = Queued \<or> ce_state e = Sent"

definition matches_delivery :: "DeliveryEvent \<Rightarrow> ChatEntry \<Rightarrow> bool" where
  "matches_delivery d e \<longleftrightarrow> \<not> ce_inbound e \<and> ce_kind e = KindDirect \<and> ce_timestamp e = de_messageTimestamp d
     \<and> ce_expectedAck e = de_expectedAck d \<and> ce_contactPublicKey e = de_recipientPublicKey d \<and> pending e"

definition matches_channel :: "DeliveryEvent \<Rightarrow> ChatEntry \<Rightarrow> bool" where
  "matches_channel d e \<longleftrightarrow> \<not> ce_inbound e \<and> ce_kind e = KindChannel \<and> ce_channelSlot e = de_channelSlot d
     \<and> ce_timestamp e = de_messageTimestamp d \<and> pending e"

text \<open>The search from the newest row backwards.\<close>

definition find_newest :: "(ChatEntry \<Rightarrow> bool) \<Rightarrow> ChatJournal \<Rightarrow> nat option" where
  "find_newest p j = find (\<lambda>i. p (cj_entries j ! i)) (List.map_filter (chatJournalNewest j) [0 ..< cj_count j])"

definition findChatByDelivery :: "DeliveryEvent \<Rightarrow> ChatJournal \<Rightarrow> nat option" where
  "findChatByDelivery d j = find_newest (matches_delivery d) j"

definition findChannelJournalByDelivery :: "DeliveryEvent \<Rightarrow> ChatJournal \<Rightarrow> nat option" where
  "findChannelJournalByDelivery d j = find_newest (matches_channel d) j"

text \<open>A message taken from the transport becomes a row; \<open>inboxOpen\<close> is \<^verbatim>\<open>screen == Screen::Inbox\<close>.\<close>

definition receiveMessage :: "bool \<Rightarrow> ReceivedMessage \<Rightarrow> ChatJournal \<Rightarrow> ChatJournal" where
  "receiveMessage inboxOpen m j =
     (let (i, j) = appendChatJournal j;
          known = (rm_route m = RouteFlood);
          j = entry_update i (\<lambda>e. e\<lparr>ce_inbound := True, ce_timestamp := rm_timestamp m, ce_kind := rm_kind m,
                ce_route := rm_route m, ce_state := Received, ce_authenticated := rm_senderAuthenticated m,
                ce_contactPublicKey := rm_publicKey m, ce_channelSlot := rm_channelSlot m,
                ce_senderName := rm_senderName m, ce_text := rm_text m, ce_repeaterCountKnown := known,
                ce_repeaterCount := (if known then rm_hopCount m else 0), ce_unread := \<not> inboxOpen\<rparr>) j
      in if \<not> inboxOpen \<and> cj_unread j < kInboxCapacity then j\<lparr>cj_unread := cj_unread j + 1\<rparr> else j)"

text \<open>The rows of queued outbound messages.\<close>

definition queueDirect :: "MessageRoute \<Rightarrow> u32 \<Rightarrow> u32 \<Rightarrow> u32 \<Rightarrow> bytes \<Rightarrow> bytes \<Rightarrow> ChatJournal \<Rightarrow> ChatJournal" where
  "queueDirect route queuedTimestamp expectedAck now publicKey messageText j =
     (let (i, j) = appendChatJournal j
      in entry_update i (\<lambda>e. e\<lparr>ce_inbound := False, ce_kind := KindDirect, ce_route := route, ce_state := Queued,
           ce_authenticated := True, ce_timestamp := queuedTimestamp, ce_expectedAck := expectedAck, ce_queuedAt := now,
           ce_contactPublicKey := publicKey, ce_text := messageText\<rparr>) j)"

definition queueChannel :: "u32 \<Rightarrow> u8 \<Rightarrow> u32 \<Rightarrow> bytes \<Rightarrow> ChatJournal \<Rightarrow> ChatJournal" where
  "queueChannel queuedTimestamp slot now messageText j =
     (let (i, j) = appendChatJournal j
      in entry_update i (\<lambda>e. e\<lparr>ce_inbound := False, ce_kind := KindChannel, ce_route := RouteFlood, ce_state := Queued,
           ce_authenticated := False, ce_timestamp := queuedTimestamp, ce_channelSlot := slot, ce_queuedAt := now,
           ce_text := messageText\<rparr>) j)"

definition forget_repeats :: "ChatEntry \<Rightarrow> ChatEntry" where
  "forget_repeats e = (if ce_kind e = KindChannel
     then e\<lparr>ce_repeatCountKnown := False, ce_repeatCount := 0, ce_repeatObservationOpen := False, ce_repeatSources := [],
            ce_repeatSourcesTruncated := False\<rparr> else e)"

text \<open>The row change of each delivery state; \<^verbatim>\<open>None\<close> is the refused repeat observation.\<close>

definition delivery_row :: "u32 \<Rightarrow> DeliveryEvent \<Rightarrow> ChatEntry \<Rightarrow> ChatEntry option" where
  "delivery_row now d e = (case de_state d of
     EvSent \<Rightarrow> Some (let e = e\<lparr>ce_state := Sent, ce_sentAt := now\<rparr>
        in if ce_kind e = KindChannel
           then e\<lparr>ce_repeatCountKnown := de_repeatCountKnown d, ce_repeatCount := 0,
                  ce_repeatObservationOpen := de_repeatObservationOpen d, ce_repeatSources := [],
                  ce_repeatSourcesTruncated := False\<rparr> else e)
   | EvRepeatObserved \<Rightarrow>
       if ce_kind e \<noteq> KindChannel \<or> \<not> de_repeatCountKnown d then None
       else Some (let e = (if ce_state e = Queued then e\<lparr>ce_state := Sent, ce_sentAt := now\<rparr> else e)
          in e\<lparr>ce_repeatCountKnown := True, ce_repeatCount := de_repeatCount d,
               ce_repeatObservationOpen := de_repeatObservationOpen d, ce_repeatSources := de_repeatSources d,
               ce_repeatSourcesTruncated := de_repeatSourcesTruncated d\<rparr>)
   | EvDelivered \<Rightarrow> Some (e\<lparr>ce_state := Delivered, ce_repeaterCountKnown := de_repeaterCountKnown d,
        ce_repeaterCount := (if de_repeaterCountKnown d then de_repeaterCount d else 0)\<rparr>)
   | EvTimedOut \<Rightarrow> Some (e\<lparr>ce_state := Unconfirmed, ce_repeaterCountKnown := False, ce_repeaterCount := 0\<rparr>)
   | EvCancelled \<Rightarrow> Some (forget_repeats (e\<lparr>ce_state := Cancelled, ce_repeaterCountKnown := False, ce_repeaterCount := 0\<rparr>))
   | EvTxFailed \<Rightarrow> Some (forget_repeats (e\<lparr>ce_state := Failed, ce_repeaterCountKnown := False, ce_repeaterCount := 0\<rparr>)))"

definition deliverEvent :: "u32 \<Rightarrow> DeliveryEvent \<Rightarrow> ChatJournal \<Rightarrow> ChatJournal" where
  "deliverEvent now d j =
     (case (if de_kind d = KindDirect then findChatByDelivery d j else findChannelJournalByDelivery d j) of
        None \<Rightarrow> j
      | Some i \<Rightarrow> (case delivery_row now d (cj_entries j ! i) of None \<Rightarrow> j
          | Some e \<Rightarrow> touchChatJournal i (entry_update i (\<lambda>_. e) j)))"

text \<open>The sweep of the serial \<^verbatim>\<open>chat reset\<close> command over the outbound rows, newest first.\<close>

definition reset_row :: "nat \<Rightarrow> ChatJournal \<Rightarrow> ChatJournal" where
  "reset_row i j =
     (let e = cj_entries j ! i
      in if ce_inbound e then j
         else let j = (if ce_kind e = KindChannel \<and> ce_state e = Sent \<and> ce_repeatCountKnown e \<and> ce_repeatObservationOpen e
                       then touchChatJournal i (entry_update i (\<lambda>e. e\<lparr>ce_repeatObservationOpen := False\<rparr>) j) else j);
                  pendingDirect = (ce_kind e = KindDirect \<and> pending e);
                  pendingChannel = (ce_kind e = KindChannel \<and> ce_state e = Queued)
              in if \<not> pendingDirect \<and> \<not> pendingChannel then j
                 else if ce_kind e = KindDirect \<and> ce_state e = Sent
                 then touchChatJournal i (entry_update i (\<lambda>e. e\<lparr>ce_state := Unconfirmed, ce_repeaterCountKnown := False,
                        ce_repeaterCount := 0\<rparr>) j)
                 else touchChatJournal i (entry_update i (\<lambda>e. forget_repeats (e\<lparr>ce_state := Cancelled,
                        ce_repeaterCountKnown := False, ce_repeaterCount := 0\<rparr>)) j))"

definition resetPending :: "ChatJournal \<Rightarrow> ChatJournal" where
  "resetPending j = fold (\<lambda>offset j. case chatJournalNewest j offset of None \<Rightarrow> j | Some i \<Rightarrow> reset_row i j) [0 ..< cj_count j] j"

subsection \<open>The acknowledgement request\<close>

datatype ReadResponse = ReadRejected string | ReadAccepted nat nat

text \<open>The rows of the current session, with their places in the ring.\<close>

definition visible :: "ChatJournal \<Rightarrow> nat list" where
  "visible j = filter (\<lambda>i. ce_journalSession (cj_entries j ! i) = cj_session j) (ring j)"

definition read_record :: "ChatJournal \<Rightarrow> nat \<Rightarrow> ReadRecord" where
  "read_record j i = (let e = cj_entries j ! i
     in \<lparr>rr_messageId = ce_id e, rr_inbound = ce_inbound e, rr_unread = ce_unread e\<rparr>)"

definition markMessagesRead :: "bytes option \<Rightarrow> ChatJournal \<Rightarrow> ReadResponse \<times> ChatJournal" where
  "markMessagesRead payload j =
     (case read_parseCommand payload of Inl _ \<Rightarrow> (ReadRejected ''request_rejected'', j)
      | Inr command \<Rightarrow>
          (case read_plan (cj_session j) command (Some (map (read_record j) (visible j))) of
             Inl status \<Rightarrow> (ReadRejected (planStatusError status), j)
           | Inr plan \<Rightarrow>
               let selected = map (\<lambda>k. visible j ! k) (rp_recordIndexes plan);
                   (marked, j) = applyChatJournalReadPlan (Some selected) j
               in (ReadAccepted marked (rp_unchangedCount plan), j)))"

end
