(* ===== verification/Journal_Laws.thy ===== *)
theory Journal_Laws
  imports Chat_Journal
begin

text \<open>
  The journal as a bounded queue.  \<open>rows\<close> reads the ring as a list, oldest row first; the lemmas give
  the effect of every operation on that list, and the invariant is stated over it: the badge counts
  the unread inbound rows, unread rows belong to the current session, and the identifiers are
  consecutive, so no two rows share one even after the counter has wrapped.
\<close>

subsection \<open>The ring as a list\<close>

definition rows :: "ChatJournal \<Rightarrow> ChatEntry list" where
  "rows j = map (\<lambda>i. cj_entries j ! i) (ring j)"

definition shape :: "ChatJournal \<Rightarrow> bool" where
  "shape j \<longleftrightarrow> length (cj_entries j) = 24 \<and> cj_start j < 24 \<and> cj_count j \<le> 24"

lemma length_rows [simp]: "length (rows j) = cj_count j"
  by (simp add: rows_def ring_def)

lemma rows_nth: "k < cj_count j \<Longrightarrow> rows j ! k = cj_entries j ! ring_index j k"
  by (simp add: rows_def ring_def)

lemma ring_index_less [simp]: "ring_index j k < 24"
  by (simp add: ring_index_def kInboxCapacity_def)

lemma add_mod_inj:
  fixes k l s n :: nat
  assumes "(s + k) mod n = (s + l) mod n" "l \<le> k" "k < n"
  shows "k = l"
proof -
  have "n dvd (s + k) - (s + l)" using assms(1,2) mod_eq_dvd_iff_nat [of "s + l" "s + k" n] by simp
  then have "n dvd k - l" by simp
  moreover have "k - l < n" using assms(3) by simp
  ultimately show ?thesis using assms(2) nat_dvd_not_less [of "k - l" n] by (cases "k = l") auto
qed

lemma ring_index_inj:
  assumes "k < 24" "l < 24"
  shows "ring_index j k = ring_index j l \<longleftrightarrow> k = l"
proof
  assume "ring_index j k = ring_index j l"
  then have eq: "(cj_start j + k) mod 24 = (cj_start j + l) mod 24" by (simp add: ring_index_def kInboxCapacity_def)
  show "k = l"
  proof (cases "l \<le> k")
    case True
    then show ?thesis using add_mod_inj [OF eq] assms by simp
  next
    case False
    then show ?thesis using add_mod_inj [OF eq [symmetric]] assms by simp
  qed
qed simp

lemma in_ring: "i \<in> set (ring j) \<longleftrightarrow> (\<exists>k < cj_count j. i = ring_index j k)"
  by (auto simp: ring_def)

lemma ring_scalars [simp]:
  "ring_index (j\<lparr>cj_entries := es\<rparr>) = ring_index j" "ring_index (j\<lparr>cj_session := s\<rparr>) = ring_index j"
  "ring_index (j\<lparr>cj_revision := r\<rparr>) = ring_index j" "ring_index (j\<lparr>cj_unread := u\<rparr>) = ring_index j"
  "ring_index (j\<lparr>cj_refreshDirty := b\<rparr>) = ring_index j" "ring_index (j\<lparr>cj_nextId := n\<rparr>) = ring_index j"
  "ring_index (j\<lparr>cj_count := c\<rparr>) = ring_index j"
  by (simp_all add: fun_eq_iff ring_index_def)

lemma rows_scalars [simp]:
  "rows (j\<lparr>cj_session := s\<rparr>) = rows j" "rows (j\<lparr>cj_revision := r\<rparr>) = rows j" "rows (j\<lparr>cj_unread := u\<rparr>) = rows j"
  "rows (j\<lparr>cj_refreshDirty := b\<rparr>) = rows j" "rows (j\<lparr>cj_nextId := n\<rparr>) = rows j"
  by (simp_all add: rows_def ring_def)

lemma shape_scalars [simp]:
  "shape (j\<lparr>cj_session := s\<rparr>) = shape j" "shape (j\<lparr>cj_revision := r\<rparr>) = shape j" "shape (j\<lparr>cj_unread := u\<rparr>) = shape j"
  "shape (j\<lparr>cj_refreshDirty := b\<rparr>) = shape j" "shape (j\<lparr>cj_nextId := n\<rparr>) = shape j"
  by (simp_all add: shape_def)

lemma entry_update_fields [simp]:
  "cj_start (entry_update i f j) = cj_start j" "cj_count (entry_update i f j) = cj_count j"
  "cj_dropped (entry_update i f j) = cj_dropped j" "cj_nextId (entry_update i f j) = cj_nextId j"
  "cj_revision (entry_update i f j) = cj_revision j" "cj_session (entry_update i f j) = cj_session j"
  "cj_unread (entry_update i f j) = cj_unread j" "ring_index (entry_update i f j) = ring_index j"
  "ring (entry_update i f j) = ring j" "shape (entry_update i f j) = shape j"
  by (simp_all add: entry_update_def ring_def shape_def)

lemma rows_entry_update:
  assumes "shape j" "k < cj_count j"
  shows "rows (entry_update (ring_index j k) f j) = (rows j)[k := f (rows j ! k)]"
proof (rule nth_equalityI)
  fix l assume "l < length (rows (entry_update (ring_index j k) f j))"
  then have l: "l < cj_count j" by simp
  have "ring_index j k = ring_index j l \<longleftrightarrow> k = l" using assms l by (intro ring_index_inj) (auto simp: shape_def)
  then show "rows (entry_update (ring_index j k) f j) ! l = (rows j)[k := f (rows j ! k)] ! l"
    using assms l by (auto simp: rows_nth nth_list_update entry_update_def shape_def)
qed simp

lemma recount_rows: "recount j = length (filter (\<lambda>e. ce_inbound e \<and> ce_unread e) (rows j))"
  by (simp add: recount_def rows_def filter_map comp_def)

subsection \<open>A new generation\<close>

lemma fold_clear_rest:
  "fold (\<lambda>i. entry_update i clear_unread) is j = j\<lparr>cj_entries := cj_entries (fold (\<lambda>i. entry_update i clear_unread) is j)\<rparr>"
proof (induction "is" arbitrary: j)
  case (Cons i "is")
  show ?case using Cons.IH [of "entry_update i clear_unread j"] by (simp add: entry_update_def)
qed simp

lemma fold_clear:
  assumes "\<forall>i \<in> set is. i < length (cj_entries j)" "l < length (cj_entries j)"
  shows "length (cj_entries (fold (\<lambda>i. entry_update i clear_unread) is j)) = length (cj_entries j)
    \<and> cj_entries (fold (\<lambda>i. entry_update i clear_unread) is j) ! l
       = (if l \<in> set is then clear_unread (cj_entries j ! l) else cj_entries j ! l)"
  using assms
proof (induction "is" arbitrary: j)
  case (Cons i "is")
  define j1 where "j1 = entry_update i clear_unread j"
  have len: "length (cj_entries j1) = length (cj_entries j)" by (simp add: j1_def entry_update_def)
  have here: "cj_entries j1 ! l = (if l = i then clear_unread (cj_entries j ! l) else cj_entries j ! l)"
    using Cons.prems by (auto simp: j1_def entry_update_def nth_list_update)
  have idem: "clear_unread (clear_unread e) = clear_unread e" for e by (simp add: clear_unread_def)
  show ?case
    using Cons.IH [of j1] Cons.prems len here idem by (auto simp: j1_def [symmetric])
qed simp

text \<open>Everything that a generation change does: the rows keep all but their unread mark.\<close>

lemma advance_rows:
  assumes "shape j"
  shows "rows (advanceChatJournalGeneration j) = map clear_unread (rows j)"
    and "shape (advanceChatJournalGeneration j)"
    and "cj_count (advanceChatJournalGeneration j) = cj_count j" "cj_nextId (advanceChatJournalGeneration j) = cj_nextId j"
      "cj_session (advanceChatJournalGeneration j) = advanceJournalSession (cj_session j)"
      "cj_revision (advanceChatJournalGeneration j) = 0" "cj_unread (advanceChatJournalGeneration j) = 0"
      "ring_index (advanceChatJournalGeneration j) = ring_index j" "cj_start (advanceChatJournalGeneration j) = cj_start j"
proof -
  define j0 where "j0 = j\<lparr>cj_session := advanceJournalSession (cj_session j), cj_revision := 0\<rparr>"
  define j1 where "j1 = fold (\<lambda>i. entry_update i clear_unread) (ring j0) j0"
  have form: "advanceChatJournalGeneration j = j1\<lparr>cj_unread := 0, cj_refreshDirty := True\<rparr>"
    by (simp add: advanceChatJournalGeneration_def Let_def j0_def j1_def)
  have rest: "j1 = j0\<lparr>cj_entries := cj_entries j1\<rparr>" unfolding j1_def by (rule fold_clear_rest)
  have ring0: "ring j0 = ring j" by (simp add: j0_def ring_def)
  have ok: "\<forall>i \<in> set (ring j0). i < length (cj_entries j0)" using assms by (auto simp: ring_def j0_def shape_def)
  have e0: "cj_entries j0 = cj_entries j" and len: "length (cj_entries j) = 24" using assms by (simp_all add: j0_def shape_def)
  note clear = fold_clear [OF ok, folded j1_def, unfolded ring0 e0]
  have ents: "length (cj_entries j1) = 24"
    "l < 24 \<Longrightarrow> cj_entries j1 ! l = (if l \<in> set (ring j) then clear_unread (cj_entries j ! l) else cj_entries j ! l)" for l
    using clear [of l] clear [of 0] len by simp_all
  have fields: "cj_start j1 = cj_start j" "cj_count j1 = cj_count j" "cj_nextId j1 = cj_nextId j"
    "cj_session j1 = advanceJournalSession (cj_session j)" "cj_revision j1 = 0" "ring_index j1 = ring_index j"
    by (subst rest, simp add: j0_def)+
  show "rows (advanceChatJournalGeneration j) = map clear_unread (rows j)"
    unfolding form using fields(2,6)
    by (intro nth_equalityI) (auto simp: rows_nth ents(2) in_ring)
  show "shape (advanceChatJournalGeneration j)" using assms ents(1) fields by (simp add: form shape_def)
  show "cj_count (advanceChatJournalGeneration j) = cj_count j" "cj_nextId (advanceChatJournalGeneration j) = cj_nextId j"
      "cj_session (advanceChatJournalGeneration j) = advanceJournalSession (cj_session j)"
      "cj_revision (advanceChatJournalGeneration j) = 0" "cj_unread (advanceChatJournalGeneration j) = 0"
      "ring_index (advanceChatJournalGeneration j) = ring_index j" "cj_start (advanceChatJournalGeneration j) = cj_start j"
    using fields by (simp_all add: form)
qed

subsection \<open>Revisions\<close>

text \<open>The rows after a possible generation change.\<close>

definition renewed :: "bool \<Rightarrow> ChatEntry list \<Rightarrow> ChatEntry list" where
  "renewed b rs = (if b then map clear_unread rs else rs)"

lemma length_renewed [simp]: "length (renewed b rs) = length rs"
  by (simp add: renewed_def)

lemma allocateRevision_rows:
  assumes "shape j"
  defines "wraps \<equiv> cj_revision j + 1 = 0"
  defines "j' \<equiv> snd (allocateChatRevision j)"
  shows "rows j' = renewed wraps (rows j)" "shape j'" "cj_count j' = cj_count j" "cj_nextId j' = cj_nextId j"
    "cj_session j' = (if wraps then advanceJournalSession (cj_session j) else cj_session j)"
    "cj_unread j' = (if wraps then 0 else cj_unread j)" "ring_index j' = ring_index j" "cj_start j' = cj_start j"
  using advance_rows [OF assms(1)] assms(1)
  by (simp_all add: j'_def wraps_def allocateChatRevision_def Let_def renewed_def)

definition touched :: "u32 \<Rightarrow> u32 \<Rightarrow> ChatEntry \<Rightarrow> ChatEntry" where
  "touched revision session e = e\<lparr>ce_revision := revision, ce_journalSession := session\<rparr>"

lemma touch_rows:
  assumes "shape j" "k < cj_count j"
  defines "wraps \<equiv> cj_revision j + 1 = 0"
  defines "j' \<equiv> touchChatJournal (ring_index j k) j"
  shows "rows j' = (renewed wraps (rows j))[k := touched (fst (allocateChatRevision j)) (cj_session j') (renewed wraps (rows j) ! k)]"
    and "shape j'" "cj_count j' = cj_count j" "cj_nextId j' = cj_nextId j"
    "cj_session j' = (if wraps then advanceJournalSession (cj_session j) else cj_session j)"
    "cj_unread j' = (if wraps then 0 else cj_unread j)" "ring_index j' = ring_index j" "cj_start j' = cj_start j"
proof -
  obtain revision a where a: "allocateChatRevision j = (revision, a)" by (cases "allocateChatRevision j")
  note alloc = allocateRevision_rows [OF assms(1), unfolded a snd_conv, folded wraps_def]
  have form: "j' = entry_update (ring_index j k) (touched revision (cj_session a)) (a\<lparr>cj_refreshDirty := True\<rparr>)"
    by (simp add: j'_def touchChatJournal_def a touched_def [abs_def])
  show "rows j' = (renewed wraps (rows j))[k := touched (fst (allocateChatRevision j)) (cj_session j') (renewed wraps (rows j) ! k)]"
    using rows_entry_update [of "a\<lparr>cj_refreshDirty := True\<rparr>" k] assms(2) alloc by (simp add: form a)
  show "shape j'" "cj_count j' = cj_count j" "cj_nextId j' = cj_nextId j"
    "cj_session j' = (if wraps then advanceJournalSession (cj_session j) else cj_session j)"
    "cj_unread j' = (if wraps then 0 else cj_unread j)" "ring_index j' = ring_index j" "cj_start j' = cj_start j"
    using alloc by (simp_all add: form)
qed

subsection \<open>The invariant\<close>

definition next_id :: "u32 \<Rightarrow> u32" where
  "next_id x = (if x + 1 = 0 then 1 else x + 1)"

definition fresh_id :: "ChatJournal \<Rightarrow> u32" where
  "fresh_id j = (if cj_nextId j = 0 then 1 else cj_nextId j)"

lemma fresh_id_entry_update [simp]: "fresh_id (entry_update i f j) = fresh_id j"
  by (simp add: fresh_id_def)

definition ids_ok :: "u32 list \<Rightarrow> u32 \<Rightarrow> bool" where
  "ids_ok ids fresh \<longleftrightarrow> (\<exists>x. x \<noteq> 0 \<and> ids = map (\<lambda>k. (next_id ^^ k) x) [0 ..< length ids] \<and> fresh = (next_id ^^ length ids) x)"

definition unread_ok :: "u32 \<Rightarrow> ChatEntry list \<Rightarrow> bool" where
  "unread_ok session rs \<longleftrightarrow> (\<forall>e \<in> set rs. ce_unread e \<longrightarrow> ce_inbound e \<and> ce_journalSession e = session)"

definition unread_rows :: "ChatEntry list \<Rightarrow> nat" where
  "unread_rows rs = length (filter (\<lambda>e. ce_inbound e \<and> ce_unread e) rs)"

definition rows_ok :: "ChatJournal \<Rightarrow> bool" where
  "rows_ok j \<longleftrightarrow> shape j \<and> cj_session j \<noteq> 0 \<and> unread_ok (cj_session j) (rows j) \<and> ids_ok (map ce_id (rows j)) (fresh_id j)"

definition journal_inv :: "ChatJournal \<Rightarrow> bool" where
  "journal_inv j \<longleftrightarrow> rows_ok j \<and> cj_unread j = unread_rows (rows j)"

lemma advanceSession_nonzero [simp]: "advanceJournalSession s \<noteq> 0"
  by (simp add: advanceJournalSession_def Let_def)

lemma ids_renewed [simp]: "map ce_id (renewed b rs) = map ce_id rs"
  by (simp add: renewed_def clear_unread_def comp_def)

lemma unread_ok_cleared [simp]: "unread_ok s (map clear_unread rs)"
  by (auto simp: unread_ok_def clear_unread_def)

lemma unread_rows_cleared [simp]: "unread_rows (map clear_unread rs) = 0"
  by (simp add: unread_rows_def clear_unread_def filter_map comp_def)

lemma unread_rows_update:
  "k < length rs \<Longrightarrow> (ce_inbound e \<and> ce_unread e) = (ce_inbound (rs ! k) \<and> ce_unread (rs ! k)) \<Longrightarrow>
     unread_rows (rs[k := e]) = unread_rows rs"
proof (induction rs arbitrary: k)
  case (Cons r rs)
  then show ?case by (cases k) (simp_all add: unread_rows_def)
qed simp

lemma unread_ok_update:
  "unread_ok s rs \<Longrightarrow> (ce_unread e \<Longrightarrow> ce_inbound e \<and> ce_journalSession e = s) \<Longrightarrow> unread_ok s (rs[k := e])"
  by (auto simp: unread_ok_def dest!: set_update_subset_insert [THEN subsetD])

lemma ids_update: "k < length rs \<Longrightarrow> ce_id e = ce_id (rs ! k) \<Longrightarrow> map ce_id (rs[k := e]) = map ce_id rs"
  by (simp add: map_update list_update_same_conv)

lemma touch_ok:
  assumes "rows_ok j" "k < cj_count j"
  defines "j' \<equiv> touchChatJournal (ring_index j k) j"
  shows "rows_ok j'" and "cj_unread j = unread_rows (rows j) \<Longrightarrow> cj_unread j' = unread_rows (rows j')"
proof -
  have sh: "shape j" using assms(1) by (simp add: rows_ok_def)
  define wraps where "wraps \<longleftrightarrow> cj_revision j + 1 = 0"
  note t = touch_rows [OF sh assms(2), folded j'_def wraps_def]
  define b where "b = renewed wraps (rows j)"
  have k: "k < length b" using assms(2) by (simp add: b_def)
  have unread_b: "unread_ok (cj_session j') b"
    using assms(1) t(5) by (auto simp: b_def renewed_def rows_ok_def)
  have "ce_unread (b ! k) \<Longrightarrow> ce_inbound (b ! k)" using unread_b k by (auto simp: unread_ok_def)
  then have "unread_ok (cj_session j') (rows j')"
    unfolding t(1) b_def [symmetric] using unread_b by (intro unread_ok_update) (auto simp: touched_def)
  moreover have ids: "map ce_id (rows j') = map ce_id (rows j)"
    unfolding t(1) b_def [symmetric] using k by (subst ids_update) (simp_all add: touched_def b_def)
  moreover have "fresh_id j' = fresh_id j" using t(4) by (simp add: fresh_id_def)
  moreover have "cj_session j' \<noteq> 0" using assms(1) t(5) by (simp add: rows_ok_def)
  ultimately show "rows_ok j'" using assms(1) t(2) by (simp add: rows_ok_def)
  have "unread_rows (rows j') = unread_rows b"
    unfolding t(1) b_def [symmetric] using k by (intro unread_rows_update) (simp_all add: touched_def)
  then show "cj_unread j' = unread_rows (rows j')" if "cj_unread j = unread_rows (rows j)"
    using that t(6) by (auto simp: b_def renewed_def)
qed

subsection \<open>Consecutive identifiers\<close>

lemma next_id_nonzero [simp]: "next_id x \<noteq> 0"
  by (simp add: next_id_def)

lemma next_ids_nonzero: "x \<noteq> 0 \<Longrightarrow> (next_id ^^ k) x \<noteq> 0"
  by (cases k) simp_all

lemma unat_next_id: "x \<noteq> 0 \<Longrightarrow> unat (next_id x) = unat x mod 4294967295 + 1"
proof (cases "x + 1 = 0")
  case True
  then have "x = - 1" by (simp add: eq_neg_iff_add_eq_0)
  then have "x = 0xFFFFFFFF" by simp
  then have "unat x = 4294967295" by (simp only: unat_numeral) simp
  then show ?thesis using True by (simp add: next_id_def)
next
  case False
  have "unat x \<noteq> 4294967295"
  proof
    assume "unat x = 4294967295"
    then have "x = 0xFFFFFFFF" by (simp add: word_unat_eq_iff)
    with False show False by simp
  qed
  then have "unat x < 4294967295" using unat32_lt [of x] by simp
  then show ?thesis using False by (simp add: next_id_def unat_plus_small)
qed

lemma unat_next_ids: "x \<noteq> 0 \<Longrightarrow> unat ((next_id ^^ k) x) = (unat x - 1 + k) mod 4294967295 + 1"
proof (induction k)
  case 0
  then have "0 < unat x" by (simp add: unat_gt_0)
  then show ?case using unat32_lt [of x] by simp
next
  case (Suc k)
  have "unat ((next_id ^^ Suc k) x) = unat ((next_id ^^ k) x) mod 4294967295 + 1"
    using unat_next_id [OF next_ids_nonzero [OF Suc.prems, of k]] by simp
  also have "\<dots> = ((unat x - 1 + k) mod 4294967295 + 1) mod 4294967295 + 1" using Suc by simp
  also have "\<dots> = (unat x - 1 + Suc k) mod 4294967295 + 1" by (simp only: mod_add_left_eq) simp
  finally show ?case .
qed

lemma next_ids_inj:
  assumes "x \<noteq> 0" "k < 4294967295" "l < 4294967295" "(next_id ^^ k) x = (next_id ^^ l) x"
  shows "k = l"
proof -
  have eq: "(unat x - 1 + k) mod 4294967295 = (unat x - 1 + l) mod 4294967295"
    using unat_next_ids [OF assms(1), of k] unat_next_ids [OF assms(1), of l] assms(4) by simp
  show ?thesis
  proof (cases "l \<le> k")
    case True
    then show ?thesis using add_mod_inj [OF eq] assms by simp
  next
    case False
    then show ?thesis using add_mod_inj [OF eq [symmetric]] assms by simp
  qed
qed

lemma ids_ok_distinct:
  assumes "ids_ok ids fresh" "length ids \<le> 24"
  shows "distinct ids" and "0 \<notin> set ids" and "fresh \<notin> set ids"
proof -
  obtain x where x: "x \<noteq> 0" "ids = map (\<lambda>k. (next_id ^^ k) x) [0 ..< length ids]" "fresh = (next_id ^^ length ids) x"
    using assms(1) by (auto simp: ids_ok_def)
  have inj: "inj_on (\<lambda>k. (next_id ^^ k) x) {0 ..< 25}" using next_ids_inj [OF x(1)] by (intro inj_onI) auto
  then have "inj_on (\<lambda>k. (next_id ^^ k) x) (set [0 ..< length ids])"
    using assms(2) by (elim inj_on_subset) auto
  then show "distinct ids" by (subst x(2)) (simp add: distinct_map)
  show "0 \<notin> set ids" by (subst x(2)) (use next_ids_nonzero [OF x(1)] in auto)
  show "fresh \<notin> set ids"
  proof
    assume "fresh \<in> set ids"
    then obtain k where "k < length ids" "(next_id ^^ length ids) x = (next_id ^^ k) x" using x by (metis (no_types, lifting) atLeastLessThan_iff imageE list.set_map set_upt)
    with next_ids_inj [OF x(1), of "length ids" k] assms(2) show False by simp
  qed
qed

lemma ids_ok_append: "ids_ok ids fresh \<Longrightarrow> ids_ok (ids @ [fresh]) (next_id fresh)"
  unfolding ids_ok_def by (elim exE conjE, rule_tac x = x in exI) (simp add: append_eq_conv_conj)

lemma ids_ok_tl:
  assumes "ids_ok ids fresh" "ids \<noteq> []"
  shows "ids_ok (tl ids) fresh"
proof -
  obtain x where x: "x \<noteq> 0" "ids = map (\<lambda>k. (next_id ^^ k) x) [0 ..< length ids]" "fresh = (next_id ^^ length ids) x"
    using assms(1) by (auto simp: ids_ok_def)
  obtain n where n: "length ids = Suc n" using assms(2) by (cases ids) auto
  have "tl ids = map (\<lambda>k. (next_id ^^ k) (next_id x)) [0 ..< n]"
    by (subst x(2)) (simp add: n upt_conv_Cons map_Suc_upt [symmetric] funpow_swap1 comp_def del: upt_Suc)
  moreover have "fresh = (next_id ^^ n) (next_id x)" using x(3) by (simp add: n funpow_swap1)
  ultimately show ?thesis unfolding ids_ok_def by (intro exI [of _ "next_id x"]) (simp add: n)
qed

subsection \<open>Appending a row\<close>

definition survivors :: "ChatJournal \<Rightarrow> ChatEntry list" where
  "survivors j = (if cj_count j < 24 then rows j else tl (rows j))"

text \<open>The choice of the slot, the first part of \<^verbatim>\<open>appendChatJournal\<close>.\<close>

definition append_slot :: "ChatJournal \<Rightarrow> nat \<times> ChatJournal" where
  "append_slot j =
     (if cj_count j < 24 then (ring_index j (cj_count j), j\<lparr>cj_count := cj_count j + 1\<rparr>)
      else (cj_start j, j\<lparr>cj_unread := (if ce_inbound (cj_entries j ! cj_start j) \<and> ce_unread (cj_entries j ! cj_start j)
                 \<and> cj_unread j > 0 then cj_unread j - 1 else cj_unread j),
               cj_start := (cj_start j + 1) mod 24, cj_dropped := cj_dropped j + 1\<rparr>))"

lemma append_form:
  "appendChatJournal j =
     (let (w, j0) = append_slot j; (newId, j2) = allocateChatMessageId (entry_update w (\<lambda>_. chat_entry0) j0)
      in (w, touchChatJournal w (entry_update w (\<lambda>e. e\<lparr>ce_id := newId\<rparr>) j2)))"
  by (simp add: appendChatJournal_def append_slot_def ring_index_def kInboxCapacity_def Let_def split: prod.splits)

lemma append_slot_facts:
  assumes "shape j"
  defines "j0 \<equiv> snd (append_slot j)"
  shows "shape j0" "0 < cj_count j0" "fst (append_slot j) = ring_index j0 (cj_count j0 - 1)"
    "butlast (rows j0) = survivors j" "cj_count j0 = min 24 (cj_count j + 1)"
    "cj_session j0 = cj_session j" "cj_nextId j0 = cj_nextId j" "cj_revision j0 = cj_revision j"
proof -
  have full: "rows j0 ! k = rows j ! (k + 1)" if "k < 23" "cj_count j = 24" for k
    using that by (simp add: j0_def append_slot_def rows_nth) (simp add: ring_index_def kInboxCapacity_def mod_simps add.commute add.left_commute)
  show "butlast (rows j0) = survivors j"
  proof (cases "cj_count j < 24")
    case True
    then show ?thesis by (simp add: j0_def append_slot_def survivors_def rows_def ring_def)
  next
    case False
    then have c: "cj_count j = 24" "cj_count j0 = 24" using assms by (simp_all add: shape_def j0_def append_slot_def)
    show ?thesis by (rule nth_equalityI) (simp_all add: c survivors_def nth_butlast nth_tl full)
  qed
  have "(Suc (cj_start j) mod 24 + 23) mod 24 = cj_start j" if "cj_start j < 24"
    using that by (simp add: mod_simps)
  then show "fst (append_slot j) = ring_index j0 (cj_count j0 - 1)"
    using assms(1) by (cases "cj_count j = 24") (auto simp: j0_def append_slot_def shape_def ring_index_def kInboxCapacity_def)
qed (use assms(1) in \<open>auto simp: j0_def append_slot_def shape_def\<close>)

lemma rows_update_last:
  assumes "shape j" "0 < cj_count j"
  shows "rows (entry_update (ring_index j (cj_count j - 1)) f j) = butlast (rows j) @ [f (last (rows j))]"
proof -
  have ne: "rows j \<noteq> []" using assms(2) length_rows [of j] by (cases "rows j") (simp_all del: length_rows)
  have "rows (entry_update (ring_index j (cj_count j - 1)) f j) = (rows j)[length (rows j) - 1 := f (last (rows j))]"
    using rows_entry_update [OF assms(1), of "cj_count j - 1"] assms(2) ne by (simp add: last_conv_nth)
  also have "\<dots> = butlast (rows j) @ [f (last (rows j))]"
    using ne by (cases "rows j" rule: rev_cases) (simp_all add: list_update_append del: length_rows)
  finally show ?thesis .
qed

lemma allocateId_rows:
  assumes "shape j"
  defines "wraps \<equiv> cj_nextId j = 0"
  defines "j' \<equiv> snd (allocateChatMessageId j)"
  shows "fst (allocateChatMessageId j) = fresh_id j" "fresh_id j' = next_id (fresh_id j)"
    "rows j' = renewed wraps (rows j)" "shape j'" "cj_count j' = cj_count j" "ring_index j' = ring_index j"
    "cj_session j' = (if wraps then advanceJournalSession (cj_session j) else cj_session j)"
    "cj_unread j' = (if wraps then 0 else cj_unread j)"
  using advance_rows [of "j\<lparr>cj_nextId := 2\<rparr>"] assms(1)
  by (simp_all add: j'_def wraps_def allocateChatMessageId_def Let_def renewed_def fresh_id_def next_id_def)

lemma survivors_subset: "set (survivors j) \<subseteq> set (rows j)"
  using list.set_sel(2) [of "rows j"] by (cases "rows j") (auto simp: survivors_def)

lemma unread_survivors:
  assumes "rows_ok j" "cj_unread j = unread_rows (rows j)"
  shows "unread_ok (cj_session j) (survivors j)" "cj_unread (snd (append_slot j)) = unread_rows (survivors j)"
proof -
  show "unread_ok (cj_session j) (survivors j)"
    using assms(1) survivors_subset [of j] by (auto simp: rows_ok_def unread_ok_def)
  show "cj_unread (snd (append_slot j)) = unread_rows (survivors j)"
  proof (cases "cj_count j < 24")
    case False
    then have c: "cj_count j = 24" "cj_start j < 24" using assms(1) by (simp_all add: rows_ok_def shape_def)
    have "rows j ! 0 = cj_entries j ! cj_start j" using c by (simp add: rows_nth ring_index_def kInboxCapacity_def)
    then obtain rs where rs: "rows j = cj_entries j ! cj_start j # rs"
      using c length_rows [of j] by (cases "rows j") (auto simp del: length_rows)
    show ?thesis using assms(2) c by (simp add: append_slot_def survivors_def rs unread_rows_def)
  qed (use assms(2) in \<open>simp add: append_slot_def survivors_def\<close>)
qed

lemma ids_survivors:
  assumes "rows_ok j"
  shows "ids_ok (map ce_id (survivors j)) (fresh_id j)"
proof (cases "cj_count j < 24")
  case False
  then have "rows j \<noteq> []" using length_rows [of j] by (cases "rows j") (simp_all del: length_rows)
  then show ?thesis using ids_ok_tl assms False by (simp add: rows_ok_def survivors_def map_tl)
qed (use assms in \<open>simp add: rows_ok_def survivors_def\<close>)

text \<open>The journal with the new row in place, before its first revision is allocated.\<close>

lemma append_before_touch:
  assumes "rows_ok j"
  defines "j1 \<equiv> entry_update (fst (append_slot j)) (\<lambda>_. chat_entry0) (snd (append_slot j))"
  defines "wraps \<equiv> cj_nextId j = 0"
  defines "j2 \<equiv> snd (allocateChatMessageId j1)"
  defines "j3 \<equiv> entry_update (fst (append_slot j)) (\<lambda>e. e\<lparr>ce_id := fst (allocateChatMessageId j1)\<rparr>) j2"
  shows "rows j3 = renewed wraps (survivors j) @ [chat_entry0\<lparr>ce_id := fresh_id j\<rparr>]"
    and "shape j3" "cj_count j3 = min 24 (cj_count j + 1)" "fst (append_slot j) = ring_index j3 (cj_count j3 - 1)"
    and "fresh_id j3 = next_id (fresh_id j)"
    and "cj_session j3 = (if wraps then advanceJournalSession (cj_session j) else cj_session j)"
    and "cj_unread j3 = (if wraps then 0 else cj_unread (snd (append_slot j)))"
proof -
  have "shape j" using assms(1) by (simp add: rows_ok_def)
  note slot = append_slot_facts [OF this]
  have r1: "rows j1 = survivors j @ [chat_entry0]"
    using rows_update_last [OF slot(1,2)] slot(3,4) by (simp add: j1_def)
  have j1: "shape j1" "cj_nextId j1 = cj_nextId j" "fresh_id j1 = fresh_id j" "cj_session j1 = cj_session j" "cj_unread j1 = cj_unread (snd (append_slot j))"
      "cj_count j1 = cj_count (snd (append_slot j))" "ring_index j1 = ring_index (snd (append_slot j))"
    using slot by (simp_all add: j1_def fresh_id_def)
  note alloc = allocateId_rows [OF j1(1), folded j2_def, unfolded j1(2), folded wraps_def]
  have r2: "rows j2 = renewed wraps (survivors j) @ [chat_entry0]"
    using alloc(3) by (simp add: r1 renewed_def clear_unread_def chat_entry0_def)
  have w: "fst (append_slot j) = ring_index j2 (cj_count j2 - 1)" "0 < cj_count j2"
    using slot alloc j1 by simp_all
  show "rows j3 = renewed wraps (survivors j) @ [chat_entry0\<lparr>ce_id := fresh_id j\<rparr>]"
    using rows_update_last [OF alloc(4) w(2)] alloc(1) by (simp add: j3_def w(1) r2 j1(3))
  show "shape j3" "cj_count j3 = min 24 (cj_count j + 1)" "fst (append_slot j) = ring_index j3 (cj_count j3 - 1)"
    "fresh_id j3 = next_id (fresh_id j)"
    "cj_session j3 = (if wraps then advanceJournalSession (cj_session j) else cj_session j)"
    "cj_unread j3 = (if wraps then 0 else cj_unread (snd (append_slot j)))"
    using alloc slot j1 w by (simp_all add: j3_def)
qed

text \<open>
  The effect of an append: the oldest row leaves a full journal, the others keep everything but their
  unread mark, which only a new generation clears, and the new row carries the next identifier.
\<close>

definition new_row :: "u32 \<Rightarrow> u32 \<Rightarrow> u32 \<Rightarrow> ChatEntry" where
  "new_row i revision session = touched revision session (chat_entry0\<lparr>ce_id := i\<rparr>)"

lemma renewed_append: "renewed b (xs @ ys) = renewed b xs @ renewed b ys"
  by (simp add: renewed_def)

lemma append_ok:
  assumes "journal_inv j"
  obtains i j' b revision where "appendChatJournal j = (i, j')" "journal_inv j'" "0 < cj_count j'"
    "i = ring_index j' (cj_count j' - 1)"
    "rows j' = renewed b (survivors j) @ [new_row (fresh_id j) revision (cj_session j')]"
proof -
  have ok: "rows_ok j" and badge: "cj_unread j = unread_rows (rows j)" using assms by (simp_all add: journal_inv_def)
  define w where "w = fst (append_slot j)"
  define j1 where "j1 = entry_update w (\<lambda>_. chat_entry0) (snd (append_slot j))"
  define j3 where "j3 = entry_update w (\<lambda>e. e\<lparr>ce_id := fst (allocateChatMessageId j1)\<rparr>) (snd (allocateChatMessageId j1))"
  define wraps where "wraps \<longleftrightarrow> cj_nextId j = 0"
  note b = append_before_touch [OF ok, folded w_def, folded j1_def, folded j3_def, folded wraps_def]
  note surv = unread_survivors [OF ok badge]
  have entry0: "\<not> ce_unread chat_entry0" "clear_unread (chat_entry0\<lparr>ce_id := x\<rparr>) = chat_entry0\<lparr>ce_id := x\<rparr>" for x
    by (simp_all add: chat_entry0_def clear_unread_def)
  have unread3: "unread_ok (cj_session j3) (rows j3)"
    using surv(1) entry0 by (auto simp: b(1,6) renewed_def unread_ok_def clear_unread_def)
  have ids3: "ids_ok (map ce_id (rows j3)) (fresh_id j3)"
    using ids_ok_append [OF ids_survivors [OF ok]] by (simp add: b(1,5))
  have "cj_session j3 \<noteq> 0" using ok by (simp add: b(6) rows_ok_def)
  with unread3 ids3 b(2) have ok3: "rows_ok j3" by (simp add: rows_ok_def)
  have badge3: "cj_unread j3 = unread_rows (rows j3)"
    using surv(2) entry0 by (auto simp: b(1,7) renewed_def unread_rows_def clear_unread_def filter_map comp_def)
  have last: "cj_count j3 - 1 < cj_count j3" "0 < cj_count j3" by (simp_all add: b(3))
  define j' where "j' = touchChatJournal w j3"
  note t = touch_rows [OF b(2) last(1), folded b(4) j'_def]
  have len: "length (renewed (cj_revision j3 + 1 = 0) (renewed wraps (survivors j))) = cj_count j3 - 1"
    using arg_cong [OF b(1), of length] by simp
  have eq: "appendChatJournal j = (w, j')"
    by (simp add: append_form w_def j1_def j3_def j'_def split_beta Let_def)
  show thesis
  proof (rule that [OF eq])
    show "journal_inv j'"
      using touch_ok [OF ok3 last(1), folded b(4) j'_def] badge3 by (simp add: journal_inv_def)
    show "0 < cj_count j'" "w = ring_index j' (cj_count j' - 1)" using t last b(4) by simp_all
    have one: "renewed c [chat_entry0\<lparr>ce_id := x\<rparr>] = [chat_entry0\<lparr>ce_id := x\<rparr>]" for c x by (simp add: renewed_def entry0)
    show "rows j' = renewed (cj_revision j3 + 1 = 0 \<or> wraps) (survivors j)
        @ [new_row (fresh_id j) (fst (allocateChatRevision j3)) (cj_session j')]"
      unfolding t(1) b(1) renewed_append one list_update_append nth_append len
      by (simp add: new_row_def) (simp add: renewed_def clear_unread_def)
  qed
qed

lemma update_ok:
  assumes "journal_inv j" "k < cj_count j"
    and "ce_id (f (rows j ! k)) = ce_id (rows j ! k)" "ce_unread (f (rows j ! k)) = ce_unread (rows j ! k)"
      "ce_unread (rows j ! k) \<Longrightarrow> ce_inbound (rows j ! k) \<Longrightarrow> ce_inbound (f (rows j ! k))" "ce_journalSession (f (rows j ! k)) = ce_journalSession (rows j ! k)"
  shows "journal_inv (entry_update (ring_index j k) f j)"
proof -
  have ok: "rows_ok j" and badge: "cj_unread j = unread_rows (rows j)" and sh: "shape j"
    using assms(1) by (simp_all add: journal_inv_def rows_ok_def)
  note r = rows_entry_update [OF sh assms(2), of f]
  have "rows j ! k \<in> set (rows j)" using assms(2) by simp
  then have "unread_ok (cj_session j) ((rows j)[k := f (rows j ! k)])"
    using ok assms(4-) by (intro unread_ok_update) (auto simp: rows_ok_def unread_ok_def)
  moreover have "map ce_id ((rows j)[k := f (rows j ! k)]) = map ce_id (rows j)"
    using assms(2,3) by (intro ids_update) simp_all
  moreover have "unread_rows ((rows j)[k := f (rows j ! k)]) = unread_rows (rows j)"
    using assms(2,4,5) ok by (intro unread_rows_update) (auto simp: rows_ok_def unread_ok_def)
  ultimately show ?thesis using ok badge sh by (simp add: journal_inv_def rows_ok_def r)
qed

end
