(* ===== verification/Journal_Runs.thy ===== *)
theory Journal_Runs
  imports Journal_Laws
begin

text \<open>
  All histories of the message journal: the calls of the device loop and of the companion, the
  invariant they keep, and the abstract journal they implement, a plain list of at most 24 messages.
\<close>

subsection \<open>Events\<close>

datatype JournalEvent =
    JReceive bool ReceivedMessage
  | JQueueDirect MessageRoute u32 u32 u32 bytes bytes
  | JQueueChannel u32 u8 u32 bytes
  | JDeliver u32 DeliveryEvent
  | JReset
  | JMarkAll
  | JMarkRead "bytes option"

fun journal_step :: "ChatJournal \<Rightarrow> JournalEvent \<Rightarrow> ChatJournal" where
  "journal_step j (JReceive inboxOpen m) = receiveMessage inboxOpen m j"
| "journal_step j (JQueueDirect route t ack now key str) = queueDirect route t ack now key str j"
| "journal_step j (JQueueChannel t slot now str) = queueChannel t slot now str j"
| "journal_step j (JDeliver now d) = deliverEvent now d j"
| "journal_step j JReset = resetPending j"
| "journal_step j JMarkAll = markChatJournalRead j"
| "journal_step j (JMarkRead payload) = snd (markMessagesRead payload j)"

definition journal_run :: "u32 \<Rightarrow> JournalEvent list \<Rightarrow> ChatJournal" where
  "journal_run random evs = foldl journal_step (journal_boot random) evs"

subsection \<open>The messages\<close>

text \<open>What a row says, without its bookkeeping.\<close>

definition strip :: "ChatEntry \<Rightarrow> ChatEntry" where
  "strip e = e\<lparr>ce_id := 0, ce_journalSession := 0, ce_revision := 0, ce_unread := False\<rparr>"

definition messages :: "ChatJournal \<Rightarrow> ChatEntry list" where
  "messages j = map strip (rows j)"

definition push :: "ChatEntry list \<Rightarrow> ChatEntry \<Rightarrow> ChatEntry list" where
  "push q e = (if length q < 24 then q else tl q) @ [e]"

definition update_newest :: "(ChatEntry \<Rightarrow> bool) \<Rightarrow> (ChatEntry \<Rightarrow> ChatEntry option) \<Rightarrow> ChatEntry list \<Rightarrow> ChatEntry list" where
  "update_newest p f q = (case find (\<lambda>k. p (q ! k)) (rev [0 ..< length q]) of None \<Rightarrow> q
     | Some k \<Rightarrow> (case f (q ! k) of None \<Rightarrow> q | Some e \<Rightarrow> q[k := e]))"

definition received_message :: "ReceivedMessage \<Rightarrow> ChatEntry" where
  "received_message m = (let known = (rm_route m = RouteFlood) in chat_entry0\<lparr>ce_inbound := True,
     ce_timestamp := rm_timestamp m, ce_kind := rm_kind m, ce_route := rm_route m, ce_state := Received,
     ce_authenticated := rm_senderAuthenticated m, ce_contactPublicKey := rm_publicKey m,
     ce_channelSlot := rm_channelSlot m, ce_senderName := rm_senderName m, ce_text := rm_text m,
     ce_repeaterCountKnown := known, ce_repeaterCount := (if known then rm_hopCount m else 0)\<rparr>)"

definition reset_message :: "ChatEntry \<Rightarrow> ChatEntry" where
  "reset_message e =
     (if ce_inbound e then e
      else if ce_kind e = KindChannel \<and> ce_state e = Sent then
        (if ce_repeatCountKnown e \<and> ce_repeatObservationOpen e then e\<lparr>ce_repeatObservationOpen := False\<rparr> else e)
      else if ce_state e = Sent then e\<lparr>ce_state := Unconfirmed, ce_repeaterCountKnown := False, ce_repeaterCount := 0\<rparr>
      else if ce_state e = Queued
      then forget_repeats (e\<lparr>ce_state := Cancelled, ce_repeaterCountKnown := False, ce_repeaterCount := 0\<rparr>)
      else e)"

fun message_step :: "ChatEntry list \<Rightarrow> JournalEvent \<Rightarrow> ChatEntry list" where
  "message_step q (JReceive inboxOpen m) = push q (received_message m)"
| "message_step q (JQueueDirect route t ack now key str) =
     push q (chat_entry0\<lparr>ce_inbound := False, ce_kind := KindDirect, ce_route := route, ce_state := Queued,
       ce_authenticated := True, ce_timestamp := t, ce_expectedAck := ack, ce_queuedAt := now,
       ce_contactPublicKey := key, ce_text := str\<rparr>)"
| "message_step q (JQueueChannel t slot now str) =
     push q (chat_entry0\<lparr>ce_inbound := False, ce_kind := KindChannel, ce_route := RouteFlood, ce_state := Queued,
       ce_authenticated := False, ce_timestamp := t, ce_channelSlot := slot, ce_queuedAt := now, ce_text := str\<rparr>)"
| "message_step q (JDeliver now d) =
     update_newest (if de_kind d = KindDirect then matches_delivery d else matches_channel d) (delivery_row now d) q"
| "message_step q JReset = map reset_message q"
| "message_step q JMarkAll = q"
| "message_step q (JMarkRead payload) = q"

lemma length_messages [simp]: "length (messages j) = cj_count j"
  by (simp add: messages_def)

lemma strip_simps [simp]: "strip (clear_unread e) = strip e" "strip (touched r s e) = strip e" "strip (strip e) = strip e"
  by (simp_all add: strip_def clear_unread_def touched_def)

lemma strip_new_row: "strip (new_row i r s) = chat_entry0"
  by (simp add: new_row_def) (simp add: strip_def chat_entry0_def)

lemma strip_renewed [simp]: "map strip (renewed b rs) = map strip rs"
  by (simp add: renewed_def comp_def)

lemma strip_survivors: "map strip (survivors j) @ [e] = push (messages j) e"
  by (simp add: push_def messages_def survivors_def map_tl)

lemma messages_update:
  "shape j \<Longrightarrow> k < cj_count j \<Longrightarrow> messages (entry_update (ring_index j k) f j) = (messages j)[k := strip (f (rows j ! k))]"
  by (simp add: messages_def rows_entry_update map_update)

lemma touch_inv:
  assumes "journal_inv j" "k < cj_count j"
  defines "j' \<equiv> touchChatJournal (ring_index j k) j"
  shows "journal_inv j'" "messages j' = messages j" "cj_count j' = cj_count j" "ring_index j' = ring_index j" "cj_start j' = cj_start j"
proof -
  have ok: "rows_ok j" "cj_unread j = unread_rows (rows j)" "shape j" using assms(1) by (simp_all add: journal_inv_def rows_ok_def)
  show "journal_inv j'" using touch_ok [OF ok(1) assms(2)] ok(2) by (simp add: j'_def journal_inv_def)
  note t = touch_rows [OF ok(3) assms(2), folded j'_def]
  have "messages j' = (messages j)[k := messages j ! k]"
    using t(1) assms(2) by (simp add: messages_def map_update) (metis assms(2) length_renewed length_rows nth_map strip_renewed)
  then show "messages j' = messages j" by simp
  show "cj_count j' = cj_count j" "ring_index j' = ring_index j" "cj_start j' = cj_start j" using t by simp_all
qed

subsection \<open>New rows\<close>

lemma append_inv:
  assumes "journal_inv j" and "appendChatJournal j = (i, j1)"
    and f: "\<And>e. ce_id (f e) = ce_id e" "\<And>e. ce_unread (f e) = ce_unread e" "\<And>e. ce_journalSession (f e) = ce_journalSession e"
  shows "journal_inv (entry_update i f j1)" and "\<exists>n r s. messages (entry_update i f j1) = push (messages j) (strip (f (new_row n r s)))"
proof -
  obtain b revision where a: "journal_inv j1" "0 < cj_count j1" "i = ring_index j1 (cj_count j1 - 1)"
    "rows j1 = renewed b (survivors j) @ [new_row (fresh_id j) revision (cj_session j1)]"
    using append_ok [OF assms(1)] assms(2) by (metis prod.inject)
  have sh: "shape j1" using a(1) by (simp add: journal_inv_def rows_ok_def)
  have last: "rows j1 ! (cj_count j1 - 1) = new_row (fresh_id j) revision (cj_session j1)"
    using a(4) length_rows [of j1] by (simp add: nth_append del: length_rows)
  show "journal_inv (entry_update i f j1)"
    unfolding a(3) using a(1,2) f last by (intro update_ok) (simp_all add: new_row_def touched_def chat_entry0_def)
  show "\<exists>n r s. messages (entry_update i f j1) = push (messages j) (strip (f (new_row n r s)))"
    using rows_update_last [OF sh a(2), of f] strip_survivors [of j]
    by (simp add: messages_def a(3)) (auto simp: a(4))
qed

lemma queue_steps:
  assumes "journal_inv j"
  shows "journal_inv (queueDirect route t ack now key str j)" "journal_inv (queueChannel t slot now str j)"
    "messages (queueDirect route t ack now key str j) = message_step (messages j) (JQueueDirect route t ack now key str)"
    "messages (queueChannel t slot now str j) = message_step (messages j) (JQueueChannel t slot now str)"
proof -
  obtain i j1 where a: "appendChatJournal j = (i, j1)" by (cases "appendChatJournal j")
  let ?d = "\<lambda>e. e\<lparr>ce_inbound := False, ce_kind := KindDirect, ce_route := route, ce_state := Queued,
           ce_authenticated := True, ce_timestamp := t, ce_expectedAck := ack, ce_queuedAt := now,
           ce_contactPublicKey := key, ce_text := str\<rparr>"
  let ?c = "\<lambda>e. e\<lparr>ce_inbound := False, ce_kind := KindChannel, ce_route := RouteFlood, ce_state := Queued,
           ce_authenticated := False, ce_timestamp := t, ce_channelSlot := slot, ce_queuedAt := now, ce_text := str\<rparr>"
  note d = append_inv [OF assms a, of ?d] and c = append_inv [OF assms a, of ?c]
  show "journal_inv (queueDirect route t ack now key str j)" using d(1) by (simp add: queueDirect_def a)
  show "journal_inv (queueChannel t slot now str j)" using c(1) by (simp add: queueChannel_def a)
  have "strip (?d (new_row n r s)) = ?d chat_entry0" "strip (?c (new_row n r s)) = ?c chat_entry0" for n r s
    by (simp_all add: strip_def new_row_def touched_def chat_entry0_def)
  then show "messages (queueDirect route t ack now key str j) = message_step (messages j) (JQueueDirect route t ack now key str)"
    "messages (queueChannel t slot now str j) = message_step (messages j) (JQueueChannel t slot now str)"
    using d(2) c(2) by (auto simp: queueDirect_def queueChannel_def a)
qed

text \<open>The mark of a new message: its row becomes unread and the badge counts it.\<close>

lemma mark_new:
  assumes "journal_inv j" "0 < cj_count j" "rows j = base @ [e]" "ce_inbound e" "\<not> ce_unread e" "ce_journalSession e = cj_session j"
  defines "j' \<equiv> entry_update (ring_index j (cj_count j - 1)) (\<lambda>e. e\<lparr>ce_unread := True\<rparr>) j"
  shows "cj_unread j' < 24" "journal_inv (j'\<lparr>cj_unread := cj_unread j' + 1\<rparr>)"
    "messages (j'\<lparr>cj_unread := cj_unread j' + 1\<rparr>) = messages j"
proof -
  have ok: "rows_ok j" "cj_unread j = unread_rows (rows j)" "shape j" using assms(1) by (simp_all add: journal_inv_def rows_ok_def)
  have r: "rows j' = base @ [e\<lparr>ce_unread := True\<rparr>]"
    using rows_update_last [OF ok(3) assms(2)] by (simp add: j'_def assms(3))
  have "length base < 24" using ok(3) arg_cong [OF assms(3), of length] by (simp add: shape_def)
  moreover have "unread_rows base \<le> length base" by (simp add: unread_rows_def)
  moreover have badge: "cj_unread j' = unread_rows base" using ok(2) assms(3,5) by (simp add: j'_def unread_rows_def)
  ultimately show "cj_unread j' < 24" by simp
  have "unread_ok (cj_session j) (rows j')" using ok(1) assms(3-6) by (auto simp: r rows_ok_def unread_ok_def)
  moreover have "ids_ok (map ce_id (rows j')) (fresh_id j)" using ok(1) by (simp add: r rows_ok_def assms(3))
  moreover have "fresh_id (j'\<lparr>cj_unread := x\<rparr>) = fresh_id j" for x by (simp add: j'_def fresh_id_def)
  ultimately show "journal_inv (j'\<lparr>cj_unread := cj_unread j' + 1\<rparr>)"
    using ok badge assms(4) by (simp add: journal_inv_def rows_ok_def) (simp add: j'_def [symmetric] r unread_rows_def, simp add: j'_def)
  show "messages (j'\<lparr>cj_unread := cj_unread j' + 1\<rparr>) = messages j"
    by (simp add: messages_def r assms(3)) (simp add: strip_def)
qed

definition received_row :: "ReceivedMessage \<Rightarrow> ChatEntry \<Rightarrow> ChatEntry" where
  "received_row m e = (let known = (rm_route m = RouteFlood) in e\<lparr>ce_inbound := True, ce_timestamp := rm_timestamp m,
     ce_kind := rm_kind m, ce_route := rm_route m, ce_state := Received, ce_authenticated := rm_senderAuthenticated m,
     ce_contactPublicKey := rm_publicKey m, ce_channelSlot := rm_channelSlot m, ce_senderName := rm_senderName m,
     ce_text := rm_text m, ce_repeaterCountKnown := known, ce_repeaterCount := (if known then rm_hopCount m else 0)\<rparr>)"

lemma received_row_fields:
  "ce_id (received_row m e) = ce_id e" "ce_unread (received_row m e) = ce_unread e" "ce_inbound (received_row m e)"
  "ce_journalSession (received_row m e) = ce_journalSession e"
  "strip (received_row m (new_row n r s)) = received_message m"
  by (simp_all add: received_row_def Let_def received_message_def strip_def new_row_def touched_def chat_entry0_def)

lemma entry_update_twice: "entry_update i f (entry_update i g j) = entry_update i (\<lambda>e. f (g e)) j"
  by (cases "i < length (cj_entries j)") (simp_all add: entry_update_def list_update_beyond)

lemma receive_form:
  assumes "appendChatJournal j = (i, j1)"
  shows "receiveMessage inboxOpen m j =
    (let j3 = entry_update i (\<lambda>e. e\<lparr>ce_unread := \<not> inboxOpen\<rparr>) (entry_update i (received_row m) j1)
     in if \<not> inboxOpen \<and> cj_unread j3 < 24 then j3\<lparr>cj_unread := cj_unread j3 + 1\<rparr> else j3)"
  by (simp add: receiveMessage_def assms(1) entry_update_twice received_row_def Let_def kInboxCapacity_def)

lemma receive_step:
  assumes "journal_inv j"
  shows "journal_inv (receiveMessage inboxOpen m j) \<and> messages (receiveMessage inboxOpen m j) = push (messages j) (received_message m)"
proof -
  obtain i j1 b revision where a: "appendChatJournal j = (i, j1)" "journal_inv j1" "0 < cj_count j1" "i = ring_index j1 (cj_count j1 - 1)"
    "rows j1 = renewed b (survivors j) @ [new_row (fresh_id j) revision (cj_session j1)]"
    by (rule append_ok [OF assms])
  define j2 where "j2 = entry_update i (received_row m) j1"
  note app = append_inv [OF assms a(1), of "received_row m", folded j2_def, unfolded received_row_fields, simplified]
  note form = receive_form [OF a(1), of inboxOpen m, folded j2_def]
  have sh: "shape j1" using a(2) by (simp add: journal_inv_def rows_ok_def)
  have r2: "rows j2 = renewed b (survivors j) @ [received_row m (new_row (fresh_id j) revision (cj_session j2))]"
    using rows_update_last [OF sh a(3)] by (simp add: j2_def a(4)) (simp add: a(5))
  have same: "cj_count j2 = cj_count j1" "ring_index j2 = ring_index j1" by (simp_all add: j2_def)
  let ?e = "received_row m (new_row (fresh_id j) revision (cj_session j2))"
  have e: "ce_inbound ?e" "\<not> ce_unread ?e" "ce_journalSession ?e = cj_session j2"
    by (simp_all add: received_row_fields new_row_def touched_def chat_entry0_def)
  show ?thesis
  proof (cases inboxOpen)
    case True
    have last: "rows j2 ! (cj_count j2 - 1) = ?e" using r2 length_rows [of j2] by (simp add: nth_append del: length_rows)
    have pos: "cj_count j2 - 1 < cj_count j2" using a(3) same by simp
    have nu: "\<not> ce_unread (rows j2 ! (cj_count j2 - 1))" using e last by simp
    have sh2: "shape j2" using app(1) by (simp add: journal_inv_def rows_ok_def)
    have "journal_inv (entry_update i (\<lambda>e. e\<lparr>ce_unread := False\<rparr>) j2)"
      using update_ok [OF app(1) pos, of "\<lambda>e. e\<lparr>ce_unread := False\<rparr>"] nu by (simp add: a(4) same)
    moreover have "strip (?e\<lparr>ce_unread := False\<rparr>) = received_message m"
      using received_row_fields(5) [of m "fresh_id j" revision "cj_session j2"] by (simp add: strip_def)
    then have "messages (entry_update i (\<lambda>e. e\<lparr>ce_unread := False\<rparr>) j2) = push (messages j) (received_message m)"
      using rows_update_last [OF sh2, of "\<lambda>e. e\<lparr>ce_unread := False\<rparr>"] a(3) strip_survivors [of j]
      by (simp add: messages_def a(4) same) (simp add: r2)
    ultimately show ?thesis unfolding form using True by (simp add: Let_def)
  next
    case False
    have "0 < cj_count j2" using a(3) same by simp
    from mark_new [OF app(1) this r2 e] app(2) show ?thesis
      unfolding form using False by (simp add: Let_def a(4) same)
  qed
qed

subsection \<open>Delivery events\<close>

lemma newest_list: "List.map_filter (chatJournalNewest j) [0 ..< cj_count j] = map (ring_index j) (rev [0 ..< cj_count j])"
proof -
  have "List.map_filter (chatJournalNewest j) xs = map (\<lambda>k. ring_index j (cj_count j - 1 - k)) xs"
    if "\<forall>k \<in> set xs. k < cj_count j" for xs
    using that by (induction xs) (simp_all add: map_filter_simps chatJournalNewest_def ring_index_def)
  then have "List.map_filter (chatJournalNewest j) [0 ..< cj_count j] = map (\<lambda>k. ring_index j (cj_count j - 1 - k)) [0 ..< cj_count j]"
    by simp
  also have "\<dots> = map (ring_index j) (rev [0 ..< cj_count j])"
    by (rule nth_equalityI) (simp_all add: rev_nth)
  finally show ?thesis .
qed

lemma find_map: "find p (map f xs) = map_option f (find (\<lambda>x. p (f x)) xs)"
  by (induction xs) simp_all

lemma find_cong: "(\<And>x. x \<in> set xs \<Longrightarrow> p x = q x) \<Longrightarrow> find p xs = find q xs"
  by (induction xs) simp_all

lemma find_newest_rows:
  assumes "\<And>e. p (strip e) = p e"
  shows "find_newest p j = map_option (ring_index j) (find (\<lambda>k. p (messages j ! k)) (rev [0 ..< length (messages j)]))"
  unfolding find_newest_def newest_list find_map
  by (rule arg_cong [where f = "map_option _"], simp, rule find_cong) (simp add: messages_def rows_nth assms)

lemma matches_strip: "matches_delivery d (strip e) = matches_delivery d e" "matches_channel d (strip e) = matches_channel d e"
  by (simp_all add: matches_delivery_def matches_channel_def pending_def strip_def)

lemma delivery_strip: "delivery_row now d (strip e) = map_option strip (delivery_row now d e)"
  by (simp add: delivery_row_def strip_def forget_repeats_def Let_def split: DeliveryState.split)

lemma delivery_fields:
  "delivery_row now d e = Some e' \<Longrightarrow> ce_id e' = ce_id e \<and> ce_inbound e' = ce_inbound e \<and> ce_unread e' = ce_unread e
     \<and> ce_journalSession e' = ce_journalSession e"
  by (auto simp: delivery_row_def forget_repeats_def Let_def split: DeliveryState.splits if_splits)

lemma deliver_step:
  assumes "journal_inv j"
  shows "journal_inv (deliverEvent now d j) \<and> messages (deliverEvent now d j) = message_step (messages j) (JDeliver now d)"
proof -
  define p where "p = (if de_kind d = KindDirect then matches_delivery d else matches_channel d)"
  define found where "found = find (\<lambda>k. p (messages j ! k)) (rev [0 ..< length (messages j)])"
  have "(if de_kind d = KindDirect then findChatByDelivery d j else findChannelJournalByDelivery d j) = find_newest p j"
    by (simp add: p_def findChatByDelivery_def findChannelJournalByDelivery_def)
  also have "\<dots> = map_option (ring_index j) found"
    unfolding found_def by (rule find_newest_rows) (simp add: p_def matches_strip)
  finally have form: "deliverEvent now d j = (case map_option (ring_index j) found of None \<Rightarrow> j
      | Some i \<Rightarrow> (case delivery_row now d (cj_entries j ! i) of None \<Rightarrow> j
          | Some e \<Rightarrow> touchChatJournal i (entry_update i (\<lambda>_. e) j)))" by (simp add: deliverEvent_def)
  have spec: "message_step (messages j) (JDeliver now d) = (case found of None \<Rightarrow> messages j
      | Some k \<Rightarrow> (case delivery_row now d (messages j ! k) of None \<Rightarrow> messages j | Some e \<Rightarrow> (messages j)[k := e]))"
    by (simp add: update_newest_def found_def p_def)
  show ?thesis
  proof (cases found)
    case (Some k)
    then have k: "k < cj_count j" by (auto simp: found_def find_Some_iff rev_nth)
    have row: "messages j ! k = strip (rows j ! k)" using k by (simp add: messages_def)
    have sh: "shape j" using assms by (simp add: journal_inv_def rows_ok_def)
    show ?thesis
    proof (cases "delivery_row now d (rows j ! k)")
      case (Some e)
      define j1 where "j1 = entry_update (ring_index j k) (\<lambda>_. e) j"
      have "journal_inv j1" unfolding j1_def using assms k delivery_fields [OF Some] by (intro update_ok) simp_all
      note t = touch_inv [OF this, of k]
      have "messages j1 = (messages j)[k := strip e]" using messages_update [OF sh k] by (simp add: j1_def)
      with t k show ?thesis using \<open>found = Some k\<close> Some
        by (simp add: form spec row delivery_strip del: message_step.simps) (simp add: rows_nth j1_def)
    qed (use \<open>found = Some k\<close> k assms in \<open>simp add: form spec row delivery_strip rows_nth del: message_step.simps\<close>)
  qed (use assms in \<open>simp add: form spec del: message_step.simps\<close>)
qed

subsection \<open>Sweeps over the rows\<close>

text \<open>A loop that handles each row of a list of distinct positions once, seen through a view of the journal.\<close>

lemma fold_positions:
  fixes view :: "ChatJournal \<Rightarrow> 'v list"
  assumes step: "\<And>m k j. k < n \<Longrightarrow> I (Suc m) j \<Longrightarrow> I m (op k j) \<and> view (op k j) = (view j)[k := h (view j ! k)]"
    and len: "\<And>m j. I m j \<Longrightarrow> length (view j) = n"
  shows "distinct ks \<Longrightarrow> set ks \<subseteq> {..< n} \<Longrightarrow> I (length ks) j \<Longrightarrow>
    I 0 (fold op ks j) \<and> view (fold op ks j) = map (\<lambda>k. if k \<in> set ks then h (view j ! k) else view j ! k) [0 ..< n]"
proof (induction ks arbitrary: j)
  case Nil
  have "length (view j) = n" using Nil.prems len by simp
  then show ?case using Nil.prems by (auto intro: nth_equalityI)
next
  case (Cons k ks)
  have k: "k < n" "k \<notin> set ks" and n: "length (view j) = n" using Cons.prems len by auto
  have one: "I (length ks) (op k j)" "view (op k j) = (view j)[k := h (view j ! k)]"
    using step [OF k(1)] Cons.prems by auto
  with Cons show ?case using k n by (auto intro!: nth_equalityI simp: nth_list_update)
qed

lemma reset_strip: "reset_message (strip e) = strip (reset_message e)"
  by (cases e) (simp add: reset_message_def strip_def forget_repeats_def)

lemma reset_row_step:
  assumes "journal_inv j" "k < cj_count j"
  shows "journal_inv (reset_row (ring_index j k) j)" "cj_count (reset_row (ring_index j k) j) = cj_count j"
    "cj_start (reset_row (ring_index j k) j) = cj_start j"
    "messages (reset_row (ring_index j k) j) = (messages j)[k := reset_message (messages j ! k)]"
proof -
  define i where "i = ring_index j k"
  define e where "e = rows j ! k"
  have e: "cj_entries j ! i = e" and row: "messages j ! k = strip e" using assms(2) by (simp_all add: i_def e_def rows_nth messages_def)
  have sh: "shape j" using assms(1) by (simp add: journal_inv_def rows_ok_def)
  have upd: "journal_inv (touchChatJournal i (entry_update i f j))"
      "cj_count (touchChatJournal i (entry_update i f j)) = cj_count j" "cj_start (touchChatJournal i (entry_update i f j)) = cj_start j"
      "messages (touchChatJournal i (entry_update i f j)) = (messages j)[k := strip (f e)]"
    if "ce_id (f e) = ce_id e" "ce_unread (f e) = ce_unread e" "ce_inbound (f e) = ce_inbound e" "ce_journalSession (f e) = ce_journalSession e" for f
  proof -
    have "journal_inv (entry_update i f j)" unfolding i_def using assms that by (intro update_ok) (simp_all add: e_def)
    note t = touch_inv [OF this, of k]
    show "journal_inv (touchChatJournal i (entry_update i f j))" "cj_count (touchChatJournal i (entry_update i f j)) = cj_count j"
      "cj_start (touchChatJournal i (entry_update i f j)) = cj_start j"
      "messages (touchChatJournal i (entry_update i f j)) = (messages j)[k := strip (f e)]"
      using t assms(2) messages_update [OF sh assms(2), of f] by (simp_all add: i_def e_def)
  qed
  have same: "(messages j)[k := strip e] = messages j" using row by (metis list_update_id)
  have form: "reset_row i j =
     (if ce_inbound e then j
      else if ce_kind e = KindChannel \<and> ce_state e = Sent then
        (if ce_repeatCountKnown e \<and> ce_repeatObservationOpen e
         then touchChatJournal i (entry_update i (\<lambda>e. e\<lparr>ce_repeatObservationOpen := False\<rparr>) j) else j)
      else if ce_state e = Sent then touchChatJournal i (entry_update i (\<lambda>e. e\<lparr>ce_state := Unconfirmed, ce_repeaterCountKnown := False,
                        ce_repeaterCount := 0\<rparr>) j)
      else if ce_state e = Queued then touchChatJournal i (entry_update i (\<lambda>e. forget_repeats (e\<lparr>ce_state := Cancelled,
                        ce_repeaterCountKnown := False, ce_repeaterCount := 0\<rparr>)) j)
      else j)"
    by (cases "ce_kind e") (simp_all add: reset_row_def e pending_def)
  show "journal_inv (reset_row (ring_index j k) j)" "cj_count (reset_row (ring_index j k) j) = cj_count j"
    "cj_start (reset_row (ring_index j k) j) = cj_start j"
    using assms(1) upd by (simp_all add: form forget_repeats_def flip: i_def)
  show "messages (reset_row (ring_index j k) j) = (messages j)[k := reset_message (messages j ! k)]"
    unfolding i_def [symmetric] form row reset_strip
    using upd same by (simp add: reset_message_def forget_repeats_def)
qed

lemma reset_step:
  assumes "journal_inv j"
  shows "journal_inv (resetPending j) \<and> messages (resetPending j) = map reset_message (messages j)"
proof -
  define n where "n = cj_count j"
  define sweep where "sweep k j = (case chatJournalNewest j (n - 1 - k) of None \<Rightarrow> j | Some i \<Rightarrow> reset_row i j)" for k j
  have newest: "sweep k a = reset_row (ring_index a k) a" if "k < n" "cj_count a = n" for k a
    using that by (simp add: sweep_def chatJournalNewest_def ring_index_def)
  have step: "(journal_inv (sweep k a) \<and> cj_count (sweep k a) = n) \<and> messages (sweep k a) = (messages a)[k := reset_message (messages a ! k)]"
    if "k < n" "journal_inv a \<and> cj_count a = n" for k a
    using reset_row_step [of a k] newest [of k a] that by simp
  have order: "[0 ..< n] = map (\<lambda>k. n - 1 - k) (rev [0 ..< n])" by (rule nth_equalityI) (simp_all add: rev_nth)
  have "resetPending j = fold sweep (rev [0 ..< n]) j"
    unfolding resetPending_def n_def [symmetric] by (subst order) (simp add: fold_map comp_def sweep_def [abs_def])
  moreover have "(journal_inv (fold sweep (rev [0 ..< n]) j) \<and> cj_count (fold sweep (rev [0 ..< n]) j) = n)
      \<and> messages (fold sweep (rev [0 ..< n]) j)
        = map (\<lambda>k. if k \<in> set (rev [0 ..< n]) then reset_message (messages j ! k) else messages j ! k) [0 ..< n]"
    using assms by (intro fold_positions [where I = "\<lambda>_ j. journal_inv j \<and> cj_count j = n"] step) (auto simp: n_def)
  moreover have "map (\<lambda>k. if k \<in> set (rev [0 ..< n]) then reset_message (messages j ! k) else messages j ! k) [0 ..< n]
      = map reset_message (messages j)"
    by (rule nth_equalityI) (simp_all add: n_def)
  ultimately show ?thesis by simp
qed

subsection \<open>Read marks\<close>

text \<open>A row without the stamp of its last revision.\<close>

definition unstamped :: "ChatEntry \<Rightarrow> ChatEntry" where
  "unstamped e = e\<lparr>ce_revision := 0, ce_journalSession := 0\<rparr>"

lemma unstamped_simps [simp]: "unstamped (touched r s e) = unstamped e" "unstamped (clear_unread e) = clear_unread (unstamped e)"
    "strip (unstamped e) = strip e" "clear_unread (clear_unread e) = clear_unread e" "ce_unread (unstamped e) = ce_unread e"
  by (simp_all add: unstamped_def touched_def clear_unread_def strip_def)

definition unstamped_rows :: "ChatJournal \<Rightarrow> ChatEntry list" where
  "unstamped_rows j = map unstamped (rows j)"

lemma unstamped_messages: "messages j = map strip (unstamped_rows j)"
  by (simp add: messages_def unstamped_rows_def comp_def)

lemma touch_plain:
  "cj_revision j + 1 \<noteq> 0 \<Longrightarrow> touchChatJournal i j =
     entry_update i (touched (cj_revision j + 1) (cj_session j)) (j\<lparr>cj_revision := cj_revision j + 1, cj_refreshDirty := True\<rparr>)"
  by (simp add: touchChatJournal_def allocateChatRevision_def Let_def touched_def [abs_def])

lemma clear_ok:
  assumes "rows_ok j" "k < cj_count j"
  shows "rows_ok (entry_update (ring_index j k) clear_unread j)"
proof -
  have sh: "shape j" using assms(1) by (simp add: rows_ok_def)
  have "map ce_id ((rows j)[k := clear_unread (rows j ! k)]) = map ce_id (rows j)"
    using assms(2) by (intro ids_update) (simp_all add: clear_unread_def)
  moreover have "unread_ok (cj_session j) ((rows j)[k := clear_unread (rows j ! k)])"
    using assms(1) by (intro unread_ok_update) (simp_all add: rows_ok_def clear_unread_def)
  ultimately show ?thesis using assms(1) by (simp add: rows_ok_def rows_entry_update [OF sh assms(2)])
qed

text \<open>Marking one row, and the loop that marks a batch, when the revisions left are enough for it.\<close>

lemma mark_one:
  assumes "rows_ok a" "k < cj_count a" "unat (cj_revision a) + 1 < 2 ^ 32"
  defines "b \<equiv> touchChatJournal (ring_index a k) (entry_update (ring_index a k) clear_unread a)"
  shows "rows_ok b" "cj_count b = cj_count a" "ring_index b = ring_index a" "cj_session b = cj_session a"
    "unat (cj_revision b) = unat (cj_revision a) + 1"
    "unstamped_rows b = (unstamped_rows a)[k := clear_unread (unstamped_rows a ! k)]"
proof -
  define c where "c = entry_update (ring_index a k) clear_unread a"
  have sh: "shape a" "shape c" using assms(1) by (simp_all add: c_def rows_ok_def)
  have c: "rows_ok c" "cj_count c = cj_count a" "ring_index c = ring_index a" "cj_session c = cj_session a" "cj_revision c = cj_revision a"
    using clear_ok [OF assms(1,2)] by (simp_all add: c_def)
  have rc: "rows c = (rows a)[k := clear_unread (rows a ! k)]"
    using rows_entry_update [OF sh(1) assms(2), of clear_unread] by (simp add: c_def)
  have succ: "unat (cj_revision a + 1) = unat (cj_revision a) + 1" using assms(3) by (simp add: unat_plus_small)
  then have "cj_revision c + 1 \<noteq> 0" using c(5) by (metis add_is_0 one_neq_zero unat_0)
  note plain = touch_plain [OF this, of "ring_index a k"]
  have b: "b = touchChatJournal (ring_index a k) c" by (simp add: b_def c_def)
  show "rows_ok b" using touch_ok(1) [OF c(1), of k] assms(2) c(2,3) by (simp add: b)
  have "rows b = (rows a)[k := touched (cj_revision c + 1) (cj_session c) (clear_unread (rows a ! k))]"
    using rows_entry_update [of "c\<lparr>cj_revision := cj_revision c + 1, cj_refreshDirty := True\<rparr>" k] assms(2) c(2,3) sh(2)
    by (simp add: b plain rc)
  then show "unstamped_rows b = (unstamped_rows a)[k := clear_unread (unstamped_rows a ! k)]"
    using assms(2) by (simp add: unstamped_rows_def map_update)
  show "cj_count b = cj_count a" "ring_index b = ring_index a" "cj_session b = cj_session a"
    "unat (cj_revision b) = unat (cj_revision a) + 1"
    using c(2-5) succ by (simp_all add: b plain)
qed

lemma mark_rows:
  assumes "rows_ok j" "distinct ks" "set ks \<subseteq> {..< cj_count j}" "unat (cj_revision j) + length ks < 2 ^ 32"
  defines "j' \<equiv> fold (\<lambda>i j'. touchChatJournal i (entry_update i clear_unread j')) (map (ring_index j) ks) j"
  shows "rows_ok j'" "cj_session j' = cj_session j"
    "unstamped_rows j' = map (\<lambda>k. if k \<in> set ks then clear_unread (unstamped_rows j ! k) else unstamped_rows j ! k) [0 ..< cj_count j]"
proof -
  define n R s where "n = cj_count j" and "R = ring_index j" and "s = cj_session j"
  define inv where "inv m j \<longleftrightarrow> rows_ok j \<and> cj_count j = n \<and> ring_index j = R \<and> cj_session j = s \<and> unat (cj_revision j) + m < 2 ^ 32"
    for m :: nat and j
  define mark_row where "mark_row k j' = touchChatJournal (R k) (entry_update (R k) clear_unread j')" for k j'
  have step: "inv m (mark_row k a) \<and> unstamped_rows (mark_row k a) = (unstamped_rows a)[k := clear_unread (unstamped_rows a ! k)]"
    if "k < n" "inv (Suc m) a" for m k a
    using mark_one [of a k] that by (auto simp: inv_def mark_row_def)
  have "inv (length ks) j" using assms(1,4) by (simp add: inv_def n_def R_def s_def)
  from fold_positions [where I = inv and view = unstamped_rows, OF step _ assms(2) _ this]
  have "inv 0 (fold mark_row ks j) \<and> unstamped_rows (fold mark_row ks j)
      = map (\<lambda>k. if k \<in> set ks then clear_unread (unstamped_rows j ! k) else unstamped_rows j ! k) [0 ..< n]"
    using assms(3) by (simp add: n_def [symmetric]) (simp add: inv_def unstamped_rows_def)
  moreover have "j' = fold mark_row ks j" by (simp add: j'_def mark_row_def [abs_def] R_def fold_map comp_def)
  ultimately show "rows_ok j'" "cj_session j' = cj_session j"
    "unstamped_rows j' = map (\<lambda>k. if k \<in> set ks then clear_unread (unstamped_rows j ! k) else unstamped_rows j ! k) [0 ..< cj_count j]"
    by (simp_all add: inv_def n_def s_def)
qed

end
