(* ===== verification/Journal_Read.thy ===== *)
theory Journal_Read
  imports Journal_Runs
begin

text \<open>
  Read acknowledgements on the journal: a batch is marked in one generation, a request is either
  refused without any change or marks exactly the rows it names, and the claims over all histories.
\<close>

subsection \<open>A batch\<close>

lemma batch_room:
  assumes "m \<le> 24" "\<not> revisionBatchRequiresGenerationAdvance r (of_nat m)"
  shows "unat r + m < 2 ^ 32"
proof (cases "m = 0")
  case False
  have m: "unat (ucast (of_nat m :: u8) :: u32) = m"
    using assms(1) by (simp add: unsigned_ucast_eq unat_of_nat take_bit_nat_eq_self)
  have "(of_nat m :: u8) \<noteq> 0" using assms(1) False by (simp add: word_unat_eq_iff unat_of_nat)
  then have "r \<le> 0xFFFFFFFF - ucast (of_nat m :: u8)" using assms(2) by (simp add: revisionBatchRequiresGenerationAdvance_def not_less)
  then have "unat r \<le> unat (0xFFFFFFFF - ucast (of_nat m :: u8) :: u32)" by (simp add: word_le_nat_alt)
  also have "\<dots> = 4294967295 - m" using m assms(1) by (subst unat_sub) (simp_all add: word_le_nat_alt)
  finally show ?thesis using assms(1) by simp
qed (use unat32_lt [of r] in simp)

definition due_rows :: "ChatJournal \<Rightarrow> nat list \<Rightarrow> nat list" where
  "due_rows j ks = filter (\<lambda>k. ce_inbound (rows j ! k) \<and> ce_unread (rows j ! k)) ks"

lemma apply_plan:
  assumes "journal_inv j" "distinct ks" "set ks \<subseteq> {..< cj_count j}"
  defines "due \<equiv> due_rows j ks"
  defines "renews \<equiv> revisionBatchRequiresGenerationAdvance (cj_revision j) (of_nat (length due))"
  obtains j' where "applyChatJournalReadPlan (Some (map (ring_index j) ks)) j = (length due, j')" "journal_inv j'"
    "cj_session j' = (if renews then advanceJournalSession (cj_session j) else cj_session j)"
    "unstamped_rows j' = map (\<lambda>k. if renews \<or> k \<in> set due then clear_unread (unstamped_rows j ! k) else unstamped_rows j ! k)
       [0 ..< cj_count j]"
proof -
  have ok: "rows_ok j" "shape j" using assms(1) by (simp_all add: journal_inv_def rows_ok_def)
  have "length ks = card (set ks)" using assms(2) by (simp add: distinct_card)
  also have "\<dots> \<le> cj_count j" using assms(3) card_mono [of "{..< cj_count j}" "set ks"] by simp
  finally have len: "length ks \<le> 24" using ok(2) by (simp add: shape_def)
  have due: "distinct due" "set due \<subseteq> {..< cj_count j}" "length due \<le> 24"
    using assms(2,3) le_trans [OF length_filter_le len] by (auto simp: due_def due_rows_def)
  define j0 where "j0 = (if renews then advanceChatJournalGeneration j else j)"
  note adv = advance_rows [OF ok(2)]
  have j0: "cj_count j0 = cj_count j" "ring_index j0 = ring_index j"
      "cj_session j0 = (if renews then advanceJournalSession (cj_session j) else cj_session j)"
      "unstamped_rows j0 = (if renews then map clear_unread (unstamped_rows j) else unstamped_rows j)"
    using adv by (simp_all add: j0_def unstamped_rows_def comp_def)
  have "fresh_id (advanceChatJournalGeneration j) = fresh_id j" using adv(4) by (simp add: fresh_id_def)
  then have ok0: "rows_ok j0" using ok adv by (simp add: j0_def rows_ok_def clear_unread_def comp_def)
  have "unat (cj_revision j0) + length due < 2 ^ 32"
    using batch_room [OF due(3), of "cj_revision j"] due(3) adv(6) by (cases renews) (simp_all add: j0_def renews_def)
  from mark_rows [OF ok0 due(1) _ this] due(2) j0(1,2)
  obtain j1 where j1: "j1 = fold (\<lambda>i j'. touchChatJournal i (entry_update i clear_unread j')) (map (ring_index j) due) j0"
    "rows_ok j1" "cj_session j1 = cj_session j0"
    "unstamped_rows j1 = map (\<lambda>k. if k \<in> set due then clear_unread (unstamped_rows j0 ! k) else unstamped_rows j0 ! k) [0 ..< cj_count j]"
    by simp
  have should: "filter (\<lambda>i. i < kInboxCapacity \<and> ce_inbound (cj_entries j ! i) \<and> ce_unread (cj_entries j ! i)) (map (ring_index j) ks)
      = map (ring_index j) due"
  proof -
    have "filter (\<lambda>k. ce_inbound (cj_entries j ! ring_index j k) \<and> ce_unread (cj_entries j ! ring_index j k)) ks = due"
      unfolding due_def due_rows_def using assms(3) by (intro filter_cong) (auto simp: rows_nth)
    then show ?thesis by (simp add: filter_map comp_def kInboxCapacity_def)
  qed
  show thesis
  proof (rule that)
    show "applyChatJournalReadPlan (Some (map (ring_index j) ks)) j = (length due, j1\<lparr>cj_unread := recount j1\<rparr>)"
      unfolding applyChatJournalReadPlan_def option.case Let_def should
      using len by (simp add: kInboxCapacity_def j1(1) j0_def renews_def)
    have "rows_ok (j1\<lparr>cj_unread := recount j1\<rparr>)" using j1(2) by (auto simp: rows_ok_def fresh_id_def)
    then show "journal_inv (j1\<lparr>cj_unread := recount j1\<rparr>)" by (simp add: journal_inv_def recount_rows unread_rows_def)
    show "cj_session (j1\<lparr>cj_unread := recount j1\<rparr>) = (if renews then advanceJournalSession (cj_session j) else cj_session j)"
      using j1(3) j0(3) by simp
    show "unstamped_rows (j1\<lparr>cj_unread := recount j1\<rparr>) = map (\<lambda>k. if renews \<or> k \<in> set due then clear_unread (unstamped_rows j ! k)
        else unstamped_rows j ! k) [0 ..< cj_count j]"
      using j1(4) by (simp add: unstamped_rows_def [of "j1\<lparr>cj_unread := recount j1\<rparr>"] flip: unstamped_rows_def [of j1])
        (simp add: j0(4), simp add: unstamped_rows_def)
  qed
qed

text \<open>What is marked depends on the identifiers alone.\<close>

lemma distinct_ids:
  assumes "journal_inv j"
  shows "distinct (map ce_id (rows j))" "0 \<notin> ce_id ` set (rows j)" "cj_count j \<le> 24"
  using assms ids_ok_distinct [of "map ce_id (rows j)" "fresh_id j"] by (auto simp: journal_inv_def rows_ok_def shape_def)

lemma unread_inbound: "journal_inv j \<Longrightarrow> k < cj_count j \<Longrightarrow> ce_unread (rows j ! k) \<Longrightarrow> ce_inbound (rows j ! k)"
  by (auto simp: journal_inv_def rows_ok_def unread_ok_def)

definition named_rows :: "u32 list \<Rightarrow> ChatEntry list \<Rightarrow> ChatEntry list" where
  "named_rows ids rs = filter (\<lambda>e. ce_unread e \<and> ce_id e \<in> set ids) rs"

lemma due_named:
  assumes "journal_inv j" "set ks \<subseteq> {..< cj_count j}" "map (\<lambda>k. ce_id (rows j ! k)) ks = ids" "distinct ids"
  shows "set (due_rows j ks) = {k. k < cj_count j \<and> ce_unread (rows j ! k) \<and> ce_id (rows j ! k) \<in> set ids}"
    and "length (due_rows j ks) = length (named_rows ids (rows j))" "distinct ks"
proof -
  have same: "k = l" if "k < cj_count j" "l < cj_count j" "ce_id (rows j ! k) = ce_id (rows j ! l)" for k l
    using distinct_ids(1) [OF assms(1)] that by (auto simp: distinct_conv_nth)
  have mem: "k \<in> set ks \<longleftrightarrow> ce_id (rows j ! k) \<in> set ids" if "k < cj_count j" for k
    using assms(2,3) that same by (auto simp flip: assms(3))
  then show set: "set (due_rows j ks) = {k. k < cj_count j \<and> ce_unread (rows j ! k) \<and> ce_id (rows j ! k) \<in> set ids}"
    using assms(2) unread_inbound [OF assms(1)] by (auto simp: due_rows_def)
  show dist: "distinct ks" using assms(3,4) by (metis distinct_map)
  have "distinct (due_rows j ks)" using dist by (simp add: due_rows_def)
  then have "length (due_rows j ks) = card (set (due_rows j ks))" by (rule distinct_card [symmetric])
  also have "\<dots> = length (named_rows ids (rows j))" by (simp add: set named_rows_def length_filter_conv_card)
  finally show "length (due_rows j ks) = length (named_rows ids (rows j))" .
qed

text \<open>The rows after a request for \<open>ids\<close> was applied.\<close>

definition acknowledged :: "bool \<Rightarrow> u32 list \<Rightarrow> ChatEntry list \<Rightarrow> ChatEntry list" where
  "acknowledged renews ids rs = map (\<lambda>e. if renews \<or> ce_id e \<in> set ids then clear_unread (unstamped e) else unstamped e) rs"

lemma apply_named:
  assumes "journal_inv j" "set ks \<subseteq> {..< cj_count j}" "map (\<lambda>k. ce_id (rows j ! k)) ks = ids" "distinct ids"
  defines "renews \<equiv> revisionBatchRequiresGenerationAdvance (cj_revision j) (of_nat (length (named_rows ids (rows j))))"
  obtains j' where "applyChatJournalReadPlan (Some (map (ring_index j) ks)) j = (length (named_rows ids (rows j)), j')" "journal_inv j'"
    "cj_session j' = (if renews then advanceJournalSession (cj_session j) else cj_session j)"
    "unstamped_rows j' = acknowledged renews ids (rows j)"
proof -
  note due = due_named [OF assms(1-4)]
  obtain j' where j': "applyChatJournalReadPlan (Some (map (ring_index j) ks)) j = (length (due_rows j ks), j')" "journal_inv j'"
    "cj_session j' = (if renews then advanceJournalSession (cj_session j) else cj_session j)"
    "unstamped_rows j' = map (\<lambda>k. if renews \<or> k \<in> set (due_rows j ks) then clear_unread (unstamped_rows j ! k) else unstamped_rows j ! k)
       [0 ..< cj_count j]"
    using apply_plan [OF assms(1) due(3) assms(2)] unfolding renews_def due(2) by blast
  have already: "clear_unread (unstamped e) = unstamped e" if "\<not> ce_unread e" for e
    using that by (simp add: clear_unread_def unstamped_def)
  have "unstamped_rows j' = acknowledged renews ids (rows j)"
    unfolding j'(4) acknowledged_def
    by (rule nth_equalityI) (auto simp: due(1) already unstamped_rows_def)
  with j' show thesis using that due(2) by simp
qed

subsection \<open>The acknowledgement request\<close>

definition open_ids :: "ChatJournal \<Rightarrow> u32 set" where
  "open_ids j = ce_id ` {e \<in> set (rows j). ce_inbound e \<and> ce_journalSession e = cj_session j}"

lemma visible_rows:
  assumes "i \<in> set (visible j)"
  obtains k where "k < cj_count j" "i = ring_index j k" "cj_entries j ! i = rows j ! k" "ce_journalSession (rows j ! k) = cj_session j"
  using assms by (auto simp: visible_def in_ring rows_nth)

lemma visible_complete:
  "k < cj_count j \<Longrightarrow> ce_journalSession (rows j ! k) = cj_session j \<Longrightarrow> ring_index j k \<in> set (visible j)"
  by (auto simp: visible_def in_ring rows_nth)

lemma plan_ids_complete:
  assumes "\<And>x. x \<in> set ids \<Longrightarrow> \<exists>r \<in> set records. rr_messageId r = x \<and> rr_inbound r" "distinct (map rr_messageId records)"
  shows "\<exists>p. plan_ids records ids out = Inr p"
  using assms(1)
proof (induction ids arbitrary: out)
  case (Cons x ids)
  obtain r where r: "r \<in> set records" "rr_messageId r = x" "rr_inbound r" using Cons.prems [of x] by auto
  obtain k where k: "find_record 0 records x = Some k"
    using r find_record_complete [of 0 records x] by (cases "find_record 0 records x") auto
  then have "k < length records" "rr_messageId (records ! k) = x" using find_record_sound [OF k] by simp_all
  moreover obtain l where "l < length records" "records ! l = r" using r(1) by (auto simp: in_set_conv_nth)
  ultimately have "records ! k = r" using assms(2) r(2) by (auto simp: distinct_conv_nth)
  then show ?case using Cons.IH Cons.prems k r(3) by simp
qed simp

lemma visible_entries: "map (\<lambda>i. cj_entries j ! i) (visible j) = filter (\<lambda>e. ce_journalSession e = cj_session j) (rows j)"
  by (simp add: visible_def rows_def filter_map comp_def)

lemma request_plan:
  assumes "journal_inv j" "valid_request c" "rc_journalSession c = cj_session j"
  defines "records \<equiv> map (read_record j) (visible j)"
  shows "read_plan (cj_session j) c (Some records)
      = plan_ids records (rc_messageIds c) \<lparr>rp_recordIndexes = [], rp_markedCount = 0, rp_unchangedCount = 0\<rparr>"
    and "(\<exists>p. plan_ids records (rc_messageIds c) out = Inr p) \<longleftrightarrow> set (rc_messageIds c) \<subseteq> open_ids j"
proof -
  have "cj_session j \<noteq> 0" using assms(1) by (simp add: journal_inv_def rows_ok_def)
  moreover have "length records \<le> 24"
    using le_trans [OF length_filter_le, of "rows j" 24] distinct_ids(3) [OF assms(1)] arg_cong [OF visible_entries [of j], of length]
    by (simp add: records_def)
  ultimately show "read_plan (cj_session j) c (Some records)
      = plan_ids records (rc_messageIds c) \<lparr>rp_recordIndexes = [], rp_markedCount = 0, rp_unchangedCount = 0\<rparr>"
    using assms(2,3) by (simp add: read_plan_def kMaximumMessageIds_def valid_request_def)
  have ids: "map rr_messageId records = map ce_id (filter (\<lambda>e. ce_journalSession e = cj_session j) (rows j))"
    by (simp add: records_def read_record_def Let_def comp_def flip: visible_entries)
  then have dist: "distinct (map rr_messageId records)" using distinct_ids(1) [OF assms(1)] by (simp add: distinct_map_filter)
  have "open_ids j = ce_id ` {e \<in> set (filter (\<lambda>e. ce_journalSession e = cj_session j) (rows j)). ce_inbound e}"
    unfolding open_ids_def by (rule arg_cong [where f = "image ce_id"]) auto
  also have "\<dots> = ce_id ` {e \<in> (\<lambda>i. cj_entries j ! i) ` set (visible j). ce_inbound e}"
    by (simp only: set_map flip: visible_entries)
  also have "\<dots> = rr_messageId ` {r \<in> set records. rr_inbound r}"
    by (force simp: records_def read_record_def Let_def)
  finally have opened: "open_ids j = rr_messageId ` {r \<in> set records. rr_inbound r}" .
  show "(\<exists>p. plan_ids records (rc_messageIds c) out = Inr p) \<longleftrightarrow> set (rc_messageIds c) \<subseteq> open_ids j"
  proof
    assume "\<exists>p. plan_ids records (rc_messageIds c) out = Inr p"
    then obtain ks where ks: "list_all2 (\<lambda>x k. k < length records \<and> rr_messageId (records ! k) = x \<and> rr_inbound (records ! k)) (rc_messageIds c) ks"
      using plan_ids_sound by blast
    show "set (rc_messageIds c) \<subseteq> open_ids j"
    proof
      fix x assume "x \<in> set (rc_messageIds c)"
      then obtain i where "i < length (rc_messageIds c)" "rc_messageIds c ! i = x" by (auto simp: in_set_conv_nth)
      with list_all2_nthD [OF ks, of i] show "x \<in> open_ids j"
        unfolding opened by (intro image_eqI [of _ _ "records ! (ks ! i)"]) auto
    qed
  next
    assume "set (rc_messageIds c) \<subseteq> open_ids j"
    then show "\<exists>p. plan_ids records (rc_messageIds c) out = Inr p"
      by (intro plan_ids_complete dist) (auto simp: opened)
  qed
qed

text \<open>The places in the ring that a plan selects carry the requested identifiers.\<close>

lemma selected_rows:
  assumes "list_all2 (\<lambda>x k. k < length (visible j) \<and> rr_messageId (map (read_record j) (visible j) ! k) = x
      \<and> rr_inbound (map (read_record j) (visible j) ! k)) ids ks"
  obtains qs where "map (\<lambda>k. visible j ! k) ks = map (ring_index j) qs" "set qs \<subseteq> {..< cj_count j}"
    "map (\<lambda>q. ce_id (rows j ! q)) qs = ids"
    "length (filter (\<lambda>k. \<not> rr_unread (map (read_record j) (visible j) ! k)) ks) + length (due_rows j qs) = length ids"
  using assms
proof (induction ids ks arbitrary: thesis rule: list_all2_induct)
  case Nil
  then show ?case by (simp add: due_rows_def)
next
  case (Cons x ids k ks)
  then have k: "k < length (visible j)" and named: "rr_messageId (map (read_record j) (visible j) ! k) = x"
    "rr_inbound (map (read_record j) (visible j) ! k)" by blast+
  from k have "visible j ! k \<in> set (visible j)" by simp
  then obtain q where q: "q < cj_count j" "visible j ! k = ring_index j q" "cj_entries j ! (visible j ! k) = rows j ! q"
    by (rule visible_rows)
  obtain qs where qs: "map (\<lambda>k. visible j ! k) ks = map (ring_index j) qs" "set qs \<subseteq> {..< cj_count j}"
    "map (\<lambda>q. ce_id (rows j ! q)) qs = ids"
    "length (filter (\<lambda>k. \<not> rr_unread (map (read_record j) (visible j) ! k)) ks) + length (due_rows j qs) = length ids"
    by (rule Cons.IH)
  have rr: "rr_messageId (map (read_record j) (visible j) ! k) = ce_id (rows j ! q)"
    "rr_inbound (map (read_record j) (visible j) ! k) = ce_inbound (rows j ! q)"
    "rr_unread (map (read_record j) (visible j) ! k) = ce_unread (rows j ! q)"
    using k q by (simp_all add: read_record_def Let_def)
  show ?case
    by (rule Cons.prems(1) [of "q # qs"]) (use q(1,2) qs rr named in \<open>auto simp: due_rows_def\<close>)
qed

text \<open>What a parsed request does to the journal: acknowledged as a whole, or refused without a trace.\<close>

definition read_outcome :: "ReadCommand \<Rightarrow> ChatJournal \<Rightarrow> ReadResponse \<times> ChatJournal \<Rightarrow> bool" where
  "read_outcome c j out \<longleftrightarrow>
     (let ids = rc_messageIds c; marked = length (named_rows ids (rows j));
          renews = revisionBatchRequiresGenerationAdvance (cj_revision j) (of_nat marked)
      in if rc_journalSession c = cj_session j \<and> set ids \<subseteq> open_ids j
         then fst out = ReadAccepted marked (length ids - marked)
           \<and> unstamped_rows (snd out) = acknowledged renews ids (rows j)
           \<and> cj_session (snd out) = (if renews then advanceJournalSession (cj_session j) else cj_session j)
         else (\<exists>err. out = (ReadRejected err, j)))"

lemma accepted_request:
  assumes "journal_inv j" "valid_request c" "rc_journalSession c = cj_session j" "read_parseCommand payload = Inr c"
    and plan: "plan_ids (map (read_record j) (visible j)) (rc_messageIds c)
      \<lparr>rp_recordIndexes = [], rp_markedCount = 0, rp_unchangedCount = 0\<rparr> = Inr p"
  shows "read_outcome c j (markMessagesRead payload j) \<and> journal_inv (snd (markMessagesRead payload j))"
proof -
  define ids where "ids = rc_messageIds c"
  obtain ks where ks: "rp_recordIndexes p = ks" "list_all2 (\<lambda>x k. k < length (visible j) \<and> rr_messageId (map (read_record j) (visible j) ! k) = x
      \<and> rr_inbound (map (read_record j) (visible j) ! k)) ids ks"
      "rp_unchangedCount p = length (filter (\<lambda>k. \<not> rr_unread (map (read_record j) (visible j) ! k)) ks)"
    using plan_ids_sound [OF plan] by (auto simp: ids_def)
  obtain qs where qs: "map (\<lambda>k. visible j ! k) ks = map (ring_index j) qs" "set qs \<subseteq> {..< cj_count j}"
      "map (\<lambda>q. ce_id (rows j ! q)) qs = ids" "rp_unchangedCount p + length (due_rows j qs) = length ids"
    using selected_rows [OF ks(2)] unfolding ks(3) by blast
  have dist: "distinct ids" using assms(2) by (simp add: valid_request_def ids_def)
  obtain j' where j': "applyChatJournalReadPlan (Some (map (ring_index j) qs)) j = (length (named_rows ids (rows j)), j')" "journal_inv j'"
      "cj_session j' = (if revisionBatchRequiresGenerationAdvance (cj_revision j) (of_nat (length (named_rows ids (rows j))))
         then advanceJournalSession (cj_session j) else cj_session j)"
      "unstamped_rows j' = acknowledged (revisionBatchRequiresGenerationAdvance (cj_revision j) (of_nat (length (named_rows ids (rows j)))))
         ids (rows j)"
    by (rule apply_named [OF assms(1) qs(2,3) dist])
  have "rp_unchangedCount p = length ids - length (named_rows ids (rows j))"
    using qs(4) due_named(2) [OF assms(1) qs(2,3) dist] by simp
  then have "markMessagesRead payload j = (ReadAccepted (length (named_rows ids (rows j))) (length ids - length (named_rows ids (rows j))), j')"
    using assms(4) request_plan(1) [OF assms(1-3)] plan qs(1) j'(1) by (simp add: markMessagesRead_def ks(1) Let_def)
  moreover have "set ids \<subseteq> open_ids j" using request_plan(2) [OF assms(1-3)] plan by (auto simp: ids_def)
  ultimately show ?thesis using j'(2-4) assms(3) by (simp add: read_outcome_def ids_def Let_def)
qed

lemma request_step:
  assumes "journal_inv j"
  shows "case read_parseCommand payload of Inl _ \<Rightarrow> markMessagesRead payload j = (ReadRejected ''request_rejected'', j)
      | Inr c \<Rightarrow> read_outcome c j (markMessagesRead payload j)"
    and "journal_inv (snd (markMessagesRead payload j))"
proof -
  let ?out = "\<lparr>rp_recordIndexes = [], rp_markedCount = 0, rp_unchangedCount = 0\<rparr>"
  have outcome: "read_outcome c j (markMessagesRead payload j) \<and> journal_inv (snd (markMessagesRead payload j))"
    if parsed: "read_parseCommand payload = Inr c" for c
  proof -
    have valid: "valid_request c" using parsed read_parse_valid by (cases payload) (auto simp: read_parseCommand_def)
    consider "rc_journalSession c \<noteq> cj_session j"
      | p where "rc_journalSession c = cj_session j" "plan_ids (map (read_record j) (visible j)) (rc_messageIds c) ?out = Inr p"
      | e where "rc_journalSession c = cj_session j" "plan_ids (map (read_record j) (visible j)) (rc_messageIds c) ?out = Inl e"
      by (cases "plan_ids (map (read_record j) (visible j)) (rc_messageIds c) ?out") auto
    then show ?thesis
    proof cases
      case 1
      then show ?thesis using assms parsed by (simp add: markMessagesRead_def read_plan_def read_outcome_def Let_def)
    next
      case 2
      then show ?thesis using accepted_request [OF assms valid _ parsed] by simp
    next
      case 3
      then have "\<not> set (rc_messageIds c) \<subseteq> open_ids j" using request_plan(2) [OF assms valid, of ?out] by auto
      then show ?thesis using 3 assms parsed request_plan(1) [OF assms valid]
        by (simp add: markMessagesRead_def read_outcome_def Let_def)
    qed
  qed
  show "case read_parseCommand payload of Inl _ \<Rightarrow> markMessagesRead payload j = (ReadRejected ''request_rejected'', j)
      | Inr c \<Rightarrow> read_outcome c j (markMessagesRead payload j)"
    using outcome by (simp add: markMessagesRead_def split: sum.split)
  show "journal_inv (snd (markMessagesRead payload j))"
    using outcome assms by (cases "read_parseCommand payload") (simp_all add: markMessagesRead_def)
qed

lemma strip_acknowledged: "map strip (acknowledged b ids rs) = map strip rs"
  by (simp add: acknowledged_def)

lemma request_messages:
  assumes "journal_inv j"
  shows "messages (snd (markMessagesRead payload j)) = messages j"
proof (cases "read_parseCommand payload")
  case (Inr c)
  then have "read_outcome c j (markMessagesRead payload j)" using request_step(1) [OF assms, of payload] by simp
  then show ?thesis
    by (auto simp: read_outcome_def Let_def unstamped_messages strip_acknowledged split: if_splits)
      (simp_all add: messages_def flip: unstamped_messages)
qed (simp add: markMessagesRead_def)

lemma mark_all_step:
  assumes "journal_inv j"
  shows "journal_inv (markChatJournalRead j) \<and> messages (markChatJournalRead j) = messages j"
proof -
  define ks where "ks = filter (\<lambda>k. ce_inbound (rows j ! k) \<and> ce_unread (rows j ! k)) [0 ..< cj_count j]"
  have "filter (\<lambda>i. ce_inbound (cj_entries j ! i) \<and> ce_unread (cj_entries j ! i)) (ring j) = map (ring_index j) ks"
    unfolding ks_def ring_def filter_map by (intro arg_cong [where f = "map _"] filter_cong) (auto simp: rows_nth)
  moreover have ks: "distinct ks" "set ks \<subseteq> {..< cj_count j}" by (auto simp: ks_def)
  obtain m j' b where j': "applyChatJournalReadPlan (Some (map (ring_index j) ks)) j = (m, j')" "journal_inv j'"
      "unstamped_rows j' = map (\<lambda>k. if b k then clear_unread (unstamped_rows j ! k) else unstamped_rows j ! k) [0 ..< cj_count j]"
    by (rule apply_plan [OF assms ks])
  moreover have "messages j' = messages j"
    unfolding messages_def [of j]
    using j'(3) by (intro nth_equalityI) (auto simp: unstamped_messages unstamped_rows_def)
  ultimately show ?thesis using j'(1,2) by (simp add: markChatJournalRead_def)
qed

subsection \<open>All histories\<close>

lemma journal_event:
  assumes "journal_inv j"
  shows "journal_inv (journal_step j ev) \<and> messages (journal_step j ev) = message_step (messages j) ev"
proof (cases ev)
  case (JDeliver now d)
  then show ?thesis using deliver_step [OF assms, of now d] by (simp del: message_step.simps)
qed (use queue_steps [OF assms] receive_step [OF assms] reset_step [OF assms] mark_all_step [OF assms]
      request_step(2) [OF assms] request_messages [OF assms] in simp_all)

lemma journal_boot_inv: "journal_inv (journal_boot random)" "messages (journal_boot random) = []"
proof -
  have rows: "rows (journal_boot random) = []" by (simp add: rows_def ring_def journal_boot_def)
  have "ids_ok [] 1" unfolding ids_ok_def by (intro exI [of _ 1]) simp
  then show "journal_inv (journal_boot random)"
    by (simp add: journal_inv_def rows_ok_def rows unread_ok_def unread_rows_def)
      (simp add: journal_boot_def shape_def fresh_id_def kInboxCapacity_def)
  show "messages (journal_boot random) = []" by (simp add: messages_def rows)
qed

interpretation journal: step_system journal_step journal_inv
  by unfold_locales (simp add: journal_event)

lemma journal_run_inv: "journal_inv (journal_run random evs)"
  unfolding journal_run_def by (rule journal.run_inv [OF journal_boot_inv(1)])

text \<open>
  C15. Whatever the device receives, sends, acknowledges and resets, the journal implements a plain list
  of at most 24 messages: the ring positions, identifiers, revisions, wraps of the counters and
  journal sessions never lose, reorder or alter a message.  A received or queued message goes to
  the end and the oldest leaves a full list, a delivery event changes the newest pending row that
  matches it, a reset ends the pending rows, and reading changes no message.
\<close>

theorem journal_refines_messages:
  "messages (journal_run random evs) = foldl message_step [] evs"
proof -
  have "messages (foldl journal_step j evs) = foldl message_step (messages j) evs" if "journal_inv j" for j
    using that by (induction evs arbitrary: j) (simp_all add: journal_event del: journal_step.simps message_step.simps)
  from this [OF journal_boot_inv(1)] show ?thesis by (simp add: journal_run_def journal_boot_inv(2))
qed

text \<open>
  C16. After any history the journal is consistent: the unread badge is the number of unread inbound
  rows, every unread row is inbound and belongs to the current journal session, the at most 24 rows
  have distinct non-zero identifiers, also after the identifier counter has wrapped, and the session
  is not zero.
\<close>

theorem journal_consistent:
  "cj_unread (journal_run random evs) = length (filter (\<lambda>e. ce_inbound e \<and> ce_unread e) (rows (journal_run random evs)))
   \<and> {e \<in> set (rows (journal_run random evs)). ce_unread e}
       \<subseteq> {e. ce_inbound e \<and> ce_journalSession e = cj_session (journal_run random evs)}
   \<and> distinct (map ce_id (rows (journal_run random evs))) \<and> 0 \<notin> ce_id ` set (rows (journal_run random evs))
   \<and> length (rows (journal_run random evs)) \<le> 24 \<and> cj_session (journal_run random evs) \<noteq> 0"
  using journal_run_inv [of random evs] distinct_ids [OF journal_run_inv, of random evs]
  by (auto simp: journal_inv_def rows_ok_def unread_ok_def unread_rows_def)

text \<open>
  C17. After any history a read acknowledgement is all or nothing: a request that does not parse, names
  another journal session or any identifier that is not of an inbound row of the current session is
  refused and the journal is unchanged; any other request is accepted, and exactly the rows it names
  lose their unread mark (all rows, with a new session, when the revision counter cannot number the
  whole batch), everything else in the rows but revision and session stamps staying as it was.
\<close>

theorem read_request_exact:
  "case read_parseCommand payload of
     Inl _ \<Rightarrow> markMessagesRead payload (journal_run random evs) = (ReadRejected ''request_rejected'', journal_run random evs)
   | Inr c \<Rightarrow> read_outcome c (journal_run random evs) (markMessagesRead payload (journal_run random evs))"
  by (rule request_step(1) [OF journal_run_inv])

end
