(* ===== verification/Spec2Isabelle.thy ===== *)
theory Spec2Isabelle
  imports Storage_Retry Nvs_Guard Radio_Link Advert_Repeat Focus_Laws Controller_Permissions Companion_Proofs Ble_Apply Security_Reach Session_Works
    Clock_Laws Clock_Editor Chat_Commands Journal_Read
begin

text \<open>
  Verification library of the Kitsu 868 firmware, a handheld companion device on an ESP32-S3 with a MeshCore LoRa
  radio and a BLE link to a phone.  The C++ sources are under \<^verbatim>\<open>src/src\<close>.

  \<^bold>\<open>Parts of the program and how they interact.\<close>  A phone pairs with the device and then sends
  authenticated requests over BLE, in a session (\<^verbatim>\<open>KitsuBleSession\<close>): bytes arrive in chunks and are reassembled into frames
  (\<^verbatim>\<open>LengthFrameParser\<close>), a frame is an envelope with a MAC and a sequence number
  (\<^verbatim>\<open>decodeAndVerifyEnvelope\<close>), the envelope names an operation that the controller's role must allow
  (\<^verbatim>\<open>controllerPermission\<close>), and the payload of \<^verbatim>\<open>action.apply\<close> is decoded
  (\<^verbatim>\<open>decodeBleActionCommand\<close>), checked against a durable replay ledger (\<^verbatim>\<open>BleActionReplayCache\<close>) and
  executed by \<^verbatim>\<open>applyAction\<close> in \<^verbatim>\<open>main.cpp\<close>.  The radio side transmits and listens
  (\<^verbatim>\<open>runSynchronousTxTurnaround\<close>, the polling and rearming policies), decodes the frames it overhears
  (\<^verbatim>\<open>decodeRepeatWire\<close>) and counts the repeats of the device's own messages and adverts in two trackers.
  The roots of the paired controllers are kept by \<^verbatim>\<open>KitsuDeviceSecurity\<close> in two sealed slots.  Writes to flash are scheduled by \<^verbatim>\<open>StorageRetrySchedule\<close> and protected by the NVS erase guard.  A focus
  timer (\<^verbatim>\<open>FocusSession\<close>) runs on top and survives reboots.  The wall clock (\<^verbatim>\<open>KitsuClock\<close>) is anchored by the console, the
  phone, the network or the one-button editor, advances with the wrapping millisecond counter and is saved as a
  snapshot.  Chat commands arrive as lines of text (\<^verbatim>\<open>parseCommand\<close>); sent and received messages live in the journal of
  \<^verbatim>\<open>main.cpp\<close>, a ring of 24 rows whose unread marks the phone acknowledges in batches (\<^verbatim>\<open>markMessagesRead\<close>).

  \<^bold>\<open>Conventions.\<close>  Classes are records whose fields carry a short prefix; methods are functions that take
  the record last and return it, paired with the method's result.  Unsigned integers are words of their width,
  so additions wrap; \<^verbatim>\<open>size_t\<close> and array indices are natural numbers, since every length in question is
  bounded far below the word size.  A pointer that may be null is an option; a buffer with a length is a byte list.
  Enumerations are datatypes, or word constants where the code stores or compares their numeric value.
  Cursor loops over a text are functions on the rest of the text.  Platform functions (HMAC-SHA-256, NVS, radio
  callbacks, clock) are arguments; where a theorem needs a documented property of one of them (a digest has 32
  bytes, a failed write leaves the old, the new or an invalid value) it is a named hypothesis, and the witness
  of that theorem supplies a concrete function.

  \<^bold>\<open>Termination.\<close>  All loops are total functions with a termination proof, except two that depend
  on their environment and are partial functions into an option: the transmit wait (\<^verbatim>\<open>tx_wait\<close>), which is
  shown to return when the clock advances, and the SHA-256 update loop, which is shown to return always.
  The JSON validator takes the nesting depth of the source as its bound, and the loop over the identifiers of a read
  request has fuel 25, enough because the code refuses a 25th identifier.  There is no fuel elsewhere.

  \<^bold>\<open>Theories.\<close>

  \<^item> \<^verbatim>\<open>Kitsu_Prelude\<close>: word types, list and word lemmas, little-endian images, the locale of step systems
    (an invariant kept by every call holds after every run).
  \<^item> \<^verbatim>\<open>Storage_Retry\<close> (\<^verbatim>\<open>kitsu_storage_retry\<close>): backoff is never bypassed, a no-space failure is latched, what new
    data does to a debounce deadline.
  \<^item> \<^verbatim>\<open>Nvs_Guard\<close> (\<^verbatim>\<open>kitsu_nvs_erase_guard\<close>, \<^verbatim>\<open>kitsu_nvs_headroom\<close>): the guard passes everything but the whole
    partition, retired records are removed exactly, the pairing gate.
  \<^item> \<^verbatim>\<open>Radio_Link\<close> (\<^verbatim>\<open>kitsu_radio_irq_poll.h\<close>, \<^verbatim>\<open>kitsu_rx_rearm_policy.h\<close>, \<^verbatim>\<open>kitsu_endpoint_rx_policy.h\<close>,
    \<^verbatim>\<open>kitsu_tx_turnaround.h\<close>): every transmit ends with exactly one receiver rearm, and it ends whenever
    the passes of the wait take time at all.
  \<^item> \<^verbatim>\<open>Repeat_Wire\<close> (\<^verbatim>\<open>kitsu_repeat_wire\<close>, \<^verbatim>\<open>kitsu_transport_scope\<close>): the frame decoder is the inverse of an encoder
    of well-formed frames; the transport code.
  \<^item> \<^verbatim>\<open>Repeat_Sources\<close>, \<^verbatim>\<open>Channel_Repeat\<close>, \<^verbatim>\<open>Advert_Repeat\<close> (the two repeat trackers): a heard copy is credited to one
    window, no open window and no pending report is evicted, every report is delivered once, the advert count is exact; the tracker invariant
    over all reachable states.
  \<^item> \<^verbatim>\<open>Focus_Session\<close>, \<^verbatim>\<open>Focus_Laws\<close> (\<^verbatim>\<open>kitsu_focus_session\<close>): every saved state can be restored, the elapsed time is
    exact over any run of ticks with clocks that do not run backwards and over a restore, a start is idempotent.
  \<^item> \<^verbatim>\<open>Controller_Permissions\<close> (\<^verbatim>\<open>kitsu_controller_permissions\<close>): the decision is the published policy; role bytes.
  \<^item> \<^verbatim>\<open>Companion_Codec\<close>, \<^verbatim>\<open>Companion_Frame\<close>, \<^verbatim>\<open>Companion_Json\<close>, \<^verbatim>\<open>Companion_Utf8\<close>, \<^verbatim>\<open>Companion_Envelope\<close>,
    \<^verbatim>\<open>Envelope_Laws\<close>, \<^verbatim>\<open>Companion_Proofs\<close> (\<^verbatim>\<open>kitsu_companion_protocol\<close>): the codecs accept exactly the canonical
    encodings, the frame parser refines a plain buffer, the validators accept exactly grammars stated without
    their tests, envelopes
    round-trip and are authentic, the MAC transcripts are unambiguous.
  \<^item> \<^verbatim>\<open>Ble_Action\<close>, \<^verbatim>\<open>Ble_Sha256\<close>, \<^verbatim>\<open>Ble_Replay\<close> (\<^verbatim>\<open>kitsu_ble_action\<close>) and \<^verbatim>\<open>Ble_Apply\<close> (the action handler of
    \<^verbatim>\<open>main.cpp\<close>): decoded commands are valid, the streaming digest is the digest of the concatenation, the ledger keeps
    its invariant and loads back what it saved, and the handler executes an action identifier at most once per
    protection window over every history of failures and reboots in which trusted time does not run backwards.
  \<^item> \<^verbatim>\<open>Security_Store\<close>, \<^verbatim>\<open>Security_Laws\<close>, \<^verbatim>\<open>Security_Reach\<close> (\<^verbatim>\<open>kitsu_device_security\<close> and the storage adapter of
    \<^verbatim>\<open>kitsu_esp32_security\<close>): the two-slot store of the controller secrets.  Under the contracts of storage and cipher, a
    pairing in a settled store is atomic over a reboot and a revoked controller does not return; one case in which the revocation of
    all controllers misses a record.
  \<^item> \<^verbatim>\<open>Ble_Control\<close>, \<^verbatim>\<open>Ble_Session\<close>, \<^verbatim>\<open>Session_Laws\<close>, \<^verbatim>\<open>Session_Props\<close>, \<^verbatim>\<open>Session_Works\<close> (\<^verbatim>\<open>kitsu_ble_session\<close>): the session state
    machine over the protocol, the permissions and the security store.  Over all reachable sessions, authentication
    rests on a proof under a stored root, the delegate sees authorized requests only, a served frame is not served
    again, the store changes only by a confirmed pairing or a request to be forgotten, three failed proofs
    lock the session out, and a handshake with the right proofs succeeds with exactly the
    two replies of the protocol; one way around a backoff.
  \<^item> \<^verbatim>\<open>Civil_Calendar\<close>, \<^verbatim>\<open>Kitsu_Clock\<close>, \<^verbatim>\<open>Clock_Text\<close>, \<^verbatim>\<open>Clock_Laws\<close>, \<^verbatim>\<open>Clock_Editor\<close> (\<^verbatim>\<open>kitsu_clock\<close>): the closed-form
    calendar is the calendar, times print and parse back, a trusted clock shows the anchor plus the elapsed
    milliseconds after any calls, a snapshot is restored but never trusted, the editor implements an abstract screen of cyclic fields
    and commits what it shows.
  \<^item> \<^verbatim>\<open>Chat_Contract\<close>, \<^verbatim>\<open>Chat_Laws\<close>, \<^verbatim>\<open>Chat_Commands\<close> (\<^verbatim>\<open>kitsu_chat_contract\<close>): every well-formed command has a line that
    parses to it, and every accepted line gives a well-formed command.
  \<^item> \<^verbatim>\<open>Message_Read\<close> (\<^verbatim>\<open>kitsu_message_read_contract\<close>), \<^verbatim>\<open>Chat_Journal\<close>, \<^verbatim>\<open>Journal_Laws\<close>, \<^verbatim>\<open>Journal_Runs\<close>, \<^verbatim>\<open>Journal_Read\<close> (the
    journal of \<^verbatim>\<open>main.cpp\<close>): over all histories the ring implements a list of at most 24 messages, badge and
    identifiers are consistent over wraps of every counter, and a read request is applied as a whole or not at all.

  \<^bold>\<open>Not modelled.\<close>  The rest of \<^verbatim>\<open>main.cpp\<close> (device loop, display, menus), the mesh transport and the vendored
  MeshCore library, BLE GATT and firmware update, Wi-Fi, gateway and enrollment runtimes, the game logic and the
  asset tables; the ESP32 adapters are thin layers over ESP-IDF.  The byte images assume the little-endian target and the packed layouts of the
  sources.  Erasure of secrets from memory has no observable effect in the model and is left out.
\<close>

end
